(* ===== verification/LL_Prelude.thy ===== *)
theory LL_Prelude
  imports Complex_Main "HOL-Library.Word" "HOL-Library.Log_Nat"
begin

text \<open>
  Shared vocabulary of the development: the JavaScript values the sources work with (UTF-16
  strings, byte buffers, numbers with \<open>NaN\<close> and the infinities, insertion-ordered maps), decimal
  numerals, IEEE-754 rounding, and the generic lemmas on them. Components put their automation
  into the collections \<open>ll_simps\<close> (unfoldings of small accessors) and \<open>ll_inv\<close> (invariant
  preservation).
\<close>

named_theorems ll_simps
named_theorems ll_inv

section \<open>Strings and buffers\<close>

text \<open>
  A JavaScript string is a sequence of UTF-16 code units; a Node \<open>Buffer\<close> (or a Lua string inside
  Redis) is a sequence of bytes. \<open>js\<close> and \<open>bs\<close> turn an ASCII literal into either.
\<close>

type_synonym unit16 = "16 word"
type_synonym byte = "8 word"
type_synonym jsstr = "16 word list"
type_synonym bytes = "8 word list"

definition js :: "string \<Rightarrow> jsstr" where
  "js s = map of_char s"

definition bs :: "string \<Rightarrow> bytes" where
  "bs s = map of_char s"

definition high_surrogate :: "unit16 \<Rightarrow> bool" where
  "high_surrogate c \<longleftrightarrow> 0xD800 \<le> c \<and> c \<le> 0xDBFF"

definition low_surrogate :: "unit16 \<Rightarrow> bool" where
  "low_surrogate c \<longleftrightarrow> 0xDC00 \<le> c \<and> c \<le> 0xDFFF"

text \<open>
  \<open>Buffer.from(s, 'utf8')\<close>: a surrogate pair gives four bytes, a lone surrogate the replacement
  character U+FFFD.
\<close>

definition utf8_3 :: "nat \<Rightarrow> bytes" where
  "utf8_3 n = [of_nat (0xE0 + n div 4096), of_nat (0x80 + n div 64 mod 64), of_nat (0x80 + n mod 64)]"

definition utf8_4 :: "nat \<Rightarrow> bytes" where
  "utf8_4 n = [of_nat (0xF0 + n div 262144), of_nat (0x80 + n div 4096 mod 64),
     of_nat (0x80 + n div 64 mod 64), of_nat (0x80 + n mod 64)]"

definition surrogate_point :: "unit16 \<Rightarrow> unit16 \<Rightarrow> nat" where
  "surrogate_point c d = 0x10000 + (unat c - 0xD800) * 1024 + (unat d - 0xDC00)"

fun utf8 :: "jsstr \<Rightarrow> bytes" where
  "utf8 [] = []"
| "utf8 (c # cs) =
     (if c < 0x80 then ucast c # utf8 cs
      else if c < 0x800 then of_nat (0xC0 + unat c div 64) # of_nat (0x80 + unat c mod 64) # utf8 cs
      else if high_surrogate c then
        (case cs of [] \<Rightarrow> utf8_3 0xFFFD
         | d # ds \<Rightarrow> if low_surrogate d then utf8_4 (surrogate_point c d) @ utf8 ds
                    else utf8_3 0xFFFD @ utf8 cs)
      else if low_surrogate c then utf8_3 0xFFFD @ utf8 cs
      else utf8_3 (unat c) @ utf8 cs)"

text \<open>\<open>Buffer.byteLength(s)\<close>.\<close>

definition byteLength :: "jsstr \<Rightarrow> nat" where
  "byteLength s = length (utf8 s)"

definition ascii :: "jsstr \<Rightarrow> bool" where
  "ascii s \<longleftrightarrow> (\<forall>c \<in> set s. c < 0x80)"

lemma utf8_ascii: "ascii s \<Longrightarrow> utf8 s = map ucast s"
  by (induction s rule: utf8.induct) (auto simp: ascii_def)

lemma byteLength_ascii: "ascii s \<Longrightarrow> byteLength s = length s"
  by (simp add: byteLength_def utf8_ascii)

lemma ascii_Cons [simp]: "ascii (c # cs) \<longleftrightarrow> c < 0x80 \<and> ascii cs"
  by (simp add: ascii_def)

lemma ascii_Nil [simp]: "ascii []"
  by (simp add: ascii_def)

lemma ascii_append [simp]: "ascii (s @ t) \<longleftrightarrow> ascii s \<and> ascii t"
  by (auto simp: ascii_def)

lemma utf8_length_step: "Suc (length (utf8 cs)) \<le> length (utf8 (c # cs)) \<or> high_surrogate c"
  by (simp add: utf8_3_def)

section \<open>Numbers\<close>

text \<open>
  A JavaScript number is a double. The finite ones are modelled by their real value; \<open>NaN\<close> and the
  infinities are kept because the option validators test for them. Every comparison with \<open>NaN\<close> is
  false.
\<close>

datatype jsnum = JNum real | JNaN | JInf | JNegInf

definition MAX_SAFE_INTEGER :: int where
  "MAX_SAFE_INTEGER = 9007199254740991"

fun isFinite :: "jsnum \<Rightarrow> bool" where
  "isFinite (JNum _) = True"
| "isFinite _ = False"

fun isInteger :: "jsnum \<Rightarrow> bool" where
  "isInteger (JNum r) = (of_int \<lfloor>r\<rfloor> = r)"
| "isInteger _ = False"

fun isSafeInteger :: "jsnum \<Rightarrow> bool" where
  "isSafeInteger (JNum r) = (of_int \<lfloor>r\<rfloor> = r \<and> \<bar>\<lfloor>r\<rfloor>\<bar> \<le> MAX_SAFE_INTEGER)"
| "isSafeInteger _ = False"

fun jless :: "jsnum \<Rightarrow> jsnum \<Rightarrow> bool" where
  "jless (JNum a) (JNum b) = (a < b)"
| "jless JNaN _ = False"
| "jless _ JNaN = False"
| "jless JNegInf y = (y \<noteq> JNegInf)"
| "jless _ JNegInf = False"
| "jless JInf _ = False"
| "jless _ JInf = True"

fun jle :: "jsnum \<Rightarrow> jsnum \<Rightarrow> bool" where
  "jle (JNum a) (JNum b) = (a \<le> b)"
| "jle JNaN _ = False"
| "jle _ JNaN = False"
| "jle JNegInf _ = True"
| "jle _ JNegInf = False"
| "jle JInf y = (y = JInf)"
| "jle _ JInf = True"

abbreviation jint :: "int \<Rightarrow> jsnum" where
  "jint n \<equiv> JNum (of_int n)"

text \<open>The integer a validated option holds.\<close>

fun num_int :: "jsnum \<Rightarrow> int" where
  "num_int (JNum r) = \<lfloor>r\<rfloor>"
| "num_int _ = 0"

lemma isSafeInteger_jint [simp]: "isSafeInteger (jint n) \<longleftrightarrow> \<bar>n\<bar> \<le> MAX_SAFE_INTEGER"
  by simp

lemma isInteger_jint [simp]: "isInteger (jint n)"
  by simp

lemma isSafeInteger_cases:
  assumes "isSafeInteger x"
  obtains n where "x = jint n" and "\<bar>n\<bar> \<le> MAX_SAFE_INTEGER"
  using assms by (cases x) auto

lemma isInteger_cases:
  assumes "isInteger x"
  obtains n where "x = jint n"
  using assms by (cases x) auto

lemma num_int_jint [simp]: "num_int (jint n) = n"
  by simp

text \<open>The nullish operator \<open>a ?? b\<close>.\<close>

fun nullish :: "'a option \<Rightarrow> 'a \<Rightarrow> 'a" where
  "nullish (Some a) _ = a"
| "nullish None b = b"

text \<open>\<open>option?.enabled !== false\<close>: an absent switch is on.\<close>

definition not_false :: "bool option \<Rightarrow> bool" where
  "not_false e \<longleftrightarrow> e \<noteq> Some False"

text \<open>A raised JavaScript error: its class and its message.\<close>

datatype js_error = RangeError string | TypeError string | Error string

section \<open>IEEE-754 rounding\<close>

text \<open>
  \<open>fl x\<close> is the double nearest to \<open>x\<close> (ties to even), for results in the normal range, which is
  where the sources use it. The exponent is found by an integer logarithm so the definition
  computes.
\<close>

definition ilog2 :: "real \<Rightarrow> int" where
  "ilog2 x = (if 1 \<le> x then bitlen \<lfloor>x\<rfloor> - 1 else - bitlen (\<lceil>1 / x\<rceil> - 1))"

definition round_even :: "real \<Rightarrow> int" where
  "round_even y = (let f = \<lfloor>y\<rfloor>; d = y - of_int f in
     if d < 1 / 2 then f else if 1 / 2 < d then f + 1 else if even f then f else f + 1)"

definition fl :: "real \<Rightarrow> real" where
  "fl x = (if x = 0 then 0
     else let u = 2 powi (ilog2 \<bar>x\<bar> - 52) in of_int (round_even (x / u)) * u)"

text \<open>
  Arithmetic on numbers, for the operators the option parsers use. Overflow past the largest double
  gives an infinity.
\<close>

definition to_num :: "real \<Rightarrow> jsnum" where
  "to_num x = (let y = fl x in
     if 2 powi 1024 \<le> y then JInf else if y \<le> - (2 powi 1024) then JNegInf else JNum y)"

fun jfloor :: "jsnum \<Rightarrow> jsnum" where
  "jfloor (JNum x) = jint \<lfloor>x\<rfloor>"
| "jfloor x = x"

text \<open>Scaling by a positive finite factor, and dividing by one.\<close>

fun jscale :: "jsnum \<Rightarrow> real \<Rightarrow> jsnum" where
  "jscale (JNum x) c = to_num (x * c)"
| "jscale x _ = x"

fun jover :: "jsnum \<Rightarrow> real \<Rightarrow> jsnum" where
  "jover (JNum x) c = to_num (x / c)"
| "jover x _ = x"

lemma round_even_error: "\<bar>of_int (round_even y) - y\<bar> \<le> 1 / 2"
  by (auto simp: round_even_def Let_def)

lemma round_even_nonneg: "0 \<le> y \<Longrightarrow> 0 \<le> round_even y"
  by (auto simp: round_even_def Let_def)

lemma round_even_mono_int: "y \<le> of_int n \<Longrightarrow> round_even y \<le> n"
  by (auto simp: round_even_def Let_def le_floor_iff floor_le_iff floor_less_iff)

lemma bitlen_bounds_int: "0 < n \<Longrightarrow> 2 powi (bitlen n - 1) \<le> (of_int n :: real) \<and> (of_int n :: real) < 2 powi (bitlen n)"
proof -
  assume n: "0 < n"
  then have b: "2 ^ nat (bitlen n - 1) \<le> n" "n < 2 ^ nat (bitlen n)"
    using bitlen_bounds [OF n] by auto
  have pos: "0 < bitlen n"
    using b(2) n bitlen_nonneg [of n] by (cases "bitlen n = 0") auto
  from b have "(2::real) ^ nat (bitlen n - 1) \<le> of_int n" "(of_int n::real) < 2 ^ nat (bitlen n)"
    by (metis of_int_le_iff of_int_numeral of_int_power, metis of_int_less_iff of_int_numeral of_int_power)
  then show ?thesis using pos by (auto simp: power_int_def)
qed

lemma ilog2_bounds:
  assumes "0 < x"
  shows "2 powi (ilog2 x) \<le> x" and "x < 2 powi (ilog2 x + 1)"
proof -
  have "2 powi (ilog2 x) \<le> x \<and> x < 2 powi (ilog2 x + 1)"
  proof (cases "1 \<le> x")
    case True
    then have f: "0 < \<lfloor>x\<rfloor>" by simp
    have up: "\<lfloor>x\<rfloor> + 1 \<le> 2 ^ nat (bitlen \<lfloor>x\<rfloor>)"
      using bitlen_bounds [OF f] by linarith
    have "(of_int (\<lfloor>x\<rfloor> + 1) :: real) \<le> of_int (2 ^ nat (bitlen \<lfloor>x\<rfloor>))"
      using up by (simp only: of_int_le_iff)
    then have "x < 2 powi (bitlen \<lfloor>x\<rfloor>)"
      by (simp add: power_int_def bitlen_nonneg) linarith
    with True bitlen_bounds_int [OF f] show ?thesis
      by (simp add: ilog2_def) linarith
  next
    case False
    define m where "m = \<lceil>1 / x\<rceil> - 1"
    have y: "1 < 1 / x" using False assms by simp
    then have m: "0 < m" unfolding m_def by linarith
    have lo: "of_int m < 1 / x" and hi: "1 / x \<le> of_int m + 1" unfolding m_def by linarith+
    have up: "m + 1 \<le> 2 ^ nat (bitlen m)"
      using bitlen_bounds [OF m] by linarith
    have "(of_int (m + 1) :: real) \<le> of_int (2 ^ nat (bitlen m))"
      using up by (simp only: of_int_le_iff)
    then have A: "1 / x \<le> 2 powi (bitlen m)"
      using hi by (simp add: power_int_def bitlen_nonneg)
    have B: "2 powi (bitlen m - 1) < 1 / x"
      using bitlen_bounds_int [OF m] lo by linarith
    have "2 powi (- bitlen m) \<le> x"
      using A assms by (simp add: power_int_minus field_simps)
    moreover have "x < 2 powi (- bitlen m + 1)"
    proof -
      have "2 powi (- bitlen m + 1) = 1 / (2 powi (bitlen m - 1) :: real)"
        by (simp add: power_int_minus_divide [symmetric])
      moreover have "x < 1 / (2 powi (bitlen m - 1))"
        using B assms by (simp add: field_simps)
      ultimately show ?thesis by simp
    qed
    ultimately show ?thesis using False by (simp add: ilog2_def m_def [symmetric])
  qed
  then show "2 powi (ilog2 x) \<le> x" and "x < 2 powi (ilog2 x + 1)" by auto
qed

lemma fl_error: "\<bar>fl x - x\<bar> \<le> \<bar>x\<bar> * 2 powi (-53)"
proof (cases "x = 0")
  case False
  define u :: real where "u = 2 powi (ilog2 \<bar>x\<bar> - 52)"
  have u: "0 < u" by (simp add: u_def)
  have "2 powi (ilog2 \<bar>x\<bar>) \<le> \<bar>x\<bar>" using ilog2_bounds(1) [of "\<bar>x\<bar>"] False by simp
  then have small: "u / 2 \<le> \<bar>x\<bar> * 2 powi (-53)"
    by (simp add: u_def power_int_diff power_int_minus field_simps)
  have "fl x - x = (of_int (round_even (x / u)) - x / u) * u"
    using False u by (simp add: fl_def u_def [symmetric] field_simps)
  then have "\<bar>fl x - x\<bar> = \<bar>of_int (round_even (x / u)) - x / u\<bar> * u"
    using u by (simp add: abs_mult)
  also have "\<dots> \<le> (1 / 2) * u"
    using round_even_error u by (intro mult_right_mono) auto
  finally show ?thesis using small by simp
qed (simp add: fl_def)

lemma fl_nonneg: "0 \<le> x \<Longrightarrow> 0 \<le> fl x"
  by (auto simp: fl_def Let_def intro!: mult_nonneg_nonneg round_even_nonneg)

lemma fl_scaled_le:
  assumes "0 \<le> x" and "x \<le> 9 / 10 * y"
  shows "fl x \<le> y"
proof -
  have "fl x \<le> x + x * 2 powi (-53)" using fl_error [of x] assms by linarith
  also have "\<dots> \<le> x + x * (1 / 10)"
    using assms by (intro add_left_mono mult_left_mono) (auto simp: power_int_minus)
  finally show ?thesis using assms by linarith
qed

end
