(* ===== verification/Circuit_Breaker.thy ===== *)
theory Circuit_Breaker
  imports LL_Prelude
begin

text \<open>
  The circuit breaker in front of L2 (\<open>cache/circuitBreaker.ts\<close>): its state, the operations
  \<open>canCall\<close>, \<open>recordSuccess\<close> and \<open>recordFailure\<close> with their epoch guard, runs of them as sequences of
  events, and the facts on runs: epochs never decrease, an epoch lets one probe through at most, and a
  result from before an opening changes nothing.
\<close>

section \<open>State\<close>

datatype CircuitBreakerState = Closed | Open | HalfOpen

record CircuitBreakerOptions =
  cbo_enabled :: "bool option"
  cbo_failureThreshold :: "jsnum option"
  cbo_cooldownMs :: "jsnum option"

record CircuitBreaker =
  cb_state :: CircuitBreakerState
  cb_failures :: int
  cb_openedAt :: int
  cb_epoch :: int
  cb_probeInFlight :: bool

definition DEFAULT_BREAKER_FAILURE_THRESHOLD :: jsnum where
  "DEFAULT_BREAKER_FAILURE_THRESHOLD = JNum 3"

definition DEFAULT_BREAKER_COOLDOWN_MS :: jsnum where
  "DEFAULT_BREAKER_COOLDOWN_MS = JNum 30000"

definition newBreaker :: CircuitBreaker where
  "newBreaker = \<lparr>cb_state = Closed, cb_failures = 0, cb_openedAt = 0, cb_epoch = 0,
     cb_probeInFlight = False\<rparr>"

definition getFailureThreshold :: "CircuitBreakerOptions \<Rightarrow> jsnum" where
  "getFailureThreshold opts = nullish (cbo_failureThreshold opts) DEFAULT_BREAKER_FAILURE_THRESHOLD"

definition getCooldownMs :: "CircuitBreakerOptions \<Rightarrow> jsnum" where
  "getCooldownMs opts = nullish (cbo_cooldownMs opts) DEFAULT_BREAKER_COOLDOWN_MS"

section \<open>Operations\<close>

text \<open>\<open>now\<close> is the value of \<open>Date.now()\<close> during the call.\<close>

definition cb_open :: "int \<Rightarrow> CircuitBreaker \<Rightarrow> CircuitBreaker" where
  "cb_open now b = b\<lparr>cb_state := Open, cb_openedAt := now, cb_epoch := cb_epoch b + 1,
     cb_probeInFlight := False\<rparr>"

definition canCall :: "CircuitBreakerOptions \<Rightarrow> int \<Rightarrow> CircuitBreaker \<Rightarrow> bool \<times> CircuitBreaker" where
  "canCall opts now b =
     (if cbo_enabled opts = Some False then (True, b)
      else if cb_state b = Closed then (True, b)
      else
        let b1 = (if cb_state b = Open \<and> jle (getCooldownMs opts) (jint (now - cb_openedAt b))
                  then b\<lparr>cb_state := HalfOpen, cb_epoch := cb_epoch b + 1, cb_probeInFlight := False\<rparr>
                  else b)
        in if cb_state b1 = HalfOpen
           then if cb_probeInFlight b1 then (False, b1) else (True, b1\<lparr>cb_probeInFlight := True\<rparr>)
           else (False, b1))"

definition recordSuccess :: "CircuitBreakerOptions \<Rightarrow> int option \<Rightarrow> CircuitBreaker \<Rightarrow> CircuitBreaker" where
  "recordSuccess opts ep b =
     (if cbo_enabled opts = Some False then b
      else if ep \<noteq> None \<and> ep \<noteq> Some (cb_epoch b) then b
      else b\<lparr>cb_state := Closed, cb_probeInFlight := False, cb_failures := 0, cb_openedAt := 0\<rparr>)"

definition recordFailure ::
  "CircuitBreakerOptions \<Rightarrow> int \<Rightarrow> int option \<Rightarrow> CircuitBreaker \<Rightarrow> CircuitBreakerState \<times> CircuitBreaker" where
  "recordFailure opts now ep b =
     (if cbo_enabled opts = Some False then (cb_state b, b)
      else if ep \<noteq> None \<and> ep \<noteq> Some (cb_epoch b) then (cb_state b, b)
      else if cb_state b = HalfOpen then let b1 = cb_open now b in (cb_state b1, b1)
      else let b1 = b\<lparr>cb_failures := cb_failures b + 1\<rparr>;
               b2 = (if jle (getFailureThreshold opts) (jint (cb_failures b1)) then cb_open now b1 else b1)
           in (cb_state b2, b2))"

section \<open>Runs\<close>

text \<open>
  Callers interleave the three operations freely; a run is a list of calls with the clock value of
  each, and its trace records for every call what a \<open>canCall\<close> answered and the state after it.
\<close>

datatype cb_event = CanCall int | Success "int option" | Failure int "int option"

fun cb_step :: "CircuitBreakerOptions \<Rightarrow> cb_event \<Rightarrow> CircuitBreaker \<Rightarrow> bool \<times> CircuitBreaker" where
  "cb_step opts (CanCall now) b = canCall opts now b"
| "cb_step opts (Success ep) b = (False, recordSuccess opts ep b)"
| "cb_step opts (Failure now ep) b = (False, snd (recordFailure opts now ep b))"

fun cb_trace :: "CircuitBreakerOptions \<Rightarrow> cb_event list \<Rightarrow> CircuitBreaker \<Rightarrow> (bool \<times> CircuitBreaker) list" where
  "cb_trace opts [] b = []"
| "cb_trace opts (e # es) b = (let r = cb_step opts e b in r # cb_trace opts es (snd r))"

fun cb_run :: "CircuitBreakerOptions \<Rightarrow> cb_event list \<Rightarrow> CircuitBreaker \<Rightarrow> CircuitBreaker" where
  "cb_run opts [] b = b"
| "cb_run opts (e # es) b = cb_run opts es (snd (cb_step opts e b))"

lemmas cb_defs = canCall_def recordSuccess_def recordFailure_def cb_open_def Let_def

text \<open>A granted call that is the half-open probe of epoch \<open>n\<close>.\<close>

definition is_probe :: "int \<Rightarrow> bool \<times> CircuitBreaker \<Rightarrow> bool" where
  "is_probe n r \<longleftrightarrow> fst r \<and> cb_state (snd r) = HalfOpen \<and> cb_epoch (snd r) = n"

section \<open>Facts on single steps and runs\<close>

lemma cb_step_epoch_mono: "cb_epoch b \<le> cb_epoch (snd (cb_step opts e b))"
  by (cases e) (auto simp: cb_defs)

lemma cb_trace_epoch_mono: "r \<in> set (cb_trace opts es b) \<Longrightarrow> cb_epoch b \<le> cb_epoch (snd r)"
proof (induction es arbitrary: b)
  case (Cons e es)
  then show ?case
    using cb_step_epoch_mono [of b opts e] by (fastforce simp: Let_def)
qed simp

lemma cb_run_epoch_mono: "cb_epoch b \<le> cb_epoch (cb_run opts es b)"
proof (induction es arbitrary: b)
  case (Cons e es)
  then show ?case
    using cb_step_epoch_mono [of b opts e] order_trans by fastforce
qed simp

lemma cb_run_append: "cb_run opts (es @ fs) b = cb_run opts fs (cb_run opts es b)"
  by (induction es arbitrary: b) auto

lemma cb_step_opens: "cb_state b \<noteq> Open \<Longrightarrow> cb_state (snd (cb_step opts e b)) = Open
    \<Longrightarrow> cb_epoch b < cb_epoch (snd (cb_step opts e b))"
  by (cases e) (auto simp: cb_defs split: if_splits)

text \<open>A probe leaves its epoch spent: the state is no longer half-open with a free slot at that epoch.\<close>

definition spent :: "int \<Rightarrow> CircuitBreaker \<Rightarrow> bool" where
  "spent n b \<longleftrightarrow> n < cb_epoch b \<or> n = cb_epoch b \<and> (cb_state b \<noteq> HalfOpen \<or> cb_probeInFlight b)"

lemma probe_spends: "cbo_enabled opts \<noteq> Some False \<Longrightarrow> is_probe n (cb_step opts e b) \<Longrightarrow> spent n (snd (cb_step opts e b))"
  by (cases e) (auto simp: cb_defs is_probe_def spent_def split: if_splits)

lemma spent_step: "spent n b \<Longrightarrow> spent n (snd (cb_step opts e b))"
  by (cases e) (auto simp: cb_defs spent_def split: if_splits)

lemma spent_no_probe_step: "cbo_enabled opts \<noteq> Some False \<Longrightarrow> spent n b \<Longrightarrow> \<not> is_probe n (cb_step opts e b)"
  by (cases e) (auto simp: cb_defs spent_def is_probe_def split: if_splits)

lemma spent_no_probe:
  "cbo_enabled opts \<noteq> Some False \<Longrightarrow> spent n b \<Longrightarrow> filter (is_probe n) (cb_trace opts es b) = []"
  by (induction es arbitrary: b) (simp_all add: Let_def spent_no_probe_step spent_step)

lemma disabled_step: "cbo_enabled opts = Some False \<Longrightarrow> snd (cb_step opts e b) = b"
  by (cases e) (auto simp: cb_defs)

lemma disabled_no_probe:
  "cbo_enabled opts = Some False \<Longrightarrow> cb_state b = Closed \<Longrightarrow> filter (is_probe n) (cb_trace opts es b) = []"
  by (induction es) (auto simp: Let_def disabled_step is_probe_def)

lemma enabled_one_probe:
  "cbo_enabled opts \<noteq> Some False \<Longrightarrow> length (filter (is_probe n) (cb_trace opts es b)) \<le> 1"
proof (induction es arbitrary: b)
  case (Cons e es)
  show ?case
  proof (cases "is_probe n (cb_step opts e b)")
    case True
    then show ?thesis using Cons.prems by (simp add: Let_def spent_no_probe probe_spends)
  next
    case False
    then show ?thesis using Cons by (simp add: Let_def)
  qed
qed simp

lemma trace_opened:
  assumes "cb_state b \<noteq> Open" and "r \<in> set (cb_trace opts es b)" and "cb_state (snd r) = Open"
  shows "cb_epoch b < cb_epoch (cb_run opts es b)"
  using assms
proof (induction es arbitrary: b)
  case (Cons e es)
  let ?b = "snd (cb_step opts e b)"
  show ?case
  proof (cases "cb_state ?b = Open")
    case True
    have "cb_epoch b < cb_epoch ?b" using cb_step_opens Cons.prems(1) True by blast
    then show ?thesis using cb_run_epoch_mono [of ?b opts es] by simp
  next
    case False
    then have "r \<in> set (cb_trace opts es ?b)" using Cons.prems by (auto simp: Let_def)
    then have "cb_epoch ?b < cb_epoch (cb_run opts es ?b)" using Cons.IH False Cons.prems(3) by blast
    then show ?thesis using cb_step_epoch_mono [of b opts e] by simp
  qed
qed simp

text \<open>Failures reported without an epoch, from a breaker that is closed or open.\<close>

lemma failures_run:
  assumes "cb_state b = (if t \<le> n \<and> 0 < n then Open else Closed)" and "cb_failures b = n" and "0 \<le> n"
  shows "cb_state (cb_run \<lparr>cbo_enabled = None, cbo_failureThreshold = Some (jint t), cbo_cooldownMs = c\<rparr>
      (map (\<lambda>now. Failure now None) ts) b)
    = (if 0 < n + int (length ts) \<and> t \<le> n + int (length ts) then Open else Closed)"
  using assms
proof (induction ts arbitrary: b n)
  case (Cons now ts)
  let ?o = "\<lparr>cbo_enabled = None, cbo_failureThreshold = Some (jint t), cbo_cooldownMs = c\<rparr>"
  let ?b = "snd (recordFailure ?o now None b)"
  have "cb_state ?b = (if t \<le> n + 1 \<and> 0 < n + 1 then Open else Closed) \<and> cb_failures ?b = n + 1"
    using Cons.prems by (auto simp: cb_defs getFailureThreshold_def simp flip: of_int_add split: if_splits)
  then show ?case using Cons.IH [of ?b "n + 1"] Cons.prems(3) by (simp add: algebra_simps)
qed auto

section \<open>Properties\<close>

text \<open>
  C15. Along any interleaving of \<open>canCall\<close>, \<open>recordSuccess\<close> and \<open>recordFailure\<close> on a new breaker,
  an epoch grants at most one half-open probe.
\<close>

theorem one_probe_per_epoch: "length (filter (is_probe n) (cb_trace opts es newBreaker)) \<le> 1"
  using enabled_one_probe [of opts n es newBreaker] disabled_no_probe [of opts newBreaker n es]
  by (cases "cbo_enabled opts = Some False") (auto simp: newBreaker_def)

text \<open>
  A caller that read \<open>currentEpoch\<close> before the breaker opened and reports its result after is
  ignored: whatever happened since, its success cannot close the breaker and its failure cannot
  re-open or count against it.
\<close>

theorem late_result_ignored:
  assumes "cb_state b \<noteq> Open"
    and "\<exists>r \<in> set (cb_trace opts es b). cb_state (snd r) = Open"
  shows "recordSuccess opts (Some (cb_epoch b)) (cb_run opts es b) = cb_run opts es b
    \<and> recordFailure opts now (Some (cb_epoch b)) (cb_run opts es b)
      = (cb_state (cb_run opts es b), cb_run opts es b)"
proof -
  have "cb_epoch b < cb_epoch (cb_run opts es b)"
    using trace_opened assms by blast
  then show ?thesis by (simp add: recordSuccess_def recordFailure_def)
qed

theorem late_result_ignored_witness:
  "recordSuccess \<lparr>cbo_enabled = None, cbo_failureThreshold = Some (JNum 1), cbo_cooldownMs = None\<rparr> (Some 0)
     (newBreaker\<lparr>cb_state := Open, cb_failures := 1, cb_openedAt := 7, cb_epoch := 1\<rparr>)
   = newBreaker\<lparr>cb_state := Open, cb_failures := 1, cb_openedAt := 7, cb_epoch := 1\<rparr>"
  using late_result_ignored [of newBreaker
      "\<lparr>cbo_enabled = None, cbo_failureThreshold = Some (JNum 1), cbo_cooldownMs = None\<rparr>"
      "[Failure 7 None]"]
  by (simp add: cb_defs newBreaker_def getFailureThreshold_def)

text \<open>
  On a new breaker with an integer threshold \<open>t\<close>, a run of failures leaves it open exactly when
  there was at least one and their number reaches \<open>t\<close>, and it is closed otherwise.
\<close>

theorem failures_open:
  "cb_state (cb_run \<lparr>cbo_enabled = None, cbo_failureThreshold = Some (jint t), cbo_cooldownMs = c\<rparr>
     (map (\<lambda>now. Failure now None) ts) newBreaker)
   = (if ts \<noteq> [] \<and> t \<le> int (length ts) then Open else Closed)"
  using failures_run [of newBreaker t 0 c ts] by (simp add: newBreaker_def)

text \<open>
  Recovery: an open breaker refuses every call before its cooldown has elapsed, without changing;
  from the cooldown on the next call is let through as a probe, a second one is refused while the
  probe runs, the probe's success (reported with the epoch it started in) closes the breaker with its
  failure count cleared, and the probe's failure opens it again at the time of that failure.
\<close>

theorem open_recovers:
  assumes "cbo_enabled opts \<noteq> Some False" and "cb_state b = Open"
    and "cbo_cooldownMs opts = Some (jint c)"
  shows "canCall opts now b =
      (if now - cb_openedAt b < c then (False, b)
       else (True, b\<lparr>cb_state := HalfOpen, cb_epoch := cb_epoch b + 1, cb_probeInFlight := True\<rparr>))
    \<and> (c \<le> now - cb_openedAt b \<longrightarrow>
        (let b1 = snd (canCall opts now b) in
          \<not> fst (canCall opts now2 b1) \<and> snd (canCall opts now2 b1) = b1
          \<and> cb_state (recordSuccess opts (Some (cb_epoch b1)) b1) = Closed
          \<and> cb_failures (recordSuccess opts (Some (cb_epoch b1)) b1) = 0
          \<and> cb_state (snd (recordFailure opts now2 (Some (cb_epoch b1)) b1)) = Open
          \<and> cb_openedAt (snd (recordFailure opts now2 (Some (cb_epoch b1)) b1)) = now2))"
  using assms by (auto simp: cb_defs getCooldownMs_def simp flip: of_int_diff)

theorem open_recovers_witness:
  "canCall \<lparr>cbo_enabled = None, cbo_failureThreshold = None, cbo_cooldownMs = Some (jint 100)\<rparr> 150
     (newBreaker\<lparr>cb_state := Open, cb_openedAt := 50\<rparr>)
   = (True, newBreaker\<lparr>cb_state := HalfOpen, cb_openedAt := 50, cb_epoch := 1, cb_probeInFlight := True\<rparr>)"
  using open_recovers [of "\<lparr>cbo_enabled = None, cbo_failureThreshold = None, cbo_cooldownMs = Some (jint 100)\<rparr>"
      "newBreaker\<lparr>cb_state := Open, cb_openedAt := 50\<rparr>" 100 150 0]
  by (simp add: newBreaker_def)

end
