(* ===== verification/JS_Map.thy ===== *)
theory JS_Map
  imports LL_Prelude
begin

text \<open>
  The JavaScript \<open>Map\<close> (and \<open>Set\<close>, with unit values): an association list in insertion order, where
  setting a present key keeps its place. The locale \<open>js_map\<close> states the contract the caches rely on
  and derives the ledger lemmas from it: how the sum of the entries' weights moves under \<open>set\<close> and
  \<open>delete\<close>. It is interpreted on the association lists.
\<close>

type_synonym ('k, 'v) omap = "('k \<times> 'v) list"

definition om_get :: "('k, 'v) omap \<Rightarrow> 'k \<Rightarrow> 'v option" where
  "om_get m k = map_of m k"

fun om_set :: "('k, 'v) omap \<Rightarrow> 'k \<Rightarrow> 'v \<Rightarrow> ('k, 'v) omap" where
  "om_set [] k v = [(k, v)]"
| "om_set ((k', v') # m) k v = (if k' = k then (k, v) # m else (k', v') # om_set m k v)"

definition om_del :: "('k, 'v) omap \<Rightarrow> 'k \<Rightarrow> ('k, 'v) omap" where
  "om_del m k = filter (\<lambda>p. fst p \<noteq> k) m"

definition om_has :: "('k, 'v) omap \<Rightarrow> 'k \<Rightarrow> bool" where
  "om_has m k \<longleftrightarrow> om_get m k \<noteq> None"

definition om_ok :: "('k, 'v) omap \<Rightarrow> bool" where
  "om_ok m \<longleftrightarrow> distinct (map fst m)"

definition om_sum :: "('k \<Rightarrow> 'v \<Rightarrow> int) \<Rightarrow> ('k, 'v) omap \<Rightarrow> int" where
  "om_sum w m = (\<Sum>p\<leftarrow>m. w (fst p) (snd p))"

text \<open>What a map weighs at one key: zero when the key is absent.\<close>

definition wt :: "('k \<Rightarrow> 'v \<Rightarrow> int) \<Rightarrow> 'k \<Rightarrow> 'v option \<Rightarrow> int" where
  "wt w k ov = (case ov of None \<Rightarrow> 0 | Some v \<Rightarrow> w k v)"

lemma wt_simps [simp]: "wt w k None = 0" "wt w k (Some v) = w k v"
  by (simp_all add: wt_def)

section \<open>The interface\<close>

locale js_map =
  fixes get :: "'m \<Rightarrow> 'k \<Rightarrow> 'v option"
    and put :: "'m \<Rightarrow> 'k \<Rightarrow> 'v \<Rightarrow> 'm"
    and del :: "'m \<Rightarrow> 'k \<Rightarrow> 'm"
    and ok :: "'m \<Rightarrow> bool"
    and total :: "('k \<Rightarrow> 'v \<Rightarrow> int) \<Rightarrow> 'm \<Rightarrow> int"
  assumes get_set: "ok m \<Longrightarrow> get (put m k v) j = (if j = k then Some v else get m j)"
    and get_del: "ok m \<Longrightarrow> get (del m k) j = (if j = k then None else get m j)"
    and ok_set: "ok m \<Longrightarrow> ok (put m k v)"
    and ok_del: "ok m \<Longrightarrow> ok (del m k)"
    and total_del: "ok m \<Longrightarrow> total w (del m k) = total w m - wt w k (get m k)"
    and total_set_fresh: "ok m \<Longrightarrow> get m k = None \<Longrightarrow> total w (put m k v) = total w m + w k v"
    and total_set_del: "ok m \<Longrightarrow> total w (put m k v) = total w (put (del m k) k v)"
    and total_nonneg: "(\<And>k v. 0 \<le> w k v) \<Longrightarrow> 0 \<le> total w m"
begin

lemma total_set: "ok m \<Longrightarrow> total w (put m k v) = total w m - wt w k (get m k) + w k v"
  by (simp add: total_set_del [of m] total_set_fresh get_del ok_del total_del)

lemma wt_le_total: "ok m \<Longrightarrow> (\<And>k v. 0 \<le> w k v) \<Longrightarrow> wt w k (get m k) \<le> total w m"
  using total_del [of m w k] total_nonneg [of w "del m k"] by simp

lemma del_absent_total: "ok m \<Longrightarrow> get m k = None \<Longrightarrow> total w (del m k) = total w m"
  by (simp add: total_del)

end

section \<open>The association lists implement it\<close>

lemma fst_om_set: "fst ` set (om_set m k v) = insert k (fst ` set m)"
  by (induction m k v rule: om_set.induct) auto

lemma om_ok_set: "om_ok m \<Longrightarrow> om_ok (om_set m k v)"
proof (induction m k v rule: om_set.induct)
  case (2 k' v' m k v)
  then show ?case using fst_om_set [of m k v] by (auto simp: om_ok_def)
qed (simp add: om_ok_def)

lemma om_ok_del: "om_ok m \<Longrightarrow> om_ok (om_del m k)"
  unfolding om_ok_def om_del_def by (induction m) auto

lemma om_get_set: "om_get (om_set m k v) j = (if j = k then Some v else om_get m j)"
  by (induction m k v rule: om_set.induct) (auto simp: om_get_def)

lemma om_get_del: "om_get (om_del m k) j = (if j = k then None else om_get m j)"
  by (induction m) (auto simp: om_get_def om_del_def)

lemma om_get_None: "om_get m k = None \<longleftrightarrow> k \<notin> fst ` set m"
  by (simp add: om_get_def map_of_eq_None_iff)

lemma om_del_absent: "k \<notin> fst ` set m \<Longrightarrow> om_del m k = m"
  unfolding om_del_def by (induction m) auto

lemma om_set_absent: "k \<notin> fst ` set m \<Longrightarrow> om_set m k v = m @ [(k, v)]"
  by (induction m k v rule: om_set.induct) auto

lemma om_sum_del: "om_ok m \<Longrightarrow> om_sum w (om_del m k) = om_sum w m - wt w k (om_get m k)"
proof (induction m)
  case (Cons p m)
  then have ok: "om_ok m" and fr: "fst p \<notin> fst ` set m" by (auto simp: om_ok_def)
  show ?case
  proof (cases "fst p = k")
    case True
    then show ?thesis using om_del_absent [of k m] fr
      by (cases p) (simp add: om_del_def om_sum_def om_get_def)
  next
    case False
    then show ?thesis using Cons.IH [OF ok]
      by (cases p) (simp add: om_del_def om_sum_def om_get_def)
  qed
qed (simp add: om_sum_def om_del_def om_get_def)

lemma om_sum_set: "om_ok m \<Longrightarrow> om_sum w (om_set m k v) = om_sum w m - wt w k (om_get m k) + w k v"
  by (induction m k v rule: om_set.induct) (auto simp: om_sum_def om_get_def om_ok_def)

lemma om_sum_nonneg: "(\<And>k v. 0 \<le> w k v) \<Longrightarrow> 0 \<le> om_sum w m"
  unfolding om_sum_def by (induction m) (auto simp: add_nonneg_nonneg)

interpretation om: js_map om_get om_set om_del om_ok om_sum
proof
  show "om_sum w (om_set m k v) = om_sum w (om_set (om_del m k) k v)" if "om_ok m"
    for m :: "('a \<times> 'b) list" and w k v
    using that by (simp add: om_sum_set om_ok_del om_sum_del om_get_del)
  show "om_sum w (om_set m k v) = om_sum w m + w k v" if "om_ok m" "om_get m k = None"
    for m :: "('a \<times> 'b) list" and w k v
    using that by (simp add: om_sum_set)
qed (simp_all add: om_get_set om_get_del om_ok_set om_ok_del om_sum_del om_sum_nonneg)

lemma om_ok_Nil [simp]: "om_ok []"
  by (simp add: om_ok_def)

lemma om_sum_Nil [simp]: "om_sum w [] = 0"
  by (simp add: om_sum_def)

lemma om_length_set: "om_ok m \<Longrightarrow> length (om_set m k v) = length m + (if om_get m k = None then 1 else 0)"
  by (induction m k v rule: om_set.induct) (auto simp: om_get_def om_ok_def)

lemma om_length_del: "om_ok m \<Longrightarrow> length m = length (om_del m k) + (if om_get m k = None then 0 else 1)"
proof (induction m)
  case (Cons p m)
  then have ih: "length m = length (om_del m k) + (if om_get m k = None then 0 else 1)"
    and fr: "fst p \<notin> fst ` set m" by (auto simp: om_ok_def)
  show ?case
  proof (cases "fst p = k")
    case True
    then have "om_del (p # m) k = m" using om_del_absent [OF fr] by (simp add: om_del_def)
    then show ?thesis using True by (cases p) (simp add: om_get_def)
  next
    case False
    then have "om_del (p # m) k = p # om_del m k" "om_get (p # m) k = om_get m k"
      by (simp_all add: om_del_def om_get_def map_of_Cons_code(2) prod.case_eq_if split: prod.splits)
    then show ?thesis using ih by simp
  qed
qed (simp add: om_del_def om_get_def)

lemmas om_laws = om_get_set om_get_del om_ok_set om_ok_del

declare om_laws [ll_simps]

end
