(* ===== verification/Memory_Budget.thy ===== *)
theory Memory_Budget
  imports JS_Map
begin

text \<open>
  The process-wide byte ledger (\<open>cache/memoryBudget.ts\<close>): parsing of limits, the constructor's
  validation, reservation and release per category, pressure sampling, and bounded eviction through
  registered clients. Byte counts are integers: the sums the ledger forms stay below \<open>2^53\<close> for any
  real memory, where double addition is exact; the scalings by 0.7 and 0.05 are rounded as doubles.
\<close>

section \<open>Limits\<close>

datatype MemoryLimit = LimitNumber jsnum | LimitString jsstr

definition units :: "(jsstr \<times> real) list" where
  "units = [(js ''B'', 1), (js ''KB'', 1000), (js ''MB'', 1000000), (js ''GB'', 1000000000),
     (js ''KiB'', 1024), (js ''MiB'', 2 ^ 20), (js ''GiB'', 2 ^ 30)]"

definition digit_or_dot :: "unit16 \<Rightarrow> bool" where
  "digit_or_dot c \<longleftrightarrow> 48 \<le> c \<and> c \<le> 57 \<or> c = 46"

text \<open>\<open>Number(s)\<close> for a string of digits and dots.\<close>

definition digits_value :: "jsstr \<Rightarrow> nat" where
  "digits_value ds = foldl (\<lambda>n c. n * 10 + (unat c - 48)) 0 ds"

definition number_of :: "jsstr \<Rightarrow> jsnum" where
  "number_of s = (let a = takeWhile (\<lambda>c. c \<noteq> 46) s; r = dropWhile (\<lambda>c. c \<noteq> 46) s in
     case r of [] \<Rightarrow> to_num (real (digits_value a))
     | _ # f \<Rightarrow> if 46 \<in> set f \<or> a = [] \<and> f = [] then JNaN
                else to_num (real (digits_value (a @ f)) / 10 ^ length f))"

definition parseLimit :: "MemoryLimit \<Rightarrow> jsnum \<Rightarrow> js_error + jsnum" where
  "parseLimit value capacity = (case value of
     LimitNumber n \<Rightarrow> Inr n
   | LimitString s \<Rightarrow>
       let d = takeWhile digit_or_dot s; r = dropWhile digit_or_dot s in
       if d \<noteq> [] \<and> r = js ''%'' then
         let p = number_of d in
         if jle p (JNum 0) \<or> jless (JNum 100) p
         then Inl (RangeError ''Memory percentage must be greater than 0 and no greater than 100'')
         else Inr (case p of JNum q \<Rightarrow> jover (jscale capacity q) 100 | _ \<Rightarrow> JNaN)
       else case (if d \<noteq> [] then map_of units r else None) of
         Some u \<Rightarrow> Inr (jscale (number_of d) u)
       | None \<Rightarrow> Inl (RangeError ''Invalid memory limit''))"

section \<open>State\<close>

datatype pressureState = Normal | Pressure | Critical

record MemorySignals =
  ms_effectiveBytes :: "real option"
  ms_availableBytes :: "real option"
  ms_psiSomeAvg10 :: "real option"

record MemoryBudgetOptions =
  mbo_maxMemory :: MemoryLimit
  mbo_minMemory :: "MemoryLimit option"
  mbo_sampleIntervalMs :: "jsnum option"
  mbo_pressureWindowMs :: "jsnum option"
  mbo_recoveryWindowMs :: "jsnum option"

text \<open>Clients are named by numbers: \<open>clients\<close> lists the registered ones in order.\<close>

record MemoryBudget =
  mb_hardCap :: int
  mb_minMemory :: "int option"
  mb_target :: int
  mb_used :: int
  mb_categories :: "(jsstr, int) omap"
  mb_clients :: "nat list"
  mb_cursor :: nat
  mb_state :: pressureState
  mb_pressureAt :: "int option"
  mb_recoveryAt :: "int option"
  mb_timer :: bool
  mb_evictions :: nat
  mb_admissions :: nat
  mb_failedAdmissions :: nat
  mb_opts :: MemoryBudgetOptions

section \<open>Operations\<close>

definition newMemoryBudget :: "MemoryBudgetOptions \<Rightarrow> MemorySignals \<Rightarrow> js_error + MemoryBudget" where
  "newMemoryBudget opts signals =
     (let capacity = (case ms_effectiveBytes signals of Some e \<Rightarrow> JNum e
            | None \<Rightarrow> (case mbo_maxMemory opts of LimitNumber n \<Rightarrow> n | _ \<Rightarrow> JNum 0)) in
      if (case mbo_sampleIntervalMs opts of None \<Rightarrow> False
          | Some i \<Rightarrow> jless i (JNum 0) \<or> \<not> isFinite i)
      then Inl (RangeError ''sampleIntervalMs must be positive or zero'')
      else case parseLimit (mbo_maxMemory opts) capacity of
        Inl e \<Rightarrow> Inl e
      | Inr m \<Rightarrow>
          let hard = jfloor m in
          if \<not> isFinite hard \<or> jle hard (JNum 0) \<or> \<not> isInteger hard
          then Inl (RangeError ''maxMemory must resolve to a positive integer'')
          else case (case mbo_minMemory opts of None \<Rightarrow> Inr None
                     | Some l \<Rightarrow> (case parseLimit l capacity of Inl e \<Rightarrow> Inl e | Inr x \<Rightarrow> Inr (Some (jfloor x)))) of
            Inl e \<Rightarrow> Inl e
          | Inr mn \<Rightarrow>
              if (case mn of None \<Rightarrow> False
                  | Some x \<Rightarrow> jle x (JNum 0) \<or> \<not> isInteger x \<or> jless hard x)
              then Inl (RangeError ''minMemory must be a positive integer no greater than maxMemory'')
              else Inr \<lparr>mb_hardCap = num_int hard, mb_minMemory = map_option num_int mn,
                mb_target = num_int hard, mb_used = 0, mb_categories = [], mb_clients = [],
                mb_cursor = 0, mb_state = Normal, mb_pressureAt = None, mb_recoveryAt = None,
                mb_timer = False, mb_evictions = 0, mb_admissions = 0, mb_failedAdmissions = 0,
                mb_opts = opts\<rparr>)"

text \<open>
  \<open>register\<close> takes the client under a name of the caller's choice; the closure it returns is
  \<open>unregister\<close>, whose \<open>active\<close> flag makes a second call a no-op: here the flag is the argument.
\<close>

definition mb_register :: "nat \<Rightarrow> MemoryBudget \<Rightarrow> MemoryBudget" where
  "mb_register c b = (let b1 = b\<lparr>mb_clients := mb_clients b @ [c]\<rparr> in
     if \<not> mb_timer b1 \<and> mbo_sampleIntervalMs (mb_opts b) \<noteq> Some (JNum 0) then b1\<lparr>mb_timer := True\<rparr> else b1)"

definition mb_unregister :: "bool \<Rightarrow> nat \<Rightarrow> MemoryBudget \<Rightarrow> bool \<times> MemoryBudget" where
  "mb_unregister active c b = (if \<not> active then (False, b)
     else let b1 = b\<lparr>mb_clients := remove1 c (mb_clients b)\<rparr> in
       (False, if mb_clients b1 = [] then b1\<lparr>mb_timer := False\<rparr> else b1))"

definition tryReserve :: "jsnum \<Rightarrow> jsstr \<Rightarrow> MemoryBudget \<Rightarrow> bool \<times> MemoryBudget" where
  "tryReserve bytes category b =
     (if \<not> isFinite bytes \<or> \<not> isInteger bytes \<or> jless bytes (JNum 0) then (False, b)
      else let n = num_int bytes in
        if mb_target b < mb_used b + n
        then (False, b\<lparr>mb_failedAdmissions := mb_failedAdmissions b + 1\<rparr>)
        else (True, b\<lparr>mb_used := mb_used b + n,
          mb_categories := om_set (mb_categories b) category
            (nullish (om_get (mb_categories b) category) 0 + n),
          mb_admissions := mb_admissions b + 1\<rparr>))"

definition release :: "jsnum \<Rightarrow> jsstr \<Rightarrow> MemoryBudget \<Rightarrow> MemoryBudget" where
  "release bytes category b =
     (if \<not> isFinite bytes \<or> \<not> isInteger bytes \<or> jless bytes (JNum 0) then b
      else let prior = nullish (om_get (mb_categories b) category) 0;
               amount = min (num_int bytes) (min prior (mb_used b)) in
        if amount = 0 then b
        else b\<lparr>mb_categories := om_set (mb_categories b) category (prior - amount),
               mb_used := mb_used b - amount\<rparr>)"

definition permitsPromotion :: "jsnum \<Rightarrow> MemoryBudget \<Rightarrow> bool" where
  "permitsPromotion bytes b \<longleftrightarrow> mb_state b = Normal \<and> isFinite bytes \<and> isInteger bytes
     \<and> \<not> jless bytes (JNum 0) \<and> mb_used b + num_int bytes \<le> mb_target b"

text \<open>
  A client's \<open>evictOne\<close> is a callback: on the budget and the state \<open>'w\<close> of the clients it answers
  \<open>Some b\<close> for a returned boolean and \<open>None\<close> for a throw.
\<close>

type_synonym 'w evict_one = "nat \<Rightarrow> MemoryBudget \<times> 'w \<Rightarrow> bool option \<times> (MemoryBudget \<times> 'w)"

fun evictBounded :: "'w evict_one \<Rightarrow> nat \<Rightarrow> MemoryBudget \<times> 'w \<Rightarrow> MemoryBudget \<times> 'w" where
  "evictBounded ev 0 s = s"
| "evictBounded ev (Suc n) (b, w) =
     (if mb_clients b = [] \<or> mb_used b \<le> mb_target b then (b, w)
      else let c = mb_clients b ! (mb_cursor b mod length (mb_clients b));
               r = ev c (b\<lparr>mb_cursor := mb_cursor b + 1\<rparr>, w);
               b2 = fst (snd r)
           in evictBounded ev n
                (if fst r = Some True then b2\<lparr>mb_evictions := mb_evictions b2 + 1\<rparr> else b2, snd (snd r)))"

text \<open>The thresholds are double literals; \<open>scaled c x\<close> is \<open>Math.floor(x * c)\<close>.\<close>

definition scaled :: "real \<Rightarrow> int \<Rightarrow> int" where
  "scaled c x = \<lfloor>fl (of_int x * fl c)\<rfloor>"

definition sample_ratio :: "MemorySignals \<Rightarrow> MemoryBudget \<Rightarrow> real option" where
  "sample_ratio sg b = (let capacity = nullish (ms_effectiveBytes sg) (of_int (mb_hardCap b)) in
     case ms_availableBytes sg of
       Some a \<Rightarrow> if 0 < capacity then Some (fl (a / capacity)) else None
     | None \<Rightarrow> None)"

definition below :: "real option \<Rightarrow> real \<Rightarrow> bool" where
  "below r c \<longleftrightarrow> (case r of None \<Rightarrow> False | Some x \<Rightarrow> x < fl c)"

definition at_least :: "real option \<Rightarrow> real \<Rightarrow> bool" where
  "at_least r c \<longleftrightarrow> (case r of None \<Rightarrow> False | Some x \<Rightarrow> c \<le> x)"

definition sample_critical :: "MemorySignals \<Rightarrow> MemoryBudget \<Rightarrow> bool" where
  "sample_critical sg b \<longleftrightarrow> mb_hardCap b < mb_used b \<or> below (sample_ratio sg b) (5 / 100)
     \<or> at_least (ms_psiSomeAvg10 sg) 50"

definition sample_pressured :: "MemorySignals \<Rightarrow> MemoryBudget \<Rightarrow> bool" where
  "sample_pressured sg b \<longleftrightarrow> \<not> sample_critical sg b \<and> (mb_target b < mb_used b
     \<or> below (sample_ratio sg b) (15 / 100) \<or> at_least (ms_psiSomeAvg10 sg) 10)"

definition min_target :: "MemoryBudget \<Rightarrow> int" where
  "min_target b = nullish (mb_minMemory b) 1"

definition retarget :: "MemorySignals \<Rightarrow> int \<Rightarrow> MemoryBudget \<Rightarrow> MemoryBudget" where
  "retarget sg now b =
     (if sample_critical sg b then
        b\<lparr>mb_state := Critical, mb_target := max (min_target b) (scaled (7 / 10) (mb_target b)),
          mb_pressureAt := Some now, mb_recoveryAt := None\<rparr>
      else if sample_pressured sg b then
        let since = nullish (mb_pressureAt b) now;
            b1 = b\<lparr>mb_pressureAt := Some since, mb_recoveryAt := None\<rparr> in
        if jle (nullish (mbo_pressureWindowMs (mb_opts b)) (JNum 5000)) (jint (now - since))
        then b1\<lparr>mb_state := Pressure, mb_target := max (min_target b) (scaled (7 / 10) (mb_hardCap b))\<rparr>
        else b1
      else
        let since = nullish (mb_recoveryAt b) now;
            b1 = b\<lparr>mb_recoveryAt := Some since, mb_pressureAt := None\<rparr> in
        if jle (nullish (mbo_recoveryWindowMs (mb_opts b)) (JNum 30000)) (jint (now - since))
        then b1\<lparr>mb_state := Normal, mb_target := min (mb_hardCap b)
               (mb_target b + max 1 (scaled (5 / 100) (mb_hardCap b)))\<rparr>
        else b1)"

definition mb_sample :: "'w evict_one \<Rightarrow> MemorySignals \<Rightarrow> int \<Rightarrow> MemoryBudget \<times> 'w \<Rightarrow> MemoryBudget \<times> 'w" where
  "mb_sample ev sg now s = (let b = retarget sg now (fst s) in
     if mb_target b < mb_used b then evictBounded ev 32 (b, snd s) else (b, snd s))"

definition mb_close :: "MemoryBudget \<Rightarrow> MemoryBudget" where
  "mb_close b = b\<lparr>mb_timer := False, mb_clients := []\<rparr>"

text \<open>
  The process-wide default: created on first use, and a later caller with options must resolve
  \<open>maxMemory\<close> to the same cap.
\<close>

definition getDefaultMemoryBudget ::
  "MemoryBudgetOptions option \<Rightarrow> MemorySignals \<Rightarrow> MemoryBudget option \<Rightarrow> js_error + MemoryBudget" where
  "getDefaultMemoryBudget options signals cur = (case cur of
     None \<Rightarrow> newMemoryBudget (nullish options \<lparr>mbo_maxMemory = LimitString (js ''20%''), mbo_minMemory = None,
        mbo_sampleIntervalMs = Some (JNum 5000), mbo_pressureWindowMs = None, mbo_recoveryWindowMs = None\<rparr>) signals
   | Some b \<Rightarrow> (case options of None \<Rightarrow> Inr b
       | Some opts \<Rightarrow>
           let capacity = (case ms_effectiveBytes signals of Some e \<Rightarrow> JNum e
             | None \<Rightarrow> (case mbo_maxMemory opts of LimitNumber n \<Rightarrow> n | _ \<Rightarrow> JNum 0)) in
           case parseLimit (mbo_maxMemory opts) capacity of Inl e \<Rightarrow> Inl e
           | Inr m \<Rightarrow> if m = jint (mb_hardCap b) then Inr b
                      else Inl (Error ''Conflicting shared memory budget configuration'')))"

section \<open>Invariant\<close>

text \<open>
  The ledger is the sum of its categories, none of them negative; the target lies between the
  configured minimum (or 1) and the hard cap, and what is reserved never exceeds the hard cap.
\<close>

definition cat_weight :: "jsstr \<Rightarrow> int \<Rightarrow> int" where
  "cat_weight c n = n"

definition ledger_ok :: "MemoryBudget \<Rightarrow> bool" where
  "ledger_ok b \<longleftrightarrow> om_ok (mb_categories b) \<and> mb_used b = om_sum cat_weight (mb_categories b)
     \<and> (\<forall>p \<in> set (mb_categories b). 0 \<le> snd p) \<and> mb_used b \<le> mb_hardCap b"

definition target_ok :: "MemoryBudget \<Rightarrow> bool" where
  "target_ok b \<longleftrightarrow> 1 \<le> min_target b \<and> min_target b \<le> mb_target b \<and> mb_target b \<le> mb_hardCap b"

definition budget_ok :: "MemoryBudget \<Rightarrow> bool" where
  "budget_ok b \<longleftrightarrow> ledger_ok b \<and> target_ok b"

lemma om_sum_ge_entry:
  assumes "\<forall>p \<in> set m. 0 \<le> snd p" and "om_get m k = Some v"
  shows "v \<le> om_sum cat_weight m"
  using assms
proof (induction m)
  case (Cons p m)
  then have "0 \<le> om_sum cat_weight m"
    by (auto simp: om_sum_def cat_weight_def intro!: sum_list_nonneg)
  then show ?case using Cons by (cases p) (auto simp: om_sum_def cat_weight_def om_get_def split: if_splits)
qed (simp add: om_get_def)

lemma set_om_set: "set (om_set m k v) \<subseteq> insert (k, v) (set m)"
  by (induction m k v rule: om_set.induct) auto

lemma ledger_used_nonneg: "ledger_ok b \<Longrightarrow> 0 \<le> mb_used b"
  by (auto simp: ledger_ok_def om_sum_def cat_weight_def intro!: sum_list_nonneg)

definition held :: "MemoryBudget \<Rightarrow> jsstr \<Rightarrow> int" where
  "held b c = nullish (om_get (mb_categories b) c) 0"

lemma held_bounds: "ledger_ok b \<Longrightarrow> 0 \<le> held b c \<and> held b c \<le> mb_used b"
proof -
  assume ok: "ledger_ok b"
  show ?thesis
  proof (cases "om_get (mb_categories b) c")
    case None
    then show ?thesis using ledger_used_nonneg [OF ok] by (simp add: held_def)
  next
    case (Some v)
    then have "(c, v) \<in> set (mb_categories b)" by (simp add: om_get_def map_of_SomeD)
    then show ?thesis using ok Some om_sum_ge_entry [of "mb_categories b" c v]
      by (auto simp: held_def ledger_ok_def)
  qed
qed

lemma wt_held: "wt cat_weight c (om_get (mb_categories b) c) = held b c"
  by (cases "om_get (mb_categories b) c") (auto simp: held_def cat_weight_def)

text \<open>Moving one category to \<open>n\<close> and the total by the difference keeps the ledger.\<close>

lemma ledger_move:
  assumes ok: "ledger_ok b" and "0 \<le> n" and "mb_used b + (n - held b c) \<le> mb_hardCap b"
  shows "ledger_ok (b\<lparr>mb_categories := om_set (mb_categories b) c n, mb_used := mb_used b + (n - held b c)\<rparr>)"
  using assms set_om_set [of "mb_categories b" c n]
  by (auto simp: ledger_ok_def om.total_set om.ok_set wt_held) (auto simp: cat_weight_def)

lemma release_amount:
  "ledger_ok b \<Longrightarrow> release (jint n) c b =
     (if n < 0 \<or> min n (held b c) = 0 then b
      else b\<lparr>mb_categories := om_set (mb_categories b) c (held b c - min n (held b c)),
             mb_used := mb_used b - min n (held b c)\<rparr>)"
  using held_bounds [of b c] by (auto simp: release_def held_def Let_def min_def)

lemma release_cases:
  assumes "ledger_ok b"
  obtains "release x c b = b"
  | n where "0 \<le> n" and "n \<le> held b c" and "release x c b =
      b\<lparr>mb_categories := om_set (mb_categories b) c (held b c - n), mb_used := mb_used b - n\<rparr>"
proof (cases "isInteger x")
  case True
  then obtain n where x: "x = jint n" by (rule isInteger_cases)
  have "release x c b = b \<or> (0 \<le> min n (held b c) \<and> min n (held b c) \<le> held b c \<and> release x c b =
      b\<lparr>mb_categories := om_set (mb_categories b) c (held b c - min n (held b c)),
        mb_used := mb_used b - min n (held b c)\<rparr>)"
    unfolding x release_amount [OF assms] using held_bounds [OF assms, of c] by auto
  then show ?thesis using that by blast
next
  case False
  then show ?thesis using that by (simp add: release_def)
qed

lemma release_ok [ll_inv]: "budget_ok b \<Longrightarrow> budget_ok (release x c b)"
proof -
  assume b: "budget_ok b"
  then have ok: "ledger_ok b" by (simp add: budget_ok_def)
  show ?thesis
  proof (rule release_cases [OF ok, of x c])
    fix n assume n: "0 \<le> n" "n \<le> held b c" and eq: "release x c b =
      b\<lparr>mb_categories := om_set (mb_categories b) c (held b c - n), mb_used := mb_used b - n\<rparr>"
    have "ledger_ok (release x c b)"
      unfolding eq using ledger_move [OF ok, of "held b c - n" c] n ok by (simp add: ledger_ok_def)
    then show ?thesis using b by (simp add: budget_ok_def eq target_ok_def min_target_def)
  qed (use b in simp)
qed

lemma release_frame [ll_simps]:
  "mb_target (release x c b) = mb_target b" "mb_hardCap (release x c b) = mb_hardCap b"
  "mb_minMemory (release x c b) = mb_minMemory b" "mb_clients (release x c b) = mb_clients b"
  "mb_cursor (release x c b) = mb_cursor b" "mb_state (release x c b) = mb_state b"
  "mb_opts (release x c b) = mb_opts b"
  by (simp_all add: release_def Let_def)

lemma release_used_le: "ledger_ok b \<Longrightarrow> mb_used (release x c b) \<le> mb_used b"
  by (rule release_cases [of b x c]) auto

lemma tryReserve_ok [ll_inv]:
  assumes b: "budget_ok b"
  shows "budget_ok (snd (tryReserve x c b))"
proof (cases "isInteger x \<and> \<not> jless x (JNum 0) \<and> mb_used b + num_int x \<le> mb_target b")
  case True
  then obtain n where x: "x = jint n" using isInteger_cases by blast
  have ok: "ledger_ok b" and t: "target_ok b" using b by (auto simp: budget_ok_def)
  have le: "mb_used b + n \<le> mb_target b" and n: "0 \<le> n" using True by (auto simp: x)
  have "ledger_ok (b\<lparr>mb_categories := om_set (mb_categories b) c (held b c + n),
      mb_used := mb_used b + n\<rparr>)"
    using ledger_move [OF ok, of "held b c + n" c] n le t held_bounds [OF ok, of c]
    by (simp add: target_ok_def)
  then show ?thesis using t le n
    by (simp add: tryReserve_def x budget_ok_def held_def Let_def ledger_ok_def target_ok_def min_target_def)
next
  case False
  then show ?thesis using b
    by (cases x) (auto simp: tryReserve_def Let_def budget_ok_def ledger_ok_def target_ok_def min_target_def)
qed

lemma scaled_bounds: "0 \<le> x \<Longrightarrow> 0 \<le> c \<Longrightarrow> c \<le> 8 / 10 \<Longrightarrow> 0 \<le> scaled c x \<and> scaled c x \<le> x"
proof -
  assume x: "0 \<le> x" and c: "0 \<le> c" "c \<le> 8 / 10"
  have f: "0 \<le> fl c" "fl c \<le> 9 / 10"
    using fl_nonneg [of c] fl_scaled_le [of c "9 / 10"] c by auto
  have p: "0 \<le> of_int x * fl c" "of_int x * fl c \<le> 9 / 10 * of_int x"
    using x f mult_left_mono [of "fl c" "9 / 10" "of_int x"] by auto
  then have "0 \<le> fl (of_int x * fl c)" "fl (of_int x * fl c) \<le> of_int x"
    using fl_nonneg fl_scaled_le by blast+
  then show ?thesis by (simp add: scaled_def floor_le_iff)
qed

lemma retarget_ok [ll_inv]:
  assumes b: "budget_ok b"
  shows "budget_ok (retarget sg now b)"
proof -
  have t: "1 \<le> min_target b" "min_target b \<le> mb_target b" "mb_target b \<le> mb_hardCap b"
    and l: "ledger_ok b" using b by (auto simp: budget_ok_def target_ok_def)
  have s: "scaled (7 / 10) (mb_target b) \<le> mb_target b" "scaled (7 / 10) (mb_hardCap b) \<le> mb_hardCap b"
    using scaled_bounds [of _ "7 / 10"] t by auto
  show ?thesis using s t l
    by (auto simp: retarget_def budget_ok_def target_ok_def min_target_def ledger_ok_def Let_def)
qed

lemma newMemoryBudget_ok [ll_inv]:
  assumes "newMemoryBudget opts sg = Inr b"
  shows "budget_ok b"
proof -
  obtain m mn where hard: "isFinite (jfloor m)" "\<not> jle (jfloor m) (JNum 0)"
    and mn: "\<forall>x. mn = Some x \<longrightarrow> isInteger x \<and> \<not> jle x (JNum 0) \<and> \<not> jless (jfloor m) x"
    and b: "b = \<lparr>mb_hardCap = num_int (jfloor m), mb_minMemory = map_option num_int mn,
      mb_target = num_int (jfloor m), mb_used = 0, mb_categories = [], mb_clients = [],
      mb_cursor = 0, mb_state = Normal, mb_pressureAt = None, mb_recoveryAt = None,
      mb_timer = False, mb_evictions = 0, mb_admissions = 0, mb_failedAdmissions = 0, mb_opts = opts\<rparr>"
    using assms unfolding newMemoryBudget_def Let_def
    by (force split: if_splits sum.splits option.splits)
  obtain n where n: "jfloor m = jint n" using hard(1) by (cases m) auto
  have pos: "1 \<le> n" using hard(2) by (simp add: n)
  have "1 \<le> min_target b \<and> min_target b \<le> n"
  proof (cases mn)
    case (Some x)
    then obtain k where k: "x = jint k" using mn isInteger_cases by blast
    then show ?thesis using mn Some by (simp add: n min_target_def b)
  qed (use pos in \<open>simp add: min_target_def b\<close>)
  then show ?thesis using pos
    by (simp add: budget_ok_def ledger_ok_def target_ok_def n b)
qed

section \<open>Eviction through clients\<close>

text \<open>
  What the budget relies on of its clients' \<open>evictOne\<close>: it may only give bytes back, and it leaves
  the budget's own bookkeeping alone. \<open>rel\<close> is the joint invariant of the ledger and the clients,
  which the budget's counters do not affect.
\<close>

locale budget_clients =
  fixes ev :: "'w evict_one" and rel :: "MemoryBudget \<times> 'w \<Rightarrow> bool"
  assumes ev_rel: "rel s \<Longrightarrow> rel (snd (ev c s))"
    and rel_ok: "rel (b, w) \<Longrightarrow> budget_ok b"
    and rel_counters: "rel (b, w) \<Longrightarrow> rel (b\<lparr>mb_cursor := n, mb_evictions := m\<rparr>, w)"
    and ev_frame: "rel (b, w) \<Longrightarrow> mb_target (fst (snd (ev c (b, w)))) = mb_target b
      \<and> mb_clients (fst (snd (ev c (b, w)))) = mb_clients b
      \<and> mb_evictions (fst (snd (ev c (b, w)))) = mb_evictions b"
    and ev_frees: "rel (b, w) \<Longrightarrow>
      mb_used (fst (snd (ev c (b, w)))) + (if fst (ev c (b, w)) = Some True then 1 else 0) \<le> mb_used b"
begin

lemma rel_cursor: "rel (b, w) \<Longrightarrow> rel (b\<lparr>mb_cursor := n\<rparr>, w)"
  using rel_counters [of b w "mb_evictions b" n] by simp

lemma rel_evictions: "rel (b, w) \<Longrightarrow> rel (b\<lparr>mb_evictions := n\<rparr>, w)"
  using rel_counters [of b w n "mb_cursor b"] by simp

lemma evictBounded_spec:
  "rel s \<Longrightarrow> rel (evictBounded ev n s) \<and> mb_target (fst (evictBounded ev n s)) = mb_target (fst s)
    \<and> mb_used (fst (evictBounded ev n s)) + int (mb_evictions (fst (evictBounded ev n s)) - mb_evictions (fst s))
        \<le> mb_used (fst s)
    \<and> mb_evictions (fst s) \<le> mb_evictions (fst (evictBounded ev n s))
    \<and> mb_evictions (fst (evictBounded ev n s)) \<le> mb_evictions (fst s) + n"
proof (induction n arbitrary: s)
  case (Suc n)
  obtain b w where s: "s = (b, w)" by fastforce
  show ?case
  proof (cases "mb_clients b = [] \<or> mb_used b \<le> mb_target b")
    case False
    let ?c = "mb_clients b ! (mb_cursor b mod length (mb_clients b))"
    let ?b1 = "b\<lparr>mb_cursor := mb_cursor b + 1\<rparr>"
    let ?r = "ev ?c (?b1, w)"
    let ?b2 = "if fst ?r = Some True then (fst (snd ?r))\<lparr>mb_evictions := mb_evictions (fst (snd ?r)) + 1\<rparr>
               else fst (snd ?r)"
    have r1: "rel (?b1, w)" using Suc.prems s rel_cursor by simp
    have r2: "rel (?b2, snd (snd ?r))" using ev_rel [OF r1, of ?c] rel_evictions by auto
    have eq: "evictBounded ev (Suc n) s = evictBounded ev n (?b2, snd (snd ?r))"
      using False by (simp add: s Let_def)
    show ?thesis unfolding eq
      using Suc.IH [OF r2] ev_frame [OF r1, of ?c] ev_frees [OF r1, of ?c] by (auto simp: s split: if_splits)
  qed (use Suc.prems in \<open>simp add: s\<close>)
qed simp

lemma sample_rel:
  "rel (b, w) \<Longrightarrow> rel (retarget sg now b, w) \<Longrightarrow> rel (mb_sample ev sg now (b, w))"
  using evictBounded_spec by (simp add: mb_sample_def Let_def)

end

section \<open>Reachable budgets\<close>

inductive mb_reach :: "MemoryBudget \<Rightarrow> bool" where
  init: "newMemoryBudget opts sg = Inr b \<Longrightarrow> mb_reach b"
| reserve: "mb_reach b \<Longrightarrow> mb_reach (snd (tryReserve x c b))"
| release: "mb_reach b \<Longrightarrow> mb_reach (release x c b)"
| sample: "mb_reach b \<Longrightarrow> mb_reach (retarget sg now b)"
| register: "mb_reach b \<Longrightarrow> mb_reach (mb_register n b)"
| unregister: "mb_reach b \<Longrightarrow> mb_reach (snd (mb_unregister a n b))"
| evict: "mb_reach b \<Longrightarrow> mb_reach (b\<lparr>mb_cursor := mb_cursor b + 1\<rparr>)"
| evicted: "mb_reach b \<Longrightarrow> mb_reach (b\<lparr>mb_evictions := mb_evictions b + 1\<rparr>)"
| close: "mb_reach b \<Longrightarrow> mb_reach (mb_close b)"

lemma budget_ok_cong:
  "mb_categories b' = mb_categories b \<Longrightarrow> mb_used b' = mb_used b \<Longrightarrow> mb_hardCap b' = mb_hardCap b
    \<Longrightarrow> mb_minMemory b' = mb_minMemory b \<Longrightarrow> mb_target b' = mb_target b \<Longrightarrow> budget_ok b' = budget_ok b"
  by (simp add: budget_ok_def ledger_ok_def target_ok_def min_target_def)

lemma bookkeeping_ok [ll_inv]:
  assumes "budget_ok b"
  shows "budget_ok (mb_register n b)" "budget_ok (snd (mb_unregister a n b))" "budget_ok (mb_close b)"
    "budget_ok (b\<lparr>mb_cursor := k\<rparr>)" "budget_ok (b\<lparr>mb_evictions := k\<rparr>)"
  using assms
  by (simp_all add: mb_register_def mb_unregister_def mb_close_def Let_def
      budget_ok_def ledger_ok_def target_ok_def min_target_def)

lemma mb_reach_ok: "mb_reach b \<Longrightarrow> budget_ok b"
  by (induction rule: mb_reach.induct) (auto intro: ll_inv)

text \<open>A sampling pass, with clients that only use the operations above, stays within the reachable budgets.\<close>

lemma evictBounded_reach:
  assumes ev: "\<And>c s. mb_reach (fst s) \<Longrightarrow> mb_reach (fst (snd (ev c s)))"
  shows "mb_reach (fst s) \<Longrightarrow> mb_reach (fst (evictBounded ev n s))"
proof (induction n arbitrary: s)
  case (Suc n)
  obtain b w where s: "s = (b, w)" by fastforce
  show ?case
  proof (cases "mb_clients b = [] \<or> mb_used b \<le> mb_target b")
    case False
    let ?r = "ev (mb_clients b ! (mb_cursor b mod length (mb_clients b))) (b\<lparr>mb_cursor := mb_cursor b + 1\<rparr>, w)"
    let ?s = "(if fst ?r = Some True then (fst (snd ?r))\<lparr>mb_evictions := mb_evictions (fst (snd ?r)) + 1\<rparr>
      else fst (snd ?r), snd (snd ?r))"
    have "mb_reach (fst (snd ?r))" using Suc.prems s by (intro ev) (simp add: mb_reach.evict [simplified])
    then have "mb_reach (fst ?s)" by (simp add: mb_reach.evicted [simplified])
    moreover have "evictBounded ev (Suc n) s = evictBounded ev n ?s" using False by (simp add: s Let_def)
    ultimately show ?thesis using Suc.IH by metis
  qed (use Suc.prems in \<open>simp add: s\<close>)
qed simp

lemma sample_reach:
  assumes "\<And>c s. mb_reach (fst s) \<Longrightarrow> mb_reach (fst (snd (ev c s)))" and "mb_reach (fst s)"
  shows "mb_reach (fst (mb_sample ev sg now s))"
  using evictBounded_reach [of ev "(retarget sg now (fst s), snd s)" 32] assms
  by (simp add: mb_sample_def Let_def mb_reach.sample)

section \<open>Properties\<close>

text \<open>A budget of 90 bytes, for the examples.\<close>

definition small_opts :: MemoryBudgetOptions where
  "small_opts = \<lparr>mbo_maxMemory = LimitNumber (JNum 90), mbo_minMemory = None,
     mbo_sampleIntervalMs = None, mbo_pressureWindowMs = None, mbo_recoveryWindowMs = None\<rparr>"

definition small_budget :: MemoryBudget where
  "small_budget = \<lparr>mb_hardCap = 90, mb_minMemory = None, mb_target = 90, mb_used = 0,
     mb_categories = [], mb_clients = [], mb_cursor = 0, mb_state = Normal, mb_pressureAt = None,
     mb_recoveryAt = None, mb_timer = False, mb_evictions = 0, mb_admissions = 0,
     mb_failedAdmissions = 0, mb_opts = small_opts\<rparr>"

lemma small_budget_new: "newMemoryBudget small_opts sg = Inr small_budget"
  by (simp add: newMemoryBudget_def small_opts_def small_budget_def parseLimit_def Let_def)


text \<open>
  Ledger invariant: in every state the budget can reach through construction, reservations,
  releases, samplings, evictions, registrations and closing, the reserved bytes are the sum of the
  categories, lie between 0 and the hard cap, and the target lies between the configured minimum and
  the hard cap. So the \<open>critical\<close> test on \<open>used > hardCap\<close> never fires.
\<close>

theorem budget_ledger_invariant:
  assumes "mb_reach b"
  shows "mb_used b = om_sum cat_weight (mb_categories b) \<and> 0 \<le> mb_used b \<and> mb_used b \<le> mb_hardCap b
    \<and> 1 \<le> min_target b \<and> min_target b \<le> mb_target b \<and> mb_target b \<le> mb_hardCap b"
  using mb_reach_ok [OF assms] ledger_used_nonneg [of b]
  by (simp add: budget_ok_def ledger_ok_def target_ok_def)

theorem budget_ledger_invariant_witness:
  "mb_used (release (jint 20) (js ''fresh'') (snd (tryReserve (jint 60) (js ''fresh'') small_budget))) = 40
   \<and> mb_reach (release (jint 20) (js ''fresh'') (snd (tryReserve (jint 60) (js ''fresh'') small_budget)))
   \<and> (40::int) \<le> 90"
  using budget_ledger_invariant [OF mb_reach.release [OF mb_reach.reserve [OF mb_reach.init [OF small_budget_new]]],
      of "jint 20" "js ''fresh''" "jint 60" "js ''fresh''"]
    mb_reach.release [OF mb_reach.reserve [OF mb_reach.init [OF small_budget_new]],
      of "jint 20" "js ''fresh''" "jint 60" "js ''fresh''"]
  by (simp add: tryReserve_def release_def small_budget_def Let_def om_get_def)

text \<open>
  Reserve and release are inverse: after a successful \<open>tryReserve\<close> the same \<open>release\<close> gives every
  category and the total back their former amounts, and a release never gives back more than the
  category holds.
\<close>

theorem reserve_release_roundtrip:
  assumes "budget_ok b" and "tryReserve (jint n) c b = (True, b')"
  shows "mb_used (release (jint n) c b') = mb_used b
    \<and> (\<forall>d. held (release (jint n) c b') d = held b d)
    \<and> (0 \<le> m \<longrightarrow> mb_used (release (jint m) c b) = mb_used b - min m (held b c))"
proof -
  have n: "0 \<le> n" and b': "mb_used b' = mb_used b + n" "held b' c = held b c + n"
    "\<And>d. d \<noteq> c \<Longrightarrow> held b' d = held b d"
    using assms(2) by (auto simp: tryReserve_def Let_def held_def om_get_set split: if_splits)
  have l: "ledger_ok b" "ledger_ok b'"
    using assms tryReserve_ok [OF assms(1), of "jint n" c] by (simp_all add: budget_ok_def)
  have m: "min n (held b' c) = n" using n b'(2) held_bounds [OF l(1), of c] by simp
  have "held (release (jint n) c b') d = held b d" for d
    unfolding release_amount [OF l(2)] m using b' n by (cases "d = c") (auto simp: held_def om_get_set)
  moreover have "mb_used (release (jint n) c b') = mb_used b"
    unfolding release_amount [OF l(2)] m using b' n by auto
  moreover have "0 \<le> m \<longrightarrow> mb_used (release (jint m) c b) = mb_used b - min m (held b c)"
    unfolding release_amount [OF l(1)] by auto
  ultimately show ?thesis by blast
qed

theorem reserve_release_roundtrip_witness:
  "\<exists>b'. tryReserve (jint 60) (js ''stale'') small_budget = (True, b')
    \<and> mb_used (release (jint 60) (js ''stale'') b') = 0"
  using reserve_release_roundtrip [OF mb_reach_ok [OF mb_reach.init [OF small_budget_new]],
      of 60 "js ''stale''" "snd (tryReserve (jint 60) (js ''stale'') small_budget)"]
  by (simp add: tryReserve_def small_budget_def Let_def)

text \<open>
  Asking for the shared default budget again with the options it was created from succeeds exactly
  when \<open>maxMemory\<close> resolves to a whole number of bytes: the second call compares the unrounded limit
  with the rounded cap, so a percentage that does not divide evenly is reported as a conflict.
\<close>

theorem default_budget_again:
  assumes "getDefaultMemoryBudget (Some opts) sg None = Inr b"
    and "parseLimit (mbo_maxMemory opts)
      (case ms_effectiveBytes sg of Some e \<Rightarrow> JNum e
       | None \<Rightarrow> (case mbo_maxMemory opts of LimitNumber n \<Rightarrow> n | _ \<Rightarrow> JNum 0)) = Inr m"
  shows "getDefaultMemoryBudget (Some opts) sg (Some b) =
    (if isInteger m then Inr b else Inl (Error ''Conflicting shared memory budget configuration''))"
proof -
  have fin: "isFinite (jfloor m)" and cap: "mb_hardCap b = num_int (jfloor m)"
    using assms unfolding getDefaultMemoryBudget_def newMemoryBudget_def Let_def
    by (auto split: if_splits sum.splits option.splits)
  then obtain r where r: "m = JNum r" by (cases m) auto
  then show ?thesis using assms cap by (auto simp: getDefaultMemoryBudget_def Let_def)
qed

theorem default_budget_again_witness:
  "\<exists>b. getDefaultMemoryBudget (Some (small_opts\<lparr>mbo_maxMemory := LimitNumber (JNum (201 / 2))\<rparr>))
        \<lparr>ms_effectiveBytes = None, ms_availableBytes = None, ms_psiSomeAvg10 = None\<rparr> None = Inr b
    \<and> mb_hardCap b = 100
    \<and> getDefaultMemoryBudget (Some (small_opts\<lparr>mbo_maxMemory := LimitNumber (JNum (201 / 2))\<rparr>))
        \<lparr>ms_effectiveBytes = None, ms_availableBytes = None, ms_psiSomeAvg10 = None\<rparr> (Some b)
      = Inl (Error ''Conflicting shared memory budget configuration'')"
  using default_budget_again [of "small_opts\<lparr>mbo_maxMemory := LimitNumber (JNum (201 / 2))\<rparr>"
      "\<lparr>ms_effectiveBytes = None, ms_availableBytes = None, ms_psiSomeAvg10 = None\<rparr>"
      "small_budget\<lparr>mb_hardCap := 100, mb_target := 100, mb_opts := small_opts\<lparr>mbo_maxMemory := LimitNumber (JNum (201 / 2))\<rparr>\<rparr>"
      "JNum (201 / 2)"]
  by (simp add: getDefaultMemoryBudget_def newMemoryBudget_def small_opts_def small_budget_def parseLimit_def Let_def)

end
