(* ===== verification/JS_Value.thy ===== *)
theory JS_Value
  imports JS_Map Decimal
begin

text \<open>
  Untyped JavaScript values as the validators receive them, and the library functions on strings the
  sources use: sorting by code units, \<open>join\<close>, \<open>JSON.stringify\<close> on strings, and ASCII character classes.
\<close>

datatype jsval = is_VStr: VStr jsstr | VNum jsnum | VBool bool | VNull | VUndefined
  | VArray "jsval list" | VObject "(jsstr \<times> jsval) list"

text \<open>Property access \<open>o.k\<close> on an object.\<close>

definition prop_of :: "(jsstr \<times> jsval) list \<Rightarrow> jsstr \<Rightarrow> jsval" where
  "prop_of o1 k = nullish (om_get o1 k) VUndefined"

section \<open>Strings\<close>

fun str_le :: "jsstr \<Rightarrow> jsstr \<Rightarrow> bool" where
  "str_le [] _ = True"
| "str_le (_ # _) [] = False"
| "str_le (a # x) (b # y) = (a < b \<or> a = b \<and> str_le x y)"

fun str_insert :: "jsstr \<Rightarrow> jsstr list \<Rightarrow> jsstr list" where
  "str_insert x [] = [x]"
| "str_insert x (y # ys) = (if str_le x y then x # y # ys else y # str_insert x ys)"

definition js_sort :: "jsstr list \<Rightarrow> jsstr list" where
  "js_sort xs = foldr str_insert xs []"

fun js_join :: "jsstr \<Rightarrow> jsstr list \<Rightarrow> jsstr" where
  "js_join sep [] = []"
| "js_join sep [x] = x"
| "js_join sep (x # y # xs) = x @ sep @ js_join sep (y # xs)"

definition digit_unit :: "unit16 \<Rightarrow> bool" where
  "digit_unit c \<longleftrightarrow> 48 \<le> c \<and> c \<le> 57"

definition alnum_unit :: "unit16 \<Rightarrow> bool" where
  "alnum_unit c \<longleftrightarrow> 65 \<le> c \<and> c \<le> 90 \<or> 97 \<le> c \<and> c \<le> 122 \<or> digit_unit c"

definition hex_unit :: "unit16 \<Rightarrow> bool" where
  "hex_unit c \<longleftrightarrow> digit_unit c \<or> 97 \<le> c \<and> c \<le> 102"

text \<open>The text of a string on the wire, as the Lua string Redis sees.\<close>

definition to_lua :: "jsstr \<Rightarrow> string" where
  "to_lua s = map (\<lambda>b. char_of (unat b)) (utf8 s)"

definition js_string :: "nat \<Rightarrow> jsstr" where
  "js_string n = js (dec n)"

section \<open>JSON.stringify on strings\<close>

definition hex_digit :: "nat \<Rightarrow> unit16" where
  "hex_digit n = of_nat (if n < 10 then 48 + n else 87 + n)"

definition json_u :: "unit16 \<Rightarrow> jsstr" where
  "json_u c = (let n = unat c in [92, 117, hex_digit (n div 4096), hex_digit (n div 256 mod 16),
     hex_digit (n div 16 mod 16), hex_digit (n mod 16)])"

definition json_unit :: "unit16 \<Rightarrow> jsstr" where
  "json_unit c = (if c = 34 then [92, 34] else if c = 92 then [92, 92]
     else if c = 8 then [92, 98] else if c = 12 then [92, 102] else if c = 10 then [92, 110]
     else if c = 13 then [92, 114] else if c = 9 then [92, 116]
     else if c < 32 then json_u c else [c])"

fun json_units :: "jsstr \<Rightarrow> jsstr" where
  "json_units [] = []"
| "json_units (c # cs) =
     (if high_surrogate c then
        (case cs of [] \<Rightarrow> json_u c
         | d # ds \<Rightarrow> if low_surrogate d then c # d # json_units ds else json_u c @ json_units cs)
      else if low_surrogate c then json_u c @ json_units cs
      else json_unit c @ json_units cs)"

definition json_string :: "jsstr \<Rightarrow> jsstr" where
  "json_string s = 34 # json_units s @ [34]"

definition json_strings :: "jsstr list \<Rightarrow> jsstr" where
  "json_strings xs = 91 # js_join [44] (map json_string xs) @ [93]"

text \<open>Well-formed UTF-16: every surrogate is part of a pair.\<close>

fun isWellFormedUnicode :: "jsstr \<Rightarrow> bool" where
  "isWellFormedUnicode [] = True"
| "isWellFormedUnicode (c # cs) =
     (if high_surrogate c then
        (case cs of [] \<Rightarrow> False | d # ds \<Rightarrow> low_surrogate d \<and> isWellFormedUnicode ds)
      else \<not> low_surrogate c \<and> isWellFormedUnicode cs)"

definition control_unit :: "unit16 \<Rightarrow> bool" where
  "control_unit c \<longleftrightarrow> c \<le> 0x1f \<or> c = 0x7f"

text \<open>
  Reading a quoted string back, up to its closing quote. It undoes \<open>json_units\<close> on well-formed strings
  without control characters, where the only escapes are those of the quote and the backslash.
\<close>

fun json_read :: "jsstr \<Rightarrow> (jsstr \<times> jsstr) option" where
  "json_read [] = None"
| "json_read (c # cs) =
     (if c = 34 then Some ([], cs)
      else if c = 92 then (case cs of [] \<Rightarrow> None
        | d # ds \<Rightarrow> map_option (\<lambda>p. (d # fst p, snd p)) (json_read ds))
      else map_option (\<lambda>p. (c # fst p, snd p)) (json_read cs))"

definition printable :: "jsstr \<Rightarrow> bool" where
  "printable s \<longleftrightarrow> isWellFormedUnicode s \<and> list_all (\<lambda>c. \<not> control_unit c) s"

lemma json_unit_plain: "\<not> control_unit c \<Longrightarrow> json_unit c = (if c = 34 then [92, 34] else if c = 92 then [92, 92] else [c])"
proof -
  assume n: "\<not> control_unit c"
  then have "\<not> c < 32" by (simp add: control_unit_def word_le_nat_alt word_less_nat_alt)
  moreover have "c \<noteq> 8" "c \<noteq> 12" "c \<noteq> 10" "c \<noteq> 13" "c \<noteq> 9" using n by (auto simp: control_unit_def)
  ultimately show ?thesis by (simp add: json_unit_def)
qed

lemma surrogate_not_special: "high_surrogate c \<or> low_surrogate c \<Longrightarrow> c \<noteq> 34 \<and> c \<noteq> 92"
  by (auto simp: high_surrogate_def low_surrogate_def)

lemma json_read_units:
  "isWellFormedUnicode s \<Longrightarrow> list_all (\<lambda>c. \<not> control_unit c) s \<Longrightarrow> json_read (json_units s @ 34 # rest) = Some (s, rest)"
proof (induction s rule: json_units.induct)
  case (2 c cs)
  show ?case
  proof (cases "high_surrogate c")
    case True
    then obtain d ds where "cs = d # ds" "low_surrogate d" "isWellFormedUnicode ds"
      using 2 by (auto split: list.splits)
    then show ?thesis using 2 True surrogate_not_special [of c] surrogate_not_special [of d] by simp
  next
    case False
    then show ?thesis using 2 by (auto simp: json_unit_plain)
  qed
qed simp

lemma json_string_inj:
  "printable s \<Longrightarrow> printable t \<Longrightarrow> json_string s @ u = json_string t @ v \<Longrightarrow> s = t \<and> u = v"
proof -
  assume p: "printable s" "printable t" and eq: "json_string s @ u = json_string t @ v"
  have "json_units s @ 34 # u = json_units t @ 34 # v" using eq by (simp add: json_string_def)
  then have "Some (s, u) = Some (t, v)"
    using json_read_units [of s u] json_read_units [of t v] p unfolding printable_def by metis
  then show ?thesis by simp
qed

lemma json_strings_inj:
  assumes "list_all printable xs" "list_all printable ys" "json_strings xs = json_strings ys"
    and "length xs = length ys"
  shows "xs = ys"
proof -
  have "js_join [44] (map json_string xs) @ u = js_join [44] (map json_string ys) @ v \<Longrightarrow> xs = ys" for u v
    using assms(4,1,2)
  proof (induction xs ys rule: list_induct2)
    case (Cons x xs y ys)
    show ?case
    proof (cases xs)
      case Nil
      then show ?thesis using Cons json_string_inj [of x y u v] by simp
    next
      case (Cons x' xs')
      then obtain y' ys' where ys: "ys = y' # ys'" using Cons.hyps by (cases ys) auto
      have "json_string x @ 44 # js_join [44] (map json_string xs) @ u
          = json_string y @ 44 # js_join [44] (map json_string ys) @ v"
        using Cons.prems(1) Cons ys by simp
      then have "x = y \<and> js_join [44] (map json_string xs) @ u = js_join [44] (map json_string ys) @ v"
        using json_string_inj [of x y] Cons.prems by auto
      then show ?thesis using Cons.IH Cons.prems by simp
    qed
  qed simp
  then show ?thesis using assms(3) by (auto simp: json_strings_def)
qed

end
