(* ===== verification/Operation_Script.thy ===== *)
theory Operation_Script
  imports Decimal JS_Map
begin

text \<open>
  The Lua coordination script of the transaction protocol (\<open>OPERATION_COORDINATION_LUA\<close> in
  \<open>transactions/scripts.ts\<close>), statement by statement: argument checks, the guarded read of the one
  operation record, and the four commands \<open>begin\<close>, \<open>renew\<close>, \<open>complete\<close> and \<open>read\<close>. A run of the script
  is a function of what \<open>GET\<close> and \<open>TIME\<close> return; its result is the reply and, when it reached its
  single \<open>SET\<close>, the value and the expiry it wrote. Parameters stand for the code outside the
  repository: \<open>cjson.encode\<close>, \<open>cjson.decode\<close>, and \<open>tonumber\<close> on the two duration arguments.
\<close>

section \<open>Lua values\<close>

text \<open>
  A Lua string is a byte string, here \<open>string\<close>. \<open>LTable\<close> is a decoded JSON object, \<open>LOther\<close> anything
  the script only ever rejects (arrays, \<open>cjson.null\<close>).
\<close>

datatype luaval = LStr string | LNum jsnum | LBool bool | LOther | LTable "(string \<times> luaval) list"

type_synonym lua_table = "(string \<times> luaval) list"

definition field :: "lua_table \<Rightarrow> string \<Rightarrow> luaval option" where
  "field t k = om_get t k"

text \<open>\<open>integer(n, lo, hi)\<close>; \<open>None\<close> is \<open>nil\<close>.\<close>

definition lua_integer :: "jsnum option \<Rightarrow> int \<Rightarrow> int \<Rightarrow> bool" where
  "lua_integer n lo hi \<longleftrightarrow> (case n of None \<Rightarrow> False
     | Some x \<Rightarrow> isInteger x \<and> jle (jint lo) x \<and> jle x (jint hi))"

definition bounded :: "luaval option \<Rightarrow> nat \<Rightarrow> bool" where
  "bounded v n \<longleftrightarrow> (case v of Some (LStr s) \<Rightarrow> 0 < length s \<and> length s \<le> n | _ \<Rightarrow> False)"

definition hex_char :: "char \<Rightarrow> bool" where
  "hex_char c \<longleftrightarrow> (let n = (of_char c :: nat) in 48 \<le> n \<and> n \<le> 57 \<or> 97 \<le> n \<and> n \<le> 102)"

text \<open>
  The class \<open>[A-Za-z0-9_:/%.%-]\<close> of the Lua pattern: \<open>%.\<close> and \<open>%-\<close> are the escaped dot and hyphen,
  so the percent sign itself is outside it.
\<close>

definition ref_char :: "char \<Rightarrow> bool" where
  "ref_char c \<longleftrightarrow> (let n = (of_char c :: nat) in
     65 \<le> n \<and> n \<le> 90 \<or> 97 \<le> n \<and> n \<le> 122 \<or> 48 \<le> n \<and> n \<le> 57
     \<or> n = 95 \<or> n = 58 \<or> n = 47 \<or> n = 46 \<or> n = 45)"

definition lua_str :: "luaval option \<Rightarrow> string" where
  "lua_str v = (case v of Some (LStr s) \<Rightarrow> s | _ \<Rightarrow> [])"

definition lua_hex64 :: "luaval option \<Rightarrow> bool" where
  "lua_hex64 v \<longleftrightarrow> bounded v 64 \<and> length (lua_str v) = 64 \<and> list_all hex_char (lua_str v)"

definition lua_reference :: "luaval option \<Rightarrow> nat \<Rightarrow> bool" where
  "lua_reference v cap \<longleftrightarrow> bounded v cap \<and> list_all ref_char (lua_str v)"

text \<open>
  \<open>timestamp(s)\<close>: at most 16 digits, so \<open>tonumber\<close> of a value up to \<open>2^53 - 1\<close> is exact and a larger one
  stays out of range.
\<close>

definition timestamp :: "luaval option \<Rightarrow> int option" where
  "timestamp v = (case v of
     Some (LStr s) \<Rightarrow>
       if 16 < length s \<or> \<not> canonical s then None
       else if int (dec_value s) \<le> MAX_SAFE_INTEGER then Some (int (dec_value s)) else None
   | _ \<Rightarrow> None)"

definition allowed_fields :: "string list" where
  "allowed_fields = [''schema'', ''fingerprint'', ''durableId'', ''owner'', ''state'', ''leaseUntilMs'',
     ''retainUntilMs'', ''resultRef'']"

definition validate_record :: "luaval \<Rightarrow> bool" where
  "validate_record r = (case r of
     LTable t \<Rightarrow>
       field t ''schema'' = Some (LNum (JNum 1)) \<and> lua_hex64 (field t ''fingerprint'')
       \<and> lua_hex64 (field t ''owner'') \<and> lua_reference (field t ''durableId'') 128
       \<and> list_all (\<lambda>p. fst p \<in> set allowed_fields) t \<and> length t = 8
       \<and> (case (timestamp (field t ''leaseUntilMs''), timestamp (field t ''retainUntilMs'')) of
            (Some untilMs, Some retainMs) \<Rightarrow>
              0 < retainMs
              \<and> (if field t ''state'' = Some (LStr ''pending'')
                 then 0 < untilMs \<and> untilMs \<le> retainMs \<and> field t ''resultRef'' = Some (LStr [])
                 else field t ''state'' = Some (LStr ''completed'') \<and> untilMs = 0
                      \<and> lua_reference (field t ''resultRef'') 256)
          | _ \<Rightarrow> False)
   | _ \<Rightarrow> False)"

section \<open>One run of the script\<close>

record script_env =
  se_encode :: "luaval \<Rightarrow> string"
  se_decode :: "string \<Rightarrow> luaval option"
  se_tonumber :: "string \<Rightarrow> jsnum option"

datatype reply = Reply "string list" | ErrReply string

text \<open>What the \<open>GET\<close> finds; a key of another type makes it raise.\<close>

datatype get_result = GNil | GStr string | GWrongType

type_synonym effect = "(string \<times> int) option"

definition lua_decimal :: "int \<Rightarrow> string" where
  "lua_decimal n = dec (nat n)"

definition ms_field :: "lua_table \<Rightarrow> string \<Rightarrow> int" where
  "ms_field t k = int (dec_value (lua_str (field t k)))"

definition retainedDeadline :: "int \<Rightarrow> int \<Rightarrow> lua_table option \<Rightarrow> string" where
  "retainedDeadline now retention r = lua_decimal (max (now + retention)
     (case r of None \<Rightarrow> 0 | Some t \<Rightarrow> ms_field t ''retainUntilMs''))"

definition remaining :: "int \<Rightarrow> lua_table \<Rightarrow> int" where
  "remaining now t = max 0 (ms_field t ''leaseUntilMs'' - now)"

text \<open>
  \<open>persist\<close> continues with the reply \<open>ok\<close> after its \<open>SET\<close>; a failed check raises or returns an error
  before the \<open>SET\<close>.
\<close>

definition persist :: "script_env \<Rightarrow> int \<Rightarrow> lua_table \<Rightarrow> string list \<Rightarrow> reply \<times> effect" where
  "persist env now nextRecord ok =
     (if \<not> validate_record (LTable nextRecord) then (ErrReply ''TX_INVALID_RECORD'', None)
      else let encoded = se_encode env (LTable nextRecord) in
        if 2048 < length encoded then (ErrReply ''TX_INVALID_RECORD'', None)
        else let ttl = ms_field nextRecord ''retainUntilMs'' - now in
          if \<not> (1 \<le> ttl \<and> ttl \<le> 2592000000) then (ErrReply ''TX_INVALID_TTL'', None)
          else (Reply ok, Some (encoded, ttl)))"

definition op_read :: "int \<Rightarrow> lua_table option \<Rightarrow> reply" where
  "op_read now r = Reply (case r of None \<Rightarrow> [''missing'']
     | Some t \<Rightarrow> if field t ''state'' = Some (LStr ''completed'')
                then [''completed'', lua_str (field t ''resultRef'')]
                else if remaining now t = 0 then [''recovery_required'']
                else [''in_progress'', lua_decimal (remaining now t)])"

definition pending_record :: "string \<Rightarrow> string \<Rightarrow> string \<Rightarrow> string \<Rightarrow> string \<Rightarrow> lua_table" where
  "pending_record fp durable owner untilMs retainMs =
     [(''schema'', LNum (JNum 1)), (''fingerprint'', LStr fp), (''durableId'', LStr durable),
      (''owner'', LStr owner), (''state'', LStr ''pending''), (''leaseUntilMs'', LStr untilMs),
      (''retainUntilMs'', LStr retainMs), (''resultRef'', LStr [])]"

definition op_begin ::
  "script_env \<Rightarrow> int \<Rightarrow> string \<Rightarrow> string \<Rightarrow> string \<Rightarrow> int \<Rightarrow> int \<Rightarrow> lua_table option \<Rightarrow> reply \<times> effect" where
  "op_begin env now fp durable owner lease retention r =
     (case r of
        Some t \<Rightarrow>
          if 0 < remaining now t then
            (if field t ''owner'' = Some (LStr owner)
             then (Reply [''acquired'', owner, lua_decimal (remaining now t), ''reconcile''], None)
             else (Reply [''in_progress'', lua_decimal (remaining now t)], None))
          else if field t ''owner'' = Some (LStr owner) then (ErrReply ''TX_FRESH_OWNER_REQUIRED'', None)
          else persist env now (pending_record fp durable owner (lua_decimal (now + lease))
                 (retainedDeadline now retention r)) [''acquired'', owner, lua_decimal lease, ''reconcile'']
      | None \<Rightarrow>
          persist env now (pending_record fp durable owner (lua_decimal (now + lease))
            (retainedDeadline now retention r)) [''acquired'', owner, lua_decimal lease, ''reconcile''])"

definition op_renew :: "script_env \<Rightarrow> int \<Rightarrow> int \<Rightarrow> int \<Rightarrow> lua_table \<Rightarrow> reply \<times> effect" where
  "op_renew env now lease retention t =
     (let t1 = om_set t ''leaseUntilMs'' (LStr (lua_decimal (now + lease)));
          t2 = om_set t1 ''retainUntilMs'' (LStr (retainedDeadline now retention (Some t1)))
      in persist env now t2 [''renewed'', lua_decimal lease])"

definition op_complete :: "script_env \<Rightarrow> int \<Rightarrow> int \<Rightarrow> string \<Rightarrow> lua_table \<Rightarrow> reply \<times> effect" where
  "op_complete env now retention result t =
     (let t1 = om_set (om_set t ''state'' (LStr ''completed'')) ''resultRef'' (LStr result);
          t2 = om_set (om_set t1 ''leaseUntilMs'' (LStr ''0''))
                 ''retainUntilMs'' (LStr (retainedDeadline now retention (Some t1)))
      in persist env now t2 [''completed'', result])"

text \<open>The commands after the record has been read and checked against the request.\<close>

definition op_command ::
  "script_env \<Rightarrow> int \<Rightarrow> string \<Rightarrow> string \<Rightarrow> string \<Rightarrow> string \<Rightarrow> int \<Rightarrow> int \<Rightarrow> string \<Rightarrow> lua_table option
    \<Rightarrow> reply \<times> effect" where
  "op_command env now cmd fp durable owner lease retention result r =
     (if cmd = ''read'' then (op_read now r, None)
      else case r of
        None \<Rightarrow> if cmd = ''begin'' then op_begin env now fp durable owner lease retention r
               else (Reply [''lost''], None)
      | Some t \<Rightarrow>
          if field t ''state'' = Some (LStr ''completed'') then
            (if cmd = ''renew'' then (Reply [''lost''], None)
             else if cmd = ''complete'' \<and> field t ''resultRef'' \<noteq> Some (LStr result) then (Reply [''conflict''], None)
             else (Reply [''completed'', lua_str (field t ''resultRef'')], None))
          else if cmd = ''begin'' then op_begin env now fp durable owner lease retention r
          else if field t ''owner'' \<noteq> Some (LStr owner) \<or> remaining now t = 0 then (Reply [''lost''], None)
          else if cmd = ''renew'' then op_renew env now lease retention t
          else op_complete env now retention result t)"

text \<open>The guarded read: an oversized, undecodable or invalid record is an error, another request a conflict.\<close>

definition op_load :: "script_env \<Rightarrow> string \<Rightarrow> string \<Rightarrow> get_result \<Rightarrow> reply + lua_table option" where
  "op_load env fp durable g = (case g of
     GWrongType \<Rightarrow> Inl (ErrReply ''WRONGTYPE'')
   | GNil \<Rightarrow> Inr None
   | GStr raw \<Rightarrow>
       if 2048 < length raw then Inl (ErrReply ''TX_INVALID_RECORD'')
       else case se_decode env raw of
         Some (LTable t) \<Rightarrow>
           if \<not> validate_record (LTable t) then Inl (ErrReply ''TX_INVALID_RECORD'')
           else if field t ''fingerprint'' \<noteq> Some (LStr fp) \<or> field t ''durableId'' \<noteq> Some (LStr durable)
           then Inl (Reply [''conflict''])
           else Inr (Some t)
       | _ \<Rightarrow> Inl (ErrReply ''TX_INVALID_RECORD''))"

text \<open>The script on one key, its arguments, the \<open>GET\<close> result and the two parts of \<open>TIME\<close>.\<close>

fun op_script :: "script_env \<Rightarrow> nat \<Rightarrow> string list \<Rightarrow> get_result \<Rightarrow> nat \<Rightarrow> nat \<Rightarrow> reply \<times> effect" where
  "op_script env nkeys [cmd, fp, durable, owner, leaseArg, retentionArg, result] g secs usecs =
     (let lease = se_tonumber env leaseArg; retention = se_tonumber env retentionArg in
      if nkeys \<noteq> 1 then (ErrReply ''TX_INVALID_ARGS'', None)
      else if cmd \<notin> {''begin'', ''renew'', ''complete'', ''read''} then (ErrReply ''TX_INVALID_COMMAND'', None)
      else if \<not> lua_hex64 (Some (LStr fp)) \<or> \<not> lua_reference (Some (LStr durable)) 128
      then (ErrReply ''TX_INVALID_ID'', None)
      else if cmd \<noteq> ''read'' \<and> \<not> lua_hex64 (Some (LStr owner)) then (ErrReply ''TX_INVALID_OWNER'', None)
      else if \<not> lua_integer lease 1 3600000
        \<or> \<not> lua_integer retention (num_int (nullish lease JNaN)) 2592000000 then (ErrReply ''TX_INVALID_TTL'', None)
      else if cmd = ''complete'' \<and> \<not> lua_reference (Some (LStr result)) 256
      then (ErrReply ''TX_INVALID_RESULT'', None)
      else case op_load env fp durable g of
        Inl rep \<Rightarrow> (rep, None)
      | Inr r \<Rightarrow>
          let now = int secs * 1000 + int (usecs div 1000);
              leaseMs = num_int (nullish lease JNaN); retentionMs = num_int (nullish retention JNaN) in
          if MAX_SAFE_INTEGER - retentionMs < now then (ErrReply ''TX_INVALID_TIME'', None)
          else op_command env now cmd fp durable owner leaseMs retentionMs result r)"
| "op_script env nkeys args g secs usecs = (ErrReply ''TX_INVALID_ARGS'', None)"

end
