(* ===== verification/Transaction_Keys.thy ===== *)
theory Transaction_Keys
  imports JS_Value Operation_Script
begin

text \<open>
  Validation of transaction identities and derivation of record keys (\<open>transactions/keys.ts\<close>,
  \<open>Identity\<close> of \<open>transactions/types.ts\<close>). SHA-256 and its hexadecimal output are a parameter.
\<close>

section \<open>Errors\<close>

text \<open>The error classes of \<open>transactions/types.ts\<close>, with the message of the instance.\<close>

datatype op_error_kind = OperationError | OperationUnavailableError | OperationGateClosedError
  | OperationUnknownError | OperationValidationError | OperationConfigurationError
  | OperationProtocolError | OperationDispatchTimeoutError | InvalidReplyError | OtherError

record op_error =
  oe_kind :: op_error_kind
  oe_message :: string

abbreviation op_err :: "op_error_kind \<Rightarrow> string \<Rightarrow> op_error" where
  "op_err k m \<equiv> \<lparr>oe_kind = k, oe_message = m\<rparr>"

abbreviation invalid :: "string \<Rightarrow> op_error + 'a" where
  "invalid m \<equiv> Inl (op_err OperationValidationError m)"

section \<open>Limits and patterns\<close>

definition MAX_NAMESPACE_BYTES :: nat where "MAX_NAMESPACE_BYTES = 96"
definition MAX_TENANT_BYTES :: nat where "MAX_TENANT_BYTES = 128"
definition MAX_OPERATION_BYTES :: nat where "MAX_OPERATION_BYTES = 96"
definition MAX_IDEMPOTENCY_KEY_BYTES :: nat where "MAX_IDEMPOTENCY_KEY_BYTES = 256"
definition MAX_DURABLE_ID_BYTES :: nat where "MAX_DURABLE_ID_BYTES = 128"
definition MAX_RESULT_REFERENCE_BYTES :: nat where "MAX_RESULT_REFERENCE_BYTES = 256"
definition MAX_PAYMENT_ACCOUNT_BYTES :: nat where "MAX_PAYMENT_ACCOUNT_BYTES = 128"
definition MAX_PAYMENT_AMOUNT_MINOR :: int where "MAX_PAYMENT_AMOUNT_MINOR = 9223372036854775807"

definition HEX_64 :: "jsstr \<Rightarrow> bool" where
  "HEX_64 s \<longleftrightarrow> length s = 64 \<and> list_all hex_unit s"

definition NAMESPACE :: "jsstr \<Rightarrow> bool" where
  "NAMESPACE s \<longleftrightarrow> s \<noteq> [] \<and> alnum_unit (hd s)
     \<and> list_all (\<lambda>c. alnum_unit c \<or> c = 95 \<or> c = 46 \<or> c = 58 \<or> c = 45) (tl s)"

text \<open>The class \<open>[A-Za-z0-9_:/%.\-]\<close> of the JavaScript pattern, percent sign included.\<close>

definition reference_unit :: "unit16 \<Rightarrow> bool" where
  "reference_unit c \<longleftrightarrow> alnum_unit c \<or> c = 95 \<or> c = 58 \<or> c = 47 \<or> c = 37 \<or> c = 46 \<or> c = 45"

definition REFERENCE :: "jsstr \<Rightarrow> bool" where
  "REFERENCE s \<longleftrightarrow> s \<noteq> [] \<and> list_all reference_unit s"

definition POSITIVE_DECIMAL :: "jsstr \<Rightarrow> bool" where
  "POSITIVE_DECIMAL s \<longleftrightarrow> s \<noteq> [] \<and> list_all digit_unit s \<and> hd s \<noteq> 48"

section \<open>Validators\<close>

definition boundedString :: "string \<Rightarrow> jsval \<Rightarrow> nat \<Rightarrow> op_error + jsstr" where
  "boundedString name value maxBytes = (case value of
     VStr s \<Rightarrow>
       if s = [] then invalid (name @ '' must be a non-empty string'')
       else if \<not> isWellFormedUnicode s then invalid (name @ '' must contain well-formed UTF-8'')
       else if maxBytes < byteLength s then invalid (name @ '' exceeds its byte limit'')
       else if list_ex control_unit s then invalid (name @ '' contains a control character'')
       else Inr s
   | _ \<Rightarrow> invalid (name @ '' must be a non-empty string''))"

definition guard_err :: "bool \<Rightarrow> string \<Rightarrow> 'a \<Rightarrow> op_error + 'a" where
  "guard_err ok m x = (if ok then Inr x else invalid m)"

definition and_then :: "op_error + 'a \<Rightarrow> ('a \<Rightarrow> op_error + 'b) \<Rightarrow> op_error + 'b" where
  "and_then r f = (case r of Inl e \<Rightarrow> Inl e | Inr x \<Rightarrow> f x)"

definition validateNamespace :: "jsval \<Rightarrow> op_error + jsstr" where
  "validateNamespace namespace = and_then (boundedString ''namespace'' namespace MAX_NAMESPACE_BYTES)
     (\<lambda>value. guard_err (NAMESPACE value \<and> 123 \<notin> set value \<and> 125 \<notin> set value)
        ''namespace contains unsupported characters'' value)"

definition validateReference :: "string \<Rightarrow> jsval \<Rightarrow> nat \<Rightarrow> op_error + jsstr" where
  "validateReference name value maxBytes = and_then (boundedString name value maxBytes)
     (\<lambda>result. guard_err (REFERENCE result) (name @ '' contains unsupported identifier characters'') result)"

definition validateFingerprint :: "jsval \<Rightarrow> op_error + jsstr" where
  "validateFingerprint value = and_then (boundedString ''fingerprint'' value 64)
     (\<lambda>fingerprint. guard_err (HEX_64 fingerprint) ''fingerprint must be a lowercase SHA-256 hex digest'' fingerprint)"

definition validateOwner :: "jsval \<Rightarrow> op_error + jsstr" where
  "validateOwner value = and_then (boundedString ''owner'' value 64)
     (\<lambda>owner. guard_err (HEX_64 owner) ''owner must be a lowercase 256-bit hex token'' owner)"

record Identity =
  id_tenant :: jsstr
  id_operation :: jsstr
  id_idempotencyKey :: jsstr
  id_fingerprint :: jsstr
  id_durableId :: jsstr

text \<open>\<open>Object.keys(value).sort().join(',')\<close>.\<close>

definition key_list :: "(jsstr \<times> jsval) list \<Rightarrow> jsstr" where
  "key_list value = js_join (js '','') (js_sort (map fst value))"

definition validateIdentity :: "jsval \<Rightarrow> op_error + Identity" where
  "validateIdentity identity = (case identity of
     VObject value \<Rightarrow>
       and_then (guard_err (key_list value = js ''durableId,fingerprint,idempotencyKey,operation,tenant'')
         ''identity has unknown or missing fields'' ()) (\<lambda>_.
       and_then (boundedString ''tenant'' (prop_of value (js ''tenant'')) MAX_TENANT_BYTES) (\<lambda>tenant.
       and_then (boundedString ''operation'' (prop_of value (js ''operation'')) MAX_OPERATION_BYTES) (\<lambda>operation.
       and_then (boundedString ''idempotencyKey'' (prop_of value (js ''idempotencyKey'')) MAX_IDEMPOTENCY_KEY_BYTES) (\<lambda>idempotencyKey.
       and_then (validateFingerprint (prop_of value (js ''fingerprint''))) (\<lambda>fingerprint.
       and_then (validateReference ''durableId'' (prop_of value (js ''durableId'')) MAX_DURABLE_ID_BYTES) (\<lambda>durableId.
       Inr \<lparr>id_tenant = tenant, id_operation = operation, id_idempotencyKey = idempotencyKey,
            id_fingerprint = fingerprint, id_durableId = durableId\<rparr>))))))
   | _ \<Rightarrow> invalid ''identity must be an object'')"

text \<open>A validated identity given to another validator, as the frozen object it is.\<close>

definition identity_value :: "Identity \<Rightarrow> jsval" where
  "identity_value i = VObject [(js ''tenant'', VStr (id_tenant i)), (js ''operation'', VStr (id_operation i)),
     (js ''idempotencyKey'', VStr (id_idempotencyKey i)), (js ''fingerprint'', VStr (id_fingerprint i)),
     (js ''durableId'', VStr (id_durableId i))]"

section \<open>Digests and keys\<close>

text \<open>\<open>sha\<close> is SHA-256 over bytes with hexadecimal output.\<close>

definition digest :: "(bytes \<Rightarrow> jsstr) \<Rightarrow> jsstr \<Rightarrow> jsstr" where
  "digest sha value = sha (utf8 value)"

definition operationKey :: "(bytes \<Rightarrow> jsstr) \<Rightarrow> jsval \<Rightarrow> jsval \<Rightarrow> op_error + jsstr" where
  "operationKey sha namespace identity =
     and_then (validateNamespace namespace) (\<lambda>ns.
     and_then (validateIdentity identity) (\<lambda>i.
     let scope = digest sha (json_strings [ns, id_tenant i]);
         operation = digest sha (json_strings [ns, id_tenant i, id_operation i, id_idempotencyKey i])
     in Inr (js ''lltx:v1:'' @ scope @ js '':{'' @ operation @ js ''}:record'')))"

text \<open>The first failing element decides.\<close>

fun traverse :: "('a \<Rightarrow> op_error + 'b) \<Rightarrow> 'a list \<Rightarrow> op_error + 'b list" where
  "traverse f [] = Inr []"
| "traverse f (x # xs) = and_then (f x) (\<lambda>y. and_then (traverse f xs) (\<lambda>ys. Inr (y # ys)))"

definition fingerprintFields :: "(bytes \<Rightarrow> jsstr) \<Rightarrow> jsval \<Rightarrow> jsval \<Rightarrow> op_error + jsstr" where
  "fingerprintFields sha domain flds =
     and_then (boundedString ''fingerprint domain'' domain 64) (\<lambda>d.
     case flds of
       VArray xs \<Rightarrow>
         if \<not> list_all is_VStr xs then invalid ''fingerprint fields must be strings''
         else and_then (traverse (\<lambda>v. boundedString ''fingerprint field'' v 512) xs) (\<lambda>checked.
           Inr (digest sha (json_strings (d # checked))))
     | _ \<Rightarrow> invalid ''fingerprint fields must be strings'')"

text \<open>\<open>BigInt(s)\<close> of a string of digits.\<close>

definition bigint :: "jsstr \<Rightarrow> int" where
  "bigint s = foldl (\<lambda>n c. n * 10 + (uint c - 48)) 0 s"

definition validateAmountMinor :: "jsval \<Rightarrow> op_error + jsstr" where
  "validateAmountMinor amountMinor = and_then (boundedString ''amountMinor'' amountMinor 32) (\<lambda>amount.
     and_then (guard_err (POSITIVE_DECIMAL amount) ''amountMinor must be a positive canonical decimal string'' ()) (\<lambda>_.
     guard_err (bigint amount \<le> MAX_PAYMENT_AMOUNT_MINOR)
       ''amountMinor exceeds 9223372036854775807'' amount))"

definition paymentAccount :: "string \<Rightarrow> jsval \<Rightarrow> op_error + jsstr" where
  "paymentAccount name value = and_then (boundedString name value MAX_PAYMENT_ACCOUNT_BYTES)
     (\<lambda>account. guard_err (REFERENCE account) (name @ '' contains unsupported identifier characters'') account)"

record PaymentFingerprintInput =
  pf_tenant :: jsstr
  pf_fromAccount :: jsstr
  pf_toAccount :: jsstr
  pf_currency :: jsstr
  pf_amountMinor :: jsstr

definition validatePaymentFingerprintInput :: "jsval \<Rightarrow> op_error + PaymentFingerprintInput" where
  "validatePaymentFingerprintInput input = (case input of
     VObject value \<Rightarrow>
       and_then (guard_err (key_list value = js ''amountMinor,currency,fromAccount,tenant,toAccount'')
         ''payment input has unknown or missing fields'' ()) (\<lambda>_.
       and_then (boundedString ''tenant'' (prop_of value (js ''tenant'')) MAX_TENANT_BYTES) (\<lambda>tenant.
       and_then (paymentAccount ''fromAccount'' (prop_of value (js ''fromAccount''))) (\<lambda>fromAccount.
       and_then (paymentAccount ''toAccount'' (prop_of value (js ''toAccount''))) (\<lambda>toAccount.
       and_then (boundedString ''currency'' (prop_of value (js ''currency'')) 8) (\<lambda>currency.
       and_then (guard_err (length currency = 3 \<and> list_all (\<lambda>c. 65 \<le> c \<and> c \<le> 90) currency)
         ''currency must be an uppercase ISO-4217 code'' ()) (\<lambda>_.
       and_then (validateAmountMinor (prop_of value (js ''amountMinor''))) (\<lambda>amountMinor.
       guard_err (fromAccount \<noteq> toAccount) ''fromAccount and toAccount must differ''
         \<lparr>pf_tenant = tenant, pf_fromAccount = fromAccount, pf_toAccount = toAccount,
          pf_currency = currency, pf_amountMinor = amountMinor\<rparr>)))))))
   | _ \<Rightarrow> invalid ''payment input must be an object'')"

definition paymentFingerprint :: "(bytes \<Rightarrow> jsstr) \<Rightarrow> jsval \<Rightarrow> op_error + jsstr" where
  "paymentFingerprint sha input = and_then (validatePaymentFingerprintInput input) (\<lambda>p.
     fingerprintFields sha (VStr (js ''payment-v1'')) (VArray [VStr (pf_tenant p), VStr (pf_fromAccount p),
       VStr (pf_toAccount p), VStr (pf_currency p), VStr (pf_amountMinor p)]))"

definition paymentProviderKey :: "(bytes \<Rightarrow> jsstr) \<Rightarrow> jsval \<Rightarrow> jsval \<Rightarrow> op_error + jsstr" where
  "paymentProviderKey sha durableId providerAccount =
     and_then (validateReference ''durableId'' durableId MAX_DURABLE_ID_BYTES) (\<lambda>i.
     and_then (validateReference ''providerAccount'' providerAccount 128) (\<lambda>account.
     and_then (fingerprintFields sha (VStr (js ''provider-v1'')) (VArray [VStr account, VStr i])) (\<lambda>f.
     Inr (js ''lltx-provider-v1-'' @ f))))"

definition isReference :: "jsval \<Rightarrow> nat \<Rightarrow> bool" where
  "isReference value maxBytes = (case value of
     VStr s \<Rightarrow> s \<noteq> [] \<and> byteLength s \<le> maxBytes \<and> REFERENCE s | _ \<Rightarrow> False)"

section \<open>Facts\<close>

lemma and_then_Inr: "and_then r f = Inr y \<longleftrightarrow> (\<exists>x. r = Inr x \<and> f x = Inr y)"
  by (simp add: and_then_def split: sum.splits)

lemma guard_err_Inr: "guard_err ok m x = Inr y \<longleftrightarrow> ok \<and> y = x"
  by (auto simp: guard_err_def)

lemmas validate_simps = and_then_Inr guard_err_Inr

lemma boundedString_Inr: "boundedString name v n = Inr s \<longleftrightarrow>
    v = VStr s \<and> s \<noteq> [] \<and> isWellFormedUnicode s \<and> byteLength s \<le> n \<and> \<not> list_ex control_unit s"
  by (auto simp: boundedString_def split: jsval.splits if_splits)

lemma boundedString_printable: "boundedString name v n = Inr s \<Longrightarrow> printable s"
  by (simp add: boundedString_Inr printable_def list_ex_iff list_all_iff)

definition identity_ok :: "Identity \<Rightarrow> bool" where
  "identity_ok i \<longleftrightarrow> printable (id_tenant i) \<and> printable (id_operation i) \<and> printable (id_idempotencyKey i)
     \<and> HEX_64 (id_fingerprint i) \<and> REFERENCE (id_durableId i) \<and> byteLength (id_durableId i) \<le> 128"

lemma validateIdentity_ok: "validateIdentity v = Inr i \<Longrightarrow> identity_ok i"
  by (auto simp: validateIdentity_def validate_simps identity_ok_def validateFingerprint_def validateReference_def
      MAX_DURABLE_ID_BYTES_def boundedString_Inr printable_def list_ex_iff list_all_iff split: jsval.splits)

lemma validateNamespace_ok: "validateNamespace v = Inr ns \<Longrightarrow> printable ns"
  by (auto simp: validateNamespace_def validate_simps dest: boundedString_printable)

subsection \<open>Agreement with the script's patterns\<close>

definition lua_char :: "unit16 \<Rightarrow> char" where
  "lua_char c = char_of (unat (ucast c :: byte))"

lemma to_lua_ascii: "ascii s \<Longrightarrow> to_lua s = map lua_char s"
  by (simp add: to_lua_def utf8_ascii lua_char_def)

lemma of_lua_char: "c < 0x80 \<Longrightarrow> (of_char (lua_char c) :: nat) = unat c"
proof -
  assume "c < 0x80"
  then have "unat c < 128" by (simp add: word_less_nat_alt)
  then show ?thesis by (simp add: lua_char_def unsigned_ucast_eq take_bit_eq_mod)
qed

lemma hex_unit_ascii: "hex_unit c \<Longrightarrow> c < 0x80"
  by (auto simp: hex_unit_def digit_unit_def word_le_nat_alt word_less_nat_alt)

lemma reference_unit_ascii: "reference_unit c \<Longrightarrow> c < 0x80"
  by (auto simp: reference_unit_def alnum_unit_def digit_unit_def word_le_nat_alt word_less_nat_alt)

lemma hex_char_lua: "hex_unit c \<Longrightarrow> hex_char (lua_char c)"
  using of_lua_char [OF hex_unit_ascii [of c]]
  by (auto simp: hex_char_def hex_unit_def digit_unit_def word_le_nat_alt Let_def)

lemma ref_char_lua: "reference_unit c \<Longrightarrow> ref_char (lua_char c) \<longleftrightarrow> c \<noteq> 37"
proof -
  assume r: "reference_unit c"
  note n = of_lua_char [OF reference_unit_ascii [OF r]]
  have r': "65 \<le> unat c \<and> unat c \<le> 90 \<or> 97 \<le> unat c \<and> unat c \<le> 122 \<or> 48 \<le> unat c \<and> unat c \<le> 57
      \<or> unat c = 95 \<or> unat c = 58 \<or> unat c = 47 \<or> unat c = 37 \<or> unat c = 46 \<or> unat c = 45"
    using r by (simp add: reference_unit_def alnum_unit_def digit_unit_def word_le_nat_alt word_unat_eq_iff)
  have p: "c = 37 \<longleftrightarrow> unat c = 37" by (simp add: word_unat_eq_iff)
  show ?thesis unfolding p ref_char_def Let_def n using r' by presburger
qed

lemma hex64_agrees: "HEX_64 s \<Longrightarrow> lua_hex64 (Some (LStr (to_lua s)))"
proof -
  assume h: "HEX_64 s"
  then have "ascii s" by (auto simp: HEX_64_def ascii_def list_all_iff hex_unit_ascii)
  then show ?thesis using h
    by (auto simp: lua_hex64_def bounded_def lua_str_def to_lua_ascii HEX_64_def list_all_iff hex_char_lua)
qed

lemma reference_agrees:
  assumes "REFERENCE s" and "byteLength s \<le> n"
  shows "lua_reference (Some (LStr (to_lua s))) n \<longleftrightarrow> 37 \<notin> set s"
proof -
  have "ascii s" using assms(1) by (auto simp: REFERENCE_def ascii_def list_all_iff reference_unit_ascii)
  then show ?thesis using assms
    by (auto simp: lua_reference_def bounded_def lua_str_def to_lua_ascii byteLength_ascii REFERENCE_def
        list_all_iff ref_char_lua)
qed

subsection \<open>Keys and fingerprints collide only with the digest\<close>

lemma fingerprint_fields_inj:
  assumes "list_all printable xs" "list_all printable ys" "length xs = length ys"
    and "digest sha (json_strings xs) = digest sha (json_strings ys)"
  shows "xs = ys \<or> (\<exists>x y. x \<noteq> y \<and> digest sha x = digest sha y)"
  using json_strings_inj [OF assms(1,2) _ assms(3)] assms(4) by blast

lemma checked_fields:
  "traverse (\<lambda>v. boundedString m v n) (map VStr xs) = Inr ys \<Longrightarrow> ys = xs \<and> list_all printable xs"
proof (induction xs arbitrary: ys)
  case (Cons x xs)
  then show ?case
    by (auto simp: validate_simps boundedString_Inr intro: boundedString_printable [of m "VStr x" n])
qed simp

lemma fingerprintFields_Inr:
  assumes "fingerprintFields sha (VStr d) (VArray (map VStr xs)) = Inr h"
  shows "list_all printable (d # xs) \<and> h = digest sha (json_strings (d # xs))"
proof -
  obtain ys where d: "boundedString ''fingerprint domain'' (VStr d) 64 = Inr d"
    and ys: "traverse (\<lambda>v. boundedString ''fingerprint field'' v 512) (map VStr xs) = Inr ys"
    and h: "h = digest sha (json_strings (d # ys))"
    using assms by (auto simp: fingerprintFields_def validate_simps boundedString_Inr split: if_splits)
  show ?thesis using checked_fields [OF ys] boundedString_printable [OF d] h by simp
qed

lemma operationKey_Inr:
  assumes "operationKey sha n v = Inr k"
  obtains ns i where "validateNamespace n = Inr ns" "validateIdentity v = Inr i"
    "k = js ''lltx:v1:'' @ digest sha (json_strings [ns, id_tenant i]) @ js '':{''
       @ digest sha (json_strings [ns, id_tenant i, id_operation i, id_idempotencyKey i]) @ js ''}:record''"
  using assms by (auto simp: operationKey_def validate_simps Let_def)

section \<open>Properties\<close>

text \<open>
  Two operations share a record key only if namespace, tenant, operation and idempotency key all
  agree, or SHA-256 (a parameter with 64-character output) collides: the JSON array that is hashed
  separates the fields whatever quotes, brackets or commas they contain.
\<close>

theorem operation_keys_separate:
  assumes "\<forall>x. length (sha x) = 64"
    and "operationKey sha n v = Inr k" and "operationKey sha n' v' = Inr k"
  shows "(\<exists>ns i i'. validateNamespace n = Inr ns \<and> validateNamespace n' = Inr ns
      \<and> validateIdentity v = Inr i \<and> validateIdentity v' = Inr i'
      \<and> id_tenant i = id_tenant i' \<and> id_operation i = id_operation i'
      \<and> id_idempotencyKey i = id_idempotencyKey i')
    \<or> (\<exists>x y. x \<noteq> y \<and> digest sha x = digest sha y)"
proof -
  obtain ns i where 1: "validateNamespace n = Inr ns" "validateIdentity v = Inr i"
    "k = js ''lltx:v1:'' @ digest sha (json_strings [ns, id_tenant i]) @ js '':{''
       @ digest sha (json_strings [ns, id_tenant i, id_operation i, id_idempotencyKey i]) @ js ''}:record''"
    using operationKey_Inr [OF assms(2)] .
  obtain ns' i' where 2: "validateNamespace n' = Inr ns'" "validateIdentity v' = Inr i'"
    "k = js ''lltx:v1:'' @ digest sha (json_strings [ns', id_tenant i']) @ js '':{''
       @ digest sha (json_strings [ns', id_tenant i', id_operation i', id_idempotencyKey i']) @ js ''}:record''"
    using operationKey_Inr [OF assms(3)] .
  have len: "length (digest sha x) = length (digest sha y)" for x y using assms(1) by (simp add: digest_def)
  have "digest sha (json_strings [ns, id_tenant i, id_operation i, id_idempotencyKey i])
      = digest sha (json_strings [ns', id_tenant i', id_operation i', id_idempotencyKey i'])"
    using 1(3) 2(3) len by (simp add: append_eq_append_conv)
  moreover have "list_all printable [ns, id_tenant i, id_operation i, id_idempotencyKey i]"
    "list_all printable [ns', id_tenant i', id_operation i', id_idempotencyKey i']"
    using 1(1,2) 2(1,2) validateNamespace_ok validateIdentity_ok unfolding identity_ok_def by auto
  ultimately have "[ns, id_tenant i, id_operation i, id_idempotencyKey i]
      = [ns', id_tenant i', id_operation i', id_idempotencyKey i'] \<or> (\<exists>x y. x \<noteq> y \<and> digest sha x = digest sha y)"
    by (intro fingerprint_fields_inj) simp_all
  then show ?thesis
  proof
    assume "[ns, id_tenant i, id_operation i, id_idempotencyKey i]
      = [ns', id_tenant i', id_operation i', id_idempotencyKey i']"
    then have eq: "ns' = ns" "id_tenant i = id_tenant i'" "id_operation i = id_operation i'"
      "id_idempotencyKey i = id_idempotencyKey i'" by simp_all
    show ?thesis
      by (intro disjI1 exI [of _ ns] exI [of _ i] exI [of _ i']) (use 1(1,2) 2(1,2) eq in simp)
  qed blast
qed

text \<open>An identity for the examples.\<close>

definition demo_identity :: "string \<Rightarrow> jsval" where
  "demo_identity durable = VObject [(js ''tenant'', VStr (js ''acme'')), (js ''operation'', VStr (js ''pay'')),
     (js ''idempotencyKey'', VStr (js ''k-1'')), (js ''fingerprint'', VStr (replicate 64 97)),
     (js ''durableId'', VStr (js durable))]"

definition demo_id :: "string \<Rightarrow> Identity" where
  "demo_id durable = \<lparr>id_tenant = js ''acme'', id_operation = js ''pay'', id_idempotencyKey = js ''k-1'',
     id_fingerprint = replicate 64 97, id_durableId = js durable\<rparr>"

lemma demo_identity_ok: "validateIdentity (demo_identity ''a%b'') = Inr (demo_id ''a%b'')"
  by code_simp

lemma demo_identity_ok2: "validateIdentity (demo_identity ''order-1'') = Inr (demo_id ''order-1'')"
  by code_simp

lemma demo_namespace_ok: "validateNamespace (VStr (js ''shop'')) = Inr (js ''shop'')"
  by code_simp

theorem operation_keys_separate_witness:
  "\<exists>k. operationKey (\<lambda>_. replicate 64 97) (VStr (js ''shop'')) (demo_identity ''order-1'') = Inr k
    \<and> operationKey (\<lambda>_. replicate 64 97) (VStr (js ''shop'')) (demo_identity ''a%b'') = Inr k
    \<and> id_tenant (demo_id ''order-1'') = id_tenant (demo_id ''a%b'')"
proof -
  let ?sha = "\<lambda>_ :: bytes. replicate 64 (97 :: unit16)"
  obtain k where k: "operationKey ?sha (VStr (js ''shop'')) (demo_identity ''order-1'') = Inr k"
    "operationKey ?sha (VStr (js ''shop'')) (demo_identity ''a%b'') = Inr k"
    by (simp add: operationKey_def and_then_def demo_namespace_ok demo_identity_ok demo_identity_ok2 digest_def)
  have "(\<exists>ns i i'. validateNamespace (VStr (js ''shop'')) = Inr ns \<and> validateNamespace (VStr (js ''shop'')) = Inr ns
      \<and> validateIdentity (demo_identity ''order-1'') = Inr i \<and> validateIdentity (demo_identity ''a%b'') = Inr i'
      \<and> id_tenant i = id_tenant i' \<and> id_operation i = id_operation i'
      \<and> id_idempotencyKey i = id_idempotencyKey i')
    \<or> (\<exists>x y. x \<noteq> y \<and> digest ?sha x = digest ?sha y)"
    by (rule operation_keys_separate [OF _ k]) simp
  then show ?thesis using k by (auto simp: demo_id_def)
qed

text \<open>
  C32. What the validators let through and what the script accepts differ in one character: an
  identity that passes \<open>validateIdentity\<close> satisfies the script's identifier checks exactly when its
  durable id has no percent sign; with one, every command of the script fails with \<open>TX_INVALID_ID\<close>
  and writes nothing.
\<close>

theorem percent_identity_rejected:
  assumes "validateIdentity v = Inr i"
  shows "((lua_hex64 (Some (LStr (to_lua (id_fingerprint i)))) \<and> lua_reference (Some (LStr (to_lua (id_durableId i)))) 128)
      \<longleftrightarrow> 37 \<notin> set (id_durableId i))
    \<and> (37 \<in> set (id_durableId i) \<and> cmd \<in> {''begin'', ''renew'', ''complete'', ''read''} \<longrightarrow>
      op_script env 1 [cmd, to_lua (id_fingerprint i), to_lua (id_durableId i), owner, la, ra, result] g secs usecs
      = (ErrReply ''TX_INVALID_ID'', None))"
proof -
  have ok: "HEX_64 (id_fingerprint i)" "REFERENCE (id_durableId i)" "byteLength (id_durableId i) \<le> 128"
    using validateIdentity_ok [OF assms] by (auto simp: identity_ok_def)
  show ?thesis
    using hex64_agrees [OF ok(1)] reference_agrees [OF ok(2,3)] by (simp add: Let_def)
qed

theorem percent_identity_rejected_witness:
  "validateIdentity (demo_identity ''a%b'') = Inr (demo_id ''a%b'')
   \<and> \<not> lua_reference (Some (LStr (to_lua (id_durableId (demo_id ''a%b''))))) 128"
  using percent_identity_rejected [OF demo_identity_ok] demo_identity_ok
    hex64_agrees [of "id_fingerprint (demo_id ''a%b'')"]
  by (auto simp: demo_id_def js_def HEX_64_def hex_unit_def digit_unit_def list_all_iff)

text \<open>
  Two payments with the same fingerprint agree in every field, or SHA-256 collides; and a valid
  payment has distinct accounts and an amount between 1 and the largest signed 64-bit integer.
\<close>

theorem payment_fingerprints_separate:
  assumes "paymentFingerprint sha v = Inr f" and "paymentFingerprint sha v' = Inr f"
    and "validatePaymentFingerprintInput v = Inr p" and "validatePaymentFingerprintInput v' = Inr p'"
  shows "(p = p' \<or> (\<exists>x y. x \<noteq> y \<and> digest sha x = digest sha y))
    \<and> pf_fromAccount p \<noteq> pf_toAccount p
    \<and> bigint (pf_amountMinor p) \<le> 2 ^ 63 - 1"
proof -
  let ?fs = "\<lambda>p. [pf_tenant p, pf_fromAccount p, pf_toAccount p, pf_currency p, pf_amountMinor p]"
  have "fingerprintFields sha (VStr (js ''payment-v1'')) (VArray (map VStr (?fs p))) = Inr f"
    "fingerprintFields sha (VStr (js ''payment-v1'')) (VArray (map VStr (?fs p'))) = Inr f"
    using assms by (simp_all add: paymentFingerprint_def validate_simps)
  note both = fingerprintFields_Inr [OF this(1)] fingerprintFields_Inr [OF this(2)]
  have "js ''payment-v1'' # ?fs p = js ''payment-v1'' # ?fs p' \<or> (\<exists>x y. x \<noteq> y \<and> digest sha x = digest sha y)"
    using both by (intro fingerprint_fields_inj) simp_all
  moreover have "p = p'" if "?fs p = ?fs p'" using that by simp
  moreover have "pf_fromAccount p \<noteq> pf_toAccount p
      \<and> bigint (pf_amountMinor p) \<le> 2 ^ 63 - 1"
    using assms(3) by (auto simp: validatePaymentFingerprintInput_def validateAmountMinor_def validate_simps
        MAX_PAYMENT_AMOUNT_MINOR_def split: jsval.splits)
  ultimately show ?thesis by blast
qed

definition demo_payment :: jsval where
  "demo_payment = VObject [(js ''tenant'', VStr (js ''acme'')), (js ''fromAccount'', VStr (js ''a-1'')),
     (js ''toAccount'', VStr (js ''a-2'')), (js ''currency'', VStr (js ''EUR'')), (js ''amountMinor'', VStr (js ''1999''))]"

definition demo_pf :: PaymentFingerprintInput where
  "demo_pf = \<lparr>pf_tenant = js ''acme'', pf_fromAccount = js ''a-1'', pf_toAccount = js ''a-2'',
     pf_currency = js ''EUR'', pf_amountMinor = js ''1999''\<rparr>"

lemma demo_payment_ok: "validatePaymentFingerprintInput demo_payment = Inr demo_pf"
  by code_simp

lemma demo_payment_fp: "paymentFingerprint (\<lambda>b. map ucast b) demo_payment
   = Inr (js ''[\"payment-v1\",\"acme\",\"a-1\",\"a-2\",\"EUR\",\"1999\"]'')"
  by code_simp

theorem payment_fingerprints_separate_witness:
  "pf_fromAccount demo_pf \<noteq> pf_toAccount demo_pf
   \<and> bigint (pf_amountMinor demo_pf) \<le> 2 ^ 63 - 1"
  using payment_fingerprints_separate [OF demo_payment_fp demo_payment_fp demo_payment_ok demo_payment_ok] by blast

end
