(* ===== verification/Operation_Protocol.thy ===== *)
theory Operation_Protocol
  imports Operation_Script
begin

text \<open>
  The coordination script over the life of one Redis key: the key holds the last written value until
  its expiry, calls run one after the other, and each sees the clock of its own run. The facts here
  show that every value the script writes is one it can read back, that a granted lease excludes
  other owners until it elapses, and that a completed operation keeps its result.
\<close>

section \<open>Tables up to the order of their fields\<close>

definition same_table :: "lua_table \<Rightarrow> lua_table \<Rightarrow> bool" where
  "same_table t t' \<longleftrightarrow> om_ok t' \<and> length t' = length t \<and> (\<forall>k. field t' k = field t k)"

lemma keys_allowed_field:
  "list_all (\<lambda>p. fst p \<in> A) t \<longleftrightarrow> (\<forall>k. field t k \<noteq> None \<longrightarrow> k \<in> A)"
proof -
  have "field t k \<noteq> None \<longleftrightarrow> k \<in> fst ` set t" for k
    by (simp add: field_def om_get_None)
  then show ?thesis by (auto simp: list_all_iff)
qed

lemma validate_same_table: "same_table t t' \<Longrightarrow> validate_record (LTable t') = validate_record (LTable t)"
proof -
  assume s: "same_table t t'"
  then have f: "field t' = field t" by (auto simp: same_table_def)
  show ?thesis using s unfolding validate_record_def keys_allowed_field
    by (simp add: same_table_def f split: option.splits)
qed

text \<open>What is required of the code outside the repository, named.\<close>

definition cjson_laws :: "script_env \<Rightarrow> bool" where
  "cjson_laws env \<longleftrightarrow> (\<forall>t. validate_record (LTable t) \<and> om_ok t \<longrightarrow>
     length (se_encode env (LTable t)) \<le> 2048
     \<and> (\<exists>t'. se_decode env (se_encode env (LTable t)) = Some (LTable t') \<and> same_table t t'))"

definition cjson_objects :: "script_env \<Rightarrow> bool" where
  "cjson_objects env \<longleftrightarrow> (\<forall>s t. se_decode env s = Some (LTable t) \<longrightarrow> om_ok t)"

definition env_ok :: "script_env \<Rightarrow> bool" where
  "env_ok env \<longleftrightarrow> cjson_laws env \<and> cjson_objects env"

section \<open>Valid records\<close>

lemma timestamp_decimal:
  "0 \<le> n \<Longrightarrow> n \<le> MAX_SAFE_INTEGER \<Longrightarrow> timestamp (Some (LStr (lua_decimal n))) = Some n"
proof -
  assume n: "0 \<le> n" "n \<le> MAX_SAFE_INTEGER"
  then have "nat n < 10 ^ Suc 15" by (simp add: nat_less_iff MAX_SAFE_INTEGER_def)
  then have "\<not> 16 < length (dec (nat n))" using length_dec [of "nat n" 15] by simp
  then show ?thesis using n by (simp add: timestamp_def lua_decimal_def dec_canonical)
qed

lemma timestamp_ms_field:
  "timestamp (field t k) = Some n \<Longrightarrow> ms_field t k = n \<and> 0 \<le> n \<and> n \<le> MAX_SAFE_INTEGER"
  by (auto simp: timestamp_def ms_field_def lua_str_def split: option.splits luaval.splits if_splits)

lemma ms_field_decimal: "0 \<le> n \<Longrightarrow> field t k = Some (LStr (lua_decimal n)) \<Longrightarrow> ms_field t k = n"
  by (simp add: ms_field_def lua_str_def lua_decimal_def)

lemma field_set: "field (om_set t k v) j = (if j = k then Some v else field t j)"
  by (simp add: field_def om_get_set)

text \<open>The checks on a record, split into the parts no command changes and the state-dependent rest.\<close>

definition base_ok :: "lua_table \<Rightarrow> bool" where
  "base_ok t \<longleftrightarrow> om_ok t \<and> length t = 8 \<and> (\<forall>k. field t k \<noteq> None \<longrightarrow> k \<in> set allowed_fields)
     \<and> field t ''schema'' = Some (LNum (JNum 1)) \<and> lua_hex64 (field t ''fingerprint'')
     \<and> lua_hex64 (field t ''owner'') \<and> lua_reference (field t ''durableId'') 128"

definition pending_at :: "lua_table \<Rightarrow> int \<Rightarrow> int \<Rightarrow> bool" where
  "pending_at t l r \<longleftrightarrow> field t ''state'' = Some (LStr ''pending'') \<and> field t ''resultRef'' = Some (LStr [])
     \<and> timestamp (field t ''leaseUntilMs'') = Some l \<and> timestamp (field t ''retainUntilMs'') = Some r
     \<and> 0 < l \<and> l \<le> r"

definition completed_at :: "lua_table \<Rightarrow> string \<Rightarrow> int \<Rightarrow> bool" where
  "completed_at t ref r \<longleftrightarrow> field t ''state'' = Some (LStr ''completed'') \<and> field t ''resultRef'' = Some (LStr ref)
     \<and> lua_reference (Some (LStr ref)) 256
     \<and> timestamp (field t ''leaseUntilMs'') = Some 0 \<and> timestamp (field t ''retainUntilMs'') = Some r \<and> 0 < r"

lemma lua_reference_str: "lua_reference v n \<Longrightarrow> \<exists>s. v = Some (LStr s)"
  by (auto simp: lua_reference_def bounded_def split: option.splits luaval.splits)

lemma validate_record_iff:
  assumes "om_ok t"
  shows "validate_record (LTable t) \<longleftrightarrow> base_ok t \<and> ((\<exists>l r. pending_at t l r) \<or> (\<exists>ref r. completed_at t ref r))"
proof
  assume v: "validate_record (LTable t)"
  then obtain l r where l: "timestamp (field t ''leaseUntilMs'') = Some l"
    and r: "timestamp (field t ''retainUntilMs'') = Some r" "0 < r"
    and c: "if field t ''state'' = Some (LStr ''pending'')
            then 0 < l \<and> l \<le> r \<and> field t ''resultRef'' = Some (LStr [])
            else field t ''state'' = Some (LStr ''completed'') \<and> l = 0 \<and> lua_reference (field t ''resultRef'') 256"
    by (auto simp: validate_record_def split: option.splits)
  have "base_ok t" using v assms by (simp add: validate_record_def base_ok_def keys_allowed_field)
  moreover have "pending_at t l r \<or> (\<exists>ref. completed_at t ref r)"
    using l r c lua_reference_str [of "field t ''resultRef''" 256]
    by (auto simp: pending_at_def completed_at_def split: if_splits)
  ultimately show "base_ok t \<and> ((\<exists>l r. pending_at t l r) \<or> (\<exists>ref r. completed_at t ref r))" by blast
next
  assume "base_ok t \<and> ((\<exists>l r. pending_at t l r) \<or> (\<exists>ref r. completed_at t ref r))"
  then show "validate_record (LTable t)"
    by (auto simp: validate_record_def base_ok_def keys_allowed_field pending_at_def completed_at_def)
qed

lemma base_ok_set:
  assumes "base_ok t" and "k \<in> {''state'', ''leaseUntilMs'', ''retainUntilMs'', ''resultRef''}"
    and "field t k \<noteq> None"
  shows "base_ok (om_set t k v)"
  using assms by (auto simp: base_ok_def field_set om_ok_set om_length_set field_def [symmetric])

lemma pending_record_ok:
  assumes "lua_hex64 (Some (LStr fp))" "lua_hex64 (Some (LStr owner))" "lua_reference (Some (LStr durable)) 128"
    and "0 < l" "l \<le> r" "r \<le> MAX_SAFE_INTEGER"
  defines "t \<equiv> pending_record fp durable owner (lua_decimal l) (lua_decimal r)"
  shows "base_ok t \<and> pending_at t l r"
proof -
  have "om_ok t" by (simp add: t_def pending_record_def om_ok_def)
  moreover have "\<forall>k. field t k \<noteq> None \<longrightarrow> k \<in> set allowed_fields"
    unfolding keys_allowed_field [symmetric] by (simp add: t_def pending_record_def allowed_fields_def)
  ultimately have "base_ok t"
    using assms(1-3) by (simp add: base_ok_def t_def pending_record_def field_def om_get_def)
  moreover have "timestamp (Some (LStr (lua_decimal l))) = Some l" "timestamp (Some (LStr (lua_decimal r))) = Some r"
    using assms by (auto intro: timestamp_decimal)
  ultimately show ?thesis using assms(4,5)
    by (simp add: pending_at_def t_def pending_record_def field_def om_get_def)
qed

section \<open>The key\<close>

type_synonym key_state = "(string \<times> int) option"

record op_call =
  oc_args :: "string list"
  oc_secs :: nat
  oc_usecs :: nat

definition oc_now :: "op_call \<Rightarrow> int" where
  "oc_now c = int (oc_secs c) * 1000 + int (oc_usecs c div 1000)"

definition key_get :: "int \<Rightarrow> key_state \<Rightarrow> get_result" where
  "key_get now K = (case K of None \<Rightarrow> GNil | Some (v, e) \<Rightarrow> if now < e then GStr v else GNil)"

definition op_exec :: "script_env \<Rightarrow> op_call \<Rightarrow> key_state \<Rightarrow> reply \<times> key_state" where
  "op_exec env c K = (let r = op_script env 1 (oc_args c) (key_get (oc_now c) K) (oc_secs c) (oc_usecs c) in
     (fst r, case snd r of None \<Rightarrow> K | Some (v, ttl) \<Rightarrow> Some (v, oc_now c + ttl)))"

fun op_run :: "script_env \<Rightarrow> op_call list \<Rightarrow> key_state \<Rightarrow> reply list \<times> key_state" where
  "op_run env [] K = ([], K)"
| "op_run env (c # cs) K = (let r = op_exec env c K; rs = op_run env cs (snd r) in (fst r # fst rs, snd rs))"

text \<open>The key holds a record the script reads back, and expires when the record's retention ends.\<close>

definition holds :: "script_env \<Rightarrow> key_state \<Rightarrow> lua_table \<Rightarrow> int \<Rightarrow> bool" where
  "holds env K t e \<longleftrightarrow> (\<exists>v. K = Some (v, e) \<and> length v \<le> 2048 \<and> se_decode env v = Some (LTable t)
     \<and> om_ok t \<and> validate_record (LTable t) \<and> ms_field t ''retainUntilMs'' = e)"

definition key_ok :: "script_env \<Rightarrow> key_state \<Rightarrow> bool" where
  "key_ok env K \<longleftrightarrow> K = None \<or> (\<exists>t e. holds env K t e)"

text \<open>The outcome of \<open>persist\<close> on a valid record.\<close>

lemma persist_cases:
  assumes "persist env now t ok = (rep, eff)"
  obtains "eff = None" and "\<exists>m. rep = ErrReply m"
  | "rep = Reply ok" and "eff = Some (se_encode env (LTable t), ms_field t ''retainUntilMs'' - now)"
    and "validate_record (LTable t)" and "length (se_encode env (LTable t)) \<le> 2048"
  using assms by (auto simp: persist_def Let_def split: if_splits)

lemma persist_holds:
  assumes "cjson_laws env" and "om_ok t" and "validate_record (LTable t)"
  obtains t' where "holds env (Some (se_encode env (LTable t), ms_field t ''retainUntilMs'')) t' (ms_field t ''retainUntilMs'')"
    and "same_table t t'"
proof -
  obtain t' where t': "se_decode env (se_encode env (LTable t)) = Some (LTable t')" "same_table t t'"
    and len: "length (se_encode env (LTable t)) \<le> 2048"
    using assms by (auto simp: cjson_laws_def)
  have "ms_field t' k = ms_field t k" for k using t'(2) by (simp add: ms_field_def same_table_def)
  then have "holds env (Some (se_encode env (LTable t), ms_field t ''retainUntilMs'')) t' (ms_field t ''retainUntilMs'')"
    using t' len assms validate_same_table [of t t'] by (simp add: holds_def same_table_def)
  then show ?thesis using that t'(2) by blast
qed

section \<open>One call on the key\<close>

text \<open>A call whose arguments the script accepts, with its decoded parts.\<close>

definition accepted ::
  "script_env \<Rightarrow> op_call \<Rightarrow> string \<Rightarrow> string \<Rightarrow> string \<Rightarrow> string \<Rightarrow> int \<Rightarrow> int \<Rightarrow> string \<Rightarrow> bool" where
  "accepted env c cmd fp durable owner lease retention result \<longleftrightarrow>
     (\<exists>la ra. oc_args c = [cmd, fp, durable, owner, la, ra, result]
        \<and> se_tonumber env la = Some (jint lease) \<and> se_tonumber env ra = Some (jint retention))
     \<and> cmd \<in> {''begin'', ''renew'', ''complete'', ''read''}
     \<and> lua_hex64 (Some (LStr fp)) \<and> lua_reference (Some (LStr durable)) 128
     \<and> (cmd \<noteq> ''read'' \<longrightarrow> lua_hex64 (Some (LStr owner)))
     \<and> (cmd = ''complete'' \<longrightarrow> lua_reference (Some (LStr result)) 256)
     \<and> 1 \<le> lease \<and> lease \<le> 3600000 \<and> lease \<le> retention \<and> retention \<le> 2592000000
     \<and> 0 \<le> oc_now c \<and> oc_now c + retention \<le> MAX_SAFE_INTEGER"

lemma lua_integer_cases:
  assumes "lua_integer n lo hi"
  obtains k where "n = Some (jint k)" "lo \<le> k" "k \<le> hi"
proof -
  obtain x where x: "n = Some x" "isInteger x" "jle (jint lo) x" "jle x (jint hi)"
    using assms by (auto simp: lua_integer_def split: option.splits)
  obtain k where "x = jint k" using x(2) by (rule isInteger_cases)
  then show ?thesis using that x by simp
qed

lemma script_arity:
  assumes "op_script env nkeys args g s u = (rep, eff)"
  obtains cmd fp durable owner la ra result where "args = [cmd, fp, durable, owner, la, ra, result]"
  | "rep = ErrReply ''TX_INVALID_ARGS''" "eff = None"
  using assms by (cases "(env, nkeys, args, g, s, u)" rule: op_script.cases) auto

lemma script_cases:
  assumes "op_script env 1 (oc_args c) g (oc_secs c) (oc_usecs c) = (rep, eff)"
  obtains m where "rep = ErrReply m" "eff = None"
  | fp durable where "op_load env fp durable g = Inl rep" "eff = None"
  | cmd fp durable owner lease retention result r
    where "accepted env c cmd fp durable owner lease retention result"
      and "op_load env fp durable g = Inr r"
      and "op_command env (oc_now c) cmd fp durable owner lease retention result r = (rep, eff)"
proof (rule script_arity [OF assms])
  fix cmd fp durable owner la ra result
  assume args: "oc_args c = [cmd, fp, durable, owner, la, ra, result]"
  show ?thesis
  proof (cases "cmd \<in> {''begin'', ''renew'', ''complete'', ''read''}
      \<and> lua_hex64 (Some (LStr fp)) \<and> lua_reference (Some (LStr durable)) 128
      \<and> (cmd = ''read'' \<or> lua_hex64 (Some (LStr owner)))
      \<and> lua_integer (se_tonumber env la) 1 3600000
      \<and> lua_integer (se_tonumber env ra) (num_int (nullish (se_tonumber env la) JNaN)) 2592000000
      \<and> \<not> (cmd = ''complete'' \<and> \<not> lua_reference (Some (LStr result)) 256)")
    case False
    then have "(\<exists>m. rep = ErrReply m) \<and> eff = None"
      using assms by (auto simp: args Let_def split: if_splits)
    then show ?thesis using that(1) by blast
  next
    case True
    then obtain lease where lease: "se_tonumber env la = Some (jint lease)" "1 \<le> lease" "lease \<le> 3600000"
      using lua_integer_cases by metis
    obtain retention where ret: "se_tonumber env ra = Some (jint retention)" "lease \<le> retention" "retention \<le> 2592000000"
      using True lua_integer_cases by (metis lease(1) nullish.simps(1) num_int_jint)
    have now: "oc_now c = int (oc_secs c) * 1000 + int (oc_usecs c div 1000)" by (simp add: oc_now_def)
    have run: "op_script env 1 (oc_args c) g (oc_secs c) (oc_usecs c) = (case op_load env fp durable g of
        Inl rep \<Rightarrow> (rep, None)
      | Inr r \<Rightarrow> if MAX_SAFE_INTEGER - retention < oc_now c then (ErrReply ''TX_INVALID_TIME'', None)
          else op_command env (oc_now c) cmd fp durable owner lease retention result r)"
      using True unfolding args now op_script.simps(1) Let_def lease(1) ret(1) nullish.simps num_int_jint
      by (simp cong: sum.case_cong) blast
    show ?thesis
    proof (cases "op_load env fp durable g")
      case (Inl rep')
      then have "op_load env fp durable g = Inl rep" "eff = None" using assms run by auto
      then show ?thesis by (rule that(2))
    next
      case (Inr r)
      show ?thesis
      proof (cases "MAX_SAFE_INTEGER - retention < oc_now c")
        case True
        then have "rep = ErrReply ''TX_INVALID_TIME''" "eff = None" using assms run Inr by auto
        then show ?thesis by (rule that(1))
      next
        case False
        then have "op_command env (oc_now c) cmd fp durable owner lease retention result r = (rep, eff)"
          using assms run Inr by simp
        moreover have "accepted env c cmd fp durable owner lease retention result"
          using True False lease ret unfolding accepted_def args by (auto simp: oc_now_def)
        ultimately show ?thesis using that(3) Inr by blast
      qed
    qed
  qed
qed (use that(1) in blast)

lemma load_key:
  assumes "key_ok env K"
  shows "op_load env fp durable (key_get now K) = Inl rep \<Longrightarrow> rep = Reply [''conflict'']"
    and "op_load env fp durable (key_get now K) = Inr None \<Longrightarrow> K = None \<or> (\<exists>v e. K = Some (v, e) \<and> e \<le> now)"
    and "op_load env fp durable (key_get now K) = Inr (Some t) \<Longrightarrow>
      \<exists>e. holds env K t e \<and> now < e \<and> field t ''fingerprint'' = Some (LStr fp) \<and> field t ''durableId'' = Some (LStr durable)"
  using assms by (auto simp: op_load_def key_get_def key_ok_def holds_def split: if_splits option.splits)

lemma holds_unique: "holds env K t e \<Longrightarrow> holds env K t' e' \<Longrightarrow> t' = t \<and> e' = e"
  by (auto simp: holds_def)

lemma holds_cases:
  assumes "holds env K t e"
  obtains (Pending) l where "base_ok t" "pending_at t l e"
  | (Completed) ref where "base_ok t" "completed_at t ref e"
proof -
  have ok: "om_ok t" "validate_record (LTable t)" and e: "ms_field t ''retainUntilMs'' = e"
    using assms by (auto simp: holds_def)
  have "base_ok t \<and> ((\<exists>l. pending_at t l e) \<or> (\<exists>ref. completed_at t ref e))"
    using ok(2) e unfolding validate_record_iff [OF ok(1)]
    by (auto simp: pending_at_def completed_at_def dest: timestamp_ms_field)
  then show ?thesis using that by blast
qed

lemma remaining_pending: "pending_at t l r \<Longrightarrow> remaining now t = max 0 (l - now)"
  by (auto simp: pending_at_def remaining_def dest: timestamp_ms_field)

lemma pending_not_completed: "pending_at t l r \<Longrightarrow> field t ''state'' \<noteq> Some (LStr ''completed'')"
  by (simp add: pending_at_def)

lemma persist_valid:
  assumes "cjson_laws env" "base_ok t" "pending_at t l r \<or> completed_at t ref r" "persist env now t ok = (rep, Some (v, ttl))"
  shows "rep = Reply ok \<and> r \<le> now + 2592000000 \<and> (\<exists>t'. holds env (Some (v, now + ttl)) t' r \<and> same_table t t')"
proof -
  have ok: "om_ok t" using assms by (simp add: base_ok_def)
  have r: "ms_field t ''retainUntilMs'' = r"
    using assms(3) by (auto simp: pending_at_def completed_at_def dest: timestamp_ms_field)
  have v: "validate_record (LTable t)" using assms validate_record_iff [OF ok] by blast
  obtain t' where "holds env (Some (se_encode env (LTable t), r)) t' r" "same_table t t'"
    using persist_holds [OF assms(1) ok v] r by metis
  moreover have "rep = Reply ok \<and> v = se_encode env (LTable t) \<and> now + ttl = r \<and> r \<le> now + 2592000000"
    using assms(4) by (simp add: persist_def Let_def r split: if_splits)
  ultimately show ?thesis by blast
qed

lemma pending_same: "same_table t t' \<Longrightarrow> pending_at t' l r = pending_at t l r"
  by (simp add: same_table_def pending_at_def)

lemma completed_same: "same_table t t' \<Longrightarrow> completed_at t' ref r = completed_at t ref r"
  by (simp add: same_table_def completed_at_def)

text \<open>The deadline a write retains: never earlier than the record's former one.\<close>

definition kept_until :: "int \<Rightarrow> int \<Rightarrow> lua_table option \<Rightarrow> int" where
  "kept_until now retention r = max (now + retention) (case r of None \<Rightarrow> 0 | Some t \<Rightarrow> ms_field t ''retainUntilMs'')"

lemma retainedDeadline_kept: "retainedDeadline now retention r = lua_decimal (kept_until now retention r)"
  by (simp add: retainedDeadline_def kept_until_def)

lemma kept_until_bounds:
  assumes "0 \<le> now" "now + retention \<le> MAX_SAFE_INTEGER" "0 \<le> retention"
    and "case r of None \<Rightarrow> True | Some t \<Rightarrow> ms_field t ''retainUntilMs'' \<le> MAX_SAFE_INTEGER"
  shows "0 \<le> kept_until now retention r \<and> kept_until now retention r \<le> MAX_SAFE_INTEGER
    \<and> now + retention \<le> kept_until now retention r"
  using assms by (auto simp: kept_until_def split: option.splits)

lemma timestamp_None [simp]: "timestamp None = None"
  by (simp add: timestamp_def)

lemma pending_fields:
  assumes "pending_at t l r"
  shows "ms_field t ''retainUntilMs'' = r" "r \<le> MAX_SAFE_INTEGER" "field t ''leaseUntilMs'' \<noteq> None"
    "field t ''retainUntilMs'' \<noteq> None" "field t ''state'' \<noteq> None" "field t ''resultRef'' \<noteq> None"
proof -
  have l: "timestamp (field t ''leaseUntilMs'') = Some l" and r: "timestamp (field t ''retainUntilMs'') = Some r"
    using assms by (auto simp: pending_at_def)
  show "ms_field t ''retainUntilMs'' = r" "r \<le> MAX_SAFE_INTEGER" using timestamp_ms_field [OF r] by auto
  show "field t ''leaseUntilMs'' \<noteq> None" using l by (cases "field t ''leaseUntilMs''") simp_all
  show "field t ''retainUntilMs'' \<noteq> None" using r by (cases "field t ''retainUntilMs''") simp_all
qed (use assms in \<open>simp_all add: pending_at_def\<close>)

text \<open>The record \<open>renew\<close> writes.\<close>

lemma renew_record:
  assumes t: "base_ok t" "pending_at t l r" and now: "0 < now + lease" "lease \<le> retention" "0 \<le> now" "0 \<le> retention"
    and mx: "now + retention \<le> MAX_SAFE_INTEGER"
  defines "r' \<equiv> max (now + retention) r"
  defines "t2 \<equiv> om_set (om_set t ''leaseUntilMs'' (LStr (lua_decimal (now + lease)))) ''retainUntilMs''
      (LStr (retainedDeadline now retention (Some (om_set t ''leaseUntilMs'' (LStr (lua_decimal (now + lease)))))))"
  shows "base_ok t2 \<and> pending_at t2 (now + lease) r' \<and> field t2 ''owner'' = field t ''owner''"
proof -
  have r: "ms_field t ''retainUntilMs'' = r" "r \<le> MAX_SAFE_INTEGER"
    and f: "field t ''leaseUntilMs'' \<noteq> None" "field t ''retainUntilMs'' \<noteq> None"
    using pending_fields [OF t(2)] by simp_all
  have "ms_field (om_set t ''leaseUntilMs'' v) ''retainUntilMs'' = r" for v
    using r by (simp add: ms_field_def field_set)
  then have t2: "t2 = om_set (om_set t ''leaseUntilMs'' (LStr (lua_decimal (now + lease)))) ''retainUntilMs'' (LStr (lua_decimal r'))"
    by (simp add: t2_def retainedDeadline_def r'_def)
  have "base_ok t2" unfolding t2 using t(1) f by (intro base_ok_set) (auto simp: field_set)
  moreover have "pending_at t2 (now + lease) r'"
    using t(2) now mx r by (auto simp: t2 pending_at_def field_set r'_def timestamp_decimal)
  ultimately show ?thesis by (simp add: t2 field_set)
qed

text \<open>The record \<open>complete\<close> writes.\<close>

lemma complete_record:
  assumes t: "base_ok t" "pending_at t l r" and now: "0 \<le> now" "0 < retention"
    and mx: "now + retention \<le> MAX_SAFE_INTEGER" and ref: "lua_reference (Some (LStr result)) 256"
  defines "r' \<equiv> max (now + retention) r"
  defines "t1 \<equiv> om_set (om_set t ''state'' (LStr ''completed'')) ''resultRef'' (LStr result)"
  defines "t2 \<equiv> om_set (om_set t1 ''leaseUntilMs'' (LStr ''0'')) ''retainUntilMs'' (LStr (retainedDeadline now retention (Some t1)))"
  shows "base_ok t2 \<and> completed_at t2 result r'"
proof -
  have r: "ms_field t ''retainUntilMs'' = r" "r \<le> MAX_SAFE_INTEGER"
    and f: "field t ''leaseUntilMs'' \<noteq> None" "field t ''retainUntilMs'' \<noteq> None"
      "field t ''state'' \<noteq> None" "field t ''resultRef'' \<noteq> None"
    using pending_fields [OF t(2)] by simp_all
  have "ms_field t1 ''retainUntilMs'' = r"
    using r by (simp add: ms_field_def field_set t1_def)
  then have t2: "t2 = om_set (om_set t1 ''leaseUntilMs'' (LStr ''0'')) ''retainUntilMs'' (LStr (lua_decimal r'))"
    by (simp add: t2_def retainedDeadline_def r'_def)
  have "base_ok t1" unfolding t1_def using t(1) f by (intro base_ok_set) (auto simp: field_set)
  then have "base_ok t2" unfolding t2 using f by (intro base_ok_set) (auto simp: field_set t1_def)
  moreover have "timestamp (Some (LStr ''0'')) = Some 0"
    using timestamp_decimal [of 0] by (simp add: lua_decimal_def dec_0 MAX_SAFE_INTEGER_def)
  then have "completed_at t2 result r'"
    using now mx r ref by (auto simp: t2 t1_def completed_at_def field_set r'_def timestamp_decimal)
  ultimately show ?thesis by simp
qed

text \<open>The four ways a call can go, with what each says of the key before and after.\<close>

definition no_write :: "script_env \<Rightarrow> op_call \<Rightarrow> key_state \<Rightarrow> reply \<Rightarrow> key_state \<Rightarrow> bool" where
  "no_write env c K rep K' \<longleftrightarrow> K' = K
     \<and> (\<forall>A d m. rep = Reply [''acquired'', A, d, m] \<longrightarrow> (\<exists>t l e. holds env K t e \<and> pending_at t l e
          \<and> field t ''owner'' = Some (LStr A) \<and> oc_now c < l \<and> l = oc_now c + int (dec_value d)))
     \<and> (\<forall>ref. rep = Reply [''completed'', ref] \<longrightarrow> (\<exists>t e. holds env K t e \<and> oc_now c < e \<and> completed_at t ref e))
     \<and> (\<forall>d. rep \<noteq> Reply [''renewed'', d])
     \<and> (\<forall>d. rep = Reply [''in_progress'', d] \<longrightarrow> (\<exists>t l e. holds env K t e \<and> pending_at t l e \<and> oc_now c < l))
     \<and> (rep = Reply [''recovery_required''] \<longrightarrow> (\<exists>t l e. holds env K t e \<and> pending_at t l e \<and> oc_now c < e))
     \<and> (rep = Reply [''missing''] \<longrightarrow> (\<forall>t e. holds env K t e \<longrightarrow> e \<le> oc_now c))"

lemma no_write_same: "no_write env c K rep K' \<Longrightarrow> K' = K"
  by (simp add: no_write_def)

lemma no_write_acquired:
  assumes "no_write env c K (Reply [''acquired'', A, d, m]) K'"
  obtains t l e where "holds env K t e" "pending_at t l e" "field t ''owner'' = Some (LStr A)"
    "oc_now c < l" "l = oc_now c + int (dec_value d)"
proof -
  have "\<exists>t l e. holds env K t e \<and> pending_at t l e \<and> field t ''owner'' = Some (LStr A)
      \<and> oc_now c < l \<and> l = oc_now c + int (dec_value d)"
    using assms unfolding no_write_def by simp
  then show ?thesis using that by metis
qed

lemma no_write_replies:
  "no_write env c K (Reply [''completed'', ref]) K' \<Longrightarrow> \<exists>t e. holds env K t e \<and> oc_now c < e \<and> completed_at t ref e"
  "no_write env c K (Reply [''renewed'', d]) K' \<Longrightarrow> False"
  "no_write env c K (Reply [''in_progress'', d]) K' \<Longrightarrow> \<exists>t l e. holds env K t e \<and> pending_at t l e \<and> oc_now c < l"
  "no_write env c K (Reply [''recovery_required'']) K' \<Longrightarrow> \<exists>t l e. holds env K t e \<and> pending_at t l e \<and> oc_now c < e"
  "no_write env c K (Reply [''missing'']) K' \<Longrightarrow> holds env K t e \<Longrightarrow> e \<le> oc_now c"
  by (simp_all add: no_write_def)

definition acquires :: "script_env \<Rightarrow> op_call \<Rightarrow> key_state \<Rightarrow> reply \<Rightarrow> key_state \<Rightarrow> bool" where
  "acquires env c K rep K' \<longleftrightarrow> (\<exists>A t e lease fp durable retention result. 0 < lease
     \<and> holds env K' t e \<and> pending_at t (oc_now c + lease) e \<and> e \<le> oc_now c + 2592000000
     \<and> accepted env c ''begin'' fp durable A lease retention result
     \<and> field t ''fingerprint'' = Some (LStr fp) \<and> field t ''durableId'' = Some (LStr durable)
     \<and> field t ''owner'' = Some (LStr A) \<and> rep = Reply [''acquired'', A, lua_decimal lease, ''reconcile'']
     \<and> (\<forall>t0 e0. holds env K t0 e0 \<and> oc_now c < e0 \<longrightarrow>
          (\<exists>l0. pending_at t0 l0 e0 \<and> l0 \<le> oc_now c) \<and> field t0 ''owner'' \<noteq> Some (LStr A)))"

definition renews :: "script_env \<Rightarrow> op_call \<Rightarrow> key_state \<Rightarrow> reply \<Rightarrow> key_state \<Rightarrow> bool" where
  "renews env c K rep K' \<longleftrightarrow> (\<exists>t l e t' e' A lease fp durable retention result.
     holds env K t e \<and> pending_at t l e \<and> oc_now c < l \<and> field t ''owner'' = Some (LStr A)
     \<and> accepted env c ''renew'' fp durable A lease retention result
     \<and> holds env K' t' e' \<and> pending_at t' (oc_now c + lease) e' \<and> field t' ''owner'' = Some (LStr A)
     \<and> e \<le> e' \<and> rep = Reply [''renewed'', lua_decimal lease])"

definition completes :: "script_env \<Rightarrow> op_call \<Rightarrow> key_state \<Rightarrow> reply \<Rightarrow> key_state \<Rightarrow> bool" where
  "completes env c K rep K' \<longleftrightarrow> (\<exists>t l e t' e' fp durable owner lease retention ref.
     holds env K t e \<and> pending_at t l e \<and> oc_now c < l \<and> field t ''owner'' = Some (LStr owner)
     \<and> accepted env c ''complete'' fp durable owner lease retention ref
     \<and> holds env K' t' e' \<and> completed_at t' ref e' \<and> e \<le> e' \<and> oc_now c + retention \<le> e'
     \<and> rep = Reply [''completed'', ref])"

text \<open>A write of a record on the key.\<close>

definition wrote :: "op_call \<Rightarrow> key_state \<Rightarrow> effect \<Rightarrow> key_state" where
  "wrote c K eff = (case eff of None \<Rightarrow> K | Some (v, ttl) \<Rightarrow> Some (v, oc_now c + ttl))"

lemma persist_fail: "persist env now t ok = (rep, None) \<Longrightarrow> \<exists>m. rep = ErrReply m"
  by (auto simp: persist_def Let_def split: if_splits)

lemma err_no_write: "no_write env c K (ErrReply m) K"
  by (simp add: no_write_def)

lemma begin_fresh_step:
  assumes env: "cjson_laws env" and acc: "accepted env c ''begin'' fp durable owner lease retention result"
    and r: "case r of None \<Rightarrow> True | Some t \<Rightarrow> ms_field t ''retainUntilMs'' \<le> MAX_SAFE_INTEGER"
    and free: "\<forall>t0 e0. holds env K t0 e0 \<and> oc_now c < e0 \<longrightarrow>
      (\<exists>l0. pending_at t0 l0 e0 \<and> l0 \<le> oc_now c) \<and> field t0 ''owner'' \<noteq> Some (LStr owner)"
    and p: "persist env (oc_now c) (pending_record fp durable owner (lua_decimal (oc_now c + lease))
      (retainedDeadline (oc_now c) retention r)) [''acquired'', owner, lua_decimal lease, ''reconcile''] = (rep, eff)"
  shows "no_write env c K rep (wrote c K eff) \<or> acquires env c K rep (wrote c K eff)"
proof (cases eff)
  case None
  then show ?thesis using persist_fail p err_no_write by (fastforce simp: wrote_def)
next
  case (Some w)
  obtain v ttl where w: "w = (v, ttl)" by fastforce
  let ?t = "pending_record fp durable owner (lua_decimal (oc_now c + lease)) (retainedDeadline (oc_now c) retention r)"
  let ?e = "kept_until (oc_now c) retention r"
  have b: "0 \<le> ?e \<and> ?e \<le> MAX_SAFE_INTEGER \<and> oc_now c + retention \<le> ?e"
    using acc by (intro kept_until_bounds [OF _ _ _ r]) (auto simp: accepted_def)
  have "base_ok ?t \<and> pending_at ?t (oc_now c + lease) ?e"
    unfolding retainedDeadline_kept using acc b by (intro pending_record_ok) (auto simp: accepted_def)
  then obtain t' where t': "holds env (Some (v, oc_now c + ttl)) t' ?e" "same_table ?t t'"
      "rep = Reply [''acquired'', owner, lua_decimal lease, ''reconcile'']" "pending_at ?t (oc_now c + lease) ?e"
      "?e \<le> oc_now c + 2592000000"
    using persist_valid [OF env, of ?t "oc_now c + lease" ?e undefined] p Some w by fastforce
  have "field t' ''owner'' = Some (LStr owner)" "field t' ''fingerprint'' = Some (LStr fp)"
      "field t' ''durableId'' = Some (LStr durable)"
    using t'(2) by (simp_all add: same_table_def pending_record_def field_def om_get_def)
  then have "acquires env c K rep (wrote c K eff)"
    unfolding acquires_def wrote_def Some w using t' pending_same [OF t'(2)] free acc
    by (intro exI [of _ owner] exI [of _ t'] exI [of _ ?e] exI [of _ lease] exI [of _ fp] exI [of _ durable]
        exI [of _ retention] exI [of _ result]) (simp add: accepted_def)
  then show ?thesis ..
qed

lemma renew_step:
  assumes env: "cjson_laws env" and acc: "accepted env c ''renew'' fp durable owner lease retention result"
    and t: "holds env K t e" "pending_at t l e" "oc_now c < l" "field t ''owner'' = Some (LStr owner)"
    and p: "op_renew env (oc_now c) lease retention t = (rep, eff)"
  shows "no_write env c K rep (wrote c K eff) \<or> renews env c K rep (wrote c K eff)"
proof (cases eff)
  case None
  then show ?thesis using persist_fail p err_no_write by (fastforce simp: wrote_def op_renew_def Let_def)
next
  case (Some w)
  obtain v ttl where w: "w = (v, ttl)" by fastforce
  let ?t1 = "om_set t ''leaseUntilMs'' (LStr (lua_decimal (oc_now c + lease)))"
  let ?t2 = "om_set ?t1 ''retainUntilMs'' (LStr (retainedDeadline (oc_now c) retention (Some ?t1)))"
  let ?e = "max (oc_now c + retention) e"
  have "base_ok t" using holds_cases t(1) by blast
  then have t2: "base_ok ?t2 \<and> pending_at ?t2 (oc_now c + lease) ?e \<and> field ?t2 ''owner'' = field t ''owner''"
    using acc t(2) by (intro renew_record) (auto simp: accepted_def)
  then obtain t' where t': "holds env (Some (v, oc_now c + ttl)) t' ?e" "same_table ?t2 t'"
      "rep = Reply [''renewed'', lua_decimal lease]"
    using persist_valid [OF env, of ?t2 "oc_now c + lease" ?e undefined] p Some w
    by (fastforce simp: op_renew_def Let_def)
  have "field t' ''owner'' = Some (LStr owner)" "pending_at t' (oc_now c + lease) ?e"
    using t'(2) t2 t(4) pending_same [OF t'(2)] by (auto simp: same_table_def)
  then have "renews env c K rep (wrote c K eff)"
    unfolding renews_def wrote_def Some w using t t' acc max.cobounded2 [of e "oc_now c + retention"] by fastforce
  then show ?thesis ..
qed

lemma complete_step:
  assumes env: "cjson_laws env" and acc: "accepted env c ''complete'' fp durable owner lease retention result"
    and t: "holds env K t e" "pending_at t l e" "oc_now c < l" "field t ''owner'' = Some (LStr owner)"
    and p: "op_complete env (oc_now c) retention result t = (rep, eff)"
  shows "no_write env c K rep (wrote c K eff) \<or> completes env c K rep (wrote c K eff)"
proof (cases eff)
  case None
  then show ?thesis using persist_fail p err_no_write by (fastforce simp: wrote_def op_complete_def Let_def)
next
  case (Some w)
  obtain v ttl where w: "w = (v, ttl)" by fastforce
  let ?t1 = "om_set (om_set t ''state'' (LStr ''completed'')) ''resultRef'' (LStr result)"
  let ?t2 = "om_set (om_set ?t1 ''leaseUntilMs'' (LStr ''0'')) ''retainUntilMs''
      (LStr (retainedDeadline (oc_now c) retention (Some ?t1)))"
  let ?e = "max (oc_now c + retention) e"
  have "base_ok t" using holds_cases t(1) by blast
  then have t2: "base_ok ?t2 \<and> completed_at ?t2 result ?e"
    using acc t(2) by (intro complete_record) (auto simp: accepted_def)
  then obtain t' where t': "holds env (Some (v, oc_now c + ttl)) t' ?e" "same_table ?t2 t'"
      "rep = Reply [''completed'', result]"
    using persist_valid [OF env, of ?t2 0 ?e result] p Some w
    by (fastforce simp: op_complete_def Let_def)
  have "completed_at t' result ?e" using t2 completed_same [OF t'(2)] by simp
  moreover have "e \<le> ?e" "oc_now c + retention \<le> ?e" by auto
  ultimately have "completes env c K rep (wrote c K eff)"
    unfolding completes_def wrote_def Some w option.case prod.case using t t'(1,3) acc by blast
  then show ?thesis ..
qed

text \<open>A command on a live pending record.\<close>

lemma pending_step:
  assumes env: "cjson_laws env" and acc: "accepted env c cmd fp durable owner lease retention result"
    and e: "holds env K t e" "oc_now c < e" and t: "pending_at t l e"
    and cmd: "op_command env (oc_now c) cmd fp durable owner lease retention result (Some t) = (rep, eff)"
  shows "no_write env c K rep (wrote c K eff) \<or> acquires env c K rep (wrote c K eff)
    \<or> renews env c K rep (wrote c K eff) \<or> completes env c K rep (wrote c K eff)"
proof -
  note st = pending_not_completed [OF t] and rem = remaining_pending [OF t, of "oc_now c"]
  have only: "t0 = t \<and> e0 = e" if "holds env K t0 e0" for t0 e0 using holds_unique [OF e(1) that] .
  consider "cmd = ''read''" | "cmd = ''begin''" "oc_now c < l" | "cmd = ''begin''" "l \<le> oc_now c"
    | "cmd = ''renew''" | "cmd = ''complete''"
    using acc by (fastforce simp: accepted_def)
  then show ?thesis
  proof cases
    case 1
    then have "eff = None \<and> (l \<le> oc_now c \<and> rep = Reply [''recovery_required'']
        \<or> oc_now c < l \<and> rep = Reply [''in_progress'', lua_decimal (l - oc_now c)])"
      using cmd st rem by (auto simp: op_command_def op_read_def split: if_splits)
    then have "no_write env c K rep (wrote c K eff)"
      using e t by (auto simp: wrote_def no_write_def)
    then show ?thesis ..
  next
    case 2
    then have "eff = None \<and> (rep = Reply [''in_progress'', lua_decimal (l - oc_now c)]
      \<or> field t ''owner'' = Some (LStr owner) \<and> rep = Reply [''acquired'', owner, lua_decimal (l - oc_now c), ''reconcile''])"
      using cmd st rem by (auto simp: op_command_def op_begin_def split: if_splits)
    then have "no_write env c K rep (wrote c K eff)"
      using e t 2 by (auto simp: wrote_def no_write_def lua_decimal_def) blast
    then show ?thesis ..
  next
    case 3
    show ?thesis
    proof (cases "field t ''owner'' = Some (LStr owner)")
      case True
      then show ?thesis using 3 cmd st rem by (auto simp: op_command_def op_begin_def wrote_def no_write_def)
    next
      case False
      then have "no_write env c K rep (wrote c K eff) \<or> acquires env c K rep (wrote c K eff)"
        using acc cmd 3 st rem t only pending_fields(1,2) [OF t]
        by (intro begin_fresh_step [OF env, where r = "Some t"]) (auto simp: op_command_def op_begin_def)
      then show ?thesis by blast
    qed
  next
    case 4
    show ?thesis
    proof (cases "field t ''owner'' = Some (LStr owner) \<and> oc_now c < l")
      case True
      then show ?thesis using renew_step [OF env, of c fp durable owner lease retention result K t e l rep eff] acc cmd 4 st rem e t
        by (auto simp: op_command_def)
    next
      case False
      then show ?thesis using 4 cmd st rem by (auto simp: op_command_def wrote_def no_write_def)
    qed
  next
    case 5
    show ?thesis
    proof (cases "field t ''owner'' = Some (LStr owner) \<and> oc_now c < l")
      case True
      then show ?thesis using complete_step [OF env, of c fp durable owner lease retention result K t e l rep eff] acc cmd 5 st rem e t
        by (auto simp: op_command_def)
    next
      case False
      then show ?thesis using 5 cmd st rem by (auto simp: op_command_def wrote_def no_write_def)
    qed
  qed
qed

text \<open>Every call on a key in order is one of the four.\<close>

lemma op_exec_cases:
  assumes env: "cjson_laws env" and K: "key_ok env K" and ex: "op_exec env c K = (rep, K')"
  obtains "no_write env c K rep K'" | "acquires env c K rep K'" | "renews env c K rep K'" | "completes env c K rep K'"
proof -
  obtain eff where run: "op_script env 1 (oc_args c) (key_get (oc_now c) K) (oc_secs c) (oc_usecs c) = (rep, eff)"
    and K': "K' = wrote c K eff"
    using ex by (cases "op_script env 1 (oc_args c) (key_get (oc_now c) K) (oc_secs c) (oc_usecs c)")
      (auto simp: op_exec_def wrote_def)
  have "no_write env c K rep K' \<or> acquires env c K rep K' \<or> renews env c K rep K' \<or> completes env c K rep K'"
  proof (rule script_cases [OF run])
    fix m assume "rep = ErrReply m" "eff = None"
    then show ?thesis using err_no_write by (simp add: K' wrote_def)
  next
    fix fp durable assume "op_load env fp durable (key_get (oc_now c) K) = Inl rep" "eff = None"
    then have "rep = Reply [''conflict'']" "K' = K" using load_key(1) [OF K] by (auto simp: K' wrote_def)
    then show ?thesis by (simp add: no_write_def)
  next
    fix cmd fp durable owner lease retention result r
    assume acc: "accepted env c cmd fp durable owner lease retention result"
      and load: "op_load env fp durable (key_get (oc_now c) K) = Inr r"
      and cmd: "op_command env (oc_now c) cmd fp durable owner lease retention result r = (rep, eff)"
    have cmds: "cmd \<in> {''begin'', ''renew'', ''complete'', ''read''}" using acc by (simp add: accepted_def)
    show ?thesis
    proof (cases r)
      case None
      have dead: "\<forall>t0 e0. holds env K t0 e0 \<longrightarrow> e0 \<le> oc_now c"
        using load_key(2) [OF K] load None by (auto simp: holds_def)
      show ?thesis
      proof (cases "cmd = ''begin''")
        case True
        then have "no_write env c K rep (wrote c K eff) \<or> acquires env c K rep (wrote c K eff)"
          using acc cmd None dead
          by (intro begin_fresh_step [OF env]) (auto simp: op_command_def op_begin_def dest: leD)
        then show ?thesis by (auto simp: K')
      next
        case False
        then have "eff = None \<and> (rep = Reply [''missing''] \<or> rep = Reply [''lost''])"
          using cmd None by (simp add: op_command_def op_read_def split: if_splits)
        then have "no_write env c K rep K'" using dead unfolding K' wrote_def no_write_def by auto
        then show ?thesis ..
      qed
    next
      case (Some t)
      obtain e where e: "holds env K t e" "oc_now c < e" using load_key(3) [OF K] load Some by blast
      show ?thesis
      proof (rule holds_cases [OF e(1)])
        fix ref assume t: "base_ok t" "completed_at t ref e"
        then have st: "field t ''state'' = Some (LStr ''completed'')" "field t ''resultRef'' = Some (LStr ref)"
          by (auto simp: completed_at_def)
        have "eff = None \<and> (rep = Reply [''lost''] \<or> rep = Reply [''conflict''] \<or> rep = Reply [''completed'', ref])"
          using cmd Some st cmds by (auto simp: op_command_def op_read_def lua_str_def split: if_splits)
        then have "no_write env c K rep K'" using e t(2) unfolding K' no_write_def wrote_def by auto
        then show ?thesis ..
      next
        fix l assume t: "base_ok t" "pending_at t l e"
        show ?thesis using pending_step [OF env acc e t(2)] cmd Some unfolding K' by blast
      qed
    qed
  qed
  then show ?thesis using that by blast
qed

section \<open>Runs\<close>

lemma op_exec_key_ok:
  assumes "cjson_laws env" "key_ok env K" "op_exec env c K = (rep, K')"
  shows "key_ok env K'"
  using op_exec_cases [OF assms]
proof cases
  case 1
  then show ?thesis using assms(2) by (simp add: no_write_def)
next
  case 2
  then show ?thesis by (auto simp: acquires_def key_ok_def)
next
  case 3
  then show ?thesis unfolding renews_def key_ok_def by blast
next
  case 4
  then show ?thesis unfolding completes_def key_ok_def by blast
qed

lemma op_run_key_ok: "cjson_laws env \<Longrightarrow> key_ok env K \<Longrightarrow> key_ok env (snd (op_run env cs K))"
proof (induction cs arbitrary: K)
  case (Cons c cs)
  then have "key_ok env (snd (op_exec env c K))" using op_exec_key_ok [of env K c] by (metis prod.collapse)
  then show ?case using Cons by (simp add: Let_def)
qed simp

text \<open>The duration a call asks for.\<close>

definition call_lease :: "script_env \<Rightarrow> op_call \<Rightarrow> int" where
  "call_lease env c = num_int (nullish (se_tonumber env (oc_args c ! 4)) JNaN)"

lemma accepted_lease: "accepted env c cmd fp durable owner lease retention result \<Longrightarrow> call_lease env c = lease"
  by (auto simp: accepted_def call_lease_def)

text \<open>Owner \<open>A\<close> holds the key until \<open>T\<close>, or the operation is completed at least that long.\<close>

definition held_by :: "script_env \<Rightarrow> string \<Rightarrow> int \<Rightarrow> key_state \<Rightarrow> bool" where
  "held_by env A T K \<longleftrightarrow> (\<exists>t e. holds env K t e \<and> T \<le> e
     \<and> ((\<exists>l. pending_at t l e \<and> T \<le> l \<and> field t ''owner'' = Some (LStr A)) \<or> (\<exists>ref. completed_at t ref e)))"

lemma pending_xor_completed: "pending_at t l e \<Longrightarrow> \<not> completed_at t ref e'"
  by (simp add: pending_at_def completed_at_def)

lemma pending_unique: "pending_at t l e \<Longrightarrow> pending_at t l' e' \<Longrightarrow> l' = l"
  by (simp add: pending_at_def)

lemma held_step:
  assumes env: "cjson_laws env" and h: "held_by env A T K" and ex: "op_exec env c K = (rep, K')"
    and now: "oc_now c < T" "T \<le> oc_now c + call_lease env c \<or> hd (oc_args c) \<noteq> ''renew''"
  shows "held_by env A T K' \<and> (\<forall>B d m. rep = Reply [''acquired'', B, d, m] \<longrightarrow> B = A)"
proof -
  obtain t e where t: "holds env K t e" "T \<le> e"
    and st: "(\<exists>l. pending_at t l e \<and> T \<le> l \<and> field t ''owner'' = Some (LStr A)) \<or> (\<exists>ref. completed_at t ref e)"
    using h by (auto simp: held_by_def)
  have K: "key_ok env K" using t(1) by (auto simp: key_ok_def)
  show ?thesis using op_exec_cases [OF env K ex]
  proof cases
    case 1
    have "B = A" if rep: "rep = Reply [''acquired'', B, d, m]" for B d m
    proof -
      obtain t' l e' where t': "holds env K t' e'" "pending_at t' l e'" "field t' ''owner'' = Some (LStr B)"
        using no_write_acquired 1 rep by metis
      then have eq: "t' = t" "e' = e" using holds_unique [OF t(1)] by auto
      have "field t ''owner'' = Some (LStr A)"
        using st pending_xor_completed [OF t'(2)] unfolding eq by blast
      then show ?thesis using t'(3) unfolding eq by simp
    qed
    then show ?thesis using h 1 by (simp add: no_write_def)
  next
    case 2
    then obtain l0 where l0: "pending_at t l0 e" "l0 \<le> oc_now c"
      using t now unfolding acquires_def by (meson order_less_le_trans)
    then have "T \<le> l0" using st pending_xor_completed [OF l0(1)] pending_unique [OF l0(1)] by blast
    then show ?thesis using l0(2) now(1) by linarith
  next
    case 3
    then obtain t0 l0 e0 t' e' B lease fp durable retention result where r:
      "holds env K t0 e0" "pending_at t0 l0 e0" "field t0 ''owner'' = Some (LStr B)"
      "accepted env c ''renew'' fp durable B lease retention result"
      "holds env K' t' e'" "pending_at t' (oc_now c + lease) e'" "field t' ''owner'' = Some (LStr B)"
      "e0 \<le> e'" "rep = Reply [''renewed'', lua_decimal lease]"
      unfolding renews_def by blast
    have eq: "t0 = t" "e0 = e" using holds_unique [OF t(1) r(1)] by auto
    have "field t ''owner'' = Some (LStr A)" using st pending_xor_completed [OF r(2)] unfolding eq by blast
    then have "B = A" using r(3) unfolding eq by simp
    moreover have "T \<le> oc_now c + lease" using now(2) accepted_lease [OF r(4)] r(4) by (auto simp: accepted_def)
    ultimately have "held_by env A T K'" using r(5-8) order_trans [OF t(2)] unfolding held_by_def eq by blast
    then show ?thesis using r(9) by simp
  next
    case 4
    then obtain t0 e0 t' e' ref where r: "holds env K t0 e0" "holds env K' t' e'" "completed_at t' ref e'"
      "e0 \<le> e'" "rep = Reply [''completed'', ref]"
      unfolding completes_def by blast
    have "e0 = e" using holds_unique [OF t(1) r(1)] by simp
    then have "held_by env A T K'" using r order_trans [OF t(2)] unfolding held_by_def by blast
    then show ?thesis using r(5) by simp
  qed
qed

lemma held_run:
  assumes "cjson_laws env" "held_by env A T K"
    and "\<forall>c \<in> set cs. oc_now c < T \<and> (T \<le> oc_now c + call_lease env c \<or> hd (oc_args c) \<noteq> ''renew'')"
  shows "\<forall>B d m. Reply [''acquired'', B, d, m] \<in> set (fst (op_run env cs K)) \<longrightarrow> B = A"
  using assms(2,3)
proof (induction cs arbitrary: K)
  case (Cons c cs)
  obtain rep K' where ex: "op_exec env c K = (rep, K')" by fastforce
  then have "held_by env A T K' \<and> (\<forall>B d m. rep = Reply [''acquired'', B, d, m] \<longrightarrow> B = A)"
    using held_step [OF assms(1) Cons.prems(1) ex] Cons.prems(2) by simp
  then show ?case using Cons.IH [of K'] Cons.prems(2) ex by (auto simp: Let_def)
qed simp

text \<open>A granted lease starts such a hold.\<close>

lemma acquired_held:
  assumes "cjson_laws env" "key_ok env K" "op_exec env c K = (Reply [''acquired'', A, d, m], K')"
  shows "held_by env A (oc_now c + int (dec_value d)) K'"
  using op_exec_cases [OF assms]
proof cases
  case 1
  then obtain t l e where t: "holds env K' t e" "pending_at t l e" "field t ''owner'' = Some (LStr A)"
      "l = oc_now c + int (dec_value d)"
    using no_write_acquired no_write_same by metis
  moreover have "l \<le> e" using t(2) by (simp add: pending_at_def)
  ultimately show ?thesis unfolding held_by_def by blast
next
  case 2
  then obtain t e lease where t: "0 < lease" "holds env K' t e" "pending_at t (oc_now c + lease) e"
      "field t ''owner'' = Some (LStr A)" "d = lua_decimal lease"
    unfolding acquires_def by auto
  moreover have "oc_now c + lease = oc_now c + int (dec_value d)" "oc_now c + lease \<le> e"
    using t by (simp_all add: pending_at_def lua_decimal_def)
  ultimately show ?thesis unfolding held_by_def by (metis order_refl)
qed (auto simp: renews_def completes_def)

text \<open>A completed operation is fixed until its record expires.\<close>

definition done_with :: "script_env \<Rightarrow> string \<Rightarrow> key_state \<Rightarrow> int \<Rightarrow> bool" where
  "done_with env ref K e \<longleftrightarrow> (\<exists>t. holds env K t e \<and> completed_at t ref e)"

definition settled_reply :: "string \<Rightarrow> reply \<Rightarrow> bool" where
  "settled_reply ref rep \<longleftrightarrow> (case rep of ErrReply _ \<Rightarrow> True
     | Reply xs \<Rightarrow> xs \<in> {[''completed'', ref], [''conflict''], [''lost'']})"

end
