(* ===== verification/Operation_Store.thy ===== *)
theory Operation_Store
  imports Transaction_Keys Operation_Protocol
begin

text \<open>
  The client of the coordination script (\<open>transactions/operationStore.ts\<close>): construction, the four
  operations, dispatch with its classification of failures, and the decoders of the replies; and the
  Redis transport (\<open>transactions/redisTransport.ts\<close>): the checks on an injected client and the
  execution of the script with its single recovery. Redis, the clock and the dispatch gate are
  arguments: a dispatch is given how the gate treated it and what the transport answered.
\<close>

section \<open>Wire values\<close>

text \<open>An array element is text (a string, or a buffer by its UTF-8 text) or something else.\<close>

datatype wire_field = WText jsstr | WBad
datatype wire = WArray "wire_field list" | WOther

abbreviation bad_reply :: "string \<Rightarrow> op_error + 'a" where
  "bad_reply m \<equiv> Inl (op_err InvalidReplyError m)"

fun wireString :: "wire_field \<Rightarrow> op_error + jsstr" where
  "wireString (WText s) = Inr s"
| "wireString WBad = bad_reply ''Redis transaction reply contained a non-string field''"

fun wireParts :: "wire \<Rightarrow> op_error + jsstr list" where
  "wireParts (WArray xs) = traverse wireString xs"
| "wireParts WOther = bad_reply ''Redis transaction reply was not an array''"

text \<open>
  \<open>decimal\<close>: for a canonical numeral \<open>Number\<close> is exact up to \<open>2^53 - 1\<close>, and beyond it the result is not
  a safe integer.
\<close>

definition decimal_pattern :: "bool \<Rightarrow> jsstr \<Rightarrow> bool" where
  "decimal_pattern allowZero s \<longleftrightarrow> allowZero \<and> s = [48] \<or> POSITIVE_DECIMAL s"

definition op_decimal :: "jsstr \<Rightarrow> int \<Rightarrow> bool \<Rightarrow> op_error + int" where
  "op_decimal value mx allowZero =
     (if \<not> decimal_pattern allowZero value then bad_reply ''Redis reply contained an invalid lease duration''
      else let parsed = bigint value in
        if MAX_SAFE_INTEGER < parsed \<or> parsed < (if allowZero then 0 else 1) \<or> mx < parsed
        then bad_reply ''Redis reply contained an out-of-range lease duration''
        else Inr parsed)"

section \<open>Error codes\<close>

definition upper :: "char \<Rightarrow> char" where
  "upper c = (let n = (of_char c :: nat) in if 97 \<le> n \<and> n \<le> 122 then char_of (n - 32) else c)"

definition word_char :: "char \<Rightarrow> bool" where
  "word_char c \<longleftrightarrow> (let n = (of_char c :: nat) in
     65 \<le> n \<and> n \<le> 90 \<or> 97 \<le> n \<and> n \<le> 122 \<or> 48 \<le> n \<and> n \<le> 57 \<or> n = 95)"

definition upper_code :: "char \<Rightarrow> nat" where
  "upper_code c = (let n = of_char c in if 97 \<le> n \<and> n \<le> 122 then n - 32 else n)"

fun prefix_ci :: "string \<Rightarrow> string \<Rightarrow> bool" where
  "prefix_ci [] s = True"
| "prefix_ci (w # ws) [] = False"
| "prefix_ci (w # ws) (c # cs) = (upper_code c = of_char w \<and> prefix_ci ws cs)"

text \<open>The first \<open>TX_[A-Z0-9_]+\<close> of a message, letter case ignored, in upper case.\<close>

fun scriptErrorCode :: "string \<Rightarrow> string option" where
  "scriptErrorCode [] = None"
| "scriptErrorCode (c # cs) =
     (if prefix_ci ''TX_'' (c # cs) \<and> drop 3 (c # cs) \<noteq> [] \<and> word_char (hd (drop 3 (c # cs)))
      then Some (''TX_'' @ map upper (takeWhile word_char (drop 3 (c # cs))))
      else scriptErrorCode cs)"

fun contains_ci :: "string \<Rightarrow> string \<Rightarrow> bool" where
  "contains_ci w [] = (w = [])"
| "contains_ci w (c # cs) = (prefix_ci w (c # cs) \<or> contains_ci w cs)"

definition protocolError :: "op_error \<Rightarrow> op_error option" where
  "protocolError e =
     (if oe_kind e = OperationProtocolError then Some e
      else if scriptErrorCode (oe_message e) \<noteq> None \<or> contains_ci ''WRONGTYPE'' (oe_message e)
      then Some (op_err OperationProtocolError (''Redis transaction rejected the request ('' @
        nullish (scriptErrorCode (oe_message e)) ''WRONGTYPE'' @ '')''))
      else None)"

text \<open>\<open>/\bNOSCRIPT\b/i\<close> on the message: the word, not inside a longer one.\<close>

fun scriptIsNoScript_from :: "bool \<Rightarrow> string \<Rightarrow> bool" where
  "scriptIsNoScript_from boundary [] = False"
| "scriptIsNoScript_from boundary (c # cs) =
     (boundary \<and> prefix_ci ''NOSCRIPT'' (c # cs)
        \<and> (drop 8 (c # cs) = [] \<or> \<not> word_char (hd (drop 8 (c # cs))))
      \<or> scriptIsNoScript_from (\<not> word_char c) cs)"

definition scriptIsNoScript :: "string \<Rightarrow> bool" where
  "scriptIsNoScript s = scriptIsNoScript_from True s"

section \<open>The store\<close>

definition DEFAULT_OPERATION_LEASE_MS :: int where "DEFAULT_OPERATION_LEASE_MS = 30000"
definition DEFAULT_OPERATION_RETENTION_MS :: int where "DEFAULT_OPERATION_RETENTION_MS = 7 * 24 * 60 * 60 * 1000"
definition MAX_OPERATION_LEASE_MS :: int where "MAX_OPERATION_LEASE_MS = 3600000"
definition MAX_OPERATION_RETENTION_MS :: int where "MAX_OPERATION_RETENTION_MS = 2592000000"
definition DEFAULT_OPERATION_TIMEOUT_MS :: int where "DEFAULT_OPERATION_TIMEOUT_MS = 2000"

definition op_positiveInteger :: "string \<Rightarrow> jsnum \<Rightarrow> int \<Rightarrow> op_error + int" where
  "op_positiveInteger name value mx =
     (if \<not> isSafeInteger value \<or> jless value (JNum 1) \<or> jless (jint mx) value
      then Inl (op_err OperationConfigurationError (name @ '' must be an integer in range''))
      else Inr (num_int value))"

record OperationStoreOptions =
  oso_namespace :: "jsval option"
  oso_leaseMs :: "jsnum option"
  oso_retentionMs :: "jsnum option"
  oso_operationTimeoutMs :: "jsnum option"

record RedisOperationStore =
  os_namespace :: jsstr
  os_leaseMs :: int
  os_retentionMs :: int
  os_operationTimeoutMs :: int
  os_closed :: bool

text \<open>The transport given to the constructor: its namespace, or something without the two methods.\<close>

definition newOperationStore :: "jsstr option \<Rightarrow> OperationStoreOptions \<Rightarrow> op_error + RedisOperationStore" where
  "newOperationStore transport opts = (case transport of
     None \<Rightarrow> Inl (op_err OperationConfigurationError ''An explicit primary transaction transport is required'')
   | Some tns \<Rightarrow>
       and_then (validateNamespace (nullish (oso_namespace opts) (VStr tns))) (\<lambda>namespace.
       if namespace \<noteq> tns
       then Inl (op_err OperationConfigurationError ''Operation store and primary transport namespaces must match'')
       else
       and_then (op_positiveInteger ''leaseMs'' (nullish (oso_leaseMs opts) (jint DEFAULT_OPERATION_LEASE_MS))
         MAX_OPERATION_LEASE_MS) (\<lambda>leaseMs.
       and_then (op_positiveInteger ''retentionMs'' (nullish (oso_retentionMs opts) (jint DEFAULT_OPERATION_RETENTION_MS))
         MAX_OPERATION_RETENTION_MS) (\<lambda>retentionMs.
       if retentionMs < leaseMs then Inl (op_err OperationConfigurationError ''retentionMs must be at least leaseMs'')
       else
       and_then (op_positiveInteger ''operationTimeoutMs''
         (nullish (oso_operationTimeoutMs opts) (jint DEFAULT_OPERATION_TIMEOUT_MS)) MAX_SAFE_INTEGER) (\<lambda>timeout.
       Inr \<lparr>os_namespace = namespace, os_leaseMs = leaseMs, os_retentionMs = retentionMs,
            os_operationTimeoutMs = timeout, os_closed = False\<rparr>)))))"

definition assertOpen :: "RedisOperationStore \<Rightarrow> op_error + unit" where
  "assertOpen st = (if os_closed st
     then Inl (op_err OperationUnavailableError ''Transaction operation store is closed'') else Inr ())"

definition closeStore :: "RedisOperationStore \<Rightarrow> RedisOperationStore" where
  "closeStore st = st\<lparr>os_closed := True\<rparr>"

record Lease =
  l_identity :: Identity
  l_owner :: jsstr
  l_remainingMs :: jsnum

text \<open>The lease as its caller hands it in: an object with the three properties, or not an object.\<close>

record LeaseInput =
  li_identity :: jsval
  li_owner :: jsval
  li_remainingMs :: jsnum

definition validateLease :: "RedisOperationStore \<Rightarrow> LeaseInput option \<Rightarrow> op_error + Lease" where
  "validateLease st input = (case input of
     None \<Rightarrow> Inl (op_err OperationError ''lease must be an object'')
   | Some l \<Rightarrow>
       and_then (validateIdentity (li_identity l)) (\<lambda>i.
       and_then (validateOwner (li_owner l)) (\<lambda>owner.
       if \<not> isFinite (li_remainingMs l) \<or> jless (li_remainingMs l) (JNum 0)
          \<or> jless (jint (os_leaseMs st)) (li_remainingMs l)
       then Inl (op_err OperationError ''lease remainingMs must be from 0 to the lease duration'')
       else Inr \<lparr>l_identity = i, l_owner = owner, l_remainingMs = li_remainingMs l\<rparr>)))"

definition op_args :: "RedisOperationStore \<Rightarrow> string \<Rightarrow> Identity \<Rightarrow> jsstr \<Rightarrow> jsstr \<Rightarrow> jsstr list" where
  "op_args st cmd i owner result = [js cmd, id_fingerprint i, id_durableId i, owner,
     js_string (nat (os_leaseMs st)), js_string (nat (os_retentionMs st)), result]"

definition bytesFor :: "jsstr \<Rightarrow> jsstr list \<Rightarrow> nat" where
  "bytesFor key args = byteLength key + sum_list (map byteLength args)"

section \<open>Dispatch\<close>

text \<open>
  How one dispatch went. The gate rejected it without starting the call, let the call settle, or gave
  up on the started call at its deadline. \<open>dr_expired\<close> and \<open>dr_ready\<close> are the two checks inside the call
  before the command is handed to the transport, \<open>dr_reply\<close> what the transport then answered.
\<close>

datatype gate_outcome = GateRejected op_error | GateSettled | GateTimedOut

record dispatch_run =
  dr_gate :: gate_outcome
  dr_expired :: bool
  dr_ready :: bool
  dr_reply :: "op_error + wire"

definition started :: "dispatch_run \<Rightarrow> bool" where
  "started d \<longleftrightarrow> (case dr_gate d of GateRejected _ \<Rightarrow> False | _ \<Rightarrow> True)"

text \<open>The flag \<open>dispatched\<close>: the command was handed to the transport.\<close>

definition dispatched :: "dispatch_run \<Rightarrow> bool" where
  "dispatched d \<longleftrightarrow> started d \<and> \<not> dr_expired d \<and> dr_ready d"

definition gate_result :: "dispatch_run \<Rightarrow> op_error + wire" where
  "gate_result d = (case dr_gate d of
     GateRejected e \<Rightarrow> Inl e
   | GateTimedOut \<Rightarrow> Inl (op_err OperationDispatchTimeoutError ''Transaction command timed out'')
   | GateSettled \<Rightarrow>
       if dr_expired d then Inl (op_err OperationUnavailableError ''Transaction dispatch deadline elapsed'')
       else if \<not> dr_ready d then Inl (op_err OperationUnavailableError ''Transaction primary is not ready'')
       else dr_reply d)"

definition is_unavailable :: "op_error \<Rightarrow> bool" where
  "is_unavailable e \<longleftrightarrow> oe_kind e = OperationUnavailableError \<or> oe_kind e = OperationGateClosedError"

definition classify :: "string \<Rightarrow> bool \<Rightarrow> op_error \<Rightarrow> op_error" where
  "classify operation sent e = (case protocolError e of
     Some definite \<Rightarrow> definite
   | None \<Rightarrow>
       if oe_kind e = OperationConfigurationError then e
       else if is_unavailable e \<and> \<not> sent then e
       else if \<not> sent then op_err OperationUnavailableError (''Transaction '' @ operation @ '' was not dispatched'')
       else if oe_kind e = OperationUnknownError then e
       else op_err OperationUnknownError
         (''Transaction '' @ operation @ '' outcome is unknown; reconcile authoritative state''))"

definition dispatch ::
  "(bytes \<Rightarrow> jsstr) \<Rightarrow> RedisOperationStore \<Rightarrow> string \<Rightarrow> Identity \<Rightarrow> dispatch_run \<Rightarrow> (wire \<Rightarrow> op_error + 'r) \<Rightarrow> op_error + 'r" where
  "dispatch sha st operation i d decode =
     and_then (operationKey sha (VStr (os_namespace st)) (identity_value i)) (\<lambda>key.
     case and_then (gate_result d) decode of
       Inr r \<Rightarrow> Inr r
     | Inl e \<Rightarrow> Inl (classify operation (dispatched d) e))"

section \<open>Replies\<close>

datatype BeginResult = BAcquired Lease | BInProgress int | BCompleted jsstr | BConflict
datatype RenewResult = RRenewed int | RLost | RConflict
datatype CompleteResult = CCompleted jsstr | CLost | CConflict
datatype Status = SMissing | SInProgress int | SRecoveryRequired | SCompleted jsstr | SConflict

definition decodeBegin :: "RedisOperationStore \<Rightarrow> Identity \<Rightarrow> jsstr \<Rightarrow> wire \<Rightarrow> op_error + BeginResult" where
  "decodeBegin st i expectedOwner w = and_then (wireParts w) (\<lambda>parts.
     case parts of [] \<Rightarrow> bad_reply ''Unknown transaction begin reply''
     | p # ps \<Rightarrow>
       if p = js ''acquired'' then
         (if length ps \<noteq> 3 \<or> ps ! 0 \<noteq> expectedOwner \<or> ps ! 2 \<noteq> js ''reconcile''
          then bad_reply ''Invalid acquired transaction reply''
          else and_then (op_decimal (ps ! 1) (os_leaseMs st) False) (\<lambda>n.
            Inr (BAcquired \<lparr>l_identity = i, l_owner = expectedOwner, l_remainingMs = jint n\<rparr>)))
       else if p = js ''in_progress'' then
         (if length ps \<noteq> 1 then bad_reply ''Invalid in-progress transaction reply''
          else and_then (op_decimal (ps ! 0) (os_leaseMs st) False) (\<lambda>n. Inr (BInProgress n)))
       else if p = js ''completed'' then
         (if length ps \<noteq> 1 \<or> \<not> isReference (VStr (ps ! 0)) MAX_RESULT_REFERENCE_BYTES
          then bad_reply ''Invalid completed transaction reply'' else Inr (BCompleted (ps ! 0)))
       else if p = js ''conflict'' then
         (if ps \<noteq> [] then bad_reply ''Invalid conflict transaction reply'' else Inr BConflict)
       else bad_reply ''Unknown transaction begin reply'')"

definition decodeRenew :: "RedisOperationStore \<Rightarrow> wire \<Rightarrow> op_error + RenewResult" where
  "decodeRenew st w = and_then (wireParts w) (\<lambda>parts.
     case parts of [] \<Rightarrow> bad_reply ''Unknown transaction renew reply''
     | p # ps \<Rightarrow>
       if p = js ''renewed'' then
         (if length ps \<noteq> 1 then bad_reply ''Invalid renewed transaction reply''
          else and_then (op_decimal (ps ! 0) (os_leaseMs st) False) (\<lambda>n. Inr (RRenewed n)))
       else if p = js ''lost'' then
         (if ps \<noteq> [] then bad_reply ''Invalid lost transaction reply'' else Inr RLost)
       else if p = js ''conflict'' then
         (if ps \<noteq> [] then bad_reply ''Invalid conflict transaction reply'' else Inr RConflict)
       else bad_reply ''Unknown transaction renew reply'')"

definition decodeComplete :: "jsstr \<Rightarrow> wire \<Rightarrow> op_error + CompleteResult" where
  "decodeComplete expectedResultRef w = and_then (wireParts w) (\<lambda>parts.
     case parts of [] \<Rightarrow> bad_reply ''Unknown transaction complete reply''
     | p # ps \<Rightarrow>
       if p = js ''completed'' then
         (if length ps \<noteq> 1 \<or> ps ! 0 \<noteq> expectedResultRef
          then bad_reply ''Invalid completed transaction reply'' else Inr (CCompleted (ps ! 0)))
       else if p = js ''lost'' then
         (if ps \<noteq> [] then bad_reply ''Invalid lost transaction reply'' else Inr CLost)
       else if p = js ''conflict'' then
         (if ps \<noteq> [] then bad_reply ''Invalid conflict transaction reply'' else Inr CConflict)
       else bad_reply ''Unknown transaction complete reply'')"

definition decodeStatus :: "RedisOperationStore \<Rightarrow> wire \<Rightarrow> op_error + Status" where
  "decodeStatus st w = and_then (wireParts w) (\<lambda>parts.
     case parts of [] \<Rightarrow> bad_reply ''Unknown transaction read reply''
     | p # ps \<Rightarrow>
       if p = js ''missing'' then
         (if ps \<noteq> [] then bad_reply ''Invalid missing transaction reply'' else Inr SMissing)
       else if p = js ''in_progress'' then
         (if length ps \<noteq> 1 then bad_reply ''Invalid in-progress transaction reply''
          else and_then (op_decimal (ps ! 0) (os_leaseMs st) False) (\<lambda>n. Inr (SInProgress n)))
       else if p = js ''recovery_required'' then
         (if ps \<noteq> [] then bad_reply ''Invalid recovery transaction reply'' else Inr SRecoveryRequired)
       else if p = js ''completed'' then
         (if length ps \<noteq> 1 \<or> \<not> isReference (VStr (ps ! 0)) MAX_RESULT_REFERENCE_BYTES
          then bad_reply ''Invalid completed transaction reply'' else Inr (SCompleted (ps ! 0)))
       else if p = js ''conflict'' then
         (if ps \<noteq> [] then bad_reply ''Invalid conflict transaction reply'' else Inr SConflict)
       else bad_reply ''Unknown transaction read reply'')"

section \<open>Operations\<close>

text \<open>\<open>owner\<close> is the fresh token \<open>newOwner()\<close> drew; \<open>d\<close> maps the sent arguments to how the dispatch went.\<close>

definition os_begin ::
  "(bytes \<Rightarrow> jsstr) \<Rightarrow> RedisOperationStore \<Rightarrow> jsstr \<Rightarrow> (jsstr list \<Rightarrow> dispatch_run) \<Rightarrow> jsval \<Rightarrow> op_error + BeginResult" where
  "os_begin sha st owner d input = and_then (assertOpen st) (\<lambda>_. and_then (validateIdentity input) (\<lambda>i.
     dispatch sha st ''begin'' i (d (op_args st ''begin'' i owner [])) (decodeBegin st i owner)))"

definition os_renew ::
  "(bytes \<Rightarrow> jsstr) \<Rightarrow> RedisOperationStore \<Rightarrow> (jsstr list \<Rightarrow> dispatch_run) \<Rightarrow> LeaseInput option \<Rightarrow> op_error + RenewResult" where
  "os_renew sha st d input = and_then (assertOpen st) (\<lambda>_. and_then (validateLease st input) (\<lambda>l.
     dispatch sha st ''renew'' (l_identity l) (d (op_args st ''renew'' (l_identity l) (l_owner l) [])) (decodeRenew st)))"

definition os_complete ::
  "(bytes \<Rightarrow> jsstr) \<Rightarrow> RedisOperationStore \<Rightarrow> (jsstr list \<Rightarrow> dispatch_run) \<Rightarrow> LeaseInput option \<Rightarrow> jsval
    \<Rightarrow> op_error + CompleteResult" where
  "os_complete sha st d input committedResultRef = and_then (assertOpen st) (\<lambda>_. and_then (validateLease st input) (\<lambda>l.
     and_then (validateReference ''committedResultRef'' committedResultRef MAX_RESULT_REFERENCE_BYTES) (\<lambda>resultRef.
     dispatch sha st ''complete'' (l_identity l) (d (op_args st ''complete'' (l_identity l) (l_owner l) resultRef))
       (decodeComplete resultRef))))"

definition os_readStatus ::
  "(bytes \<Rightarrow> jsstr) \<Rightarrow> RedisOperationStore \<Rightarrow> (jsstr list \<Rightarrow> dispatch_run) \<Rightarrow> jsval \<Rightarrow> op_error + Status" where
  "os_readStatus sha st d input = and_then (assertOpen st) (\<lambda>_. and_then (validateIdentity input) (\<lambda>i.
     dispatch sha st ''readStatus'' i (d (op_args st ''read'' i [] [])) (decodeStatus st)))"

section \<open>The store and the script\<close>

text \<open>Replies and arguments on the wire.\<close>

definition wire_of :: "reply \<Rightarrow> op_error + wire" where
  "wire_of r = (case r of Reply xs \<Rightarrow> Inr (WArray (map (\<lambda>x. WText (js x)) xs))
     | ErrReply m \<Rightarrow> Inl (op_err OtherError m))"

text \<open>A dispatch that reaches Redis and settles, executed on the key by the script.\<close>

definition script_dispatch :: "script_env \<Rightarrow> nat \<Rightarrow> nat \<Rightarrow> key_state \<Rightarrow> jsstr list \<Rightarrow> dispatch_run" where
  "script_dispatch env secs usecs K args = \<lparr>dr_gate = GateSettled, dr_expired = False, dr_ready = True,
     dr_reply = wire_of (fst (op_exec env \<lparr>oc_args = map to_lua args, oc_secs = secs, oc_usecs = usecs\<rparr> K))\<rparr>"

lemma js_to_lua: "ascii s \<Longrightarrow> js (to_lua s) = s"
proof -
  have "c < 0x80 \<Longrightarrow> (of_char (lua_char c) :: unit16) = c" for c
    using of_lua_char [of c] by (metis of_nat_of_char of_nat_unat ucast_id)
  then show "ascii s \<Longrightarrow> js (to_lua s) = s"
    by (induction s) (simp_all add: to_lua_ascii js_def)
qed

lemma of_char_unat: "unat (of_char c :: unit16) = of_char c"
proof -
  have "(of_char c :: nat) mod 256 < 256" by (rule mod_less_divisor) simp
  then have "(of_char c :: nat) < 256" unfolding of_char_mod_256 .
  then have "(of_char c :: nat) < 65536" by linarith
  then have "(of_char c :: nat) < 2 ^ LENGTH(16)" by simp
  then have "unat (of_nat (of_char c) :: unit16) = of_char c" by (simp add: unat_of_nat take_bit_nat_eq_self)
  then show ?thesis by (simp add: of_nat_of_char)
qed

definition ascii_char :: "char \<Rightarrow> bool" where
  "ascii_char c \<longleftrightarrow> (of_char c :: nat) < 128"

lemma ascii_js: "list_all ascii_char s \<Longrightarrow> ascii (js s)"
  by (auto simp: ascii_def js_def list_all_iff ascii_char_def word_less_nat_alt of_char_unat)

lemma to_lua_js: "list_all ascii_char s \<Longrightarrow> to_lua (js s) = s"
proof (induction s)
  case (Cons c s)
  have "ascii (js (c # s))" "ascii (js s)" using ascii_js Cons.prems by (auto simp: list_all_iff)
  moreover have "lua_char (of_char c) = c"
  proof -
    have "(of_char c :: unit16) < 0x80" using Cons.prems by (simp add: ascii_char_def word_less_nat_alt of_char_unat)
    then have "(of_char (lua_char (of_char c)) :: nat) = of_char c" using of_lua_char of_char_unat by metis
    then show ?thesis by (metis char_of_char)
  qed
  ultimately show ?case using Cons by (simp add: to_lua_ascii js_def)
qed (simp add: to_lua_def js_def)

lemma digits_ascii: "list_all is_digit s \<Longrightarrow> list_all ascii_char s"
  by (auto simp: list_all_iff is_digit_def ascii_char_def Let_def)

lemma to_lua_js_string: "to_lua (js_string n) = dec n"
  by (simp add: js_string_def to_lua_js digits_ascii dec_digits)

lemma newOperationStore_bounds:
  "newOperationStore t opts = Inr st \<Longrightarrow> 1 \<le> os_leaseMs st \<and> os_leaseMs st \<le> 3600000
    \<and> os_leaseMs st \<le> os_retentionMs st \<and> os_retentionMs st \<le> 2592000000 \<and> \<not> os_closed st"
  by (auto simp: newOperationStore_def and_then_Inr op_positiveInteger_def MAX_OPERATION_LEASE_MS_def
      MAX_OPERATION_RETENTION_MS_def elim!: isSafeInteger_cases split: option.splits if_splits)

text \<open>\<open>tonumber\<close> reads canonical numerals.\<close>

definition tonumber_law :: "script_env \<Rightarrow> bool" where
  "tonumber_law env \<longleftrightarrow> (\<forall>n. int n \<le> MAX_SAFE_INTEGER \<longrightarrow> se_tonumber env (dec n) = Some (jint (int n)))"

lemma to_lua_Nil [simp]: "to_lua [] = []"
  by (simp add: to_lua_def)

definition store_call :: "RedisOperationStore \<Rightarrow> string \<Rightarrow> Identity \<Rightarrow> jsstr \<Rightarrow> jsstr \<Rightarrow> nat \<Rightarrow> nat \<Rightarrow> op_call" where
  "store_call st cmd i owner result secs usecs =
     \<lparr>oc_args = map to_lua (op_args st cmd i owner result), oc_secs = secs, oc_usecs = usecs\<rparr>"

lemma store_call_accepted:
  assumes st: "newOperationStore t opts = Inr st" and i: "identity_ok i" "37 \<notin> set (id_durableId i)"
    and owner: "HEX_64 owner" and cmd: "cmd \<in> {''begin'', ''renew''}" and env: "tonumber_law env"
    and now: "oc_now (store_call st cmd i owner [] secs usecs) + os_retentionMs st \<le> MAX_SAFE_INTEGER"
  shows "accepted env (store_call st cmd i owner [] secs usecs) cmd (to_lua (id_fingerprint i)) (to_lua (id_durableId i))
    (to_lua owner) (os_leaseMs st) (os_retentionMs st) []"
proof -
  note b = newOperationStore_bounds [OF st]
  have "to_lua (js cmd) = cmd" using cmd by (auto intro!: to_lua_js simp: ascii_char_def)
  then have args: "oc_args (store_call st cmd i owner [] secs usecs) = [cmd, to_lua (id_fingerprint i),
      to_lua (id_durableId i), to_lua owner, dec (nat (os_leaseMs st)), dec (nat (os_retentionMs st)), []]"
    by (simp add: store_call_def op_args_def to_lua_js_string)
  have "se_tonumber env (dec (nat (os_leaseMs st))) = Some (jint (os_leaseMs st))"
    "se_tonumber env (dec (nat (os_retentionMs st))) = Some (jint (os_retentionMs st))"
    using env b by (auto simp: tonumber_law_def MAX_SAFE_INTEGER_def)
  moreover have "lua_reference (Some (LStr (to_lua (id_durableId i)))) 128"
    using reference_agrees [of "id_durableId i" 128] i by (simp add: identity_ok_def)
  moreover have "0 \<le> oc_now (store_call st cmd i owner [] secs usecs)" by (simp add: oc_now_def)
  ultimately show ?thesis
    unfolding accepted_def args using i(1) owner b cmd now hex64_agrees by (auto simp: identity_ok_def)
qed

end
