(* ===== verification/Operation_Safety.thy ===== *)
theory Operation_Safety
  imports Operation_Protocol
begin

text \<open>
  The safety and progress theorems of the transaction protocol, with a line-based stand-in for
  \<open>cjson\<close> on which the laws required of it hold.
\<close>

section \<open>Completed operations\<close>

lemma done_step:
  assumes env: "cjson_laws env" and d: "done_with env ref K e" and ex: "op_exec env c K = (rep, K')"
    and now: "oc_now c < e"
  shows "K' = K \<and> (rep = Reply [''completed'', r] \<longrightarrow> r = ref) \<and> (\<forall>A x m. rep \<noteq> Reply [''acquired'', A, x, m])
    \<and> (\<forall>x. rep \<noteq> Reply [''renewed'', x]) \<and> (\<forall>x. rep \<noteq> Reply [''in_progress'', x])
    \<and> rep \<noteq> Reply [''recovery_required''] \<and> rep \<noteq> Reply [''missing'']"
proof -
  obtain t where t: "holds env K t e" "completed_at t ref e" using d by (auto simp: done_with_def)
  have K: "key_ok env K" using t(1) by (auto simp: key_ok_def)
  have np: "\<not> pending_at t' l e'" if "holds env K t' e'" for t' l e'
    using holds_unique [OF t(1) that] pending_xor_completed t(2) by metis
  show ?thesis using op_exec_cases [OF env K ex]
  proof cases
    case 1
    have "r = ref" if rep: "rep = Reply [''completed'', r]"
    proof -
      obtain t' e' where t': "holds env K t' e'" "completed_at t' r e'"
        using no_write_replies(1) [OF 1 [unfolded rep]] by blast
      have "t' = t" using holds_unique [OF t(1) t'(1)] by simp
      then show ?thesis using t(2) t'(2) by (simp add: completed_at_def)
    qed
    moreover have "rep \<noteq> Reply [''acquired'', A, x, m]" for A x m
      using no_write_acquired np 1 by metis
    moreover have "rep \<noteq> Reply [''renewed'', x]" "rep \<noteq> Reply [''in_progress'', x]" for x
      using no_write_replies(2,3) np 1 by metis+
    moreover have "rep \<noteq> Reply [''recovery_required'']" using no_write_replies(4) np 1 by metis
    moreover have "rep \<noteq> Reply [''missing'']" using no_write_replies(5) t(1) now 1 linorder_not_le by metis
    ultimately show ?thesis using no_write_same [OF 1] by blast
  next
    case 2
    then show ?thesis using np t(1) now unfolding acquires_def by metis
  next
    case 3
    then show ?thesis using np unfolding renews_def by metis
  next
    case 4
    then show ?thesis using np unfolding completes_def by metis
  qed
qed

lemma done_run:
  assumes env: "cjson_laws env" and d: "done_with env ref K e" and "\<forall>c \<in> set cs. oc_now c < e"
  shows "snd (op_run env cs K) = K
    \<and> (\<forall>r. Reply [''completed'', r] \<in> set (fst (op_run env cs K)) \<longrightarrow> r = ref)
    \<and> (\<forall>A x m. Reply [''acquired'', A, x, m] \<notin> set (fst (op_run env cs K)))
    \<and> Reply [''missing''] \<notin> set (fst (op_run env cs K))"
  using assms(3)
proof (induction cs)
  case (Cons c cs)
  obtain rep K' where ex: "op_exec env c K = (rep, K')" by fastforce
  note st = done_step [OF env d ex]
  have "K' = K" using st Cons.prems by simp
  then show ?case using st ex Cons by (auto simp: Let_def)
qed simp

lemma completed_done:
  assumes env: "cjson_laws env" and K: "key_ok env K" and ex: "op_exec env c K = (Reply [''completed'', ref], K')"
  obtains e where "done_with env ref K' e" "oc_now c < e"
  using op_exec_cases [OF env K ex]
proof cases
  case 1
  then show ?thesis using no_write_replies(1) [OF 1] no_write_same [OF 1] that
    unfolding done_with_def by blast
next
  case 4
  then obtain t' e' retention fp durable owner lease where r: "holds env K' t' e'" "completed_at t' ref e'"
      "oc_now c + retention \<le> e'" "accepted env c ''complete'' fp durable owner lease retention ref"
    unfolding completes_def by auto
  then have "oc_now c < e'" by (auto simp: accepted_def)
  then show ?thesis using that r(1,2) by (auto simp: done_with_def)
qed (auto simp: acquires_def renews_def)

text \<open>The retention a successful \<open>complete\<close> guarantees.\<close>

lemma complete_retained:
  assumes env: "cjson_laws env" and K: "key_ok env K"
    and acc: "accepted env c ''complete'' fp durable owner lease retention ref"
    and ex: "op_exec env c K = (Reply [''completed'', ref], K')" and ch: "K' \<noteq> K"
  shows "\<exists>e. done_with env ref K' e \<and> oc_now c + retention \<le> e"
  using op_exec_cases [OF env K ex]
proof cases
  case 4
  then obtain t' e' retention' fp' durable' owner' lease' where r: "holds env K' t' e'" "completed_at t' ref e'"
      "oc_now c + retention' \<le> e'" "accepted env c ''complete'' fp' durable' owner' lease' retention' ref"
    unfolding completes_def by auto
  have "retention' = retention" using r(4) acc by (auto simp: accepted_def)
  then show ?thesis using r by (auto simp: done_with_def)
qed (use ch in \<open>auto simp: no_write_def acquires_def renews_def\<close>)

section \<open>Taking over\<close>

text \<open>The key is free for \<open>owner\<close>: absent, expired, or pending with a lapsed lease of somebody else.\<close>

definition free_for :: "script_env \<Rightarrow> op_call \<Rightarrow> string \<Rightarrow> string \<Rightarrow> string \<Rightarrow> key_state \<Rightarrow> bool" where
  "free_for env c fp durable owner K \<longleftrightarrow> K = None
     \<or> (\<exists>t e. holds env K t e \<and> (e \<le> oc_now c
        \<or> e \<le> oc_now c + 2592000000 \<and> (\<exists>l. pending_at t l e \<and> l \<le> oc_now c)
          \<and> field t ''owner'' \<noteq> Some (LStr owner)
          \<and> field t ''fingerprint'' = Some (LStr fp) \<and> field t ''durableId'' = Some (LStr durable)))"

lemma script_accepted:
  assumes "accepted env c cmd fp durable owner lease retention result" "op_load env fp durable g = Inr r"
  shows "op_script env 1 (oc_args c) g (oc_secs c) (oc_usecs c)
    = op_command env (oc_now c) cmd fp durable owner lease retention result r"
proof -
  obtain la ra where a: "oc_args c = [cmd, fp, durable, owner, la, ra, result]"
      "se_tonumber env la = Some (jint lease)" "se_tonumber env ra = Some (jint retention)"
    using assms(1) by (auto simp: accepted_def)
  have i: "lua_integer (Some (jint lease)) 1 3600000" "lua_integer (Some (jint retention)) lease 2592000000"
    using assms(1) by (auto simp: accepted_def lua_integer_def)
  have n: "\<not> MAX_SAFE_INTEGER - retention < int (oc_secs c) * 1000 + int (oc_usecs c div 1000)"
    using assms(1) by (simp add: accepted_def oc_now_def)
  have m: "cmd \<in> {''begin'', ''renew'', ''complete'', ''read''}" "lua_hex64 (Some (LStr fp))"
      "lua_reference (Some (LStr durable)) 128" "cmd \<noteq> ''read'' \<longrightarrow> lua_hex64 (Some (LStr owner))"
      "cmd = ''complete'' \<longrightarrow> lua_reference (Some (LStr result)) 256"
    using assms(1) unfolding accepted_def by blast+
  show ?thesis
    unfolding a(1) oc_now_def op_script.simps(1) Let_def a(2,3) nullish.simps num_int_jint assms(2) sum.case
    using m i n by simp blast
qed

lemma persist_success:
  assumes "cjson_laws env" "base_ok t" "pending_at t l r \<or> completed_at t ref r" "1 \<le> r - now" "r - now \<le> 2592000000"
  shows "fst (persist env now t ok) = Reply ok"
proof -
  have o: "om_ok t" using assms(2) by (simp add: base_ok_def)
  then have v: "validate_record (LTable t)" using assms(2,3) validate_record_iff by blast
  then have "length (se_encode env (LTable t)) \<le> 2048" using assms(1) o by (simp add: cjson_laws_def)
  moreover have "ms_field t ''retainUntilMs'' = r"
    using assms(3) timestamp_ms_field by (auto simp: pending_at_def completed_at_def)
  ultimately show ?thesis using v assms(4,5) by (simp add: persist_def Let_def)
qed

lemma begin_success:
  assumes env: "cjson_laws env" and acc: "accepted env c ''begin'' fp durable owner lease retention result"
    and r: "case r of None \<Rightarrow> True | Some t \<Rightarrow> ms_field t ''retainUntilMs'' \<le> MAX_SAFE_INTEGER
      \<and> ms_field t ''retainUntilMs'' \<le> oc_now c + 2592000000"
  shows "fst (persist env (oc_now c) (pending_record fp durable owner (lua_decimal (oc_now c + lease))
      (retainedDeadline (oc_now c) retention r)) [''acquired'', owner, lua_decimal lease, ''reconcile''])
    = Reply [''acquired'', owner, lua_decimal lease, ''reconcile'']"
proof -
  let ?e = "kept_until (oc_now c) retention r"
  have b: "0 \<le> ?e \<and> ?e \<le> MAX_SAFE_INTEGER \<and> oc_now c + retention \<le> ?e"
    using acc r by (intro kept_until_bounds) (auto simp: accepted_def split: option.splits)
  have u: "?e \<le> oc_now c + 2592000000"
    using acc r by (auto simp: kept_until_def accepted_def split: option.splits)
  have p: "base_ok (pending_record fp durable owner (lua_decimal (oc_now c + lease)) (lua_decimal ?e))
    \<and> pending_at (pending_record fp durable owner (lua_decimal (oc_now c + lease)) (lua_decimal ?e)) (oc_now c + lease) ?e"
    using acc b by (intro pending_record_ok) (auto simp: accepted_def)
  show ?thesis unfolding retainedDeadline_kept
    by (rule persist_success [OF env conjunct1 [OF p] disjI1 [OF conjunct2 [OF p]]])
      (use acc b u in \<open>auto simp: accepted_def\<close>)
qed

lemma begin_takes:
  assumes env: "cjson_laws env" and acc: "accepted env c ''begin'' fp durable owner lease retention result"
    and free: "free_for env c fp durable owner K"
  shows "fst (op_exec env c K) = Reply [''acquired'', owner, lua_decimal lease, ''reconcile'']"
proof (cases "\<exists>t e. holds env K t e \<and> oc_now c < e")
  case False
  then have "key_get (oc_now c) K = GNil"
    using free by (auto simp: free_for_def key_get_def holds_def)
  then have "op_load env fp durable (key_get (oc_now c) K) = Inr None" by (simp add: op_load_def)
  then show ?thesis using script_accepted [OF acc] begin_success [OF env acc, of None]
    by (simp add: op_exec_def Let_def op_command_def op_begin_def)
next
  case True
  then obtain t e where h: "holds env K t e" "oc_now c < e" by blast
  have "K \<noteq> None" using h(1) by (auto simp: holds_def)
  then obtain t' e' where f: "holds env K t' e'" "e' \<le> oc_now c
        \<or> e' \<le> oc_now c + 2592000000 \<and> (\<exists>l. pending_at t' l e' \<and> l \<le> oc_now c)
          \<and> field t' ''owner'' \<noteq> Some (LStr owner)
          \<and> field t' ''fingerprint'' = Some (LStr fp) \<and> field t' ''durableId'' = Some (LStr durable)"
    using free unfolding free_for_def by metis
  have eq: "t' = t" "e' = e" using holds_unique [OF h(1) f(1)] by auto
  have "\<not> e \<le> oc_now c" using h(2) by simp
  then obtain l where t: "holds env K t e" "oc_now c < e" "pending_at t l e" "l \<le> oc_now c"
      "field t ''owner'' \<noteq> Some (LStr owner)" "field t ''fingerprint'' = Some (LStr fp)"
      "field t ''durableId'' = Some (LStr durable)" "e \<le> oc_now c + 2592000000"
    using f(2) h unfolding eq by metis
  have "op_load env fp durable (key_get (oc_now c) K) = Inr (Some t)"
    using t(1,2,6,7) by (auto simp: holds_def op_load_def key_get_def)
  then show ?thesis
    using script_accepted [OF acc] begin_success [OF env acc, of "Some t"] pending_fields(1,2) [OF t(3)] t
      pending_not_completed [OF t(3)] remaining_pending [OF t(3), of "oc_now c"]
    by (simp add: op_exec_def Let_def op_command_def op_begin_def)
qed

text \<open>The holder of a running lease completes.\<close>

lemma complete_takes:
  assumes env: "cjson_laws env" and acc: "accepted env c ''complete'' fp durable owner lease retention ref"
    and t: "holds env K t e" "pending_at t l e" "oc_now c < l" "e \<le> oc_now c + 2592000000"
      "field t ''owner'' = Some (LStr owner)" "field t ''fingerprint'' = Some (LStr fp)"
      "field t ''durableId'' = Some (LStr durable)"
  shows "fst (op_exec env c K) = Reply [''completed'', ref]"
proof -
  let ?t1 = "om_set (om_set t ''state'' (LStr ''completed'')) ''resultRef'' (LStr ref)"
  let ?t2 = "om_set (om_set ?t1 ''leaseUntilMs'' (LStr ''0'')) ''retainUntilMs''
      (LStr (retainedDeadline (oc_now c) retention (Some ?t1)))"
  have le: "l \<le> e" using t(2) by (simp add: pending_at_def)
  have b: "base_ok t" using holds_cases t(1) by blast
  have t2: "base_ok ?t2 \<and> completed_at ?t2 ref (max (oc_now c + retention) e)"
    using acc t(2) b by (intro complete_record) (auto simp: accepted_def)
  have p: "fst (op_complete env (oc_now c) retention ref t) = Reply [''completed'', ref]"
    unfolding op_complete_def Let_def
    by (rule persist_success [OF env conjunct1 [OF t2] disjI2 [OF conjunct2 [OF t2]]])
      (use acc t(3,4) le in \<open>auto simp: accepted_def\<close>)
  have "op_load env fp durable (key_get (oc_now c) K) = Inr (Some t)"
    using t le by (auto simp: holds_def op_load_def key_get_def)
  then show ?thesis
    using script_accepted [OF acc] p t pending_not_completed [OF t(2)] remaining_pending [OF t(2), of "oc_now c"]
    by (simp add: op_exec_def Let_def op_command_def)
qed

section \<open>A stand-in for cjson\<close>

text \<open>One line per field; it satisfies the laws required of \<open>cjson\<close>, so they are satisfiable.\<close>

fun split_on :: "char \<Rightarrow> string \<Rightarrow> string list" where
  "split_on c [] = [[]]"
| "split_on c (x # xs) = (if x = c then [] # split_on c xs
     else case split_on c xs of [] \<Rightarrow> [[x]] | y # ys \<Rightarrow> (x # y) # ys)"

fun join_on :: "char \<Rightarrow> string list \<Rightarrow> string" where
  "join_on c [] = []"
| "join_on c [x] = x"
| "join_on c (x # y # xs) = x @ c # join_on c (y # xs)"

lemma split_on_none: "c \<notin> set x \<Longrightarrow> split_on c x = [x]"
  by (induction x) auto

lemma split_on_append: "c \<notin> set x \<Longrightarrow> split_on c (x @ c # y) = x # split_on c y"
  by (induction x) auto

lemma split_join: "xs \<noteq> [] \<Longrightarrow> \<forall>x \<in> set xs. c \<notin> set x \<Longrightarrow> split_on c (join_on c xs) = xs"
  by (induction c xs rule: join_on.induct) (auto simp: split_on_none split_on_append)

definition string_fields :: "string list" where
  "string_fields = [''fingerprint'', ''durableId'', ''owner'', ''state'', ''leaseUntilMs'', ''retainUntilMs'', ''resultRef'']"

definition plain_encode :: "luaval \<Rightarrow> string" where
  "plain_encode r = (case r of LTable t \<Rightarrow> join_on (CHR 0x0A) (map (\<lambda>k. lua_str (field t k)) string_fields) | _ \<Rightarrow> [])"

definition plain_decode :: "string \<Rightarrow> luaval option" where
  "plain_decode s = (let xs = split_on (CHR 0x0A) s in
     if length xs = 7 then Some (LTable ((''schema'', LNum (JNum 1)) # zip string_fields (map LStr xs))) else None)"

definition plain_tonumber :: "string \<Rightarrow> jsnum option" where
  "plain_tonumber s = (if canonical s then Some (jint (int (dec_value s))) else None)"

definition plain_env :: script_env where
  "plain_env = \<lparr>se_encode = plain_encode, se_decode = plain_decode, se_tonumber = plain_tonumber\<rparr>"

definition line_ok :: "luaval option \<Rightarrow> nat \<Rightarrow> bool" where
  "line_ok v n \<longleftrightarrow> (\<exists>s. v = Some (LStr s) \<and> CHR 0x0A \<notin> set s \<and> length s \<le> n)"

lemma list_all_no_newline: "list_all P s \<Longrightarrow> \<not> P (CHR 0x0A) \<Longrightarrow> CHR 0x0A \<notin> set s"
  by (auto simp: list_all_iff)

lemma line_ok_hex64: "lua_hex64 v \<Longrightarrow> line_ok v 64"
  by (auto simp: lua_hex64_def bounded_def line_ok_def lua_str_def hex_char_def
      split: option.splits luaval.splits dest!: list_all_no_newline)

lemma line_ok_reference: "lua_reference v n \<Longrightarrow> line_ok v n"
  by (auto simp: lua_reference_def bounded_def line_ok_def lua_str_def ref_char_def
      split: option.splits luaval.splits dest!: list_all_no_newline)

lemma canonical_no_newline: "canonical s \<Longrightarrow> CHR 0x0A \<notin> set s"
  by (auto simp: canonical_def is_digit_def dest!: list_all_no_newline)

lemma line_ok_timestamp: "timestamp v = Some n \<Longrightarrow> line_ok v 16"
  by (auto simp: timestamp_def line_ok_def canonical_no_newline split: option.splits luaval.splits if_splits)

lemma valid_lines:
  assumes ok: "om_ok t" and v: "validate_record (LTable t)"
  shows "list_all (\<lambda>k. line_ok (field t k) 256) string_fields"
proof -
  have mono: "line_ok w n \<Longrightarrow> n \<le> 256 \<Longrightarrow> line_ok w 256" for w n by (auto simp: line_ok_def)
  have b: "base_ok t" and st: "(\<exists>l r. pending_at t l r) \<or> (\<exists>ref r. completed_at t ref r)"
    using v validate_record_iff [OF ok] by auto
  have "line_ok (field t ''fingerprint'') 256" "line_ok (field t ''owner'') 256" "line_ok (field t ''durableId'') 256"
    using b by (auto simp: base_ok_def intro: mono [OF line_ok_hex64] mono [OF line_ok_reference])
  moreover have "line_ok (field t ''leaseUntilMs'') 256" "line_ok (field t ''retainUntilMs'') 256"
    using st by (auto simp: pending_at_def completed_at_def intro: mono [OF line_ok_timestamp])
  moreover have "line_ok (field t ''state'') 256 \<and> line_ok (field t ''resultRef'') 256"
    using st line_ok_reference by (auto simp: pending_at_def completed_at_def line_ok_def)
  ultimately show ?thesis by (simp add: string_fields_def)
qed

lemma length_join: "length (join_on c xs) \<le> sum_list (map (\<lambda>x. length x + 1) xs)"
  by (induction c xs rule: join_on.induct) auto

lemma plain_roundtrip:
  assumes ok: "om_ok t" and v: "validate_record (LTable t)"
  shows "length (plain_encode (LTable t)) \<le> 2048
    \<and> (\<exists>t'. plain_decode (plain_encode (LTable t)) = Some (LTable t') \<and> same_table t t')"
proof -
  note lines = valid_lines [OF ok v]
  define xs where "xs = map (\<lambda>k. lua_str (field t k)) string_fields"
  have enc: "plain_encode (LTable t) = join_on (CHR 0x0A) xs" by (simp add: plain_encode_def xs_def)
  have line: "CHR 0x0A \<notin> set (lua_str (field t k)) \<and> length (lua_str (field t k)) \<le> 256
      \<and> field t k = Some (LStr (lua_str (field t k)))" if "k \<in> set string_fields" for k
    using lines that by (auto simp: list_all_iff line_ok_def lua_str_def)
  have split: "split_on (CHR 0x0A) (join_on (CHR 0x0A) xs) = xs"
    by (rule split_join) (use line in \<open>auto simp: xs_def string_fields_def\<close>)
  let ?t = "(''schema'', LNum (JNum 1)) # zip string_fields (map LStr xs)"
  have dec: "plain_decode (plain_encode (LTable t)) = Some (LTable ?t)"
    unfolding plain_decode_def enc split by (simp add: xs_def string_fields_def)
  have "sum_list (map (\<lambda>x. length x + 1) xs) \<le> sum_list (map (\<lambda>k. 257) string_fields)"
    unfolding xs_def map_map using line by (intro sum_list_mono) auto
  then have len: "length (plain_encode (LTable t)) \<le> 2048"
    using length_join [of "CHR 0x0A" xs] unfolding enc by (simp add: string_fields_def)
  have keys: "map fst ?t = ''schema'' # string_fields" by (simp add: xs_def)
  have b: "base_ok t" using v validate_record_iff [OF ok] by simp
  have "field ?t k = field t k" for k
  proof (cases "k \<in> set string_fields")
    case True
    then have "field ?t k = Some (LStr (lua_str (field t k)))"
      by (auto simp: field_def om_get_def xs_def string_fields_def)
    then show ?thesis using line [OF True] by simp
  next
    case False
    show ?thesis
    proof (cases "k = ''schema''")
      case True
      then show ?thesis using b by (simp add: base_ok_def field_def om_get_def)
    next
      case neq: False
      have "field ?t k = None"
        using False neq by (simp add: field_def om_get_None xs_def set_zip image_def) (auto simp: set_conv_nth)
      moreover have "field t k = None"
        using b False neq by (auto simp: base_ok_def allowed_fields_def string_fields_def)
      ultimately show ?thesis by simp
    qed
  qed
  moreover have "om_ok ?t" unfolding om_ok_def keys by (simp add: string_fields_def)
  moreover have "length ?t = length t" using b by (simp add: xs_def string_fields_def base_ok_def)
  ultimately show ?thesis using len dec by (auto simp: same_table_def)
qed

lemma plain_env_laws: "cjson_laws plain_env"
  using plain_roundtrip by (simp add: cjson_laws_def plain_env_def)

section \<open>Example calls\<close>

definition demo_owner :: "char \<Rightarrow> string" where
  "demo_owner c = replicate 64 c"

definition demo_call :: "string \<Rightarrow> char \<Rightarrow> string \<Rightarrow> nat \<Rightarrow> nat \<Rightarrow> op_call" where
  "demo_call cmd c ref secs usecs = \<lparr>oc_args = [cmd, demo_owner (CHR ''f''), ''order-1'', demo_owner c, ''1000'', ''60000'', ref],
     oc_secs = secs, oc_usecs = usecs\<rparr>"

lemma demo_hex: "c \<in> {CHR ''a'', CHR ''b'', CHR ''f''} \<Longrightarrow> lua_hex64 (Some (LStr (demo_owner c)))"
  by (auto simp: lua_hex64_def bounded_def lua_str_def demo_owner_def list_all_iff hex_char_def)

lemma demo_durable: "lua_reference (Some (LStr ''order-1'')) 128" "lua_reference (Some (LStr ''receipt-7'')) 256"
  by (simp_all add: lua_reference_def bounded_def lua_str_def ref_char_def)

lemma demo_numbers: "plain_tonumber ''1000'' = Some (jint 1000)" "plain_tonumber ''60000'' = Some (jint 60000)"
  by (simp_all add: plain_tonumber_def canonical_def is_digit_def dec_value_def)

lemma demo_accepted:
  assumes "c \<in> {CHR ''a'', CHR ''b''}" "cmd \<in> {''begin'', ''renew'', ''complete''}"
    "cmd = ''complete'' \<longrightarrow> ref = ''receipt-7''" "oc_now (demo_call cmd c ref secs usecs) \<le> 1000000000"
  shows "accepted plain_env (demo_call cmd c ref secs usecs) cmd (demo_owner (CHR ''f'')) ''order-1'' (demo_owner c) 1000 60000 ref"
  using assms demo_hex [of c] demo_hex [of "CHR ''f''"] demo_durable demo_numbers
  by (auto simp: accepted_def demo_call_def plain_env_def oc_now_def MAX_SAFE_INTEGER_def)

section \<open>Properties\<close>

text \<open>
  C10. Lease exclusion: when a call is answered \<open>acquired\<close> with a remaining duration, no call of
  another owner is answered \<open>acquired\<close> while that duration runs, whatever commands are executed on the
  key in between (renewals of the holder that would cut its own lease short excepted).
\<close>

theorem lease_excludes_others:
  assumes "cjson_laws env" and "key_ok env K"
    and "op_exec env c K = (Reply [''acquired'', A, d, m], K1)"
    and "\<forall>c' \<in> set cs. oc_now c' < oc_now c + int (dec_value d)
      \<and> (oc_now c + int (dec_value d) \<le> oc_now c' + call_lease env c' \<or> hd (oc_args c') \<noteq> ''renew'')"
    and "Reply [''acquired'', B, d', m'] \<in> set (fst (op_run env cs K1))"
  shows "B = A"
  using held_run [OF assms(1) acquired_held [OF assms(1-3)] assms(4)] assms(5) by blast

lemma demo_first:
  "op_exec plain_env (demo_call ''begin'' (CHR ''a'') [] 100 0) None
   = (Reply [''acquired'', demo_owner (CHR ''a''), lua_decimal 1000, ''reconcile''],
      snd (op_exec plain_env (demo_call ''begin'' (CHR ''a'') [] 100 0) None))"
proof -
  have "accepted plain_env (demo_call ''begin'' (CHR ''a'') [] 100 0) ''begin'' (demo_owner (CHR ''f'')) ''order-1''
      (demo_owner (CHR ''a'')) 1000 60000 []"
    by (rule demo_accepted) (auto simp: oc_now_def demo_call_def)
  from begin_takes [OF plain_env_laws this, of None] show ?thesis
    by (metis free_for_def prod.collapse)
qed

theorem lease_excludes_others_witness:
  "\<forall>d m. Reply [''acquired'', demo_owner (CHR ''b''), d, m] \<notin>
     set (fst (op_run plain_env [demo_call ''begin'' (CHR ''b'') [] 100 500000]
       (snd (op_exec plain_env (demo_call ''begin'' (CHR ''a'') [] 100 0) None))))"
proof -
  have neq: "demo_owner (CHR ''b'') \<noteq> demo_owner (CHR ''a'')" by (simp add: demo_owner_def)
  have "\<forall>c' \<in> set [demo_call ''begin'' (CHR ''b'') [] 100 500000].
      oc_now c' < oc_now (demo_call ''begin'' (CHR ''a'') [] 100 0) + int (dec_value (lua_decimal 1000))
      \<and> (oc_now (demo_call ''begin'' (CHR ''a'') [] 100 0) + int (dec_value (lua_decimal 1000))
           \<le> oc_now c' + call_lease plain_env c' \<or> hd (oc_args c') \<noteq> ''renew'')"
    by (simp add: oc_now_def demo_call_def lua_decimal_def)
  then show ?thesis
    using lease_excludes_others [OF plain_env_laws _ demo_first] neq unfolding key_ok_def by blast
qed

text \<open>
  C17. A completed operation stays settled: once a call is answered \<open>completed\<close> with a result
  reference there is a later instant (at least the retention period away when this call wrote the
  completion) up to which no command changes the key, nobody acquires the operation again, nobody is
  told it is missing, and every \<open>completed\<close> answer carries the same reference.
\<close>

theorem completed_is_final:
  assumes "cjson_laws env" and "key_ok env K"
    and "op_exec env c K = (Reply [''completed'', ref], K1)"
  shows "\<exists>e. oc_now c < e
    \<and> (K1 \<noteq> K \<longrightarrow> (\<forall>fp durable owner lease retention.
         accepted env c ''complete'' fp durable owner lease retention ref \<longrightarrow> oc_now c + retention \<le> e))
    \<and> (\<forall>cs. (\<forall>c' \<in> set cs. oc_now c' < e) \<longrightarrow>
         snd (op_run env cs K1) = K1
         \<and> (\<forall>r. Reply [''completed'', r] \<in> set (fst (op_run env cs K1)) \<longrightarrow> r = ref)
         \<and> (\<forall>A x m. Reply [''acquired'', A, x, m] \<notin> set (fst (op_run env cs K1)))
         \<and> Reply [''missing''] \<notin> set (fst (op_run env cs K1)))"
proof -
  obtain e where e: "done_with env ref K1 e" "oc_now c < e" using completed_done [OF assms] .
  have "oc_now c + retention \<le> e" if ch: "K1 \<noteq> K"
      and acc: "accepted env c ''complete'' fp durable owner lease retention ref"
    for fp durable owner lease retention
  proof -
    obtain e' where "done_with env ref K1 e'" "oc_now c + retention \<le> e'"
      using complete_retained [OF assms(1,2) acc assms(3) ch] by blast
    moreover have "e' = e" using e(1) calculation(1) by (auto simp: done_with_def holds_def)
    ultimately show ?thesis by simp
  qed
  then show ?thesis using e(2) done_run [OF assms(1) e(1)] by blast
qed

lemma demo_then_complete:
  "fst (op_exec plain_env (demo_call ''complete'' (CHR ''a'') ''receipt-7'' 100 500000)
     (snd (op_exec plain_env (demo_call ''begin'' (CHR ''a'') [] 100 0) None))) = Reply [''completed'', ''receipt-7'']"
proof -
  have acc: "accepted plain_env (demo_call ''complete'' (CHR ''a'') ''receipt-7'' 100 500000) ''complete''
      (demo_owner (CHR ''f'')) ''order-1'' (demo_owner (CHR ''a'')) 1000 60000 ''receipt-7''"
    by (rule demo_accepted) (auto simp: oc_now_def demo_call_def)
  have acq: "acquires plain_env (demo_call ''begin'' (CHR ''a'') [] 100 0) None
      (Reply [''acquired'', demo_owner (CHR ''a''), lua_decimal 1000, ''reconcile''])
      (snd (op_exec plain_env (demo_call ''begin'' (CHR ''a'') [] 100 0) None))"
    by (rule op_exec_cases [OF plain_env_laws _ demo_first])
      (auto simp: key_ok_def renews_def completes_def holds_def elim: no_write_acquired)
  then obtain t e lease fp durable retention result where t:
      "holds plain_env (snd (op_exec plain_env (demo_call ''begin'' (CHR ''a'') [] 100 0) None)) t e"
      "pending_at t (oc_now (demo_call ''begin'' (CHR ''a'') [] 100 0) + lease) e"
      "e \<le> oc_now (demo_call ''begin'' (CHR ''a'') [] 100 0) + 2592000000"
      "accepted plain_env (demo_call ''begin'' (CHR ''a'') [] 100 0) ''begin'' fp durable (demo_owner (CHR ''a'')) lease retention result"
      "field t ''fingerprint'' = Some (LStr fp)" "field t ''durableId'' = Some (LStr durable)"
      "field t ''owner'' = Some (LStr (demo_owner (CHR ''a'')))"
    unfolding acquires_def by auto
  have "lease = 1000" "fp = demo_owner (CHR ''f'')" "durable = ''order-1''"
    using t(4) demo_numbers by (auto simp: accepted_def demo_call_def plain_env_def)
  then show ?thesis
    using t by (intro complete_takes [OF plain_env_laws acc t(1,2)]) (auto simp: oc_now_def demo_call_def)
qed

theorem completed_is_final_witness:
  "\<exists>e. 100500 < e \<and> (\<forall>cs. (\<forall>c' \<in> set cs. oc_now c' < e) \<longrightarrow>
     Reply [''missing''] \<notin> set (fst (op_run plain_env cs
       (snd (op_exec plain_env (demo_call ''complete'' (CHR ''a'') ''receipt-7'' 100 500000)
         (snd (op_exec plain_env (demo_call ''begin'' (CHR ''a'') [] 100 0) None)))))))"
proof -
  have "key_ok plain_env (snd (op_exec plain_env (demo_call ''begin'' (CHR ''a'') [] 100 0) None))"
    using op_exec_key_ok [OF plain_env_laws _ demo_first] by (simp add: key_ok_def)
  moreover have "oc_now (demo_call ''complete'' (CHR ''a'') ''receipt-7'' 100 500000) = 100500"
    by (simp add: oc_now_def demo_call_def)
  ultimately show ?thesis
    using completed_is_final [OF plain_env_laws, of _ "demo_call ''complete'' (CHR ''a'') ''receipt-7'' 100 500000" "''receipt-7''"]
      demo_then_complete by (metis prod.collapse)
qed

text \<open>
  Every record the script writes it can read back: after any sequence of calls on an initially
  absent key, whatever their arguments and clock readings, the guarded read of the next call never
  fails, it only finds nothing, a conflict, or a valid record.
\<close>

theorem records_readable:
  assumes "cjson_laws env"
  shows "\<exists>r. op_load env fp durable (key_get now (snd (op_run env cs None))) = Inr r
    \<or> op_load env fp durable (key_get now (snd (op_run env cs None))) = Inl (Reply [''conflict''])"
  using load_key(1) [OF op_run_key_ok [OF assms, of None cs], of fp durable now]
  by (cases "op_load env fp durable (key_get now (snd (op_run env cs None)))") (auto simp: key_ok_def)

text \<open>
  Progress: a well-formed \<open>begin\<close> acquires whenever the key is absent or expired, or holds the same
  operation pending under another owner whose lease has lapsed (and a retention deadline within the
  protocol's 30 days).
\<close>

theorem begin_acquires_free_key:
  assumes "cjson_laws env" and "accepted env c ''begin'' fp durable owner lease retention result"
    and "free_for env c fp durable owner K"
  shows "fst (op_exec env c K) = Reply [''acquired'', owner, lua_decimal lease, ''reconcile'']"
  by (rule begin_takes [OF assms])

theorem records_readable_witness:
  "\<exists>r. op_load plain_env (demo_owner (CHR ''f'')) ''order-1''
       (key_get 100500 (snd (op_run plain_env [demo_call ''begin'' (CHR ''a'') [] 100 0] None))) = Inr r
    \<or> op_load plain_env (demo_owner (CHR ''f'')) ''order-1''
       (key_get 100500 (snd (op_run plain_env [demo_call ''begin'' (CHR ''a'') [] 100 0] None))) = Inl (Reply [''conflict''])"
  by (rule records_readable [OF plain_env_laws])

theorem begin_acquires_free_key_witness:
  "fst (op_exec plain_env (demo_call ''begin'' (CHR ''b'') [] 100 0) None)
   = Reply [''acquired'', demo_owner (CHR ''b''), lua_decimal 1000, ''reconcile'']"
  by (rule begin_acquires_free_key [OF plain_env_laws demo_accepted])
    (auto simp: free_for_def oc_now_def demo_call_def)

end
