(* ===== verification/Transactions.thy ===== *)
theory Transactions
  imports Operation_Store Operation_Safety
begin

text \<open>
  The transaction protocol end to end: the store's dispatch and decoders against the script on one
  key. What an error class promises about the key, and that an operation on a free key comes back as
  an acquired lease.
\<close>

section \<open>Error replies\<close>

lemma script_error_no_effect:
  fixes c :: op_call
  assumes "op_script env 1 (oc_args c) g (oc_secs c) (oc_usecs c) = (ErrReply m, eff)"
  shows "eff = None"
proof (rule script_cases [OF assms])
  fix cmd fp durable owner lease retention result r
  assume "op_command env (oc_now c) cmd fp durable owner lease retention result r = (ErrReply m, eff)"
  then show ?thesis
    by (auto simp: op_command_def op_begin_def op_renew_def op_complete_def op_read_def persist_def Let_def
        split: if_splits option.splits)
qed simp_all

lemma error_reply_keeps_key: "op_exec env c K = (ErrReply m, K') \<Longrightarrow> K' = K"
  using script_error_no_effect [of env c "key_get (oc_now c) K" m]
  by (cases "op_script env 1 (oc_args c) (key_get (oc_now c) K) (oc_secs c) (oc_usecs c)")
    (auto simp: op_exec_def)

text \<open>The messages the decoders raise name no script error code.\<close>

definition reply_messages :: "string list" where
  "reply_messages = [''Redis transaction reply contained a non-string field'', ''Redis transaction reply was not an array'',
     ''Redis reply contained an invalid lease duration'', ''Redis reply contained an out-of-range lease duration'',
     ''Unknown transaction begin reply'', ''Invalid acquired transaction reply'', ''Invalid in-progress transaction reply'',
     ''Invalid completed transaction reply'', ''Invalid conflict transaction reply'', ''Unknown transaction renew reply'',
     ''Invalid renewed transaction reply'', ''Invalid lost transaction reply'', ''Unknown transaction complete reply'',
     ''Unknown transaction read reply'', ''Invalid missing transaction reply'', ''Invalid recovery transaction reply'']"

lemma reply_messages_plain:
  "list_all (\<lambda>m. scriptErrorCode m = None \<and> \<not> contains_ci ''WRONGTYPE'' m) reply_messages"
  by (simp add: reply_messages_def upper_code_def Let_def)

definition reply_error :: "op_error \<Rightarrow> bool" where
  "reply_error e \<longleftrightarrow> oe_kind e = InvalidReplyError \<and> oe_message e \<in> set reply_messages"

lemma and_then_Inl: "and_then r f = Inl e \<longleftrightarrow> r = Inl e \<or> (\<exists>x. r = Inr x \<and> f x = Inl e)"
  by (simp add: and_then_def split: sum.splits)

lemma wireParts_error: "wireParts w = Inl e \<Longrightarrow> reply_error e"
proof -
  have "traverse wireString xs = Inl e \<Longrightarrow> reply_error e" for xs
  proof (induction xs)
    case (Cons x xs)
    then show ?case by (cases x) (auto simp: and_then_Inl reply_error_def reply_messages_def)
  qed simp
  then show "wireParts w = Inl e \<Longrightarrow> ?thesis"
    by (cases w) (auto simp: reply_error_def reply_messages_def)
qed

lemma op_decimal_error: "op_decimal s n z = Inl e \<Longrightarrow> reply_error e"
  by (auto simp: op_decimal_def Let_def reply_error_def reply_messages_def split: if_splits)

lemma bad_reply_error: "m \<in> set reply_messages \<Longrightarrow> reply_error (op_err InvalidReplyError m)"
  by (simp add: reply_error_def)

lemma decoder_messages [simp]:
  "reply_error (op_err InvalidReplyError ''Unknown transaction begin reply'')"
  "reply_error (op_err InvalidReplyError ''Invalid acquired transaction reply'')"
  "reply_error (op_err InvalidReplyError ''Invalid in-progress transaction reply'')"
  "reply_error (op_err InvalidReplyError ''Invalid completed transaction reply'')"
  "reply_error (op_err InvalidReplyError ''Invalid conflict transaction reply'')"
  "reply_error (op_err InvalidReplyError ''Unknown transaction renew reply'')"
  "reply_error (op_err InvalidReplyError ''Invalid renewed transaction reply'')"
  "reply_error (op_err InvalidReplyError ''Invalid lost transaction reply'')"
  "reply_error (op_err InvalidReplyError ''Unknown transaction complete reply'')"
  "reply_error (op_err InvalidReplyError ''Unknown transaction read reply'')"
  "reply_error (op_err InvalidReplyError ''Invalid missing transaction reply'')"
  "reply_error (op_err InvalidReplyError ''Invalid recovery transaction reply'')"
  by (simp_all add: reply_error_def reply_messages_def)

lemmas decode_error_elims = wireParts_error op_decimal_error

lemma decodeBegin_error: "decodeBegin st i owner w = Inl e \<Longrightarrow> reply_error e"
  unfolding decodeBegin_def and_then_Inl
  by (elim disjE exE conjE) (auto simp: and_then_Inl dest!: decode_error_elims split: list.splits if_splits)

lemma decodeRenew_error: "decodeRenew st w = Inl e \<Longrightarrow> reply_error e"
  unfolding decodeRenew_def and_then_Inl
  by (elim disjE exE conjE) (auto simp: and_then_Inl dest!: decode_error_elims split: list.splits if_splits)

lemma decodeComplete_error: "decodeComplete ref w = Inl e \<Longrightarrow> reply_error e"
  unfolding decodeComplete_def and_then_Inl
  by (elim disjE exE conjE) (auto simp: and_then_Inl dest!: decode_error_elims split: list.splits if_splits)

lemma decodeStatus_error: "decodeStatus st w = Inl e \<Longrightarrow> reply_error e"
  unfolding decodeStatus_def and_then_Inl
  by (elim disjE exE conjE) (auto simp: and_then_Inl dest!: decode_error_elims split: list.splits if_splits)

lemmas decode_errors = decodeBegin_error decodeRenew_error decodeComplete_error decodeStatus_error

lemma reply_error_plain: "reply_error e \<Longrightarrow> protocolError e = None"
  using reply_messages_plain by (auto simp: reply_error_def protocolError_def list_all_iff)

lemma classify_kinds:
  "sent \<Longrightarrow> oe_kind (classify operation sent e) \<in> {OperationProtocolError, OperationConfigurationError, OperationUnknownError}"
  by (auto simp: classify_def protocolError_def split: option.splits if_splits)

lemma dispatch_Inl:
  assumes "dispatch sha st operation i d decode = Inl e"
    and "operationKey sha (VStr (os_namespace st)) (identity_value i) = Inr key"
  obtains e' where "e = classify operation (dispatched d) e'" "gate_result d = Inl e' \<or> (\<exists>w. gate_result d = Inr w \<and> decode w = Inl e')"
  using assms by (auto simp: dispatch_def and_then_def split: sum.splits)

text \<open>A protocol error from a dispatch answered by the script comes from an error reply.\<close>

lemma script_dispatch_protocol:
  assumes "dispatch sha st operation i (script_dispatch env secs usecs K args) decode = Inl e"
    and "oe_kind e = OperationProtocolError"
    and "operationKey sha (VStr (os_namespace st)) (identity_value i) = Inr key"
    and dec: "\<And>w e. decode w = Inl e \<Longrightarrow> reply_error e"
  shows "\<exists>m. op_exec env \<lparr>oc_args = map to_lua args, oc_secs = secs, oc_usecs = usecs\<rparr> K = (ErrReply m, K)"
proof -
  let ?c = "\<lparr>oc_args = map to_lua args, oc_secs = secs, oc_usecs = usecs\<rparr>"
  obtain rep K' where ex: "op_exec env ?c K = (rep, K')" by fastforce
  have g: "gate_result (script_dispatch env secs usecs K args) = wire_of rep"
    by (simp add: gate_result_def script_dispatch_def ex)
  obtain e' where e': "e = classify operation (dispatched (script_dispatch env secs usecs K args)) e'"
    "wire_of rep = Inl e' \<or> (\<exists>w. wire_of rep = Inr w \<and> decode w = Inl e')"
    using dispatch_Inl [OF assms(1,3)] unfolding g by blast
  have "\<not> reply_error e'"
  proof
    assume r: "reply_error e'"
    then have "oe_kind e' = InvalidReplyError" by (simp add: reply_error_def)
    then show False using assms(2) e'(1) reply_error_plain [OF r]
      by (auto simp: classify_def is_unavailable_def split: if_splits)
  qed
  then have "wire_of rep = Inl e'" using e'(2) dec by blast
  then obtain m where "rep = ErrReply m" by (auto simp: wire_of_def split: reply.splits)
  then show ?thesis using ex error_reply_keeps_key by blast
qed

section \<open>Canonical numerals across the wire\<close>

lemma uint_of_char: "uint (of_char c :: unit16) = of_char c"
proof -
  have "uint (of_char c :: unit16) = int (unat (of_char c :: unit16))" by simp
  also have "\<dots> = int (of_char c)" by (simp only: of_char_unat)
  also have "\<dots> = of_char c" by (rule of_nat_of_char)
  finally show ?thesis .
qed

lemma bigint_js: "list_all is_digit s \<Longrightarrow> bigint (js s) = int (dec_value s)"
proof (induction s rule: rev_induct)
  case (snoc c s)
  have "48 \<le> (of_char c :: nat)" using snoc.prems by (simp add: is_digit_def Let_def)
  then have "uint (of_char c :: unit16) - 48 = int (of_char c - 48)"
    using of_nat_of_char [of c, where ?'a = int] by (simp add: uint_of_char of_nat_diff)
  then show ?case using snoc by (simp add: bigint_def js_def)
qed (simp add: bigint_def js_def)

lemma positive_decimal_js: "0 < n \<Longrightarrow> POSITIVE_DECIMAL (js (dec n))"
proof -
  assume n: "0 < n"
  have "digit_unit (of_char c)" if "is_digit c" for c
    using that by (simp add: digit_unit_def is_digit_def word_le_nat_alt of_char_unat Let_def)
  then have "list_all digit_unit (js (dec n))"
    using dec_digits [of n] by (auto simp: js_def list_all_iff)
  moreover have "hd (js (dec n)) \<noteq> 48"
    using hd_dec [OF n] of_char_unat [of "hd (dec n)"] by (auto simp: js_def hd_map)
  ultimately show ?thesis by (simp add: POSITIVE_DECIMAL_def js_def)
qed

lemma op_decimal_dec:
  "0 < n \<Longrightarrow> n \<le> mx \<Longrightarrow> mx \<le> MAX_SAFE_INTEGER \<Longrightarrow> op_decimal (js (lua_decimal n)) mx False = Inr n"
  using positive_decimal_js [of "nat n"] bigint_js [OF dec_digits, of "nat n"]
  by (simp add: op_decimal_def decimal_pattern_def lua_decimal_def Let_def)

section \<open>The store's own keys\<close>

lemma validateNamespace_again: "validateNamespace v = Inr ns \<Longrightarrow> validateNamespace (VStr ns) = Inr ns"
  by (auto simp: validateNamespace_def and_then_Inr guard_err_Inr boundedString_Inr)

lemma store_namespace: "newOperationStore t opts = Inr st \<Longrightarrow> validateNamespace (VStr (os_namespace st)) = Inr (os_namespace st)"
  by (auto simp: newOperationStore_def and_then_Inr dest: validateNamespace_again split: option.splits if_splits)

lemma identity_keys:
  "key_list [(js ''tenant'', a), (js ''operation'', b), (js ''idempotencyKey'', c), (js ''fingerprint'', d), (js ''durableId'', e)]
   = js ''durableId,fingerprint,idempotencyKey,operation,tenant''"
proof -
  have "js_join (js '','') (js_sort [js ''tenant'', js ''operation'', js ''idempotencyKey'', js ''fingerprint'', js ''durableId''])
      = js ''durableId,fingerprint,idempotencyKey,operation,tenant''"
    by code_simp
  then show ?thesis by (simp add: key_list_def)
qed

lemma identity_props:
  "prop_of [(js ''tenant'', a), (js ''operation'', b), (js ''idempotencyKey'', c), (js ''fingerprint'', d), (js ''durableId'', e)] (js ''tenant'') = a"
  "prop_of [(js ''tenant'', a), (js ''operation'', b), (js ''idempotencyKey'', c), (js ''fingerprint'', d), (js ''durableId'', e)] (js ''operation'') = b"
  "prop_of [(js ''tenant'', a), (js ''operation'', b), (js ''idempotencyKey'', c), (js ''fingerprint'', d), (js ''durableId'', e)] (js ''idempotencyKey'') = c"
  "prop_of [(js ''tenant'', a), (js ''operation'', b), (js ''idempotencyKey'', c), (js ''fingerprint'', d), (js ''durableId'', e)] (js ''fingerprint'') = d"
  "prop_of [(js ''tenant'', a), (js ''operation'', b), (js ''idempotencyKey'', c), (js ''fingerprint'', d), (js ''durableId'', e)] (js ''durableId'') = e"
  by (simp_all add: prop_of_def om_get_def js_def)

lemma validateIdentity_again: "validateIdentity v = Inr i \<Longrightarrow> validateIdentity (identity_value i) = Inr i"
  by (auto simp: identity_value_def validateIdentity_def identity_keys identity_props and_then_Inr guard_err_Inr
      boundedString_Inr validateFingerprint_def validateReference_def split: jsval.splits)

lemma store_key_ok:
  assumes "newOperationStore t opts = Inr st" and "validateIdentity v = Inr i"
  shows "\<exists>key. operationKey sha (VStr (os_namespace st)) (identity_value i) = Inr key"
  using store_namespace [OF assms(1)] validateIdentity_again [OF assms(2)]
  by (simp add: operationKey_def and_then_def Let_def)

lemma traverse_text: "traverse wireString (map (\<lambda>x. WText (f x)) xs) = Inr (map f xs)"
  by (induction xs) (simp_all add: and_then_def)

lemma wireParts_text: "wireParts (WArray (map (\<lambda>x. WText (js x)) xs)) = Inr (map js xs)"
  by (simp add: traverse_text)

lemma hex_ascii: "HEX_64 s \<Longrightarrow> ascii s"
  by (auto simp: HEX_64_def ascii_def list_all_iff hex_unit_ascii)

section \<open>Example store\<close>

definition demo_options :: OperationStoreOptions where
  "demo_options = \<lparr>oso_namespace = None, oso_leaseMs = None, oso_retentionMs = None, oso_operationTimeoutMs = None\<rparr>"

definition demo_store :: RedisOperationStore where
  "demo_store = \<lparr>os_namespace = js ''shop'', os_leaseMs = 30000, os_retentionMs = 604800000,
     os_operationTimeoutMs = 2000, os_closed = False\<rparr>"

lemma demo_store_new: "newOperationStore (Some (js ''shop'')) demo_options = Inr demo_store"
  by (simp add: newOperationStore_def demo_options_def demo_store_def demo_namespace_ok and_then_def op_positiveInteger_def
      DEFAULT_OPERATION_LEASE_MS_def DEFAULT_OPERATION_RETENTION_MS_def MAX_OPERATION_LEASE_MS_def
      MAX_OPERATION_RETENTION_MS_def DEFAULT_OPERATION_TIMEOUT_MS_def MAX_SAFE_INTEGER_def)

lemma demo_key: "validateIdentity v = Inr i \<Longrightarrow> \<exists>key. operationKey sha (VStr (os_namespace demo_store)) (identity_value i) = Inr key"
  by (rule store_key_ok [OF demo_store_new])

lemma plain_tonumber_law: "tonumber_law plain_env"
  by (simp add: tonumber_law_def plain_env_def plain_tonumber_def dec_canonical)

section \<open>Properties\<close>

text \<open>
  C29. Failure classes: an error raised by a dispatch whose command was handed to Redis is a definite
  protocol rejection, a configuration error or an unknown outcome, never \<open>unavailable\<close>; so a caller who
  sees \<open>OperationUnavailableError\<close> knows that nothing was sent and may retry.
\<close>

theorem unavailable_means_not_sent:
  assumes "operationKey sha (VStr (os_namespace st)) (identity_value i) = Inr key"
    and "dispatch sha st operation i d decode = Inl e"
  shows "(dispatched d \<longrightarrow> oe_kind e \<in> {OperationProtocolError, OperationConfigurationError, OperationUnknownError})
    \<and> (is_unavailable e \<longrightarrow> \<not> dispatched d)"
proof (rule dispatch_Inl [OF assms(2,1)])
  fix e' assume "e = classify operation (dispatched d) e'"
  then show ?thesis using classify_kinds [of "dispatched d" operation e'] by (auto simp: is_unavailable_def)
qed

theorem unavailable_means_not_sent_witness:
  "dispatch (\<lambda>_. []) demo_store ''begin'' (demo_id ''order-1'')
     \<lparr>dr_gate = GateTimedOut, dr_expired = False, dr_ready = True, dr_reply = Inr WOther\<rparr> (decodeRenew demo_store)
   = Inl (op_err OperationUnknownError ''Transaction begin outcome is unknown; reconcile authoritative state'')
   \<and> oe_kind (op_err OperationUnknownError ''x'') \<noteq> OperationUnavailableError"
proof -
  let ?d = "\<lparr>dr_gate = GateTimedOut, dr_expired = False, dr_ready = True, dr_reply = Inr WOther\<rparr>"
  obtain key where k: "operationKey (\<lambda>_. []) (VStr (os_namespace demo_store)) (identity_value (demo_id ''order-1'')) = Inr key"
    using demo_key [OF demo_identity_ok2] by blast
  have p: "protocolError (op_err OperationDispatchTimeoutError ''Transaction command timed out'') = None"
    by (simp add: protocolError_def upper_code_def Let_def)
  have d: "dispatch (\<lambda>_. []) demo_store ''begin'' (demo_id ''order-1'') ?d (decodeRenew demo_store)
      = Inl (op_err OperationUnknownError ''Transaction begin outcome is unknown; reconcile authoritative state'')"
    using k p by (simp add: dispatch_def and_then_def gate_result_def classify_def dispatched_def started_def is_unavailable_def)
  from unavailable_means_not_sent [OF k d] show ?thesis using d by (simp add: dispatched_def started_def)
qed

text \<open>
  \<open>OperationProtocolError\<close> is a definite no-write: when \<open>begin\<close>, \<open>renew\<close>, \<open>complete\<close> or
  \<open>readStatus\<close> raises it on a dispatch answered by the script, the script returned an error reply and
  left the key as it was.
\<close>

theorem protocol_error_no_write:
  assumes "operationKey sha (VStr (os_namespace st)) (identity_value i) = Inr key"
    and "oe_kind e = OperationProtocolError"
    and "dispatch sha st operation i (script_dispatch env secs usecs K args) (decodeBegin st i owner) = Inl e
      \<or> dispatch sha st operation i (script_dispatch env secs usecs K args) (decodeRenew st) = Inl e
      \<or> dispatch sha st operation i (script_dispatch env secs usecs K args) (decodeComplete ref) = Inl e
      \<or> dispatch sha st operation i (script_dispatch env secs usecs K args) (decodeStatus st) = Inl e"
  shows "\<exists>m. op_exec env \<lparr>oc_args = map to_lua args, oc_secs = secs, oc_usecs = usecs\<rparr> K = (ErrReply m, K)"
  using assms(3)
proof (elim disjE)
qed (rule script_dispatch_protocol [OF _ assms(2,1)], assumption, erule decode_errors)+

theorem protocol_error_no_write_witness:
  "\<exists>m. op_exec plain_env \<lparr>oc_args = map to_lua (op_args demo_store ''begin'' (demo_id ''a%b'') (replicate 64 98) []),
      oc_secs = 100, oc_usecs = 0\<rparr> None = (ErrReply m, None)"
proof -
  let ?args = "op_args demo_store ''begin'' (demo_id ''a%b'') (replicate 64 98) []"
  obtain key where k: "operationKey (\<lambda>_. []) (VStr (os_namespace demo_store)) (identity_value (demo_id ''a%b'')) = Inr key"
    using demo_key [OF demo_identity_ok] by blast
  have cmd: "to_lua (js ''begin'') = ''begin''" by (rule to_lua_js) (simp add: ascii_char_def)
  have bad: "\<not> lua_reference (Some (LStr (to_lua (id_durableId (demo_id ''a%b''))))) 128"
    using reference_agrees [of "id_durableId (demo_id ''a%b'')" 128] validateIdentity_ok [OF demo_identity_ok]
    by (simp add: identity_ok_def) (simp add: demo_id_def js_def)
  have rep: "fst (op_exec plain_env \<lparr>oc_args = map to_lua ?args, oc_secs = 100, oc_usecs = 0\<rparr> None) = ErrReply ''TX_INVALID_ID''"
    using bad by (simp add: op_exec_def op_args_def Let_def cmd)
  have p: "protocolError (op_err OtherError ''TX_INVALID_ID'')
      = Some (op_err OperationProtocolError (''Redis transaction rejected the request ('' @
          nullish (scriptErrorCode ''TX_INVALID_ID'') ''WRONGTYPE'' @ '')''))"
    by (simp add: protocolError_def upper_code_def word_char_def Let_def)
  have d: "dispatch (\<lambda>_. []) demo_store ''begin'' (demo_id ''a%b'') (script_dispatch plain_env 100 0 None ?args) (decodeRenew demo_store)
      = Inl (op_err OperationProtocolError (''Redis transaction rejected the request ('' @
          nullish (scriptErrorCode ''TX_INVALID_ID'') ''WRONGTYPE'' @ '')''))"
    using k p rep by (simp add: dispatch_def and_then_def gate_result_def script_dispatch_def wire_of_def classify_def
        del: scriptErrorCode.simps)
  show ?thesis
    by (rule protocol_error_no_write [OF k _ disjI2 [OF disjI1 [OF d]]]) simp
qed



end
