(* ===== verification/Redis_Transport.thy ===== *)
theory Redis_Transport
  imports Operation_Store
begin

text \<open>
  The primary-only Redis adapter of the transaction protocol (\<open>transactions/redisTransport.ts\<close>): the
  checks on an injected client and the execution of the script, which falls back to \<open>EVAL\<close> only after
  Redis said it does not know the script; and the client-side lease controller
  (\<open>maintainOperationLease\<close> of \<open>transactions/operationStore.ts\<close>) as a machine driven by its timers.
\<close>

section \<open>Client checks\<close>

text \<open>Missing and \<open>null\<close> options are both \<open>None\<close>: the checks treat them alike.\<close>

record client_options =
  co_enableOfflineQueue :: "bool option"
  co_autoResendUnfulfilledCommands :: "bool option"
  co_maxRetriesPerRequest :: "jsnum option"
  co_keyPrefix :: string
  co_readOnly :: "bool option"
  co_role :: "string option"

record RedisOperationClient =
  rc_evalsha :: bool
  rc_eval :: bool
  rc_defineCommand :: bool
  rc_role :: "string option"
  rc_isReplica :: "bool option"
  rc_readOnly :: "bool option"
  rc_isCluster :: "bool option"
  rc_options :: "client_options option"

record RedisOperationTransportOptions =
  to_route :: "string option"
  to_clusterValidated :: "bool option"
  to_allowUnknownClientOptions :: "bool option"

abbreviation config_error :: "string \<Rightarrow> op_error + 'a" where
  "config_error m \<equiv> Inl (op_err OperationConfigurationError m)"

definition asClient :: "RedisOperationClient option \<Rightarrow> op_error + RedisOperationClient" where
  "asClient value = (case value of
     None \<Rightarrow> config_error ''An explicit Redis primary client is required''
   | Some c \<Rightarrow> if \<not> rc_evalsha c \<and> \<not> rc_eval c \<and> \<not> rc_defineCommand c
              then config_error ''Redis client cannot execute transaction scripts'' else Inr c)"

definition not_primary :: "string option \<Rightarrow> bool" where
  "not_primary role \<longleftrightarrow> role \<noteq> None \<and> role \<noteq> Some ''primary'' \<and> role \<noteq> Some ''master''"

definition assertPrimary :: "RedisOperationClient \<Rightarrow> RedisOperationTransportOptions \<Rightarrow> op_error + unit" where
  "assertPrimary client options =
     (if to_route options \<noteq> None \<and> to_route options \<noteq> Some ''primary''
      then config_error ''Transaction coordination accepts primary routing only''
      else if not_primary (rc_role client)
      then config_error ''Transaction coordination client is not a Redis primary''
      else if rc_isReplica client = Some True \<or> rc_readOnly client = Some True
      then config_error ''Transaction coordination cannot use a Redis replica''
      else if (case rc_options client of None \<Rightarrow> False | Some o1 \<Rightarrow> not_primary (co_role o1))
      then config_error ''Transaction coordination client options select a non-primary route''
      else if (case rc_options client of None \<Rightarrow> False | Some o1 \<Rightarrow> co_readOnly o1 = Some True)
      then config_error ''Transaction coordination client is configured read-only''
      else if (case rc_options client of None \<Rightarrow> False | Some o1 \<Rightarrow> co_keyPrefix o1 \<noteq> [])
      then config_error ''Configure no Redis keyPrefix; transaction keys carry their own namespace''
      else case (case rc_options client of
          None \<Rightarrow> if to_allowUnknownClientOptions options \<noteq> Some True
                  then config_error ''Redis client routing/retry options are not inspectable'' else Inr ()
        | Some o1 \<Rightarrow>
            if co_enableOfflineQueue o1 \<noteq> Some False
            then config_error ''Redis enableOfflineQueue must be explicitly false for transaction coordination''
            else if co_autoResendUnfulfilledCommands o1 \<noteq> Some False
            then config_error ''Redis autoResendUnfulfilledCommands must be explicitly false for transaction coordination''
            else if (case co_maxRetriesPerRequest o1 of None \<Rightarrow> True
                | Some n \<Rightarrow> \<not> isSafeInteger n \<or> jless n (JNum 0) \<or> jless (JNum 1) n)
            then config_error ''Redis maxRetriesPerRequest must be explicitly 0 or 1 for transaction coordination''
            else Inr ()) of
        Inl e \<Rightarrow> Inl e
      | Inr _ \<Rightarrow>
          if rc_isCluster client = Some True \<and> to_clusterValidated options \<noteq> Some True
          then config_error ''Redis Cluster routing requires explicit certification before transaction use''
          else Inr ())"

text \<open>
  Registering the script: \<open>registered\<close> are the names this client already has; the command is defined
  once, when the client offers \<open>defineCommand\<close>.
\<close>

definition validateCommandName :: "string \<Rightarrow> js_error + string" where
  "validateCommandName name =
     (if name \<noteq> [] \<and> word_char (hd name) \<and> \<not> is_digit (hd name) \<and> hd name \<noteq> CHR ''_'' \<and> list_all word_char (tl name)
      then Inr name else Inl (TypeError ''Redis transaction command name contains unsupported characters''))"

definition registerOperationScript :: "RedisOperationClient \<Rightarrow> string list \<Rightarrow> string \<Rightarrow> js_error + bool \<times> string list" where
  "registerOperationScript client registered commandName = (case validateCommandName commandName of
     Inl e \<Rightarrow> Inl e
   | Inr name \<Rightarrow> if name \<notin> set registered \<and> rc_defineCommand client
                 then Inr (True, name # registered) else Inr (False, registered))"

text \<open>
  The constructor; \<open>exposed\<close> tells whether the client has a function under the command's name once the
  script is registered.
\<close>

record RedisOperationTransport =
  rt_namespace :: jsstr
  rt_authorityId :: jsstr
  rt_commandName :: string

definition newRedisOperationTransport ::
  "RedisOperationClient option \<Rightarrow> RedisOperationTransportOptions \<Rightarrow> jsval \<Rightarrow> jsval \<Rightarrow> string option \<Rightarrow> string list \<Rightarrow> bool
    \<Rightarrow> op_error + RedisOperationTransport \<times> string list" where
  "newRedisOperationTransport client options namespace authorityId commandName registered exposed =
     and_then (asClient client) (\<lambda>c.
     and_then (validateNamespace namespace) (\<lambda>ns.
     and_then (validateReference ''authorityId'' authorityId MAX_NAMESPACE_BYTES) (\<lambda>authority.
     and_then (assertPrimary c options) (\<lambda>_.
     let name = nullish commandName ''lltx_operation_v1'' in
     case registerOperationScript c registered name of
       Inl (TypeError m) \<Rightarrow> Inl (op_err OtherError m)
     | Inl _ \<Rightarrow> Inl (op_err OtherError [])
     | Inr (_, names) \<Rightarrow>
         if \<not> rc_evalsha c \<and> \<not> rc_eval c \<and> \<not> exposed
         then config_error ''Redis client did not expose a registered transaction command''
         else Inr (\<lparr>rt_namespace = ns, rt_authorityId = authority, rt_commandName = name\<rparr>, names)))))"

section \<open>Execution\<close>

text \<open>
  A script method of the client acts on the server state \<open>'w\<close>. The transport has the registered
  command, \<open>EVALSHA\<close> and \<open>EVAL\<close>, each possibly absent.
\<close>

type_synonym 'w script_method = "jsstr \<Rightarrow> jsstr list \<Rightarrow> 'w \<Rightarrow> (op_error + wire) \<times> 'w"

record 'w transport =
  t_closed :: bool
  t_status :: "string option"
  t_command :: "'w script_method option"
  t_evalsha :: "'w script_method option"
  t_eval :: "'w script_method option"

definition canDispatch :: "'w transport \<Rightarrow> bool" where
  "canDispatch t \<longleftrightarrow> \<not> t_closed t \<and> (t_status t = None \<or> t_status t = Some ''ready'')"

definition assertDispatchable :: "'w transport \<Rightarrow> op_error + unit" where
  "assertDispatchable t =
     (if t_closed t then Inl (op_err OperationUnavailableError ''Transaction Redis transport is closed'')
      else if \<not> canDispatch t then Inl (op_err OperationUnavailableError ''Transaction Redis primary is not ready'')
      else Inr ())"

definition execute :: "'w transport \<Rightarrow> jsstr \<Rightarrow> jsstr list \<Rightarrow> 'w \<Rightarrow> (op_error + wire) \<times> 'w" where
  "execute t key args w = (case assertDispatchable t of
     Inl e \<Rightarrow> (Inl e, w)
   | Inr _ \<Rightarrow>
       let first = (case t_command t of
           Some command \<Rightarrow> command key args w
         | None \<Rightarrow> (case t_evalsha t of
             Some evalsha \<Rightarrow> evalsha key args w
           | None \<Rightarrow> (case t_eval t of
               Some ev \<Rightarrow> ev key args w
             | None \<Rightarrow> (config_error ''Redis client cannot execute transaction scripts'', w)))) in
       case fst first of
         Inr reply \<Rightarrow> first
       | Inl e \<Rightarrow> (case t_eval t of
           Some ev \<Rightarrow> if scriptIsNoScript (oe_message e) then ev key args (snd first) else first
         | None \<Rightarrow> first))"

text \<open>
  What Redis documents: \<open>EVAL\<close> runs the script; the other two run it, or answer \<open>NOSCRIPT\<close> without
  having run anything; the script's own replies and errors never say \<open>NOSCRIPT\<close>.
\<close>

definition runs_script :: "'w script_method \<Rightarrow> 'w script_method \<Rightarrow> bool" where
  "runs_script run f \<longleftrightarrow> (\<forall>key args w. f key args w = run key args w
     \<or> (\<exists>e. f key args w = (Inl e, w) \<and> scriptIsNoScript (oe_message e)))"

definition script_errors_plain :: "'w script_method \<Rightarrow> bool" where
  "script_errors_plain run \<longleftrightarrow> (\<forall>key args w e. fst (run key args w) = Inl e \<longrightarrow> \<not> scriptIsNoScript (oe_message e))"

lemma runs_scriptD:
  "runs_script run f \<Longrightarrow> f key args w = run key args w \<or> (\<exists>e. f key args w = (Inl e, w) \<and> scriptIsNoScript (oe_message e))"
  by (simp add: runs_script_def)

text \<open>
  A dispatchable transport that has \<open>EVAL\<close> and whichever other methods executes the script
  exactly once per call: a cached-script miss is recovered by one \<open>EVAL\<close>, and no other failure is
  retried.
\<close>

theorem execute_runs_once:
  assumes "canDispatch t" and "t_eval t = Some run" and "script_errors_plain run"
    and "\<And>f. t_command t = Some f \<or> t_evalsha t = Some f \<Longrightarrow> runs_script run f"
  shows "execute t key args w = run key args w"
proof -
  have ok: "assertDispatchable t = Inr ()" using assms(1) by (simp add: assertDispatchable_def canDispatch_def)
  have retry: "(case fst r of Inr reply \<Rightarrow> r
      | Inl e \<Rightarrow> if scriptIsNoScript (oe_message e) then run key args (snd r) else r) = run key args w"
    if "r = run key args w \<or> (\<exists>e. r = (Inl e, w) \<and> scriptIsNoScript (oe_message e))" for r
    using that assms(3) by (auto simp: script_errors_plain_def split: sum.splits)
  have "(case t_command t of Some command \<Rightarrow> command key args w
         | None \<Rightarrow> (case t_evalsha t of Some evalsha \<Rightarrow> evalsha key args w | None \<Rightarrow> run key args w)) = run key args w
      \<or> (\<exists>e. (case t_command t of Some command \<Rightarrow> command key args w
         | None \<Rightarrow> (case t_evalsha t of Some evalsha \<Rightarrow> evalsha key args w | None \<Rightarrow> run key args w)) = (Inl e, w)
           \<and> scriptIsNoScript (oe_message e))"
    using assms(4) runs_scriptD by (fastforce split: option.splits)
  from retry [OF this] show ?thesis
    by (simp add: execute_def ok assms(2) Let_def cong: option.case_cong sum.case_cong)
qed

theorem execute_runs_once_witness:
  "execute \<lparr>t_closed = False, t_status = Some ''ready'',
      t_command = Some (\<lambda>key args w. (Inl (op_err OtherError ''NOSCRIPT No matching script''), w)),
      t_evalsha = None, t_eval = Some (\<lambda>key args (w :: nat). (Inr (WArray []), w + 1))\<rparr> [] [] 0
   = (Inr (WArray []), 1)"
proof -
  let ?run = "\<lambda>key args (w :: nat). (Inr (WArray []), w + 1) :: (op_error + wire) \<times> nat"
  let ?t = "\<lparr>t_closed = False, t_status = Some ''ready'',
      t_command = Some (\<lambda>key args w. (Inl (op_err OtherError ''NOSCRIPT No matching script''), w)),
      t_evalsha = None, t_eval = Some ?run\<rparr>"
  have n: "scriptIsNoScript ''NOSCRIPT No matching script''"
    by (simp add: scriptIsNoScript_def upper_code_def word_char_def Let_def)
  have "execute ?t [] [] 0 = ?run [] [] 0"
    by (rule execute_runs_once) (auto simp: canDispatch_def script_errors_plain_def runs_script_def n)
  then show ?thesis by simp
qed

section \<open>The lease controller\<close>

text \<open>
  The state of \<open>maintainOperationLease\<close>: the deadline on the local monotonic clock, whether it is
  stopped or lost, when its two timers fire, and when the renewal in flight was requested.
\<close>

record lease_controller =
  lc_deadline :: real
  lc_stopped :: bool
  lc_lost :: bool
  lc_expiryTimer :: "real option"
  lc_renewalTimer :: "real option"
  lc_request :: "real option"

definition lc_stop :: "lease_controller \<Rightarrow> lease_controller" where
  "lc_stop c = c\<lparr>lc_stopped := True, lc_renewalTimer := None, lc_expiryTimer := None\<rparr>"

definition lc_lose :: "lease_controller \<Rightarrow> lease_controller" where
  "lc_lose c = (if lc_stopped c \<or> lc_lost c then c else lc_stop (c\<lparr>lc_lost := True\<rparr>))"

text \<open>\<open>assertLive\<close> returns whether it did not throw.\<close>

definition lc_assertLive :: "real \<Rightarrow> lease_controller \<Rightarrow> bool \<times> lease_controller" where
  "lc_assertLive now c = (let c1 = (if \<not> lc_stopped c \<and> lc_deadline c \<le> now then lc_lose c else c) in
     (\<not> lc_lost c1, c1))"

definition lc_schedule :: "real \<Rightarrow> lease_controller \<Rightarrow> lease_controller" where
  "lc_schedule now c =
     (if lc_stopped c then c
      else let remaining = lc_deadline c - now in
        if remaining \<le> 0 then lc_lose c
        else c\<lparr>lc_expiryTimer := Some (now + max 1 remaining),
               lc_renewalTimer := Some (now + max 1 (min (remaining / 3) remaining))\<rparr>)"

definition maintainOperationLease :: "real \<Rightarrow> real \<Rightarrow> real \<Rightarrow> lease_controller" where
  "maintainOperationLease startedAt remainingMs now =
     (let c = \<lparr>lc_deadline = startedAt + max 0 remainingMs, lc_stopped = False, lc_lost = False,
               lc_expiryTimer = None, lc_renewalTimer = None, lc_request = None\<rparr> in
      if lc_deadline c \<le> now then lc_lose c else lc_schedule now c)"

text \<open>The renewal timer fires: the request starts unless the lease is found lost.\<close>

definition lc_renew :: "real \<Rightarrow> lease_controller \<Rightarrow> lease_controller" where
  "lc_renew now c = (let c1 = c\<lparr>lc_renewalTimer := None\<rparr>; r = lc_assertLive now c1 in
     if fst r then (snd r)\<lparr>lc_request := Some now\<rparr> else lc_lose (snd r))"

text \<open>The answer to the renewal requested at \<open>requestStartedAt\<close>; a failure or a throw is \<open>None\<close>.\<close>

definition lc_answer :: "real \<Rightarrow> real \<Rightarrow> real option \<Rightarrow> lease_controller \<Rightarrow> lease_controller" where
  "lc_answer requestStartedAt responseAt renewed c =
     (let c0 = c\<lparr>lc_request := None\<rparr> in
      if lc_stopped c0 then c0
      else case renewed of
        None \<Rightarrow> lc_lose c0
      | Some remainingMs \<Rightarrow>
          if lc_deadline c0 \<le> responseAt then lc_lose c0
          else let c1 = c0\<lparr>lc_deadline := requestStartedAt + remainingMs\<rparr> in
            if lc_deadline c1 \<le> responseAt then lc_lose c1
            else lc_schedule responseAt (c1\<lparr>lc_expiryTimer := None\<rparr>))"

text \<open>
  The controller together with the server: \<open>lw_until\<close> is when the lease lapses at Redis, on the local
  clock, and \<open>lw_served\<close> whether Redis has executed the renewal in flight. Every lease has duration \<open>L\<close>.
\<close>

record lease_world =
  lw_ctl :: lease_controller
  lw_until :: real
  lw_clock :: real
  lw_served :: bool

inductive lease_reach :: "real \<Rightarrow> lease_world \<Rightarrow> bool" for L where
  acquired: "startedAt \<le> granted \<Longrightarrow> granted \<le> now \<Longrightarrow> 0 \<le> n \<Longrightarrow> n \<le> L \<Longrightarrow>
    lease_reach L \<lparr>lw_ctl = maintainOperationLease startedAt n now, lw_until = granted + n, lw_clock = now, lw_served = False\<rparr>"
| expiry: "lease_reach L w \<Longrightarrow> lw_clock w \<le> now \<Longrightarrow>
    lease_reach L (w\<lparr>lw_ctl := lc_lose (lw_ctl w), lw_clock := now\<rparr>)"
| renewal: "lease_reach L w \<Longrightarrow> lw_clock w \<le> now \<Longrightarrow> lc_renewalTimer (lw_ctl w) \<noteq> None \<Longrightarrow>
    lease_reach L (w\<lparr>lw_ctl := lc_renew now (lw_ctl w), lw_clock := now, lw_served := False\<rparr>)"
| server: "lease_reach L w \<Longrightarrow> lw_clock w \<le> now \<Longrightarrow> lc_request (lw_ctl w) \<noteq> None \<Longrightarrow>
    lease_reach L (w\<lparr>lw_until := now + L, lw_clock := now, lw_served := True\<rparr>)"
| answer: "lease_reach L w \<Longrightarrow> lw_clock w \<le> now \<Longrightarrow> lc_request (lw_ctl w) = Some r \<Longrightarrow> lw_served w \<Longrightarrow>
    lease_reach L (w\<lparr>lw_ctl := lc_answer r now (Some L) (lw_ctl w), lw_clock := now\<rparr>)"
| failed: "lease_reach L w \<Longrightarrow> lw_clock w \<le> now \<Longrightarrow> lc_request (lw_ctl w) = Some r \<Longrightarrow>
    lease_reach L (w\<lparr>lw_ctl := lc_answer r now None (lw_ctl w), lw_clock := now\<rparr>)"
| check: "lease_reach L w \<Longrightarrow> lw_clock w \<le> now \<Longrightarrow>
    lease_reach L (w\<lparr>lw_ctl := snd (lc_assertLive now (lw_ctl w)), lw_clock := now\<rparr>)"
| stop: "lease_reach L w \<Longrightarrow> lease_reach L (w\<lparr>lw_ctl := lc_stop (lw_ctl w)\<rparr>)"

definition lease_inv :: "real \<Rightarrow> lease_world \<Rightarrow> bool" where
  "lease_inv L w \<longleftrightarrow> lc_deadline (lw_ctl w) \<le> lw_until w \<and> lc_deadline (lw_ctl w) \<le> lw_clock w + L
     \<and> (\<forall>r. lc_request (lw_ctl w) = Some r \<longrightarrow> r \<le> lw_clock w \<and> (lw_served w \<longrightarrow> r + L \<le> lw_until w))"

lemma lc_fields:
  "lc_deadline (lc_lose c) = lc_deadline c" "lc_request (lc_lose c) = lc_request c"
  "lc_deadline (lc_stop c) = lc_deadline c" "lc_request (lc_stop c) = lc_request c"
  "lc_deadline (lc_schedule now c) = lc_deadline c" "lc_request (lc_schedule now c) = lc_request c"
  "lc_deadline (snd (lc_assertLive now c)) = lc_deadline c" "lc_request (snd (lc_assertLive now c)) = lc_request c"
  by (simp_all add: lc_lose_def lc_stop_def lc_schedule_def lc_assertLive_def Let_def)

lemma lease_reach_inv: "lease_reach L w \<Longrightarrow> lease_inv L w"
proof (induction rule: lease_reach.induct)
  case (acquired startedAt granted now n)
  then show ?case by (simp add: lease_inv_def maintainOperationLease_def Let_def lc_fields)
next
  case (renewal w now)
  then show ?case by (auto simp: lease_inv_def lc_renew_def Let_def lc_fields)
next
  case (answer w now r)
  then show ?case by (auto simp: lease_inv_def lc_answer_def Let_def lc_fields)
next
  case (failed w now r)
  then show ?case by (auto simp: lease_inv_def lc_answer_def Let_def lc_fields)
qed (auto simp: lease_inv_def lc_fields)



end
