(* ===== verification/Load_Gates.thy ===== *)
theory Load_Gates
  imports Memory_Budget "HOL-Library.Sublist"
begin

text \<open>
  The three admission gates: \<open>OriginLoadGate\<close> (\<open>cache/originLoadGate.ts\<close>), \<open>L2OperationGate\<close>
  (\<open>cache/l2OperationGate.ts\<close>) and \<open>BoundedOperationGate\<close> (\<open>transactions/redisTransport.ts\<close>). Each is
  a state with one function per event: a call arriving, a running call settling, a queue timer or an
  abort removing a waiter, closing. The locale \<open>slot_gate\<close> states what they have in common and proves
  it for whole runs; each gate interprets it.
\<close>

section \<open>The contract\<close>

text \<open>
  \<open>step\<close> returns the new state and the callers whose work starts in that step; \<open>arrived\<close> names the
  callers an event brings in, \<open>ended\<close> how many running calls it settles. \<open>legal\<close> excludes settling a call
  that does not run.
\<close>

locale slot_gate =
  fixes step :: "'e \<Rightarrow> 's \<Rightarrow> 's \<times> nat list"
    and arrived :: "'e \<Rightarrow> nat list"
    and ended :: "'e \<Rightarrow> nat"
    and legal :: "'e \<Rightarrow> 's \<Rightarrow> bool"
    and waiting :: "'s \<Rightarrow> nat list"
    and running :: "'s \<Rightarrow> nat"
    and slots :: "'s \<Rightarrow> nat"
    and inv :: "'s \<Rightarrow> bool"
  assumes step_inv: "inv s \<Longrightarrow> legal e s \<Longrightarrow> inv (fst (step e s))"
    and step_slots: "slots (fst (step e s)) = slots s"
    and bounded_slots: "inv s \<Longrightarrow> running s \<le> slots s"
    and no_idle_slot: "inv s \<Longrightarrow> waiting s \<noteq> [] \<Longrightarrow> running s = slots s"
    and fifo: "inv s \<Longrightarrow> legal e s \<Longrightarrow> subseq (snd (step e s) @ waiting (fst (step e s))) (waiting s @ arrived e)"
    and count: "inv s \<Longrightarrow> legal e s \<Longrightarrow> running (fst (step e s)) + ended e = running s + length (snd (step e s))"
begin

fun run :: "'e list \<Rightarrow> 's \<Rightarrow> 's \<times> nat list" where
  "run [] s = (s, [])"
| "run (e # es) s = (let r = step e s; rs = run es (fst r) in (fst rs, snd r @ snd rs))"

fun legal_run :: "'e list \<Rightarrow> 's \<Rightarrow> bool" where
  "legal_run [] s = True"
| "legal_run (e # es) s = (legal e s \<and> legal_run es (fst (step e s)))"

lemma run_inv: "inv s \<Longrightarrow> legal_run es s \<Longrightarrow> inv (fst (run es s))"
  by (induction es arbitrary: s) (auto simp: Let_def step_inv)

lemma run_slots: "slots (fst (run es s)) = slots s"
  by (induction es arbitrary: s) (auto simp: Let_def step_slots)

lemma run_fifo:
  "inv s \<Longrightarrow> legal_run es s \<Longrightarrow>
    subseq (snd (run es s) @ waiting (fst (run es s))) (waiting s @ concat (map arrived es))"
proof (induction es arbitrary: s)
  case (Cons e es)
  let ?s = "fst (step e s)"
  have "subseq (snd (run es ?s) @ waiting (fst (run es ?s))) (waiting ?s @ concat (map arrived es))"
    using Cons step_inv by auto
  then have "subseq (snd (step e s) @ snd (run es ?s) @ waiting (fst (run es ?s)))
      ((snd (step e s) @ waiting ?s) @ concat (map arrived es))"
    by (simp add: list_emb_append_mono)
  moreover have "subseq ((snd (step e s) @ waiting ?s) @ concat (map arrived es))
      ((waiting s @ arrived e) @ concat (map arrived es))"
    by (rule list_emb_append_mono [OF fifo]) (use Cons.prems in auto)
  ultimately have "subseq (snd (step e s) @ snd (run es ?s) @ waiting (fst (run es ?s)))
      ((waiting s @ arrived e) @ concat (map arrived es))"
    by (rule subseq_order.trans)
  then show ?case by (simp add: Let_def)
qed simp

lemma run_count:
  "inv s \<Longrightarrow> legal_run es s \<Longrightarrow>
    running (fst (run es s)) + sum_list (map ended es) = running s + length (snd (run es s))"
proof (induction es arbitrary: s)
  case (Cons e es)
  then show ?case using count [of s e] step_inv [of s e] by (fastforce simp: Let_def)
qed simp

lemma run_bounded: "inv s \<Longrightarrow> legal_run es s \<Longrightarrow> running (fst (run es s)) \<le> slots s
    \<and> (waiting (fst (run es s)) \<noteq> [] \<longrightarrow> running (fst (run es s)) = slots s)"
  using run_inv bounded_slots no_idle_slot run_slots by metis

end

lemma subseq_filter_ids: "subseq (map f (filter P xs)) (map f xs)"
  by (induction xs) auto

section \<open>Origin loads\<close>

record OriginLoadGate =
  og_active :: nat
  og_queued :: "(nat \<times> int) list"
  og_closed :: bool
  og_rejected :: nat
  og_maxObserved :: nat
  og_queuedBytes :: int
  og_maxConcurrent :: nat
  og_maxQueued :: nat
  og_queueTimeoutMs :: int
  og_budget :: "MemoryBudget option"

record OriginLoadOptions =
  olo_maxConcurrent :: "jsnum option"
  olo_maxQueued :: "jsnum option"
  olo_queueTimeoutMs :: "jsnum option"

definition MAX_QUEUED_KEY_BYTES :: int where
  "MAX_QUEUED_KEY_BYTES = 2 * 1024 * 1024"

definition newOriginLoadGate :: "OriginLoadOptions \<Rightarrow> MemoryBudget option \<Rightarrow> js_error + OriginLoadGate" where
  "newOriginLoadGate opts budget =
     (let mc = nullish (olo_maxConcurrent opts) (JNum 32); mq = nullish (olo_maxQueued opts) (JNum 1024);
          qt = nullish (olo_queueTimeoutMs opts) (JNum 1000) in
      if \<not> list_all isSafeInteger [mc, mq, qt] \<or> jle mc (JNum 0) \<or> jless mq (JNum 0) \<or> jless qt (JNum 0)
         \<or> jless (JNum (2 ^ 31 - 1)) qt
      then Inl (RangeError ''originLoad maxConcurrent must be positive; maxQueued and queueTimeoutMs must be non-negative and finite'')
      else Inr \<lparr>og_active = 0, og_queued = [], og_closed = False, og_rejected = 0, og_maxObserved = 0,
        og_queuedBytes = 0, og_maxConcurrent = nat (num_int mc), og_maxQueued = nat (num_int mq),
        og_queueTimeoutMs = num_int qt, og_budget = budget\<rparr>)"

datatype acquire_result = AcqClosed | AcqAborted | AcqGranted | AcqOverload | AcqQueued

text \<open>The optional shared budget; without one every reservation succeeds.\<close>

definition og_reserve :: "int \<Rightarrow> OriginLoadGate \<Rightarrow> bool \<times> OriginLoadGate" where
  "og_reserve bytes g = (case og_budget g of None \<Rightarrow> (True, g)
     | Some b \<Rightarrow> let r = tryReserve (jint bytes) (js ''queue'') b in (fst r, g\<lparr>og_budget := Some (snd r)\<rparr>))"

text \<open>\<open>acquire(key, signal)\<close> for the waiter numbered \<open>i\<close>; \<open>aborted\<close> is the state of the signal.\<close>

definition og_acquire :: "nat \<Rightarrow> jsstr \<Rightarrow> bool \<Rightarrow> OriginLoadGate \<Rightarrow> acquire_result \<times> OriginLoadGate" where
  "og_acquire i key aborted g =
     (if og_closed g then (AcqClosed, g)
      else if aborted then (AcqAborted, g)
      else if og_active g < og_maxConcurrent g then
        (AcqGranted, g\<lparr>og_active := og_active g + 1, og_maxObserved := max (og_maxObserved g) (og_active g + 1)\<rparr>)
      else if og_maxQueued g \<le> length (og_queued g) \<or> og_maxQueued g = 0 then
        (AcqOverload, g\<lparr>og_rejected := og_rejected g + 1\<rparr>)
      else
        let bytes = int (byteLength key) * 2 + 128 in
        if MAX_QUEUED_KEY_BYTES < og_queuedBytes g + bytes then (AcqOverload, g\<lparr>og_rejected := og_rejected g + 1\<rparr>)
        else let r = og_reserve bytes g in
          if \<not> fst r then (AcqOverload, (snd r)\<lparr>og_rejected := og_rejected (snd r) + 1\<rparr>)
          else (AcqQueued, (snd r)\<lparr>og_queuedBytes := og_queuedBytes (snd r) + bytes,
                 og_queued := og_queued (snd r) @ [(i, bytes)]\<rparr>))"

definition cleanupWaiter :: "int \<Rightarrow> OriginLoadGate \<Rightarrow> OriginLoadGate" where
  "cleanupWaiter bytes g = g\<lparr>og_queuedBytes := og_queuedBytes g - bytes,
     og_budget := map_option (release (jint bytes) (js ''queue'')) (og_budget g)\<rparr>"

text \<open>Removing waiter \<open>i\<close> from the queue: by its timer (\<open>timeout\<close>) or by its signal.\<close>

definition og_drop :: "nat \<Rightarrow> bool \<Rightarrow> OriginLoadGate \<Rightarrow> OriginLoadGate" where
  "og_drop i timeout g = (case om_get (og_queued g) i of None \<Rightarrow> g
     | Some bytes \<Rightarrow>
         let g1 = cleanupWaiter bytes (g\<lparr>og_queued := om_del (og_queued g) i\<rparr>) in
         if timeout then g1\<lparr>og_rejected := og_rejected g1 + 1\<rparr> else g1)"

definition og_release :: "OriginLoadGate \<Rightarrow> OriginLoadGate \<times> nat list" where
  "og_release g =
     (let g1 = (if 0 < og_active g then g\<lparr>og_active := og_active g - 1\<rparr> else g) in
      case og_queued g1 of [] \<Rightarrow> (g1, [])
      | (i, bytes) # rest \<Rightarrow>
          let g2 = cleanupWaiter bytes (g1\<lparr>og_queued := rest\<rparr>) in
          (g2\<lparr>og_active := og_active g2 + 1, og_maxObserved := max (og_maxObserved g2) (og_active g2 + 1)\<rparr>, [i]))"

text \<open>The closure \<open>reservation()\<close> returns: its flag makes a second call a no-op.\<close>

definition og_reservation_call :: "bool \<Rightarrow> OriginLoadGate \<Rightarrow> bool \<times> OriginLoadGate \<times> nat list" where
  "og_reservation_call released g = (if released then (True, g, []) else (True, og_release g))"

definition og_close :: "OriginLoadGate \<Rightarrow> OriginLoadGate" where
  "og_close g = (fold (\<lambda>p. cleanupWaiter (snd p)) (og_queued g) (g\<lparr>og_closed := True\<rparr>))\<lparr>og_queued := []\<rparr>"

datatype og_event = OgAcquire nat jsstr bool | OgRelease | OgTimeout nat | OgAbort nat | OgClose

fun og_step :: "og_event \<Rightarrow> OriginLoadGate \<Rightarrow> OriginLoadGate \<times> nat list" where
  "og_step (OgAcquire i key aborted) g = (let r = og_acquire i key aborted g in
     (snd r, if fst r = AcqGranted then [i] else []))"
| "og_step OgRelease g = og_release g"
| "og_step (OgTimeout i) g = (og_drop i True g, [])"
| "og_step (OgAbort i) g = (og_drop i False g, [])"
| "og_step OgClose g = (og_close g, [])"

fun og_arrived :: "og_event \<Rightarrow> nat list" where
  "og_arrived (OgAcquire i _ _) = [i]"
| "og_arrived _ = []"

fun og_ended :: "og_event \<Rightarrow> nat" where
  "og_ended OgRelease = 1"
| "og_ended _ = 0"

text \<open>A release belongs to a running load; an arriving waiter is not already queued.\<close>

fun og_legal :: "og_event \<Rightarrow> OriginLoadGate \<Rightarrow> bool" where
  "og_legal OgRelease g = (0 < og_active g)"
| "og_legal (OgAcquire i _ _) g = (i \<notin> fst ` set (og_queued g))"
| "og_legal _ g = True"

definition og_inv :: "OriginLoadGate \<Rightarrow> bool" where
  "og_inv g \<longleftrightarrow> og_active g \<le> og_maxConcurrent g \<and> (og_queued g \<noteq> [] \<longrightarrow> og_active g = og_maxConcurrent g)
     \<and> om_ok (og_queued g) \<and> length (og_queued g) \<le> og_maxQueued g
     \<and> og_queuedBytes g = om_sum (\<lambda>_ n. n) (og_queued g) \<and> og_queuedBytes g \<le> MAX_QUEUED_KEY_BYTES
     \<and> (\<forall>p \<in> set (og_queued g). 0 \<le> snd p)
     \<and> (og_closed g \<longrightarrow> og_queued g = [])"

lemma og_reserve_frame:
  "og_active (snd (og_reserve n g)) = og_active g" "og_queued (snd (og_reserve n g)) = og_queued g"
  "og_closed (snd (og_reserve n g)) = og_closed g" "og_queuedBytes (snd (og_reserve n g)) = og_queuedBytes g"
  "og_maxConcurrent (snd (og_reserve n g)) = og_maxConcurrent g" "og_maxQueued (snd (og_reserve n g)) = og_maxQueued g"
  by (simp_all add: og_reserve_def Let_def split: option.splits)

lemma fold_cleanup:
  "fold (\<lambda>p. cleanupWaiter (snd p)) q g = g\<lparr>og_queuedBytes := og_queuedBytes g - om_sum (\<lambda>_ n. n) q,
     og_budget := fold (\<lambda>p. map_option (release (jint (snd p)) (js ''queue''))) q (og_budget g)\<rparr>"
  by (induction q arbitrary: g) (simp_all add: cleanupWaiter_def om_sum_def)

lemma om_sum_id_nonneg: "(\<forall>p \<in> set m. 0 \<le> snd p) \<Longrightarrow> 0 \<le> om_sum (\<lambda>_ n. n) m"
  unfolding om_sum_def by (intro sum_list_nonneg) auto

lemma om_sum_append: "om_sum w (m @ [(k, v)]) = om_sum w m + w k v"
  by (simp add: om_sum_def)

lemma og_acquire_inv:
  assumes "og_inv g" and "i \<notin> fst ` set (og_queued g)"
  shows "og_inv (snd (og_acquire i key aborted g))"
  using assms
  by (auto simp: og_acquire_def og_inv_def Let_def og_reserve_frame om_ok_def om_sum_append not_less not_le)

lemma om_del_nonneg: "(\<forall>p \<in> set m. 0 \<le> snd p) \<Longrightarrow> (\<forall>p \<in> set (om_del m k). 0 \<le> snd p)"
  by (auto simp: om_del_def)

lemma og_drop_inv:
  assumes "og_inv g"
  shows "og_inv (og_drop i t g)"
proof (cases "om_get (og_queued g) i")
  case (Some n)
  have q: "og_queued g \<noteq> []" using Some by (auto simp: om_get_def)
  have "(i, n) \<in> set (og_queued g)" using Some by (simp add: om_get_def map_of_SomeD)
  then have "0 \<le> n" using assms by (auto simp: og_inv_def)
  moreover have "length (om_del (og_queued g) i) \<le> length (og_queued g)" by (simp add: om_del_def)
  ultimately show ?thesis using assms Some q om_del_nonneg [of "og_queued g" i]
    by (auto simp: og_drop_def og_inv_def Let_def cleanupWaiter_def om_ok_del om_sum_del)
qed (simp add: og_drop_def assms)

lemma og_release_inv:
  assumes "og_inv g" "0 < og_active g"
  shows "og_inv (fst (og_release g))"
proof (cases "og_queued g")
  case (Cons p rest)
  then show ?thesis using assms
    by (cases p) (auto simp: og_release_def og_inv_def Let_def cleanupWaiter_def om_ok_def om_sum_def)
qed (use assms in \<open>auto simp: og_release_def og_inv_def Let_def\<close>)

lemma og_close_inv: "og_inv g \<Longrightarrow> og_inv (og_close g)"
  by (auto simp: og_close_def fold_cleanup og_inv_def om_sum_def MAX_QUEUED_KEY_BYTES_def)

definition og_waiting :: "OriginLoadGate \<Rightarrow> nat list" where
  "og_waiting g = map fst (og_queued g)"

lemma og_step_inv: "og_inv g \<Longrightarrow> og_legal e g \<Longrightarrow> og_inv (fst (og_step e g))"
  by (cases e) (auto simp: Let_def og_acquire_inv og_drop_inv og_release_inv og_close_inv)

lemma og_drop_waiting: "subseq (og_waiting (og_drop i t g)) (og_waiting g)"
  by (simp add: og_drop_def og_waiting_def cleanupWaiter_def om_del_def Let_def subseq_filter_ids split: option.splits)

lemma og_step_fifo: "og_inv g \<Longrightarrow> subseq (snd (og_step e g) @ og_waiting (fst (og_step e g))) (og_waiting g @ og_arrived e)"
proof (cases e)
  case (OgAcquire i key aborted)
  assume "og_inv g"
  then show ?thesis unfolding OgAcquire
    by (auto simp: og_acquire_def og_waiting_def Let_def og_reserve_frame og_inv_def)
next
  case OgRelease
  then show ?thesis
    by (auto simp: og_release_def og_waiting_def Let_def cleanupWaiter_def split: list.splits)
qed (use og_drop_waiting in \<open>auto simp: og_close_def og_waiting_def fold_cleanup\<close>)

lemma og_step_count:
  "og_legal e g \<Longrightarrow> og_active (fst (og_step e g)) + og_ended e = og_active g + length (snd (og_step e g))"
proof (cases e)
  case (OgTimeout i)
  then show ?thesis by (auto simp: og_drop_def Let_def cleanupWaiter_def split: option.splits)
next
  case (OgAbort i)
  then show ?thesis by (auto simp: og_drop_def Let_def cleanupWaiter_def split: option.splits)
qed (auto simp: og_acquire_def og_release_def Let_def cleanupWaiter_def og_close_def fold_cleanup og_reserve_frame
      split: list.splits)

lemma og_step_slots: "og_maxConcurrent (fst (og_step e g)) = og_maxConcurrent g"
  by (cases e) (auto simp: og_acquire_def og_release_def og_drop_def Let_def cleanupWaiter_def og_close_def fold_cleanup
      og_reserve_frame split: list.splits option.splits)

lemma og_bounds:
  "og_inv g \<Longrightarrow> og_active g \<le> og_maxConcurrent g"
  "og_inv g \<Longrightarrow> og_waiting g \<noteq> [] \<Longrightarrow> og_active g = og_maxConcurrent g"
  by (auto simp: og_inv_def og_waiting_def)

interpretation og: slot_gate og_step og_arrived og_ended og_legal og_waiting og_active og_maxConcurrent og_inv
  by unfold_locales (simp_all add: og_step_inv og_step_fifo og_step_count og_step_slots og_bounds)

section \<open>L2 operations\<close>

text \<open>
  \<open>l2_running\<close> lists the started calls whose promise has not settled, with the bytes each holds: the
  closures the gate's \<open>finally\<close> handlers keep.
\<close>

record L2OperationGate =
  l2_active :: nat
  l2_activeBytes :: real
  l2_queuedBytes :: real
  l2_queue :: "(nat \<times> real) list"
  l2_closed :: bool
  l2_rejected :: nat
  l2_expired :: nat
  l2_commandTimeouts :: nat
  l2_maxConcurrent :: nat
  l2_maxQueued :: nat
  l2_maxQueuedBytes :: real
  l2_running :: "(nat \<times> real) list"

record L2OperationGateOptions =
  l2o_maxConcurrent :: "jsnum option"
  l2o_maxQueued :: "jsnum option"
  l2o_maxQueuedBytes :: "jsnum option"
  l2o_queueTimeoutMs :: "jsnum option"
  l2o_operationTimeoutMs :: "jsnum option"

definition newL2OperationGate :: "L2OperationGateOptions \<Rightarrow> js_error + L2OperationGate" where
  "newL2OperationGate opts =
     (let mc = nullish (l2o_maxConcurrent opts) (JNum 64); mq = nullish (l2o_maxQueued opts) (JNum 1024);
          mb = nullish (l2o_maxQueuedBytes opts) (JNum (32 * 1024 * 1024));
          qt = nullish (l2o_queueTimeoutMs opts) (JNum 250); ot = nullish (l2o_operationTimeoutMs opts) (JNum 2000) in
      if \<not> isSafeInteger mc \<or> jle mc (JNum 0) \<or> \<not> isSafeInteger mq \<or> jless mq (JNum 0)
         \<or> \<not> isSafeInteger mb \<or> jless mb (JNum 0) \<or> \<not> isSafeInteger qt \<or> jless qt (JNum 0)
         \<or> \<not> isSafeInteger ot \<or> jle ot (JNum 0)
      then Inl (RangeError ''Invalid L2 operation gate limits'')
      else Inr \<lparr>l2_active = 0, l2_activeBytes = 0, l2_queuedBytes = 0, l2_queue = [], l2_closed = False,
        l2_rejected = 0, l2_expired = 0, l2_commandTimeouts = 0, l2_maxConcurrent = nat (num_int mc),
        l2_maxQueued = nat (num_int mq), l2_maxQueuedBytes = of_int (num_int mb), l2_running = []\<rparr>)"

definition payload_size :: "jsnum \<Rightarrow> real" where
  "payload_size n = (case n of JNum x \<Rightarrow> max 0 x | _ \<Rightarrow> 0)"

definition l2_start :: "nat \<Rightarrow> real \<Rightarrow> L2OperationGate \<Rightarrow> L2OperationGate" where
  "l2_start i bytes g = g\<lparr>l2_active := l2_active g + 1, l2_activeBytes := l2_activeBytes g + bytes,
     l2_running := l2_running g @ [(i, bytes)]\<rparr>"

datatype run_result = RunClosed | RunStarted | RunOverload | RunQueued | RunExpired | RunInvalid | RunAborted

definition l2_run :: "nat \<Rightarrow> jsnum \<Rightarrow> L2OperationGate \<Rightarrow> run_result \<times> L2OperationGate" where
  "l2_run i payloadBytes g =
     (let bytes = payload_size payloadBytes in
      if l2_closed g then (RunClosed, g)
      else if l2_active g < l2_maxConcurrent g \<and> l2_queue g = [] then (RunStarted, l2_start i bytes g)
      else if l2_maxQueued g \<le> length (l2_queue g) \<or> l2_maxQueuedBytes g < l2_queuedBytes g + bytes
      then (RunOverload, g\<lparr>l2_rejected := l2_rejected g + 1\<rparr>)
      else (RunQueued, g\<lparr>l2_queue := l2_queue g @ [(i, bytes)], l2_queuedBytes := l2_queuedBytes g + bytes\<rparr>))"

definition l2_pump :: "L2OperationGate \<Rightarrow> L2OperationGate \<times> nat list" where
  "l2_pump g = (if l2_closed g \<or> l2_maxConcurrent g \<le> l2_active g then (g, [])
     else case l2_queue g of [] \<Rightarrow> (g, [])
       | (i, bytes) # rest \<Rightarrow>
           (l2_start i bytes (g\<lparr>l2_queue := rest, l2_queuedBytes := l2_queuedBytes g - bytes\<rparr>), [i]))"

text \<open>The \<open>finally\<close> of a started call: the slot is given back only when the underlying call settles.\<close>

definition l2_settle :: "nat \<Rightarrow> real \<Rightarrow> L2OperationGate \<Rightarrow> L2OperationGate \<times> nat list" where
  "l2_settle i bytes g = l2_pump (g\<lparr>l2_active := l2_active g - 1, l2_activeBytes := l2_activeBytes g - bytes,
     l2_running := remove1 (i, bytes) (l2_running g)\<rparr>)"

definition l2_expire :: "nat \<Rightarrow> L2OperationGate \<Rightarrow> L2OperationGate" where
  "l2_expire i g = (case om_get (l2_queue g) i of None \<Rightarrow> g
     | Some bytes \<Rightarrow> g\<lparr>l2_queue := om_del (l2_queue g) i, l2_queuedBytes := l2_queuedBytes g - bytes,
         l2_expired := l2_expired g + 1\<rparr>)"

definition l2_commandTimeout :: "L2OperationGate \<Rightarrow> L2OperationGate" where
  "l2_commandTimeout g = g\<lparr>l2_commandTimeouts := l2_commandTimeouts g + 1\<rparr>"

definition l2_close :: "L2OperationGate \<Rightarrow> L2OperationGate" where
  "l2_close g = g\<lparr>l2_closed := True, l2_queue := [], l2_queuedBytes := 0\<rparr>"

datatype l2_event = L2Run nat jsnum | L2Settle nat real | L2Expire nat | L2Timeout | L2Close

fun l2_step :: "l2_event \<Rightarrow> L2OperationGate \<Rightarrow> L2OperationGate \<times> nat list" where
  "l2_step (L2Run i p) g = (let r = l2_run i p g in (snd r, if fst r = RunStarted then [i] else []))"
| "l2_step (L2Settle i n) g = l2_settle i n g"
| "l2_step (L2Expire i) g = (l2_expire i g, [])"
| "l2_step L2Timeout g = (l2_commandTimeout g, [])"
| "l2_step L2Close g = (l2_close g, [])"

fun l2_arrived :: "l2_event \<Rightarrow> nat list" where
  "l2_arrived (L2Run i _) = [i]"
| "l2_arrived _ = []"

fun l2_ended :: "l2_event \<Rightarrow> nat" where
  "l2_ended (L2Settle _ _) = 1"
| "l2_ended _ = 0"

fun l2_legal :: "l2_event \<Rightarrow> L2OperationGate \<Rightarrow> bool" where
  "l2_legal (L2Settle i n) g = ((i, n) \<in> set (l2_running g))"
| "l2_legal (L2Run i _) g = (i \<notin> fst ` set (l2_queue g))"
| "l2_legal _ g = True"

definition rsum :: "(nat \<times> real) list \<Rightarrow> real" where
  "rsum q = (\<Sum>p\<leftarrow>q. snd p)"

definition l2_inv :: "L2OperationGate \<Rightarrow> bool" where
  "l2_inv g \<longleftrightarrow> l2_active g = length (l2_running g) \<and> l2_active g \<le> l2_maxConcurrent g
     \<and> (l2_queue g \<noteq> [] \<longrightarrow> l2_active g = l2_maxConcurrent g) \<and> om_ok (l2_queue g)
     \<and> length (l2_queue g) \<le> l2_maxQueued g \<and> l2_activeBytes g = rsum (l2_running g)
     \<and> l2_queuedBytes g = rsum (l2_queue g) \<and> l2_queuedBytes g \<le> l2_maxQueuedBytes g
     \<and> (\<forall>p \<in> set (l2_queue g). 0 \<le> snd p) \<and> 0 \<le> l2_maxQueuedBytes g
     \<and> (l2_closed g \<longrightarrow> l2_queue g = [])"

definition l2_waiting :: "L2OperationGate \<Rightarrow> nat list" where
  "l2_waiting g = map fst (l2_queue g)"

lemma rsum_simps [simp]: "rsum [] = 0" "rsum (p # q) = snd p + rsum q" "rsum (q @ r) = rsum q + rsum r"
  by (simp_all add: rsum_def)

lemma rsum_remove1: "p \<in> set q \<Longrightarrow> rsum (remove1 p q) = rsum q - snd p"
  by (induction q) auto

lemma rsum_del: "om_ok q \<Longrightarrow> om_get q i = Some n \<Longrightarrow> rsum (om_del q i) = rsum q - n"
proof (induction q)
  case (Cons p q)
  then show ?case using om_del_absent [of i q]
    by (cases p) (auto simp: om_get_def om_ok_def om_del_def split: if_splits)
qed (simp add: om_get_def)

lemma rsum_nonneg: "(\<forall>p \<in> set q. 0 \<le> snd p) \<Longrightarrow> 0 \<le> rsum q"
  unfolding rsum_def by (intro sum_list_nonneg) auto

lemma payload_size_nonneg: "0 \<le> payload_size n"
  by (simp add: payload_size_def split: jsnum.splits)

lemma l2_run_inv:
  assumes "l2_inv g" "i \<notin> fst ` set (l2_queue g)"
  shows "l2_inv (snd (l2_run i p g))"
  using assms payload_size_nonneg [of p]
  by (auto simp: l2_run_def l2_inv_def Let_def l2_start_def om_ok_def not_less not_le)

lemma l2_settle_inv:
  assumes "l2_inv g" "(i, n) \<in> set (l2_running g)"
  shows "l2_inv (fst (l2_settle i n g))"
proof -
  have pos: "0 < length (l2_running g)" using assms(2) by (cases "l2_running g") auto
  have len: "length (remove1 (i, n) (l2_running g)) = length (l2_running g) - 1"
    using assms(2) by (simp add: length_remove1)
  show ?thesis
  proof (cases "l2_queue g")
    case Nil
    then show ?thesis using assms pos len rsum_remove1 [OF assms(2)]
      by (auto simp: l2_settle_def l2_pump_def l2_inv_def)
  next
    case (Cons q rest)
    then show ?thesis using assms pos len rsum_remove1 [OF assms(2)] rsum_nonneg [of rest]
      by (cases q) (auto simp: l2_settle_def l2_pump_def l2_inv_def l2_start_def om_ok_def)
  qed
qed

lemma om_del_nonneg_real: "(\<forall>p \<in> set (m :: (nat \<times> real) list). 0 \<le> snd p) \<Longrightarrow> (\<forall>p \<in> set (om_del m k). 0 \<le> snd p)"
  by (auto simp: om_del_def)

lemma l2_expire_inv:
  assumes "l2_inv g"
  shows "l2_inv (l2_expire i g)"
proof (cases "om_get (l2_queue g) i")
  case (Some n)
  then have mem: "(i, n) \<in> set (l2_queue g)" by (simp add: om_get_def map_of_SomeD)
  then have q: "l2_queue g \<noteq> []" "0 \<le> n" using assms by (auto simp: l2_inv_def)
  have "length (om_del (l2_queue g) i) \<le> length (l2_queue g)" by (simp add: om_del_def)
  then show ?thesis using assms Some q rsum_del [OF _ Some] om_ok_del [of "l2_queue g" i] om_del_nonneg_real [of "l2_queue g" i]
    by (auto simp: l2_expire_def l2_inv_def)
qed (simp add: l2_expire_def assms)

lemma l2_step_inv: "l2_inv g \<Longrightarrow> l2_legal e g \<Longrightarrow> l2_inv (fst (l2_step e g))"
proof (cases e)
  case L2Timeout
  assume "l2_inv g"
  then show ?thesis by (auto simp: L2Timeout l2_commandTimeout_def l2_inv_def)
next
  case L2Close
  assume "l2_inv g"
  then show ?thesis by (auto simp: L2Close l2_close_def l2_inv_def)
qed (auto simp: Let_def l2_run_inv l2_settle_inv l2_expire_inv)

lemma l2_step_fifo: "subseq (snd (l2_step e g) @ l2_waiting (fst (l2_step e g))) (l2_waiting g @ l2_arrived e)"
  by (cases e) (auto simp: l2_run_def l2_settle_def l2_pump_def l2_start_def l2_expire_def l2_close_def
      l2_commandTimeout_def l2_waiting_def Let_def om_del_def subseq_filter_ids split: list.splits option.splits)

lemma l2_step_count:
  assumes "l2_inv g" "l2_legal e g"
  shows "l2_active (fst (l2_step e g)) + l2_ended e = l2_active g + length (snd (l2_step e g))"
proof (cases e)
  case (L2Settle i n)
  then have "0 < length (l2_running g)" using assms by (cases "l2_running g") auto
  then have "0 < l2_active g" using assms by (simp add: l2_inv_def)
  then show ?thesis unfolding L2Settle
    by (auto simp: l2_settle_def l2_pump_def l2_start_def split: list.splits)
qed (auto simp: l2_run_def l2_start_def l2_expire_def l2_close_def l2_commandTimeout_def Let_def split: option.splits)

lemma l2_step_slots: "l2_maxConcurrent (fst (l2_step e g)) = l2_maxConcurrent g"
  by (cases e) (auto simp: l2_run_def l2_settle_def l2_pump_def l2_start_def l2_expire_def l2_close_def
      l2_commandTimeout_def Let_def split: list.splits option.splits)

lemma l2_bounds:
  "l2_inv g \<Longrightarrow> l2_active g \<le> l2_maxConcurrent g"
  "l2_inv g \<Longrightarrow> l2_waiting g \<noteq> [] \<Longrightarrow> l2_active g = l2_maxConcurrent g"
  by (auto simp: l2_inv_def l2_waiting_def)

interpretation l2: slot_gate l2_step l2_arrived l2_ended l2_legal l2_waiting l2_active l2_maxConcurrent l2_inv
  by unfold_locales (simp_all add: l2_step_inv l2_step_fifo l2_step_count l2_step_slots l2_bounds)

section \<open>Transaction commands\<close>

text \<open>A waiter carries its bytes and its deadline on the monotonic clock.\<close>

record BoundedOperationGate =
  bg_active :: nat
  bg_activeBytes :: real
  bg_queuedBytes :: real
  bg_queue :: "(nat \<times> real \<times> real) list"
  bg_closed :: bool
  bg_rejected :: nat
  bg_expired :: nat
  bg_commandTimeouts :: nat
  bg_maxConcurrent :: nat
  bg_maxQueued :: nat
  bg_maxQueuedBytes :: real
  bg_operationTimeoutMs :: real
  bg_running :: "(nat \<times> real) list"

record BoundedOperationGateOptions =
  bgo_maxConcurrent :: "jsnum option"
  bgo_maxQueued :: "jsnum option"
  bgo_maxQueuedBytes :: "jsnum option"
  bgo_queueTimeoutMs :: "jsnum option"
  bgo_operationTimeoutMs :: "jsnum option"

definition bg_positiveInteger :: "jsnum \<Rightarrow> bool \<Rightarrow> bool" where
  "bg_positiveInteger value allowZero \<longleftrightarrow>
     isSafeInteger value \<and> \<not> (if allowZero then jless value (JNum 0) else jle value (JNum 0))"

definition newBoundedOperationGate :: "BoundedOperationGateOptions \<Rightarrow> js_error + BoundedOperationGate" where
  "newBoundedOperationGate opts =
     (let mc = nullish (bgo_maxConcurrent opts) (JNum 64); mq = nullish (bgo_maxQueued opts) (JNum 1024);
          mb = nullish (bgo_maxQueuedBytes opts) (JNum (4 * 1024 * 1024));
          qt = nullish (bgo_queueTimeoutMs opts) (JNum 250); ot = nullish (bgo_operationTimeoutMs opts) (JNum 2000) in
      if \<not> bg_positiveInteger mc False then Inl (Error ''maxConcurrent must be a positive safe integer'')
      else if \<not> bg_positiveInteger mq True then Inl (Error ''maxQueued must be a non-negative safe integer'')
      else if \<not> bg_positiveInteger mb True then Inl (Error ''maxQueuedBytes must be a non-negative safe integer'')
      else if \<not> bg_positiveInteger qt True then Inl (Error ''queueTimeoutMs must be a non-negative safe integer'')
      else if \<not> bg_positiveInteger ot False then Inl (Error ''operationTimeoutMs must be a positive safe integer'')
      else Inr \<lparr>bg_active = 0, bg_activeBytes = 0, bg_queuedBytes = 0, bg_queue = [], bg_closed = False,
        bg_rejected = 0, bg_expired = 0, bg_commandTimeouts = 0, bg_maxConcurrent = nat (num_int mc),
        bg_maxQueued = nat (num_int mq), bg_maxQueuedBytes = of_int (num_int mb),
        bg_operationTimeoutMs = of_int (num_int ot), bg_running = []\<rparr>)"

definition bg_start :: "nat \<Rightarrow> real \<Rightarrow> BoundedOperationGate \<Rightarrow> BoundedOperationGate" where
  "bg_start i bytes g = g\<lparr>bg_active := bg_active g + 1, bg_activeBytes := bg_activeBytes g + bytes,
     bg_running := bg_running g @ [(i, bytes)]\<rparr>"

text \<open>\<open>run\<close> at clock value \<open>now\<close>; \<open>aborted\<close> is the state of the caller's signal.\<close>

definition bg_run :: "nat \<Rightarrow> jsnum \<Rightarrow> jsnum option \<Rightarrow> real \<Rightarrow> bool \<Rightarrow> BoundedOperationGate \<Rightarrow> run_result \<times> BoundedOperationGate" where
  "bg_run i bytes deadlineOpt now aborted g =
     (if bg_closed g then (RunClosed, g)
      else case bytes of
        JNum n \<Rightarrow>
          if n < 0 \<or> \<not> isSafeInteger (jint \<lceil>n\<rceil>) then (RunInvalid, g)
          else (case nullish deadlineOpt (JNum (now + bg_operationTimeoutMs g)) of
            JNum deadline \<Rightarrow>
              if deadline \<le> now then (RunExpired, g)
              else if bg_active g < bg_maxConcurrent g \<and> bg_queue g = [] then (RunStarted, bg_start i n g)
              else if bg_maxQueued g \<le> length (bg_queue g) \<or> bg_maxQueuedBytes g < bg_queuedBytes g + n
              then (RunOverload, g\<lparr>bg_rejected := bg_rejected g + 1\<rparr>)
              else if aborted then (RunAborted, g)
              else (RunQueued, g\<lparr>bg_queue := bg_queue g @ [(i, n, deadline)], bg_queuedBytes := bg_queuedBytes g + n\<rparr>)
          | _ \<Rightarrow> (RunInvalid, g))
      | _ \<Rightarrow> (RunInvalid, g))"

text \<open>The loop of \<open>pump\<close>: waiters whose deadline has passed are rejected and do not take a slot.\<close>

fun bg_pump_loop :: "real \<Rightarrow> (nat \<times> real \<times> real) list \<Rightarrow> BoundedOperationGate \<Rightarrow> BoundedOperationGate \<times> nat list" where
  "bg_pump_loop now [] g = (g\<lparr>bg_queue := []\<rparr>, [])"
| "bg_pump_loop now ((i, n, deadline) # rest) g =
     (if bg_maxConcurrent g \<le> bg_active g then (g\<lparr>bg_queue := (i, n, deadline) # rest\<rparr>, [])
      else let g1 = g\<lparr>bg_queuedBytes := bg_queuedBytes g - n\<rparr> in
        if deadline \<le> now then bg_pump_loop now rest (g1\<lparr>bg_expired := bg_expired g1 + 1\<rparr>)
        else let r = bg_pump_loop now rest (bg_start i n g1) in (fst r, i # snd r))"

definition bg_pump :: "real \<Rightarrow> BoundedOperationGate \<Rightarrow> BoundedOperationGate \<times> nat list" where
  "bg_pump now g = (if bg_closed g then (g, []) else bg_pump_loop now (bg_queue g) g)"

definition bg_settle :: "nat \<Rightarrow> real \<Rightarrow> real \<Rightarrow> BoundedOperationGate \<Rightarrow> BoundedOperationGate \<times> nat list" where
  "bg_settle i bytes now g = bg_pump now (g\<lparr>bg_active := bg_active g - 1, bg_activeBytes := bg_activeBytes g - bytes,
     bg_running := remove1 (i, bytes) (bg_running g)\<rparr>)"

text \<open>A waiter leaves the queue by its timer (\<open>expire\<close>) or by its signal (\<open>abort\<close>).\<close>

definition bg_drop :: "nat \<Rightarrow> bool \<Rightarrow> BoundedOperationGate \<Rightarrow> BoundedOperationGate" where
  "bg_drop i timeout g = (case om_get (bg_queue g) i of None \<Rightarrow> g
     | Some (n, _) \<Rightarrow> g\<lparr>bg_queue := om_del (bg_queue g) i, bg_queuedBytes := bg_queuedBytes g - n,
         bg_expired := bg_expired g + (if timeout then 1 else 0)\<rparr>)"

definition bg_commandTimeout :: "BoundedOperationGate \<Rightarrow> BoundedOperationGate" where
  "bg_commandTimeout g = g\<lparr>bg_commandTimeouts := bg_commandTimeouts g + 1\<rparr>"

definition bg_close :: "BoundedOperationGate \<Rightarrow> BoundedOperationGate" where
  "bg_close g = (if bg_closed g then g else g\<lparr>bg_closed := True, bg_queue := [], bg_queuedBytes := 0\<rparr>)"

datatype bg_event = BgRun nat jsnum "jsnum option" real bool | BgSettle nat real real | BgExpire nat | BgAbort nat
  | BgTimeout | BgClose

fun bg_step :: "bg_event \<Rightarrow> BoundedOperationGate \<Rightarrow> BoundedOperationGate \<times> nat list" where
  "bg_step (BgRun i n d now aborted) g = (let r = bg_run i n d now aborted g in (snd r, if fst r = RunStarted then [i] else []))"
| "bg_step (BgSettle i n now) g = bg_settle i n now g"
| "bg_step (BgExpire i) g = (bg_drop i True g, [])"
| "bg_step (BgAbort i) g = (bg_drop i False g, [])"
| "bg_step BgTimeout g = (bg_commandTimeout g, [])"
| "bg_step BgClose g = (bg_close g, [])"

fun bg_arrived :: "bg_event \<Rightarrow> nat list" where
  "bg_arrived (BgRun i _ _ _ _) = [i]"
| "bg_arrived _ = []"

fun bg_ended :: "bg_event \<Rightarrow> nat" where
  "bg_ended (BgSettle _ _ _) = 1"
| "bg_ended _ = 0"

fun bg_legal :: "bg_event \<Rightarrow> BoundedOperationGate \<Rightarrow> bool" where
  "bg_legal (BgSettle i n _) g = ((i, n) \<in> set (bg_running g))"
| "bg_legal (BgRun i _ _ _ _) g = (i \<notin> fst ` set (bg_queue g))"
| "bg_legal _ g = True"

definition bg_bytes :: "(nat \<times> real \<times> real) list \<Rightarrow> real" where
  "bg_bytes q = (\<Sum>p\<leftarrow>q. fst (snd p))"

definition bg_waiting :: "BoundedOperationGate \<Rightarrow> nat list" where
  "bg_waiting g = map fst (bg_queue g)"

text \<open>The invariant, with the queue apart so that it also describes the states inside the pump loop.\<close>

definition bg_core :: "(nat \<times> real \<times> real) list \<Rightarrow> BoundedOperationGate \<Rightarrow> bool" where
  "bg_core q g \<longleftrightarrow> bg_active g = length (bg_running g) \<and> bg_active g \<le> bg_maxConcurrent g \<and> om_ok q
     \<and> length q \<le> bg_maxQueued g \<and> bg_activeBytes g = rsum (bg_running g) \<and> bg_queuedBytes g = bg_bytes q
     \<and> bg_queuedBytes g \<le> bg_maxQueuedBytes g \<and> (\<forall>p \<in> set q. 0 \<le> fst (snd p)) \<and> 0 \<le> bg_maxQueuedBytes g"

definition bg_inv :: "BoundedOperationGate \<Rightarrow> bool" where
  "bg_inv g \<longleftrightarrow> bg_core (bg_queue g) g \<and> (bg_queue g \<noteq> [] \<longrightarrow> bg_active g = bg_maxConcurrent g)
     \<and> (bg_closed g \<longrightarrow> bg_queue g = [])"

lemma bg_bytes_simps [simp]: "bg_bytes [] = 0" "bg_bytes (p # q) = fst (snd p) + bg_bytes q" "bg_bytes (q @ r) = bg_bytes q + bg_bytes r"
  by (simp_all add: bg_bytes_def)

lemma bg_bytes_del: "om_ok q \<Longrightarrow> om_get q i = Some (n, d) \<Longrightarrow> bg_bytes (om_del q i) = bg_bytes q - n"
proof (induction q)
  case (Cons p q)
  then show ?case using om_del_absent [of i q]
    by (cases p) (auto simp: om_get_def om_ok_def om_del_def split: if_splits)
qed (simp add: om_get_def)

lemma bg_pump_loop_spec:
  "bg_core q g \<Longrightarrow> \<not> bg_closed g \<Longrightarrow>
    bg_inv (fst (bg_pump_loop now q g)) \<and> subseq (snd (bg_pump_loop now q g) @ bg_waiting (fst (bg_pump_loop now q g))) (map fst q)
    \<and> bg_active (fst (bg_pump_loop now q g)) = bg_active g + length (snd (bg_pump_loop now q g))
    \<and> bg_maxConcurrent (fst (bg_pump_loop now q g)) = bg_maxConcurrent g"
proof (induction now q g rule: bg_pump_loop.induct)
  case (1 now g)
  then show ?case by (simp add: bg_inv_def bg_core_def bg_waiting_def)
next
  case (2 now i n deadline rest g)
  let ?g1 = "g\<lparr>bg_queuedBytes := bg_queuedBytes g - n\<rparr>"
  have n: "0 \<le> n" "i \<notin> fst ` set rest" using "2.prems" by (auto simp: bg_core_def om_ok_def)
  consider "bg_maxConcurrent g \<le> bg_active g" | "bg_active g < bg_maxConcurrent g" "deadline \<le> now"
    | "bg_active g < bg_maxConcurrent g" "now < deadline" by linarith
  then show ?case
  proof cases
    case 1
    then show ?thesis using "2.prems" by (auto simp: bg_inv_def bg_core_def bg_waiting_def)
  next
    case c: 2
    have "bg_core rest (?g1\<lparr>bg_expired := bg_expired ?g1 + 1\<rparr>)"
      using "2.prems" n by (auto simp: bg_core_def om_ok_def)
    then show ?thesis using "2.IH"(1) c "2.prems" by (auto simp: Let_def intro: list_emb_Cons)
  next
    case c: 3
    have "bg_core rest (bg_start i n ?g1)"
      using "2.prems" n c by (auto simp: bg_core_def om_ok_def bg_start_def)
    then show ?thesis using "2.IH"(2) c "2.prems" by (auto simp: Let_def bg_start_def)
  qed
qed

lemma bg_settle_spec:
  assumes "bg_inv g" "(i, n) \<in> set (bg_running g)"
  shows "bg_inv (fst (bg_settle i n now g))
    \<and> subseq (snd (bg_settle i n now g) @ bg_waiting (fst (bg_settle i n now g))) (bg_waiting g)
    \<and> bg_active (fst (bg_settle i n now g)) + 1 = bg_active g + length (snd (bg_settle i n now g))
    \<and> bg_maxConcurrent (fst (bg_settle i n now g)) = bg_maxConcurrent g"
proof -
  let ?g = "g\<lparr>bg_active := bg_active g - 1, bg_activeBytes := bg_activeBytes g - n, bg_running := remove1 (i, n) (bg_running g)\<rparr>"
  have pos: "0 < length (bg_running g)" using assms(2) by (cases "bg_running g") auto
  have core: "bg_core (bg_queue g) ?g"
    using assms pos rsum_remove1 [OF assms(2)] by (auto simp: bg_inv_def bg_core_def length_remove1)
  have act: "bg_active g = length (bg_running g)" using assms(1) by (simp add: bg_inv_def bg_core_def)
  show ?thesis
  proof (cases "bg_closed g")
    case True
    then have "bg_queue g = []" using assms(1) by (simp add: bg_inv_def)
    then show ?thesis using True core pos act by (auto simp: bg_settle_def bg_pump_def bg_inv_def bg_waiting_def)
  next
    case False
    then show ?thesis using bg_pump_loop_spec [OF core, of now] pos act
      by (simp add: bg_settle_def bg_pump_def bg_waiting_def)
  qed
qed

lemma bg_run_inv:
  assumes "bg_inv g" "i \<notin> fst ` set (bg_queue g)"
  shows "bg_inv (snd (bg_run i n d now aborted g))"
  using assms
  by (auto simp: bg_run_def bg_inv_def bg_core_def bg_start_def om_ok_def not_less not_le split: jsnum.splits)

lemma bg_drop_inv:
  assumes "bg_inv g"
  shows "bg_inv (bg_drop i t g)"
proof (cases "om_get (bg_queue g) i")
  case (Some w)
  obtain n d where w: "w = (n, d)" by fastforce
  have mem: "(i, n, d) \<in> set (bg_queue g)" using Some w by (simp add: om_get_def map_of_SomeD)
  then have q: "bg_queue g \<noteq> []" "0 \<le> n" using assms by (auto simp: bg_inv_def bg_core_def)
  have "length (om_del (bg_queue g) i) \<le> length (bg_queue g)" "set (om_del (bg_queue g) i) \<subseteq> set (bg_queue g)"
    by (auto simp: om_del_def)
  then show ?thesis using assms Some w q bg_bytes_del [of "bg_queue g" i n d] om_ok_del [of "bg_queue g" i]
    by (auto simp: bg_drop_def bg_inv_def bg_core_def)
qed (simp add: bg_drop_def assms)

lemma bg_step_inv: "bg_inv g \<Longrightarrow> bg_legal e g \<Longrightarrow> bg_inv (fst (bg_step e g))"
proof (cases e)
  case BgTimeout
  assume "bg_inv g"
  then show ?thesis by (auto simp: BgTimeout bg_commandTimeout_def bg_inv_def bg_core_def)
next
  case BgClose
  assume "bg_inv g"
  then show ?thesis by (auto simp: BgClose bg_close_def bg_inv_def bg_core_def)
qed (auto simp: Let_def bg_run_inv bg_drop_inv bg_settle_spec)

lemma bg_drop_waiting: "subseq (bg_waiting (bg_drop i t g)) (bg_waiting g)"
  by (auto simp: bg_drop_def bg_waiting_def om_del_def subseq_filter_ids split: option.splits)

lemma bg_step_fifo: "bg_inv g \<Longrightarrow> bg_legal e g \<Longrightarrow>
    subseq (snd (bg_step e g) @ bg_waiting (fst (bg_step e g))) (bg_waiting g @ bg_arrived e)"
proof (cases e)
  case (BgRun i n d now aborted)
  then show ?thesis
    by (auto simp: bg_run_def bg_start_def bg_waiting_def Let_def split: jsnum.splits)
qed (use bg_drop_waiting bg_settle_spec in \<open>auto simp: bg_commandTimeout_def bg_close_def bg_waiting_def\<close>)

lemma bg_step_count: "bg_inv g \<Longrightarrow> bg_legal e g \<Longrightarrow>
    bg_active (fst (bg_step e g)) + bg_ended e = bg_active g + length (snd (bg_step e g))"
proof (cases e)
  case (BgSettle i n now)
  assume "bg_inv g" "bg_legal e g"
  then show ?thesis using bg_settle_spec [of g i n now] by (simp add: BgSettle)
qed (auto simp: bg_run_def bg_start_def bg_drop_def bg_commandTimeout_def bg_close_def Let_def split: jsnum.splits option.splits)

lemma bg_pump_loop_slots: "bg_maxConcurrent (fst (bg_pump_loop now q g)) = bg_maxConcurrent g"
  by (induction now q g rule: bg_pump_loop.induct) (auto simp: Let_def bg_start_def)

lemma bg_step_slots: "bg_maxConcurrent (fst (bg_step e g)) = bg_maxConcurrent g"
  by (cases e) (auto simp: bg_run_def bg_start_def bg_drop_def bg_commandTimeout_def bg_close_def Let_def
      bg_settle_def bg_pump_def bg_pump_loop_slots split: jsnum.splits option.splits)

lemma bg_bounds:
  "bg_inv g \<Longrightarrow> bg_active g \<le> bg_maxConcurrent g"
  "bg_inv g \<Longrightarrow> bg_waiting g \<noteq> [] \<Longrightarrow> bg_active g = bg_maxConcurrent g"
  by (auto simp: bg_inv_def bg_core_def bg_waiting_def)

interpretation bg: slot_gate bg_step bg_arrived bg_ended bg_legal bg_waiting bg_active bg_maxConcurrent bg_inv
  by unfold_locales (simp_all add: bg_step_inv bg_step_fifo bg_step_count bg_step_slots bg_bounds)

section \<open>Properties\<close>

lemma newOriginLoadGate_inv: "newOriginLoadGate opts b = Inr g \<Longrightarrow> og_inv g \<and> og_waiting g = [] \<and> og_active g = 0"
  by (auto simp: newOriginLoadGate_def Let_def og_inv_def og_waiting_def MAX_QUEUED_KEY_BYTES_def split: if_splits)

lemma newL2OperationGate_inv: "newL2OperationGate opts = Inr g \<Longrightarrow> l2_inv g \<and> l2_waiting g = [] \<and> l2_active g = 0"
  by (auto simp: newL2OperationGate_def Let_def l2_inv_def l2_waiting_def elim!: isSafeInteger_cases split: if_splits)

lemma newBoundedOperationGate_inv:
  "newBoundedOperationGate opts = Inr g \<Longrightarrow> bg_inv g \<and> bg_waiting g = [] \<and> bg_active g = 0"
  by (auto simp: newBoundedOperationGate_def Let_def bg_inv_def bg_core_def bg_waiting_def bg_positiveInteger_def
      elim!: isSafeInteger_cases split: if_splits)

text \<open>
  Origin loads: along any run of acquisitions, releases, queue timeouts, aborts and closing on a
  new gate, the running loads never exceed \<open>maxConcurrent\<close>, nobody waits while a slot is free, the
  queue and its bytes stay within their limits and the byte count is exactly what the waiters hold,
  loads start in the order they arrived, and the running count is starts minus releases.
\<close>

theorem origin_gate_run:
  assumes "newOriginLoadGate opts budget = Inr g" and "og.legal_run es g"
  shows "og_active (fst (og.run es g)) \<le> og_maxConcurrent g
    \<and> (og_queued (fst (og.run es g)) \<noteq> [] \<longrightarrow> og_active (fst (og.run es g)) = og_maxConcurrent g)
    \<and> length (og_queued (fst (og.run es g))) \<le> og_maxQueued (fst (og.run es g))
    \<and> og_queuedBytes (fst (og.run es g)) = om_sum (\<lambda>_ n. n) (og_queued (fst (og.run es g)))
    \<and> og_queuedBytes (fst (og.run es g)) \<le> MAX_QUEUED_KEY_BYTES
    \<and> subseq (snd (og.run es g) @ map fst (og_queued (fst (og.run es g)))) (concat (map og_arrived es))
    \<and> og_active (fst (og.run es g)) + sum_list (map og_ended es) = length (snd (og.run es g))"
proof -
  have g: "og_inv g" "og_waiting g = []" "og_active g = 0" using newOriginLoadGate_inv [OF assms(1)] by auto
  show ?thesis
    using og.run_inv [OF g(1) assms(2)] og.run_bounded [OF g(1) assms(2)] og.run_fifo [OF g(1) assms(2)]
      og.run_count [OF g(1) assms(2)] g(2,3)
    by (simp add: og_inv_def og_waiting_def)
qed

theorem origin_gate_run_witness:
  "\<exists>g. newOriginLoadGate \<lparr>olo_maxConcurrent = Some (JNum 1), olo_maxQueued = None, olo_queueTimeoutMs = None\<rparr> None = Inr g
    \<and> og_active (fst (og.run [OgAcquire 1 (js ''a'') False, OgAcquire 2 (js ''b'') False, OgRelease] g)) \<le> 1"
proof -
  let ?o = "\<lparr>olo_maxConcurrent = Some (JNum 1), olo_maxQueued = None, olo_queueTimeoutMs = None\<rparr>"
  let ?es = "[OgAcquire 1 (js ''a'') False, OgAcquire 2 (js ''b'') False, OgRelease]"
  obtain g where g: "newOriginLoadGate ?o None = Inr g" and mc: "og_maxConcurrent g = 1" "og_active g = 0" "og_queued g = []"
      "\<not> og_closed g"
    by (simp add: newOriginLoadGate_def Let_def MAX_SAFE_INTEGER_def)
  have "og.legal_run ?es g" using mc by (simp add: og_acquire_def Let_def og_reserve_frame)
  from origin_gate_run [OF g this] show ?thesis using g mc by auto
qed

text \<open>
  L2 operations: the same for the gate in front of L2, where a slot is held until the underlying
  call settles even if its caller has timed out; in addition the byte counts of running and waiting
  calls are exact.
\<close>

theorem l2_gate_run:
  assumes "newL2OperationGate opts = Inr g" and "l2.legal_run es g"
  shows "l2_active (fst (l2.run es g)) \<le> l2_maxConcurrent g
    \<and> (l2_queue (fst (l2.run es g)) \<noteq> [] \<longrightarrow> l2_active (fst (l2.run es g)) = l2_maxConcurrent g)
    \<and> length (l2_queue (fst (l2.run es g))) \<le> l2_maxQueued (fst (l2.run es g))
    \<and> l2_activeBytes (fst (l2.run es g)) = rsum (l2_running (fst (l2.run es g)))
    \<and> l2_queuedBytes (fst (l2.run es g)) = rsum (l2_queue (fst (l2.run es g)))
    \<and> l2_queuedBytes (fst (l2.run es g)) \<le> l2_maxQueuedBytes (fst (l2.run es g))
    \<and> subseq (snd (l2.run es g) @ map fst (l2_queue (fst (l2.run es g)))) (concat (map l2_arrived es))
    \<and> l2_active (fst (l2.run es g)) + sum_list (map l2_ended es) = length (snd (l2.run es g))"
proof -
  have g: "l2_inv g" "l2_waiting g = []" "l2_active g = 0" using newL2OperationGate_inv [OF assms(1)] by auto
  have inv: "l2_inv (fst (l2.run es g))" by (rule l2.run_inv [OF g(1) assms(2)])
  show ?thesis
    using l2.run_bounded [OF g(1) assms(2)] l2.run_fifo [OF g(1) assms(2)] l2.run_count [OF g(1) assms(2)] g(2,3)
      inv [unfolded l2_inv_def]
    by (simp add: l2_waiting_def)
qed

theorem l2_gate_run_witness:
  "\<exists>g. newL2OperationGate \<lparr>l2o_maxConcurrent = Some (JNum 1), l2o_maxQueued = None, l2o_maxQueuedBytes = None,
        l2o_queueTimeoutMs = None, l2o_operationTimeoutMs = None\<rparr> = Inr g
    \<and> l2_active (fst (l2.run [L2Run 1 (JNum 10), L2Run 2 (JNum 20), L2Timeout, L2Settle 1 10] g)) \<le> 1"
proof -
  let ?o = "\<lparr>l2o_maxConcurrent = Some (JNum 1), l2o_maxQueued = None, l2o_maxQueuedBytes = None,
        l2o_queueTimeoutMs = None, l2o_operationTimeoutMs = None\<rparr>"
  let ?es = "[L2Run 1 (JNum 10), L2Run 2 (JNum 20), L2Timeout, L2Settle 1 10]"
  obtain g where g: "newL2OperationGate ?o = Inr g" and mc: "l2_maxConcurrent g = 1" "l2_active g = 0" "l2_queue g = []"
      "\<not> l2_closed g" "l2_running g = []" "l2_maxQueued g = 1024" "l2_maxQueuedBytes g = 33554432" "l2_queuedBytes g = 0"
    by (simp add: newL2OperationGate_def Let_def MAX_SAFE_INTEGER_def)
  have "l2.legal_run ?es g" using mc by (simp add: l2_run_def l2_start_def Let_def payload_size_def l2_commandTimeout_def)
  from l2_gate_run [OF g this] show ?thesis using g mc by auto
qed

text \<open>
  Transaction commands: the same for the dispatcher of the transaction transport, whose pump also
  drops waiters past their deadline without giving them a slot.
\<close>

theorem operation_gate_run:
  assumes "newBoundedOperationGate opts = Inr g" and "bg.legal_run es g"
  shows "bg_active (fst (bg.run es g)) \<le> bg_maxConcurrent g
    \<and> (bg_queue (fst (bg.run es g)) \<noteq> [] \<longrightarrow> bg_active (fst (bg.run es g)) = bg_maxConcurrent g)
    \<and> length (bg_queue (fst (bg.run es g))) \<le> bg_maxQueued (fst (bg.run es g))
    \<and> bg_activeBytes (fst (bg.run es g)) = rsum (bg_running (fst (bg.run es g)))
    \<and> bg_queuedBytes (fst (bg.run es g)) = bg_bytes (bg_queue (fst (bg.run es g)))
    \<and> bg_queuedBytes (fst (bg.run es g)) \<le> bg_maxQueuedBytes (fst (bg.run es g))
    \<and> subseq (snd (bg.run es g) @ map fst (bg_queue (fst (bg.run es g)))) (concat (map bg_arrived es))
    \<and> bg_active (fst (bg.run es g)) + sum_list (map bg_ended es) = length (snd (bg.run es g))"
proof -
  have g: "bg_inv g" "bg_waiting g = []" "bg_active g = 0" using newBoundedOperationGate_inv [OF assms(1)] by auto
  have inv: "bg_inv (fst (bg.run es g))" by (rule bg.run_inv [OF g(1) assms(2)])
  show ?thesis
    using bg.run_bounded [OF g(1) assms(2)] bg.run_fifo [OF g(1) assms(2)] bg.run_count [OF g(1) assms(2)] g(2,3)
      inv [unfolded bg_inv_def bg_core_def]
    by (simp add: bg_waiting_def)
qed

theorem operation_gate_run_witness:
  "\<exists>g. newBoundedOperationGate \<lparr>bgo_maxConcurrent = Some (JNum 1), bgo_maxQueued = None, bgo_maxQueuedBytes = None,
        bgo_queueTimeoutMs = None, bgo_operationTimeoutMs = None\<rparr> = Inr g
    \<and> bg_active (fst (bg.run [BgRun 1 (JNum 10) None 0 False, BgRun 2 (JNum 20) None 1 False, BgSettle 1 10 5] g)) \<le> 1"
proof -
  let ?o = "\<lparr>bgo_maxConcurrent = Some (JNum 1), bgo_maxQueued = None, bgo_maxQueuedBytes = None,
        bgo_queueTimeoutMs = None, bgo_operationTimeoutMs = None\<rparr>"
  let ?es = "[BgRun 1 (JNum 10) None 0 False, BgRun 2 (JNum 20) None 1 False, BgSettle 1 10 5]"
  obtain g where g: "newBoundedOperationGate ?o = Inr g" and mc: "bg_maxConcurrent g = 1" "bg_active g = 0" "bg_queue g = []"
      "\<not> bg_closed g" "bg_running g = []" "bg_maxQueued g = 1024" "bg_maxQueuedBytes g = 4194304" "bg_queuedBytes g = 0"
      "bg_operationTimeoutMs g = 2000"
    by (simp add: newBoundedOperationGate_def Let_def MAX_SAFE_INTEGER_def bg_positiveInteger_def)
  have "bg.legal_run ?es g" using mc by (simp add: bg_run_def bg_start_def Let_def MAX_SAFE_INTEGER_def)
  from operation_gate_run [OF g this] show ?thesis using g mc by auto
qed

end
