(* ===== verification/Pattern.thy ===== *)
theory Pattern
  imports LL_Prelude "HOL-Library.Sublist"
begin

text \<open>
  Pattern matching on cache keys (\<open>cache/pattern.ts\<close>): literal segments between asterisks, found left to
  right with the Knuth-Morris-Pratt search. The theory states what a pattern means (\<open>glob\<close>), shows that
  the search finds the leftmost occurrence, and that taking the leftmost occurrence of every segment
  loses no match although an asterisk does not cross a line terminator.
\<close>

section \<open>The code\<close>

definition isLineTerminator :: "unit16 \<Rightarrow> bool" where
  "isLineTerminator code \<longleftrightarrow> code = 10 \<or> code = 13 \<or> code = 0x2028 \<or> code = 0x2029"

text \<open>\<open>value[i]\<close> and \<open>failure[i]\<close>: nothing out of range.\<close>

definition str_at :: "'a list \<Rightarrow> nat \<Rightarrow> 'a option" where
  "str_at s i = (if i < length s then Some (s ! i) else None)"

function hasLineTerminator :: "jsstr \<Rightarrow> nat \<Rightarrow> nat \<Rightarrow> bool" where
  "hasLineTerminator v index end1 = (if index < end1
     then (case str_at v index of Some c \<Rightarrow> isLineTerminator c | None \<Rightarrow> False)
       \<or> hasLineTerminator v (index + 1) end1
     else False)"
  by pat_completeness auto
termination by (relation "measure (\<lambda>(v, i, e). e - i)") auto

text \<open>
  The inner loop \<open>while (matched > 0 && c !== literal[matched]) matched = failure[matched - 1]\<close>. Nothing
  in the loop itself bounds it, so it is a partial function; a table read out of range has no value.
\<close>

partial_function (option) fall_back :: "jsstr \<Rightarrow> nat list \<Rightarrow> unit16 option \<Rightarrow> nat \<Rightarrow> nat option" where
  "fall_back literal failure c matched = (if 0 < matched \<and> c \<noteq> str_at literal matched
     then (case str_at failure (matched - 1) of None \<Rightarrow> None
       | Some m \<Rightarrow> fall_back literal failure c m)
     else Some matched)"

definition advance :: "jsstr \<Rightarrow> nat list \<Rightarrow> unit16 option \<Rightarrow> nat \<Rightarrow> nat option" where
  "advance literal failure c matched = map_option
     (\<lambda>m. if c = str_at literal m then m + 1 else m) (fall_back literal failure c matched)"

text \<open>The first loop: the failure table, whose entries are unsigned 32-bit integers.\<close>

function failureTable :: "jsstr \<Rightarrow> nat \<Rightarrow> nat \<Rightarrow> nat list \<Rightarrow> nat list option" where
  "failureTable literal index matched failure = (if index < length literal
     then (case advance literal failure (str_at literal index) matched of None \<Rightarrow> None
       | Some m \<Rightarrow> failureTable literal (index + 1) m (failure[index := m mod 2 ^ 32]))
     else Some failure)"
  by pat_completeness auto
termination by (relation "measure (\<lambda>(l, i, m, f). length l - i)") auto

text \<open>The second loop: the search in \<open>value[start..end)\<close>; \<open>-1\<close> when there is no occurrence.\<close>

function searchFrom :: "jsstr \<Rightarrow> jsstr \<Rightarrow> nat list \<Rightarrow> nat \<Rightarrow> nat \<Rightarrow> nat \<Rightarrow> int option" where
  "searchFrom v literal failure index matched end1 = (if index < end1
     then (case advance literal failure (str_at v index) matched of None \<Rightarrow> None
       | Some m \<Rightarrow> if m = length literal then Some (int index - int (length literal) + 1)
                  else searchFrom v literal failure (index + 1) m end1)
     else Some (- 1))"
  by pat_completeness auto
termination by (relation "measure (\<lambda>(v, l, f, i, m, e). e - i)") auto

declare hasLineTerminator.simps [simp del] failureTable.simps [simp del] searchFrom.simps [simp del]

definition findLiteral :: "jsstr \<Rightarrow> jsstr \<Rightarrow> nat \<Rightarrow> nat \<Rightarrow> int option" where
  "findLiteral v literal start end1 =
     (case failureTable literal 1 0 (replicate (length literal) 0) of None \<Rightarrow> None
      | Some failure \<Rightarrow> searchFrom v literal failure start 0 end1)"

text \<open>\<open>pattern.split('*')\<close>.\<close>

fun split_star :: "jsstr \<Rightarrow> jsstr list" where
  "split_star [] = [[]]"
| "split_star (c # cs) = (if c = 42 then [] # split_star cs
     else (case split_star cs of p # ps \<Rightarrow> (c # p) # ps | [] \<Rightarrow> [[c]]))"

fun matchParts :: "jsstr \<Rightarrow> jsstr list \<Rightarrow> nat \<Rightarrow> nat \<Rightarrow> bool option" where
  "matchParts v [] position end1 = Some (\<not> hasLineTerminator v position end1)"
| "matchParts v (literal # ps) position end1 =
     (if literal = [] then matchParts v ps position end1
      else (case findLiteral v literal position end1 of None \<Rightarrow> None
        | Some found \<Rightarrow>
            if found < 0 \<or> hasLineTerminator v position (nat found) then Some False
            else matchParts v ps (nat found + length literal) end1))"

definition matchesPattern :: "jsstr \<Rightarrow> jsstr \<Rightarrow> bool option" where
  "matchesPattern v pattern =
     (if pattern = [42] then Some True
      else if 42 \<notin> set pattern then Some (v = pattern)
      else let parts = split_star pattern; first = hd parts; last1 = last parts in
        if \<not> prefix first v \<or> \<not> suffix last1 v then Some False
        else if length v < length first + length last1 then Some False
        else matchParts v (butlast (tl parts)) (length first) (length v - length last1))"

section \<open>What a pattern means\<close>

text \<open>
  An asterisk stands for any run of characters other than line terminators, every other character for
  itself.
\<close>

fun glob :: "jsstr \<Rightarrow> jsstr \<Rightarrow> bool" where
  "glob [] v = (v = [])"
| "glob (c # p) [] = (c = 42 \<and> glob p [])"
| "glob (c # p) (x # v) =
     (if c = 42 then glob p (x # v) \<or> (\<not> isLineTerminator x \<and> glob (c # p) v)
      else x = c \<and> glob p v)"

section \<open>The search\<close>

text \<open>\<open>longest p t m\<close>: the longest prefix of \<open>p\<close> that ends \<open>t\<close> has length \<open>m\<close>.\<close>

definition longest :: "jsstr \<Rightarrow> jsstr \<Rightarrow> nat \<Rightarrow> bool" where
  "longest p t m \<longleftrightarrow> m \<le> length p \<and> suffix (take m p) t
     \<and> (\<forall>k \<le> length p. suffix (take k p) t \<longrightarrow> k \<le> m)"

lemma longest_max: "longest p t m \<Longrightarrow> k \<le> length p \<Longrightarrow> suffix (take k p) t \<Longrightarrow> k \<le> m"
  by (simp add: longest_def)

text \<open>The first \<open>n\<close> entries of the table are the longest proper borders.\<close>

definition table_ok :: "jsstr \<Rightarrow> nat list \<Rightarrow> nat \<Rightarrow> bool" where
  "table_ok p f n \<longleftrightarrow> length f = length p \<and> n \<le> length p
     \<and> (\<forall>j < n. longest p (drop 1 (take (Suc j) p)) (f ! j))"

lemma suffix_tl_iff: "ys \<noteq> [] \<Longrightarrow> suffix xs (drop 1 ys) \<longleftrightarrow> suffix xs ys \<and> length xs < length ys"
  by (cases ys) (auto simp: suffix_Cons dest: suffix_length_le)

lemma longest_less: "longest p (drop 1 (take (Suc j) p)) m \<Longrightarrow> j < length p \<Longrightarrow> m \<le> j"
  using suffix_length_le [of "take m p" "drop 1 (take (Suc j) p)"] by (auto simp: longest_def)

lemma suffix_take_both:
  "suffix (take m p) t \<Longrightarrow> k < m \<Longrightarrow> m \<le> length p \<Longrightarrow>
     suffix (take k p) t \<longleftrightarrow> suffix (take k p) (drop 1 (take m p))"
  using suffix_length_suffix [of "take k p" t "take m p"] suffix_order.trans [of "take k p" "take m p" t]
  by (subst suffix_tl_iff) auto

lemma fall_back_spec:
  assumes "table_ok p f n" "m \<le> n" "m < length p" "suffix (take m p) t"
    and "\<forall>k. m < k \<and> k < length p \<and> suffix (take k p) t \<longrightarrow> Some (p ! k) \<noteq> c"
  shows "\<exists>r. fall_back p f c m = Some r \<and> r \<le> m \<and> suffix (take r p) t \<and> (r = 0 \<or> c = Some (p ! r))
     \<and> (\<forall>k. r < k \<and> k < length p \<and> suffix (take k p) t \<longrightarrow> Some (p ! k) \<noteq> c)"
  using assms(2-)
proof (induction m rule: less_induct)
  case (less m)
  show ?case
  proof (cases "0 < m \<and> c \<noteq> Some (p ! m)")
    case False
    then show ?thesis using less.prems by (subst fall_back.simps) (auto simp: str_at_def)
  next
    case True
    define m' where "m' = f ! (m - 1)"
    have lb: "longest p (drop 1 (take m p)) m'"
      using assms(1) True less.prems unfolding table_ok_def m'_def
      by (metis One_nat_def Suc_pred' diff_Suc_less less_le_trans order_less_le_trans le_neq_implies_less lessI less_imp_diff_less nat_less_le not_less)
    have m': "m' < m" using longest_less [of p "m - 1" m'] lb True less.prems(2) by fastforce
    have step: "fall_back p f c m = fall_back p f c m'"
      using True less.prems assms(1) by (subst fall_back.simps) (auto simp: str_at_def table_ok_def m'_def)
    have suf: "suffix (take m' p) t"
      using lb suffix_take_both [of m p t m'] less.prems m' by (auto simp: longest_def)
    have none: "Some (p ! k) \<noteq> c" if k: "m' < k" "k < length p" "suffix (take k p) t" for k
    proof (cases "k < m")
      case True
      then have "suffix (take k p) (drop 1 (take m p))"
        using suffix_take_both [of m p t k] less.prems k by simp
      then show ?thesis using longest_max [OF lb, of k] k by simp
    next
      case False
      then show ?thesis using True less.prems k by (cases "k = m") auto
    qed
    show ?thesis using less.IH [OF m'] m' less.prems suf none step by auto
  qed
qed

lemma suffix_snoc_take: "k < length p \<Longrightarrow> suffix (take (Suc k) p) (t @ [x]) \<longleftrightarrow> p ! k = x \<and> suffix (take k p) t"
  by (simp add: take_Suc_conv_app_nth)

lemma advance_spec:
  assumes "table_ok p f n" "m \<le> n" "m < length p" "longest p t m"
  shows "\<exists>r. advance p f (Some x) m = Some r \<and> r \<le> Suc m \<and> longest p (t @ [x]) r"
proof -
  have pre: "suffix (take m p) t" "\<forall>k. m < k \<and> k < length p \<and> suffix (take k p) t \<longrightarrow> Some (p ! k) \<noteq> Some x"
    using assms(4) longest_max [OF assms(4)] by (simp add: longest_def, metis less_imp_le not_le)
  obtain r where r: "fall_back p f (Some x) m = Some r" "r \<le> m" "suffix (take r p) t" "r = 0 \<or> x = p ! r"
    "\<forall>k. r < k \<and> k < length p \<and> suffix (take k p) t \<longrightarrow> p ! k \<noteq> x"
    using fall_back_spec [OF assms(1-3) pre] by auto
  have upper: "k \<le> (if x = p ! r then Suc r else r)"
    if k: "k \<le> length p" "suffix (take k p) (t @ [x])" for k
  proof (cases k)
    case (Suc j)
    then have "p ! j = x" "suffix (take j p) t" using k suffix_snoc_take [of j p t x] by auto
    then show ?thesis using r(4,5) Suc k by (cases "r < j"; cases "j = r") auto
  qed simp
  have "longest p (t @ [x]) (if x = p ! r then Suc r else r)"
    using upper r assms(3) suffix_snoc_take [of r p t x] by (auto simp: longest_def)
  then show ?thesis using r assms(3) by (auto simp: advance_def str_at_def)
qed

lemma longest_Nil: "longest p [] 0"
  by (auto simp: longest_def)

lemma drop1_take_Suc: "0 < i \<Longrightarrow> i < length p \<Longrightarrow> drop 1 (take (Suc i) p) = drop 1 (take i p) @ [p ! i]"
  by (simp add: take_Suc_conv_app_nth)

lemma failureTable_ok:
  "length p < 2 ^ 32 \<Longrightarrow> table_ok p f i \<Longrightarrow> 0 < i \<Longrightarrow> m < i \<Longrightarrow> longest p (drop 1 (take i p)) m \<Longrightarrow>
     \<exists>g. failureTable p i m f = Some g \<and> table_ok p g (length p)"
proof (induction p i m f rule: failureTable.induct)
  case (1 p i m f)
  show ?case
  proof (cases "i < length p")
    case False
    then show ?thesis using 1 by (subst failureTable.simps) (auto simp: table_ok_def)
  next
    case True
    obtain r where r: "advance p f (Some (p ! i)) m = Some r" "r \<le> Suc m"
      "longest p (drop 1 (take (Suc i) p)) r"
      using advance_spec [of p f i m "drop 1 (take i p)" "p ! i"] 1 True drop1_take_Suc [of i p] by auto
    have "r mod 2 ^ 32 = r" using r(2) 1 True by simp
    moreover have "table_ok p (f[i := r]) (Suc i)"
      using 1(3) r True unfolding table_ok_def by (auto simp: nth_list_update less_Suc_eq)
    ultimately show ?thesis
      using 1(1) [of r] 1 True r by (subst failureTable.simps) (simp add: str_at_def)
  qed
qed

text \<open>An occurrence of \<open>p\<close> at position \<open>i\<close> of the text.\<close>

definition occurs :: "jsstr \<Rightarrow> jsstr \<Rightarrow> nat \<Rightarrow> bool" where
  "occurs p v i \<longleftrightarrow> take (length p) (drop i v) = p"

lemma suffix_drop_iff: "length t = n + length p \<Longrightarrow> suffix p t \<longleftrightarrow> p = drop n t"
  by (metis add_diff_cancel_right' append_eq_conv_conj append_take_drop_id length_append suffix_def)

lemma occurs_suffix:
  assumes "e \<le> length v" "s + length p \<le> e"
  shows "suffix p (drop s (take e v)) \<longleftrightarrow> occurs p v (e - length p)"
proof -
  have "suffix p (drop s (take e v)) \<longleftrightarrow> p = drop (e - s - length p) (drop s (take e v))"
    using assms by (intro suffix_drop_iff) simp
  also have "drop (e - s - length p) (drop s (take e v)) = take (length p) (drop (e - length p) v)"
    using assms by (simp add: drop_take)
  finally show ?thesis by (auto simp: occurs_def)
qed

text \<open>The leftmost occurrence inside \<open>[s, e)\<close>, or \<open>-1\<close>.\<close>

definition leftmost :: "jsstr \<Rightarrow> jsstr \<Rightarrow> nat \<Rightarrow> nat \<Rightarrow> int \<Rightarrow> bool" where
  "leftmost p v s e r \<longleftrightarrow>
     (r = - 1 \<and> (\<forall>j. s \<le> j \<and> j + length p \<le> e \<longrightarrow> \<not> occurs p v j))
     \<or> (\<exists>i. r = int i \<and> s \<le> i \<and> i + length p \<le> e \<and> occurs p v i
          \<and> (\<forall>j. s \<le> j \<and> j < i \<longrightarrow> \<not> occurs p v j))"

lemma searchFrom_leftmost:
  assumes "table_ok p f (length p)" "p \<noteq> []" "e \<le> length v"
  shows "s \<le> i \<Longrightarrow> i \<le> e \<Longrightarrow> m < length p \<Longrightarrow> longest p (drop s (take i v)) m \<Longrightarrow>
     (\<forall>j. s \<le> j \<and> j + length p \<le> i \<longrightarrow> \<not> occurs p v j) \<Longrightarrow>
     \<exists>r. searchFrom v p f i m e = Some r \<and> leftmost p v s e r"
  using assms
proof (induction v p f i m e rule: searchFrom.induct)
  case (1 v p f i m e)
  show ?case
  proof (cases "i < e")
    case False
    then show ?thesis using 1 by (subst searchFrom.simps) (auto simp: leftmost_def)
  next
    case True
    have t: "drop s (take (Suc i) v) = drop s (take i v) @ [v ! i]"
      using True 1 by (simp add: take_Suc_conv_app_nth)
    obtain r where r: "advance p f (Some (v ! i)) m = Some r" "longest p (drop s (take (Suc i) v)) r"
      using advance_spec [of p f "length p" m "drop s (take i v)" "v ! i"] 1 t by auto
    have new: "occurs p v (Suc i - length p) \<longleftrightarrow> r = length p" if "s + length p \<le> Suc i"
      using occurs_suffix [of "Suc i" v s p] r(2) that True 1
      by (auto simp: longest_def)
    show ?thesis
    proof (cases "r = length p")
      case rp: True
      have len: "s + length p \<le> Suc i"
        using r(2) rp suffix_length_le [of p "drop s (take (Suc i) v)"] 1 True by (auto simp: longest_def)
      define i0 where "i0 = Suc i - length p"
      have i0: "occurs p v i0" "s \<le> i0" "i0 + length p = Suc i" using new len rp by (auto simp: i0_def)
      have "\<not> occurs p v j" if "s \<le> j" "j < i0" for j using 1 that i0 by simp
      moreover have "searchFrom v p f i m e = Some (int i0)"
        using True r(1) rp i0 1 by (subst searchFrom.simps) (simp add: str_at_def)
      ultimately show ?thesis using i0 True by (auto simp: leftmost_def)
    next
      case False
      have none: "\<not> occurs p v j" if "s \<le> j" "j + length p \<le> Suc i" for j
      proof (cases "j + length p = Suc i")
        case True
        then have "j = Suc i - length p" by simp
        then show ?thesis using new False that True by simp
      next
        case False
        then show ?thesis using 1 that by simp
      qed
      have "r < length p" using False r(2) by (auto simp: longest_def)
      then have "\<exists>x. searchFrom v p f (i + 1) r e = Some x \<and> leftmost p v s e x"
        using 1(1) [of r] True r 1 False none by (simp add: str_at_def)
      then show ?thesis using True r(1) False 1 by (subst searchFrom.simps) (simp add: str_at_def)
    qed
  qed
qed

lemma findLiteral_leftmost:
  assumes "p \<noteq> []" "length p < 2 ^ 32" "s \<le> e" "e \<le> length v"
  shows "\<exists>r. findLiteral v p s e = Some r \<and> leftmost p v s e r"
proof -
  have "longest p [] 0" by (rule longest_Nil)
  then have "table_ok p (replicate (length p) 0) 1"
    using assms(1) by (cases p) (auto simp: table_ok_def)
  moreover have "drop 1 (take 1 p) = []" using assms(1) by (cases p) auto
  ultimately obtain g where g: "failureTable p 1 0 (replicate (length p) 0) = Some g" "table_ok p g (length p)"
    using failureTable_ok [of p "replicate (length p) 0" 1 0] assms longest_Nil [of p] by auto
  have "drop s (take s v) = []" by simp
  moreover have "\<forall>j. s \<le> j \<and> j + length p \<le> s \<longrightarrow> \<not> occurs p v j"
    using assms(1) by (cases p) auto
  ultimately show ?thesis
    using searchFrom_leftmost [of p g e v s s 0] g assms longest_Nil [of p] by (simp add: findLiteral_def)
qed

section \<open>Leftmost segments lose no match\<close>

definition clean :: "jsstr \<Rightarrow> bool" where
  "clean s \<longleftrightarrow> list_all (\<lambda>c. \<not> isLineTerminator c) s"

lemma clean_append [simp]: "clean (a @ b) \<longleftrightarrow> clean a \<and> clean b"
  by (simp add: clean_def)

lemma clean_simps [simp]: "clean []" "clean (x # xs) \<longleftrightarrow> \<not> isLineTerminator x \<and> clean xs"
  by (simp_all add: clean_def)

lemma clean_drop: "clean s \<Longrightarrow> clean (drop n s)"
  by (metis append_take_drop_id clean_append)

lemma hasLineTerminator_clean:
  "e \<le> length v \<Longrightarrow> hasLineTerminator v i e \<longleftrightarrow> \<not> clean (drop i (take e v))"
proof (induction v i e rule: hasLineTerminator.induct)
  case (1 v i e)
  show ?case
  proof (cases "i < e")
    case True
    then have "drop i (take e v) = v ! i # drop (i + 1) (take e v)"
      using 1 by (simp add: Cons_nth_drop_Suc [symmetric])
    then show ?thesis using 1 True by (subst hasLineTerminator.simps) (simp add: str_at_def)
  qed (subst hasLineTerminator.simps, use 1 in simp)
qed

text \<open>The middle segments, each after a clean gap, and a clean rest.\<close>

fun segments :: "jsstr list \<Rightarrow> jsstr \<Rightarrow> bool" where
  "segments [] w = clean w"
| "segments (q # qs) w = (\<exists>a b. w = a @ q @ b \<and> clean a \<and> segments qs b)"

lemma segments_shift: "clean a \<Longrightarrow> segments qs b \<Longrightarrow> segments qs (a @ b)"
proof (cases qs)
  case (Cons q qs')
  assume a: "clean a" and "segments qs b"
  then obtain c d where "b = c @ q @ d" "clean c" "segments qs' d" using Cons by auto
  then have "a @ b = (a @ c) @ q @ d \<and> clean (a @ c) \<and> segments qs' d" using a by simp
  then show "segments qs (a @ b)" using Cons by (metis segments.simps(2))
qed simp

lemma segments_empty: "segments ([] # qs) w \<longleftrightarrow> segments qs w"
  using segments_shift [of _ qs] clean_simps(1) by (metis append_Nil segments.simps(2))

text \<open>A literal that overlaps itself after a clean shift is clean.\<close>

lemma shifted_clean: "clean d \<Longrightarrow> d \<noteq> [] \<Longrightarrow> q @ b = d @ q @ b' \<Longrightarrow> clean q"
proof (induction "length q" arbitrary: q rule: less_induct)
  case less
  show ?case
  proof (cases "length q \<le> length d")
    case True
    then obtain d' where "d = q @ d'"
      using less.prems(3) by (metis append_eq_append_conv_if append_take_drop_id)
    then show ?thesis using less.prems by simp
  next
    case False
    then obtain q2 where q: "q = d @ q2"
      using less.prems(3) by (metis append_eq_append_conv_if append_take_drop_id nat_le_linear)
    then have "q2 @ b = d @ q2 @ b'" using less.prems(3) by simp
    then show ?thesis using less.hyps [of q2] less.prems(1,2) q by simp
  qed
qed

lemma segments_leftmost:
  assumes w: "w = a @ q @ b" and left: "\<And>a' b'. w = a' @ q @ b' \<Longrightarrow> length a \<le> length a'"
  shows "segments (q # qs) w \<longleftrightarrow> clean a \<and> segments qs b"
proof
  assume "segments (q # qs) w"
  then obtain a' b' where w': "w = a' @ q @ b'" "clean a'" "segments qs b'" by auto
  obtain d where d: "a' = a @ d"
    using left [OF w'(1)] w w'(1) by (metis append_eq_append_conv_if append_take_drop_id)
  then have eq: "q @ b = d @ q @ b'" using w w'(1) by simp
  have "drop (length q) (q @ b) = drop (length q) ((d @ q) @ b')" using eq by simp
  then have b: "b = drop (length q) (d @ q) @ b'" by simp
  have "clean (drop (length q) (d @ q))"
    using shifted_clean [of d q b b'] eq w'(2) d by (cases "d = []") (auto intro: clean_drop)
  then have "segments qs b" using segments_shift [of "drop (length q) (d @ q)" qs b'] w'(3) b by metis
  then show "clean a \<and> segments qs b" using d w' by simp
next
  assume "clean a \<and> segments qs b"
  then show "segments (q # qs) w" using w by auto
qed

lemma occurs_split: "occurs q v i \<Longrightarrow> i \<le> length v \<Longrightarrow> v = take i v @ q @ drop (i + length q) v"
  by (metis append_take_drop_id drop_drop add.commute occurs_def)

lemma occurs_in_window:
  assumes "e \<le> length v" "drop s (take e v) = a @ q @ b" "s \<le> e"
  shows "occurs q v (s + length a) \<and> s + length a + length q \<le> e"
proof -
  have "take (length q) (drop (length a) (drop s (take e v))) = q" using assms(2) by simp
  moreover have len: "e - s = length a + length q + length b"
    using arg_cong [OF assms(2), of length] assms(1) by simp
  ultimately show ?thesis using assms by (simp add: occurs_def drop_take add.commute min_def)
qed

lemma window_of_occurs:
  assumes "occurs q v i" "s \<le> i" "i + length q \<le> e" "e \<le> length v"
  shows "drop s (take e v) = drop s (take i v) @ q @ drop (i + length q) (take e v)"
proof -
  have "take (length q) (drop i (take e v)) = q"
    using assms by (simp add: occurs_def drop_take)
  then have "drop i (take e v) = q @ drop (i + length q) (take e v)"
    by (metis append_take_drop_id drop_drop add.commute)
  moreover have "take e v = take i v @ drop i (take e v)"
  proof -
    have "take i (take e v) = take i v" using assms by (simp add: min_def)
    then show ?thesis by (metis append_take_drop_id)
  qed
  moreover have "drop s (take i v @ x) = drop s (take i v) @ x" for x using assms by simp
  ultimately show ?thesis by metis
qed

lemma matchParts_segments:
  assumes "e \<le> length v" "\<forall>q \<in> set qs. length q < 2 ^ 32"
  shows "s \<le> e \<Longrightarrow> matchParts v qs s e = Some (segments qs (drop s (take e v)))"
  using assms(2)
proof (induction qs arbitrary: s)
  case Nil
  then show ?case using hasLineTerminator_clean [OF assms(1)] by simp
next
  case (Cons q qs)
  show ?case
  proof (cases "q = []")
    case True
    then show ?thesis using Cons segments_empty by simp
  next
    case False
    obtain r where r: "findLiteral v q s e = Some r" "leftmost q v s e r"
      using findLiteral_leftmost [of q s e v] False Cons assms(1) by auto
    show ?thesis
    proof (cases "r = - 1")
      case True
      then have none: "\<forall>j. s \<le> j \<and> j + length q \<le> e \<longrightarrow> \<not> occurs q v j"
        using r(2) by (simp add: leftmost_def)
      have "\<not> segments (q # qs) (drop s (take e v))"
      proof
        assume "segments (q # qs) (drop s (take e v))"
        then obtain a b where "drop s (take e v) = a @ q @ b" by auto
        then show False using occurs_in_window [OF assms(1) _ Cons.prems(1)] none le_add1 by metis
      qed
      then show ?thesis using r(1) True False by simp
    next
      case False
      then obtain i where i: "r = int i" "s \<le> i" "i + length q \<le> e" "occurs q v i"
        "\<forall>j. s \<le> j \<and> j < i \<longrightarrow> \<not> occurs q v j"
        using r(2) by (auto simp: leftmost_def)
      let ?a = "drop s (take i v)" and ?b = "drop (i + length q) (take e v)"
      have w: "drop s (take e v) = ?a @ q @ ?b" using window_of_occurs i assms(1) by blast
      have "length ?a \<le> length a'" if "drop s (take e v) = a' @ q @ b'" for a' b'
        using occurs_in_window [OF assms(1) that Cons.prems(1)] i assms(1) by (auto simp: not_less [symmetric])
      then have "segments (q # qs) (drop s (take e v)) \<longleftrightarrow> clean ?a \<and> segments qs ?b"
        using segments_leftmost [OF w] by blast
      then show ?thesis
        using r(1) i \<open>q \<noteq> []\<close> Cons hasLineTerminator_clean [of i v s] assms(1) by simp
    qed
  qed
qed

section \<open>Patterns and their segments\<close>

text \<open>The segments after the first, the last one anchored at the end.\<close>

fun tail_match :: "jsstr list \<Rightarrow> jsstr \<Rightarrow> bool" where
  "tail_match [] w = (w = [])"
| "tail_match (q # qs) w = (\<exists>a b. w = a @ q @ b \<and> clean a \<and> tail_match qs b)"

lemma split_star_nonempty: "split_star p \<noteq> []"
  by (induction p) (auto split: list.splits)

lemma tail_match_Nil_cons: "tail_match ([] # qs) w \<longleftrightarrow> (\<exists>a b. w = a @ b \<and> clean a \<and> tail_match qs b)"
  by simp

lemma ex_append_Cons:
  "(\<exists>a b. x # w = a @ b \<and> P a b) \<longleftrightarrow> P [] (x # w) \<or> (\<exists>a b. w = a @ b \<and> P (x # a) b)"
  (is "?l \<longleftrightarrow> ?r")
proof
  assume ?l
  then obtain a b where "x # w = a @ b" "P a b" by blast
  then show ?r by (cases a) auto
next
  assume ?r
  then show ?l by (metis append_Cons append_Nil)
qed

lemma glob_star: "glob (42 # p) w \<longleftrightarrow> (\<exists>a b. w = a @ b \<and> clean a \<and> glob p b)"
proof (induction w)
  case (Cons x w)
  have "(\<exists>a b. x # w = a @ b \<and> clean a \<and> glob p b)
      \<longleftrightarrow> glob p (x # w) \<or> (\<not> isLineTerminator x \<and> (\<exists>a b. w = a @ b \<and> clean a \<and> glob p b))"
    using ex_append_Cons [of x w "\<lambda>a b. clean a \<and> glob p b"] by auto
  then show ?case using Cons by simp
qed auto

lemma glob_split: "glob p w \<longleftrightarrow> (\<exists>b. w = hd (split_star p) @ b \<and> tail_match (tl (split_star p)) b)"
proof (induction p arbitrary: w)
  case (Cons c p)
  obtain q qs where q: "split_star p = q # qs" using split_star_nonempty [of p] by (cases "split_star p") auto
  show ?case
  proof (cases "c = 42")
    case True
    then show ?thesis using Cons q glob_star [of p w] by auto
  next
    case False
    then show ?thesis using Cons q by (cases w) auto
  qed
qed simp

lemma tail_match_snoc: "tail_match (qs @ [l]) w \<longleftrightarrow> (\<exists>u. w = u @ l \<and> segments qs u)"
proof (induction qs arbitrary: w)
  case (Cons q qs)
  have "(\<exists>a b. w = a @ q @ b \<and> clean a \<and> (\<exists>u. b = u @ l \<and> segments qs u))
      \<longleftrightarrow> (\<exists>u. w = u @ l \<and> (\<exists>a b. u = a @ q @ b \<and> clean a \<and> segments qs b))"
    by (metis append_assoc)
  then show ?case using Cons by simp
qed auto

lemma split_star_plain: "42 \<notin> set p \<longleftrightarrow> tl (split_star p) = []"
  by (induction p) (auto simp: split_star_nonempty split: list.splits)

lemma split_star_plain_hd: "tl (split_star p) = [] \<Longrightarrow> split_star p = [p]"
  by (induction p) (auto simp: split_star_nonempty split: list.splits if_splits)

lemma split_star_lengths: "q \<in> set (split_star p) \<Longrightarrow> length q \<le> length p"
  by (induction p arbitrary: q) (auto split: list.splits if_splits, fastforce+)

section \<open>Correctness\<close>

lemma matchesPattern_star:
  assumes "42 \<in> set p" "p \<noteq> [42]" "length p < 2 ^ 32"
  shows "matchesPattern v p = Some (glob p v)"
proof -
  obtain f rest where sp: "split_star p = f # rest" using split_star_nonempty [of p] by (cases "split_star p") auto
  have ne: "rest \<noteq> []" using split_star_plain [of p] sp assms(1) by auto
  define l where "l = last rest"
  define qs where "qs = butlast rest"
  have rest: "rest = qs @ [l]" using ne by (simp add: l_def qs_def)
  have short: "\<forall>q \<in> set qs. length q < 2 ^ 32"
  proof
    fix q
    assume "q \<in> set qs"
    then have "q \<in> set (split_star p)" using sp rest by simp
    then show "length q < 2 ^ 32" using order.strict_trans1 [OF split_star_lengths assms(3)] by simp
  qed
  have g: "glob p v \<longleftrightarrow> (\<exists>u. v = f @ u @ l \<and> segments qs u)"
    using glob_split [of p v] sp rest tail_match_snoc [of qs l] by auto
  have code: "matchesPattern v p = (if \<not> prefix f v \<or> \<not> suffix l v then Some False
      else if length v < length f + length l then Some False
      else matchParts v qs (length f) (length v - length l))"
    using assms(1,2) sp ne by (simp add: matchesPattern_def Let_def l_def qs_def)
  show ?thesis
  proof (cases "\<exists>u. v = f @ u @ l")
    case True
    then obtain u where u: "v = f @ u @ l" by blast
    have "drop (length f) (take (length v - length l) v) = u" using u by simp
    then have "matchParts v qs (length f) (length v - length l) = Some (segments qs u)"
      using matchParts_segments [OF _ short, of "length v - length l" v "length f"] u by simp
    moreover have "glob p v \<longleftrightarrow> segments qs u" using g u by auto
    ultimately show ?thesis using code u by (simp add: prefix_def suffix_def)
  next
    case False
    have "length v < length f + length l" if "prefix f v" "suffix l v"
    proof -
      obtain x where x: "v = f @ x" using \<open>prefix f v\<close> by (auto simp: prefix_def)
      have "\<not> suffix l x" using False x by (auto simp: suffix_def)
      then have "length x < length l"
        using suffix_length_suffix [of l v x] that x by (metis not_less suffixI)
      then show ?thesis using x by simp
    qed
    then show ?thesis using code g False by auto
  qed
qed

lemma matchesPattern_meaning:
  assumes "length pattern < 2 ^ 32"
  shows "matchesPattern v pattern = Some (pattern = [42] \<or> glob pattern v)"
proof (cases "42 \<in> set pattern")
  case True
  then show ?thesis using matchesPattern_star [of pattern v] assms
    by (cases "pattern = [42]") (auto simp: matchesPattern_def)
next
  case False
  then have "split_star pattern = [pattern]"
    using split_star_plain [of pattern] split_star_plain_hd [of pattern] by simp
  then show ?thesis using False glob_split [of pattern v] by (auto simp: matchesPattern_def)
qed

text \<open>
  C19. \<open>matchesPattern\<close> returns on every pattern shorter than \<open>2^32\<close> code units, and its answer is the
  meaning of the pattern: the lone asterisk matches every value, and any other pattern matches exactly
  the values its literals and asterisks spell, an asterisk covering any run of characters without a
  line terminator. The segment-by-segment search with its failure table loses no match.
\<close>

theorem matchesPattern_correct:
  assumes "length pattern < 2 ^ 32"
  shows "matchesPattern v pattern = Some (pattern = [42] \<or> glob pattern v)"
  by (rule matchesPattern_meaning [OF assms])

theorem matchesPattern_correct_witness:
  "matchesPattern [117, 97, 98, 97, 98, 58, 120] [117, 42, 97, 98, 58, 42] = Some True
   \<and> matchesPattern [117, 58, 10] [117, 58, 42] = Some False"
  using matchesPattern_correct [of "[117, 42, 97, 98, 58, 42]" "[117, 97, 98, 97, 98, 58, 120]"]
    matchesPattern_correct [of "[117, 58, 42]" "[117, 58, 10]"]
  by (simp add: isLineTerminator_def)

end
