(* ===== verification/Utf8_Validation.thy ===== *)
theory Utf8_Validation
  imports JS_Value
begin

text \<open>
  The UTF-8 range check of \<open>utils/decodeValidation.ts\<close>. It accepts exactly the encodings of well-formed
  UTF-16 strings, so a string body that passes it decodes without replacement characters.
\<close>

section \<open>The code\<close>

text \<open>\<open>input[i]\<close>: undefined out of range, which fails every comparison.\<close>

definition byte_at :: "bytes \<Rightarrow> nat \<Rightarrow> byte option" where
  "byte_at input i = (if i < length input then Some (input ! i) else None)"

fun between :: "byte option \<Rightarrow> byte \<Rightarrow> byte \<Rightarrow> bool" where
  "between (Some b) lo hi = (lo \<le> b \<and> b \<le> hi)"
| "between None lo hi = False"

definition isContinuation :: "byte option \<Rightarrow> bool" where
  "isContinuation b = between b 0x80 0xbf"

text \<open>One round of the loop: the next position, or nothing when it returns \<open>false\<close>.\<close>

definition utf8_step :: "bytes \<Rightarrow> nat \<Rightarrow> nat \<Rightarrow> nat option" where
  "utf8_step input position end1 =
     (let first = byte_at input position; p = position + 1 in
      if between first 0 0x7f then Some p
      else if between first 0xc2 0xdf then
        (if end1 \<le> p \<or> \<not> isContinuation (byte_at input p) then None else Some (p + 1))
      else if between first 0xe0 0xef then
        (if end1 \<le> p + 1 then None
         else let second = byte_at input p in
           if \<not> (if first = Some 0xe0 then between second 0xa0 0xbf
                 else if first = Some 0xed then between second 0x80 0x9f else isContinuation second) then None
           else if \<not> isContinuation (byte_at input (p + 1)) then None else Some (p + 2))
      else if between first 0xf0 0xf4 then
        (if end1 \<le> p + 2 then None
         else let second = byte_at input p in
           if \<not> (if first = Some 0xf0 then between second 0x90 0xbf
                 else if first = Some 0xf4 then between second 0x80 0x8f else isContinuation second) then None
           else if \<not> isContinuation (byte_at input (p + 1)) \<or> \<not> isContinuation (byte_at input (p + 2)) then None
           else Some (p + 3))
      else None)"

lemma utf8_step_progress: "utf8_step input position end1 = Some p \<Longrightarrow> position < p"
  by (auto simp: utf8_step_def Let_def split: if_splits)

function isSafeUtf8 :: "bytes \<Rightarrow> nat \<Rightarrow> nat \<Rightarrow> bool" where
  "isSafeUtf8 input position end1 = (if position < end1
     then (case utf8_step input position end1 of None \<Rightarrow> False | Some p \<Rightarrow> isSafeUtf8 input p end1)
     else True)"
  by pat_completeness auto
termination
  by (relation "measure (\<lambda>(i, p, e). e - p)") (auto dest: utf8_step_progress)

declare isSafeUtf8.simps [simp del]

section \<open>The same check on the bytes of the range\<close>

definition cont :: "byte \<Rightarrow> bool" where
  "cont b \<longleftrightarrow> 0x80 \<le> b \<and> b \<le> 0xbf"

text \<open>The second byte of a three- and of a four-byte form.\<close>

definition second3 :: "byte \<Rightarrow> byte \<Rightarrow> bool" where
  "second3 a b \<longleftrightarrow> (if a = 0xe0 then 0xa0 \<le> b \<and> b \<le> 0xbf else if a = 0xed then 0x80 \<le> b \<and> b \<le> 0x9f else cont b)"

definition second4 :: "byte \<Rightarrow> byte \<Rightarrow> bool" where
  "second4 a b \<longleftrightarrow> (if a = 0xf0 then 0x90 \<le> b \<and> b \<le> 0xbf else if a = 0xf4 then 0x80 \<le> b \<and> b \<le> 0x8f else cont b)"

fun valid_utf8 :: "bytes \<Rightarrow> bool" where
  "valid_utf8 [] = True"
| "valid_utf8 (a # r) =
     (if a \<le> 0x7f then valid_utf8 r
      else if 0xc2 \<le> a \<and> a \<le> 0xdf then (case r of b # r1 \<Rightarrow> cont b \<and> valid_utf8 r1 | _ \<Rightarrow> False)
      else if 0xe0 \<le> a \<and> a \<le> 0xef then
        (case r of b # c # r2 \<Rightarrow> second3 a b \<and> cont c \<and> valid_utf8 r2 | _ \<Rightarrow> False)
      else if 0xf0 \<le> a \<and> a \<le> 0xf4 then
        (case r of b # c # d # r3 \<Rightarrow> second4 a b \<and> cont c \<and> cont d \<and> valid_utf8 r3 | _ \<Rightarrow> False)
      else False)"

fun utf8_len :: "bytes \<Rightarrow> nat option" where
  "utf8_len [] = None"
| "utf8_len (a # r) =
     (if a \<le> 0x7f then Some 1
      else if 0xc2 \<le> a \<and> a \<le> 0xdf then (case r of b # _ \<Rightarrow> if cont b then Some 2 else None | _ \<Rightarrow> None)
      else if 0xe0 \<le> a \<and> a \<le> 0xef then
        (case r of b # c # _ \<Rightarrow> if second3 a b \<and> cont c then Some 3 else None | _ \<Rightarrow> None)
      else if 0xf0 \<le> a \<and> a \<le> 0xf4 then
        (case r of b # c # d # _ \<Rightarrow> if second4 a b \<and> cont c \<and> cont d then Some 4 else None | _ \<Rightarrow> None)
      else None)"

lemma valid_utf8_len: "valid_utf8 (a # r) = (case utf8_len (a # r) of None \<Rightarrow> False | Some n \<Rightarrow> valid_utf8 (drop n (a # r)))"
  by (subst valid_utf8.simps) (auto simp del: valid_utf8.simps split: list.split)

lemma byte_at_shift: "e \<le> length input \<Longrightarrow> p + k < e \<Longrightarrow> byte_at input (p + k) = byte_at (drop p (take e input)) k"
  by (simp add: byte_at_def)

lemma utf8_step_shift:
  assumes "e \<le> length input" "p < e"
  shows "utf8_step input p e = map_option ((+) p) (utf8_step (drop p (take e input)) 0 (e - p))"
proof -
  let ?xs = "drop p (take e input)"
  note sh = byte_at_shift [OF assms(1), of p]
  have b0: "byte_at input p = byte_at ?xs 0" using sh [of 0] assms by simp
  consider "e = p + 1" | "e = p + 2" | "e = p + 3" | "p + 4 \<le> e" using assms by linarith
  then show ?thesis
  proof cases
    case 1
    then show ?thesis by (simp add: utf8_step_def Let_def b0)
  next
    case 2
    then show ?thesis using sh [of 1] by (simp add: utf8_step_def Let_def b0)
  next
    case 3
    then show ?thesis using sh [of 1] sh [of 2] by (simp add: utf8_step_def Let_def b0 numeral_2_eq_2)
  next
    case 4
    then have "byte_at input (Suc p) = byte_at ?xs (Suc 0)" "byte_at input (Suc (Suc p)) = byte_at ?xs (Suc (Suc 0))"
      "byte_at input (Suc (Suc (Suc p))) = byte_at ?xs (Suc (Suc (Suc 0)))"
      using sh [of 1] sh [of 2] sh [of 3] by (simp_all add: numeral_2_eq_2 numeral_3_eq_3)
    moreover have "\<not> e \<le> Suc p" "\<not> e \<le> Suc (Suc p)" "\<not> e \<le> Suc (Suc (Suc p))"
      "\<not> e - p \<le> Suc 0" "\<not> e - p \<le> Suc (Suc 0)" "\<not> e - p \<le> Suc (Suc (Suc 0))"
      using 4 by linarith+
    ultimately show ?thesis
      by (simp add: utf8_step_def Let_def b0 if_distrib [of "map_option ((+) p)"] numeral_2_eq_2 numeral_3_eq_3
          split del: if_split cong: if_cong)
  qed
qed

lemma utf8_step_list:
  "utf8_step (a # r) 0 (length (a # r)) = utf8_len (a # r)"
proof -
  have e0: "a = 0xe0 \<Longrightarrow> second3 a b \<longleftrightarrow> 0xa0 \<le> b \<and> b \<le> 0xbf" for b by (simp add: second3_def)
  show ?thesis
    by (cases r rule: list.exhaust; cases "tl r"; cases "tl (tl r)")
      (auto simp: utf8_step_def Let_def byte_at_def isContinuation_def cont_def second3_def second4_def)
qed

lemma isSafeUtf8_range:
  "e \<le> length input \<Longrightarrow> isSafeUtf8 input p e = valid_utf8 (drop p (take e input))"
proof (induction input p e rule: isSafeUtf8.induct)
  case (1 input p e)
  show ?case
  proof (cases "p < e")
    case False
    then show ?thesis by (subst isSafeUtf8.simps) simp
  next
    case True
    obtain a r where ar: "drop p (take e input) = a # r"
      using True 1 by (cases "drop p (take e input)") auto
    have len: "e - p = length (a # r)" using ar 1(2) by (metis length_drop length_take min.absorb2)
    have st: "utf8_step input p e = map_option ((+) p) (utf8_len (a # r))"
      using utf8_step_shift [OF 1(2) True] ar len utf8_step_list [of a r] by simp
    show ?thesis
    proof (cases "utf8_len (a # r)")
      case None
      then show ?thesis using st True ar valid_utf8_len [of a r] by (subst isSafeUtf8.simps) simp
    next
      case (Some n)
      then have "isSafeUtf8 input (p + n) e = valid_utf8 (drop (p + n) (take e input))"
        using 1 True st by simp
      also have "drop (p + n) (take e input) = drop n (a # r)" by (metis ar drop_drop add.commute)
      finally show ?thesis
        using st True Some ar valid_utf8_len [of a r] by (subst isSafeUtf8.simps) simp
    qed
  qed
qed

lemma valid_form2: "0xc2 \<le> a \<and> a \<le> 0xdf \<and> cont b \<Longrightarrow> valid_utf8 (a # b # r) = valid_utf8 r"
  and valid_form3: "0xe0 \<le> a \<and> a \<le> 0xef \<and> second3 a b \<and> cont c \<Longrightarrow> valid_utf8 (a # b # c # r) = valid_utf8 r"
  and valid_form4: "0xf0 \<le> a \<and> a \<le> 0xf4 \<and> second4 a b \<and> cont c \<and> cont d \<Longrightarrow> valid_utf8 (a # b # c # d # r) = valid_utf8 r"
  by (subst valid_utf8.simps, simp add: word_le_nat_alt del: valid_utf8.simps)+

lemma valid_utf8_forms:
  "valid_utf8 (a # r) \<longleftrightarrow> a \<le> 0x7f \<and> valid_utf8 r
     \<or> (\<exists>b r1. 0xc2 \<le> a \<and> a \<le> 0xdf \<and> cont b \<and> r = b # r1 \<and> valid_utf8 r1)
     \<or> (\<exists>b c r2. 0xe0 \<le> a \<and> a \<le> 0xef \<and> second3 a b \<and> cont c \<and> r = b # c # r2 \<and> valid_utf8 r2)
     \<or> (\<exists>b c d r3. 0xf0 \<le> a \<and> a \<le> 0xf4 \<and> second4 a b \<and> cont c \<and> cont d \<and> r = b # c # d # r3 \<and> valid_utf8 r3)"
  by (subst valid_utf8.simps) (auto simp: word_le_nat_alt simp del: valid_utf8.simps split: list.splits)

section \<open>Accepted bytes are encodings\<close>

text \<open>Every form of the check is the encoding of one scalar value.\<close>

lemma unat_byte: "m < 256 \<Longrightarrow> unat (of_nat m :: byte) = m"
  by (simp add: unat_of_nat)

lemma unat_unit: "m < 65536 \<Longrightarrow> unat (of_nat m :: unit16) = m"
  by (simp add: unat_of_nat)

lemma byte_eqI: "unat a = m \<Longrightarrow> a = (of_nat m :: byte)"
  by (metis of_nat_unat ucast_id)

lemma cont_iff: "cont b \<longleftrightarrow> (\<exists>k < 64. b = of_nat (0x80 + k))"
proof
  assume "cont b"
  then have "unat b - 0x80 < 64" "unat b = 0x80 + (unat b - 0x80)"
    by (auto simp: cont_def word_le_nat_alt)
  then show "\<exists>k < 64. b = of_nat (0x80 + k)" using byte_eqI by metis
next
  assume "\<exists>k < 64. b = of_nat (0x80 + k)"
  then obtain k where "k < 64" "b = of_nat (0x80 + k)" by blast
  then show "cont b" by (simp add: cont_def word_le_nat_alt unat_byte del: of_nat_add)
qed

lemma form2_iff:
  "0xc2 \<le> (a::byte) \<and> a \<le> 0xdf \<and> cont b \<longleftrightarrow> (\<exists>n. 128 \<le> n \<and> n < 2048 \<and> a = of_nat (0xC0 + n div 64) \<and> b = of_nat (0x80 + n mod 64))"
  (is "?l \<longleftrightarrow> ?r")
proof
  assume l: ?l
  then obtain k where k: "k < 64" "b = of_nat (0x80 + k)" using cont_iff by blast
  define n where "n = 64 * (unat a - 0xC0) + k"
  have "unat a = 0xC0 + n div 64" "n mod 64 = k" "128 \<le> n" "n < 2048"
    using l k(1) by (auto simp: n_def word_le_nat_alt)
  then show ?r using byte_eqI [of a] k(2) by metis
next
  assume ?r
  then obtain n where n: "128 \<le> n" "n < 2048" "a = of_nat (0xC0 + n div 64)" "b = of_nat (0x80 + n mod 64)" by blast
  then have "unat a = 0xC0 + n div 64" by (simp add: unat_byte del: of_nat_add)
  moreover have "cont b" using n cont_iff by (metis mod_less_divisor zero_less_numeral)
  moreover have "2 \<le> n div 64" "n div 64 < 32"
    using n(1,2) div_le_mono [of 128 n 64] by (simp_all add: less_mult_imp_div_less)
  ultimately show ?l by (simp add: word_le_nat_alt)
qed

definition surrogate_nat :: "nat \<Rightarrow> bool" where
  "surrogate_nat n \<longleftrightarrow> 0xD800 \<le> n \<and> n \<le> 0xDFFF"

lemma second3_iff:
  assumes "q < 16" "k < 64"
  shows "second3 (of_nat (0xE0 + q)) (of_nat (0x80 + k)) \<longleftrightarrow> (q = 0 \<longrightarrow> 32 \<le> k) \<and> (q = 13 \<longrightarrow> k < 32)"
proof -
  have "unat (of_nat (0xE0 + q) :: byte) = 0xE0 + q" "unat (of_nat (0x80 + k) :: byte) = 0x80 + k"
    using assms by (simp_all add: unat_byte del: of_nat_add)
  then show ?thesis using assms unfolding second3_def cont_def word_le_nat_alt word_unat_eq_iff by auto
qed

lemma second4_iff:
  assumes "q < 5" "k < 64"
  shows "second4 (of_nat (0xF0 + q)) (of_nat (0x80 + k)) \<longleftrightarrow> (q = 0 \<longrightarrow> 16 \<le> k) \<and> (q = 4 \<longrightarrow> k < 16)"
proof -
  have "unat (of_nat (0xF0 + q) :: byte) = 0xF0 + q" "unat (of_nat (0x80 + k) :: byte) = 0x80 + k"
    using assms by (simp_all add: unat_byte del: of_nat_add)
  then show ?thesis using assms unfolding second4_def cont_def word_le_nat_alt word_unat_eq_iff by auto
qed

lemma second3_cont: "second3 a b \<Longrightarrow> cont b" and second4_cont: "second4 a b \<Longrightarrow> cont b"
  by (auto simp: second3_def second4_def cont_def word_le_nat_alt split: if_splits)

lemma base64: "m < 64 \<Longrightarrow> (64 * x + m) div 64 = x \<and> (64 * x + m) mod 64 = (m::nat)"
  by simp

lemma digits3: "q < 16 \<Longrightarrow> k < 64 \<Longrightarrow> m < 64 \<Longrightarrow> n = 4096 * q + 64 * k + m \<Longrightarrow>
   n div 4096 = q \<and> n div 64 mod 64 = k \<and> n mod 64 = (m::nat)"
  using div_mult2_eq [of n 64 64] base64 [of m "64 * q + k"] base64 [of k q] by (simp add: algebra_simps)

lemma form3_iff:
  "0xe0 \<le> a \<and> a \<le> 0xef \<and> second3 a b \<and> cont c
     \<longleftrightarrow> (\<exists>n. 2048 \<le> n \<and> n < 65536 \<and> \<not> surrogate_nat n \<and> [a, b, c] = utf8_3 n)"
  (is "?l \<longleftrightarrow> ?r")
proof
  assume l: ?l
  then obtain k m where km: "k < 64" "b = of_nat (0x80 + k)" "m < 64" "c = of_nat (0x80 + m)"
    using cont_iff second3_cont by blast
  define q where "q = unat a - 0xE0"
  have a: "a = of_nat (0xE0 + q)" "q < 16" using l byte_eqI [of a "0xE0 + q"] by (auto simp: q_def word_le_nat_alt)
  define n where "n = 4096 * q + 64 * k + m"
  have d: "n div 4096 = q" "n div 64 mod 64 = k" "n mod 64 = m" using digits3 [OF a(2) km(1) km(3) n_def] by auto
  have "(q = 0 \<longrightarrow> 32 \<le> k) \<and> (q = 13 \<longrightarrow> k < 32)" using l second3_iff [OF a(2) km(1)] a(1) km(2) by simp
  then have "2048 \<le> n \<and> n < 65536 \<and> \<not> surrogate_nat n"
    using a(2) km(1,3) unfolding n_def surrogate_nat_def by (cases "q = 0"; cases "q = 13"; cases "q < 13") simp_all
  moreover have "[a, b, c] = utf8_3 n" unfolding utf8_3_def d using a km by simp
  ultimately show ?r by blast
next
  assume ?r
  then obtain n where n: "2048 \<le> n" "n < 65536" "\<not> surrogate_nat n" "[a, b, c] = utf8_3 n" by blast
  define q where "q = n div 4096"
  define k where "k = n div 64 mod 64"
  have q: "q < 16" and k: "k < 64" using n by (auto simp: q_def k_def)
  have rep: "n = 4096 * q + 64 * k + n mod 64"
  proof -
    have "n div 4096 = n div 64 div 64" using div_mult2_eq [of n 64 64] by simp
    then show ?thesis unfolding q_def k_def
      using div_mult_mod_eq [of "n div 64" 64] div_mult_mod_eq [of n 64] by linarith
  qed
  have abc: "a = of_nat (0xE0 + q)" "b = of_nat (0x80 + k)" "c = of_nat (0x80 + n mod 64)"
    using n(4) by (auto simp: utf8_3_def q_def k_def)
  have "(q = 0 \<longrightarrow> 32 \<le> k) \<and> (q = 13 \<longrightarrow> k < 32)"
    using n(1-3) rep mod_less_divisor [of 64 n] k unfolding surrogate_nat_def by auto
  then have "second3 a b" using second3_iff [OF q k] abc by simp
  moreover have "unat a = 0xE0 + q" using q abc by (simp add: unat_byte del: of_nat_add)
  moreover have "cont c" using abc cont_iff by (metis mod_less_divisor zero_less_numeral)
  ultimately show ?l using q by (simp add: word_le_nat_alt)
qed

lemma digits4: "q < 5 \<Longrightarrow> k < 64 \<Longrightarrow> m < 64 \<Longrightarrow> l < 64 \<Longrightarrow> n = 262144 * q + 4096 * k + 64 * m + l \<Longrightarrow>
   n div 262144 = q \<and> n div 4096 mod 64 = k \<and> n div 64 mod 64 = m \<and> n mod 64 = (l::nat)"
  using div_mult2_eq [of n 64 64] div_mult2_eq [of n 4096 64] base64 [of l "4096 * q + 64 * k + m"]
    base64 [of m "64 * q + k"] base64 [of k q] by (simp add: algebra_simps)

lemma form4_iff:
  "0xf0 \<le> a \<and> a \<le> 0xf4 \<and> second4 a b \<and> cont c \<and> cont d
     \<longleftrightarrow> (\<exists>n. 65536 \<le> n \<and> n < 1114112 \<and> [a, b, c, d] = utf8_4 n)"
  (is "?l \<longleftrightarrow> ?r")
proof
  assume l: ?l
  then obtain k m j where km: "k < 64" "b = of_nat (0x80 + k)" "m < 64" "c = of_nat (0x80 + m)" "j < 64" "d = of_nat (0x80 + j)"
    using cont_iff second4_cont by metis
  define q where "q = unat a - 0xF0"
  have a: "a = of_nat (0xF0 + q)" "q < 5" using l byte_eqI [of a "0xF0 + q"] by (auto simp: q_def word_le_nat_alt)
  define n where "n = 262144 * q + 4096 * k + 64 * m + j"
  have e: "n div 262144 = q" "n div 4096 mod 64 = k" "n div 64 mod 64 = m" "n mod 64 = j"
    using digits4 [OF a(2) km(1,3,5) n_def] by auto
  have "(q = 0 \<longrightarrow> 16 \<le> k) \<and> (q = 4 \<longrightarrow> k < 16)" using l second4_iff [OF a(2) km(1)] a(1) km(2) by simp
  then have "65536 \<le> n \<and> n < 1114112"
    using a(2) km(1,3,5) unfolding n_def by (cases "q = 0"; cases "q = 4") simp_all
  moreover have "[a, b, c, d] = utf8_4 n" unfolding utf8_4_def e using a km by simp
  ultimately show ?r by blast
next
  assume ?r
  then obtain n where n: "65536 \<le> n" "n < 1114112" "[a, b, c, d] = utf8_4 n" by blast
  define q where "q = n div 262144"
  define k where "k = n div 4096 mod 64"
  have q: "q < 5" and k: "k < 64" using n by (auto simp: q_def k_def)
  have abc: "a = of_nat (0xF0 + q)" "b = of_nat (0x80 + k)" "c = of_nat (0x80 + n div 64 mod 64)" "d = of_nat (0x80 + n mod 64)"
    using n(3) by (auto simp: utf8_4_def q_def k_def)
  have rep: "n = 262144 * q + 4096 * k + n mod 4096"
  proof -
    have "n div 262144 = n div 4096 div 64" using div_mult2_eq [of n 4096 64] by simp
    then show ?thesis unfolding q_def k_def
      using div_mult_mod_eq [of "n div 4096" 64] div_mult_mod_eq [of n 4096] by linarith
  qed
  then have "(q = 0 \<longrightarrow> 16 \<le> k) \<and> (q = 4 \<longrightarrow> k < 16)"
    using n(1,2) mod_less_divisor [of 4096 n] k by auto
  then have "second4 a b" using second4_iff [OF q k] abc by simp
  moreover have "unat a = 0xF0 + q" using q abc by (simp add: unat_byte del: of_nat_add)
  moreover have "cont c" "cont d" using abc cont_iff by (metis mod_less_divisor zero_less_numeral)+
  ultimately show ?l using q by (simp add: word_le_nat_alt)
qed

section \<open>Strings and their encodings\<close>

lemma utf8_unit1: "a \<le> 0x7f \<Longrightarrow> utf8 (ucast a # cs) = a # utf8 cs \<and> (isWellFormedUnicode (ucast a # cs) \<longleftrightarrow> isWellFormedUnicode cs)"
proof -
  assume "a \<le> 0x7f"
  then have "unat a < 128" by (simp add: word_le_nat_alt)
  then have u: "unat (ucast a :: unit16) < 128" by (simp add: unsigned_ucast_eq take_bit_nat_eq_self)
  then have "(ucast a :: unit16) < 0x80" "\<not> high_surrogate (ucast a)" "\<not> low_surrogate (ucast a)"
    by (auto simp: word_less_nat_alt word_le_nat_alt high_surrogate_def low_surrogate_def)
  moreover have "(ucast (ucast a :: unit16) :: byte) = a"
    by (rule bit_word_eqI) (simp add: bit_unsigned_iff)
  ultimately show ?thesis by simp
qed

lemma utf8_unit2:
  assumes "128 \<le> n" "n < 2048"
  shows "utf8 (of_nat n # cs) = of_nat (0xC0 + n div 64) # of_nat (0x80 + n mod 64) # utf8 cs
     \<and> (isWellFormedUnicode (of_nat n # cs) \<longleftrightarrow> isWellFormedUnicode cs)"
proof -
  have u: "unat (of_nat n :: unit16) = n" using assms by (simp add: unat_unit)
  then show ?thesis using assms
    by (simp add: word_less_nat_alt word_le_nat_alt high_surrogate_def low_surrogate_def)
qed

lemma utf8_unit3:
  assumes "2048 \<le> n" "n < 65536" "\<not> surrogate_nat n"
  shows "utf8 (of_nat n # cs) = utf8_3 n @ utf8 cs
     \<and> (isWellFormedUnicode (of_nat n # cs) \<longleftrightarrow> isWellFormedUnicode cs)"
proof -
  have u: "unat (of_nat n :: unit16) = n" using assms by (simp add: unat_unit)
  have "\<not> high_surrogate (of_nat n)" "\<not> low_surrogate (of_nat n)"
    using assms u by (auto simp: word_le_nat_alt high_surrogate_def low_surrogate_def surrogate_nat_def)
  then show ?thesis using assms u by (simp add: word_less_nat_alt)
qed

definition hi_unit :: "nat \<Rightarrow> unit16" where
  "hi_unit n = of_nat (0xD800 + (n - 65536) div 1024)"

definition lo_unit :: "nat \<Rightarrow> unit16" where
  "lo_unit n = of_nat (0xDC00 + (n - 65536) mod 1024)"

lemma utf8_pair:
  assumes "65536 \<le> n" "n < 1114112"
  shows "utf8 (hi_unit n # lo_unit n # cs) = utf8_4 n @ utf8 cs
     \<and> (isWellFormedUnicode (hi_unit n # lo_unit n # cs) \<longleftrightarrow> isWellFormedUnicode cs)"
proof -
  have d: "(n - 65536) div 1024 < 1024" using assms by (simp add: less_mult_imp_div_less)
  then have u: "unat (hi_unit n) = 0xD800 + (n - 65536) div 1024" "unat (lo_unit n) = 0xDC00 + (n - 65536) mod 1024"
    unfolding hi_unit_def lo_unit_def by (subst unat_unit; simp add: less_imp_le)+
  then have hl: "high_surrogate (hi_unit n)" "low_surrogate (lo_unit n)"
    using d by (simp_all add: word_le_nat_alt high_surrogate_def low_surrogate_def Suc_leI less_Suc_eq_le)
  have "surrogate_point (hi_unit n) (lo_unit n) = n"
    using assms u by (simp add: surrogate_point_def)
  moreover have "\<not> hi_unit n < 0x80" "\<not> hi_unit n < 0x800" using u by (simp_all add: word_less_nat_alt)
  ultimately show ?thesis using hl by simp
qed

lemma base1024: "m < 1024 \<Longrightarrow> (1024 * x + m) div 1024 = x \<and> (1024 * x + m) mod 1024 = (m::nat)"
  by simp

lemma unit_cases:
  assumes "isWellFormedUnicode (c # cs)"
  obtains "c < 0x80"
  | "0x80 \<le> c" "c < 0x800"
  | n where "2048 \<le> n" "n < 65536" "\<not> surrogate_nat n" "c = of_nat n" "isWellFormedUnicode cs"
  | n ds where "65536 \<le> n" "n < 1114112" "c # cs = hi_unit n # lo_unit n # ds" "isWellFormedUnicode ds"
proof -
  consider "c < 0x80" | "0x80 \<le> c" "c < 0x800" | "0x800 \<le> c" by (meson not_less)
  then show ?thesis
  proof cases
    case 3
    show ?thesis
    proof (cases "high_surrogate c")
      case True
      then obtain d ds where cs: "cs = d # ds" "low_surrogate d" "isWellFormedUnicode ds"
        using assms by (auto split: list.splits)
      define n where "n = surrogate_point c d"
      have c: "0xD800 \<le> unat c" "unat c \<le> 0xDBFF" and d: "0xDC00 \<le> unat d" "unat d \<le> 0xDFFF"
        using True cs(2) by (auto simp: high_surrogate_def low_surrogate_def word_le_nat_alt)
      have n: "n - 65536 = 1024 * (unat c - 0xD800) + (unat d - 0xDC00)" "65536 \<le> n"
        by (simp_all add: n_def surrogate_point_def)
      have "(n - 65536) div 1024 = unat c - 0xD800" "(n - 65536) mod 1024 = unat d - 0xDC00"
        using base1024 [of "unat d - 0xDC00" "unat c - 0xD800"] n(1) d by simp_all
      then have "hi_unit n = c" "lo_unit n = d" using c d by (simp_all add: hi_unit_def lo_unit_def)
      moreover have "n < 1114112" using n c d by simp
      ultimately show ?thesis using that(4) [of n ds] cs n by simp
    next
      case False
      then have "\<not> low_surrogate c" "isWellFormedUnicode cs" using assms by auto
      moreover from this have "\<not> surrogate_nat (unat c)"
        using False by (auto simp: surrogate_nat_def high_surrogate_def low_surrogate_def word_le_nat_alt)
      moreover have "2048 \<le> unat c" using 3 by (simp add: word_le_nat_alt)
      moreover have "unat c < 65536"
      proof -
        have "unat c < 2 ^ LENGTH(16)" by (rule unsigned_less)
        then show ?thesis by simp
      qed
      ultimately show ?thesis using that(3) [of "unat c"] by simp
    qed
  qed (use that in auto)
qed

lemma ucast_ascii: "(c::unit16) < 0x80 \<Longrightarrow> ucast (ucast c :: byte) = c" "(c::unit16) < 0x80 \<Longrightarrow> (ucast c :: byte) \<le> 0x7f"
proof -
  assume "c < 0x80"
  then have u: "unat c < 128" by (simp add: word_less_nat_alt)
  then have b: "unat (ucast c :: byte) = unat c"
    by (simp add: unsigned_ucast_eq unsigned_take_bit_eq take_bit_nat_eq_self)
  then show "(ucast c :: byte) \<le> 0x7f" using u by (simp add: word_le_nat_alt)
  have "unat (ucast (ucast c :: byte) :: unit16) = unat c"
    using b u by (simp add: unsigned_ucast_eq unsigned_take_bit_eq take_bit_nat_eq_self)
  then show "ucast (ucast c :: byte) = c" by (metis word_unat_eq_iff)
qed

lemma encoding_valid: "isWellFormedUnicode s \<Longrightarrow> valid_utf8 (utf8 s)"
proof (induction "length s" arbitrary: s rule: less_induct)
  case less
  show ?case
  proof (cases s)
    case (Cons c cs)
    from less.prems Cons have "isWellFormedUnicode (c # cs)" by simp
    then show ?thesis
    proof (cases rule: unit_cases)
      case 1
      then have c: "ucast (ucast c :: byte) = c" "(ucast c :: byte) \<le> 0x7f" by (rule ucast_ascii)+
      then show ?thesis using utf8_unit1 [of "ucast c" cs] less Cons by simp
    next
      case 2
      define n where "n = unat c"
      have n: "128 \<le> n" "n < 2048" "of_nat n = c" using 2 by (auto simp: n_def word_le_nat_alt word_less_nat_alt)
      define a b :: byte where "a = of_nat (0xC0 + n div 64)" and "b = of_nat (0x80 + n mod 64)"
      have "0xc2 \<le> a \<and> a \<le> 0xdf \<and> cont b" using form2_iff [of a b] n a_def b_def by blast
      moreover have "utf8 s = a # b # utf8 cs" "isWellFormedUnicode cs"
        using utf8_unit2 [of n cs] n Cons less.prems by (auto simp: a_def b_def)
      ultimately show ?thesis using less.hyps [of cs] Cons valid_form2 by simp
    next
      case (3 n)
      obtain a b d where abd: "utf8_3 n = [a, b, d]" by (simp add: utf8_3_def)
      then have "0xe0 \<le> a \<and> a \<le> 0xef \<and> second3 a b \<and> cont d" using form3_iff [of a b d] 3 by metis
      moreover have "utf8 s = a # b # d # utf8 cs" using utf8_unit3 [of n cs] 3 Cons abd by simp
      ultimately show ?thesis using less.hyps [of cs] Cons 3 valid_form3 by simp
    next
      case (4 n ds)
      obtain a b d e where abd: "utf8_4 n = [a, b, d, e]" by (simp add: utf8_4_def)
      then have "0xf0 \<le> a \<and> a \<le> 0xf4 \<and> second4 a b \<and> cont d \<and> cont e" using form4_iff [of a b d e] 4 by metis
      moreover have "utf8 s = a # b # d # e # utf8 ds" using utf8_pair [of n ds] 4 Cons abd by simp
      ultimately show ?thesis using less.hyps [of ds] Cons 4 valid_form4 by simp
    qed
  qed simp
qed

lemma valid_encoding: "valid_utf8 xs \<Longrightarrow> \<exists>s. isWellFormedUnicode s \<and> utf8 s = xs"
proof (induction "length xs" arbitrary: xs rule: less_induct)
  case less
  show ?case
  proof (cases xs)
    case Nil
    then show ?thesis by (intro exI [of _ "[]"]) simp
  next
    case (Cons a r)
    consider "a \<le> 0x7f" "valid_utf8 r"
      | b r1 where "0xc2 \<le> a \<and> a \<le> 0xdf \<and> cont b" "r = b # r1" "valid_utf8 r1"
      | b c r2 where "0xe0 \<le> a \<and> a \<le> 0xef \<and> second3 a b \<and> cont c" "r = b # c # r2" "valid_utf8 r2"
      | b c d r3 where "0xf0 \<le> a \<and> a \<le> 0xf4 \<and> second4 a b \<and> cont c \<and> cont d" "r = b # c # d # r3" "valid_utf8 r3"
      using less.prems Cons valid_utf8_forms [of a r] by (simp only:) blast
    then show ?thesis
    proof cases
      case 1
      then obtain s where "isWellFormedUnicode s" "utf8 s = r" using less.hyps [of r] Cons by auto
      then show ?thesis using utf8_unit1 [OF 1(1), of s] Cons by metis
    next
      case (2 b r1)
      then obtain s where "isWellFormedUnicode s" "utf8 s = r1" using less.hyps [of r1] Cons by auto
      moreover obtain n where "128 \<le> n" "n < 2048" "a = of_nat (0xC0 + n div 64)" "b = of_nat (0x80 + n mod 64)"
        using form2_iff [of a b] 2 by blast
      ultimately show ?thesis using utf8_unit2 [of n s] Cons 2 by metis
    next
      case (3 b c r2)
      then obtain s where s: "isWellFormedUnicode s" "utf8 s = r2" using less.hyps [of r2] Cons by auto
      obtain n where n: "2048 \<le> n" "n < 65536" "\<not> surrogate_nat n" "[a, b, c] = utf8_3 n"
        using form3_iff [of a b c] 3 by blast
      have "isWellFormedUnicode (of_nat n # s) \<and> utf8 (of_nat n # s) = xs"
        using utf8_unit3 [OF n(1-3), of s] n(4) [symmetric] s Cons 3(2) by (simp del: utf8.simps isWellFormedUnicode.simps)
      then show ?thesis by blast
    next
      case (4 b c d r3)
      then obtain s where s: "isWellFormedUnicode s" "utf8 s = r3" using less.hyps [of r3] Cons by auto
      obtain n where n: "65536 \<le> n" "n < 1114112" "[a, b, c, d] = utf8_4 n"
        using form4_iff [of a b c d] 4 by blast
      have "isWellFormedUnicode (hi_unit n # lo_unit n # s) \<and> utf8 (hi_unit n # lo_unit n # s) = xs"
        using utf8_pair [OF n(1-2), of s] n(3) [symmetric] s Cons 4(2) by (simp del: utf8.simps isWellFormedUnicode.simps)
      then show ?thesis by blast
    qed
  qed
qed

text \<open>
  On a range inside the input the check returns, and accepts exactly the bytes that encode a
  well-formed UTF-16 string: no overlong form, no encoded surrogate, nothing above U+10FFFF and no
  truncated sequence.
\<close>

theorem isSafeUtf8_correct:
  assumes "end1 \<le> length input"
  shows "isSafeUtf8 input start end1 \<longleftrightarrow>
    (\<exists>s. isWellFormedUnicode s \<and> utf8 s = drop start (take end1 input))"
  using isSafeUtf8_range [OF assms, of start] encoding_valid valid_encoding [of "drop start (take end1 input)"]
  by metis

theorem isSafeUtf8_correct_witness:
  "isSafeUtf8 [0xff, 0xe2, 0x82, 0xac] 1 4 \<and> utf8 [0x20ac] = [0xe2, 0x82, 0xac] \<and> isWellFormedUnicode [0x20ac]"
proof -
  have e: "utf8 [0x20ac] = [0xe2, 0x82, 0xac]" "isWellFormedUnicode [0x20ac]" by code_simp+
  have "isSafeUtf8 [0xff, 0xe2, 0x82, 0xac] 1 4"
    using isSafeUtf8_correct [of 4 "[0xff, 0xe2, 0x82, 0xac]" 1] e by (auto intro!: exI [of _ "[0x20ac]"])
  then show ?thesis using e by simp
qed

end
