(* ===== verification/Message_Pack.thy ===== *)
theory Message_Pack
  imports Utf8_Validation
begin

text \<open>
  The bounds on untrusted cache records (\<open>utils/serializerPolicy.ts\<close>) and the scan of a MessagePack
  record that enforces them before the decoder allocates (\<open>isSafeMessagePack\<close> of
  \<open>utils/decodeValidation.ts\<close>). The scan keeps an explicit stack of pending children; it accepts exactly
  the bytes of one value tree within the limits.
\<close>

section \<open>Limits\<close>

definition MAX_PORTABLE_DECODED_BYTES :: int where
  "MAX_PORTABLE_DECODED_BYTES = 25 * 1024 * 1024"

definition DEFAULT_DECODE_MAX_DEPTH :: int where
  "DEFAULT_DECODE_MAX_DEPTH = 128"

definition DEFAULT_DECODE_MAX_COLLECTION_LENGTH :: int where
  "DEFAULT_DECODE_MAX_COLLECTION_LENGTH = 1000000"

definition DEFAULT_DECODE_MAX_TOTAL_VALUES :: int where
  "DEFAULT_DECODE_MAX_TOTAL_VALUES = 1000000"

record DecodeLimits =
  maxEncodedBytes_opt :: "jsnum option"
  maxDecodedBytes_opt :: "jsnum option"
  maxDepth_opt :: "jsnum option"
  maxCollectionLength_opt :: "jsnum option"
  maxTotalValues_opt :: "jsnum option"

record ResolvedDecodeLimits =
  maxEncodedBytes :: int
  maxDecodedBytes :: int
  maxDepth :: int
  maxCollectionLength :: int
  maxTotalValues :: int

definition positive_safe :: "jsnum \<Rightarrow> bool" where
  "positive_safe n \<longleftrightarrow> isSafeInteger n \<and> \<not> jle n (jint 0)"

text \<open>The first field that is not a positive safe integer names the error.\<close>

definition resolveDecodeLimits :: "DecodeLimits \<Rightarrow> js_error + ResolvedDecodeLimits" where
  "resolveDecodeLimits options =
     (let enc = nullish (maxEncodedBytes_opt options) (jint MAX_PORTABLE_DECODED_BYTES);
          dec1 = nullish (maxDecodedBytes_opt options) (jint MAX_PORTABLE_DECODED_BYTES);
          depth = nullish (maxDepth_opt options) (jint DEFAULT_DECODE_MAX_DEPTH);
          coll = nullish (maxCollectionLength_opt options) (jint DEFAULT_DECODE_MAX_COLLECTION_LENGTH);
          total = nullish (maxTotalValues_opt options) (jint DEFAULT_DECODE_MAX_TOTAL_VALUES) in
      if \<not> positive_safe enc then Inl (RangeError ''maxEncodedBytes must be a positive safe integer'')
      else if \<not> positive_safe dec1 then Inl (RangeError ''maxDecodedBytes must be a positive safe integer'')
      else if \<not> positive_safe depth then Inl (RangeError ''maxDepth must be a positive safe integer'')
      else if \<not> positive_safe coll then Inl (RangeError ''maxCollectionLength must be a positive safe integer'')
      else if \<not> positive_safe total then Inl (RangeError ''maxTotalValues must be a positive safe integer'')
      else Inr \<lparr>maxEncodedBytes = num_int enc, maxDecodedBytes = num_int dec1, maxDepth = num_int depth,
        maxCollectionLength = num_int coll, maxTotalValues = num_int total\<rparr>)"

lemma resolved_positive:
  assumes "resolveDecodeLimits options = Inr limits"
  shows "0 < maxEncodedBytes limits" "0 < maxDecodedBytes limits" "0 < maxDepth limits"
    "0 < maxCollectionLength limits" "0 < maxTotalValues limits"
proof -
  have pos: "positive_safe n \<Longrightarrow> 0 < num_int n" for n
    by (cases n) (auto simp: positive_safe_def)
  show "0 < maxEncodedBytes limits" "0 < maxDecodedBytes limits" "0 < maxDepth limits"
    "0 < maxCollectionLength limits" "0 < maxTotalValues limits"
    using assms pos by (auto simp: resolveDecodeLimits_def Let_def split: if_splits)
qed

definition no_limits :: DecodeLimits where
  "no_limits = \<lparr>maxEncodedBytes_opt = None, maxDecodedBytes_opt = None, maxDepth_opt = None,
     maxCollectionLength_opt = None, maxTotalValues_opt = None\<rparr>"

section \<open>The scan\<close>

text \<open>
  The closures of \<open>isSafeMessagePack\<close>, over the input and the position they share. \<open>pending\<close> is kept
  with its last element first.
\<close>

definition mp_advance :: "bytes \<Rightarrow> nat \<Rightarrow> int \<Rightarrow> nat option" where
  "mp_advance input position n =
     (if n < 0 \<or> int (length input) - int position < n then None else Some (position + nat n))"

text \<open>A big-endian length, or \<open>-1\<close> when the input ends.\<close>

fun mp_be :: "bytes \<Rightarrow> int" where
  "mp_be xs = foldl (\<lambda>v b. v * 256 + uint b) 0 xs"

definition mp_length :: "bytes \<Rightarrow> nat \<Rightarrow> nat \<Rightarrow> int \<times> nat" where
  "mp_length input position n =
     (if int (length input) - int position < int n then (- 1, position)
      else (mp_be (take n (drop position input)), position + n))"

type_synonym utf8_check = "bytes \<Rightarrow> nat \<Rightarrow> nat \<Rightarrow> bool"

definition mp_string :: "utf8_check \<Rightarrow> bytes \<Rightarrow> nat \<Rightarrow> int \<Rightarrow> nat option" where
  "mp_string validUtf8 input position n =
     (if 0 \<le> n \<and> n \<le> int (length input) - int position \<and> validUtf8 input position (position + nat n)
      then mp_advance input position n else None)"

definition mp_container :: "ResolvedDecodeLimits \<Rightarrow> bytes \<Rightarrow> nat \<Rightarrow> nat list \<Rightarrow> int \<Rightarrow> bool \<Rightarrow> nat list option" where
  "mp_container limits input position pending items map1 =
     (if items < 0 \<or> maxCollectionLength limits < items then None
      else let children = (if map1 then items * 2 else items) in
        if int (length input) - int position < children \<or> maxDepth limits < int (length pending) then None
        else if children \<noteq> 0 then Some (nat children # pending) else Some pending)"

definition widths :: "nat list" where
  "widths = [1, 1, 1, 2, 2, 4, 4, 4, 8, 8, 8]"

text \<open>
  Which extension types pass with how many bytes: \<open>Some True\<close> for the wrappers (Error, Set, RegExp) that
  consume one following value, \<open>Some False\<close> for those with only their bytes. \<open>typeCode\<close> is the byte
  after the type.
\<close>

definition ext_accepts :: "byte \<Rightarrow> int \<Rightarrow> byte option \<Rightarrow> bool option" where
  "ext_accepts type n typeCode =
     (if type = 0x65 \<or> type = 0x73 \<or> type = 0x78 then (if n = 1 then Some True else None)
      else if type = 0x00 then (if n = 1 then Some False else None)
      else if type = 0xff then (if n \<in> {1, 4, 8, 12} then Some False else None)
      else if type = 0x42 then (if 0 < n then Some False else None)
      else if type = 0x74 then
        (if n < 1 then None
         else (case typeCode of None \<Rightarrow> None
           | Some c \<Rightarrow> if unat c = 16 \<or> unat c = 17
               \<or> (unat c < length widths \<and> (n - 1) mod int (widths ! unat c) = 0) then Some False else None))
      else None)"

definition mp_extension :: "ResolvedDecodeLimits \<Rightarrow> bytes \<Rightarrow> nat \<Rightarrow> nat list \<Rightarrow> int \<Rightarrow> (nat \<times> nat list) option" where
  "mp_extension limits input position pending n =
     (if n < 0 \<or> int (length input) - int position < n + 1 then None
      else (case ext_accepts (input ! position) n (byte_at input (position + 1)) of None \<Rightarrow> None
        | Some wrapper \<Rightarrow>
            (case mp_advance input (position + 1) n of None \<Rightarrow> None
             | Some p \<Rightarrow> if wrapper then map_option (Pair p) (mp_container limits input p pending 1 False)
                        else Some (p, pending))))"

text \<open>
  The dispatch on the tag: what the \<open>if\<close> chain and the \<open>switch\<close> make of it. Lengths given by the tag
  are numbers, lengths that follow are their width in bytes.
\<close>

datatype mp_size = Known nat | Width nat

datatype mp_action = Reject | Skip mp_size | Text mp_size | Ext mp_size | Items mp_size bool

definition mp_action_of :: "byte \<Rightarrow> mp_action" where
  "mp_action_of tag =
     (if tag < 0x80 \<or> 0xe0 \<le> tag then Skip (Known 0)
      else if tag < 0x90 then Items (Known (unat tag - 0x80)) True
      else if tag < 0xa0 then Items (Known (unat tag - 0x90)) False
      else if tag < 0xc0 then Text (Known (unat tag - 0xa0))
      else if tag = 0xc0 \<or> tag = 0xc2 \<or> tag = 0xc3 then Skip (Known 0)
      else if tag = 0xc1 then Reject
      else if tag = 0xc4 then Skip (Width 1)
      else if tag = 0xc5 then Skip (Width 2)
      else if tag = 0xc6 then Skip (Width 4)
      else if tag = 0xd9 then Text (Width 1)
      else if tag = 0xda then Text (Width 2)
      else if tag = 0xdb then Text (Width 4)
      else if tag = 0xc7 then Ext (Width 1)
      else if tag = 0xc8 then Ext (Width 2)
      else if tag = 0xc9 then Ext (Width 4)
      else if tag = 0xca \<or> tag = 0xce \<or> tag = 0xd2 then Skip (Known 4)
      else if tag = 0xcb \<or> tag = 0xcf \<or> tag = 0xd3 then Skip (Known 8)
      else if tag = 0xcc \<or> tag = 0xd0 then Skip (Known 1)
      else if tag = 0xcd \<or> tag = 0xd1 then Skip (Known 2)
      else if tag = 0xd4 then Ext (Known 1)
      else if tag = 0xd5 then Ext (Known 2)
      else if tag = 0xd6 then Ext (Known 4)
      else if tag = 0xd7 then Ext (Known 8)
      else if tag = 0xd8 then Ext (Known 16)
      else if tag = 0xdc then Items (Width 2) False
      else if tag = 0xdd then Items (Width 4) False
      else if tag = 0xde then Items (Width 2) True
      else if tag = 0xdf then Items (Width 4) True
      else Reject)"

definition mp_size_at :: "bytes \<Rightarrow> nat \<Rightarrow> mp_size \<Rightarrow> int \<times> nat" where
  "mp_size_at input position sz = (case sz of Known n \<Rightarrow> (int n, position) | Width w \<Rightarrow> mp_length input position w)"

text \<open>Running the action: the new position and stack, or nothing when the scan returns \<open>false\<close>.\<close>

definition mp_token :: "utf8_check \<Rightarrow> ResolvedDecodeLimits \<Rightarrow> bytes \<Rightarrow> byte \<Rightarrow> nat \<Rightarrow> nat list \<Rightarrow> (nat \<times> nat list) option" where
  "mp_token validUtf8 limits input tag position pending =
     (case mp_action_of tag of Reject \<Rightarrow> None
      | Skip sz \<Rightarrow> (case mp_size_at input position sz of (n, p) \<Rightarrow>
          map_option (\<lambda>q. (q, pending)) (mp_advance input p n))
      | Text sz \<Rightarrow> (case mp_size_at input position sz of (n, p) \<Rightarrow>
          map_option (\<lambda>q. (q, pending)) (mp_string validUtf8 input p n))
      | Ext sz \<Rightarrow> (case mp_size_at input position sz of (n, p) \<Rightarrow> mp_extension limits input p pending n)
      | Items sz map1 \<Rightarrow> (case mp_size_at input position sz of (n, p) \<Rightarrow>
          map_option (Pair p) (mp_container limits input p pending n map1)))"

lemma mp_advance_mono: "mp_advance input p n = Some q \<Longrightarrow> p \<le> q"
  by (auto simp: mp_advance_def split: if_splits)

lemma mp_size_at_mono: "mp_size_at input p sz = (n, q) \<Longrightarrow> p \<le> q"
  by (auto simp: mp_size_at_def mp_length_def split: mp_size.splits if_splits)

lemma mp_extension_mono: "mp_extension limits input p pending n = Some (q, st) \<Longrightarrow> p \<le> q"
  by (auto simp: mp_extension_def Let_def split: if_splits option.splits dest!: mp_advance_mono)

lemma mp_token_mono: "mp_token v8 limits input tag p pending = Some (q, st) \<Longrightarrow> p \<le> q"
  by (auto simp: mp_token_def mp_string_def split: mp_action.splits prod.splits if_splits
      dest!: mp_advance_mono mp_size_at_mono mp_extension_mono)

text \<open>
  The loop. Every round consumes a byte or pops the stack, so it ends.
\<close>

function mp_scan :: "utf8_check \<Rightarrow> ResolvedDecodeLimits \<Rightarrow> bytes \<Rightarrow> nat \<Rightarrow> int \<Rightarrow> nat list \<Rightarrow> bool" where
  "mp_scan validUtf8 limits input position totalValues pending =
     (case pending of [] \<Rightarrow> position = length input
      | 0 # rest \<Rightarrow> mp_scan validUtf8 limits input position totalValues rest
      | Suc n # rest \<Rightarrow>
          if maxTotalValues limits < totalValues + 1 then False
          else if length input \<le> position then False
          else (case mp_token validUtf8 limits input (input ! position) (position + 1) (n # rest) of None \<Rightarrow> False
            | Some (p, st) \<Rightarrow> mp_scan validUtf8 limits input p (totalValues + 1) st))"
  by pat_completeness auto
termination
  by (relation "measures [\<lambda>(v, l, i, p, t, st). length i - p, \<lambda>(v, l, i, p, t, st). length st]")
    (auto dest!: mp_token_mono)

declare mp_scan.simps [simp del]

definition isSafeMessagePack :: "bytes \<Rightarrow> ResolvedDecodeLimits \<Rightarrow> utf8_check \<Rightarrow> bool" where
  "isSafeMessagePack input limits validUtf8 =
     (if maxDecodedBytes limits < int (length input) then False
      else mp_scan validUtf8 limits input 0 0 [1])"

section \<open>Value trees\<close>

text \<open>
  A record is a tree: each node has the bytes of its tag with what belongs to it inline, and its
  children. \<open>mp_head\<close> is what the bytes of a node may be: how many children they announce, and whether
  they open a container.
\<close>

datatype mp_tree = MP bytes "mp_tree list"

definition inline :: "mp_size \<Rightarrow> bytes \<Rightarrow> (int \<times> bytes) option" where
  "inline sz body = (case sz of Known n \<Rightarrow> Some (int n, body)
     | Width w \<Rightarrow> if w \<le> length body then Some (mp_be (take w body), drop w body) else None)"

definition ext_kids :: "bytes \<Rightarrow> int \<Rightarrow> nat option" where
  "ext_kids data n = (case data of [] \<Rightarrow> None
     | type # x \<Rightarrow> if int (length x) \<noteq> n then None
         else map_option of_bool (ext_accepts type n (byte_at x 0)))"

definition mp_head :: "ResolvedDecodeLimits \<Rightarrow> bytes \<Rightarrow> (nat \<times> bool) option" where
  "mp_head limits h = (case h of [] \<Rightarrow> None | tag # body \<Rightarrow>
     (case mp_action_of tag of Reject \<Rightarrow> None
      | Skip sz \<Rightarrow> (case inline sz body of Some (n, data) \<Rightarrow> if int (length data) = n then Some (0, False) else None
                    | None \<Rightarrow> None)
      | Text sz \<Rightarrow> (case inline sz body of
            Some (n, data) \<Rightarrow> if int (length data) = n \<and> valid_utf8 data then Some (0, False) else None
          | None \<Rightarrow> None)
      | Ext sz \<Rightarrow> (case inline sz body of Some (n, data) \<Rightarrow> map_option (\<lambda>k. (k, k \<noteq> 0)) (ext_kids data n)
                   | None \<Rightarrow> None)
      | Items sz map1 \<Rightarrow> (case inline sz body of
            Some (n, data) \<Rightarrow> if data = [] \<and> n \<le> maxCollectionLength limits
              then Some (nat (if map1 then n * 2 else n), True) else None
          | None \<Rightarrow> None)))"

fun tree_bytes :: "mp_tree \<Rightarrow> bytes" where
  "tree_bytes (MP h ts) = h @ concat (map tree_bytes ts)"

fun tree_values :: "mp_tree \<Rightarrow> nat" where
  "tree_values (MP h ts) = 1 + sum_list (map tree_values ts)"

text \<open>\<open>tree_ok limits d t\<close>: the tree is well formed and, placed inside \<open>d\<close> containers, nests no deeper
  than the limit; collections are no longer than the limit.\<close>

fun tree_ok :: "ResolvedDecodeLimits \<Rightarrow> nat \<Rightarrow> mp_tree \<Rightarrow> bool" where
  "tree_ok limits d (MP h ts) = (case mp_head limits h of None \<Rightarrow> False
     | Some (k, c) \<Rightarrow> length ts = k \<and> (c \<longrightarrow> int (d + 1) \<le> maxDepth limits) \<and> (\<forall>t \<in> set ts. tree_ok limits (d + 1) t))"

section \<open>The scan on a suffix of the input\<close>

lemma drop_take_uncons:
  "i < e \<Longrightarrow> e \<le> length xs \<Longrightarrow> drop i (take e xs) = xs ! i # drop (Suc i) (take e xs)"
  by (simp add: Cons_nth_drop_Suc [symmetric])

lemma mp_be_nonneg: "0 \<le> mp_be xs"
proof -
  have "0 \<le> v \<Longrightarrow> 0 \<le> foldl (\<lambda>v b. v * 256 + uint (b::byte)) v xs" for v
    by (induction xs arbitrary: v) auto
  then show ?thesis by simp
qed

declare mp_be.simps [simp del]

lemma mp_advance_shift: "p \<le> length input \<Longrightarrow>
    mp_advance input (p + a) n = map_option ((+) p) (mp_advance (drop p input) a n)"
  by (auto simp: mp_advance_def)

lemma mp_size_shift: "p \<le> length input \<Longrightarrow>
    mp_size_at input (p + a) sz = map_prod id ((+) p) (mp_size_at (drop p input) a sz)"
  by (auto simp: mp_size_at_def mp_length_def add.commute split: mp_size.splits)

text \<open>A check that looks at its range only and accepts the valid encodings.\<close>

definition range_utf8 :: "utf8_check \<Rightarrow> bool" where
  "range_utf8 v \<longleftrightarrow> (\<forall>input s e. e \<le> length input \<longrightarrow> v input s e = valid_utf8 (drop s (take e input)))"

lemma range_isSafeUtf8: "range_utf8 isSafeUtf8"
  by (simp add: range_utf8_def isSafeUtf8_range)

lemma mp_string_shift: "range_utf8 v \<Longrightarrow> range_utf8 v' \<Longrightarrow> p \<le> length input \<Longrightarrow> a \<le> length (drop p input) \<Longrightarrow>
    mp_string v input (p + a) n = map_option ((+) p) (mp_string v' (drop p input) a n)"
  using mp_advance_shift [of p input a n]
  by (auto simp: mp_string_def range_utf8_def add.assoc take_drop drop_drop add.commute [of p])

lemma mp_container_shift: "p \<le> length input \<Longrightarrow>
    mp_container limits input (p + a) pending n m = mp_container limits (drop p input) a pending n m"
proof -
  assume "p \<le> length input"
  then have "int (length input) - int (p + a) = int (length (drop p input)) - int a" by simp
  then show ?thesis unfolding mp_container_def by (simp only:)
qed

lemma mp_extension_shift: "p \<le> length input \<Longrightarrow>
    mp_extension limits input (p + a) pending n
      = map_option (map_prod ((+) p) id) (mp_extension limits (drop p input) a pending n)"
proof -
  assume p: "p \<le> length input"
  have adv: "mp_advance input (Suc (p + a)) n = map_option ((+) p) (mp_advance (drop p input) (Suc a) n)"
    using mp_advance_shift [OF p, of "Suc a" n] by simp
  have nt: "drop p input ! a = input ! (p + a)" "byte_at (drop p input) (Suc a) = byte_at input (Suc (p + a))"
    using p by (auto simp: byte_at_def add.commute)
  have rem: "int (length (drop p input)) - int a = int (length input) - int (p + a)" using p by simp
  show ?thesis unfolding mp_extension_def rem
    by (simp add: adv nt mp_container_shift [OF p] option.map_comp o_def split: option.split)
qed

lemma mp_token_shift:
  assumes "range_utf8 v" "range_utf8 v'" "p \<le> length input"
  shows "mp_token v limits input tag p pending
    = map_option (map_prod ((+) p) id) (mp_token v' limits (drop p input) tag 0 pending)"
proof (cases "mp_action_of tag")
  case (Skip sz)
  obtain n a where na: "mp_size_at (drop p input) 0 sz = (n, a)" by fastforce
  then show ?thesis using Skip mp_size_shift [OF assms(3), of 0 sz] mp_advance_shift [OF assms(3), of a n]
    by (simp add: mp_token_def option.map_comp o_def)
next
  case (Text sz)
  obtain n a where na: "mp_size_at (drop p input) 0 sz = (n, a)" by fastforce
  then have "a \<le> length (drop p input)" 
    by (auto simp: mp_size_at_def mp_length_def split: mp_size.splits if_splits)
  then show ?thesis using na Text mp_size_shift [OF assms(3), of 0 sz] mp_string_shift [OF assms, of a n]
    by (simp add: mp_token_def option.map_comp o_def)
next
  case (Ext sz)
  obtain n a where na: "mp_size_at (drop p input) 0 sz = (n, a)" by fastforce
  then show ?thesis using Ext mp_size_shift [OF assms(3), of 0 sz] mp_extension_shift [OF assms(3), of limits a pending n]
    by (simp add: mp_token_def)
next
  case (Items sz m)
  obtain n a where na: "mp_size_at (drop p input) 0 sz = (n, a)" by fastforce
  then show ?thesis using Items mp_size_shift [OF assms(3), of 0 sz] mp_container_shift [OF assms(3), of limits a pending n m]
    by (simp add: mp_token_def option.map_comp o_def)
qed (simp add: mp_token_def)

lemma container_iff: "mp_container limits r a pending n m = Some st \<longleftrightarrow>
    0 \<le> n \<and> n \<le> maxCollectionLength limits \<and> int (length pending) \<le> maxDepth limits
    \<and> (let k = nat (if m then n * 2 else n) in int k \<le> int (length r) - int a
        \<and> st = (if k \<noteq> 0 then k # pending else pending))"
  by (auto simp: mp_container_def Let_def)

lemma nat_diff_add: "a \<le> q \<Longrightarrow> a + nat (int q - int a) = q"
  by simp

lemma advance_iff: "mp_advance r a n = Some q \<longleftrightarrow> 0 \<le> n \<and> n \<le> int (length r) - int a \<and> q = a + nat n"
  by (auto simp: mp_advance_def)

lemma ext_accepts_empty: "ext_accepts type n c = Some w \<Longrightarrow> n \<le> 0 \<Longrightarrow> False"
  by (auto simp: ext_accepts_def split: if_splits option.splits)

lemma ext_kids_Cons: "ext_kids (b # x) n = Some k \<longleftrightarrow>
    int (length x) = n \<and> (\<exists>w. ext_accepts b n (byte_at x 0) = Some w \<and> k = of_bool w)"
  by (auto simp: ext_kids_def)

lemma extension_iff:
  assumes "0 < maxCollectionLength limits" "a \<le> length r"
  shows "mp_extension limits r a pending n = Some (q, st) \<longleftrightarrow> a \<le> q \<and> q \<le> length r
    \<and> (\<exists>k. ext_kids (drop a (take q r)) n = Some k \<and> (k \<noteq> 0 \<longrightarrow> int (length pending) \<le> maxDepth limits)
         \<and> int k \<le> int (length r) - int q \<and> st = (if k \<noteq> 0 then k # pending else pending))"
  (is "?l \<longleftrightarrow> ?r")
proof
  assume l: ?l
  then obtain w where n: "0 \<le> n" "n + 1 \<le> int (length r) - int a"
    and w: "ext_accepts (r ! a) n (byte_at r (a + 1)) = Some w"
    and adv: "q = a + 1 + nat n"
    and c: "if w then mp_container limits r q pending 1 False = Some st else st = pending"
    by (auto simp: mp_extension_def advance_iff split: if_splits option.splits)
  have q: "q \<le> length r" "a < q" using n adv by auto
  then have d: "drop a (take q r) = r ! a # drop (a + 1) (take q r)" using drop_take_uncons [of a q r] by simp
  have "0 < n" using ext_accepts_empty [OF w] by fastforce
  then have "byte_at (drop (a + 1) (take q r)) 0 = byte_at r (a + 1)" using q adv by (auto simp: byte_at_def)
  then have "ext_kids (drop a (take q r)) n = Some (of_bool w)" using d w adv n q by (simp add: ext_kids_def)
  then show ?r using c q by (cases w) (auto simp: container_iff Let_def)
next
  assume ?r
  then obtain k where k: "a \<le> q" "q \<le> length r" "ext_kids (drop a (take q r)) n = Some k"
    "k \<noteq> 0 \<longrightarrow> int (length pending) \<le> maxDepth limits" "int k \<le> int (length r) - int q"
    "st = (if k \<noteq> 0 then k # pending else pending)" by blast
  then have "drop a (take q r) \<noteq> []" by (auto simp: ext_kids_def)
  then have "a < q" by simp
  then have d: "drop a (take q r) = r ! a # drop (a + 1) (take q r)" using drop_take_uncons [of a q r] k by simp
  then obtain w where w: "ext_accepts (r ! a) n (byte_at (drop (a + 1) (take q r)) 0) = Some w" "k = of_bool w"
    "n = int q - (1 + int a)"
  proof -
    have len: "int (length (drop (a + 1) (take q r))) = int q - (1 + int a)" using \<open>a < q\<close> k(2) by simp
    have "ext_kids (r ! a # drop (a + 1) (take q r)) n = Some k" using k(3) d by metis
    then show ?thesis using that len ext_kids_Cons by metis
  qed
  have "0 < n" using ext_accepts_empty [OF w(1)] by fastforce
  then have b: "byte_at (drop (a + 1) (take q r)) 0 = byte_at r (a + 1)" using k w by (auto simp: byte_at_def)
  have adv: "mp_advance r (Suc a) n = Some q" using w(3) \<open>0 < n\<close> k(2) by (simp add: advance_iff)
  have short: "\<not> (n < 0 \<or> int (length r) - int a < n + 1)" using w(3) \<open>0 < n\<close> k(2) by simp
  have acc: "ext_accepts (r ! a) n (byte_at r (Suc a)) = Some w" using w(1) b by simp
  have "mp_container limits r q pending 1 False = Some st" if w
    using k(4-6) that w(2) assms(1) by (simp add: container_iff)
  then show ?l using k(6) w(2) unfolding mp_extension_def if_not_P [OF short]
    by (cases w) (simp_all add: adv acc)
qed

lemma size_iff:
  assumes "mp_size_at r 0 sz = (n, a)"
  shows "q \<le> length r \<Longrightarrow> inline sz (take q r)
    = (if a \<le> q \<and> 0 \<le> n then Some (n, drop a (take q r)) else None)"
proof (cases sz)
  case (Width w)
  assume q: "q \<le> length r"
  show ?thesis
  proof (cases "w \<le> length r")
    case True
    then have "n = mp_be (take w r)" "a = w" using assms Width by (auto simp: mp_size_at_def mp_length_def)
    then show ?thesis using Width q mp_be_nonneg [of "take w r"]
      by (auto simp: inline_def min_def split: if_splits)
  next
    case False
    then show ?thesis using assms Width q by (auto simp: mp_size_at_def mp_length_def inline_def)
  qed
qed (use assms in \<open>auto simp: mp_size_at_def inline_def\<close>)

lemma size_le: "mp_size_at r 0 sz = (n, a) \<Longrightarrow> a \<le> length r"
  by (auto simp: mp_size_at_def mp_length_def split: mp_size.splits if_splits)

text \<open>The token at the front of \<open>r\<close> takes the bytes that make up a head.\<close>

lemma token_head:
  assumes "range_utf8 v" "0 < maxCollectionLength limits"
  shows "mp_token v limits r tag 0 pending = Some (q, st) \<longleftrightarrow> q \<le> length r
    \<and> (\<exists>k c. mp_head limits (tag # take q r) = Some (k, c) \<and> (c \<longrightarrow> int (length pending) \<le> maxDepth limits)
         \<and> int k \<le> int (length r) - int q \<and> st = (if k \<noteq> 0 then k # pending else pending))"
proof (cases "mp_action_of tag")
  case Reject
  then show ?thesis by (simp add: mp_token_def mp_head_def)
next
  case (Skip sz)
  obtain n a where na: "mp_size_at r 0 sz = (n, a)" by fastforce
  have "mp_head limits (tag # take q r) = (if a \<le> q \<and> 0 \<le> n \<and> int (q - a) = n then Some (0, False) else None)"
    if "q \<le> length r"
    using size_iff [OF na that] that Skip by (auto simp: mp_head_def)
  then show ?thesis using Skip na size_le [OF na]
    by (cases "q \<le> length r") (auto simp: mp_token_def advance_iff split: if_splits)
next
  case (Text sz)
  obtain n a where na: "mp_size_at r 0 sz = (n, a)" by fastforce
  have "mp_head limits (tag # take q r) =
      (if a \<le> q \<and> 0 \<le> n \<and> int (q - a) = n \<and> valid_utf8 (drop a (take q r)) then Some (0, False) else None)"
    if "q \<le> length r"
    using size_iff [OF na that] that Text by (auto simp: mp_head_def)
  then show ?thesis using Text na size_le [OF na] assms(1)
    by (cases "q \<le> length r") (auto simp: mp_token_def mp_string_def advance_iff range_utf8_def nat_diff_add split: if_splits)
next
  case (Ext sz)
  obtain n a where na: "mp_size_at r 0 sz = (n, a)" by fastforce
  have "mp_head limits (tag # take q r) =
      (if a \<le> q \<and> 0 \<le> n then map_option (\<lambda>k. (k, k \<noteq> 0)) (ext_kids (drop a (take q r)) n) else None)"
    if "q \<le> length r"
    using size_iff [OF na that] that Ext by (auto simp: mp_head_def)
  moreover have "0 \<le> n" if "ext_kids (drop a (take q r)) n = Some k" for k
    using that by (auto simp: ext_kids_def split: list.splits if_splits)
  ultimately show ?thesis using Ext na extension_iff [OF assms(2) size_le [OF na], of pending n q st]
    by (cases "q \<le> length r"; cases "ext_kids (drop a (take q r)) n") (auto simp: mp_token_def split: if_splits)
next
  case (Items sz m)
  obtain n a where na: "mp_size_at r 0 sz = (n, a)" by fastforce
  have "mp_head limits (tag # take q r) =
      (if q = a \<and> 0 \<le> n \<and> n \<le> maxCollectionLength limits then Some (nat (if m then n * 2 else n), True) else None)"
    if "q \<le> length r"
    using size_iff [OF na that] that Items by (auto simp: mp_head_def)
  then show ?thesis using Items na size_le [OF na]
    by (cases "q \<le> length r") (auto simp: mp_token_def container_iff Let_def split: if_splits)
qed

section \<open>The stack as a forest\<close>

text \<open>\<open>stack_ok limits st r n\<close>: the bytes \<open>r\<close> are the trees the stack waits for, \<open>n\<close> values in all.\<close>

fun stack_ok :: "ResolvedDecodeLimits \<Rightarrow> nat list \<Rightarrow> bytes \<Rightarrow> nat \<Rightarrow> bool" where
  "stack_ok limits [] r n = (r = [] \<and> n = 0)"
| "stack_ok limits (k # st) r n = (\<exists>ts r' n'. length ts = k \<and> (\<forall>t \<in> set ts. tree_ok limits (length st) t)
     \<and> r = concat (map tree_bytes ts) @ r' \<and> n = sum_list (map tree_values ts) + n' \<and> stack_ok limits st r' n')"

lemma stack_ok_zero: "stack_ok limits (0 # st) r n \<longleftrightarrow> stack_ok limits st r n"
  by simp

lemma stack_ok_push: "stack_ok limits (if k \<noteq> 0 then k # st else st) r n \<longleftrightarrow> stack_ok limits (k # st) r n"
  by simp

text \<open>One more tree on the top frame: its head and its children.\<close>

lemma stack_ok_Suc: "stack_ok limits (Suc m # st) r n \<longleftrightarrow>
   (\<exists>h r' k c n'. r = h @ r' \<and> n = Suc n' \<and> mp_head limits h = Some (k, c)
     \<and> (c \<longrightarrow> int (length (m # st)) \<le> maxDepth limits) \<and> stack_ok limits (k # m # st) r' n')"
  (is "?l \<longleftrightarrow> ?r")
proof
  assume ?l
  then obtain t ts r' n' where t: "length ts = m" "tree_ok limits (length st) t" "\<forall>t \<in> set ts. tree_ok limits (length st) t"
    "r = tree_bytes t @ concat (map tree_bytes ts) @ r'" "n = tree_values t + sum_list (map tree_values ts) + n'"
    "stack_ok limits st r' n'"
    by (auto simp: length_Suc_conv)
  obtain h cs where tc: "t = MP h cs" by (cases t)
  obtain k c where kc: "mp_head limits h = Some (k, c)" "length cs = k" "c \<longrightarrow> int (length st + 1) \<le> maxDepth limits"
    "\<forall>t \<in> set cs. tree_ok limits (length st + 1) t"
    using t(2) tc by (auto split: option.splits)
  have "stack_ok limits (m # st) (concat (map tree_bytes ts) @ r') (sum_list (map tree_values ts) + n')"
    using t by auto
  then have "stack_ok limits (k # m # st) (concat (map tree_bytes cs) @ concat (map tree_bytes ts) @ r')
      (sum_list (map tree_values cs) + (sum_list (map tree_values ts) + n'))"
    unfolding stack_ok.simps(2) [of limits k "m # st"] using kc(2,4) by (intro exI conjI) auto
  then show ?r using t(4,5) tc kc(1,3)
    by (intro exI [of _ h] exI [of _ "concat (map tree_bytes cs) @ concat (map tree_bytes ts) @ r'"]
        exI [of _ k] exI [of _ c] exI [of _ "sum_list (map tree_values cs) + (sum_list (map tree_values ts) + n')"])
      simp
next
  assume ?r
  then obtain h r' k c n' where h: "r = h @ r'" "n = Suc n'" "mp_head limits h = Some (k, c)"
    "c \<longrightarrow> int (length (m # st)) \<le> maxDepth limits" "stack_ok limits (k # m # st) r' n'" by blast
  obtain cs r1 n1 where c: "length cs = k" "\<forall>t \<in> set cs. tree_ok limits (length st + 1) t"
    "r' = concat (map tree_bytes cs) @ r1" "n' = sum_list (map tree_values cs) + n1" "stack_ok limits (m # st) r1 n1"
    using h(5) unfolding stack_ok.simps(2) [of limits k "m # st"] length_Cons Suc_eq_plus1 by blast
  obtain ts r2 n2 where ts: "length ts = m" "\<forall>t \<in> set ts. tree_ok limits (length st) t"
    "r1 = concat (map tree_bytes ts) @ r2" "n1 = sum_list (map tree_values ts) + n2" "stack_ok limits st r2 n2"
    using c(5) by auto
  have "tree_ok limits (length st) (MP h cs)" using h(3,4) c(1,2) by simp
  then show ?l using h c ts by (auto intro!: exI [of _ "MP h cs # ts"] exI [of _ r2] exI [of _ n2])
qed

lemma tree_bytes_nonempty: "tree_ok limits d t \<Longrightarrow> tree_bytes t \<noteq> []"
  by (cases t) (auto simp: mp_head_def split: list.splits)

lemma trees_length: "(\<forall>t \<in> set ts. tree_ok limits d t) \<Longrightarrow> length ts \<le> length (concat (map tree_bytes ts))"
proof (induction ts)
  case (Cons t ts)
  then show ?case using tree_bytes_nonempty [of limits d t] by (cases "tree_bytes t") auto
qed simp

lemma stack_ok_length: "stack_ok limits (k # st) r n \<Longrightarrow> k \<le> length r"
  using trees_length by fastforce

lemma mp_scan_stack:
  assumes v: "range_utf8 v" and pos: "0 < maxCollectionLength limits"
  shows "p \<le> length input \<Longrightarrow> t \<le> maxTotalValues limits \<Longrightarrow>
     mp_scan v limits input p t st \<longleftrightarrow> (\<exists>n. stack_ok limits st (drop p input) n \<and> t + int n \<le> maxTotalValues limits)"
  using assms
proof (induction v limits input p t st rule: mp_scan.induct)
  case (1 v limits input p t st)
  note v = \<open>range_utf8 v\<close> and pos = \<open>0 < maxCollectionLength limits\<close> and p = \<open>p \<le> length input\<close>
    and t = \<open>t \<le> maxTotalValues limits\<close>
  consider "st = []" | st' where "st = 0 # st'" | m st' where "st = Suc m # st'"
    by (cases st; cases "hd st") auto
  then show ?case
  proof cases
    case 1
    then show ?thesis using p t by (subst mp_scan.simps) auto
  next
    case (2 st')
    then have "mp_scan v limits input p t st = mp_scan v limits input p t st'" by (subst mp_scan.simps) simp
    then show ?thesis using "1.IH"(1) [of 0 st'] 2 p t v pos by (simp only: stack_ok_zero)
  next
    case (3 m st')
    show ?thesis
    proof (cases "p < length input \<and> t + 1 \<le> maxTotalValues limits")
      case False
      then have "\<not> mp_scan v limits input p t st" using 3 by (subst mp_scan.simps) auto
      moreover have "\<not> (stack_ok limits (Suc m # st') (drop p input) n \<and> t + int n \<le> maxTotalValues limits)" for n
      proof
        assume a: "stack_ok limits (Suc m # st') (drop p input) n \<and> t + int n \<le> maxTotalValues limits"
        then obtain n' where "n = Suc n'" using stack_ok_Suc [of limits m st'] by blast
        moreover have "Suc m \<le> length (drop p input)" using stack_ok_length a by blast
        ultimately show False using False a by simp
      qed
      ultimately show ?thesis using 3 by blast
    next
      case True
      define tag where "tag = input ! p"
      define r where "r = drop (p + 1) input"
      have dp: "drop p input = tag # r" using True by (simp add: tag_def r_def Cons_nth_drop_Suc)
      have tok: "mp_token v limits input tag (p + 1) (m # st')
          = map_option (map_prod ((+) (p + 1)) id) (mp_token v limits r tag 0 (m # st'))"
        using mp_token_shift [OF v v, of "p + 1" input limits tag] True by (simp add: r_def)
      have head: "mp_token v limits r tag 0 (m # st') = Some (q, s1) \<longleftrightarrow> q \<le> length r
        \<and> (\<exists>k c. mp_head limits (tag # take q r) = Some (k, c) \<and> (c \<longrightarrow> int (length (m # st')) \<le> maxDepth limits)
         \<and> int k \<le> int (length r) - int q \<and> s1 = (if k \<noteq> 0 then k # m # st' else m # st'))" for q s1
        by (rule token_head [OF v pos])
      have scan: "mp_scan v limits input p t st = (case mp_token v limits r tag 0 (m # st') of None \<Rightarrow> False
          | Some (q, s1) \<Rightarrow> mp_scan v limits input (p + 1 + q) (t + 1) s1)"
        using 3 True tok by (subst mp_scan.simps) (simp add: tag_def [symmetric] split: option.split)
      have IH: "mp_scan v limits input (p + 1 + q) (t + 1) s1
          \<longleftrightarrow> (\<exists>n. stack_ok limits s1 (drop q r) n \<and> t + 1 + int n \<le> maxTotalValues limits)"
        if "mp_token v limits r tag 0 (m # st') = Some (q, s1)" "q \<le> length r" for q s1
      proof -
        have le: "Suc (p + q) \<le> length input" using that(2) True by (auto simp: r_def)
        show ?thesis using "1.IH"(2) [of "Suc m" st' m "(p + 1 + q, s1)" "p + 1 + q" s1] 3 True tok that v pos le
          by (simp add: tag_def [symmetric] r_def add.commute)
      qed
      show ?thesis
      proof
        assume "mp_scan v limits input p t st"
        then obtain q s1 where q: "mp_token v limits r tag 0 (m # st') = Some (q, s1)"
            "mp_scan v limits input (p + 1 + q) (t + 1) s1"
          unfolding scan by (auto split: option.splits)
        then obtain k c where k: "q \<le> length r" "mp_head limits (tag # take q r) = Some (k, c)"
          "c \<longrightarrow> int (length (m # st')) \<le> maxDepth limits" "s1 = (if k \<noteq> 0 then k # m # st' else m # st')"
          using head by blast
        obtain n where n: "stack_ok limits s1 (drop q r) n" "t + 1 + int n \<le> maxTotalValues limits"
          using IH [OF q(1) k(1)] q(2) by blast
        have "stack_ok limits (k # m # st') (drop q r) n" using n(1) k(4) stack_ok_push by metis
        moreover have "tag # r = (tag # take q r) @ drop q r" by simp
        ultimately have "stack_ok limits st (drop p input) (Suc n)"
          using k(2,3) unfolding dp 3 stack_ok_Suc by blast
        then show "\<exists>n. stack_ok limits st (drop p input) n \<and> t + int n \<le> maxTotalValues limits"
          using n(2) by (intro exI [of _ "Suc n"]) simp
      next
        assume "\<exists>n. stack_ok limits st (drop p input) n \<and> t + int n \<le> maxTotalValues limits"
        then obtain n where n: "stack_ok limits (Suc m # st') (tag # r) n" "t + int n \<le> maxTotalValues limits"
          using dp 3 by auto
        then obtain h r' k c n' where h: "tag # r = h @ r'" "n = Suc n'" "mp_head limits h = Some (k, c)"
          "c \<longrightarrow> int (length (m # st')) \<le> maxDepth limits" "stack_ok limits (k # m # st') r' n'"
          unfolding stack_ok_Suc by blast
        then have "h \<noteq> []" by (auto simp: mp_head_def)
        then obtain body where body: "h = tag # body" "r = body @ r'" using h(1) by (cases h) auto
        let ?s1 = "if k \<noteq> 0 then k # m # st' else m # st'"
        have tk: "mp_token v limits r tag 0 (m # st') = Some (length body, ?s1)"
          using head [of "length body" ?s1] h(3,4) body stack_ok_length [OF h(5)] by auto
        have "stack_ok limits ?s1 (drop (length body) r) n'" using h(5) stack_ok_push body by simp
        then show "mp_scan v limits input p t st"
          using IH [OF tk] body h(2) n(2) unfolding scan tk by auto
      qed
    qed
  qed
qed

text \<open>
  C20. With resolved limits, the scan of a MessagePack record ends and accepts exactly the inputs no longer
  than \<open>maxDecodedBytes\<close> that are the bytes of one well-formed value tree with at most
  \<open>maxTotalValues\<close> values, containers nested at most \<open>maxDepth\<close> deep and collections of at most
  \<open>maxCollectionLength\<close> items: it neither reads past the end nor leaves bytes over, and never relies
  on a length the input cannot hold.
\<close>

theorem isSafeMessagePack_correct:
  assumes "resolveDecodeLimits options = Inr limits"
  shows "isSafeMessagePack input limits isSafeUtf8 \<longleftrightarrow> int (length input) \<le> maxDecodedBytes limits
    \<and> (\<exists>t. tree_bytes t = input \<and> tree_ok limits 0 t \<and> int (tree_values t) \<le> maxTotalValues limits)"
proof -
  have pos: "0 < maxCollectionLength limits" "0 < maxTotalValues limits"
    using resolved_positive [OF assms] by simp_all
  have one: "(\<exists>n. stack_ok limits [1] input n \<and> int n \<le> maxTotalValues limits)
      \<longleftrightarrow> (\<exists>t. tree_bytes t = input \<and> tree_ok limits 0 t \<and> int (tree_values t) \<le> maxTotalValues limits)"
  proof
    assume "\<exists>t. tree_bytes t = input \<and> tree_ok limits 0 t \<and> int (tree_values t) \<le> maxTotalValues limits"
    then obtain t where "tree_bytes t = input" "tree_ok limits 0 t" "int (tree_values t) \<le> maxTotalValues limits"
      by blast
    then have "stack_ok limits [1] input (tree_values t) \<and> int (tree_values t) \<le> maxTotalValues limits"
      by (auto intro!: exI [of _ "[t]"])
    then show "\<exists>n. stack_ok limits [1] input n \<and> int n \<le> maxTotalValues limits" by blast
  qed (auto simp: length_Suc_conv)
  show ?thesis
    using mp_scan_stack [OF range_isSafeUtf8 pos(1), of 0 input 0 "[1]"] pos(2) one
    by (auto simp: isSafeMessagePack_def)
qed

theorem isSafeMessagePack_correct_witness:
  "resolveDecodeLimits no_limits = Inr \<lparr>maxEncodedBytes = 26214400, maxDecodedBytes = 26214400, maxDepth = 128,
     maxCollectionLength = 1000000, maxTotalValues = 1000000\<rparr>
   \<and> isSafeMessagePack [0x92, 0xa1, 0x61, 0xc0] \<lparr>maxEncodedBytes = 26214400, maxDecodedBytes = 26214400, maxDepth = 128,
     maxCollectionLength = 1000000, maxTotalValues = 1000000\<rparr> isSafeUtf8"
  (is "?r \<and> isSafeMessagePack _ ?l _")
proof -
  have r: ?r
    by (simp add: resolveDecodeLimits_def no_limits_def positive_safe_def MAX_PORTABLE_DECODED_BYTES_def
        DEFAULT_DECODE_MAX_DEPTH_def DEFAULT_DECODE_MAX_COLLECTION_LENGTH_def DEFAULT_DECODE_MAX_TOTAL_VALUES_def
        MAX_SAFE_INTEGER_def)
  have "tree_ok ?l 0 (MP [0x92] [MP [0xa1, 0x61] [], MP [0xc0] []])"
    by (simp add: mp_head_def mp_action_of_def inline_def)
  then show ?thesis using r isSafeMessagePack_correct [OF r, of "[0x92, 0xa1, 0x61, 0xc0]"]
    by (auto intro!: exI [of _ "MP [0x92] [MP [0xa1, 0x61] [], MP [0xc0] []]"])
qed

end
