(* ===== verification/Codecs.thy ===== *)
theory Codecs
  imports Message_Pack
begin

text \<open>
  The compression codecs and the size tiers that choose among them (\<open>utils/codecs.ts\<close>), and the wire
  policy they share with the Worker runtime (\<open>utils/serializerPolicy.ts\<close>). The compressors themselves
  (zlib, lz4-napi, snappy) are parameters.
\<close>

section \<open>Wire policy\<close>

definition PORTABLE_GZIP_MIN_BYTES :: nat where
  "PORTABLE_GZIP_MIN_BYTES = 1024"

definition MIN_COMPRESSION_SAVINGS :: real where
  "MIN_COMPRESSION_SAVINGS = fl (15 / 100)"

definition HC1_TAG_BYTES :: nat where
  "HC1_TAG_BYTES = 4"

definition HC1_FAMILY :: bytes where
  "HC1_FAMILY = [72, 67, 49]"

definition HC1_MSGPACK_TAG :: bytes where
  "HC1_MSGPACK_TAG = HC1_FAMILY @ [77]"

definition HC1_GZIP_TAG :: bytes where
  "HC1_GZIP_TAG = HC1_FAMILY @ [71]"

definition HC1_JSON_TAG :: bytes where
  "HC1_JSON_TAG = HC1_FAMILY @ [74]"

definition HC1_ZSTD_TAG :: bytes where
  "HC1_ZSTD_TAG = HC1_FAMILY @ [90]"

definition HC1_LZ4_TAG :: bytes where
  "HC1_LZ4_TAG = HC1_FAMILY @ [76]"

definition HC1_SNAPPY_TAG :: bytes where
  "HC1_SNAPPY_TAG = HC1_FAMILY @ [83]"

lemmas hc1_tags = HC1_FAMILY_def HC1_MSGPACK_TAG_def HC1_GZIP_TAG_def HC1_JSON_TAG_def HC1_ZSTD_TAG_def
  HC1_LZ4_TAG_def HC1_SNAPPY_TAG_def

definition CACHE_NULL_SENTINEL :: jsstr where
  "CACHE_NULL_SENTINEL = js ''__hybridcache_null__''"

definition hasWireTag :: "bytes \<Rightarrow> bytes \<Rightarrow> bool" where
  "hasWireTag xs tag \<longleftrightarrow> HC1_TAG_BYTES \<le> length xs \<and> length tag = HC1_TAG_BYTES \<and> take HC1_TAG_BYTES xs = tag"

definition wireTag :: "bytes \<Rightarrow> bytes option" where
  "wireTag xs = (if length xs < HC1_TAG_BYTES then None
     else let tag = take HC1_TAG_BYTES xs in if take 3 tag = HC1_FAMILY then Some tag else None)"

definition withWireTag :: "bytes \<Rightarrow> bytes \<Rightarrow> bytes" where
  "withWireTag tag body = tag @ body"

definition sameBytes :: "bytes \<Rightarrow> bytes \<Rightarrow> bool" where
  "sameBytes l r \<longleftrightarrow> l = r"

text \<open>\<open>buffer.toString('ascii', 0, 4)\<close>: decoding as ASCII clears the highest bit of each byte.\<close>

definition ascii_tag :: "bytes \<Rightarrow> bytes" where
  "ascii_tag xs = map (take_bit 7) (take HC1_TAG_BYTES xs)"

text \<open>The saved fraction is computed in doubles.\<close>

definition shouldUsePortableGzip :: "nat \<Rightarrow> nat \<Rightarrow> bool" where
  "shouldUsePortableGzip packedBytes gzippedBytes =
     (if packedBytes < PORTABLE_GZIP_MIN_BYTES then False
      else MIN_COMPRESSION_SAVINGS \<le> fl (1 - fl (real gzippedBytes / real packedBytes)))"

definition validateKVCompression :: "string option \<Rightarrow> js_error + unit" where
  "validateKVCompression mode = (if mode \<noteq> None \<and> mode \<noteq> Some ''auto'' \<and> mode \<noteq> Some ''none''
     then Inl (TypeError ''Cloudflare KV compression must be auto or none'') else Inr ())"

section \<open>Codecs\<close>

datatype CodecName = none | gzip | zstd | lz4 | snappy

fun codec_name :: "CodecName \<Rightarrow> string" where
  "codec_name none = ''none''"
| "codec_name gzip = ''gzip''"
| "codec_name zstd = ''zstd''"
| "codec_name lz4 = ''lz4''"
| "codec_name snappy = ''snappy''"

fun codec_tag :: "CodecName \<Rightarrow> bytes option" where
  "codec_tag none = None"
| "codec_tag gzip = Some HC1_GZIP_TAG"
| "codec_tag zstd = Some HC1_ZSTD_TAG"
| "codec_tag lz4 = Some HC1_LZ4_TAG"
| "codec_tag snappy = Some HC1_SNAPPY_TAG"

text \<open>
  The native libraries: how a codec compresses, and what it makes of a compressed body, with an output
  bound where the library takes one; \<open>None\<close> is a thrown error.
\<close>

record codec_lib =
  deflate :: "CodecName \<Rightarrow> bytes \<Rightarrow> bytes"
  inflate :: "CodecName \<Rightarrow> bytes \<Rightarrow> int option \<Rightarrow> bytes option"
  ZSTD_AVAILABLE :: bool

definition le32 :: "bytes \<Rightarrow> int" where
  "le32 xs = (\<Sum>i\<leftarrow>[0..<4]. uint (xs ! i) * 256 ^ i)"

text \<open>The varint a raw Snappy block begins with; \<open>None\<close> is the \<open>RangeError\<close>.\<close>

fun snappy_varint :: "bytes \<Rightarrow> nat \<Rightarrow> nat \<Rightarrow> int \<Rightarrow> int option" where
  "snappy_varint input 0 i len = None"
| "snappy_varint input (Suc k) i len =
     (case byte_at input i of None \<Rightarrow> None
      | Some b \<Rightarrow> let len' = len + (uint b mod 128) * 2 ^ (i * 7) in
          if uint b < 0x80 then (if 0xffffffff < len' then None else Some len')
          else snappy_varint input k (i + 1) len')"

definition snappyOutputLength :: "bytes \<Rightarrow> int option" where
  "snappyOutputLength input = snappy_varint input 5 0 0"

definition compress :: "codec_lib \<Rightarrow> CodecName \<Rightarrow> bytes \<Rightarrow> bytes" where
  "compress L c input = (if c = none then input else deflate L c input)"

text \<open>\<open>decompress(input, maxOutputBytes)\<close>: gzip and zstd pass the bound on, lz4 and snappy read the
  announced length first.\<close>

fun decompress :: "codec_lib \<Rightarrow> CodecName \<Rightarrow> bytes \<Rightarrow> int option \<Rightarrow> bytes option" where
  "decompress L none input m = Some input"
| "decompress L gzip input m = inflate L gzip input m"
| "decompress L zstd input m = (if ZSTD_AVAILABLE L then inflate L zstd input m else None)"
| "decompress L lz4 input m =
     (case m of Some n \<Rightarrow> if length input < 4 \<or> n < le32 input then None else inflate L lz4 input None
      | None \<Rightarrow> inflate L lz4 input None)"
| "decompress L snappy input m =
     (case m of Some n \<Rightarrow> (case snappyOutputLength input of None \<Rightarrow> None
        | Some k \<Rightarrow> if n < k then None else inflate L snappy input None)
      | None \<Rightarrow> inflate L snappy input None)"

definition codecs_list :: "CodecName list" where
  "codecs_list = [none, gzip, zstd, lz4, snappy]"

definition codecByTag :: "bytes \<Rightarrow> CodecName option" where
  "codecByTag tag = List.find (\<lambda>c. codec_tag c = Some tag) codecs_list"

definition codecAvailable :: "codec_lib \<Rightarrow> CodecName \<Rightarrow> bool" where
  "codecAvailable L c = (if c = zstd then ZSTD_AVAILABLE L else True)"

section \<open>Tiers\<close>

text \<open>A tier names its codec by a string, which the validation looks up.\<close>

record CompressionTier =
  tier_maxBytes :: "jsnum option"
  tier_codec :: string

definition codec_of_name :: "string \<Rightarrow> CodecName option" where
  "codec_of_name s = List.find (\<lambda>c. codec_name c = s) codecs_list"

definition mk_tier :: "nat option \<Rightarrow> CodecName \<Rightarrow> CompressionTier" where
  "mk_tier m c = \<lparr>tier_maxBytes = map_option (\<lambda>n. jint (int n)) m, tier_codec = codec_name c\<rparr>"

definition DEFAULT_TIERS :: "codec_lib \<Rightarrow> CompressionTier list" where
  "DEFAULT_TIERS L = [mk_tier (Some 256) none, mk_tier (Some (4 * 1024)) lz4,
     mk_tier None (if ZSTD_AVAILABLE L then zstd else lz4)]"

definition autoTiers :: "codec_lib \<Rightarrow> CompressionTier list" where
  "autoTiers L = DEFAULT_TIERS L"

text \<open>A codec name outside the table makes \<open>CODECS[name]\<close> undefined; validated tiers have none.\<close>

fun selectCodec :: "codec_lib \<Rightarrow> CompressionTier list \<Rightarrow> nat \<Rightarrow> CodecName option" where
  "selectCodec L [] n = Some none"
| "selectCodec L (tier # ts) n =
     (if (case tier_maxBytes tier of None \<Rightarrow> True | Some m \<Rightarrow> jless (jint (int n)) m)
      then (if tier_codec tier = ''zstd'' \<and> \<not> ZSTD_AVAILABLE L then Some lz4 else codec_of_name (tier_codec tier))
      else selectCodec L ts n)"

fun validate_tiers_from :: "jsnum \<Rightarrow> CompressionTier list \<Rightarrow> js_error + unit" where
  "validate_tiers_from previous [] = Inr ()"
| "validate_tiers_from previous (tier # ts) =
     (if codec_of_name (tier_codec tier) = None then Inl (Error ''Unknown compression codec'')
      else (case tier_maxBytes tier of
          None \<Rightarrow> if ts \<noteq> [] then Inl (Error ''Only the last compression tier may omit maxBytes.'')
                 else validate_tiers_from previous ts
        | Some m \<Rightarrow> if \<not> isFinite m \<or> jle m previous
            then Inl (Error ''Compression tier has maxBytes, which must be greater than the previous tier'')
            else validate_tiers_from m ts))"

definition validateTiers :: "CompressionTier list \<Rightarrow> js_error + unit" where
  "validateTiers ts = (if ts = [] then Inl (Error ''Compression tiers must be a non-empty array.'')
     else validate_tiers_from (jint 0) ts)"

section \<open>Validated tiers partition the sizes\<close>

text \<open>
  The sizes of a tier: from the bound of the tier before it (\<open>x\<close> for the first) up to its own bound.
\<close>

definition tier_floor :: "real \<Rightarrow> CompressionTier list \<Rightarrow> nat \<Rightarrow> real" where
  "tier_floor x ts i = (if i = 0 then x else (case tier_maxBytes (ts ! (i - 1)) of Some (JNum y) \<Rightarrow> y | _ \<Rightarrow> 0))"

definition in_tier :: "real \<Rightarrow> CompressionTier list \<Rightarrow> nat \<Rightarrow> nat \<Rightarrow> bool" where
  "in_tier x ts n i \<longleftrightarrow> i < length ts \<and> tier_floor x ts i \<le> real n
     \<and> (case tier_maxBytes (ts ! i) of None \<Rightarrow> True | Some m \<Rightarrow> jless (jint (int n)) m)"

text \<open>The codec a tier gives on this machine.\<close>

definition codec_for :: "codec_lib \<Rightarrow> CompressionTier \<Rightarrow> CodecName option" where
  "codec_for L tier = map_option (\<lambda>c. if codecAvailable L c then c else lz4) (codec_of_name (tier_codec tier))"

lemma codec_of_name_name [simp]: "codec_of_name (codec_name c) = Some c"
  by (cases c) (simp_all add: codec_of_name_def codecs_list_def)

lemma codec_of_name_iff: "codec_of_name s = Some c \<longleftrightarrow> s = codec_name c"
  by (auto simp: codec_of_name_def find_Some_iff) (metis codec_of_name_def codec_of_name_name find_Some_iff)

lemma selectCodec_tier:
  assumes "codec_of_name (tier_codec tier) \<noteq> None"
  shows "(if tier_codec tier = ''zstd'' \<and> \<not> ZSTD_AVAILABLE L then Some lz4 else codec_of_name (tier_codec tier))
    = codec_for L tier"
proof -
  obtain c where c: "tier_codec tier = codec_name c" using assms codec_of_name_iff by blast
  then have "codec_of_name (tier_codec tier) = Some c" by simp
  moreover have "tier_codec tier = ''zstd'' \<longleftrightarrow> c = zstd" using c by (cases c) simp_all
  ultimately show ?thesis by (simp add: codec_for_def codecAvailable_def)
qed

lemma selectCodec_cons:
  assumes "validate_tiers_from x (tier # ts) = Inr ()"
  shows "selectCodec L (tier # ts) n =
    (if (case tier_maxBytes tier of None \<Rightarrow> True | Some m \<Rightarrow> jless (jint (int n)) m) then codec_for L tier
     else selectCodec L ts n)"
proof -
  have "codec_of_name (tier_codec tier) \<noteq> None" using assms by (auto split: if_splits)
  then show ?thesis by (simp only: selectCodec.simps selectCodec_tier [OF \<open>_ \<noteq> None\<close>, of L])
qed

text \<open>Along a validated list the bounds are finite and increase.\<close>

lemma validate_tiers_cons:
  assumes "validate_tiers_from (JNum x) (tier # ts) = Inr ()"
  shows "(tier_maxBytes tier = None \<and> ts = []) \<or> (\<exists>y. tier_maxBytes tier = Some (JNum y) \<and> x < y
    \<and> validate_tiers_from (JNum y) ts = Inr ())"
proof (cases "tier_maxBytes tier")
  case (Some m)
  then show ?thesis using assms by (cases m) (auto split: if_splits)
qed (use assms in \<open>auto split: if_splits\<close>)

lemma in_tier_Suc:
  "tier_maxBytes tier = Some (JNum y) \<Longrightarrow> in_tier x (tier # ts) n (Suc i) \<longleftrightarrow> in_tier y ts n i"
  by (cases i) (auto simp: in_tier_def tier_floor_def split: option.splits jsnum.splits)

lemma tier_floor_mono:
  "validate_tiers_from (JNum x) ts = Inr () \<Longrightarrow> in_tier x ts n i \<Longrightarrow> x \<le> real n"
proof (induction ts arbitrary: x i)
  case (Cons tier ts)
  show ?case
  proof (cases i)
    case (Suc j)
    then obtain y where "x < y" "in_tier y ts n j" "validate_tiers_from (JNum y) ts = Inr ()"
      using validate_tiers_cons [OF Cons.prems(1)] Cons.prems(2) in_tier_Suc [of tier _ x ts n j]
      by (auto simp: in_tier_def)
    then show ?thesis using Cons.IH by force
  qed (use Cons in \<open>auto simp: in_tier_def tier_floor_def\<close>)
qed (simp add: in_tier_def)

lemma selectCodec_from:
  "validate_tiers_from (JNum x) ts = Inr () \<Longrightarrow> x \<le> real n \<Longrightarrow>
    (\<exists>i. (\<forall>j. in_tier x ts n j \<longleftrightarrow> j = i) \<and> selectCodec L ts n = codec_for L (ts ! i))
    \<or> (\<forall>j. \<not> in_tier x ts n j) \<and> selectCodec L ts n = Some none"
proof (induction ts arbitrary: x)
  case (Cons tier ts)
  note sel = selectCodec_cons [OF Cons.prems(1), of L n]
  consider "tier_maxBytes tier = None" "ts = []"
    | y where "tier_maxBytes tier = Some (JNum y)" "x < y" "validate_tiers_from (JNum y) ts = Inr ()"
    using validate_tiers_cons [OF Cons.prems(1)] by (elim disjE exE conjE)
  then show ?case
  proof cases
    case 1
    then show ?thesis using sel Cons.prems(2) by (auto simp: in_tier_def tier_floor_def intro!: disjI1 exI [of _ 0])
  next
    case (2 y)
    have zero: "in_tier x (tier # ts) n 0 \<longleftrightarrow> real n < y"
      using 2 Cons.prems(2) by (simp add: in_tier_def tier_floor_def)
    show ?thesis
    proof (cases "real n < y")
      case True
      have "in_tier x (tier # ts) n j \<longleftrightarrow> j = 0" for j
        using zero True in_tier_Suc [OF 2(1)] tier_floor_mono [OF 2(3), of n] by (cases j) force+
      then show ?thesis using sel True 2(1) by (intro disjI1 exI [of _ 0]) simp
    next
      case False
      then have skip: "selectCodec L (tier # ts) n = selectCodec L ts n" using sel 2(1) by simp
      have tiers: "in_tier x (tier # ts) n j \<longleftrightarrow> (\<exists>i. j = Suc i \<and> in_tier y ts n i)" for j
        using zero False in_tier_Suc [OF 2(1)] by (cases j) auto
      have "y \<le> real n" using False by simp
      from Cons.IH [OF 2(3) this] show ?thesis
      proof (elim disjE exE conjE)
        fix i
        assume "\<forall>j. in_tier y ts n j \<longleftrightarrow> j = i" "selectCodec L ts n = codec_for L (ts ! i)"
        then show ?thesis using skip tiers by (intro disjI1 exI [of _ "Suc i"]) simp
      qed (use skip tiers in simp)
    qed
  qed
qed (simp add: in_tier_def)

text \<open>
  A tier list that passes \<open>validateTiers\<close> partitions the payload sizes: a size lies in at most one
  tier (from the previous bound up to the tier's own), the codec chosen is the one that tier names, with
  lz4 in place of a codec this process cannot run, and a size above every bound is not compressed.
\<close>

theorem tiers_partition_sizes:
  assumes "validateTiers ts = Inr ()"
  shows "(\<exists>i. (\<forall>j. in_tier 0 ts n j \<longleftrightarrow> j = i) \<and> selectCodec L ts n = codec_for L (ts ! i))
    \<or> (\<forall>j. \<not> in_tier 0 ts n j) \<and> selectCodec L ts n = Some none"
  using assms selectCodec_from [of 0 ts n L] by (auto simp: validateTiers_def split: if_splits)

definition demo_lib :: codec_lib where
  "demo_lib = \<lparr>deflate = (\<lambda>_ x. x), inflate = (\<lambda>_ x _. Some x), ZSTD_AVAILABLE = False\<rparr>"

theorem tiers_partition_sizes_witness:
  "validateTiers (DEFAULT_TIERS demo_lib) = Inr () \<and> selectCodec demo_lib (DEFAULT_TIERS demo_lib) 300 = Some lz4
   \<and> ((\<exists>i. (\<forall>j. in_tier 0 (DEFAULT_TIERS demo_lib) 300 j \<longleftrightarrow> j = i)
        \<and> selectCodec demo_lib (DEFAULT_TIERS demo_lib) 300 = codec_for demo_lib (DEFAULT_TIERS demo_lib ! i))
      \<or> (\<forall>j. \<not> in_tier 0 (DEFAULT_TIERS demo_lib) 300 j)
        \<and> selectCodec demo_lib (DEFAULT_TIERS demo_lib) 300 = Some none)"
proof -
  have v: "validateTiers (DEFAULT_TIERS demo_lib) = Inr ()"
    by (simp add: validateTiers_def DEFAULT_TIERS_def mk_tier_def demo_lib_def del: codec_name.simps)
  moreover have "selectCodec demo_lib (DEFAULT_TIERS demo_lib) 300 = Some lz4"
    by (simp add: DEFAULT_TIERS_def mk_tier_def demo_lib_def codec_of_name_name [of lz4, simplified])
  ultimately show ?thesis using tiers_partition_sizes [OF v, of 300 demo_lib] by blast
qed

end
