(* ===== verification/Serializer.thy ===== *)
theory Serializer
  imports Codecs
begin

text \<open>
  The cache record format: the JSON scan of \<open>utils/decodeValidation.ts\<close>, the Node serializer
  (\<open>utils/serializer.ts\<close>) and the Worker serializer (\<open>utils/portableSerializer.ts\<close>,
  \<open>utils/cacheSerializer.ts\<close>). MessagePack and JSON are parameters: what \<open>pack\<close>, the two unpackers,
  \<open>JSON.stringify\<close> and \<open>JSON.parse\<close> make of a value, \<open>None\<close> where they throw.
\<close>

section \<open>Bounding JSON\<close>

record json_frame =
  fr_close :: byte
  fr_items :: int
  fr_content :: bool

definition touch :: "json_frame list \<Rightarrow> json_frame list" where
  "touch st = (case st of [] \<Rightarrow> [] | f # fs \<Rightarrow> f\<lparr>fr_content := True\<rparr> # fs)"

text \<open>The loop over the bytes; the top of the stack is its head, and a backslash inside a string skips
  the byte after it.\<close>

function json_scan :: "ResolvedDecodeLimits \<Rightarrow> bytes \<Rightarrow> json_frame list \<Rightarrow> bool \<Rightarrow> int \<Rightarrow> bool" where
  "json_scan limits [] st quoted totalValues = (\<not> quoted \<and> st = [])"
| "json_scan limits (b # rest) st quoted totalValues =
     (if quoted then
        (if b = 92 then json_scan limits (tl rest) st quoted totalValues
         else json_scan limits rest st (b \<noteq> 34) totalValues)
      else if b = 34 then json_scan limits rest (touch st) True totalValues
      else if b = 123 \<or> b = 91 then
        (if maxDepth limits \<le> int (length st) then False
         else json_scan limits rest
           (\<lparr>fr_close = (if b = 123 then 125 else 93), fr_items = 1, fr_content = False\<rparr> # touch st) quoted totalValues)
      else if b = 125 \<or> b = 93 then
        (case st of [] \<Rightarrow> False
         | current # fs \<Rightarrow>
             if fr_close current \<noteq> b then False
             else if fr_content current \<and> maxCollectionLength limits < fr_items current then False
             else let total = (if fr_content current then totalValues + fr_items current * (if fr_close current = 125 then 2 else 1)
                               else totalValues) in
               if maxTotalValues limits < total then False
               else json_scan limits rest fs quoted total)
      else if b = 44 \<and> st \<noteq> [] then
        (let current = hd st in
         if maxCollectionLength limits < fr_items current + 1 then False
         else json_scan limits rest (current\<lparr>fr_items := fr_items current + 1\<rparr> # tl st) quoted totalValues)
      else if b \<noteq> 32 \<and> b \<noteq> 9 \<and> b \<noteq> 10 \<and> b \<noteq> 13 then json_scan limits rest (touch st) quoted totalValues
      else json_scan limits rest st quoted totalValues)"
  by pat_completeness auto
termination by (relation "measure (\<lambda>(l, xs, st, q, t). length xs)") (auto intro: le_less_trans)

definition isSafeJson :: "bytes \<Rightarrow> ResolvedDecodeLimits \<Rightarrow> bool" where
  "isSafeJson input limits = (if maxDecodedBytes limits < int (length input) then False
     else json_scan limits input [] False 1)"

section \<open>Parameters\<close>

record codec_env = codec_lib +
  pack :: "jsval \<Rightarrow> bytes option"
  unpack :: "bytes \<Rightarrow> jsval option"
  strict_unpack :: "bytes \<Rightarrow> jsval option"
  json_stringify :: "jsval \<Rightarrow> bytes option"
  json_parse :: "bytes \<Rightarrow> jsval option"
  gzip_stream :: "bytes \<Rightarrow> bytes"
  gunzip_stream :: "bytes \<Rightarrow> bytes option"
  debug_json :: bool
  config_tiers :: "CompressionTier list"

text \<open>\<open>JSON.stringify\<close> gives the UTF-8 bytes of its text; \<open>json_parse\<close> reads such bytes. \<open>gzip_stream\<close>
  and \<open>gunzip_stream\<close> are the web streams of the Worker, \<open>config_tiers\<close> what \<open>configureCompression\<close>
  last set, \<open>debug_json\<close> the two environment switches.\<close>

definition isUtf8 :: "bytes \<Rightarrow> bool" where
  "isUtf8 xs = isSafeUtf8 xs 0 (length xs)"

definition validUtf8Range :: utf8_check where
  "validUtf8Range input s e = isUtf8 (take (e - s) (drop s input))"

section \<open>The Node serializer\<close>

datatype compression = CompressionMode string | Tiers "CompressionTier list"

record SerializeOptions =
  format :: "string option"
  so_compression :: "compression option"

definition default_options :: SerializeOptions where
  "default_options = \<lparr>format = None, so_compression = None\<rparr>"

datatype serialize_error = ConfigError js_error | CacheSerializationError | JsonError

record SerializedCacheValue =
  sv_buffer :: bytes
  sv_encoding :: string
  sv_originalBytes :: nat
  sv_storedBytes :: nat
  sv_compressionRatio :: real
  sv_compressed :: bool

definition configureCompression :: "'x codec_env_scheme \<Rightarrow> compression \<Rightarrow> js_error + 'x codec_env_scheme" where
  "configureCompression E mode = (case mode of
     Tiers ts \<Rightarrow> (case validateTiers ts of Inl e \<Rightarrow> Inl e | Inr _ \<Rightarrow> Inr (E\<lparr>config_tiers := ts\<rparr>))
   | CompressionMode m \<Rightarrow>
       if m = ''auto'' then Inr (E\<lparr>config_tiers := autoTiers (codec_lib.truncate E)\<rparr>)
       else if m = ''none'' then Inr (E\<lparr>config_tiers := [mk_tier None none]\<rparr>)
       else Inr (E\<lparr>config_tiers := [mk_tier (Some 1024) none, \<lparr>tier_maxBytes = None, tier_codec = m\<rparr>]\<rparr>))"

definition resolveTiers :: "'x codec_env_scheme \<Rightarrow> compression option \<Rightarrow> js_error + CompressionTier list" where
  "resolveTiers E c = (case c of None \<Rightarrow> Inr (config_tiers E)
   | Some (Tiers ts) \<Rightarrow> (case validateTiers ts of Inl e \<Rightarrow> Inl e | Inr _ \<Rightarrow> Inr ts)
   | Some (CompressionMode m) \<Rightarrow>
       if m = ''auto'' then Inr (autoTiers (codec_lib.truncate E))
       else if m = ''none'' then Inr [mk_tier None none]
       else if m \<noteq> ''gzip'' \<and> m \<noteq> ''zstd''
         then Inl (TypeError ''compression must be none, auto, gzip, zstd, or a valid tier list'')
       else Inr [mk_tier (Some PORTABLE_GZIP_MIN_BYTES) none, \<lparr>tier_maxBytes = None, tier_codec = m\<rparr>])"

definition PACKED_SENTINEL :: "'x codec_env_scheme \<Rightarrow> bytes" where
  "PACKED_SENTINEL E = nullish (pack E (VStr CACHE_NULL_SENTINEL)) []"

definition SENTINEL_BUFFER :: "'x codec_env_scheme \<Rightarrow> bytes" where
  "SENTINEL_BUFFER E = HC1_MSGPACK_TAG @ PACKED_SENTINEL E"

definition hasPrefix :: "bytes \<Rightarrow> bytes \<Rightarrow> bool" where
  "hasPrefix buffer p \<longleftrightarrow> length p \<le> length buffer \<and> take (length p) buffer = p"

definition stripPrefix :: "bytes \<Rightarrow> bytes \<Rightarrow> bytes" where
  "stripPrefix buffer p = drop (length p) buffer"

definition getCompressionSavings :: "nat \<Rightarrow> nat \<Rightarrow> real" where
  "getCompressionSavings originalBytes compressedBytes = (if originalBytes = 0 then 0
     else let saved = fl (1 - fl (real compressedBytes / real originalBytes)) in if saved < 0 then 0 else saved)"

definition GZIP_MIN_BYTES :: nat where
  "GZIP_MIN_BYTES = 64 * 1024"

definition shouldGzip :: "nat \<Rightarrow> nat \<Rightarrow> bool" where
  "shouldGzip packedLength compressedLength = (if packedLength < GZIP_MIN_BYTES then False
     else MIN_COMPRESSION_SAVINGS \<le> getCompressionSavings packedLength compressedLength)"

definition withPrefix :: "bytes \<Rightarrow> bytes \<Rightarrow> bytes" where
  "withPrefix p payload = p @ payload"

definition plain_value :: "bytes \<Rightarrow> string \<Rightarrow> nat \<Rightarrow> SerializedCacheValue" where
  "plain_value buffer enc originalBytes = \<lparr>sv_buffer = buffer, sv_encoding = enc, sv_originalBytes = originalBytes,
     sv_storedBytes = length buffer, sv_compressionRatio = 0, sv_compressed = False\<rparr>"

definition json_value :: "'x codec_env_scheme \<Rightarrow> jsval \<Rightarrow> serialize_error + SerializedCacheValue" where
  "json_value E v = (case json_stringify E v of None \<Rightarrow> Inl JsonError
     | Some j \<Rightarrow> Inr (plain_value (withPrefix HC1_JSON_TAG j) ''json'' (length j)))"

definition packed_value :: "'x codec_env_scheme \<Rightarrow> bytes \<Rightarrow> SerializeOptions \<Rightarrow> serialize_error + SerializedCacheValue" where
  "packed_value E packed options = (case resolveTiers E (so_compression options) of Inl e \<Rightarrow> Inl (ConfigError e)
     | Inr ts \<Rightarrow> (case selectCodec (codec_lib.truncate E) ts (length packed) of
         None \<Rightarrow> Inl (ConfigError (TypeError ''Cannot read properties of undefined''))
       | Some c \<Rightarrow>
         let raw = Inr (plain_value (withPrefix HC1_MSGPACK_TAG packed) ''msgpack'' (length packed)) in
         (case codec_tag c of None \<Rightarrow> raw
          | Some tag \<Rightarrow> let compressed = compress (codec_lib.truncate E) c packed;
                           saved = getCompressionSavings (length packed) (length compressed) in
              if MIN_COMPRESSION_SAVINGS \<le> saved
              then (let buffer = withPrefix tag compressed in
                Inr \<lparr>sv_buffer = buffer, sv_encoding = ''msgpack-'' @ codec_name c, sv_originalBytes = length packed,
                  sv_storedBytes = length buffer, sv_compressionRatio = saved, sv_compressed = True\<rparr>)
              else raw)))"

definition serializeWithStats :: "'x codec_env_scheme \<Rightarrow> jsval \<Rightarrow> SerializeOptions \<Rightarrow> serialize_error + SerializedCacheValue" where
  "serializeWithStats E v options =
     (if format options \<noteq> None \<and> format options \<noteq> Some ''json'' \<and> format options \<noteq> Some ''msgpack''
      then Inl (ConfigError (TypeError ''format must be json or msgpack''))
      else if v = VNull \<or> v = VUndefined
      then Inr (plain_value (SENTINEL_BUFFER E) ''msgpack'' (length (PACKED_SENTINEL E)))
      else if v = VStr CACHE_NULL_SENTINEL then json_value E v
      else if format options = Some ''json'' \<or> (format options = None \<and> debug_json E) then json_value E v
      else (case pack E v of None \<Rightarrow> Inl CacheSerializationError
        | Some packed \<Rightarrow> packed_value E packed options))"

definition serialize :: "'x codec_env_scheme \<Rightarrow> jsval \<Rightarrow> SerializeOptions \<Rightarrow> serialize_error + bytes" where
  "serialize E v options = map_sum id sv_buffer (serializeWithStats E v options)"

datatype DecodedCacheRecord = Hit jsval | Miss

definition unwrapSentinel :: "jsval \<Rightarrow> jsval" where
  "unwrapSentinel v = (if v = VStr CACHE_NULL_SENTINEL then VNull else v)"

text \<open>A thrown error of the unpacker is the outer \<open>None\<close>.\<close>

definition unpackChecked :: "'x codec_env_scheme \<Rightarrow> bytes \<Rightarrow> ResolvedDecodeLimits \<Rightarrow> bool \<Rightarrow> DecodedCacheRecord option" where
  "unpackChecked E payload limits legacySentinel =
     (if \<not> isSafeMessagePack payload limits validUtf8Range then Some Miss
      else map_option (\<lambda>v. Hit (if legacySentinel then unwrapSentinel v else v)) (strict_unpack E payload))"

definition decode_json :: "'x codec_env_scheme \<Rightarrow> bytes \<Rightarrow> ResolvedDecodeLimits \<Rightarrow> DecodedCacheRecord option" where
  "decode_json E body limits = (if isSafeJson body limits \<and> isUtf8 body then map_option Hit (json_parse E body) else Some Miss)"

text \<open>The tagged formats; \<open>Inr\<close> falls through to the untagged ones.\<close>

definition decode_tagged :: "'x codec_env_scheme \<Rightarrow> bytes \<Rightarrow> ResolvedDecodeLimits \<Rightarrow> DecodedCacheRecord option + unit" where
  "decode_tagged E buffer limits =
     (if length buffer < HC1_TAG_BYTES then Inr ()
      else let tag = ascii_tag buffer; body = drop HC1_TAG_BYTES buffer in
        (case codecByTag tag of
           Some c \<Rightarrow> Inl (case decompress (codec_lib.truncate E) c body (Some (maxDecodedBytes limits)) of None \<Rightarrow> None
             | Some expanded \<Rightarrow>
                 if maxDecodedBytes limits < int (length expanded) then Some Miss
                 else if expanded = PACKED_SENTINEL E then Some (Hit VNull)
                 else unpackChecked E expanded limits False)
         | None \<Rightarrow>
             if tag = HC1_MSGPACK_TAG then Inl
               (if maxDecodedBytes limits < int (length body) then Some Miss
                else if buffer = SENTINEL_BUFFER E then Some (Hit VNull)
                else unpackChecked E body limits False)
             else if tag = HC1_JSON_TAG then Inl (decode_json E body limits)
             else Inr ()))"

definition decode_legacy :: "'x codec_env_scheme \<Rightarrow> bytes \<Rightarrow> ResolvedDecodeLimits \<Rightarrow> DecodedCacheRecord option" where
  "decode_legacy E buffer limits =
     (case unpackChecked E buffer limits True of Some (Hit v) \<Rightarrow> Some (Hit v)
      | _ \<Rightarrow> if isSafeJson buffer limits \<and> isUtf8 buffer
             then map_option (\<lambda>v. Hit (unwrapSentinel v)) (json_parse E buffer) else Some Miss)"

text \<open>The outer \<open>catch\<close> makes every error a miss.\<close>

definition decode_bounded :: "'x codec_env_scheme \<Rightarrow> bytes \<Rightarrow> ResolvedDecodeLimits \<Rightarrow> DecodedCacheRecord" where
  "decode_bounded E raw limits =
     (if maxEncodedBytes limits < int (length raw) then Miss
      else nullish (case decode_tagged E raw limits of Inl r \<Rightarrow> r
        | Inr _ \<Rightarrow> if hasPrefix raw HC1_FAMILY then Some Miss else decode_legacy E raw limits) Miss)"

definition decodeCacheRecord :: "'x codec_env_scheme \<Rightarrow> bytes \<Rightarrow> DecodeLimits \<Rightarrow> js_error + DecodedCacheRecord" where
  "decodeCacheRecord E raw options = (case resolveDecodeLimits options of Inl e \<Rightarrow> Inl e
     | Inr limits \<Rightarrow> Inr (decode_bounded E raw limits))"

text \<open>
  The public \<open>deserialize\<close> of a buffer: without limits it keeps accepting what earlier releases wrote.
\<close>

definition deserialize_buffer :: "'x codec_env_scheme \<Rightarrow> bytes \<Rightarrow> jsval" where
  "deserialize_buffer E buffer =
     (let legacy = (if length HC1_FAMILY \<le> length buffer \<and> hasPrefix buffer HC1_FAMILY then VNull
            else (case unpack E buffer of Some v \<Rightarrow> unwrapSentinel v
              | None \<Rightarrow> (case json_parse E buffer of Some v \<Rightarrow> unwrapSentinel v | None \<Rightarrow> VNull))) in
      if length buffer < HC1_TAG_BYTES then legacy
      else (case codecByTag (ascii_tag buffer) of
          Some c \<Rightarrow> nullish (Option.bind (decompress (codec_lib.truncate E) c (drop HC1_TAG_BYTES buffer) None) (unpack E)) VNull
        | None \<Rightarrow>
            if hasPrefix buffer HC1_MSGPACK_TAG then
              (if buffer = SENTINEL_BUFFER E then VNull
               else nullish (unpack E (stripPrefix buffer HC1_MSGPACK_TAG)) VNull)
            else if hasPrefix buffer HC1_JSON_TAG then nullish (json_parse E (stripPrefix buffer HC1_JSON_TAG)) VNull
            else legacy))"

text \<open>What \<open>deserialize\<close> may be given; other values are returned as they are.\<close>

datatype raw_value = RawBytes bytes | RawValue jsval

definition deserialize_text :: "'x codec_env_scheme \<Rightarrow> jsstr \<Rightarrow> jsval" where
  "deserialize_text E s = (if s = CACHE_NULL_SENTINEL then VNull
     else (case json_parse E (utf8 s) of Some v \<Rightarrow> unwrapSentinel v | None \<Rightarrow> VStr s))"

definition deserialize :: "'x codec_env_scheme \<Rightarrow> raw_value \<Rightarrow> DecodeLimits option \<Rightarrow> js_error + jsval" where
  "deserialize E raw options =
     (let unbounded = (case raw of RawBytes buffer \<Rightarrow> deserialize_buffer E buffer
            | RawValue (VStr s) \<Rightarrow> deserialize_text E s
            | RawValue v \<Rightarrow> if v = VUndefined then VNull else v) in
      case options of None \<Rightarrow> Inr unbounded
      | Some d \<Rightarrow> (case resolveDecodeLimits d of Inl e \<Rightarrow> Inl e
         | Inr limits \<Rightarrow> Inr (case raw of
             RawBytes buffer \<Rightarrow> (case decode_bounded E buffer limits of Hit v \<Rightarrow> v | Miss \<Rightarrow> VNull)
           | RawValue (VStr s) \<Rightarrow>
               if maxEncodedBytes limits < int (byteLength s) \<or> maxDecodedBytes limits < int (byteLength s) then VNull
               else if s = CACHE_NULL_SENTINEL then VNull
               else if \<not> isSafeJson (utf8 s) limits then VNull
               else (case json_parse E (utf8 s) of Some v \<Rightarrow> unwrapSentinel v | None \<Rightarrow> VStr s)
           | RawValue v \<Rightarrow> unbounded)))"

record BufferInspection =
  bi_encoding :: string
  bi_storedBytes :: nat
  bi_value :: jsval

definition inspectBuffer :: "'x codec_env_scheme \<Rightarrow> bytes \<Rightarrow> BufferInspection" where
  "inspectBuffer E buffer =
     \<lparr>bi_encoding = (if length buffer < HC1_TAG_BYTES then ''legacy''
        else (case codecByTag (ascii_tag buffer) of Some c \<Rightarrow> ''msgpack-'' @ codec_name c
          | None \<Rightarrow> if hasPrefix buffer HC1_MSGPACK_TAG then ''msgpack''
              else if hasPrefix buffer HC1_JSON_TAG then ''json'' else ''legacy'')),
      bi_storedBytes = length buffer,
      bi_value = deserialize_buffer E buffer\<rparr>"

definition sizeSavings :: "nat \<Rightarrow> nat \<Rightarrow> real" where
  "sizeSavings serializedBytes deserializedBytes = (if deserializedBytes = 0 then 0
     else let saved = fl (1 - fl (real serializedBytes / real deserializedBytes)) in if saved < 0 then 0 else saved)"

section \<open>The Worker serializer\<close>

text \<open>\<open>transform\<close> through a web stream: an error of the stream, or more output than the bound.\<close>

definition transform :: "bytes option \<Rightarrow> int \<Rightarrow> js_error + bytes" where
  "transform output maxBytes = (case output of None \<Rightarrow> Inl (TypeError ''stream error'')
     | Some out \<Rightarrow> if maxBytes < int (length out)
         then Inl (RangeError (if maxBytes = MAX_PORTABLE_DECODED_BYTES then ''Cloudflare KV decoded value exceeds 25 MiB''
           else ''Cloudflare KV transformed value exceeds configured limit''))
         else Inr out)"

definition serializePortable :: "'x codec_env_scheme \<Rightarrow> jsval \<Rightarrow> string \<Rightarrow> js_error + bytes" where
  "serializePortable E value compression =
     (let v = (if value = VUndefined then VNull else value);
          mode = (if value = VUndefined then ''none'' else compression) in
      if v = VStr CACHE_NULL_SENTINEL then
        (case json_stringify E v of None \<Rightarrow> Inl (TypeError ''stringify'') | Some j \<Rightarrow> Inr (withWireTag HC1_JSON_TAG j))
      else (case pack E (if v = VNull then VStr CACHE_NULL_SENTINEL else v) of
          None \<Rightarrow> Inl (TypeError ''LazyLayers cannot serialize a value'')
        | Some packed \<Rightarrow>
            let raw = Inr (withWireTag HC1_MSGPACK_TAG packed) in
            if mode = ''auto'' \<and> PORTABLE_GZIP_MIN_BYTES \<le> length packed then
              (case transform (Some (gzip_stream E packed)) MAX_PORTABLE_DECODED_BYTES of Inl e \<Rightarrow> Inl e
               | Inr gzipped \<Rightarrow> if shouldUsePortableGzip (length packed) (length gzipped)
                   then Inr (withWireTag HC1_GZIP_TAG gzipped) else raw)
            else raw))"

definition portable_unpack :: "'x codec_env_scheme \<Rightarrow> bytes \<Rightarrow> ResolvedDecodeLimits option \<Rightarrow> js_error + jsval" where
  "portable_unpack E xs limits =
     (if (case limits of Some l \<Rightarrow> \<not> isSafeMessagePack xs l isSafeUtf8 | None \<Rightarrow> False)
      then Inl (RangeError ''Cloudflare KV MessagePack value exceeds decode limits or is malformed'')
      else if sameBytes xs (PACKED_SENTINEL E) then Inr VNull
      else (case (if limits = None then unpack E xs else strict_unpack E xs) of
          None \<Rightarrow> Inl (Error ''unpack'') | Some v \<Rightarrow> Inr v))"

text \<open>With limits the text decoder is fatal, so bytes that are not UTF-8 throw.\<close>

definition portable_read :: "'x codec_env_scheme \<Rightarrow> bytes \<Rightarrow> ResolvedDecodeLimits option \<Rightarrow> js_error + jsval" where
  "portable_read E payload limits =
     (let xs = drop HC1_TAG_BYTES payload in
      if (case limits of Some l \<Rightarrow> maxEncodedBytes l < int (length payload) | None \<Rightarrow> False)
      then Inl (RangeError ''Cloudflare KV encoded value exceeds configured limit'')
      else if hasWireTag payload HC1_JSON_TAG then
        (if (case limits of Some l \<Rightarrow> \<not> isSafeJson xs l | None \<Rightarrow> False)
         then Inl (RangeError ''Cloudflare KV JSON value exceeds decode limits or is malformed'')
         else if limits \<noteq> None \<and> \<not> isUtf8 xs then Inl (TypeError ''invalid encoded data'')
         else (case json_parse E xs of None \<Rightarrow> Inl (Error ''SyntaxError'') | Some v \<Rightarrow> Inr v))
      else if hasWireTag payload HC1_MSGPACK_TAG then portable_unpack E xs limits
      else if hasWireTag payload HC1_GZIP_TAG then
        (case transform (gunzip_stream E xs)
            (case limits of Some l \<Rightarrow> maxDecodedBytes l | None \<Rightarrow> MAX_PORTABLE_DECODED_BYTES) of
           Inl e \<Rightarrow> Inl e | Inr out \<Rightarrow> portable_unpack E out limits)
      else if wireTag payload \<noteq> None then Inr VNull
      else Inl (TypeError ''Cloudflare Workers KV requires an HC1M, HC1G, or HC1J value''))"

definition deserializePortable :: "'x codec_env_scheme \<Rightarrow> bytes \<Rightarrow> DecodeLimits option \<Rightarrow> js_error + jsval" where
  "deserializePortable E payload options = (case options of None \<Rightarrow> portable_read E payload None
     | Some d \<Rightarrow> (case resolveDecodeLimits d of Inl e \<Rightarrow> Inl e | Inr l \<Rightarrow> portable_read E payload (Some l)))"

definition decodePortableCacheRecord :: "'x codec_env_scheme \<Rightarrow> bytes \<Rightarrow> DecodeLimits \<Rightarrow> js_error + DecodedCacheRecord" where
  "decodePortableCacheRecord E payload options = (case resolveDecodeLimits options of Inl e \<Rightarrow> Inl e
     | Inr l \<Rightarrow>
        if \<not> hasWireTag payload HC1_MSGPACK_TAG \<and> \<not> hasWireTag payload HC1_JSON_TAG \<and> \<not> hasWireTag payload HC1_GZIP_TAG
        then Inr Miss
        else Inr (case portable_read E payload (Some l) of Inl _ \<Rightarrow> Miss | Inr v \<Rightarrow> Hit v))"

text \<open>The facade of \<open>utils/cacheSerializer.ts\<close>.\<close>

definition serializeCacheValue :: "'x codec_env_scheme \<Rightarrow> jsval \<Rightarrow> string option \<Rightarrow> js_error + bytes" where
  "serializeCacheValue E v compression = (let c = nullish compression ''auto'' in
     case validateKVCompression (Some c) of Inl e \<Rightarrow> Inl e | Inr _ \<Rightarrow> serializePortable E v c)"

definition deserializeCacheValue :: "'x codec_env_scheme \<Rightarrow> bytes \<Rightarrow> DecodeLimits option \<Rightarrow> js_error + jsval" where
  "deserializeCacheValue E payload limits = deserializePortable E payload limits"

end
