(* ===== verification/Record_Format.thy ===== *)
theory Record_Format
  imports Serializer
begin

text \<open>
  What the record format promises: a value written under any policy is read back by the bounded reader,
  \<open>null\<close> and the sentinel string stay apart, the Worker writes the bytes the Node gzip policy writes and
  either runtime reads them, and records of a later release are misses.
\<close>

section \<open>Tags\<close>

lemma validUtf8Range_range: "range_utf8 validUtf8Range"
  by (auto simp: range_utf8_def validUtf8Range_def isUtf8_def isSafeUtf8_range drop_take)

lemma ascii_tag_append:
  "ascii_tag (HC1_MSGPACK_TAG @ x) = HC1_MSGPACK_TAG" "ascii_tag (HC1_JSON_TAG @ x) = HC1_JSON_TAG"
  "codec_tag c = Some t \<Longrightarrow> ascii_tag (t @ x) = t"
  by (cases c; auto simp: ascii_tag_def hc1_tags HC1_TAG_BYTES_def)+

lemma codecByTag_tag: "codec_tag c = Some t \<Longrightarrow> codecByTag t = Some c"
  by (cases c) (auto simp: codecByTag_def codecs_list_def hc1_tags)

lemma codecByTag_raw: "codecByTag HC1_MSGPACK_TAG = None" "codecByTag HC1_JSON_TAG = None"
  by (auto simp: codecByTag_def codecs_list_def hc1_tags)

lemma tag_lengths: "length HC1_MSGPACK_TAG = 4" "length HC1_JSON_TAG = 4" "codec_tag c = Some t \<Longrightarrow> length t = 4"
  by (cases c; auto simp: hc1_tags)+

section \<open>What the parameters promise of one value\<close>

text \<open>The libraries undo a compressed body within the bound, and announce its length as the readers expect.\<close>

definition codec_laws :: "codec_lib \<Rightarrow> bytes \<Rightarrow> int \<Rightarrow> bool" where
  "codec_laws L b m \<longleftrightarrow> (\<forall>c \<in> {gzip, zstd}. inflate L c (deflate L c b) (Some m) = Some b)
     \<and> inflate L lz4 (deflate L lz4 b) None = Some b \<and> inflate L snappy (deflate L snappy b) None = Some b
     \<and> 4 \<le> length (deflate L lz4 b) \<and> le32 (deflate L lz4 b) = int (length b)
     \<and> snappyOutputLength (deflate L snappy b) = Some (int (length b))"

text \<open>MessagePack and JSON read back what they wrote for the value, within the limits.\<close>

definition carries :: "'x codec_env_scheme \<Rightarrow> jsval \<Rightarrow> ResolvedDecodeLimits \<Rightarrow> bool" where
  "carries E v limits \<longleftrightarrow>
     (case pack E v of None \<Rightarrow> True
      | Some b \<Rightarrow> strict_unpack E b = Some v \<and> isSafeMessagePack b limits validUtf8Range
          \<and> codec_laws (codec_lib.truncate E) b (maxDecodedBytes limits))
     \<and> (case json_stringify E v of None \<Rightarrow> True
      | Some j \<Rightarrow> json_parse E j = Some v \<and> isSafeJson j limits \<and> isUtf8 j)"

text \<open>The sentinel packs to the bytes that stand for \<open>null\<close>, and these fit the limits.\<close>

definition sentinel_packs :: "'x codec_env_scheme \<Rightarrow> ResolvedDecodeLimits \<Rightarrow> bool" where
  "sentinel_packs E limits \<longleftrightarrow> pack E (VStr CACHE_NULL_SENTINEL) \<noteq> None
     \<and> strict_unpack E (PACKED_SENTINEL E) = Some (VStr CACHE_NULL_SENTINEL)
     \<and> isSafeMessagePack (PACKED_SENTINEL E) limits validUtf8Range"

definition read_back :: "jsval \<Rightarrow> jsval" where
  "read_back v = (if v = VUndefined then VNull else v)"

lemma safe_length: "isSafeMessagePack b limits u \<Longrightarrow> int (length b) \<le> maxDecodedBytes limits"
  by (auto simp: isSafeMessagePack_def split: if_splits)

lemma decompress_compress:
  assumes "codec_laws L b m" "int (length b) \<le> m" "c = zstd \<longrightarrow> ZSTD_AVAILABLE L"
  shows "decompress L c (compress L c b) (Some m) = Some b"
  using assms by (cases c) (auto simp: codec_laws_def compress_def)

section \<open>Decoding one format\<close>

lemma decode_msgpack:
  assumes "strict_unpack E b = Some v" "isSafeMessagePack b limits validUtf8Range" "b \<noteq> PACKED_SENTINEL E"
    and "int (4 + length b) \<le> maxEncodedBytes limits"
  shows "decode_bounded E (HC1_MSGPACK_TAG @ b) limits = Hit v"
  using assms safe_length [OF assms(2)]
  by (simp add: decode_bounded_def decode_tagged_def Let_def ascii_tag_append codecByTag_raw tag_lengths
      HC1_TAG_BYTES_def SENTINEL_BUFFER_def unpackChecked_def)

lemma decode_null:
  assumes "isSafeMessagePack (PACKED_SENTINEL E) limits validUtf8Range"
    and "int (length (SENTINEL_BUFFER E)) \<le> maxEncodedBytes limits"
  shows "decode_bounded E (SENTINEL_BUFFER E) limits = Hit VNull"
  using assms safe_length [OF assms(1)]
  by (simp add: decode_bounded_def decode_tagged_def Let_def ascii_tag_append codecByTag_raw tag_lengths
      HC1_TAG_BYTES_def SENTINEL_BUFFER_def)

lemma decode_json_record:
  assumes "json_parse E j = Some v" "isSafeJson j limits" "isUtf8 j" "int (4 + length j) \<le> maxEncodedBytes limits"
  shows "decode_bounded E (HC1_JSON_TAG @ j) limits = Hit v"
  using assms
  by (simp add: decode_bounded_def decode_tagged_def Let_def ascii_tag_append codecByTag_raw tag_lengths
      HC1_TAG_BYTES_def decode_json_def) (simp add: hc1_tags)

lemma decode_compressed:
  assumes "strict_unpack E b = Some v" "isSafeMessagePack b limits validUtf8Range" "b \<noteq> PACKED_SENTINEL E"
    and "codec_tag c = Some t" "decompress (codec_lib.truncate E) c z (Some (maxDecodedBytes limits)) = Some b"
    and "int (4 + length z) \<le> maxEncodedBytes limits"
  shows "decode_bounded E (t @ z) limits = Hit v"
  using assms safe_length [OF assms(2)] tag_lengths(3) [OF assms(4)]
  by (simp add: decode_bounded_def decode_tagged_def Let_def ascii_tag_append(3) [OF assms(4)]
      codecByTag_tag [OF assms(4)] HC1_TAG_BYTES_def unpackChecked_def)

section \<open>The Node reader reads what the Node writer writes\<close>

lemma selectCodec_available: "selectCodec L ts n = Some c \<Longrightarrow> c = zstd \<longrightarrow> ZSTD_AVAILABLE L"
proof (induction ts)
  case (Cons tier ts)
  have "codec_of_name (tier_codec tier) = Some zstd \<Longrightarrow> tier_codec tier = ''zstd''"
    using codec_of_name_iff [of "tier_codec tier" zstd] by simp
  then show ?case using Cons by (auto split: if_splits)
qed simp

lemma packed_value_cases:
  assumes "packed_value E b options = Inr sv"
  obtains "sv_buffer sv = HC1_MSGPACK_TAG @ b"
  | c t where "codec_tag c = Some t" "sv_buffer sv = t @ compress (codec_lib.truncate E) c b"
      "c = zstd \<longrightarrow> ZSTD_AVAILABLE (codec_lib.truncate E)"
proof -
  obtain ts c where ts: "selectCodec (codec_lib.truncate E) ts (length b) = Some c"
    and sv: "Inr sv = (let raw = Inr (plain_value (withPrefix HC1_MSGPACK_TAG b) ''msgpack'' (length b)) in
         (case codec_tag c of None \<Rightarrow> raw
          | Some tag \<Rightarrow> let compressed = compress (codec_lib.truncate E) c b;
                           saved = getCompressionSavings (length b) (length compressed) in
              if MIN_COMPRESSION_SAVINGS \<le> saved
              then (let buffer = withPrefix tag compressed in
                Inr \<lparr>sv_buffer = buffer, sv_encoding = ''msgpack-'' @ codec_name c, sv_originalBytes = length b,
                  sv_storedBytes = length buffer, sv_compressionRatio = saved, sv_compressed = True\<rparr>)
              else (raw :: serialize_error + SerializedCacheValue)))"
    using assms unfolding packed_value_def by (simp split: sum.splits option.splits)
  show ?thesis
  proof (cases "codec_tag c")
    case None
    then show ?thesis using sv that(1) by (simp add: plain_value_def withPrefix_def)
  next
    case (Some t)
    then show ?thesis using sv that(1) that(2) [OF Some _ selectCodec_available [OF ts]]
      by (auto simp: plain_value_def withPrefix_def Let_def split: if_splits)
  qed
qed

lemma not_sentinel:
  "sentinel_packs E limits \<Longrightarrow> strict_unpack E b = Some v \<Longrightarrow> v \<noteq> VStr CACHE_NULL_SENTINEL \<Longrightarrow> b \<noteq> PACKED_SENTINEL E"
  by (auto simp: sentinel_packs_def)

lemma read_json_value:
  assumes "json_value E v = Inr sv" "carries E v limits" "int (length (sv_buffer sv)) \<le> maxEncodedBytes limits"
  shows "decode_bounded E (sv_buffer sv) limits = Hit v"
proof -
  obtain j where j: "json_stringify E v = Some j" "sv_buffer sv = HC1_JSON_TAG @ j"
    using assms(1) by (auto simp: json_value_def plain_value_def withPrefix_def split: option.splits)
  then show ?thesis using assms(2,3) decode_json_record [of E j v limits]
    by (simp add: carries_def tag_lengths)
qed

lemma read_packed_value:
  assumes "packed_value E b options = Inr sv" "pack E v = Some b" "carries E v limits" "sentinel_packs E limits"
    and "v \<noteq> VStr CACHE_NULL_SENTINEL" "int (length (sv_buffer sv)) \<le> maxEncodedBytes limits"
  shows "decode_bounded E (sv_buffer sv) limits = Hit v"
proof -
  have b: "strict_unpack E b = Some v" "isSafeMessagePack b limits validUtf8Range"
    "codec_laws (codec_lib.truncate E) b (maxDecodedBytes limits)"
    using assms(2,3) by (auto simp: carries_def)
  note ns = not_sentinel [OF assms(4) b(1) assms(5)]
  from assms(1) show ?thesis
  proof (cases rule: packed_value_cases)
    case 1
    then show ?thesis using decode_msgpack [OF b(1,2) ns] assms(6) by (simp add: tag_lengths)
  next
    case (2 c t)
    have "int (4 + length (compress (codec_lib.truncate E) c b)) \<le> maxEncodedBytes limits"
      using assms(6) 2(2) tag_lengths(3) [OF 2(1)] by simp
    then show ?thesis
      using decode_compressed [OF b(1,2) ns 2(1) decompress_compress [OF b(3) safe_length [OF b(2)] 2(3)]] 2(2) by simp
  qed
qed

text \<open>
  C16. Whatever policy wrote it, a record is read back: when \<open>serialize\<close> produced bytes within the
  reader's limits, \<open>decodeCacheRecord\<close> returns a hit with the value (\<open>null\<close> for \<open>undefined\<close>), given
  that MessagePack, JSON and the codecs read back what they wrote for this value. A cached \<open>null\<close> and a
  cached copy of the sentinel string, which would pack to the same bytes, are told apart.
\<close>

theorem record_roundtrip:
  assumes "resolveDecodeLimits d = Inr limits" "serialize E v options = Inr buffer"
    and "carries E v limits" "sentinel_packs E limits" "int (length buffer) \<le> maxEncodedBytes limits"
  shows "decodeCacheRecord E buffer d = Inr (Hit (read_back v))"
proof -
  obtain sv where sv: "serializeWithStats E v options = Inr sv" "buffer = sv_buffer sv"
    using assms(2) by (cases "serializeWithStats E v options") (auto simp: serialize_def)
  have "decode_bounded E buffer limits = Hit (read_back v)"
  proof (cases "v = VNull \<or> v = VUndefined")
    case True
    then have "buffer = SENTINEL_BUFFER E" "read_back v = VNull"
      using sv by (auto simp: serializeWithStats_def plain_value_def read_back_def split: if_splits)
    then show ?thesis using decode_null [of E limits] assms(4,5) by (simp add: sentinel_packs_def)
  next
    case False
    then have rb: "read_back v = v" by (simp add: read_back_def)
    consider "json_value E v = Inr sv"
      | b where "pack E v = Some b" "packed_value E b options = Inr sv" "v \<noteq> VStr CACHE_NULL_SENTINEL"
      using sv(1) False unfolding serializeWithStats_def by (auto split: if_splits option.splits)
    then show ?thesis
    proof cases
      case 1
      then show ?thesis using read_json_value [of E v sv limits] assms sv rb by simp
    next
      case (2 b)
      then show ?thesis using read_packed_value [OF 2(2,1) assms(3,4) 2(3)] assms sv rb by simp
    qed
  qed
  then show ?thesis using assms(1) by (simp add: decodeCacheRecord_def)
qed

text \<open>A stand-in for the libraries on short ASCII strings, for the witnesses.\<close>

definition demo_deflate :: "CodecName \<Rightarrow> bytes \<Rightarrow> bytes" where
  "demo_deflate c b = (if c = lz4 then [of_nat (length b), 0, 0, 0] @ b
     else if c = snappy then of_nat (length b) # b else b)"

definition demo_inflate :: "CodecName \<Rightarrow> bytes \<Rightarrow> int option \<Rightarrow> bytes option" where
  "demo_inflate c b m = Some (if c = lz4 then drop 4 b else if c = snappy then drop 1 b else b)"

definition demo_pack :: "jsval \<Rightarrow> bytes option" where
  "demo_pack v = (case v of VStr s \<Rightarrow> Some (of_nat (0xa0 + length s) # map ucast s) | _ \<Rightarrow> None)"

definition demo_env :: codec_env where
  "demo_env = \<lparr>deflate = demo_deflate, inflate = demo_inflate, ZSTD_AVAILABLE = True,
     pack = demo_pack, unpack = (\<lambda>b. Some (VStr (map ucast (tl b)))), strict_unpack = (\<lambda>b. Some (VStr (map ucast (tl b)))),
     json_stringify = (\<lambda>v. case v of VStr s \<Rightarrow> Some (34 # map ucast s @ [34]) | _ \<Rightarrow> None),
     json_parse = (\<lambda>b. Some (VStr (map ucast (butlast (tl b))))),
     gzip_stream = (\<lambda>b. b), gunzip_stream = Some, debug_json = False,
     config_tiers = [mk_tier (Some 256) none]\<rparr>"

definition default_limits :: ResolvedDecodeLimits where
  "default_limits = \<lparr>maxEncodedBytes = 26214400, maxDecodedBytes = 26214400, maxDepth = 128,
     maxCollectionLength = 1000000, maxTotalValues = 1000000\<rparr>"

lemma default_limits_resolved: "resolveDecodeLimits no_limits = Inr default_limits"
  by (simp add: resolveDecodeLimits_def no_limits_def positive_safe_def MAX_PORTABLE_DECODED_BYTES_def
      DEFAULT_DECODE_MAX_DEPTH_def DEFAULT_DECODE_MAX_COLLECTION_LENGTH_def DEFAULT_DECODE_MAX_TOTAL_VALUES_def
      MAX_SAFE_INTEGER_def default_limits_def)

lemma demo_carries: "carries demo_env (VStr [97, 98]) default_limits" "sentinel_packs demo_env default_limits"
  by code_simp+

theorem record_roundtrip_witness:
  "serialize demo_env (VStr [97, 98]) default_options = Inr (HC1_MSGPACK_TAG @ [0xa2, 97, 98])
   \<and> decodeCacheRecord demo_env (HC1_MSGPACK_TAG @ [0xa2, 97, 98]) no_limits = Inr (Hit (VStr [97, 98]))"
proof -
  have s: "serialize demo_env (VStr [97, 98]) default_options = Inr (HC1_MSGPACK_TAG @ [0xa2, 97, 98])"
    by code_simp
  have "int (length (HC1_MSGPACK_TAG @ [0xa2, 97, 98])) \<le> maxEncodedBytes default_limits" by code_simp
  then show ?thesis using s record_roundtrip [OF default_limits_resolved s demo_carries]
    by (simp add: read_back_def)
qed

section \<open>Node and Worker\<close>

lemma isSafeMessagePack_range:
  assumes "resolveDecodeLimits d = Inr limits" "range_utf8 u"
  shows "isSafeMessagePack b limits u = isSafeMessagePack b limits isSafeUtf8"
  using mp_scan_stack [OF assms(2) resolved_positive(4) [OF assms(1)], of 0 b 0 "[1]"]
    mp_scan_stack [OF range_isSafeUtf8 resolved_positive(4) [OF assms(1)], of 0 b 0 "[1]"]
    resolved_positive(5) [OF assms(1)]
  by (simp add: isSafeMessagePack_def del: stack_ok.simps)

lemma min_savings_positive: "0 < MIN_COMPRESSION_SAVINGS"
proof -
  have "\<bar>fl (15 / 100) - 15 / 100\<bar> \<le> \<bar>15 / 100\<bar> * 2 powi (-53)" by (rule fl_error)
  also have "\<dots> < 15 / 100" by (simp add: power_int_minus)
  finally show ?thesis unfolding MIN_COMPRESSION_SAVINGS_def by linarith
qed

lemma savings_agree: "PORTABLE_GZIP_MIN_BYTES \<le> n \<Longrightarrow>
    shouldUsePortableGzip n k \<longleftrightarrow> MIN_COMPRESSION_SAVINGS \<le> getCompressionSavings n k"
  using min_savings_positive
  by (auto simp: shouldUsePortableGzip_def getCompressionSavings_def Let_def PORTABLE_GZIP_MIN_BYTES_def)

definition gzip_policy :: SerializeOptions where
  "gzip_policy = \<lparr>format = None, so_compression = Some (CompressionMode ''gzip'')\<rparr>"

lemma gzip_policy_packed:
  "packed_value E b gzip_policy = (if PORTABLE_GZIP_MIN_BYTES \<le> length b
      \<and> MIN_COMPRESSION_SAVINGS \<le> getCompressionSavings (length b) (length (deflate (codec_lib.truncate E) gzip b))
     then Inr \<lparr>sv_buffer = HC1_GZIP_TAG @ deflate (codec_lib.truncate E) gzip b, sv_encoding = ''msgpack-'' @ codec_name gzip,
         sv_originalBytes = length b, sv_storedBytes = length (HC1_GZIP_TAG @ deflate (codec_lib.truncate E) gzip b),
         sv_compressionRatio = getCompressionSavings (length b) (length (deflate (codec_lib.truncate E) gzip b)), sv_compressed = True\<rparr>
     else Inr (plain_value (HC1_MSGPACK_TAG @ b) ''msgpack'' (length b)))"
proof -
  have g: "codec_of_name ''gzip'' = Some gzip" using codec_of_name_name [of gzip] by simp
  have n: "codec_of_name ''none'' = Some none" using codec_of_name_name [of none] by simp
  have "resolveTiers E (so_compression gzip_policy)
      = Inr [mk_tier (Some PORTABLE_GZIP_MIN_BYTES) none, \<lparr>tier_maxBytes = None, tier_codec = ''gzip''\<rparr>]"
    by (simp add: resolveTiers_def gzip_policy_def)
  moreover have "selectCodec (codec_lib.truncate E)
      [mk_tier (Some PORTABLE_GZIP_MIN_BYTES) none, \<lparr>tier_maxBytes = None, tier_codec = ''gzip''\<rparr>] (length b)
      = Some (if length b < PORTABLE_GZIP_MIN_BYTES then none else gzip)"
    by (simp add: mk_tier_def g n)
  ultimately show ?thesis
    by (cases "length b < PORTABLE_GZIP_MIN_BYTES")
      (simp_all add: packed_value_def withPrefix_def compress_def Let_def)
qed

text \<open>
  The Worker serializer writes the records the Node gzip policy writes: outside JSON debug mode, with
  the same gzip and a compressed size within 25 MiB, both succeed or both fail, and the bytes are equal.
\<close>

theorem portable_same_bytes:
  assumes "\<not> debug_json E"
    and "\<And>b. pack E v = Some b \<Longrightarrow> deflate E gzip b = gzip_stream E b"
    and "\<And>b. pack E v = Some b \<Longrightarrow> int (length (gzip_stream E b)) \<le> MAX_PORTABLE_DECODED_BYTES"
    and "pack E (VStr CACHE_NULL_SENTINEL) = Some s" "length s < PORTABLE_GZIP_MIN_BYTES"
  shows "(case serializePortable E v ''auto'' of Inr b \<Rightarrow> serialize E v gzip_policy = Inr b
    | Inl _ \<Rightarrow> (\<exists>e. serialize E v gzip_policy = Inl e))"
proof -
  have ps: "PACKED_SENTINEL E = s" using assms(4) by (simp add: PACKED_SENTINEL_def)
  have d: "deflate (codec_lib.truncate E) gzip b = deflate E gzip b" for b by (simp add: codec_lib.defs)
  have fmt: "format gzip_policy = None" by (simp add: gzip_policy_def)
  consider "v = VNull \<or> v = VUndefined" | "v = VStr CACHE_NULL_SENTINEL"
    | "v \<noteq> VNull" "v \<noteq> VUndefined" "v \<noteq> VStr CACHE_NULL_SENTINEL" by blast
  then show ?thesis
  proof cases
    case 1
    then have "serialize E v gzip_policy = Inr (HC1_MSGPACK_TAG @ s)"
      by (simp add: serialize_def serializeWithStats_def fmt plain_value_def SENTINEL_BUFFER_def ps)
    moreover have "serializePortable E v ''auto'' = Inr (HC1_MSGPACK_TAG @ s)"
      using 1 assms(4,5) by (auto simp: serializePortable_def Let_def withWireTag_def)
    ultimately show ?thesis by simp
  next
    case 2
    then show ?thesis
      by (simp add: serialize_def serializeWithStats_def fmt json_value_def serializePortable_def Let_def
          withPrefix_def withWireTag_def plain_value_def split: option.split)
  next
    case 3
    show ?thesis
    proof (cases "pack E v")
      case None
      then show ?thesis using 3 assms(1)
        by (simp add: serialize_def serializeWithStats_def fmt serializePortable_def Let_def)
    next
      case (Some b)
      note gz = assms(2) [OF Some] assms(3) [OF Some]
      have node: "serialize E v gzip_policy = map_sum id sv_buffer (packed_value E b gzip_policy)"
        using 3 assms(1) Some by (simp add: serialize_def serializeWithStats_def fmt)
      have worker: "serializePortable E v ''auto'' = (if PORTABLE_GZIP_MIN_BYTES \<le> length b
          \<and> shouldUsePortableGzip (length b) (length (gzip_stream E b))
          then Inr (HC1_GZIP_TAG @ gzip_stream E b) else Inr (HC1_MSGPACK_TAG @ b))"
        using 3 Some gz(2) by (simp add: serializePortable_def Let_def transform_def withWireTag_def)
      show ?thesis unfolding node worker gzip_policy_packed d gz(1)
        using savings_agree [of "length b" "length (gzip_stream E b)"] by (auto simp: plain_value_def)
    qed
  qed
qed

theorem portable_same_bytes_witness:
  "serializePortable demo_env (VStr [97]) ''auto'' = Inr (HC1_MSGPACK_TAG @ [0xa1, 97])
   \<and> serialize demo_env (VStr [97]) gzip_policy = Inr (HC1_MSGPACK_TAG @ [0xa1, 97])"
proof -
  have p: "serializePortable demo_env (VStr [97]) ''auto'' = Inr (HC1_MSGPACK_TAG @ [0xa1, 97])" by code_simp
  have pk: "pack demo_env (VStr [97]) = Some [0xa1, 97]" by code_simp
  have s: "pack demo_env (VStr CACHE_NULL_SENTINEL) = Some (PACKED_SENTINEL demo_env)"
    "length (PACKED_SENTINEL demo_env) < PORTABLE_GZIP_MIN_BYTES" by code_simp+
  have "\<not> debug_json demo_env" by (simp add: demo_env_def)
  moreover have "deflate demo_env gzip b = gzip_stream demo_env b" for b by (simp add: demo_env_def demo_deflate_def)
  moreover have "int (length (gzip_stream demo_env [0xa1, 97])) \<le> MAX_PORTABLE_DECODED_BYTES" by code_simp
  ultimately show ?thesis
    using portable_same_bytes [of demo_env "VStr [97]", OF _ _ _ s] p pk by simp
qed

lemma hasWireTag_append:
  "hasWireTag (HC1_MSGPACK_TAG @ x) HC1_MSGPACK_TAG" "hasWireTag (HC1_JSON_TAG @ x) HC1_JSON_TAG"
  "hasWireTag (HC1_GZIP_TAG @ x) HC1_GZIP_TAG" "\<not> hasWireTag (HC1_MSGPACK_TAG @ x) HC1_JSON_TAG"
  "\<not> hasWireTag (HC1_GZIP_TAG @ x) HC1_JSON_TAG" "\<not> hasWireTag (HC1_GZIP_TAG @ x) HC1_MSGPACK_TAG"
  "\<not> hasWireTag (HC1_JSON_TAG @ x) HC1_MSGPACK_TAG"
  by (simp_all add: hasWireTag_def hc1_tags HC1_TAG_BYTES_def)

lemma tag_drop: "drop HC1_TAG_BYTES (HC1_MSGPACK_TAG @ x) = x" "drop HC1_TAG_BYTES (HC1_JSON_TAG @ x) = x"
  "drop HC1_TAG_BYTES (HC1_GZIP_TAG @ x) = x"
  by (simp_all add: hc1_tags HC1_TAG_BYTES_def)

text \<open>The three shapes the Worker writes.\<close>

lemma portable_cases:
  assumes "serializePortable E v mode = Inr buffer"
  obtains j where "v = VStr CACHE_NULL_SENTINEL" "json_stringify E v = Some j" "buffer = HC1_JSON_TAG @ j"
  | b where "pack E (if read_back v = VNull then VStr CACHE_NULL_SENTINEL else v) = Some b" "v \<noteq> VStr CACHE_NULL_SENTINEL"
      "buffer = HC1_MSGPACK_TAG @ b"
  | b where "pack E (if read_back v = VNull then VStr CACHE_NULL_SENTINEL else v) = Some b" "v \<noteq> VStr CACHE_NULL_SENTINEL"
      "buffer = HC1_GZIP_TAG @ gzip_stream E b"
proof -
  define w where "w = (if v = VUndefined then VNull else v)"
  have w: "read_back v = w" "w \<noteq> VUndefined" by (auto simp: w_def read_back_def)
  show ?thesis
  proof (cases "w = VStr CACHE_NULL_SENTINEL")
    case True
    then show ?thesis using assms that(1)
      by (auto simp: serializePortable_def w_def [symmetric] Let_def withWireTag_def split: option.splits if_splits)
        (auto simp: w_def split: if_splits)
  next
    case False
    then obtain b where b: "pack E (if w = VNull then VStr CACHE_NULL_SENTINEL else w) = Some b"
      "buffer = HC1_MSGPACK_TAG @ b \<or> buffer = HC1_GZIP_TAG @ gzip_stream E b"
      using assms unfolding serializePortable_def w_def [symmetric] Let_def
      by (auto simp: withWireTag_def transform_def split: option.splits if_splits sum.splits)
    have "v \<noteq> VStr CACHE_NULL_SENTINEL" using False by (auto simp: w_def)
    moreover have "(if read_back v = VNull then VStr CACHE_NULL_SENTINEL else v)
        = (if w = VNull then VStr CACHE_NULL_SENTINEL else w)"
      using w by (auto simp: w_def split: if_splits)
    ultimately show ?thesis using b that(2,3) by metis
  qed
qed

lemma portable_unpack_ok:
  assumes "resolveDecodeLimits d = Inr limits" "isSafeMessagePack b limits validUtf8Range" "strict_unpack E b = Some v"
  shows "portable_unpack E b (Some limits) = Inr (if b = PACKED_SENTINEL E then VNull else v)"
  using assms isSafeMessagePack_range [OF assms(1) validUtf8Range_range, of b]
  by (simp add: portable_unpack_def sameBytes_def)

text \<open>What the Worker packs for a value, and how it reads back.\<close>

lemma portable_packed:
  assumes "pack E (if read_back v = VNull then VStr CACHE_NULL_SENTINEL else v) = Some b" "v \<noteq> VStr CACHE_NULL_SENTINEL"
    and "carries E v limits" "sentinel_packs E limits"
  shows "isSafeMessagePack b limits validUtf8Range"
    and "\<exists>u. strict_unpack E b = Some u \<and> (if b = PACKED_SENTINEL E then VNull else u) = read_back v"
proof -
  have *: "isSafeMessagePack b limits validUtf8Range
    \<and> (\<exists>u. strict_unpack E b = Some u \<and> (if b = PACKED_SENTINEL E then VNull else u) = read_back v)"
  proof (cases "read_back v = VNull")
    case True
    then have "b = PACKED_SENTINEL E" using assms(1) by (simp add: PACKED_SENTINEL_def)
    then show ?thesis using assms(4) True by (simp add: sentinel_packs_def)
  next
    case False
    then have "pack E v = Some b" "read_back v = v" using assms(1) by (auto simp: read_back_def split: if_splits)
    then show ?thesis using assms(3) not_sentinel [OF assms(4), of b v] assms(2) by (simp add: carries_def)
  qed
  then show "isSafeMessagePack b limits validUtf8Range"
    and "\<exists>u. strict_unpack E b = Some u \<and> (if b = PACKED_SENTINEL E then VNull else u) = read_back v" by auto
qed

lemma node_reads_msgpack:
  assumes "strict_unpack E b = Some u" "isSafeMessagePack b limits validUtf8Range" "int (4 + length b) \<le> maxEncodedBytes limits"
  shows "decode_bounded E (HC1_MSGPACK_TAG @ b) limits = Hit (if b = PACKED_SENTINEL E then VNull else u)"
  using decode_msgpack [OF assms(1,2) _ assms(3)] decode_null [of E limits] assms
  by (auto simp: SENTINEL_BUFFER_def tag_lengths)

lemma node_reads_gzip:
  assumes "strict_unpack E b = Some u" "isSafeMessagePack b limits validUtf8Range" "int (4 + length z) \<le> maxEncodedBytes limits"
    and "inflate E gzip z (Some (maxDecodedBytes limits)) = Some b"
  shows "decode_bounded E (HC1_GZIP_TAG @ z) limits = Hit (if b = PACKED_SENTINEL E then VNull else u)"
proof -
  have "codecByTag HC1_GZIP_TAG = Some gzip" "ascii_tag (HC1_GZIP_TAG @ z) = HC1_GZIP_TAG"
    using codecByTag_tag [of gzip] ascii_tag_append(3) [of gzip] by simp_all
  moreover have "inflate (codec_lib.truncate E) gzip z m = inflate E gzip z m" for m by (simp add: codec_lib.defs)
  moreover have "length HC1_GZIP_TAG = 4" by (simp add: hc1_tags)
  ultimately show ?thesis using assms safe_length [OF assms(2)] tag_drop(3) [of z]
    by (simp add: decode_bounded_def decode_tagged_def Let_def HC1_TAG_BYTES_def unpackChecked_def)
qed

text \<open>
  A record the Worker wrote is read back in both runtimes: within the limits, the Worker's strict
  reader and the Node reader both return a hit with the value, given that either side's gunzip undoes
  the Worker's gzip.
\<close>

theorem portable_interop:
  assumes "resolveDecodeLimits d = Inr limits" "serializePortable E v mode = Inr buffer"
    and "carries E v limits" "sentinel_packs E limits" "carries E (VStr CACHE_NULL_SENTINEL) limits"
    and "int (length buffer) \<le> maxEncodedBytes limits"
    and "\<And>b. gunzip_stream E (gzip_stream E b) = Some b"
    and "\<And>b. int (length b) \<le> maxDecodedBytes limits \<Longrightarrow> inflate E gzip (gzip_stream E b) (Some (maxDecodedBytes limits)) = Some b"
  shows "decodePortableCacheRecord E buffer d = Inr (Hit (read_back v))
    \<and> decodeCacheRecord E buffer d = Inr (Hit (read_back v))"
  using assms(2)
proof (cases rule: portable_cases)
  case (1 j)
  have j: "json_parse E j = Some v" "isSafeJson j limits" "isUtf8 j" using 1 assms(3) by (auto simp: carries_def)
  have "decode_bounded E buffer limits = Hit v"
    using decode_json_record [OF j] 1(3) assms(6) by (simp add: tag_lengths)
  moreover have "portable_read E buffer (Some limits) = Inr v"
    using j assms(6) 1(3) by (simp add: portable_read_def hasWireTag_append tag_drop Let_def del: drop_append)
  ultimately show ?thesis using assms(1) 1(1,3)
    by (simp add: decodePortableCacheRecord_def decodeCacheRecord_def hasWireTag_append read_back_def)
next
  case (2 b)
  note b = portable_packed [OF 2(1,2) assms(3,4)]
  then obtain u where u: "strict_unpack E b = Some u" "(if b = PACKED_SENTINEL E then VNull else u) = read_back v" by blast
  have "decode_bounded E buffer limits = Hit (read_back v)"
    using node_reads_msgpack [OF u(1) b(1)] u(2) 2(3) assms(6) by (simp add: tag_lengths)
  moreover have "portable_read E buffer (Some limits) = Inr (read_back v)"
    using portable_unpack_ok [OF assms(1) b(1) u(1)] u(2) assms(6) 2(3)
    by (simp add: portable_read_def hasWireTag_append tag_drop Let_def del: drop_append)
  ultimately show ?thesis using assms(1) 2(3)
    by (simp add: decodePortableCacheRecord_def decodeCacheRecord_def hasWireTag_append)
next
  case (3 b)
  note b = portable_packed [OF 3(1,2) assms(3,4)]
  then obtain u where u: "strict_unpack E b = Some u" "(if b = PACKED_SENTINEL E then VNull else u) = read_back v" by blast
  have len: "int (4 + length (gzip_stream E b)) \<le> maxEncodedBytes limits"
    using assms(6) 3(3) by (simp add: hc1_tags)
  have "decode_bounded E buffer limits = Hit (read_back v)"
    using node_reads_gzip [OF u(1) b(1) len assms(8) [OF safe_length [OF b(1)]]] u(2) 3(3) by simp
  moreover have "portable_read E buffer (Some limits) = Inr (read_back v)"
    using portable_unpack_ok [OF assms(1) b(1) u(1)] u(2) assms(6,7) 3(3) safe_length [OF b(1)]
    by (simp add: portable_read_def hasWireTag_append tag_drop Let_def transform_def del: drop_append)
  ultimately show ?thesis using assms(1) 3(3)
    by (simp add: decodePortableCacheRecord_def decodeCacheRecord_def hasWireTag_append)
qed

theorem portable_interop_witness:
  "serializePortable demo_env VNull ''auto'' = Inr (SENTINEL_BUFFER demo_env)
   \<and> decodePortableCacheRecord demo_env (SENTINEL_BUFFER demo_env) no_limits = Inr (Hit VNull)
   \<and> decodeCacheRecord demo_env (SENTINEL_BUFFER demo_env) no_limits = Inr (Hit VNull)"
proof -
  have s: "serializePortable demo_env VNull ''auto'' = Inr (SENTINEL_BUFFER demo_env)" by code_simp
  have c: "carries demo_env VNull default_limits" "carries demo_env (VStr CACHE_NULL_SENTINEL) default_limits"
    "int (length (SENTINEL_BUFFER demo_env)) \<le> maxEncodedBytes default_limits" by code_simp+
  have "gunzip_stream demo_env (gzip_stream demo_env b) = Some b"
    "inflate demo_env gzip (gzip_stream demo_env b) m = Some b" for b m
    by (simp_all add: demo_env_def demo_inflate_def)
  then show ?thesis
    using s portable_interop [OF default_limits_resolved s c(1) demo_carries(2) c(2,3)] by (simp add: read_back_def)
qed

text \<open>
  Records of a later release are misses: four bytes of the \<open>HC1\<close> family whose last byte is no known
  tag, nor one with its highest bit set, are a miss for both strict readers and \<open>null\<close> for the public
  \<open>deserialize\<close>, whatever follows. They are never decoded as MessagePack.
\<close>

theorem unknown_tag_is_miss:
  assumes "resolveDecodeLimits d = Inr limits" "take_bit 7 t \<notin> {77, 71, 74, 90, 76, 83}"
  shows "decodeCacheRecord E (HC1_FAMILY @ t # x) d = Inr Miss
    \<and> decodePortableCacheRecord E (HC1_FAMILY @ t # x) d = Inr Miss
    \<and> deserialize E (RawBytes (HC1_FAMILY @ t # x)) None = Inr VNull"
proof -
  have t: "t \<notin> {77, 71, 74, 90, 76, 83}" using assms(2) by auto
  have a: "ascii_tag (HC1_FAMILY @ t # x) = [72, 67, 49, take_bit 7 t]"
    by (simp add: ascii_tag_def hc1_tags HC1_TAG_BYTES_def)
  have cb: "codecByTag [72, 67, 49, take_bit 7 t] = None"
    using assms(2) by (auto simp: codecByTag_def codecs_list_def hc1_tags)
  have nt: "\<not> hasWireTag (HC1_FAMILY @ t # x) HC1_MSGPACK_TAG" "\<not> hasWireTag (HC1_FAMILY @ t # x) HC1_JSON_TAG"
    "\<not> hasWireTag (HC1_FAMILY @ t # x) HC1_GZIP_TAG"
    using t by (auto simp: hasWireTag_def hc1_tags HC1_TAG_BYTES_def)
  have np: "\<not> hasPrefix (HC1_FAMILY @ t # x) HC1_MSGPACK_TAG" "\<not> hasPrefix (HC1_FAMILY @ t # x) HC1_JSON_TAG"
    "hasPrefix (HC1_FAMILY @ t # x) HC1_FAMILY"
    using t by (auto simp: hasPrefix_def hc1_tags)
  have "decode_tagged E (HC1_FAMILY @ t # x) limits = Inr ()"
  proof -
    have "[72, 67, 49, take_bit 7 t] \<noteq> HC1_MSGPACK_TAG" "[72, 67, 49, take_bit 7 t] \<noteq> HC1_JSON_TAG"
      using assms(2) by (auto simp: hc1_tags)
    then show ?thesis by (simp add: decode_tagged_def a cb Let_def)
  qed
  then have "decode_bounded E (HC1_FAMILY @ t # x) limits = Miss" using np(3) by (simp add: decode_bounded_def)
  moreover have "deserialize_buffer E (HC1_FAMILY @ t # x) = VNull"
    using np by (simp add: deserialize_buffer_def a cb Let_def HC1_TAG_BYTES_def)
  ultimately show ?thesis using assms(1) nt
    by (simp add: decodeCacheRecord_def decodePortableCacheRecord_def deserialize_def Let_def)
qed

theorem unknown_tag_is_miss_witness:
  "resolveDecodeLimits no_limits = Inr default_limits
   \<and> decodeCacheRecord demo_env (HC1_FAMILY @ 88 # [1, 2]) no_limits = Inr Miss"
  using unknown_tag_is_miss [OF default_limits_resolved, of 88 demo_env "[1, 2]"] default_limits_resolved by simp



end
