(* ===== verification/Event_Codec.thy ===== *)
theory Event_Codec
  imports Record_Format
begin

text \<open>
  Invalidation events on the wire (\<open>event-bus/eventCodec.ts\<close>): an event is written as a cache record and
  validated when it is read. \<open>Number(s)\<close> and \<open>String(n)\<close>, used to recognise numeric keys, are
  parameters of the environment.
\<close>

record event_env = codec_env +
  to_number :: "jsstr \<Rightarrow> jsnum"
  number_text :: "jsnum \<Rightarrow> jsstr"

record EventDecodeOptions =
  edo_maxKeys :: "jsnum option"
  edo_maxKeyBytes :: "jsnum option"

definition encodeInvalidationEvent :: "'x event_env_scheme \<Rightarrow> jsval \<Rightarrow> serialize_error + bytes" where
  "encodeInvalidationEvent E event = serialize E event default_options"

definition string_within :: "int \<Rightarrow> jsval \<Rightarrow> bool" where
  "string_within m v = (case v of VStr s \<Rightarrow> int (byteLength s) \<le> m | _ \<Rightarrow> False)"

definition key_type_ok :: "'x event_env_scheme \<Rightarrow> jsval \<Rightarrow> jsval \<Rightarrow> bool" where
  "key_type_ok E type key = (type = VStr (js ''string'') \<or>
     (type = VStr (js ''number'') \<and> (case key of VStr s \<Rightarrow> isFinite (to_number E s) \<and> number_text E (to_number E s) = s
        | _ \<Rightarrow> False)))"

definition isDeleteEvent :: "'x event_env_scheme \<Rightarrow> (jsstr \<times> jsval) list \<Rightarrow> int \<Rightarrow> int \<Rightarrow> bool" where
  "isDeleteEvent E value maxKeys maxKeyBytes =
     (case prop_of value (js ''keys'') of
        VArray keys \<Rightarrow>
          if maxKeys < int (length keys) \<or> \<not> list_all (string_within maxKeyBytes) keys then False
          else (case prop_of value (js ''keyTypes'') of
              VUndefined \<Rightarrow> True
            | VArray types \<Rightarrow> length types = length keys \<and> list_all2 (key_type_ok E) types keys
            | _ \<Rightarrow> False)
      | _ \<Rightarrow> False)"

definition isPatternEvent :: "(jsstr \<times> jsval) list \<Rightarrow> int \<Rightarrow> bool" where
  "isPatternEvent value maxKeyBytes = string_within maxKeyBytes (prop_of value (js ''pattern''))"

definition isSetEvent :: "'x event_env_scheme \<Rightarrow> (jsstr \<times> jsval) list \<Rightarrow> int \<Rightarrow> int \<Rightarrow> bool" where
  "isSetEvent E value maxKeys maxKeyBytes = (isDeleteEvent E value maxKeys maxKeyBytes
     \<and> om_has value (js ''value'')
     \<and> (case prop_of value (js ''ttlMs'') of VUndefined \<Rightarrow> True
        | VNum n \<Rightarrow> isFinite n \<and> jless (jint 0) n | _ \<Rightarrow> False))"

text \<open>An optional string within the bound; a generation is a non-negative safe integer.\<close>

definition optional_string :: "int \<Rightarrow> jsval \<Rightarrow> bool" where
  "optional_string m v = (v = VUndefined \<or> string_within m v)"

definition generation_ok :: "jsval \<Rightarrow> bool" where
  "generation_ok v = (case v of VUndefined \<Rightarrow> True | VNum n \<Rightarrow> isSafeInteger n \<and> \<not> jless n (jint 0) | _ \<Rightarrow> False)"

definition isInvalidationEvent :: "'x event_env_scheme \<Rightarrow> jsval \<Rightarrow> int \<Rightarrow> int \<Rightarrow> bool" where
  "isInvalidationEvent E v maxKeys maxKeyBytes = (case v of
     VObject value \<Rightarrow>
       (case (prop_of value (js ''source''), prop_of value (js ''ts'')) of
          (VStr source, VNum ts) \<Rightarrow>
            if \<not> isFinite ts then False
            else if \<not> optional_string maxKeyBytes (prop_of value (js ''namespace'')) then False
            else if \<not> optional_string maxKeyBytes (prop_of value (js ''id'')) then False
            else if maxKeyBytes < int (byteLength source) then False
            else if \<not> generation_ok (prop_of value (js ''generation'')) then False
            else (let type = prop_of value (js ''type'') in
              if type = VStr (js ''del'') then isDeleteEvent E value maxKeys maxKeyBytes
              else if type = VStr (js ''pattern'') then isPatternEvent value maxKeyBytes
              else if type = VStr (js ''set'') then isSetEvent E value maxKeys maxKeyBytes
              else False)
        | _ \<Rightarrow> False)
   | _ \<Rightarrow> False)"

definition default_event_limits :: EventDecodeOptions where
  "default_event_limits = \<lparr>edo_maxKeys = None, edo_maxKeyBytes = None\<rparr>"

definition decodeInvalidationEvent :: "'x event_env_scheme \<Rightarrow> raw_value \<Rightarrow> EventDecodeOptions \<Rightarrow> js_error + jsval option" where
  "decodeInvalidationEvent E raw options =
     (let maxKeys = nullish (edo_maxKeys options) (jint 4096); maxKeyBytes = nullish (edo_maxKeyBytes options) (jint (64 * 1024)) in
      if \<not> isSafeInteger maxKeys \<or> jless maxKeys (jint 1) \<or> \<not> isSafeInteger maxKeyBytes \<or> jless maxKeyBytes (jint 1)
      then Inl (RangeError ''Event decode limits must be positive safe integers'')
      else (let check = (\<lambda>event. Inr (if isInvalidationEvent E event (num_int maxKeys) (num_int maxKeyBytes)
                                      then Some event else None));
                read = (\<lambda>xs. case decodeCacheRecord E xs no_limits of Inl e \<Rightarrow> Inl e
                          | Inr Miss \<Rightarrow> Inr None | Inr (Hit v) \<Rightarrow> check v) in
        (case raw of
           RawBytes xs \<Rightarrow> read xs
         | RawValue (VStr s) \<Rightarrow> if 25 * 1024 * 1024 < int (byteLength s) then Inr None else read (utf8 s)
         | RawValue v \<Rightarrow> check v)))"

section \<open>Accepted events are bounded\<close>

text \<open>What every accepted event satisfies: the work it causes is bounded before any handler sees it.\<close>

definition event_keys :: "jsval \<Rightarrow> jsval list" where
  "event_keys v = (case v of VObject value \<Rightarrow> (case prop_of value (js ''keys'') of VArray keys \<Rightarrow> keys | _ \<Rightarrow> []) | _ \<Rightarrow> [])"

definition event_type :: "jsval \<Rightarrow> jsval" where
  "event_type v = (case v of VObject value \<Rightarrow> prop_of value (js ''type'') | _ \<Rightarrow> VUndefined)"

lemma type_strings: "js ''del'' \<noteq> js ''pattern''" "js ''set'' \<noteq> js ''pattern''" "js ''del'' \<noteq> js ''set''"
  by (simp_all add: js_def)

lemma isDeleteEvent_keys: "isDeleteEvent E value k b \<Longrightarrow>
    int (length (event_keys (VObject value))) \<le> k \<and> list_all (string_within b) (event_keys (VObject value))"
  by (auto simp: isDeleteEvent_def event_keys_def split: jsval.splits if_splits)

lemma isInvalidationEvent_bounds:
  assumes "isInvalidationEvent E v k b"
  shows "event_type v \<in> VStr ` {js ''del'', js ''pattern'', js ''set''}
    \<and> (event_type v \<noteq> VStr (js ''pattern'') \<longrightarrow>
        int (length (event_keys v)) \<le> k \<and> list_all (string_within b) (event_keys v))"
proof -
  obtain obj where v: "v = VObject obj"
    using assms by (cases v) (auto simp: isInvalidationEvent_def)
  have t: "prop_of obj (js ''type'') = VStr (js ''del'') \<and> isDeleteEvent E obj k b
     \<or> prop_of obj (js ''type'') = VStr (js ''pattern'') \<and> isPatternEvent obj b
     \<or> prop_of obj (js ''type'') = VStr (js ''set'') \<and> isSetEvent E obj k b"
    using assms unfolding v isInvalidationEvent_def
    by (simp add: Let_def split: jsval.splits if_splits prod.splits)
  then show ?thesis using isDeleteEvent_keys [of E obj k b]
    by (auto simp: v event_type_def isSetEvent_def)
qed

text \<open>
  Whatever arrives from a transport, an event that \<open>decodeInvalidationEvent\<close> accepts is a deletion, a
  pattern or a set event, and it names at most \<open>maxKeys\<close> keys, all strings of at most \<open>maxKeyBytes\<close>
  bytes; the decoder throws only on limits that are no positive safe integers.
\<close>

theorem decoded_event_bounded:
  assumes "decodeInvalidationEvent E raw options = Inr (Some event)"
  shows "event_type event \<in> VStr ` {js ''del'', js ''pattern'', js ''set''}
    \<and> (event_type event \<noteq> VStr (js ''pattern'') \<longrightarrow>
        int (length (event_keys event)) \<le> num_int (nullish (edo_maxKeys options) (jint 4096))
        \<and> list_all (string_within (num_int (nullish (edo_maxKeyBytes options) (jint (64 * 1024))))) (event_keys event))"
proof -
  have "isInvalidationEvent E event (num_int (nullish (edo_maxKeys options) (jint 4096)))
      (num_int (nullish (edo_maxKeyBytes options) (jint (64 * 1024))))"
    using assms unfolding decodeInvalidationEvent_def Let_def
    by (auto split: if_splits raw_value.splits jsval.splits sum.splits DecodedCacheRecord.splits)
  then show ?thesis by (rule isInvalidationEvent_bounds)
qed

text \<open>
  A valid event survives the wire: when encoding succeeds within the default record limits, decoding
  the bytes gives the event back.
\<close>

theorem event_roundtrip:
  fixes E :: event_env
  assumes "encodeInvalidationEvent E event = Inr buffer" "isInvalidationEvent E event 4096 (64 * 1024)"
    and "carries E event default_limits" "sentinel_packs E default_limits"
    and "int (length buffer) \<le> maxEncodedBytes default_limits"
  shows "decodeInvalidationEvent E (RawBytes buffer) default_event_limits = Inr (Some event)"
proof -
  obtain sv where sv: "serializeWithStats E event default_options = Inr sv" "buffer = sv_buffer sv"
    using assms(1) by (cases "serializeWithStats E event default_options") (auto simp: encodeInvalidationEvent_def serialize_def)
  have ev: "\<exists>obj. event = VObject obj" using assms(2) by (cases event) (auto simp: isInvalidationEvent_def)
  then have ne: "event \<noteq> VNull" "event \<noteq> VUndefined" "event \<noteq> VStr CACHE_NULL_SENTINEL" by auto
  have "decode_bounded E buffer default_limits = Hit event"
  proof (cases "debug_json E")
    case True
    then have "json_value E event = Inr sv"
      using sv(1) ne by (simp add: serializeWithStats_def default_options_def)
    then show ?thesis using read_json_value assms(3,5) sv(2) by blast
  next
    case False
    then obtain b where "pack E event = Some b" "packed_value E b default_options = Inr sv"
      using sv(1) ne by (auto simp: serializeWithStats_def default_options_def split: option.splits)
    then show ?thesis using read_packed_value assms(3,4,5) sv(2) ne(3) by blast
  qed
  then have "decodeCacheRecord E buffer no_limits = Inr (Hit event)"
    by (simp add: decodeCacheRecord_def default_limits_resolved)
  then show ?thesis using assms(2)
    by (simp add: decodeInvalidationEvent_def default_event_limits_def Let_def MAX_SAFE_INTEGER_def)
qed

text \<open>A stand-in environment that carries one deletion event.\<close>

definition demo_event :: jsval where
  "demo_event = VObject [(js ''type'', VStr (js ''del'')), (js ''source'', VStr [97]), (js ''ts'', VNum (JNum 1)),
     (js ''keys'', VArray [VStr [107]])]"

definition demo_event_env :: event_env where
  "demo_event_env = \<lparr>deflate = demo_deflate, inflate = demo_inflate, ZSTD_AVAILABLE = True,
     pack = (\<lambda>v. case v of VStr s \<Rightarrow> demo_pack v | VObject _ \<Rightarrow> Some [0xc0] | _ \<Rightarrow> None),
     unpack = (\<lambda>b. Some (VStr (map ucast (tl b)))),
     strict_unpack = (\<lambda>b. Some (if b = [0xc0] then demo_event else VStr (map ucast (tl b)))),
     json_stringify = (\<lambda>_. None), json_parse = (\<lambda>_. None),
     gzip_stream = (\<lambda>b. b), gunzip_stream = Some, debug_json = False,
     config_tiers = [mk_tier (Some 256) none], to_number = (\<lambda>_. JNaN), number_text = (\<lambda>_. [])\<rparr>"

lemma demo_event_facts:
  "encodeInvalidationEvent demo_event_env demo_event = Inr (HC1_MSGPACK_TAG @ [0xc0])"
  "isInvalidationEvent demo_event_env demo_event 4096 (64 * 1024)"
  "carries demo_event_env demo_event default_limits" "sentinel_packs demo_event_env default_limits"
  "int (length (HC1_MSGPACK_TAG @ [0xc0])) \<le> maxEncodedBytes default_limits"
  by code_simp+

theorem event_roundtrip_witness:
  "decodeInvalidationEvent demo_event_env (RawBytes (HC1_MSGPACK_TAG @ [0xc0])) default_event_limits = Inr (Some demo_event)"
  by (rule event_roundtrip [OF demo_event_facts])

theorem decoded_event_bounded_witness:
  "event_keys demo_event = [VStr [107]]
   \<and> int (length (event_keys demo_event)) \<le> 4096"
proof -
  have "decodeInvalidationEvent demo_event_env (RawBytes (HC1_MSGPACK_TAG @ [0xc0])) default_event_limits
      = Inr (Some demo_event)" by code_simp
  note bounded = decoded_event_bounded [OF this]
  have "event_keys demo_event = [VStr [107]]" "event_type demo_event \<noteq> VStr (js ''pattern'')" by code_simp+
  then show ?thesis using bounded by (simp add: default_event_limits_def)
qed

end
