(* ===== verification/Handler_Queue.thy ===== *)
theory Handler_Queue
  imports Load_Gates Event_Codec "HOL-Library.Multiset"
begin

text \<open>
  The delivery queue of the event buses (\<open>event-bus/handlerQueue.ts\<close>): a bounded FIFO in front of the
  handler. It is a fourth instance of the \<open>slot_gate\<close> contract; beyond it, every accepted delivery is
  settled exactly once.
\<close>

section \<open>State\<close>

text \<open>
  \<open>hq_running\<close> lists the started deliveries whose \<open>finally\<close> has not run, with their bytes and whether
  their \<open>settle\<close> has been called: what the promise chains hold.
\<close>

record EventBusHandlerQueue =
  hq_pending :: "(nat \<times> bytes) list"
  hq_pendingBytes :: int
  hq_active :: nat
  hq_activeBytes :: int
  hq_dropped :: nat
  hq_closed :: bool
  hq_concurrency :: nat
  hq_maxSize :: nat
  hq_maxBytes :: int
  hq_running :: "(nat \<times> bytes \<times> bool) list"

record EventBusHandlerQueueOptions =
  hqo_concurrency :: "jsnum option"
  hqo_maxSize :: "jsnum option"
  hqo_maxBytes :: "jsnum option"

definition DEFAULT_EVENT_BUS_HANDLER_QUEUE_MAX_SIZE :: int where
  "DEFAULT_EVENT_BUS_HANDLER_QUEUE_MAX_SIZE = 10000"

definition DEFAULT_EVENT_BUS_HANDLER_QUEUE_MAX_BYTES :: int where
  "DEFAULT_EVENT_BUS_HANDLER_QUEUE_MAX_BYTES = 16 * 1024 * 1024"

definition newEventBusHandlerQueue :: "EventBusHandlerQueueOptions \<Rightarrow> js_error + EventBusHandlerQueue" where
  "newEventBusHandlerQueue opts =
     (let c = nullish (hqo_concurrency opts) (jint 1);
          s = nullish (hqo_maxSize opts) (jint DEFAULT_EVENT_BUS_HANDLER_QUEUE_MAX_SIZE);
          b = nullish (hqo_maxBytes opts) (jint DEFAULT_EVENT_BUS_HANDLER_QUEUE_MAX_BYTES) in
      if \<not> list_all isSafeInteger [c, s, b] \<or> jle c (jint 0) \<or> jless s (jint 0) \<or> jless b (jint 0)
      then Inl (RangeError ''Event handler concurrency must be positive; queue limits must be non-negative safe integers'')
      else Inr \<lparr>hq_pending = [], hq_pendingBytes = 0, hq_active = 0, hq_activeBytes = 0, hq_dropped = 0, hq_closed = False,
        hq_concurrency = nat (num_int c), hq_maxSize = nat (num_int s), hq_maxBytes = num_int b, hq_running = []\<rparr>)"

definition retainedBytes :: "EventBusHandlerQueue \<Rightarrow> int" where
  "retainedBytes q = hq_activeBytes q + hq_pendingBytes q"

text \<open>What a step calls back: an error report, the settlement of a delivery, the overflow and idle hooks.\<close>

datatype hq_call = OnError | Settled nat bool | OnOverflow nat | OnIdle

section \<open>Operations\<close>

definition hq_start :: "nat \<Rightarrow> bytes \<Rightarrow> EventBusHandlerQueue \<Rightarrow> EventBusHandlerQueue" where
  "hq_start i xs q = q\<lparr>hq_pending := om_del (hq_pending q) i, hq_pendingBytes := hq_pendingBytes q - int (length xs),
     hq_active := hq_active q + 1, hq_activeBytes := hq_activeBytes q + int (length xs),
     hq_running := hq_running q @ [(i, xs, False)]\<rparr>"

text \<open>The \<open>drain\<close> loop: it ends because every round starts a pending delivery.\<close>

function hq_drain :: "EventBusHandlerQueue \<Rightarrow> EventBusHandlerQueue \<times> nat list" where
  "hq_drain q = (if hq_active q < hq_concurrency q
     then (case hq_pending q of [] \<Rightarrow> (q, [])
       | (i, xs) # rest \<Rightarrow> let r = hq_drain (hq_start i xs q) in (fst r, i # snd r))
     else (q, []))"
  by pat_completeness auto
termination
  by (relation "measure (\<lambda>q. hq_concurrency q - hq_active q)") (auto simp: hq_start_def)

declare hq_drain.simps [simp del]

definition hq_enqueueItem :: "nat \<Rightarrow> bytes \<Rightarrow> EventBusHandlerQueue \<Rightarrow> bool \<times> (EventBusHandlerQueue \<times> nat list) \<times> hq_call list" where
  "hq_enqueueItem i xs q =
     (if hq_closed q then (False, (q\<lparr>hq_dropped := hq_dropped q + 1\<rparr>, []), [])
      else if hq_maxSize q \<le> length (hq_pending q) + hq_active q \<or> hq_maxBytes q < retainedBytes q + int (length xs)
      then (False, (q\<lparr>hq_dropped := hq_dropped q + 1\<rparr>, []), [OnOverflow (length xs)])
      else (True, hq_drain (q\<lparr>hq_pending := hq_pending q @ [(i, xs)], hq_pendingBytes := hq_pendingBytes q + int (length xs)\<rparr>), []))"

text \<open>\<open>enqueue(event, encoded?)\<close>: a closed queue drops the event before encoding it; an event that
  cannot be encoded is dropped and reported.\<close>

definition hq_enqueue :: "'x event_env_scheme \<Rightarrow> nat \<Rightarrow> jsval \<Rightarrow> bytes option \<Rightarrow> EventBusHandlerQueue \<Rightarrow> bool \<times> (EventBusHandlerQueue \<times> nat list) \<times> hq_call list" where
  "hq_enqueue E i event encoded q =
     (if hq_closed q then (False, (q\<lparr>hq_dropped := hq_dropped q + 1\<rparr>, []), [])
      else (case (case encoded of Some xs \<Rightarrow> Inr xs | None \<Rightarrow> encodeInvalidationEvent E event) of
          Inl _ \<Rightarrow> (False, (q\<lparr>hq_dropped := hq_dropped q + 1\<rparr>, []), [OnError])
        | Inr xs \<Rightarrow> hq_enqueueItem i xs q))"

text \<open>The delivery itself: the snapshot is decoded and handed to the handler, whose outcome is the
  argument; \<open>Some\<close> means it ran.\<close>

definition hq_deliver :: "'x event_env_scheme \<Rightarrow> bytes \<Rightarrow> (jsval \<Rightarrow> bool) \<Rightarrow> jsval option \<times> bool" where
  "hq_deliver E xs handler = (case decodeInvalidationEvent E (RawBytes xs) default_event_limits of
      Inr (Some event) \<Rightarrow> (Some event, handler event)
    | _ \<Rightarrow> (None, False))"

definition mark_settled :: "nat \<Rightarrow> (nat \<times> bytes \<times> bool) list \<Rightarrow> (nat \<times> bytes \<times> bool) list" where
  "mark_settled i rs = map (\<lambda>(j, xs, b). (j, xs, b \<or> j = i)) rs"

text \<open>The \<open>then\<close> of a delivery: a failure is reported, and the item is settled.\<close>

definition hq_settle :: "nat \<Rightarrow> bool \<Rightarrow> EventBusHandlerQueue \<Rightarrow> EventBusHandlerQueue \<times> hq_call list" where
  "hq_settle i ok q = (q\<lparr>hq_running := mark_settled i (hq_running q)\<rparr>,
     (if ok then [] else [OnError]) @ [Settled i ok])"

text \<open>The \<open>finally\<close> of a delivery.\<close>

definition hq_finally :: "nat \<Rightarrow> EventBusHandlerQueue \<Rightarrow> (EventBusHandlerQueue \<times> nat list) \<times> hq_call list" where
  "hq_finally i q = (case om_get (hq_running q) i of None \<Rightarrow> ((q, []), [])
     | Some (xs, b) \<Rightarrow>
        let r = hq_drain (q\<lparr>hq_active := hq_active q - 1, hq_activeBytes := hq_activeBytes q - int (length xs),
                  hq_running := om_del (hq_running q) i\<rparr>);
            q' = fst r in
        (r, if hq_active q' = 0 \<and> hq_pending q' = [] \<and> \<not> hq_closed q' then [OnIdle] else []))"

definition hq_close :: "EventBusHandlerQueue \<Rightarrow> EventBusHandlerQueue \<times> hq_call list" where
  "hq_close q = (q\<lparr>hq_closed := True, hq_pending := [], hq_pendingBytes := 0\<rparr>,
     concat (map (\<lambda>p. [OnError, Settled (fst p) False]) (hq_pending q)))"

definition hq_discardPending :: "EventBusHandlerQueue \<Rightarrow> EventBusHandlerQueue \<times> hq_call list" where
  "hq_discardPending q = (q\<lparr>hq_pending := [], hq_pendingBytes := 0\<rparr>,
     map (\<lambda>p. Settled (fst p) False) (hq_pending q))"

section \<open>As a gate\<close>

datatype hq_event = HQEnqueue nat bytes | HQSettle nat bool | HQFinally nat | HQClose | HQDiscard

fun hq_calls :: "hq_event \<Rightarrow> EventBusHandlerQueue \<Rightarrow> (EventBusHandlerQueue \<times> nat list) \<times> hq_call list" where
  "hq_calls (HQEnqueue i xs) q = snd (hq_enqueueItem i xs q)"
| "hq_calls (HQSettle i ok) q = (let r = hq_settle i ok q in ((fst r, []), snd r))"
| "hq_calls (HQFinally i) q = hq_finally i q"
| "hq_calls HQClose q = (let r = hq_close q in ((fst r, []), snd r))"
| "hq_calls HQDiscard q = (let r = hq_discardPending q in ((fst r, []), snd r))"

definition hq_step :: "hq_event \<Rightarrow> EventBusHandlerQueue \<Rightarrow> EventBusHandlerQueue \<times> nat list" where
  "hq_step e q = fst (hq_calls e q)"

fun hq_arrived :: "hq_event \<Rightarrow> nat list" where
  "hq_arrived (HQEnqueue i _) = [i]"
| "hq_arrived _ = []"

fun hq_ended :: "hq_event \<Rightarrow> nat" where
  "hq_ended (HQFinally _) = 1"
| "hq_ended _ = 0"

text \<open>Deliveries are numbered; a chain settles before its \<open>finally\<close>, each once.\<close>

fun hq_legal :: "hq_event \<Rightarrow> EventBusHandlerQueue \<Rightarrow> bool" where
  "hq_legal (HQEnqueue i _) q = (i \<notin> fst ` set (hq_pending q) \<union> fst ` set (hq_running q))"
| "hq_legal (HQSettle i _) q = (\<exists>xs. (i, xs, False) \<in> set (hq_running q))"
| "hq_legal (HQFinally i) q = (\<exists>xs. (i, xs, True) \<in> set (hq_running q))"
| "hq_legal _ q = True"

definition isum :: "bytes list \<Rightarrow> int" where
  "isum xs = (\<Sum>x\<leftarrow>xs. int (length x))"

definition hq_inv :: "EventBusHandlerQueue \<Rightarrow> bool" where
  "hq_inv q \<longleftrightarrow> distinct (map fst (hq_pending q) @ map fst (hq_running q))
     \<and> hq_active q = length (hq_running q) \<and> hq_active q \<le> hq_concurrency q
     \<and> (hq_pending q \<noteq> [] \<longrightarrow> hq_active q = hq_concurrency q)
     \<and> hq_pendingBytes q = isum (map snd (hq_pending q))
     \<and> hq_activeBytes q = isum (map (fst \<circ> snd) (hq_running q))
     \<and> length (hq_pending q) + hq_active q \<le> hq_maxSize q \<and> retainedBytes q \<le> hq_maxBytes q
     \<and> (hq_closed q \<longrightarrow> hq_pending q = [])"

definition hq_waiting :: "EventBusHandlerQueue \<Rightarrow> nat list" where
  "hq_waiting q = map fst (hq_pending q)"

lemma isum_simps [simp]: "isum [] = 0" "isum (x # xs) = int (length x) + isum xs" "isum (xs @ ys) = isum xs + isum ys"
  by (simp_all add: isum_def)

lemma isum_nonneg: "0 \<le> isum xs"
  unfolding isum_def by (intro sum_list_nonneg) auto

text \<open>The invariant but for the idle slots, which \<open>drain\<close> fills.\<close>

definition hq_pre :: "EventBusHandlerQueue \<Rightarrow> bool" where
  "hq_pre q \<longleftrightarrow> distinct (map fst (hq_pending q) @ map fst (hq_running q))
     \<and> hq_active q = length (hq_running q) \<and> hq_active q \<le> hq_concurrency q
     \<and> hq_pendingBytes q = isum (map snd (hq_pending q))
     \<and> hq_activeBytes q = isum (map (fst \<circ> snd) (hq_running q))
     \<and> length (hq_pending q) + hq_active q \<le> hq_maxSize q \<and> retainedBytes q \<le> hq_maxBytes q
     \<and> (hq_closed q \<longrightarrow> hq_pending q = [])"

lemma hq_inv_pre: "hq_inv q \<longleftrightarrow> hq_pre q \<and> (hq_pending q \<noteq> [] \<longrightarrow> hq_active q = hq_concurrency q)"
  by (auto simp: hq_inv_def hq_pre_def)

lemma hq_start_pre:
  assumes "hq_pre q" "hq_pending q = (i, xs) # rest" "hq_active q < hq_concurrency q"
  shows "hq_pre (hq_start i xs q) \<and> hq_pending (hq_start i xs q) = rest
    \<and> hq_running (hq_start i xs q) = hq_running q @ [(i, xs, False)]"
proof -
  have "i \<notin> fst ` set rest" using assms by (auto simp: hq_pre_def)
  then have d: "om_del (hq_pending q) i = rest" using om_del_absent [of i rest] assms(2) by (simp add: om_del_def)
  then show ?thesis using assms by (auto simp: hq_start_def hq_pre_def retainedBytes_def)
qed

text \<open>The deliveries whose settlement is still to come.\<close>

definition hq_open :: "EventBusHandlerQueue \<Rightarrow> nat list" where
  "hq_open q = map fst (hq_pending q) @ map fst (filter (\<lambda>r. \<not> snd (snd r)) (hq_running q))"

lemma hq_drain_spec:
  "hq_pre q \<Longrightarrow> hq_inv (fst (hq_drain q)) \<and> snd (hq_drain q) @ hq_waiting (fst (hq_drain q)) = hq_waiting q
    \<and> hq_active (fst (hq_drain q)) = hq_active q + length (snd (hq_drain q))
    \<and> hq_concurrency (fst (hq_drain q)) = hq_concurrency q \<and> mset (hq_open (fst (hq_drain q))) = mset (hq_open q)"
proof (induction q rule: hq_drain.induct)
  case (1 q)
  show ?case
  proof (cases "hq_active q < hq_concurrency q \<and> hq_pending q \<noteq> []")
    case False
    then have "hq_drain q = (q, [])" by (subst hq_drain.simps) (auto split: list.splits)
    then show ?thesis using False 1(2) by (auto simp: hq_inv_pre hq_pre_def)
  next
    case True
    then obtain i xs rest where p: "hq_pending q = (i, xs) # rest" by (cases "hq_pending q") auto
    have dr: "hq_drain q = (fst (hq_drain (hq_start i xs q)), i # snd (hq_drain (hq_start i xs q)))"
      using True p by (subst hq_drain.simps) (simp add: Let_def)
    have st: "hq_pre (hq_start i xs q)" "hq_pending (hq_start i xs q) = rest"
      "hq_running (hq_start i xs q) = hq_running q @ [(i, xs, False)]"
      using hq_start_pre [OF 1(2) p] True by auto
    have act: "hq_active (hq_start i xs q) = hq_active q + 1" "hq_concurrency (hq_start i xs q) = hq_concurrency q"
      by (simp_all add: hq_start_def)
    have op: "mset (hq_open (hq_start i xs q)) = mset (hq_open q)"
      using st(2,3) p by (simp add: hq_open_def)
    show ?thesis using 1(1) [of "(i, xs)" rest i xs] True p st act op by (simp add: dr hq_waiting_def)
  qed
qed

lemma hq_enqueue_inv:
  assumes "hq_inv q" "hq_legal (HQEnqueue i xs) q"
  shows "hq_pre (q\<lparr>hq_pending := hq_pending q @ [(i, xs)], hq_pendingBytes := hq_pendingBytes q + int (length xs)\<rparr>)
    \<or> hq_closed q \<or> hq_maxSize q \<le> length (hq_pending q) + hq_active q \<or> hq_maxBytes q < retainedBytes q + int (length xs)"
  using assms by (auto simp: hq_inv_def hq_pre_def retainedBytes_def)

lemma running_del:
  assumes "distinct (map fst rs)" "(i, xs, b) \<in> set rs"
  shows "length (om_del rs i) = length rs - 1 \<and> isum (map (fst \<circ> snd) (om_del rs i)) = isum (map (fst \<circ> snd) rs) - int (length xs)
    \<and> om_get rs i = Some (xs, b)"
  using assms
proof (induction rs)
  case (Cons r rs)
  show ?case
  proof (cases "fst r = i")
    case True
    then have "i \<notin> fst ` set rs" using Cons.prems(1) by (cases r) auto
    then show ?thesis using Cons.prems True om_del_absent [of i rs] by (cases r) (force simp: om_del_def om_get_def)
  next
    case False
    then have "rs \<noteq> []" "(i, xs, b) \<in> set rs" using Cons.prems by auto
    then show ?thesis using Cons False by (cases r; cases rs) (auto simp: om_del_def om_get_def)
  qed
qed simp

lemma distinct_del: "distinct (map fst rs) \<Longrightarrow> distinct (map fst (om_del rs i))"
  by (simp add: om_del_def distinct_map_filter)

lemma hq_finally_pre:
  assumes "hq_inv q" "(i, xs, True) \<in> set (hq_running q)"
  shows "hq_pre (q\<lparr>hq_active := hq_active q - 1, hq_activeBytes := hq_activeBytes q - int (length xs),
      hq_running := om_del (hq_running q) i\<rparr>) \<and> om_get (hq_running q) i = Some (xs, True) \<and> 0 < hq_active q"
proof -
  have d: "distinct (map fst (hq_running q))" using assms(1) by (simp add: hq_inv_def)
  have sub: "fst ` set (om_del (hq_running q) i) \<subseteq> fst ` set (hq_running q)" by (auto simp: om_del_def)
  have pos: "0 < length (hq_running q)" using assms(2) by (cases "hq_running q") auto
  show ?thesis using assms(1) running_del [OF d assms(2)] distinct_del [OF d, of i] sub pos
    by (auto simp: hq_inv_def hq_pre_def retainedBytes_def)
qed

lemma mark_settled_simps: "map fst (mark_settled i rs) = map fst rs" "length (mark_settled i rs) = length rs"
  "map (fst \<circ> snd) (mark_settled i rs) = map (fst \<circ> snd) rs"
  by (auto simp: mark_settled_def)

lemma hq_dropped_inv [simp]: "hq_inv (q\<lparr>hq_dropped := n\<rparr>) = hq_inv q"
  by (simp add: hq_inv_def retainedBytes_def)

lemma hq_empty_inv:
  assumes "hq_inv q"
  shows "hq_inv (q\<lparr>hq_pending := [], hq_pendingBytes := 0\<rparr>)" "hq_inv (q\<lparr>hq_closed := True, hq_pending := [], hq_pendingBytes := 0\<rparr>)"
  using assms isum_nonneg [of "map snd (hq_pending q)"] by (auto simp: hq_inv_def retainedBytes_def)

lemma hq_step_inv:
  assumes "hq_inv q" "hq_legal e q"
  shows "hq_inv (fst (hq_step e q))"
proof (cases e)
  case (HQEnqueue i xs)
  let ?q = "q\<lparr>hq_pending := hq_pending q @ [(i, xs)], hq_pendingBytes := hq_pendingBytes q + int (length xs)\<rparr>"
  have "hq_pre ?q \<Longrightarrow> hq_inv (fst (hq_drain ?q))" using hq_drain_spec by blast
  then show ?thesis using hq_enqueue_inv [of q i xs] assms HQEnqueue
    by (simp add: hq_step_def hq_enqueueItem_def) blast
next
  case (HQFinally i)
  then obtain xs where "(i, xs, True) \<in> set (hq_running q)" using assms by auto
  note f = hq_finally_pre [OF assms(1) this]
  show ?thesis using HQFinally f hq_drain_spec [OF conjunct1 [OF f]]
    by (simp add: hq_step_def hq_finally_def Let_def)
next
  case (HQSettle i ok)
  then show ?thesis using assms(1)
    by (auto simp: hq_step_def hq_settle_def hq_inv_def retainedBytes_def mark_settled_simps)
next
  case HQClose
  then show ?thesis using hq_empty_inv [OF assms(1)] by (simp add: hq_step_def hq_close_def)
next
  case HQDiscard
  then show ?thesis using hq_empty_inv [OF assms(1)] by (simp add: hq_step_def hq_discardPending_def)
qed

lemma hq_step_fifo: "hq_inv q \<Longrightarrow> hq_legal e q \<Longrightarrow>
    subseq (snd (hq_step e q) @ hq_waiting (fst (hq_step e q))) (hq_waiting q @ hq_arrived e)"
proof (cases e)
  case (HQEnqueue i xs)
  assume q: "hq_inv q" "hq_legal e q"
  let ?q = "q\<lparr>hq_pending := hq_pending q @ [(i, xs)], hq_pendingBytes := hq_pendingBytes q + int (length xs)\<rparr>"
  show ?thesis
  proof (cases "hq_pre ?q")
    case True
    then have "snd (hq_drain ?q) @ hq_waiting (fst (hq_drain ?q)) = hq_waiting q @ [i]"
      using hq_drain_spec [OF True] by (simp add: hq_waiting_def)
    then show ?thesis using HQEnqueue by (auto simp: hq_step_def hq_enqueueItem_def) (auto simp: hq_waiting_def)
  next
    case False
    then show ?thesis using hq_enqueue_inv [of q i xs] q HQEnqueue
      by (auto simp: hq_step_def hq_enqueueItem_def hq_waiting_def)
  qed
next
  case (HQFinally i)
  assume q: "hq_inv q" "hq_legal e q"
  then obtain xs where "(i, xs, True) \<in> set (hq_running q)" using HQFinally by auto
  note f = hq_finally_pre [OF q(1) this]
  show ?thesis using HQFinally f hq_drain_spec [OF conjunct1 [OF f]]
    by (simp add: hq_step_def hq_finally_def Let_def) (simp add: hq_waiting_def)
qed (auto simp: hq_step_def hq_settle_def hq_close_def hq_discardPending_def hq_waiting_def)

lemma hq_step_count:
  assumes "hq_inv q" "hq_legal e q"
  shows "hq_active (fst (hq_step e q)) + hq_ended e = hq_active q + length (snd (hq_step e q))"
proof (cases e)
  case (HQEnqueue i xs)
  then show ?thesis using hq_enqueue_inv [of q i xs] assms hq_drain_spec
    by (auto simp: hq_step_def hq_enqueueItem_def)
next
  case (HQFinally i)
  then obtain xs where "(i, xs, True) \<in> set (hq_running q)" using assms by auto
  note f = hq_finally_pre [OF assms(1) this]
  show ?thesis using HQFinally f hq_drain_spec [OF conjunct1 [OF f]]
    by (simp add: hq_step_def hq_finally_def Let_def)
qed (auto simp: hq_step_def hq_settle_def hq_close_def hq_discardPending_def)

lemma hq_drain_slots: "hq_concurrency (fst (hq_drain q)) = hq_concurrency q"
proof (induction q rule: hq_drain.induct)
  case (1 q)
  show ?case
  proof (cases "hq_active q < hq_concurrency q \<and> hq_pending q \<noteq> []")
    case True
    then obtain i xs rest where p: "hq_pending q = (i, xs) # rest" by (cases "hq_pending q") auto
    then show ?thesis using True 1 [of "(i, xs)" rest i xs] by (subst hq_drain.simps) (simp add: Let_def hq_start_def)
  qed (subst hq_drain.simps, auto split: list.splits)
qed

lemma hq_step_slots: "hq_concurrency (fst (hq_step e q)) = hq_concurrency q"
  by (cases e) (auto simp: hq_step_def hq_enqueueItem_def hq_settle_def hq_finally_def hq_close_def
      hq_discardPending_def hq_drain_slots Let_def split: option.splits)

lemma hq_bounds:
  "hq_inv q \<Longrightarrow> hq_active q \<le> hq_concurrency q"
  "hq_inv q \<Longrightarrow> hq_waiting q \<noteq> [] \<Longrightarrow> hq_active q = hq_concurrency q"
  by (auto simp: hq_inv_def hq_waiting_def)

interpretation hq: slot_gate hq_step hq_arrived hq_ended hq_legal hq_waiting hq_active hq_concurrency hq_inv
  by unfold_locales (simp_all add: hq_step_inv hq_step_fifo hq_step_count hq_step_slots hq_bounds)

lemma new_handler_queue_inv: "newEventBusHandlerQueue opts = Inr q \<Longrightarrow> hq_inv q \<and> 0 < hq_concurrency q
    \<and> hq_pending q = [] \<and> hq_active q = 0 \<and> hq_running q = []"
proof -
  assume new: "newEventBusHandlerQueue opts = Inr q"
  let ?c = "nullish (hqo_concurrency opts) (jint 1)"
    and ?s = "nullish (hqo_maxSize opts) (jint DEFAULT_EVENT_BUS_HANDLER_QUEUE_MAX_SIZE)"
    and ?b = "nullish (hqo_maxBytes opts) (jint DEFAULT_EVENT_BUS_HANDLER_QUEUE_MAX_BYTES)"
  have ok: "isSafeInteger ?c" "isSafeInteger ?s" "isSafeInteger ?b" "\<not> jle ?c (jint 0)" "\<not> jless ?s (jint 0)" "\<not> jless ?b (jint 0)"
    using new by (auto simp: newEventBusHandlerQueue_def Let_def split: if_splits)
  have "0 < num_int ?c" using ok(1,4) by (cases rule: isSafeInteger_cases) auto
  moreover have "0 \<le> num_int ?b" using ok(3,6) by (cases rule: isSafeInteger_cases) auto
  ultimately show ?thesis using new
    by (auto simp: newEventBusHandlerQueue_def Let_def hq_inv_def retainedBytes_def split: if_splits)
qed

text \<open>
  Along any run of a new handler queue (deliveries arriving, settling and finishing, transport gaps,
  closing): at most \<open>concurrency\<close> handlers run and none is idle while a delivery waits; deliveries start
  in arrival order; the byte counters are exact; and what the queue retains never exceeds \<open>maxSize\<close>
  deliveries and \<open>maxBytes\<close> bytes, running ones included.
\<close>

theorem handler_queue_run:
  assumes "newEventBusHandlerQueue opts = Inr q" "hq.legal_run es q"
  shows "hq_active (fst (hq.run es q)) \<le> hq_concurrency q
    \<and> (hq_waiting (fst (hq.run es q)) \<noteq> [] \<longrightarrow> hq_active (fst (hq.run es q)) = hq_concurrency q)
    \<and> subseq (snd (hq.run es q) @ hq_waiting (fst (hq.run es q))) (concat (map hq_arrived es))
    \<and> hq_pendingBytes (fst (hq.run es q)) = isum (map snd (hq_pending (fst (hq.run es q))))
    \<and> hq_activeBytes (fst (hq.run es q)) = isum (map (fst \<circ> snd) (hq_running (fst (hq.run es q))))
    \<and> length (hq_pending (fst (hq.run es q))) + hq_active (fst (hq.run es q)) \<le> hq_maxSize (fst (hq.run es q))
    \<and> retainedBytes (fst (hq.run es q)) \<le> hq_maxBytes (fst (hq.run es q))"
proof -
  have inv: "hq_inv q" "hq_waiting q = []" using new_handler_queue_inv [OF assms(1)] by (auto simp: hq_waiting_def)
  show ?thesis
    using hq.run_bounded [OF inv(1) assms(2)] hq.run_fifo [OF inv(1) assms(2)] hq.run_inv [OF inv(1) assms(2)] inv(2)
    by (auto simp: hq_inv_def)
qed

definition demo_hq :: EventBusHandlerQueue where
  "demo_hq = \<lparr>hq_pending = [], hq_pendingBytes = 0, hq_active = 0, hq_activeBytes = 0, hq_dropped = 0, hq_closed = False,
     hq_concurrency = 1, hq_maxSize = 10000, hq_maxBytes = 16777216, hq_running = []\<rparr>"

lemma demo_hq_new: "newEventBusHandlerQueue \<lparr>hqo_concurrency = None, hqo_maxSize = None, hqo_maxBytes = None\<rparr> = Inr demo_hq"
  by (simp add: newEventBusHandlerQueue_def demo_hq_def DEFAULT_EVENT_BUS_HANDLER_QUEUE_MAX_SIZE_def
      DEFAULT_EVENT_BUS_HANDLER_QUEUE_MAX_BYTES_def MAX_SAFE_INTEGER_def)

lemma demo_hq_drain:
  "hq_drain (demo_hq\<lparr>hq_pending := [(0, [1, 2])], hq_pendingBytes := 2\<rparr>)
     = (demo_hq\<lparr>hq_active := 1, hq_activeBytes := 2, hq_running := [(0, [1, 2], False)]\<rparr>, [0])"
  by (subst hq_drain.simps, subst hq_drain.simps) (simp add: demo_hq_def hq_start_def om_del_def Let_def)

theorem handler_queue_run_witness:
  "hq.legal_run [HQEnqueue 0 [1, 2], HQSettle 0 True] demo_hq
   \<and> hq_active (fst (hq.run [HQEnqueue 0 [1, 2], HQSettle 0 True] demo_hq)) \<le> 1"
proof -
  have l: "hq.legal_run [HQEnqueue 0 [1, 2], HQSettle 0 True] demo_hq"
    using demo_hq_drain
    by (simp add: hq_step_def hq_enqueueItem_def retainedBytes_def demo_hq_def)
  show ?thesis using l handler_queue_run [OF demo_hq_new l] by (simp add: demo_hq_def)
qed

section \<open>Every accepted delivery settles once\<close>

definition hq_accepts :: "hq_event \<Rightarrow> EventBusHandlerQueue \<Rightarrow> nat list" where
  "hq_accepts e q = (case e of HQEnqueue i xs \<Rightarrow> if fst (hq_enqueueItem i xs q) then [i] else [] | _ \<Rightarrow> [])"

fun settled_in :: "hq_call list \<Rightarrow> nat list" where
  "settled_in [] = []"
| "settled_in (Settled i _ # cs) = i # settled_in cs"
| "settled_in (_ # cs) = settled_in cs"

text \<open>The deliveries a run accepts and the ones it settles.\<close>

fun hq_accepted :: "hq_event list \<Rightarrow> EventBusHandlerQueue \<Rightarrow> nat list" where
  "hq_accepted [] q = []"
| "hq_accepted (e # es) q = hq_accepts e q @ hq_accepted es (fst (hq_step e q))"

fun hq_settled :: "hq_event list \<Rightarrow> EventBusHandlerQueue \<Rightarrow> nat list" where
  "hq_settled [] q = []"
| "hq_settled (e # es) q = settled_in (snd (hq_calls e q)) @ hq_settled es (fst (hq_step e q))"

lemma settled_in_append: "settled_in (xs @ ys) = settled_in xs @ settled_in ys"
  by (induction xs rule: settled_in.induct) auto

lemma settled_in_close: "settled_in (concat (map (\<lambda>p. [OnError, Settled (f p) b]) xs)) = map f xs"
  "settled_in (map (\<lambda>p. Settled (f p) b) xs) = map f xs"
  by (induction xs) auto

lemma mark_open:
  assumes "distinct (map fst rs)" "(i, xs, False) \<in> set rs"
  shows "mset (map fst (filter (\<lambda>r. \<not> snd (snd r)) rs))
    = add_mset i (mset (map fst (filter (\<lambda>r. \<not> snd (snd r)) (mark_settled i rs))))"
  using assms
proof (induction rs)
  case (Cons r rs)
  obtain j ys b where r: "r = (j, ys, b)" by (cases r)
  show ?case
  proof (cases "j = i")
    case True
    then have i: "i \<notin> fst ` set rs" using Cons.prems(1) r by auto
    then have "mark_settled i rs = rs" unfolding mark_settled_def by (induction rs) auto
    moreover have "\<not> b" using Cons.prems(2) r True i by force
    ultimately show ?thesis using r True by (simp add: mark_settled_def)
  next
    case False
    then show ?thesis using Cons r by (simp add: mark_settled_def)
  qed
qed simp

lemma del_open:
  assumes "distinct (map fst rs)" "(i, xs, True) \<in> set rs"
  shows "map fst (filter (\<lambda>r. \<not> snd (snd r)) (om_del rs i)) = map fst (filter (\<lambda>r. \<not> snd (snd r)) rs)"
  using assms
proof (induction rs)
  case (Cons r rs)
  show ?case
  proof (cases "fst r = i")
    case True
    then have i: "i \<notin> fst ` set rs" using Cons.prems(1) by auto
    moreover have "(i, xs, True) \<in> set rs \<Longrightarrow> i \<in> fst ` set rs" by (rule image_eqI) auto
    ultimately have "r = (i, xs, True)" using Cons.prems(2) by auto
    then show ?thesis using om_del_absent [OF i] by (simp add: om_del_def)
  next
    case False
    then have "(i, xs, True) \<in> set rs" using Cons.prems(2) by auto
    then show ?thesis using Cons False by (simp add: om_del_def)
  qed
qed simp

lemma hq_step_settles:
  assumes "hq_inv q" "hq_legal e q"
  shows "mset (settled_in (snd (hq_calls e q))) + mset (hq_open (fst (hq_step e q))) = mset (hq_open q) + mset (hq_accepts e q)"
proof (cases e)
  case (HQEnqueue i xs)
  let ?q = "q\<lparr>hq_pending := hq_pending q @ [(i, xs)], hq_pendingBytes := hq_pendingBytes q + int (length xs)\<rparr>"
  have "hq_pre ?q \<Longrightarrow> mset (hq_open (fst (hq_drain ?q))) = add_mset i (mset (hq_open q))"
    using hq_drain_spec [of ?q] by (simp add: hq_open_def)
  moreover have "hq_open (q\<lparr>hq_dropped := n\<rparr>) = hq_open q" for n by (simp add: hq_open_def)
  ultimately show ?thesis using hq_enqueue_inv [of q i xs] assms HQEnqueue
    by (simp add: hq_step_def hq_accepts_def hq_enqueueItem_def) blast
next
  case (HQSettle i ok)
  then obtain xs where xs: "(i, xs, False) \<in> set (hq_running q)" using assms(2) by auto
  have "distinct (map fst (hq_running q))" using assms(1) by (simp add: hq_inv_def)
  then show ?thesis using mark_open [OF _ xs] HQSettle
    by (simp add: hq_step_def hq_settle_def hq_accepts_def hq_open_def settled_in_append)
next
  case (HQFinally i)
  then obtain xs where xs: "(i, xs, True) \<in> set (hq_running q)" using assms by auto
  note f = hq_finally_pre [OF assms(1) xs]
  have d: "distinct (map fst (hq_running q))" using assms(1) by (simp add: hq_inv_def)
  show ?thesis using HQFinally f hq_drain_spec [OF conjunct1 [OF f]] del_open [OF d xs]
    by (simp add: hq_step_def hq_finally_def Let_def hq_accepts_def) (simp add: hq_open_def)
next
  case HQClose
  then show ?thesis by (simp add: hq_step_def hq_close_def hq_accepts_def hq_open_def settled_in_close)
next
  case HQDiscard
  then show ?thesis by (simp add: hq_step_def hq_discardPending_def hq_accepts_def hq_open_def settled_in_close)
qed

lemma hq_run_settles:
  "hq_inv q \<Longrightarrow> hq.legal_run es q \<Longrightarrow>
    mset (hq_settled es q) + mset (hq_open (fst (hq.run es q))) = mset (hq_open q) + mset (hq_accepted es q)"
proof (induction es arbitrary: q)
  case (Cons e es)
  then have "mset (hq_settled es (fst (hq_step e q))) + mset (hq_open (fst (hq.run es (fst (hq_step e q)))))
      = mset (hq_open (fst (hq_step e q))) + mset (hq_accepted es (fst (hq_step e q)))"
    using hq_step_inv by auto
  moreover have "mset (settled_in (snd (hq_calls e q))) + mset (hq_open (fst (hq_step e q))) = mset (hq_open q) + mset (hq_accepts e q)"
    using hq_step_settles Cons.prems by auto
  ultimately show ?case by (simp add: Let_def) (metis add.assoc add.commute)
qed simp

text \<open>
  No delivery is lost and none is settled twice: along any run of a new queue, the settlements made
  so far together with the deliveries still waiting or running are exactly the deliveries accepted, each
  once, through failures, transport gaps and closing.
\<close>

theorem handler_queue_settles_once:
  assumes "newEventBusHandlerQueue opts = Inr q" "hq.legal_run es q"
  shows "mset (hq_settled es q) + mset (hq_open (fst (hq.run es q))) = mset (hq_accepted es q)"
  using hq_run_settles [OF _ assms(2)] new_handler_queue_inv [OF assms(1)] by (simp add: hq_open_def)

theorem handler_queue_settles_once_witness:
  "mset (hq_settled [HQEnqueue 0 [1, 2], HQSettle 0 True] demo_hq)
     + mset (hq_open (fst (hq.run [HQEnqueue 0 [1, 2], HQSettle 0 True] demo_hq)))
   = mset (hq_accepted [HQEnqueue 0 [1, 2], HQSettle 0 True] demo_hq)
   \<and> hq_accepted [HQEnqueue 0 [1, 2], HQSettle 0 True] demo_hq = [0]"
proof -
  have l: "hq.legal_run [HQEnqueue 0 [1, 2], HQSettle 0 True] demo_hq"
    using demo_hq_drain
    by (simp add: hq_step_def hq_enqueueItem_def retainedBytes_def demo_hq_def)
  have "hq_accepted [HQEnqueue 0 [1, 2], HQSettle 0 True] demo_hq = [0]"
    by (simp add: hq_accepts_def hq_enqueueItem_def retainedBytes_def demo_hq_def)
  then show ?thesis using handler_queue_settles_once [OF demo_hq_new l] by blast
qed

end
