(* ===== verification/Retry_Queue.thy ===== *)
theory Retry_Queue
  imports Event_Codec "HOL-Library.Sublist"
begin

text \<open>
  The publish-retry queue of the event buses (\<open>event-bus/retryQueue.ts\<close>). Entries are wire snapshots; one
  entry at a time is being published and is never evicted. A flush is split at its \<open>await\<close>: it runs
  until it hands an event to \<open>publish\<close>, and goes on when that promise settles.
\<close>

section \<open>State\<close>

text \<open>
  An entry is its number, its bytes and \<open>discardAfterPublish\<close>. \<open>Publishing\<close> is a flush waiting for
  \<open>publish\<close>; \<open>Ended\<close> one whose loop is over while the \<open>finally\<close> that clears \<open>flushing\<close> has not run.
\<close>

datatype flush_phase = Idle | Publishing | Ended

record EventBusRetryQueue =
  rq_events :: "(nat \<times> bytes \<times> bool) list"
  rq_bytes :: int
  rq_dropped :: nat
  rq_phase :: flush_phase
  rq_flushingEntry :: "nat option"
  rq_enabled :: bool
  rq_maxSize :: int
  rq_maxBytes :: int

record EventBusRetryQueueOptions =
  rqo_enabled :: "bool option"
  rqo_maxSize :: "jsnum option"
  rqo_maxBytes :: "jsnum option"

definition DEFAULT_EVENT_BUS_RETRY_QUEUE_MAX_SIZE :: int where
  "DEFAULT_EVENT_BUS_RETRY_QUEUE_MAX_SIZE = 10000"

definition DEFAULT_EVENT_BUS_RETRY_QUEUE_MAX_BYTES :: int where
  "DEFAULT_EVENT_BUS_RETRY_QUEUE_MAX_BYTES = 16 * 1024 * 1024"

definition newEventBusRetryQueue :: "EventBusRetryQueueOptions \<Rightarrow> js_error + EventBusRetryQueue" where
  "newEventBusRetryQueue opts =
     (let s = nullish (rqo_maxSize opts) (jint DEFAULT_EVENT_BUS_RETRY_QUEUE_MAX_SIZE);
          b = nullish (rqo_maxBytes opts) (jint DEFAULT_EVENT_BUS_RETRY_QUEUE_MAX_BYTES) in
      if \<not> (\<forall>l \<in> {s, b}. isSafeInteger l \<and> \<not> jless l (jint 0))
      then Inl (RangeError ''Event retry queue limits must be non-negative safe integers'')
      else Inr \<lparr>rq_events = [], rq_bytes = 0, rq_dropped = 0, rq_phase = Idle, rq_flushingEntry = None,
        rq_enabled = not_false (rqo_enabled opts), rq_maxSize = num_int s, rq_maxBytes = num_int b\<rparr>)"

section \<open>Operations\<close>

definition waitingSize :: "EventBusRetryQueue \<Rightarrow> nat" where
  "waitingSize q = length (rq_events q)
     - (case rq_flushingEntry q of Some i \<Rightarrow> if om_has (rq_events q) i then 1 else 0 | None \<Rightarrow> 0)"

text \<open>The first entry other than the one being published.\<close>

definition oldestWaiting :: "EventBusRetryQueue \<Rightarrow> (nat \<times> bytes \<times> bool) option" where
  "oldestWaiting q = List.find (\<lambda>e. Some (fst e) \<noteq> rq_flushingEntry q) (rq_events q)"

definition removeEntry :: "nat \<Rightarrow> EventBusRetryQueue \<Rightarrow> EventBusRetryQueue" where
  "removeEntry i q = (case om_get (rq_events q) i of None \<Rightarrow> q
     | Some (xs, d) \<Rightarrow> q\<lparr>rq_events := om_del (rq_events q) i, rq_bytes := rq_bytes q - int (length xs)\<rparr>)"

definition removeOldestWaiting :: "EventBusRetryQueue \<Rightarrow> EventBusRetryQueue" where
  "removeOldestWaiting q = (case oldestWaiting q of None \<Rightarrow> q | Some e \<Rightarrow> removeEntry (fst e) q)"

definition dropOne :: "EventBusRetryQueue \<Rightarrow> EventBusRetryQueue" where
  "dropOne q = q\<lparr>rq_dropped := rq_dropped q + 1\<rparr>"

lemma oldestWaiting_exists: "0 < waitingSize q \<Longrightarrow> distinct (map fst (rq_events q)) \<Longrightarrow> oldestWaiting q \<noteq> None"
proof
  assume w: "0 < waitingSize q" and d: "distinct (map fst (rq_events q))" and n: "oldestWaiting q = None"
  then have all: "\<forall>e \<in> set (rq_events q). Some (fst e) = rq_flushingEntry q"
    by (simp only: oldestWaiting_def find_None_iff) blast
  show False
  proof (cases "rq_events q")
    case Nil
    then show False using w by (simp add: waitingSize_def)
  next
    case (Cons e es)
    then have "es = []" using all d by (cases es) (auto, metis option.inject)
    then show False using w Cons all by (cases e) (auto simp: waitingSize_def om_has_def om_get_def split: option.splits)
  qed
qed

lemma oldestWaiting_mem: "oldestWaiting q = Some e \<Longrightarrow> e \<in> set (rq_events q) \<and> Some (fst e) \<noteq> rq_flushingEntry q"
  by (auto simp: oldestWaiting_def find_Some_iff)

text \<open>
  The loop that makes room: it removes the oldest waiting entries while the new one does not fit. It is
  written over the number of entries, of which each round removes one.
\<close>

fun makeRoom :: "nat \<Rightarrow> int \<Rightarrow> EventBusRetryQueue \<Rightarrow> EventBusRetryQueue" where
  "makeRoom 0 n q = q"
| "makeRoom (Suc k) n q = (if 0 < waitingSize q \<and> rq_maxBytes q < rq_bytes q + n
     then makeRoom k n (dropOne (removeOldestWaiting q))
     else q)"

text \<open>The count limit: a full backlog loses its oldest entry.\<close>

definition limitCount :: "EventBusRetryQueue \<Rightarrow> EventBusRetryQueue" where
  "limitCount q = (if rq_maxSize q \<le> int (waitingSize q) then dropOne (removeOldestWaiting q) else q)"

definition roomFor :: "bytes \<Rightarrow> EventBusRetryQueue \<Rightarrow> EventBusRetryQueue" where
  "roomFor xs q = makeRoom (length (rq_events q)) (int (length xs)) q"

definition rq_enqueue :: "'x event_env_scheme \<Rightarrow> nat \<Rightarrow> jsval \<Rightarrow> EventBusRetryQueue \<Rightarrow> bool \<times> EventBusRetryQueue" where
  "rq_enqueue E i event q =
     (if \<not> rq_enabled q then (False, dropOne q)
      else if rq_maxSize q \<le> 0 then (False, dropOne q)
      else (case encodeInvalidationEvent E event of Inl _ \<Rightarrow> (False, dropOne q)
        | Inr xs \<Rightarrow>
            if rq_maxBytes q \<le> 0 \<or> rq_maxBytes q < int (length xs) then (False, dropOne q)
            else if rq_maxSize q \<le> int (waitingSize q) \<and> oldestWaiting q = None then (False, dropOne q)
            else (let q2 = roomFor xs (limitCount q) in
              if rq_maxBytes q2 < rq_bytes q2 + int (length xs) then (False, dropOne q2)
              else (True, q2\<lparr>rq_events := rq_events q2 @ [(i, xs, False)], rq_bytes := rq_bytes q2 + int (length xs)\<rparr>))))"

text \<open>
  The \<open>drain\<close> loop up to its next \<open>await\<close>: entries that no longer decode are removed; the first that
  does is handed to \<open>publish\<close>.
\<close>

fun rq_drain :: "'x event_env_scheme \<Rightarrow> (nat \<times> bytes \<times> bool) list \<Rightarrow> EventBusRetryQueue \<Rightarrow> EventBusRetryQueue \<times> (nat \<times> jsval) option" where
  "rq_drain E [] q = (q\<lparr>rq_phase := Ended, rq_flushingEntry := None\<rparr>, None)"
| "rq_drain E ((i, xs, d) # rest) q =
     (case decodeInvalidationEvent E (RawBytes xs) default_event_limits of
        Inr (Some event) \<Rightarrow> (q\<lparr>rq_phase := Publishing, rq_flushingEntry := Some i\<rparr>, Some (i, event))
      | _ \<Rightarrow> rq_drain E rest (removeEntry i q))"

definition rq_flush :: "'x event_env_scheme \<Rightarrow> EventBusRetryQueue \<Rightarrow> EventBusRetryQueue \<times> (nat \<times> jsval) option" where
  "rq_flush E q = (if rq_phase q \<noteq> Idle then (q, None) else rq_drain E (rq_events q) q)"

text \<open>\<open>publish\<close> settles: on success the entry leaves and the loop goes on; on failure the flush ends, and
  the entry stays unless \<open>clear\<close> marked it.\<close>

definition rq_published :: "'x event_env_scheme \<Rightarrow> bool \<Rightarrow> EventBusRetryQueue \<Rightarrow> EventBusRetryQueue \<times> (nat \<times> jsval) option" where
  "rq_published E ok q = (case rq_flushingEntry q of None \<Rightarrow> (q, None)
     | Some i \<Rightarrow>
        if ok then (let q1 = (removeEntry i q)\<lparr>rq_flushingEntry := None\<rparr> in rq_drain E (rq_events q1) q1)
        else (let q1 = (case om_get (rq_events q) i of Some (xs, True) \<Rightarrow> removeEntry i q | _ \<Rightarrow> q) in
          (q1\<lparr>rq_flushingEntry := None, rq_phase := Ended\<rparr>, None)))"

definition rq_flushed :: "EventBusRetryQueue \<Rightarrow> EventBusRetryQueue" where
  "rq_flushed q = q\<lparr>rq_phase := Idle\<rparr>"

definition rq_clear :: "EventBusRetryQueue \<Rightarrow> EventBusRetryQueue" where
  "rq_clear q = (case rq_flushingEntry q of None \<Rightarrow> q\<lparr>rq_events := [], rq_bytes := 0\<rparr>
     | Some i \<Rightarrow> (case om_get (rq_events q) i of None \<Rightarrow> q\<lparr>rq_events := [], rq_bytes := 0\<rparr>
        | Some (xs, d) \<Rightarrow> q\<lparr>rq_events := [(i, xs, True)], rq_bytes := int (length xs)\<rparr>))"

section \<open>The invariant\<close>

definition rsum_bytes :: "(nat \<times> bytes \<times> bool) list \<Rightarrow> int" where
  "rsum_bytes es = (\<Sum>e\<leftarrow>es. int (length (fst (snd e))))"

definition rq_inv :: "EventBusRetryQueue \<Rightarrow> bool" where
  "rq_inv q \<longleftrightarrow> distinct (map fst (rq_events q)) \<and> rq_bytes q = rsum_bytes (rq_events q)
     \<and> rq_bytes q \<le> rq_maxBytes q \<and> 0 \<le> rq_maxSize q \<and> int (length (rq_events q)) \<le> rq_maxSize q + 1
     \<and> (case rq_flushingEntry q of None \<Rightarrow> rq_phase q \<noteq> Publishing
        | Some i \<Rightarrow> rq_phase q = Publishing \<and> rq_events q \<noteq> [] \<and> fst (hd (rq_events q)) = i)"

lemma rsum_bytes_simps [simp]: "rsum_bytes [] = 0" "rsum_bytes (e # es) = int (length (fst (snd e))) + rsum_bytes es"
  "rsum_bytes (es @ fs) = rsum_bytes es + rsum_bytes fs"
  by (simp_all add: rsum_bytes_def)

lemma rsum_bytes_nonneg: "0 \<le> rsum_bytes es"
  unfolding rsum_bytes_def by (intro sum_list_nonneg) auto

lemma rsum_bytes_del:
  "distinct (map fst es) \<Longrightarrow> om_get es i = Some (xs, d) \<Longrightarrow> rsum_bytes (om_del es i) = rsum_bytes es - int (length xs)
     \<and> length (om_del es i) + 1 = length es"
proof (induction es)
  case (Cons e es)
  then show ?case using om_del_absent [of i es] by (cases e) (auto simp: om_get_def om_del_def)
qed (simp add: om_get_def)

lemma om_get_mem: "distinct (map fst es) \<Longrightarrow> (i, v) \<in> set es \<Longrightarrow> om_get es i = Some v"
  by (simp add: om_get_def)

lemma subseq_del: "subseq (map fst (om_del es i)) (map fst es)"
  by (simp add: om_del_def subseq_map)

text \<open>Removing an entry that is not being published keeps the invariant and the order.\<close>

lemma removeEntry_inv:
  assumes "rq_inv q" "Some i \<noteq> rq_flushingEntry q"
  shows "rq_inv (removeEntry i q)" "subseq (map fst (rq_events (removeEntry i q))) (map fst (rq_events q))"
proof -
  show "subseq (map fst (rq_events (removeEntry i q))) (map fst (rq_events q))"
    by (auto simp: removeEntry_def subseq_del split: option.split)
  show "rq_inv (removeEntry i q)"
  proof (cases "om_get (rq_events q) i")
    case (Some v)
    obtain xs d where v: "v = (xs, d)" by (cases v)
    have del: "rsum_bytes (om_del (rq_events q) i) = rsum_bytes (rq_events q) - int (length xs)"
      "length (om_del (rq_events q) i) + 1 = length (rq_events q)"
      using rsum_bytes_del [of "rq_events q" i xs d] assms(1) Some v by (auto simp: rq_inv_def)
    have "distinct (map fst (om_del (rq_events q) i))" using assms(1) by (simp add: rq_inv_def om_del_def distinct_map_filter)
    moreover have "om_del (rq_events q) i \<noteq> [] \<and> fst (hd (om_del (rq_events q) i)) = j"
      if "rq_flushingEntry q = Some j" for j
      using assms that by (cases "rq_events q") (auto simp: rq_inv_def om_del_def)
    ultimately show ?thesis using assms(1) Some v del
      by (auto simp: removeEntry_def rq_inv_def split: option.splits)
  qed (simp add: removeEntry_def assms)
qed

lemma dropOne_inv [simp]: "rq_inv (dropOne q) = rq_inv q" "rq_events (dropOne q) = rq_events q"
  "rq_bytes (dropOne q) = rq_bytes q" "rq_maxBytes (dropOne q) = rq_maxBytes q" "rq_maxSize (dropOne q) = rq_maxSize q"
  "rq_flushingEntry (dropOne q) = rq_flushingEntry q" "rq_phase (dropOne q) = rq_phase q"
  by (simp_all add: dropOne_def rq_inv_def split: option.split)

lemma removeEntry_fields [simp]: "rq_maxBytes (removeEntry i q) = rq_maxBytes q" "rq_maxSize (removeEntry i q) = rq_maxSize q"
  "rq_flushingEntry (removeEntry i q) = rq_flushingEntry q" "rq_phase (removeEntry i q) = rq_phase q"
  "rq_enabled (removeEntry i q) = rq_enabled q"
  by (auto simp: removeEntry_def split: option.split)

lemma removeOldestWaiting_spec:
  assumes "rq_inv q"
  shows "rq_inv (removeOldestWaiting q) \<and> subseq (map fst (rq_events (removeOldestWaiting q))) (map fst (rq_events q))
    \<and> rq_flushingEntry (removeOldestWaiting q) = rq_flushingEntry q \<and> rq_maxBytes (removeOldestWaiting q) = rq_maxBytes q
    \<and> rq_maxSize (removeOldestWaiting q) = rq_maxSize q \<and> rq_phase (removeOldestWaiting q) = rq_phase q
    \<and> (oldestWaiting q \<noteq> None \<longrightarrow> length (rq_events (removeOldestWaiting q)) + 1 = length (rq_events q))"
proof (cases "oldestWaiting q")
  case (Some e)
  note e = oldestWaiting_mem [OF Some]
  have "om_get (rq_events q) (fst e) = Some (snd e)"
    using om_get_mem [of "rq_events q" "fst e" "snd e"] e assms by (simp add: rq_inv_def)
  then have "length (rq_events (removeEntry (fst e) q)) + 1 = length (rq_events q)"
    using rsum_bytes_del [of "rq_events q" "fst e" "fst (snd e)" "snd (snd e)"] assms
    by (cases "snd e") (auto simp: removeEntry_def rq_inv_def)
  then show ?thesis using Some removeEntry_inv [OF assms, of "fst e"] e by (simp add: removeOldestWaiting_def)
qed (simp add: removeOldestWaiting_def assms)

lemma makeRoom_spec:
  "rq_inv q \<Longrightarrow> rq_inv (makeRoom k n q) \<and> subseq (map fst (rq_events (makeRoom k n q))) (map fst (rq_events q))
    \<and> rq_flushingEntry (makeRoom k n q) = rq_flushingEntry q \<and> rq_maxBytes (makeRoom k n q) = rq_maxBytes q
    \<and> rq_maxSize (makeRoom k n q) = rq_maxSize q \<and> rq_phase (makeRoom k n q) = rq_phase q
    \<and> length (rq_events (makeRoom k n q)) \<le> length (rq_events q)"
proof (induction k arbitrary: q)
  case (Suc k)
  have e: "rq_inv (dropOne (removeOldestWaiting q))" using removeOldestWaiting_spec [OF Suc.prems] by simp
  have le: "length (rq_events (removeOldestWaiting q)) \<le> length (rq_events q)"
    using removeOldestWaiting_spec [OF Suc.prems] list_emb_length [of "(=)"] by (metis length_map)
  show ?case unfolding makeRoom.simps
    using Suc.IH [OF e] removeOldestWaiting_spec [OF Suc.prems] Suc.prems le
    by (auto intro: subseq_order.trans)
qed simp

text \<open>The number of entries is enough rounds: the loop's exit condition holds afterwards.\<close>

lemma makeRoom_exit:
  "rq_inv q \<Longrightarrow> length (rq_events q) \<le> k \<Longrightarrow>
     \<not> (0 < waitingSize (makeRoom k n q) \<and> rq_maxBytes q < rq_bytes (makeRoom k n q) + n)"
proof (induction k arbitrary: q)
  case 0
  then show ?case by (simp add: waitingSize_def)
next
  case (Suc k)
  show ?case
  proof (cases "0 < waitingSize q \<and> rq_maxBytes q < rq_bytes q + n")
    case True
    have "oldestWaiting q \<noteq> None" using oldestWaiting_exists True Suc.prems(1) by (auto simp: rq_inv_def)
    then have "length (rq_events (dropOne (removeOldestWaiting q))) \<le> k" "rq_inv (dropOne (removeOldestWaiting q))"
      "rq_maxBytes (dropOne (removeOldestWaiting q)) = rq_maxBytes q"
      using removeOldestWaiting_spec [OF Suc.prems(1)] Suc.prems(2) by simp_all
    then show ?thesis unfolding makeRoom.simps using True Suc.IH [of "dropOne (removeOldestWaiting q)"] by simp
  next
    case False
    then show ?thesis unfolding makeRoom.simps by auto
  qed
qed

section \<open>Runs\<close>

text \<open>\<open>waitingSize\<close> under the invariant: all entries but the one being published.\<close>

lemma waitingSize_inv: "rq_inv q \<Longrightarrow> waitingSize q = length (rq_events q) - (if rq_flushingEntry q = None then 0 else 1)"
proof (cases "rq_flushingEntry q")
  case (Some i)
  assume "rq_inv q"
  then obtain e es where "rq_events q = e # es" "fst e = i" using Some by (cases "rq_events q") (auto simp: rq_inv_def)
  then show ?thesis using Some by (cases e) (simp add: waitingSize_def om_has_def om_get_def)
qed (simp add: waitingSize_def)

lemma limitCount_spec:
  assumes "rq_inv q" "rq_maxSize q \<le> int (waitingSize q) \<Longrightarrow> oldestWaiting q \<noteq> None"
  shows "rq_inv (limitCount q) \<and> subseq (map fst (rq_events (limitCount q))) (map fst (rq_events q))
    \<and> rq_maxSize (limitCount q) = rq_maxSize q \<and> int (length (rq_events (limitCount q))) \<le> rq_maxSize q"
proof (cases "rq_maxSize q \<le> int (waitingSize q)")
  case True
  have "int (length (rq_events q)) \<le> rq_maxSize q + 1" using assms(1) by (simp add: rq_inv_def)
  then show ?thesis using True assms(2) removeOldestWaiting_spec [OF assms(1)] by (simp add: limitCount_def)
next
  case False
  then show ?thesis using waitingSize_inv [OF assms(1)] assms(1) by (auto simp: limitCount_def split: if_splits)
qed

lemma subseq_notin: "subseq xs ys \<Longrightarrow> i \<notin> set ys \<Longrightarrow> i \<notin> set xs"
  by (metis notin_set_nthsI subseq_conv_nths)

lemma rq_enqueue_spec:
  assumes "rq_inv q" "i \<notin> fst ` set (rq_events q)"
  shows "rq_inv (snd (rq_enqueue E i event q))
    \<and> subseq (map fst (rq_events (snd (rq_enqueue E i event q))))
        (map fst (rq_events q) @ (if fst (rq_enqueue E i event q) then [i] else []))"
proof -
  consider "rq_enqueue E i event q = (False, dropOne q)"
    | xs where "rq_maxSize q \<le> int (waitingSize q) \<Longrightarrow> oldestWaiting q \<noteq> None"
        "rq_enqueue E i event q = (let q2 = roomFor xs (limitCount q) in
           if rq_maxBytes q2 < rq_bytes q2 + int (length xs) then (False, dropOne q2)
           else (True, q2\<lparr>rq_events := rq_events q2 @ [(i, xs, False)], rq_bytes := rq_bytes q2 + int (length xs)\<rparr>))"
    unfolding rq_enqueue_def by (force split: sum.splits if_splits)
  then show ?thesis
  proof cases
    case (2 xs)
    define q2 where "q2 = roomFor xs (limitCount q)"
    note lc = limitCount_spec [OF assms(1) 2(1)]
    note mk = makeRoom_spec [OF conjunct1 [OF lc], of "length (rq_events (limitCount q))" "int (length xs)", folded roomFor_def, folded q2_def]
    have sub: "subseq (map fst (rq_events q2)) (map fst (rq_events q))" using mk lc by (auto intro: subseq_order.trans)
    have "i \<notin> fst ` set (rq_events q2)" using subseq_notin [OF sub, of i] assms(2) by simp
    moreover have "int (length (rq_events q2)) \<le> rq_maxSize q2" using mk lc by linarith
    ultimately have "rq_inv (q2\<lparr>rq_events := rq_events q2 @ [(i, xs, False)], rq_bytes := rq_bytes q2 + int (length xs)\<rparr>)"
      if "rq_bytes q2 + int (length xs) \<le> rq_maxBytes q2"
      using mk that by (auto simp: rq_inv_def split: option.splits)
    then show ?thesis using sub mk 2(2) by (simp add: q2_def [symmetric] Let_def list_emb_append_mono)
  qed (simp add: assms)
qed

text \<open>The invariant without the flush state, which holds between the rounds of \<open>drain\<close>.\<close>

definition rq_core :: "EventBusRetryQueue \<Rightarrow> bool" where
  "rq_core q \<longleftrightarrow> distinct (map fst (rq_events q)) \<and> rq_bytes q = rsum_bytes (rq_events q)
     \<and> rq_bytes q \<le> rq_maxBytes q \<and> 0 \<le> rq_maxSize q \<and> int (length (rq_events q)) \<le> rq_maxSize q + 1"

lemma rq_inv_core: "rq_inv q \<longleftrightarrow> rq_core q \<and> (case rq_flushingEntry q of None \<Rightarrow> rq_phase q \<noteq> Publishing
        | Some i \<Rightarrow> rq_phase q = Publishing \<and> rq_events q \<noteq> [] \<and> fst (hd (rq_events q)) = i)"
  by (simp add: rq_inv_def rq_core_def)

lemma removeEntry_head:
  assumes "rq_core q" "rq_events q = (i, xs, d) # rest"
  shows "rq_core (removeEntry i q) \<and> rq_events (removeEntry i q) = rest"
proof -
  have "i \<notin> fst ` set rest" using assms by (auto simp: rq_core_def)
  then have "om_del (rq_events q) i = rest" using om_del_absent [of i rest] assms(2) by (simp add: om_del_def)
  moreover have "om_get (rq_events q) i = Some (xs, d)" using assms(2) by (simp add: om_get_def)
  ultimately show ?thesis using assms by (auto simp: removeEntry_def rq_core_def)
qed

lemma rq_drain_spec:
  "rq_core q \<Longrightarrow> es = rq_events q \<Longrightarrow> rq_inv (fst (rq_drain E es q))
     \<and> subseq (map fst (rq_events (fst (rq_drain E es q)))) (map fst (rq_events q))"
proof (induction E es q rule: rq_drain.induct)
  case (1 E q)
  then show ?case by (auto simp: rq_inv_core rq_core_def)
next
  case (2 E i xs d rest q)
  show ?case
  proof (cases "\<exists>event. decodeInvalidationEvent E (RawBytes xs) default_event_limits = Inr (Some event)")
    case True
    then obtain event where "rq_drain E ((i, xs, d) # rest) q = (q\<lparr>rq_phase := Publishing, rq_flushingEntry := Some i\<rparr>, Some (i, event))"
      by auto
    moreover have ev: "rq_events q = (i, xs, d) # rest" using 2(4) by simp
    moreover have "rq_core (q\<lparr>rq_phase := Publishing, rq_flushingEntry := Some i\<rparr>)" using 2(3) by (simp add: rq_core_def)
    ultimately show ?thesis by (simp add: rq_inv_core)
  next
    case False
    note rm = removeEntry_head [OF \<open>rq_core q\<close> \<open>_ # _ = rq_events q\<close> [symmetric]]
    have "rq_drain E ((i, xs, d) # rest) q = rq_drain E rest (removeEntry i q)"
      using False by (auto split: sum.splits option.splits)
    moreover have "rq_inv (fst (rq_drain E rest (removeEntry i q)))
        \<and> subseq (map fst (rq_events (fst (rq_drain E rest (removeEntry i q))))) (map fst rest)"
    proof (cases "decodeInvalidationEvent E (RawBytes xs) default_event_limits")
      case (Inl a)
      then show ?thesis using 2(1) [OF Inl] rm by simp
    next
      case (Inr b)
      then have "b = None" using False by (cases b) auto
      then show ?thesis using 2(2) [OF Inr] rm by simp
    qed
    ultimately show ?thesis using 2(4) [symmetric] by (simp add: list_emb_Cons)
  qed
qed

lemma rq_flush_spec: "rq_inv q \<Longrightarrow> rq_inv (fst (rq_flush E q))
    \<and> subseq (map fst (rq_events (fst (rq_flush E q)))) (map fst (rq_events q))"
proof -
  assume q: "rq_inv q"
  then have "rq_core q" by (simp add: rq_inv_core)
  then show ?thesis using q rq_drain_spec [of q "rq_events q" E] by (simp add: rq_flush_def)
qed

text \<open>The entries a step publishes successfully.\<close>

definition published_now :: "bool \<Rightarrow> EventBusRetryQueue \<Rightarrow> nat list" where
  "published_now ok q = (if ok then (case rq_flushingEntry q of Some i \<Rightarrow> [i] | None \<Rightarrow> []) else [])"

lemma rq_published_spec:
  assumes "rq_inv q"
  shows "rq_inv (fst (rq_published E ok q))
    \<and> subseq (published_now ok q @ map fst (rq_events (fst (rq_published E ok q)))) (map fst (rq_events q))"
proof (cases "rq_flushingEntry q")
  case None
  then show ?thesis using assms by (simp add: rq_published_def published_now_def)
next
  case (Some i)
  then obtain xs d rest where ev: "rq_events q = (i, xs, d) # rest"
    using assms by (cases "rq_events q") (auto simp: rq_inv_core)
  have core: "rq_core q" using assms by (simp add: rq_inv_core)
  note rm = removeEntry_head [OF core ev]
  show ?thesis
  proof (cases ok)
    case True
    let ?q1 = "(removeEntry i q)\<lparr>rq_flushingEntry := None\<rparr>"
    have c: "rq_core ?q1" using rm by (auto simp: rq_core_def)
    have "rq_published E ok q = rq_drain E (rq_events ?q1) ?q1" using Some True by (simp add: rq_published_def Let_def)
    then show ?thesis using rq_drain_spec [OF c, of "rq_events ?q1" E] rm ev Some True by (simp add: published_now_def)
  next
    case False
    have g: "om_get (rq_events q) i = Some (xs, d)" using ev by (simp add: om_get_def)
    show ?thesis using Some False g rm core ev
      by (cases d) (auto simp: rq_published_def Let_def published_now_def rq_inv_core rq_core_def)
  qed
qed

lemma rq_clear_spec:
  assumes "rq_inv q"
  shows "rq_inv (rq_clear q) \<and> subseq (map fst (rq_events (rq_clear q))) (map fst (rq_events q))"
proof (cases "rq_flushingEntry q")
  case None
  then show ?thesis using assms rsum_bytes_nonneg [of "rq_events q"] by (auto simp: rq_clear_def rq_inv_def)
next
  case (Some i)
  then obtain xs d rest where ev: "rq_events q = (i, xs, d) # rest"
    using assms by (cases "rq_events q") (auto simp: rq_inv_core)
  then have "om_get (rq_events q) i = Some (xs, d)" by (simp add: om_get_def)
  then show ?thesis using assms Some ev rsum_bytes_nonneg [of rest] by (auto simp: rq_clear_def rq_inv_def)
qed

datatype rq_event = RQEnqueue nat jsval | RQFlush | RQPublished bool | RQFlushed | RQClear

fun rq_step :: "'x event_env_scheme \<Rightarrow> rq_event \<Rightarrow> EventBusRetryQueue \<Rightarrow> EventBusRetryQueue" where
  "rq_step E (RQEnqueue i event) q = snd (rq_enqueue E i event q)"
| "rq_step E RQFlush q = fst (rq_flush E q)"
| "rq_step E (RQPublished ok) q = fst (rq_published E ok q)"
| "rq_step E RQFlushed q = rq_flushed q"
| "rq_step E RQClear q = rq_clear q"

text \<open>Entries are numbered as they are offered; the \<open>finally\<close> of a flush runs once its loop is over.\<close>

fun rq_legal :: "rq_event \<Rightarrow> EventBusRetryQueue \<Rightarrow> bool" where
  "rq_legal (RQEnqueue i _) q = (i \<notin> fst ` set (rq_events q))"
| "rq_legal (RQPublished _) q = (rq_phase q = Publishing)"
| "rq_legal RQFlushed q = (rq_phase q = Ended)"
| "rq_legal _ q = True"

fun rq_legal_run :: "'x event_env_scheme \<Rightarrow> rq_event list \<Rightarrow> EventBusRetryQueue \<Rightarrow> bool" where
  "rq_legal_run E [] q = True"
| "rq_legal_run E (e # es) q = (rq_legal e q \<and> rq_legal_run E es (rq_step E e q))"

fun rq_run :: "'x event_env_scheme \<Rightarrow> rq_event list \<Rightarrow> EventBusRetryQueue \<Rightarrow> EventBusRetryQueue" where
  "rq_run E [] q = q"
| "rq_run E (e # es) q = rq_run E es (rq_step E e q)"

fun rq_accepted :: "'x event_env_scheme \<Rightarrow> rq_event list \<Rightarrow> EventBusRetryQueue \<Rightarrow> nat list" where
  "rq_accepted E [] q = []"
| "rq_accepted E (e # es) q = (case e of RQEnqueue i event \<Rightarrow> if fst (rq_enqueue E i event q) then [i] else [] | _ \<Rightarrow> [])
     @ rq_accepted E es (rq_step E e q)"

fun rq_sent :: "'x event_env_scheme \<Rightarrow> rq_event list \<Rightarrow> EventBusRetryQueue \<Rightarrow> nat list" where
  "rq_sent E [] q = []"
| "rq_sent E (e # es) q = (case e of RQPublished ok \<Rightarrow> published_now ok q | _ \<Rightarrow> []) @ rq_sent E es (rq_step E e q)"

lemma rq_step_spec:
  assumes "rq_inv q" "rq_legal e q"
  shows "rq_inv (rq_step E e q)
    \<and> subseq ((case e of RQPublished ok \<Rightarrow> published_now ok q | _ \<Rightarrow> []) @ map fst (rq_events (rq_step E e q)))
        (map fst (rq_events q) @ (case e of RQEnqueue i event \<Rightarrow> if fst (rq_enqueue E i event q) then [i] else [] | _ \<Rightarrow> []))"
proof (cases e)
  case RQFlushed
  then show ?thesis using assms by (auto simp: rq_flushed_def rq_inv_def split: option.splits)
next
  case (RQEnqueue i event)
  then show ?thesis using assms rq_enqueue_spec [of q i E event] by simp
next
  case RQFlush
  then show ?thesis using rq_flush_spec [OF assms(1), of E] by simp
next
  case (RQPublished ok)
  then show ?thesis using rq_published_spec [OF assms(1), of E ok] by simp
next
  case RQClear
  then show ?thesis using rq_clear_spec [OF assms(1)] by simp
qed

lemma rq_run_spec:
  "rq_inv q \<Longrightarrow> rq_legal_run E es q \<Longrightarrow> rq_inv (rq_run E es q)
    \<and> subseq (rq_sent E es q @ map fst (rq_events (rq_run E es q))) (map fst (rq_events q) @ rq_accepted E es q)"
proof (induction es arbitrary: q)
  case (Cons e es)
  let ?q = "rq_step E e q" and ?s = "case e of RQPublished ok \<Rightarrow> published_now ok q | _ \<Rightarrow> []"
    and ?a = "case e of RQEnqueue i event \<Rightarrow> if fst (rq_enqueue E i event q) then [i] else [] | _ \<Rightarrow> []"
  have st: "rq_inv ?q" "subseq (?s @ map fst (rq_events ?q)) (map fst (rq_events q) @ ?a)"
    using rq_step_spec [of q e E] Cons.prems by auto
  have ih: "rq_inv (rq_run E es ?q)" "subseq (rq_sent E es ?q @ map fst (rq_events (rq_run E es ?q))) (map fst (rq_events ?q) @ rq_accepted E es ?q)"
    using Cons.IH [OF st(1)] Cons.prems by auto
  have "subseq (?s @ rq_sent E es ?q @ map fst (rq_events (rq_run E es ?q))) ((?s @ map fst (rq_events ?q)) @ rq_accepted E es ?q)"
    using ih(2) by (simp add: list_emb_append_mono)
  moreover have "subseq ((?s @ map fst (rq_events ?q)) @ rq_accepted E es ?q) ((map fst (rq_events q) @ ?a) @ rq_accepted E es ?q)"
    by (rule list_emb_append_mono [OF st(2)]) simp
  ultimately have "subseq (?s @ rq_sent E es ?q @ map fst (rq_events (rq_run E es ?q))) ((map fst (rq_events q) @ ?a) @ rq_accepted E es ?q)"
    by (rule subseq_order.trans)
  then show ?case using ih(1) by simp
qed simp

lemma new_retry_queue_inv: "newEventBusRetryQueue opts = Inr q \<Longrightarrow> rq_inv q \<and> rq_events q = []"
proof -
  assume new: "newEventBusRetryQueue opts = Inr q"
  let ?s = "nullish (rqo_maxSize opts) (jint DEFAULT_EVENT_BUS_RETRY_QUEUE_MAX_SIZE)"
    and ?b = "nullish (rqo_maxBytes opts) (jint DEFAULT_EVENT_BUS_RETRY_QUEUE_MAX_BYTES)"
  have ok: "isSafeInteger ?s" "isSafeInteger ?b" "\<not> jless ?s (jint 0)" "\<not> jless ?b (jint 0)"
    using new by (auto simp: newEventBusRetryQueue_def Let_def split: if_splits)
  have "0 \<le> num_int ?s" using ok(1,3) by (cases rule: isSafeInteger_cases) auto
  moreover have "0 \<le> num_int ?b" using ok(2,4) by (cases rule: isSafeInteger_cases) auto
  ultimately show ?thesis using new
    by (auto simp: newEventBusRetryQueue_def Let_def rq_inv_def split: if_splits)
qed

text \<open>
  Along any run of a new retry queue (events offered, flushes, publications succeeding or failing,
  \<open>clear\<close> at any point): the byte count is exact and never above \<open>maxBytes\<close>; the queue holds at most
  one entry more than \<open>maxSize\<close>; and the events published, followed by those still queued, are in the
  order they were accepted, so none is published successfully twice.
\<close>

theorem retry_queue_run:
  assumes "newEventBusRetryQueue opts = Inr q" "rq_legal_run E es q"
  shows "rq_bytes (rq_run E es q) = rsum_bytes (rq_events (rq_run E es q))
    \<and> rq_bytes (rq_run E es q) \<le> rq_maxBytes (rq_run E es q)
    \<and> int (length (rq_events (rq_run E es q))) \<le> rq_maxSize (rq_run E es q) + 1
    \<and> subseq (rq_sent E es q @ map fst (rq_events (rq_run E es q))) (rq_accepted E es q)"
  using rq_run_spec [OF _ assms(2)] new_retry_queue_inv [OF assms(1)] by (auto simp: rq_inv_def)

definition demo_rq :: EventBusRetryQueue where
  "demo_rq = \<lparr>rq_events = [], rq_bytes = 0, rq_dropped = 0, rq_phase = Idle, rq_flushingEntry = None,
     rq_enabled = True, rq_maxSize = 1, rq_maxBytes = 1000\<rparr>"

definition demo_rq_options :: EventBusRetryQueueOptions where
  "demo_rq_options = \<lparr>rqo_enabled = None, rqo_maxSize = Some (jint 1), rqo_maxBytes = Some (jint 1000)\<rparr>"

lemma demo_rq_new: "newEventBusRetryQueue demo_rq_options = Inr demo_rq"
  by (simp add: newEventBusRetryQueue_def demo_rq_options_def demo_rq_def not_false_def MAX_SAFE_INTEGER_def)

definition demo_rq_events :: "rq_event list" where
  "demo_rq_events = [RQEnqueue 0 demo_event, RQFlush, RQEnqueue 1 demo_event, RQPublished False, RQFlushed]"

theorem retry_queue_run_witness:
  "rq_legal_run demo_event_env demo_rq_events demo_rq
   \<and> rq_bytes (rq_run demo_event_env demo_rq_events demo_rq) \<le> rq_maxBytes (rq_run demo_event_env demo_rq_events demo_rq)"
proof -
  have l: "rq_legal_run demo_event_env demo_rq_events demo_rq" by code_simp
  then show ?thesis using retry_queue_run [OF demo_rq_new l] by blast
qed

text \<open>
  The backlog can exceed \<open>maxSize\<close>: after an event is offered while another is being published and
  that publication fails, a queue with \<open>maxSize\<close> 1 holds two waiting events with no publication active.
\<close>

theorem retry_backlog_excess:
  "newEventBusRetryQueue demo_rq_options = Inr demo_rq \<and> rq_maxSize demo_rq = 1
   \<and> waitingSize (rq_run demo_event_env demo_rq_events demo_rq) = 2
   \<and> rq_flushingEntry (rq_run demo_event_env demo_rq_events demo_rq) = None"
proof -
  have "rq_maxSize demo_rq = 1" "waitingSize (rq_run demo_event_env demo_rq_events demo_rq) = 2"
    "rq_flushingEntry (rq_run demo_event_env demo_rq_events demo_rq) = None" by code_simp+
  then show ?thesis using demo_rq_new by simp
qed

end
