(* ===== verification/Cache_Options.thy ===== *)
theory Cache_Options
  imports Event_Codec Load_Gates
begin

text \<open>
  Keys and options of the cache (\<open>types/core.types.ts\<close>, \<open>cache/defaults.ts\<close>) and the validation every
  public operation runs on the options it is given (\<open>validateCacheBudgets\<close> of \<open>cache/hybridCache.ts\<close>).
  An absent option is \<open>None\<close>; a number stays a JavaScript number until it has been checked.
\<close>

section \<open>Keys\<close>

datatype CacheKey = StringKey jsstr | NumberKey jsnum

text \<open>\<open>String(key)\<close>.\<close>

fun key_text :: "'x event_env_scheme \<Rightarrow> CacheKey \<Rightarrow> jsstr" where
  "key_text E (StringKey s) = s"
| "key_text E (NumberKey n) = number_text E n"

text \<open>The sum of two numbers, as \<open>Date.now() + ttlMs\<close> forms it.\<close>

fun jadd :: "jsnum \<Rightarrow> jsnum \<Rightarrow> jsnum" where
  "jadd (JNum a) (JNum b) = to_num (a + b)"
| "jadd JNaN _ = JNaN"
| "jadd _ JNaN = JNaN"
| "jadd JInf JNegInf = JNaN"
| "jadd JNegInf JInf = JNaN"
| "jadd JInf _ = JInf"
| "jadd _ JInf = JInf"
| "jadd JNegInf _ = JNegInf"
| "jadd _ JNegInf = JNegInf"

definition jmax :: "jsnum \<Rightarrow> jsnum \<Rightarrow> jsnum" where
  "jmax a b = (if a = JNaN \<or> b = JNaN then JNaN else if jless a b then b else a)"

definition jmin :: "jsnum \<Rightarrow> jsnum \<Rightarrow> jsnum" where
  "jmin a b = (if a = JNaN \<or> b = JNaN then JNaN else if jless b a then b else a)"

section \<open>Options\<close>

text \<open>\<open>autoEvict\<close> is the optional object whose field \<open>enabled\<close> is optional.\<close>

record CacheLevelOptions =
  lo_maxEntries :: "jsnum option"
  lo_ttlMs :: "jsnum option"
  lo_maxMemory :: "MemoryLimit option"
  lo_minMemory :: "MemoryLimit option"
  lo_autoEvict :: "bool option option"
  lo_admission_enabled :: "bool option"
  lo_maxEntryBytes :: "jsnum option"
  lo_codec :: "SerializeOptions option"

record InflightOptions =
  io_enabled :: "bool option"
  io_ttlMs :: "jsnum option"
  io_maxEntries :: "jsnum option"
  io_maxWaiters :: "jsnum option"

record OriginLoadSwitch = OriginLoadOptions +
  olo_enabled :: "bool option"

record NegativeCacheOptions =
  no_enabled :: "bool option"
  no_ttlMs :: "jsnum option"
  no_maxEntries :: "jsnum option"

record FailSafeOptions =
  fo_enabled :: "bool option"
  fo_staleTtlMs :: "jsnum option"
  fo_maxEntries :: "jsnum option"
  fo_maxBytes :: "jsnum option"

record TimeoutOptions =
  to_softMs :: "jsnum option"
  to_hardMs :: "jsnum option"

datatype on_timeout = TimeoutThrow | TimeoutLoad

record DistributedLockOptions =
  dl_enabled :: "bool option"
  dl_ttlMs :: "jsnum option"
  dl_waitTimeoutMs :: "jsnum option"
  dl_pollMs :: "jsnum option"
  dl_onTimeout :: "on_timeout option"

record CacheOptions =
  co_decodeLimits :: DecodeLimits
  co_ttlMs :: "jsnum option"
  co_L1 :: CacheLevelOptions
  co_L2 :: CacheLevelOptions
  co_inflight :: InflightOptions
  co_originLoad :: OriginLoadSwitch
  co_negativeCache :: NegativeCacheOptions
  co_failSafe :: FailSafeOptions
  co_timeouts :: TimeoutOptions
  co_versioning :: "bool option"
  co_distributedLock :: DistributedLockOptions

text \<open>
  A group that is absent and a group whose fields are all absent read the same everywhere, so groups
  are not optional themselves. \<open>no_cache_options\<close> is the default argument \<open>{}\<close>.
\<close>

definition no_level :: CacheLevelOptions where
  "no_level = \<lparr>lo_maxEntries = None, lo_ttlMs = None, lo_maxMemory = None, lo_minMemory = None,
     lo_autoEvict = None, lo_admission_enabled = None, lo_maxEntryBytes = None, lo_codec = None\<rparr>"

definition no_cache_options :: CacheOptions where
  "no_cache_options = \<lparr>co_decodeLimits = no_limits, co_ttlMs = None, co_L1 = no_level, co_L2 = no_level,
     co_inflight = \<lparr>io_enabled = None, io_ttlMs = None, io_maxEntries = None, io_maxWaiters = None\<rparr>,
     co_originLoad = \<lparr>olo_maxConcurrent = None, olo_maxQueued = None, olo_queueTimeoutMs = None, olo_enabled = None\<rparr>,
     co_negativeCache = \<lparr>no_enabled = None, no_ttlMs = None, no_maxEntries = None\<rparr>,
     co_failSafe = \<lparr>fo_enabled = None, fo_staleTtlMs = None, fo_maxEntries = None, fo_maxBytes = None\<rparr>,
     co_timeouts = \<lparr>to_softMs = None, to_hardMs = None\<rparr>, co_versioning = None,
     co_distributedLock = \<lparr>dl_enabled = None, dl_ttlMs = None, dl_waitTimeoutMs = None, dl_pollMs = None, dl_onTimeout = None\<rparr>\<rparr>"

text \<open>\<open>options.x ?? this.options.x ?? default\<close>.\<close>

definition pick :: "('o \<Rightarrow> 'a option) \<Rightarrow> 'o \<Rightarrow> 'o \<Rightarrow> 'a \<Rightarrow> 'a" where
  "pick f opts own d = nullish (f opts) (nullish (f own) d)"

text \<open>\<open>options.x?.enabled !== false && this.options.x?.enabled !== false\<close>.\<close>

definition both_on :: "('o \<Rightarrow> bool option) \<Rightarrow> 'o \<Rightarrow> 'o \<Rightarrow> bool" where
  "both_on f opts own \<longleftrightarrow> not_false (f opts) \<and> not_false (f own)"

section \<open>Defaults\<close>

definition DEFAULT_CACHE_TTL_MS :: int where "DEFAULT_CACHE_TTL_MS = 60 * 60 * 1000"
definition DEFAULT_L1_MAX_ENTRIES :: int where "DEFAULT_L1_MAX_ENTRIES = 1000"
definition DEFAULT_INFLIGHT_TTL_MS :: int where "DEFAULT_INFLIGHT_TTL_MS = 5000"
definition DEFAULT_INFLIGHT_MAX_ENTRIES :: int where "DEFAULT_INFLIGHT_MAX_ENTRIES = 1024"
definition DEFAULT_STALE_TTL_MS :: int where "DEFAULT_STALE_TTL_MS = 30 * 1000"
definition DEFAULT_NEGATIVE_TTL_MS :: int where "DEFAULT_NEGATIVE_TTL_MS = 10 * 1000"
definition DEFAULT_NEGATIVE_MAX_ENTRIES :: int where "DEFAULT_NEGATIVE_MAX_ENTRIES = 10000"
definition DEFAULT_LOADER_HARD_TIMEOUT_MS :: int where "DEFAULT_LOADER_HARD_TIMEOUT_MS = 10 * 1000"
definition DEFAULT_LOCK_TTL_MS :: int where "DEFAULT_LOCK_TTL_MS = 10000"
definition DEFAULT_LOCK_POLL_MS :: int where "DEFAULT_LOCK_POLL_MS = 50"

section \<open>Validation\<close>

definition assertBudget :: "string \<Rightarrow> jsnum option \<Rightarrow> bool \<Rightarrow> jsnum \<Rightarrow> js_error option" where
  "assertBudget name v integer mx = (case v of None \<Rightarrow> None
     | Some n \<Rightarrow> if \<not> isFinite n \<or> jless n (jint 0) \<or> jless mx n \<or> (integer \<and> \<not> isSafeInteger n)
         then Some (RangeError (name @ '' budget must be non-negative and finite''
                @ (if integer then '' (a safe integer)'' else '''')))
         else None)"

text \<open>The first check that fails is the error that is thrown.\<close>

fun first_error :: "js_error option list \<Rightarrow> js_error option" where
  "first_error [] = None"
| "first_error (Some e # _) = Some e"
| "first_error (None # es) = first_error es"

definition max_safe :: jsnum where
  "max_safe = jint MAX_SAFE_INTEGER"

definition max_timer :: jsnum where
  "max_timer = jint (2 ^ 31 - 1)"

definition validateCacheBudgets :: "'x CacheOptions_scheme \<Rightarrow> js_error option" where
  "validateCacheBudgets options = first_error
     [case co_ttlMs options of Some t \<Rightarrow> if \<not> isFinite t \<or> jle t (jint 0) then Some (RangeError ''ttlMs must be positive and finite'') else None
        | None \<Rightarrow> None,
      assertBudget ''inflight.maxEntries'' (io_maxEntries (co_inflight options)) True max_safe,
      assertBudget ''inflight.maxWaiters'' (io_maxWaiters (co_inflight options)) True max_safe,
      assertBudget ''inflight.ttlMs'' (io_ttlMs (co_inflight options)) False max_safe,
      assertBudget ''negativeCache.maxEntries'' (no_maxEntries (co_negativeCache options)) True max_safe,
      assertBudget ''negativeCache.ttlMs'' (no_ttlMs (co_negativeCache options)) False max_safe,
      assertBudget ''failSafe.maxEntries'' (fo_maxEntries (co_failSafe options)) True max_safe,
      assertBudget ''failSafe.maxBytes'' (fo_maxBytes (co_failSafe options)) True max_safe,
      assertBudget ''failSafe.staleTtlMs'' (fo_staleTtlMs (co_failSafe options)) False max_safe,
      assertBudget ''timeouts.softMs'' (to_softMs (co_timeouts options)) False max_timer,
      assertBudget ''timeouts.hardMs'' (to_hardMs (co_timeouts options)) False max_timer,
      assertBudget ''originLoad.maxConcurrent'' (olo_maxConcurrent (co_originLoad options)) True max_safe,
      if olo_maxConcurrent (co_originLoad options) = Some (jint 0)
        then Some (RangeError ''originLoad.maxConcurrent must be a positive safe integer'') else None,
      assertBudget ''originLoad.maxQueued'' (olo_maxQueued (co_originLoad options)) True max_safe,
      assertBudget ''originLoad.queueTimeoutMs'' (olo_queueTimeoutMs (co_originLoad options)) True max_timer]"

lemma first_error_None: "first_error es = None \<longleftrightarrow> (\<forall>e \<in> set es. e = None)"
  by (induction es rule: first_error.induct) auto

lemma assertBudget_finite:
  "assertBudget n (Some v) i m = None \<Longrightarrow> isFinite v \<and> \<not> jless v (jint 0)"
  by (auto simp: assertBudget_def split: if_splits)

lemma assertBudget_safe:
  assumes "assertBudget n v True m = None" and "v = Some x"
  obtains k where "x = jint k" and "0 \<le> k"
  using assms by (auto simp: assertBudget_def split: if_splits elim!: isSafeInteger_cases)

lemma validated:
  assumes "validateCacheBudgets options = None"
  shows "assertBudget ''failSafe.maxEntries'' (fo_maxEntries (co_failSafe options)) True max_safe = None"
    and "assertBudget ''failSafe.maxBytes'' (fo_maxBytes (co_failSafe options)) True max_safe = None"
    and "assertBudget ''negativeCache.maxEntries'' (no_maxEntries (co_negativeCache options)) True max_safe = None"
    and "assertBudget ''inflight.maxEntries'' (io_maxEntries (co_inflight options)) True max_safe = None"
    and "assertBudget ''inflight.maxWaiters'' (io_maxWaiters (co_inflight options)) True max_safe = None"
  using assms unfolding validateCacheBudgets_def first_error_None by simp_all

end
