(* ===== verification/Memory_Store.thy ===== *)
theory Memory_Store
  imports Cache_Options Pattern "HOL-Library.Multiset"
begin

unbundle bit_operations_syntax

text \<open>
  The in-process tier (\<open>cache/memoryStore.ts\<close>): encoded entries in an LRU with byte accounting against
  the shared budget, an admission filter on access frequencies, and expiry. The \<open>lru-cache\<close> package is
  a parameter: the record \<open>lru\<close> holds the calls the store makes, each with the entries it passes to
  the \<open>dispose\<close> callback, and \<open>lru_laws\<close> states the documented behaviour the proofs rely on.
\<close>

section \<open>The LRU package\<close>

record Entry =
  en_buffer :: bytes
  en_bytes :: int
  en_originalBytes :: "jsnum option"

record 'c lru =
  lru_new :: "int \<Rightarrow> 'c"
  lru_peek :: "int \<Rightarrow> CacheKey \<Rightarrow> 'c \<Rightarrow> Entry option"
  lru_get :: "int \<Rightarrow> CacheKey \<Rightarrow> 'c \<Rightarrow> Entry option \<times> 'c \<times> Entry list"
  lru_set :: "int \<Rightarrow> CacheKey \<Rightarrow> Entry \<Rightarrow> jsnum \<Rightarrow> 'c \<Rightarrow> 'c \<times> Entry list"
  lru_delete :: "CacheKey \<Rightarrow> 'c \<Rightarrow> 'c \<times> Entry list"
  lru_pop :: "'c \<Rightarrow> Entry option \<times> 'c \<times> Entry list"
  lru_has :: "int \<Rightarrow> CacheKey \<Rightarrow> 'c \<Rightarrow> bool"
  lru_size :: "'c \<Rightarrow> nat"
  lru_keys :: "int \<Rightarrow> 'c \<Rightarrow> CacheKey list"
  lru_rentries :: "'c \<Rightarrow> (CacheKey \<times> Entry) list"
  lru_remainingTTL :: "int \<Rightarrow> CacheKey \<Rightarrow> 'c \<Rightarrow> jsnum"
  lru_purgeStale :: "int \<Rightarrow> 'c \<Rightarrow> 'c \<times> Entry list"
  lru_clear :: "'c \<Rightarrow> 'c \<times> Entry list"

section \<open>State\<close>

definition ENTRY_OVERHEAD :: int where "ENTRY_OVERHEAD = 160"
definition HISTORY_BYTES :: nat where "HISTORY_BYTES = 4096"
definition MAX_EVICTIONS_PER_WRITE :: nat where "MAX_EVICTIONS_PER_WRITE = 16"

record 'c MemoryStore =
  ms_cache :: "'c option"
  ms_maxEntries :: int
  ms_decodeLimits :: DecodeLimits
  ms_history :: "byte list option"
  ms_decayCursor :: nat
  ms_accesses :: nat
  ms_bytes :: int
  ms_rejected :: nat
  ms_admitted :: nat
  ms_closed :: bool
  ms_client :: nat
  ms_registered :: bool
  ms_options :: CacheOptions

text \<open>The budget is shared with other stores, so every operation works on the pair of both.\<close>

type_synonym 'c mstate = "MemoryBudget \<times> 'c MemoryStore"

definition fresh :: jsstr where "fresh = js ''fresh''"
definition metadata :: jsstr where "metadata = js ''metadata''"

text \<open>\<open>ttl(options)\<close>: the first that is set, in the order call L1, call, store L1, store.\<close>

definition ms_ttl :: "CacheOptions \<Rightarrow> CacheOptions \<Rightarrow> js_error + jsnum" where
  "ms_ttl options own = (let t = nullish (lo_ttlMs (co_L1 options)) (nullish (co_ttlMs options)
        (nullish (lo_ttlMs (co_L1 own)) (nullish (co_ttlMs own) (jint DEFAULT_CACHE_TTL_MS)))) in
     if \<not> isFinite t \<or> jle t (jint 0) then Inl (RangeError ''L1 ttlMs must be positive and finite'') else Inr t)"

definition codecOptions :: "CacheOptions \<Rightarrow> CacheOptions \<Rightarrow> SerializeOptions" where
  "codecOptions options own = nullish (lo_codec (co_L1 options)) (nullish (lo_codec (co_L1 own)) default_options)"

text \<open>
  The budget the store uses: the one it is given, or the process default, which an L1 memory option
  configures.
\<close>

definition ms_budget_options :: "CacheOptions \<Rightarrow> MemoryBudgetOptions option" where
  "ms_budget_options options = (let l1 = co_L1 options in
     if lo_maxMemory l1 \<noteq> None \<or> lo_minMemory l1 \<noteq> None \<or> lo_autoEvict l1 \<noteq> None
     then Some \<lparr>mbo_maxMemory = nullish (lo_maxMemory l1) (LimitString (js ''20%'')), mbo_minMemory = lo_minMemory l1,
       mbo_sampleIntervalMs = (if lo_autoEvict l1 = Some (Some False) then Some (jint 0) else None),
       mbo_pressureWindowMs = None, mbo_recoveryWindowMs = None\<rparr>
     else None)"

definition ms_budget_for ::
  "MemoryBudget option \<Rightarrow> CacheOptions \<Rightarrow> MemorySignals \<Rightarrow> MemoryBudget option \<Rightarrow> js_error + MemoryBudget" where
  "ms_budget_for given options signals cur = (case given of Some b \<Rightarrow> Inr b
     | None \<Rightarrow> getDefaultMemoryBudget (ms_budget_options options) signals cur)"

definition newMemoryStore :: "'c lru \<Rightarrow> CacheOptions \<Rightarrow> nat \<Rightarrow> MemoryBudget \<Rightarrow> js_error + 'c mstate" where
  "newMemoryStore L options client b =
     (case resolveDecodeLimits (co_decodeLimits options) of Inl e \<Rightarrow> Inl e
      | Inr _ \<Rightarrow>
        let mx = nullish (lo_maxEntries (co_L1 options)) (jint DEFAULT_L1_MAX_ENTRIES) in
        if \<not> isSafeInteger mx \<or> jless mx (jint 1) then Inl (RangeError ''L1 maxEntries must be a positive safe integer'')
        else if (case lo_maxEntryBytes (co_L1 options) of None \<Rightarrow> False
            | Some n \<Rightarrow> \<not> isSafeInteger n \<or> jless n (jint 1))
        then Inl (RangeError ''L1 admission.maxEntryBytes must be a positive safe integer'')
        else case ms_ttl no_cache_options options of Inl e \<Rightarrow> Inl e
        | Inr _ \<Rightarrow>
          let r = tryReserve (jint (int HISTORY_BYTES)) metadata b in
          Inr (mb_register client (snd r),
            \<lparr>ms_cache = Some (lru_new L (num_int mx)), ms_maxEntries = num_int mx,
             ms_decodeLimits = co_decodeLimits options,
             ms_history = (if fst r then Some (replicate HISTORY_BYTES 0) else None), ms_decayCursor = 0,
             ms_accesses = 0, ms_bytes = 0, ms_rejected = 0, ms_admitted = 0, ms_closed = False,
             ms_client = client, ms_registered = True, ms_options = options\<rparr>))"

section \<open>Entries leaving the LRU\<close>

text \<open>The \<open>dispose\<close> callback, once per entry that leaves.\<close>

definition ms_dispose1 :: "Entry \<Rightarrow> 'c mstate \<Rightarrow> 'c mstate" where
  "ms_dispose1 entry s = (release (jint (en_bytes entry)) fresh (fst s),
     (snd s)\<lparr>ms_bytes := ms_bytes (snd s) - en_bytes entry\<rparr>)"

definition ms_dispose :: "Entry list \<Rightarrow> 'c mstate \<Rightarrow> 'c mstate" where
  "ms_dispose ds s = fold ms_dispose1 ds s"

definition ms_after :: "'c \<times> Entry list \<Rightarrow> 'c mstate \<Rightarrow> 'c mstate" where
  "ms_after r s = ms_dispose (snd r) (fst s, (snd s)\<lparr>ms_cache := Some (fst r)\<rparr>)"

definition ms_delete :: "'c lru \<Rightarrow> CacheKey \<Rightarrow> 'c mstate \<Rightarrow> 'c mstate" where
  "ms_delete L key s = (case ms_cache (snd s) of None \<Rightarrow> s | Some c \<Rightarrow> ms_after (lru_delete L key c) s)"

definition reject :: "'c mstate \<Rightarrow> 'c mstate" where
  "reject s = (fst s, (snd s)\<lparr>ms_rejected := ms_rejected (snd s) + 1\<rparr>)"

section \<open>Access history\<close>

text \<open>\<open>Math.imul\<close> and \<open>>>>\<close> on 32-bit words.\<close>

fun hash_units :: "jsstr \<Rightarrow> 32 word \<Rightarrow> 32 word" where
  "hash_units [] h = h"
| "hash_units (c # cs) h = hash_units cs ((h XOR ucast c) * 16777619)"

definition ms_hash :: "'x event_env_scheme \<Rightarrow> CacheKey \<Rightarrow> nat" where
  "ms_hash E key = unat (hash_units (key_text E key)
     (case key of NumberKey _ \<Rightarrow> 2166136260 | StringKey _ \<Rightarrow> 2166136261)) mod HISTORY_BYTES"

fun decay :: "nat \<Rightarrow> nat \<Rightarrow> byte list \<Rightarrow> nat \<times> byte list" where
  "decay 0 cursor h = (cursor, h)"
| "decay (Suc n) cursor h = (let i = cursor mod HISTORY_BYTES in decay n (cursor + 1) (h[i := drop_bit 1 (h ! i)]))"

definition ms_record :: "'x event_env_scheme \<Rightarrow> CacheKey \<Rightarrow> 'c MemoryStore \<Rightarrow> 'c MemoryStore" where
  "ms_record E key m = (case ms_history m of None \<Rightarrow> m
     | Some h \<Rightarrow>
         let n = ms_accesses m + 1;
             d = (if n mod 8 = 0 then decay 8 (ms_decayCursor m) h else (ms_decayCursor m, h));
             i = ms_hash E key;
             v = snd d ! i in
         m\<lparr>ms_accesses := n, ms_decayCursor := fst d,
           ms_history := Some ((snd d)[i := (if v = 255 then 255 else v + 1)])\<rparr>)"

text \<open>\<open>Math.max(1, history[hash]) / bytes\<close>.\<close>

definition density :: "'x event_env_scheme \<Rightarrow> byte list \<Rightarrow> CacheKey \<Rightarrow> int \<Rightarrow> real" where
  "density E h key bytes = fl (real (max 1 (unat (h ! ms_hash E key))) / of_int bytes)"

text \<open>At most eight victims are looked at, least recently used first; an expired one is enough.\<close>

fun worth_sample :: "'x event_env_scheme \<Rightarrow> 'c lru \<Rightarrow> int \<Rightarrow> 'c \<Rightarrow> byte list \<Rightarrow> real \<Rightarrow> nat \<Rightarrow> (CacheKey \<times> Entry) list \<Rightarrow> bool" where
  "worth_sample E L now c h candidate sampled [] = (sampled = 0)"
| "worth_sample E L now c h candidate sampled ((victim, entry) # rest) =
     (if jle (lru_remainingTTL L now victim c) (jint 0) then True
      else if density E h victim (en_bytes entry) \<le> candidate then True
      else if sampled + 1 = 8 then False
      else worth_sample E L now c h candidate (sampled + 1) rest)"

definition worthAdmitting :: "'x event_env_scheme \<Rightarrow> 'c lru \<Rightarrow> int \<Rightarrow> CacheKey \<Rightarrow> int \<Rightarrow> 'c MemoryStore \<Rightarrow> bool" where
  "worthAdmitting E L now key bytes m = (case (ms_history m, ms_cache m) of
     (Some h, Some c) \<Rightarrow> worth_sample E L now c h (density E h key bytes) 0 (lru_rentries L c)
   | _ \<Rightarrow> False)"

section \<open>Operations\<close>

text \<open>The bounded eviction loop of a write: pop and try to reserve again.\<close>

fun ms_makeRoom :: "'c lru \<Rightarrow> nat \<Rightarrow> int \<Rightarrow> 'c mstate \<Rightarrow> bool \<times> 'c mstate" where
  "ms_makeRoom L 0 bytes s = (False, s)"
| "ms_makeRoom L (Suc n) bytes s = (case ms_cache (snd s) of None \<Rightarrow> (False, s)
     | Some c \<Rightarrow> (case lru_pop L c of
           (None, r) \<Rightarrow> (False, ms_after r s)
         | (Some _, r) \<Rightarrow>
             let s1 = ms_after r s; t = tryReserve (jint bytes) fresh (fst s1) in
             if fst t then (True, (snd t, snd s1)) else ms_makeRoom L n bytes (snd t, snd s1)))"

definition ms_reserve :: "'c lru \<Rightarrow> int \<Rightarrow> 'c mstate \<Rightarrow> bool \<times> 'c mstate" where
  "ms_reserve L bytes s = (let t = tryReserve (jint bytes) fresh (fst s) in
     if fst t then (True, (snd t, snd s)) else ms_makeRoom L MAX_EVICTIONS_PER_WRITE bytes (snd t, snd s))"

definition entry_size :: "'x event_env_scheme \<Rightarrow> CacheKey \<Rightarrow> bytes \<Rightarrow> int" where
  "entry_size E key buffer = int (length buffer) + int (byteLength (key_text E key)) * 2 + ENTRY_OVERHEAD"

definition max_entry :: "'c mstate \<Rightarrow> jsnum" where
  "max_entry s = nullish (lo_maxEntryBytes (co_L1 (ms_options (snd s))))
     (jint (min (16 * 1024 * 1024) (max 1 (mb_hardCap (fst s) div 4))))"

definition safe_original :: "jsnum option \<Rightarrow> jsnum option" where
  "safe_original n = (case n of Some x \<Rightarrow> if isSafeInteger x \<and> jless (jint 0) x then Some x else None | None \<Rightarrow> None)"

text \<open>The commit of a write: the reserved bytes become the new entry's.\<close>

definition ms_commit :: "'c lru \<Rightarrow> int \<Rightarrow> CacheKey \<Rightarrow> Entry \<Rightarrow> jsnum \<Rightarrow> 'c \<Rightarrow> 'c mstate \<Rightarrow> 'c mstate" where
  "ms_commit L now key entry ttl c s = (let s2 = ms_after (lru_set L now key entry ttl c) s in
     (fst s2, (snd s2)\<lparr>ms_bytes := ms_bytes (snd s2) + en_bytes entry, ms_admitted := ms_admitted (snd s2) + 1\<rparr>))"

definition ms_setEncoded :: "'x event_env_scheme \<Rightarrow> 'c lru \<Rightarrow> int \<Rightarrow> CacheKey \<Rightarrow> bytes \<Rightarrow> CacheOptions \<Rightarrow> jsnum option
    \<Rightarrow> 'c mstate \<Rightarrow> (js_error + unit) \<times> 'c mstate" where
  "ms_setEncoded E L now key buffer options originalBytes s = (case ms_cache (snd s) of None \<Rightarrow> (Inr (), s)
     | Some c \<Rightarrow> (case ms_ttl options (ms_options (snd s)) of Inl e \<Rightarrow> (Inl e, s)
       | Inr ttl \<Rightarrow>
         let bytes = entry_size E key buffer;
             prior = lru_peek L now key c in
         if jless (max_entry s) (jint bytes) \<or> mb_target (fst s) < bytes \<or> mb_state (fst s) \<noteq> Normal
         then (Inr (), reject (ms_delete L key s))
         else if prior = None
             \<and> (mb_target (fst s) < mb_used (fst s) + bytes \<or> ms_maxEntries (snd s) \<le> int (lru_size L c))
             \<and> not_false (lo_admission_enabled (co_L1 (ms_options (snd s))))
             \<and> \<not> worthAdmitting E L now key bytes (snd s)
         then (Inr (), reject s)
         else
           let r = ms_reserve L bytes (ms_delete L key s); s1 = snd r in
           if \<not> fst r then (Inr (), reject s1)
           else case ms_cache (snd s1) of None \<Rightarrow> (Inr (), s1)
           | Some c1 \<Rightarrow>
             (Inr (), ms_commit L now key \<lparr>en_buffer = buffer, en_bytes = bytes,
                en_originalBytes = safe_original originalBytes\<rparr> ttl c1 s1)))"

text \<open>\<open>set\<close> of a value; a value that cannot be encoded leaves nothing behind.\<close>

definition ms_set :: "'x event_env_scheme \<Rightarrow> 'c lru \<Rightarrow> int \<Rightarrow> CacheKey \<Rightarrow> jsval \<Rightarrow> CacheOptions
    \<Rightarrow> 'c mstate \<Rightarrow> (js_error + unit) \<times> 'c mstate" where
  "ms_set E L now key v options s = (if ms_closed (snd s) then (Inr (), s)
     else case ms_ttl options (ms_options (snd s)) of Inl e \<Rightarrow> (Inl e, s)
     | Inr _ \<Rightarrow>
       if v = VUndefined then (Inr (), ms_delete L key s)
       else case serializeWithStats E v (codecOptions options (ms_options (snd s))) of
         Inl _ \<Rightarrow> (Inr (), reject (ms_delete L key s))
       | Inr enc \<Rightarrow> ms_setEncoded E L now key (sv_buffer enc) options (Some (jint (int (sv_originalBytes enc)))) s)"

definition ms_lookup :: "'x event_env_scheme \<Rightarrow> 'c lru \<Rightarrow> int \<Rightarrow> CacheKey \<Rightarrow> 'c mstate \<Rightarrow> Entry option \<times> 'c mstate" where
  "ms_lookup E L now key s = (let s1 = (fst s, ms_record E key (snd s)) in
     case ms_cache (snd s1) of None \<Rightarrow> (None, s1)
     | Some c \<Rightarrow> (let r = lru_get L now key c in (fst r, ms_after (snd r) s1)))"

definition ms_get :: "'x event_env_scheme \<Rightarrow> 'c lru \<Rightarrow> int \<Rightarrow> CacheKey \<Rightarrow> 'c mstate \<Rightarrow> (js_error + jsval option) \<times> 'c mstate" where
  "ms_get E L now key s = (let r = ms_lookup E L now key s in
     case fst r of None \<Rightarrow> (Inr None, snd r)
     | Some entry \<Rightarrow> (case decodeCacheRecord E (en_buffer entry) (ms_decodeLimits (snd s)) of
           Inl e \<Rightarrow> (Inl e, snd r)
         | Inr Miss \<Rightarrow> (Inr None, ms_delete L key (snd r))
         | Inr (Hit v) \<Rightarrow> (Inr (Some v), snd r)))"

definition ms_getEncoded :: "'x event_env_scheme \<Rightarrow> 'c lru \<Rightarrow> int \<Rightarrow> CacheKey \<Rightarrow> 'c mstate
    \<Rightarrow> (bytes \<times> jsnum \<times> jsnum option) option \<times> 'c mstate" where
  "ms_getEncoded E L now key s = (let r = ms_lookup E L now key s in
     ((case (fst r, ms_cache (snd (snd r))) of
         (Some entry, Some c) \<Rightarrow> Some (en_buffer entry, lru_remainingTTL L now key c, en_originalBytes entry)
       | _ \<Rightarrow> None), snd r))"

text \<open>
  \<open>getOrSet\<close>: the loader runs while other operations may use the store, so it maps the state at the
  miss to its result and the state at its end.
\<close>

definition ms_getOrSet :: "'x event_env_scheme \<Rightarrow> 'c lru \<Rightarrow> int \<Rightarrow> CacheKey \<Rightarrow> ('c mstate \<Rightarrow> (js_error + jsval) \<times> 'c mstate)
    \<Rightarrow> int \<Rightarrow> CacheOptions \<Rightarrow> 'c mstate \<Rightarrow> (js_error + jsval) \<times> 'c mstate" where
  "ms_getOrSet E L now key loader later options s = (if ms_closed (snd s) then (Inr VUndefined, s)
     else let r = ms_get E L now key s in
     case fst r of Inl e \<Rightarrow> (Inl e, snd r)
     | Inr (Some v) \<Rightarrow> (Inr v, snd r)
     | Inr None \<Rightarrow>
         if ms_closed (snd (snd r)) then (Inr VUndefined, snd r)
         else let l = loader (snd r) in
         case fst l of Inl e \<Rightarrow> (Inl e, snd l)
         | Inr v \<Rightarrow> if v = VUndefined then (Inr v, snd l)
             else let w = ms_set E L later key v options (snd l) in
               (case fst w of Inl e \<Rightarrow> (Inl e, snd w) | Inr _ \<Rightarrow> (Inr v, snd w)))"

text \<open>\<open>has\<close> reclaims the one expired key it finds.\<close>

definition ms_has :: "'c lru \<Rightarrow> int \<Rightarrow> CacheKey \<Rightarrow> 'c mstate \<Rightarrow> bool \<times> 'c mstate" where
  "ms_has L now key s = (case ms_cache (snd s) of None \<Rightarrow> (False, s)
     | Some c \<Rightarrow> if lru_has L now key c then (True, s) else (False, ms_delete L key s))"

definition ms_deleteByPattern :: "'x event_env_scheme \<Rightarrow> 'c lru \<Rightarrow> int \<Rightarrow> jsstr \<Rightarrow> 'c mstate \<Rightarrow> 'c mstate" where
  "ms_deleteByPattern E L now pattern s = (case ms_cache (snd s) of None \<Rightarrow> s
     | Some c \<Rightarrow> fold (\<lambda>key. ms_delete L key)
         (filter (\<lambda>key. matchesPattern (key_text E key) pattern = Some True) (lru_keys L now c)) s)"

definition ms_clear :: "'c lru \<Rightarrow> 'c mstate \<Rightarrow> 'c mstate" where
  "ms_clear L s = (case ms_cache (snd s) of None \<Rightarrow> s | Some c \<Rightarrow> ms_after (lru_clear L c) s)"

definition ms_size :: "'c lru \<Rightarrow> int \<Rightarrow> 'c mstate \<Rightarrow> nat \<times> 'c mstate" where
  "ms_size L now s = (case ms_cache (snd s) of None \<Rightarrow> (0, s)
     | Some c \<Rightarrow> let r = lru_purgeStale L now c in (lru_size L (fst r), ms_after r s))"

text \<open>The client the store registers with the budget: \<open>() => this.cache?.pop() !== undefined\<close>.\<close>

definition ms_evictOne :: "'c lru \<Rightarrow> 'c mstate \<Rightarrow> bool \<times> 'c mstate" where
  "ms_evictOne L s = (case ms_cache (snd s) of None \<Rightarrow> (False, s)
     | Some c \<Rightarrow> let r = lru_pop L c in (fst r \<noteq> None, ms_after (snd r) s))"

definition ms_close :: "'c lru \<Rightarrow> 'c mstate \<Rightarrow> 'c mstate" where
  "ms_close L s = (if ms_closed (snd s) then s else
     let s2 = (case ms_cache (snd s) of None \<Rightarrow> s | Some c \<Rightarrow> ms_after (lru_clear L c) s);
         b3 = (if ms_history (snd s2) \<noteq> None then release (jint (int HISTORY_BYTES)) metadata (fst s2) else fst s2);
         u = mb_unregister (ms_registered (snd s2)) (ms_client (snd s2)) b3 in
     (snd u, (snd s2)\<lparr>ms_closed := True, ms_cache := None, ms_history := None, ms_registered := fst u\<rparr>))"


section \<open>What the LRU promises\<close>

text \<open>
  \<open>rd\<close> reads the resident entries, expired ones included. Every entry that leaves, by deletion,
  eviction, expiry or clearing, is handed to \<open>dispose\<close> once; a cache of \<open>maxSize\<close> unit-sized entries
  never holds more than that.
\<close>

definition leaves :: "('c \<Rightarrow> (CacheKey \<times> Entry) list) \<Rightarrow> 'c \<Rightarrow> (CacheKey \<times> Entry) list \<Rightarrow> 'c \<times> Entry list \<Rightarrow> bool" where
  "leaves rd c ev r \<longleftrightarrow> mset (rd c) = mset (rd (fst r)) + mset ev \<and> snd r = map snd ev"

definition lru_laws :: "'c lru \<Rightarrow> ('c \<Rightarrow> bool) \<Rightarrow> ('c \<Rightarrow> (CacheKey \<times> Entry) list) \<Rightarrow> int \<Rightarrow> bool" where
  "lru_laws L valid rd mx \<longleftrightarrow>
     valid (lru_new L mx) \<and> rd (lru_new L mx) = []
   \<and> (\<forall>c. valid c \<longrightarrow> distinct (map fst (rd c)) \<and> int (length (rd c)) \<le> mx \<and> lru_size L c = length (rd c))
   \<and> (\<forall>c key. valid c \<longrightarrow> valid (fst (lru_delete L key c))
        \<and> leaves rd c (filter (\<lambda>p. fst p = key) (rd c)) (lru_delete L key c))
   \<and> (\<forall>c. valid c \<longrightarrow> valid (fst (snd (lru_pop L c)))
        \<and> (case fst (lru_pop L c) of
            None \<Rightarrow> rd c = [] \<and> leaves rd c [] (snd (lru_pop L c))
          | Some e \<Rightarrow> (\<exists>key. leaves rd c [(key, e)] (snd (lru_pop L c)))))
   \<and> (\<forall>c now key e. valid c \<longrightarrow> lru_peek L now key c = Some e \<longrightarrow> (key, e) \<in> set (rd c))
   \<and> (\<forall>c now key. valid c \<longrightarrow> fst (lru_get L now key c) = lru_peek L now key c)
   \<and> (\<forall>c now key. valid c \<longrightarrow> valid (fst (snd (lru_get L now key c)))
        \<and> (case fst (lru_get L now key c) of
            None \<Rightarrow> (\<exists>ev. leaves rd c ev (snd (lru_get L now key c)))
          | Some e \<Rightarrow> (key, e) \<in> set (rd c) \<and> leaves rd c [] (snd (lru_get L now key c))))
   \<and> (\<forall>c now key e ttl. valid c \<longrightarrow> key \<notin> fst ` set (rd c) \<longrightarrow> valid (fst (lru_set L now key e ttl c))
        \<and> (key, e) \<in> set (rd (fst (lru_set L now key e ttl c)))
        \<and> (\<exists>ev. mset (rd c) + {#(key, e)#} = mset (rd (fst (lru_set L now key e ttl c))) + mset ev
             \<and> snd (lru_set L now key e ttl c) = map snd ev))
   \<and> (\<forall>c now. valid c \<longrightarrow> set (lru_keys L now c) \<subseteq> fst ` set (rd c))
   \<and> (\<forall>c now key. valid c \<longrightarrow> lru_has L now key c \<longrightarrow> key \<in> set (lru_keys L now c))
   \<and> (\<forall>c now. valid c \<longrightarrow> valid (fst (lru_purgeStale L now c)) \<and> (\<exists>ev. leaves rd c ev (lru_purgeStale L now c)))
   \<and> (\<forall>c. valid c \<longrightarrow> valid (fst (lru_clear L c)) \<and> rd (fst (lru_clear L c)) = []
        \<and> leaves rd c (rd c) (lru_clear L c))"

lemma lru_law:
  assumes "lru_laws L valid rd mx" and "valid c"
  shows law_distinct: "distinct (map fst (rd c))" and law_size: "int (length (rd c)) \<le> mx" "lru_size L c = length (rd c)"
    and law_delete: "valid (fst (lru_delete L key c))" "leaves rd c (filter (\<lambda>p. fst p = key) (rd c)) (lru_delete L key c)"
    and law_pop: "valid (fst (snd (lru_pop L c)))"
      "\<exists>ev. leaves rd c ev (snd (lru_pop L c)) \<and> (fst (lru_pop L c) \<noteq> None \<longrightarrow> ev \<noteq> [])"
    and law_peek: "lru_peek L now key c = Some e \<Longrightarrow> (key, e) \<in> set (rd c)"
    and law_get_peek: "fst (lru_get L now key c) = lru_peek L now key c"
    and law_get: "valid (fst (snd (lru_get L now key c)))" "\<exists>ev. leaves rd c ev (snd (lru_get L now key c))"
      "fst (lru_get L now key c) = Some e \<Longrightarrow> (key, e) \<in> set (rd c) \<and> leaves rd c [] (snd (lru_get L now key c))"
    and law_keys: "set (lru_keys L now c) \<subseteq> fst ` set (rd c)" "lru_has L now key c \<Longrightarrow> key \<in> set (lru_keys L now c)"
    and law_purge: "valid (fst (lru_purgeStale L now c))" "\<exists>ev. leaves rd c ev (lru_purgeStale L now c)"
    and law_clear: "valid (fst (lru_clear L c))" "rd (fst (lru_clear L c)) = []" "leaves rd c (rd c) (lru_clear L c)"
proof -
  have "valid (fst (snd (lru_get L now key c))) \<and> (case fst (lru_get L now key c) of
      None \<Rightarrow> (\<exists>ev. leaves rd c ev (snd (lru_get L now key c)))
    | Some e \<Rightarrow> (key, e) \<in> set (rd c) \<and> leaves rd c [] (snd (lru_get L now key c)))"
    using assms unfolding lru_laws_def by blast
  then show "valid (fst (snd (lru_get L now key c)))" "\<exists>ev. leaves rd c ev (snd (lru_get L now key c))"
    "fst (lru_get L now key c) = Some e \<Longrightarrow> (key, e) \<in> set (rd c) \<and> leaves rd c [] (snd (lru_get L now key c))"
    by (auto split: option.splits)
  have "valid (fst (snd (lru_pop L c))) \<and> (case fst (lru_pop L c) of
      None \<Rightarrow> rd c = [] \<and> leaves rd c [] (snd (lru_pop L c))
    | Some e \<Rightarrow> (\<exists>key. leaves rd c [(key, e)] (snd (lru_pop L c))))"
    using assms by (simp add: lru_laws_def)
  then show "valid (fst (snd (lru_pop L c)))"
    "\<exists>ev. leaves rd c ev (snd (lru_pop L c)) \<and> (fst (lru_pop L c) \<noteq> None \<longrightarrow> ev \<noteq> [])"
    by (auto split: option.splits)
qed (use assms in \<open>simp_all add: lru_laws_def\<close>)

lemma law_set:
  assumes "lru_laws L valid rd mx" and "valid c" and "key \<notin> fst ` set (rd c)"
  shows "valid (fst (lru_set L now key e ttl c))" and "(key, e) \<in> set (rd (fst (lru_set L now key e ttl c)))"
    and "\<exists>ev. mset (rd c) + {#(key, e)#} = mset (rd (fst (lru_set L now key e ttl c))) + mset ev
      \<and> snd (lru_set L now key e ttl c) = map snd ev"
  using assms by (simp_all add: lru_laws_def)

section \<open>Ledger of the store\<close>

text \<open>How a reservation and a release move one category, when the release gives back no more than is held.\<close>

lemma release_held:
  assumes "budget_ok b" and "0 \<le> n" and "n \<le> held b c"
  shows "held (release (jint n) c b) d = held b d - (if d = c then n else 0)"
  using assms by (auto simp: budget_ok_def release_amount held_def om_get_set)

lemma tryReserve_held:
  assumes "0 \<le> n"
  shows "held (snd (tryReserve (jint n) c b)) d = held b d + (if d = c \<and> fst (tryReserve (jint n) c b) then n else 0)"
  using assms by (auto simp: tryReserve_def held_def om_get_set Let_def)

lemma tryReserve_frame:
  "mb_target (snd (tryReserve x c b)) = mb_target b" "mb_hardCap (snd (tryReserve x c b)) = mb_hardCap b"
  "mb_state (snd (tryReserve x c b)) = mb_state b"
  by (simp_all add: tryReserve_def Let_def)

definition entries_bytes :: "(CacheKey \<times> Entry) list \<Rightarrow> int" where
  "entries_bytes xs = (\<Sum>p\<leftarrow>xs. en_bytes (snd p))"

lemma entries_bytes_mset: "entries_bytes xs = (\<Sum>p\<in>#mset xs. en_bytes (snd p))"
  by (simp add: entries_bytes_def flip: mset_map sum_mset_sum_list)

lemma entries_bytes_split: "mset xs = mset ys + mset zs \<Longrightarrow> entries_bytes xs = entries_bytes ys + entries_bytes zs"
  by (simp add: entries_bytes_mset)

lemma entries_bytes_simps [simp]:
  "entries_bytes [] = 0" "entries_bytes (p # xs) = en_bytes (snd p) + entries_bytes xs"
  by (simp_all add: entries_bytes_def)

lemma entries_bytes_nonneg: "\<forall>p \<in> set xs. 0 \<le> en_bytes (snd p) \<Longrightarrow> 0 \<le> entries_bytes xs"
  by (induction xs) auto

text \<open>
  The store's invariant: its byte count is the sum of its entries, each of which weighs its key, its
  buffer and the overhead; the budget holds at least these bytes and the history's; the history is
  4096 bytes long; a closed store holds nothing.
\<close>

definition entries_ok :: "'x event_env_scheme \<Rightarrow> (CacheKey \<times> Entry) list \<Rightarrow> bool" where
  "entries_ok E xs \<longleftrightarrow> (\<forall>p \<in> set xs. en_bytes (snd p) = entry_size E (fst p) (en_buffer (snd p)))"

definition history_bytes :: "'c MemoryStore \<Rightarrow> int" where
  "history_bytes m = (if ms_history m = None then 0 else int HISTORY_BYTES)"

definition resident :: "('c \<Rightarrow> (CacheKey \<times> Entry) list) \<Rightarrow> 'c MemoryStore \<Rightarrow> (CacheKey \<times> Entry) list" where
  "resident rd m = (case ms_cache m of None \<Rightarrow> [] | Some c \<Rightarrow> rd c)"

definition ms_inv :: "'x event_env_scheme \<Rightarrow> ('c \<Rightarrow> bool) \<Rightarrow> ('c \<Rightarrow> (CacheKey \<times> Entry) list) \<Rightarrow> 'c mstate \<Rightarrow> bool" where
  "ms_inv E valid rd s \<longleftrightarrow> budget_ok (fst s)
     \<and> ms_bytes (snd s) = entries_bytes (resident rd (snd s)) \<and> entries_ok E (resident rd (snd s))
     \<and> (\<forall>c. ms_cache (snd s) = Some c \<longrightarrow> valid c)
     \<and> (\<forall>h. ms_history (snd s) = Some h \<longrightarrow> length h = HISTORY_BYTES)
     \<and> ms_bytes (snd s) \<le> held (fst s) fresh \<and> history_bytes (snd s) \<le> held (fst s) metadata
     \<and> (ms_cache (snd s) = None \<longleftrightarrow> ms_closed (snd s)) \<and> (ms_closed (snd s) \<longrightarrow> ms_history (snd s) = None)"

text \<open>What the other users of the budget hold: every step of the store leaves it alone.\<close>

definition ms_others :: "'c mstate \<Rightarrow> jsstr \<Rightarrow> int" where
  "ms_others s c = held (fst s) c - (if c = fresh then ms_bytes (snd s) else 0)
     - (if c = metadata then history_bytes (snd s) else 0)"

definition ms_keeps :: "'x event_env_scheme \<Rightarrow> ('c \<Rightarrow> bool) \<Rightarrow> ('c \<Rightarrow> (CacheKey \<times> Entry) list) \<Rightarrow> 'c mstate \<Rightarrow> 'c mstate \<Rightarrow> bool" where
  "ms_keeps E valid rd s s' \<longleftrightarrow> (ms_inv E valid rd s \<longrightarrow> ms_inv E valid rd s' \<and> ms_others s' = ms_others s)"

lemma ms_keeps_refl [simp]: "ms_keeps E valid rd s s"
  by (simp add: ms_keeps_def)

lemma ms_keeps_trans: "ms_keeps E valid rd s t \<Longrightarrow> ms_keeps E valid rd t u \<Longrightarrow> ms_keeps E valid rd s u"
  by (simp add: ms_keeps_def)

lemma fresh_metadata [simp]: "fresh \<noteq> metadata" "metadata \<noteq> fresh"
  by (simp_all add: fresh_def metadata_def js_def)

lemma entry_size_pos: "160 \<le> entry_size E key buffer"
  by (simp add: entry_size_def ENTRY_OVERHEAD_def)

lemma entries_ok_nonneg: "entries_ok E xs \<Longrightarrow> \<forall>p \<in> set xs. 0 \<le> en_bytes (snd p)"
  using entry_size_pos by (fastforce simp: entries_ok_def intro: order_trans [of 0 160])

lemma entries_ok_mset: "mset xs = mset ys + mset zs \<Longrightarrow> entries_ok E xs \<longleftrightarrow> entries_ok E ys \<and> entries_ok E zs"
  unfolding entries_ok_def using mset_eq_setD [of xs "ys @ zs"] by auto

lemma ms_dispose_spec:
  assumes "budget_ok (fst s)" and "\<forall>p \<in> set ev. 0 \<le> en_bytes (snd p)" and "entries_bytes ev \<le> held (fst s) fresh"
  shows "budget_ok (fst (ms_dispose (map snd ev) s))
    \<and> (\<forall>c. held (fst (ms_dispose (map snd ev) s)) c = held (fst s) c - (if c = fresh then entries_bytes ev else 0))
    \<and> snd (ms_dispose (map snd ev) s) = (snd s)\<lparr>ms_bytes := ms_bytes (snd s) - entries_bytes ev\<rparr>"
  using assms
proof (induction ev arbitrary: s)
  case (Cons p ev)
  let ?s = "ms_dispose1 (snd p) s"
  have n: "0 \<le> en_bytes (snd p)" "en_bytes (snd p) \<le> held (fst s) fresh"
    using Cons.prems entries_bytes_nonneg [of ev] by auto
  have b: "budget_ok (fst ?s)" using Cons.prems by (simp add: ms_dispose1_def release_ok)
  have h: "held (fst ?s) c = held (fst s) c - (if c = fresh then en_bytes (snd p) else 0)" for c
    using release_held [OF Cons.prems(1) n] by (simp add: ms_dispose1_def)
  have "entries_bytes ev \<le> held (fst ?s) fresh" using Cons.prems h by simp
  moreover have "ms_dispose (map snd (p # ev)) s = ms_dispose (map snd ev) ?s" by (simp add: ms_dispose_def)
  moreover have "snd ?s = (snd s)\<lparr>ms_bytes := ms_bytes (snd s) - en_bytes (snd p)\<rparr>" by (simp add: ms_dispose1_def)
  ultimately show ?case using Cons.IH [OF b] Cons.prems by (simp add: h)
qed (simp add: ms_dispose_def)

text \<open>The common step of every operation that makes entries leave.\<close>

lemma ms_after_spec:
  assumes inv: "ms_inv E valid rd s" and c: "ms_cache (snd s) = Some c" and v: "valid (fst r)"
    and l: "leaves rd c ev r"
  shows "ms_inv E valid rd (ms_after r s) \<and> ms_others (ms_after r s) = ms_others s
    \<and> snd (ms_after r s) = (snd s)\<lparr>ms_cache := Some (fst r), ms_bytes := ms_bytes (snd s) - entries_bytes ev\<rparr>"
proof -
  have split: "mset (rd c) = mset (rd (fst r)) + mset ev" and d: "snd r = map snd ev"
    using l by (auto simp: leaves_def)
  have res: "resident rd (snd s) = rd c" by (simp add: resident_def c)
  have ok: "entries_ok E (rd (fst r))" "entries_ok E ev"
    using inv res entries_ok_mset [OF split] by (auto simp: ms_inv_def)
  have sum: "entries_bytes (rd c) = entries_bytes (rd (fst r)) + entries_bytes ev"
    by (rule entries_bytes_split [OF split])
  have le: "entries_bytes ev \<le> held (fst s) fresh"
    using inv res sum entries_bytes_nonneg [OF entries_ok_nonneg [OF ok(1)]] by (simp add: ms_inv_def)
  have b: "budget_ok (fst s)" using inv by (simp add: ms_inv_def)
  let ?s = "(fst s, (snd s)\<lparr>ms_cache := Some (fst r)\<rparr>)"
  have D: "budget_ok (fst (ms_after r s))"
    "\<And>c. held (fst (ms_after r s)) c = held (fst s) c - (if c = fresh then entries_bytes ev else 0)"
    "snd (ms_after r s) = (snd s)\<lparr>ms_cache := Some (fst r), ms_bytes := ms_bytes (snd s) - entries_bytes ev\<rparr>"
    using ms_dispose_spec [of ?s ev] b le entries_ok_nonneg [OF ok(2)] by (simp_all add: ms_after_def d)
  have "ms_inv E valid rd (ms_after r s)"
    using inv c res sum ok(1) v D unfolding ms_inv_def by (simp add: resident_def history_bytes_def)
  moreover have "ms_others (ms_after r s) = ms_others s"
    using D by (auto simp: ms_others_def fun_eq_iff history_bytes_def)
  ultimately show ?thesis using D(3) by blast
qed


section \<open>Every operation keeps the ledger\<close>

lemma ms_delete_spec:
  assumes "lru_laws L valid rd mx" and "ms_inv E valid rd s"
  shows "ms_inv E valid rd (ms_delete L key s)" and "ms_others (ms_delete L key s) = ms_others s"
    and "mset (resident rd (snd (ms_delete L key s))) = filter_mset (\<lambda>p. fst p \<noteq> key) (mset (resident rd (snd s)))"
    and "ms_cache (snd (ms_delete L key s)) = None \<longleftrightarrow> ms_cache (snd s) = None"
    and "ms_history (snd (ms_delete L key s)) = ms_history (snd s)"
    and "ms_options (snd (ms_delete L key s)) = ms_options (snd s)"
proof -
  have "ms_inv E valid rd (ms_delete L key s) \<and> ms_others (ms_delete L key s) = ms_others s
    \<and> mset (resident rd (snd (ms_delete L key s))) = filter_mset (\<lambda>p. fst p \<noteq> key) (mset (resident rd (snd s)))
    \<and> (ms_cache (snd (ms_delete L key s)) = None \<longleftrightarrow> ms_cache (snd s) = None)
    \<and> ms_history (snd (ms_delete L key s)) = ms_history (snd s)
    \<and> ms_options (snd (ms_delete L key s)) = ms_options (snd s)"
  proof (cases "ms_cache (snd s)")
    case (Some c)
    have v: "valid c" using assms(2) Some by (simp add: ms_inv_def)
    have l: "valid (fst (lru_delete L key c))"
      "leaves rd c (filter (\<lambda>p. fst p = key) (rd c)) (lru_delete L key c)"
      using law_delete [OF assms(1) v] by blast+
    have "mset (rd (fst (lru_delete L key c))) + filter_mset (\<lambda>p. fst p = key) (mset (rd c))
        = filter_mset (\<lambda>p. fst p \<noteq> key) (mset (rd c)) + filter_mset (\<lambda>p. fst p = key) (mset (rd c))"
      using l(2) multiset_partition [of "mset (rd c)" "\<lambda>p. fst p = key"]
      unfolding leaves_def mset_filter by (metis add.commute)
    then have "mset (rd (fst (lru_delete L key c))) = filter_mset (\<lambda>p. fst p \<noteq> key) (mset (rd c))"
      by (rule add_right_imp_eq)
    then show ?thesis using ms_after_spec [OF assms(2) Some l] Some by (simp add: ms_delete_def resident_def)
  qed (use assms(2) in \<open>simp add: ms_delete_def resident_def\<close>)
  then show "ms_inv E valid rd (ms_delete L key s)" "ms_others (ms_delete L key s) = ms_others s"
    "mset (resident rd (snd (ms_delete L key s))) = filter_mset (\<lambda>p. fst p \<noteq> key) (mset (resident rd (snd s)))"
    "ms_cache (snd (ms_delete L key s)) = None \<longleftrightarrow> ms_cache (snd s) = None"
    "ms_history (snd (ms_delete L key s)) = ms_history (snd s)"
    "ms_options (snd (ms_delete L key s)) = ms_options (snd s)" by blast+
qed

text \<open>Entries may only leave; the store's shape stays.\<close>

definition ms_drops :: "'x event_env_scheme \<Rightarrow> ('c \<Rightarrow> bool) \<Rightarrow> ('c \<Rightarrow> (CacheKey \<times> Entry) list) \<Rightarrow> 'c mstate \<Rightarrow> 'c mstate \<Rightarrow> bool" where
  "ms_drops E valid rd s s' \<longleftrightarrow> ms_inv E valid rd s' \<and> mset (resident rd (snd s')) \<subseteq># mset (resident rd (snd s))
     \<and> (ms_cache (snd s') = None \<longleftrightarrow> ms_cache (snd s) = None) \<and> ms_options (snd s') = ms_options (snd s)
     \<and> ms_maxEntries (snd s') = ms_maxEntries (snd s)"

lemma ms_drops_refl: "ms_inv E valid rd s \<Longrightarrow> ms_drops E valid rd s s"
  by (simp add: ms_drops_def)

lemma ms_drops_trans: "ms_drops E valid rd s t \<Longrightarrow> ms_drops E valid rd t u \<Longrightarrow> ms_drops E valid rd s u"
  by (auto simp: ms_drops_def intro: subset_mset.order_trans)

lemma after_drops:
  assumes "ms_inv E valid rd s" and "ms_cache (snd s) = Some c" and "valid (fst r)" and "leaves rd c ev r"
  shows "ms_drops E valid rd s (ms_after r s)" and "ms_others (ms_after r s) = ms_others s"
  using ms_after_spec [OF assms] assms(2,4) by (simp_all add: ms_drops_def resident_def leaves_def)

lemma delete_drops:
  assumes "lru_laws L valid rd mx" and "ms_inv E valid rd s"
  shows "ms_drops E valid rd s (ms_delete L key s)"
proof (cases "ms_cache (snd s)")
  case (Some c)
  then have v: "valid c" using assms(2) by (simp add: ms_inv_def)
  show ?thesis using after_drops(1) [OF assms(2) Some law_delete [OF assms(1) v]] Some by (simp add: ms_delete_def)
qed (use assms(2) in \<open>simp add: ms_delete_def ms_drops_refl\<close>)

lemma pop_drops:
  assumes laws: "lru_laws L valid rd mx" and inv: "ms_inv E valid rd s" and c: "ms_cache (snd s) = Some c"
  shows "ms_drops E valid rd s (ms_after (snd (lru_pop L c)) s)"
    and "ms_others (ms_after (snd (lru_pop L c)) s) = ms_others s"
    and "fst (lru_pop L c) \<noteq> None \<Longrightarrow> ms_bytes (snd (ms_after (snd (lru_pop L c)) s)) + 160 \<le> ms_bytes (snd s)"
proof -
  have v: "valid c" using inv c by (simp add: ms_inv_def)
  obtain ev where ev: "valid (fst (snd (lru_pop L c)))" "leaves rd c ev (snd (lru_pop L c))"
    "fst (lru_pop L c) \<noteq> None \<Longrightarrow> ev \<noteq> []"
    using law_pop [OF laws v] by blast
  show "ms_drops E valid rd s (ms_after (snd (lru_pop L c)) s)"
    "ms_others (ms_after (snd (lru_pop L c)) s) = ms_others s"
    using after_drops [OF inv c ev(1,2)] by blast+
  have "entries_ok E ev" using inv c ev(2) entries_ok_mset [of "rd c" "rd (fst (snd (lru_pop L c)))" ev E]
    by (simp add: ms_inv_def resident_def leaves_def)
  then have "160 \<le> entries_bytes ev" if "ev \<noteq> []"
    using that entry_size_pos [of E] entries_bytes_nonneg [of "tl ev"] entries_ok_nonneg [of E "tl ev"]
    by (cases ev) (auto simp: entries_ok_def intro: add_increasing2)
  then show "fst (lru_pop L c) \<noteq> None \<Longrightarrow> ms_bytes (snd (ms_after (snd (lru_pop L c)) s)) + 160 \<le> ms_bytes (snd s)"
    using ms_after_spec [OF inv c ev(1,2)] ev(3) by simp
qed

lemma reserve_step:
  assumes "ms_inv E valid rd s" and "0 \<le> n"
  shows "ms_drops E valid rd s (snd (tryReserve (jint n) fresh (fst s)), snd s)"
    and "ms_others (snd (tryReserve (jint n) fresh (fst s)), snd s) c
      = ms_others s c + (if fst (tryReserve (jint n) fresh (fst s)) \<and> c = fresh then n else 0)"
  using assms tryReserve_ok [of "fst s" "jint n" fresh] tryReserve_held [of n fresh "fst s"]
  by (auto simp: ms_drops_def ms_inv_def ms_others_def)

lemma ms_makeRoom_spec:
  assumes laws: "lru_laws L valid rd mx" and n: "0 \<le> bytes"
  shows "ms_inv E valid rd s \<Longrightarrow> ms_drops E valid rd s (snd (ms_makeRoom L k bytes s))
    \<and> (\<forall>c. ms_others (snd (ms_makeRoom L k bytes s)) c
        = ms_others s c + (if fst (ms_makeRoom L k bytes s) \<and> c = fresh then bytes else 0))"
proof (induction k arbitrary: s)
  case (Suc k)
  show ?case
  proof (cases "ms_cache (snd s)")
    case (Some c)
    let ?s1 = "ms_after (snd (lru_pop L c)) s"
    note pop = pop_drops(1,2) [OF laws Suc.prems Some]
    have inv1: "ms_inv E valid rd ?s1" using pop(1) by (simp add: ms_drops_def)
    show ?thesis
    proof (cases "fst (lru_pop L c)")
      case None
      then show ?thesis using Some pop by (cases "lru_pop L c") simp
    next
      case (Some e)
      let ?t = "tryReserve (jint bytes) fresh (fst ?s1)"
      note res = reserve_step [OF inv1 n]
      have d: "ms_drops E valid rd s (snd ?t, snd ?s1)" using ms_drops_trans [OF pop(1) res(1)] .
      have o: "ms_others (snd ?t, snd ?s1) c = ms_others s c + (if fst ?t \<and> c = fresh then bytes else 0)" for c
        using res(2) [of c] pop(2) by simp
      have eq: "ms_makeRoom L (Suc k) bytes s = (if fst ?t then (True, (snd ?t, snd ?s1)) else ms_makeRoom L k bytes (snd ?t, snd ?s1))"
        using Some \<open>ms_cache (snd s) = Some c\<close> by (cases "lru_pop L c") (simp add: Let_def)
      show ?thesis
      proof (cases "fst ?t")
        case False
        have i: "ms_inv E valid rd (snd ?t, snd ?s1)" using d by (simp add: ms_drops_def)
        show ?thesis unfolding eq using False Suc.IH [OF i] o ms_drops_trans [OF d] by simp
      next
        case True
        then show ?thesis unfolding eq using d o by simp
      qed
    qed
  qed (use Suc.prems in \<open>simp add: ms_drops_refl\<close>)
qed (simp add: ms_drops_refl)

lemma ms_reserve_spec:
  assumes laws: "lru_laws L valid rd mx" and n: "0 \<le> bytes" and inv: "ms_inv E valid rd s"
  shows "ms_drops E valid rd s (snd (ms_reserve L bytes s))"
    and "ms_others (snd (ms_reserve L bytes s)) c
        = ms_others s c + (if fst (ms_reserve L bytes s) \<and> c = fresh then bytes else 0)"
proof -
  note r = reserve_step [OF inv n]
  have i: "ms_inv E valid rd (snd (tryReserve (jint bytes) fresh (fst s)), snd s)"
    using r(1) by (simp add: ms_drops_def)
  note m = ms_makeRoom_spec [OF laws n i, of MAX_EVICTIONS_PER_WRITE]
  show "ms_drops E valid rd s (snd (ms_reserve L bytes s))"
    using r(1) m ms_drops_trans [OF r(1)] by (simp add: ms_reserve_def Let_def)
  show "ms_others (snd (ms_reserve L bytes s)) c
      = ms_others s c + (if fst (ms_reserve L bytes s) \<and> c = fresh then bytes else 0)"
    using r(2) [of c] m by (cases "fst (tryReserve (jint bytes) fresh (fst s))") (simp_all add: ms_reserve_def Let_def)
qed

lemma reject_drops:
  "ms_drops E valid rd s t \<Longrightarrow> ms_drops E valid rd s (reject t)" "ms_others (reject t) = ms_others t"
  by (auto simp: ms_drops_def reject_def ms_inv_def resident_def history_bytes_def ms_others_def)

lemma resident_valid: "ms_inv E valid rd s \<Longrightarrow> ms_cache (snd s) = Some c \<Longrightarrow> valid c \<and> resident rd (snd s) = rd c"
  by (simp add: ms_inv_def resident_def)

lemma ms_commit_spec:
  assumes laws: "lru_laws L valid rd mx" and inv: "ms_inv E valid rd s" and c: "ms_cache (snd s) = Some c"
    and new: "key \<notin> fst ` set (rd c)" and size: "en_bytes entry = entry_size E key (en_buffer entry)"
    and room: "ms_bytes (snd s) + en_bytes entry \<le> held (fst s) fresh"
  shows "ms_inv E valid rd (ms_commit L now key entry ttl c s)"
    and "ms_others (ms_commit L now key entry ttl c s) d = ms_others s d - (if d = fresh then en_bytes entry else 0)"
    and "mset (resident rd (snd (ms_commit L now key entry ttl c s))) \<subseteq># mset (resident rd (snd s)) + {#(key, entry)#}"
    and "(key, entry) \<in> set (resident rd (snd (ms_commit L now key entry ttl c s)))"
proof -
  have v: "valid c" "resident rd (snd s) = rd c" using resident_valid [OF inv c] by auto
  note set = law_set [OF laws v(1) new, where now = now and e = entry and ttl = ttl]
  obtain ev where ev: "mset (rd c) + {#(key, entry)#} = mset (rd (fst (lru_set L now key entry ttl c))) + mset ev"
    "snd (lru_set L now key entry ttl c) = map snd ev" using set(3) by blast
  let ?c1 = "fst (lru_set L now key entry ttl c)" and ?n = "en_bytes entry" and ?s' = "ms_commit L now key entry ttl c s"
  let ?s1 = "(fst s, (snd s)\<lparr>ms_cache := Some ?c1\<rparr>)"
  have split: "mset ((key, entry) # rd c) = mset (rd ?c1) + mset ev" using ev(1) by simp
  have ok: "entries_ok E ((key, entry) # rd c)" using inv v size by (simp add: ms_inv_def entries_ok_def)
  have oks: "entries_ok E (rd ?c1)" "entries_ok E ev" using ok entries_ok_mset [OF split] by auto
  have sum: "?n + entries_bytes (rd c) = entries_bytes (rd ?c1) + entries_bytes ev"
    using entries_bytes_split [OF split] by simp
  have le: "entries_bytes ev \<le> held (fst s) fresh"
    using room inv v sum entries_bytes_nonneg [OF entries_ok_nonneg [OF oks(1)]] by (simp add: ms_inv_def)
  have D: "budget_ok (fst ?s')" "\<And>d. held (fst ?s') d = held (fst s) d - (if d = fresh then entries_bytes ev else 0)"
    "snd ?s' = (snd s)\<lparr>ms_cache := Some ?c1, ms_bytes := ms_bytes (snd s) - entries_bytes ev + ?n,
       ms_admitted := ms_admitted (snd s) + 1\<rparr>"
    using ms_dispose_spec [of ?s1 ev] inv le entries_ok_nonneg [OF oks(2)]
    by (simp_all add: ms_commit_def ms_after_def ev(2) ms_inv_def Let_def)
  show "ms_inv E valid rd ?s'"
    using inv c v sum oks(1) set(1) D room unfolding ms_inv_def by (simp add: resident_def history_bytes_def)
  show "ms_others ?s' d = ms_others s d - (if d = fresh then ?n else 0)"
    using D by (simp add: ms_others_def history_bytes_def)
  show "mset (resident rd (snd ?s')) \<subseteq># mset (resident rd (snd s)) + {#(key, entry)#}"
    using D(3) v ev(1) by (simp add: resident_def)
  show "(key, entry) \<in> set (resident rd (snd ?s'))" using D(3) set(2) by (simp add: resident_def)
qed

text \<open>
  A write of an encoded value, whatever branch it takes: the ledger holds, the other users of the budget
  are untouched, and what the store then holds under the key is the new buffer or nothing live.
\<close>

definition live :: "'c lru \<Rightarrow> int \<Rightarrow> CacheKey \<Rightarrow> 'c mstate \<Rightarrow> Entry option" where
  "live L now key s = (case ms_cache (snd s) of None \<Rightarrow> None | Some c \<Rightarrow> lru_peek L now key c)"

lemma live_resident:
  "lru_laws L valid rd mx \<Longrightarrow> ms_inv E valid rd s \<Longrightarrow> live L now key s = Some e \<Longrightarrow> (key, e) \<in> set (resident rd (snd s))"
  by (auto simp: live_def resident_def ms_inv_def split: option.splits intro: law_peek)

lemma absent_dead:
  "lru_laws L valid rd mx \<Longrightarrow> ms_inv E valid rd s \<Longrightarrow> key \<notin> fst ` set (resident rd (snd s)) \<Longrightarrow> live L now key s = None"
  using live_resident by (metis fst_conv image_eqI not_None_eq)

lemma live_reject [simp]: "live L now key (reject s) = live L now key s"
  by (simp add: live_def reject_def)

lemma live_deleted:
  assumes "lru_laws L valid rd mx" and "ms_inv E valid rd s"
  shows "live L now key (ms_delete L key s) = None"
proof (rule ccontr)
  assume "live L now key (ms_delete L key s) \<noteq> None"
  then obtain e where "(key, e) \<in> set (resident rd (snd (ms_delete L key s)))"
    using live_resident [OF assms(1) ms_delete_spec(1) [OF assms]] by blast
  then have "(key, e) \<in># filter_mset (\<lambda>p. fst p \<noteq> key) (mset (resident rd (snd s)))"
    using ms_delete_spec(3) [OF assms, of key] by (metis set_mset_mset)
  then show False by simp
qed

lemma deleted_absent:
  assumes "lru_laws L valid rd mx" and "ms_inv E valid rd s" and "ms_drops E valid rd (ms_delete L key s) t"
  shows "key \<notin> fst ` set (resident rd (snd t))"
proof
  assume "key \<in> fst ` set (resident rd (snd t))"
  then obtain e where "(key, e) \<in># mset (resident rd (snd t))" by auto
  then have "(key, e) \<in># mset (resident rd (snd (ms_delete L key s)))"
    using assms(3) by (auto simp: ms_drops_def dest: mset_subset_eqD)
  then show False using ms_delete_spec(3) [OF assms(1,2), of key] by simp
qed

definition written :: "'x event_env_scheme \<Rightarrow> ('c \<Rightarrow> bool) \<Rightarrow> ('c \<Rightarrow> (CacheKey \<times> Entry) list) \<Rightarrow> 'c lru \<Rightarrow> int \<Rightarrow> CacheKey
    \<Rightarrow> bytes \<Rightarrow> 'c mstate \<Rightarrow> 'c mstate \<Rightarrow> bool" where
  "written E valid rd L now key buffer s s' \<longleftrightarrow> ms_inv E valid rd s' \<and> ms_others s' = ms_others s
     \<and> (\<forall>e. live L now key s' = Some e \<longrightarrow> en_buffer e = buffer)
     \<and> (\<forall>k e. k \<noteq> key \<longrightarrow> (k, e) \<in> set (resident rd (snd s')) \<longrightarrow> (k, e) \<in> set (resident rd (snd s)))"

lemma written_dropped:
  assumes "ms_drops E valid rd s s'" and "ms_others s' = ms_others s" and "live L now key s' = None"
  shows "written E valid rd L now key buffer s s'"
  using assms by (auto simp: written_def ms_drops_def dest!: set_mset_mono)

lemma written_rejected:
  assumes "ms_drops E valid rd s t" and "ms_others t = ms_others s" and "live L now key t = None"
  shows "written E valid rd L now key buffer s (reject t)"
  using assms reject_drops(1) [OF assms(1)] reject_drops(2) [of t] by (simp add: written_dropped)

lemma ms_setEncoded_written:
  assumes laws: "lru_laws L valid rd mx" and inv: "ms_inv E valid rd s"
    and ok: "fst (ms_setEncoded E L now key buffer options orig s) = Inr ()"
  shows "written E valid rd L now key buffer s (snd (ms_setEncoded E L now key buffer options orig s))"
    (is "written _ _ _ _ _ _ _ _ (snd ?r)")
proof (cases "ms_cache (snd s)")
  case None
  then show ?thesis using inv by (simp add: ms_setEncoded_def written_def live_def)
next
  case (Some c)
  obtain ttl where ttl: "ms_ttl options (ms_options (snd s)) = Inr ttl"
    using ok Some by (auto simp: ms_setEncoded_def split: sum.splits)
  let ?n = "entry_size E key buffer" and ?d = "ms_delete L key s"
  let ?e = "\<lparr>en_buffer = buffer, en_bytes = ?n, en_originalBytes = safe_original orig\<rparr>"
  have n: "0 \<le> ?n" using entry_size_pos [of E key buffer] by simp
  note del = delete_drops [OF laws inv, of key] ms_delete_spec(1,2) [OF laws inv, of key] live_deleted [OF laws inv, of now key]
  note res = ms_reserve_spec [OF laws n del(2)]
  let ?q = "ms_reserve L ?n ?d"
  have dropped: "ms_drops E valid rd s (snd ?q)" using ms_drops_trans [OF del(1) res(1)] .
  have absent: "key \<notin> fst ` set (resident rd (snd (snd ?q)))" by (rule deleted_absent [OF laws inv res(1)])
  consider "snd ?r = reject ?d" | "snd ?r = reject s" "live L now key s = None"
    | "\<not> fst ?q" "snd ?r = reject (snd ?q)"
    | c1 where "fst ?q" "ms_cache (snd (snd ?q)) = Some c1" "snd ?r = ms_commit L now key ?e ttl c1 (snd ?q)"
    using Some ttl dropped
    by (fastforce simp: ms_setEncoded_def Let_def live_def ms_drops_def split: if_splits option.splits)
  then show ?thesis
  proof cases
    case 1
    then show ?thesis using written_rejected [OF del(1,3,4)] by simp
  next
    case 2
    then show ?thesis using written_rejected [OF ms_drops_refl [OF inv] refl] by simp
  next
    case 3
    have "live L now key (snd ?q) = None"
      using dropped by (intro absent_dead [where E = E, OF laws _ absent]) (simp add: ms_drops_def)
    moreover have "ms_others (snd ?q) = ms_others s" using 3(1) res(2) del(3) by (simp add: fun_eq_iff)
    ultimately show ?thesis using written_rejected [OF dropped] 3(2) by simp
  next
    case 4
    have iq: "ms_inv E valid rd (snd ?q)" using res(1) by (simp add: ms_drops_def)
    have r1: "key \<notin> fst ` set (rd c1)" using absent 4(2) by (simp add: resident_def)
    have "0 \<le> ms_others s fresh" using inv by (simp add: ms_inv_def ms_others_def)
    then have room: "ms_bytes (snd (snd ?q)) + en_bytes ?e \<le> held (fst (snd ?q)) fresh"
      using res(2) [of fresh] 4(1) del(3) by (simp add: ms_others_def)
    note com = ms_commit_spec [OF laws iq 4(2) r1 _ room, of now ttl]
    have oth: "ms_others (snd ?r) = ms_others s" using 4 com(2) res(2) del(3) by (auto simp: fun_eq_iff)
    have sub: "set (resident rd (snd (snd ?r))) \<subseteq> insert (key, ?e) (set (resident rd (snd s)))"
      using 4(3) com(3) dropped by (fastforce simp: ms_drops_def dest!: set_mset_mono)
    have live: "en_buffer e = buffer" if "live L now key (snd ?r) = Some e" for e
    proof -
      have "(key, e) \<in> set (resident rd (snd (snd ?r)))" using live_resident [OF laws com(1)] that 4(3) by simp
      moreover have "set (resident rd (snd (snd ?r))) \<subseteq> insert (key, ?e) (set (resident rd (snd (snd ?q))))"
        using 4(3) com(3) by (auto dest!: set_mset_mono)
      ultimately show ?thesis using absent by force
    qed
    show ?thesis using com(1) oth live sub 4(3) by (auto simp: written_def)
  qed
qed

section \<open>Runs\<close>

datatype ms_event = MSet int CacheKey jsval CacheOptions | MSetEncoded int CacheKey bytes CacheOptions "jsnum option"
  | MGet int CacheKey | MGetEncoded int CacheKey | MHas int CacheKey | MDelete CacheKey
  | MDeletePattern int jsstr | MClear | MSize int | MEvict | MClose

fun ms_step :: "'x event_env_scheme \<Rightarrow> 'c lru \<Rightarrow> ms_event \<Rightarrow> 'c mstate \<Rightarrow> 'c mstate" where
  "ms_step E L (MSet now key v options) s = snd (ms_set E L now key v options s)"
| "ms_step E L (MSetEncoded now key buffer options orig) s = snd (ms_setEncoded E L now key buffer options orig s)"
| "ms_step E L (MGet now key) s = snd (ms_get E L now key s)"
| "ms_step E L (MGetEncoded now key) s = snd (ms_getEncoded E L now key s)"
| "ms_step E L (MHas now key) s = snd (ms_has L now key s)"
| "ms_step E L (MDelete key) s = ms_delete L key s"
| "ms_step E L (MDeletePattern now pattern) s = ms_deleteByPattern E L now pattern s"
| "ms_step E L MClear s = ms_clear L s"
| "ms_step E L (MSize now) s = snd (ms_size L now s)"
| "ms_step E L MEvict s = snd (ms_evictOne L s)"
| "ms_step E L MClose s = ms_close L s"

lemma ms_setEncoded_error: "fst (ms_setEncoded E L now key buffer options orig s) \<noteq> Inr ()
    \<Longrightarrow> snd (ms_setEncoded E L now key buffer options orig s) = s"
  by (auto simp: ms_setEncoded_def Let_def split: option.splits sum.splits if_splits)

lemma setEncoded_keeps:
  assumes "lru_laws L valid rd mx"
  shows "ms_keeps E valid rd s (snd (ms_setEncoded E L now key buffer options orig s))"
proof (cases "fst (ms_setEncoded E L now key buffer options orig s) = Inr ()")
  case True
  then show ?thesis using ms_setEncoded_written [OF assms _ True] by (auto simp: ms_keeps_def written_def)
qed (simp add: ms_setEncoded_error)

lemma delete_keeps: "lru_laws L valid rd mx \<Longrightarrow> ms_keeps E valid rd s (ms_delete L key s)"
  by (simp add: ms_keeps_def ms_delete_spec(1,2))

lemma reject_keeps: "ms_keeps E valid rd s t \<Longrightarrow> ms_keeps E valid rd s (reject t)"
  by (auto simp: ms_keeps_def reject_drops(2)) (auto simp: ms_inv_def reject_def resident_def history_bytes_def)

lemma set_keeps: "lru_laws L valid rd mx \<Longrightarrow> ms_keeps E valid rd s (snd (ms_set E L now key v options s))"
  by (auto simp: ms_set_def intro: setEncoded_keeps delete_keeps reject_keeps split: sum.splits)

lemma decay_length: "length (snd (decay n k h)) = length h"
  by (induction n k h rule: decay.induct) (auto simp: Let_def)

lemma record_keeps: "ms_keeps E valid rd s (fst s, ms_record E key (snd s))"
  by (auto simp: ms_keeps_def ms_record_def ms_inv_def ms_others_def resident_def history_bytes_def Let_def decay_length
      split: option.splits)

lemma after_keeps:
  assumes "ms_cache (snd s) = Some c" and "ms_inv E valid rd s \<Longrightarrow> valid (fst r) \<and> (\<exists>ev. leaves rd c ev r)"
  shows "ms_keeps E valid rd s (ms_after r s)"
  using assms(2) ms_after_spec [OF _ assms(1), of E valid rd r] unfolding ms_keeps_def by metis

lemma lookup_keeps:
  assumes "lru_laws L valid rd mx"
  shows "ms_keeps E valid rd s (snd (ms_lookup E L now key s))"
proof -
  let ?s = "(fst s, ms_record E key (snd s))"
  have "ms_keeps E valid rd ?s (snd (ms_lookup E L now key s))"
  proof (cases "ms_cache (snd ?s)")
    case (Some c)
    have "ms_keeps E valid rd ?s (ms_after (snd (lru_get L now key c)) ?s)"
      using law_get(1,2) [OF assms] resident_valid [of E valid rd ?s c] Some by (intro after_keeps [OF Some]) blast
    then show ?thesis using Some by (simp add: ms_lookup_def Let_def)
  qed (simp add: ms_lookup_def Let_def)
  then show ?thesis using ms_keeps_trans [OF record_keeps] by blast
qed

lemma get_keeps: "lru_laws L valid rd mx \<Longrightarrow> ms_keeps E valid rd s (snd (ms_get E L now key s))"
  using lookup_keeps [of L valid rd mx E s now key]
    ms_keeps_trans [OF lookup_keeps [of L valid rd mx E s now key] delete_keeps [of L valid rd mx E "snd (ms_lookup E L now key s)" key]]
  by (simp add: ms_get_def Let_def split: option.splits sum.splits DecodedCacheRecord.splits)

lemma fold_keeps: "(\<And>x s. ms_keeps E valid rd s (f x s)) \<Longrightarrow> ms_keeps E valid rd s (fold f xs s)"
proof (induction xs arbitrary: s)
  case (Cons x xs)
  then show ?case using ms_keeps_trans [of E valid rd s "f x s"] by simp
qed simp

lemma cache_call_keeps:
  assumes laws: "lru_laws L valid rd mx"
  shows "ms_keeps E valid rd s (snd (ms_has L now key s))" "ms_keeps E valid rd s (ms_deleteByPattern E L now pattern s)"
    "ms_keeps E valid rd s (ms_clear L s)" "ms_keeps E valid rd s (snd (ms_size L now s))"
    "ms_keeps E valid rd s (snd (ms_evictOne L s))"
proof -
  show "ms_keeps E valid rd s (snd (ms_has L now key s))"
    by (auto simp: ms_has_def delete_keeps [OF laws] split: option.splits)
  show "ms_keeps E valid rd s (ms_deleteByPattern E L now pattern s)"
    by (auto simp: ms_deleteByPattern_def intro: fold_keeps delete_keeps [OF laws] split: option.splits)
  show "ms_keeps E valid rd s (ms_clear L s)"
    using law_clear(1,3) [OF laws] resident_valid [of E valid rd s]
    by (auto simp: ms_clear_def intro!: after_keeps split: option.splits)
  show "ms_keeps E valid rd s (snd (ms_size L now s))"
    using law_purge [OF laws] resident_valid [of E valid rd s]
    by (auto simp: ms_size_def Let_def intro!: after_keeps split: option.splits)
  show "ms_keeps E valid rd s (snd (ms_evictOne L s))"
    using law_pop [OF laws] resident_valid [of E valid rd s]
    by (fastforce simp: ms_evictOne_def Let_def intro!: after_keeps split: option.splits)
qed

lemma ms_close_spec:
  assumes laws: "lru_laws L valid rd mx" and inv: "ms_inv E valid rd s"
  shows "ms_inv E valid rd (ms_close L s)" and "ms_others (ms_close L s) = ms_others s"
    and "\<not> ms_closed (snd s) \<Longrightarrow> resident rd (snd (ms_close L s)) = [] \<and> ms_history (snd (ms_close L s)) = None"
proof -
  define s2 where "s2 = (case ms_cache (snd s) of None \<Rightarrow> s | Some c \<Rightarrow> ms_after (lru_clear L c) s)"
  have s2: "ms_inv E valid rd s2 \<and> ms_others s2 = ms_others s \<and> resident rd (snd s2) = []"
  proof (cases "ms_cache (snd s)")
    case (Some c)
    have v: "valid c" using resident_valid [OF inv Some] by simp
    show ?thesis using ms_after_spec [OF inv Some law_clear(1,3) [OF laws v]] law_clear(2) [OF laws v] Some
      by (simp add: s2_def resident_def)
  qed (use inv in \<open>simp add: s2_def resident_def\<close>)
  define b3 where "b3 = (if ms_history (snd s2) \<noteq> None then release (jint (int HISTORY_BYTES)) metadata (fst s2) else fst s2)"
  have b2: "budget_ok (fst s2)" "history_bytes (snd s2) \<le> held (fst s2) metadata" "ms_bytes (snd s2) = 0"
    using s2 by (simp_all add: ms_inv_def)
  have b3: "budget_ok b3" "held b3 c = held (fst s2) c - (if c = metadata then history_bytes (snd s2) else 0)" for c
    using b2 release_held [OF b2(1), of "int HISTORY_BYTES" metadata] by (auto simp: b3_def history_bytes_def release_ok)
  have u: "budget_ok (snd (mb_unregister a n b3))" "held (snd (mb_unregister a n b3)) c = held b3 c" for a n c
    using bookkeeping_ok(2) [OF b3(1)] by (simp_all add: mb_unregister_def held_def Let_def)
  have close: "ms_close L s = (snd (mb_unregister (ms_registered (snd s2)) (ms_client (snd s2)) b3), (snd s2)\<lparr>ms_closed := True, ms_cache := None,
      ms_history := None, ms_registered := fst (mb_unregister (ms_registered (snd s2)) (ms_client (snd s2)) b3)\<rparr>)"
    if "\<not> ms_closed (snd s)" using that by (simp add: ms_close_def Let_def s2_def b3_def)
  show "\<not> ms_closed (snd s) \<Longrightarrow> resident rd (snd (ms_close L s)) = [] \<and> ms_history (snd (ms_close L s)) = None"
    by (simp add: close resident_def)
  have f: "0 \<le> held (fst s2) fresh" "0 \<le> held b3 metadata"
    using held_bounds b2(1) b3(1) by (auto simp: budget_ok_def)
  show "ms_inv E valid rd (ms_close L s)" 
  proof (cases "ms_closed (snd s)")
    case False
    then show ?thesis using s2 b2 f u b3(2) [of fresh]
      by (simp add: close ms_inv_def resident_def history_bytes_def entries_ok_def)
  qed (use inv in \<open>simp add: ms_close_def\<close>)
  show "ms_others (ms_close L s) = ms_others s"
  proof (cases "ms_closed (snd s)")
    case False
    have hb: "history_bytes (m\<lparr>ms_closed := z, ms_cache := x, ms_history := None, ms_registered := y\<rparr>) = 0" for m :: "'a MemoryStore" and x y z
      by (simp add: history_bytes_def)
    have "ms_others (ms_close L s) c = ms_others s2 c" for c
      using b2(3) u(2) b3(2) by (simp add: close [OF False] ms_others_def hb)
    then show ?thesis using s2 by (simp add: fun_eq_iff)
  qed (simp add: ms_close_def)
qed

lemma step_keeps: "lru_laws L valid rd mx \<Longrightarrow> ms_keeps E valid rd s (ms_step E L ev s)"
proof (cases ev)
  case (MGetEncoded now key)
  assume "lru_laws L valid rd mx"
  then show ?thesis using lookup_keeps MGetEncoded by (simp add: ms_getEncoded_def Let_def)
next
  case MClose
  assume "lru_laws L valid rd mx"
  then show ?thesis using ms_close_spec(1,2) [of L valid rd mx E s] MClose by (simp add: ms_keeps_def)
qed (simp_all add: set_keeps setEncoded_keeps get_keeps cache_call_keeps delete_keeps)

lemma held_register [simp]: "held (mb_register n b) = held b"
  by (simp add: held_def mb_register_def Let_def fun_eq_iff)

lemma newMemoryStore_inv:
  assumes new: "newMemoryStore L options client b = Inr s" and b: "budget_ok b"
    and laws: "lru_laws L valid rd (ms_maxEntries (snd s))"
  shows "ms_inv E valid rd s \<and> ms_others s = held b"
proof -
  let ?t = "tryReserve (jint (int HISTORY_BYTES)) metadata b"
  obtain mx where s: "fst s = mb_register client (snd ?t)" "ms_cache (snd s) = Some (lru_new L mx)" "ms_maxEntries (snd s) = mx"
    "ms_history (snd s) = (if fst ?t then Some (replicate HISTORY_BYTES 0) else None)" "ms_bytes (snd s) = 0" "\<not> ms_closed (snd s)"
    using new by (auto simp: newMemoryStore_def Let_def split: sum.splits if_splits)
  have v: "valid (lru_new L mx)" "rd (lru_new L mx) = []" using laws s(3) by (simp_all add: lru_laws_def)
  have t: "budget_ok (snd ?t)" using tryReserve_ok [OF b] .
  have h: "held (fst s) c = held b c + (if c = metadata \<and> fst ?t then int HISTORY_BYTES else 0)" for c
    using tryReserve_held [of "int HISTORY_BYTES" metadata b c] by (simp add: s(1))
  have ok: "budget_ok (fst s)" using bookkeeping_ok(1) [OF t] s(1) by simp
  have "0 \<le> held b c" for c using held_bounds b by (simp add: budget_ok_def)
  then show ?thesis using s v h ok
    by (auto simp: ms_inv_def resident_def history_bytes_def ms_others_def entries_ok_def fun_eq_iff)
qed

section \<open>A reference LRU\<close>

text \<open>
  A reference LRU, least recently used first, shows that the laws can be met: entries with their expiry.
\<close>

definition lru_live :: "int \<Rightarrow> CacheKey \<times> Entry \<times> jsnum \<Rightarrow> bool" where
  "lru_live now x \<longleftrightarrow> jless (jint now) (snd (snd x))"

definition no_key :: "CacheKey \<Rightarrow> (CacheKey \<times> 'a) list \<Rightarrow> (CacheKey \<times> 'a) list" where
  "no_key key xs = filter (\<lambda>x. fst x \<noteq> key) xs"

definition entries_of :: "(CacheKey \<times> Entry \<times> jsnum) list \<Rightarrow> Entry list" where
  "entries_of xs = map (\<lambda>x. fst (snd x)) xs"

definition list_lru :: "(int \<times> (CacheKey \<times> Entry \<times> jsnum) list) lru" where
  "list_lru = \<lparr>
     lru_new = (\<lambda>mx. (mx, [])),
     lru_peek = (\<lambda>now key c. case map_of (snd c) key of
        Some x \<Rightarrow> if lru_live now (key, x) then Some (fst x) else None | None \<Rightarrow> None),
     lru_get = (\<lambda>now key c. case map_of (snd c) key of None \<Rightarrow> (None, c, [])
        | Some x \<Rightarrow> if lru_live now (key, x) then (Some (fst x), (fst c, no_key key (snd c) @ [(key, x)]), [])
            else (None, (fst c, no_key key (snd c)), [fst x])),
     lru_set = (\<lambda>now key e ttl c. let ys = no_key key (snd c) @ [(key, e, jadd (jint now) ttl)];
          n = length ys - nat (fst c) in
        ((fst c, drop n ys), entries_of (filter (\<lambda>x. fst x = key) (snd c)) @ entries_of (take n ys))),
     lru_delete = (\<lambda>key c. ((fst c, no_key key (snd c)), entries_of (filter (\<lambda>x. fst x = key) (snd c)))),
     lru_pop = (\<lambda>c. case snd c of [] \<Rightarrow> (None, c, []) | x # xs \<Rightarrow> (Some (fst (snd x)), (fst c, xs), [fst (snd x)])),
     lru_has = (\<lambda>now key c. \<exists>x \<in> set (snd c). fst x = key \<and> lru_live now x),
     lru_size = (\<lambda>c. length (snd c)),
     lru_keys = (\<lambda>now c. rev (map fst (filter (lru_live now) (snd c)))),
     lru_rentries = (\<lambda>c. map (\<lambda>x. (fst x, fst (snd x))) (snd c)),
     lru_remainingTTL = (\<lambda>now key c. case map_of (snd c) key of None \<Rightarrow> jint 0
        | Some x \<Rightarrow> (case snd x of JNum t \<Rightarrow> JNum (t - of_int now) | y \<Rightarrow> y)),
     lru_purgeStale = (\<lambda>now c. ((fst c, filter (lru_live now) (snd c)), entries_of (filter (\<lambda>x. \<not> lru_live now x) (snd c)))),
     lru_clear = (\<lambda>c. ((fst c, []), entries_of (snd c)))\<rparr>"

definition list_read :: "int \<times> (CacheKey \<times> Entry \<times> jsnum) list \<Rightarrow> (CacheKey \<times> Entry) list" where
  "list_read c = map (\<lambda>x. (fst x, fst (snd x))) (snd c)"

definition list_valid :: "int \<Rightarrow> int \<times> (CacheKey \<times> Entry \<times> jsnum) list \<Rightarrow> bool" where
  "list_valid mx c \<longleftrightarrow> fst c = mx \<and> distinct (map fst (snd c)) \<and> int (length (snd c)) \<le> mx"

lemma fst_read: "fst ` set (list_read c) = fst ` set (snd c)"
  by (simp add: list_read_def image_image)

lemma list_leaves:
  assumes "mset (snd c) = mset xs + mset ys"
  shows "leaves list_read c (map (\<lambda>x. (fst x, fst (snd x))) ys) ((mx, xs), entries_of ys)"
  using assms by (simp add: leaves_def list_read_def entries_of_def comp_def flip: image_mset_union)

lemma no_key_split: "mset xs = mset (no_key key xs) + mset (filter (\<lambda>x. fst x = key) xs)"
  using multiset_partition [of "mset xs" "\<lambda>x. fst x = key"] by (simp add: no_key_def add.commute)

lemma filter_key_one: "distinct (map fst xs) \<Longrightarrow> map_of xs key = Some v \<Longrightarrow> filter (\<lambda>x. fst x = key) xs = [(key, v)]"
proof (induction xs)
  case (Cons x xs)
  then show ?case by (cases "fst x = key") (auto simp: filter_empty_conv image_iff split: if_splits)
qed simp

lemma filter_read: "filter (\<lambda>p. fst p = key) (list_read c) = map (\<lambda>x. (fst x, fst (snd x))) (filter (\<lambda>x. fst x = key) (snd c))"
  by (simp add: list_read_def filter_map comp_def)

lemma no_key_valid: "list_valid mx c \<Longrightarrow> list_valid mx (fst c, no_key key (snd c))"
  using length_filter_le [of "\<lambda>x. fst x \<noteq> key" "snd c"]
  by (auto simp: list_valid_def no_key_def distinct_map_filter intro: order_trans [of _ "int (length (snd c))"])

lemma list_delete_law:
  "list_valid mx c \<Longrightarrow> list_valid mx (fst (lru_delete list_lru key c))
    \<and> leaves list_read c (filter (\<lambda>p. fst p = key) (list_read c)) (lru_delete list_lru key c)"
  using no_key_valid list_leaves [OF no_key_split [of "snd c" key]] by (simp add: list_lru_def filter_read)

lemma list_pop_law:
  "list_valid mx c \<Longrightarrow> list_valid mx (fst (snd (lru_pop list_lru c))) \<and> (case fst (lru_pop list_lru c) of
      None \<Rightarrow> list_read c = [] \<and> leaves list_read c [] (snd (lru_pop list_lru c))
    | Some e \<Rightarrow> (\<exists>key. leaves list_read c [(key, e)] (snd (lru_pop list_lru c))))"
  using list_leaves [of c "tl (snd c)" "[hd (snd c)]" "fst c"]
  by (cases "snd c") (auto simp: list_lru_def list_valid_def list_read_def leaves_def entries_of_def)

lemma list_get_law:
  assumes "list_valid mx c"
  shows "list_valid mx (fst (snd (lru_get list_lru now key c))) \<and> (case fst (lru_get list_lru now key c) of
      None \<Rightarrow> (\<exists>ev. leaves list_read c ev (snd (lru_get list_lru now key c)))
    | Some e \<Rightarrow> (key, e) \<in> set (list_read c) \<and> leaves list_read c [] (snd (lru_get list_lru now key c)))"
proof (cases "map_of (snd c) key")
  case None
  then show ?thesis using assms by (auto simp: list_lru_def leaves_def intro!: exI [of _ "[]"])
next
  case (Some x)
  have one: "filter (\<lambda>y. fst y = key) (snd c) = [(key, x)]"
    using filter_key_one [OF _ Some] assms by (simp add: list_valid_def)
  have split: "mset (snd c) = mset (no_key key (snd c)) + mset [(key, x)]" using no_key_split [of "snd c" key] one by simp
  have len: "length (snd c) = length (no_key key (snd c)) + 1" using arg_cong [OF split, of size] by simp
  have mem: "(key, fst x) \<in> set (list_read c)" using map_of_SomeD [OF Some] by (force simp: list_read_def)
  have v: "list_valid mx (fst c, no_key key (snd c))" by (rule no_key_valid [OF assms])
  show ?thesis
  proof (cases "lru_live now (key, x)")
    case True
    have "list_valid mx (fst c, no_key key (snd c) @ [(key, x)])"
      using v len assms by (auto simp: list_valid_def no_key_def)
    moreover have "leaves list_read c [] ((fst c, no_key key (snd c) @ [(key, x)]), [])"
      using list_leaves [of c "no_key key (snd c) @ [(key, x)]" "[]" "fst c"] split by (simp add: entries_of_def)
    ultimately show ?thesis using Some True mem by (simp add: list_lru_def)
  next
    case False
    have "leaves list_read c [(key, fst x)] ((fst c, no_key key (snd c)), [fst x])"
      using list_leaves [OF split, of "fst c"] by (simp add: entries_of_def)
    then show ?thesis using Some False v by (auto simp: list_lru_def)
  qed
qed

lemma list_set_law:
  assumes v: "list_valid mx c" and mx: "1 \<le> mx" and new: "key \<notin> fst ` set (list_read c)"
  shows "list_valid mx (fst (lru_set list_lru now key e ttl c))
    \<and> (key, e) \<in> set (list_read (fst (lru_set list_lru now key e ttl c)))
    \<and> (\<exists>ev. mset (list_read c) + {#(key, e)#} = mset (list_read (fst (lru_set list_lru now key e ttl c))) + mset ev
         \<and> snd (lru_set list_lru now key e ttl c) = map snd ev)"
proof -
  have nk: "no_key key (snd c) = snd c" "filter (\<lambda>x. fst x = key) (snd c) = []"
    using new by (auto simp: no_key_def fst_read filter_id_conv filter_empty_conv image_iff)
  let ?ys = "snd c @ [(key, e, jadd (jint now) ttl)]" let ?n = "length ?ys - nat (fst c)"
  have r: "lru_set list_lru now key e ttl c = ((fst c, drop ?n ?ys), entries_of (take ?n ?ys))"
    using nk by (simp add: list_lru_def Let_def entries_of_def)
  have n: "?n \<le> length (snd c)" "int (length (drop ?n ?ys)) \<le> mx" using v mx by (auto simp: list_valid_def)
  define zs where "zs = drop ?n ?ys"
  have "distinct (map fst ?ys)" using v new by (simp add: list_valid_def fst_read)
  then have "distinct (map fst zs)" unfolding zs_def by (metis distinct_drop drop_map)
  then have 1: "list_valid mx (fst c, zs)" using v n(2) unfolding list_valid_def zs_def by (simp only: fst_conv snd_conv)
  have "zs = drop ?n (snd c) @ [(key, e, jadd (jint now) ttl)]" using n(1) by (simp add: zs_def)
  then have 2: "(key, e) \<in> set (list_read (fst c, zs))" by (simp add: list_read_def)
  let ?f = "\<lambda>x :: CacheKey \<times> Entry \<times> jsnum. (fst x, fst (snd x))"
  have "mset (map ?f ?ys) = mset (map ?f zs) + mset (map ?f (take ?n ?ys))"
    unfolding zs_def by (subst append_take_drop_id [of ?n ?ys, symmetric], subst map_append) (simp only: mset_append add.commute)
  then have 3: "mset (list_read c) + {#(key, e)#} = mset (list_read (fst c, zs)) + mset (map ?f (take ?n ?ys))"
    by (simp add: list_read_def)
  show ?thesis unfolding r zs_def [symmetric] using 1 2 3 by (auto simp: entries_of_def comp_def intro!: exI [of _ "map ?f (take ?n ?ys)"])
qed

lemma list_purge_law:
  "list_valid mx c \<Longrightarrow> list_valid mx (fst (lru_purgeStale list_lru now c)) \<and> (\<exists>ev. leaves list_read c ev (lru_purgeStale list_lru now c))"
  using list_leaves [of c "filter (lru_live now) (snd c)" "filter (\<lambda>x. \<not> lru_live now x) (snd c)" "fst c"]
    multiset_partition [of "mset (snd c)" "lru_live now"] length_filter_le [of "lru_live now" "snd c"]
  by (auto simp: list_lru_def list_valid_def distinct_map_filter intro: order_trans [of _ "int (length (snd c))"])

lemma list_clear_law:
  "list_valid mx c \<Longrightarrow> list_valid mx (fst (lru_clear list_lru c)) \<and> list_read (fst (lru_clear list_lru c)) = []
    \<and> leaves list_read c (list_read c) (lru_clear list_lru c)"
  by (auto simp: list_lru_def list_valid_def list_read_def leaves_def entries_of_def)

lemma list_read_law:
  "list_valid mx c \<Longrightarrow> distinct (map fst (list_read c)) \<and> int (length (list_read c)) \<le> mx \<and> lru_size list_lru c = length (list_read c)"
  by (simp add: list_read_def list_valid_def list_lru_def comp_def)

lemma list_peek_law: "lru_peek list_lru now key c = Some e \<Longrightarrow> (key, e) \<in> set (list_read c)"
  using map_of_SomeD [of "snd c" key] by (force simp: list_lru_def list_read_def split: option.splits if_splits)

lemma list_keys_law:
  "set (lru_keys list_lru now c) \<subseteq> fst ` set (list_read c)" "lru_has list_lru now key c \<Longrightarrow> key \<in> set (lru_keys list_lru now c)"
  unfolding fst_read by (auto simp: list_lru_def)

lemma list_lru_laws:
  assumes "1 \<le> mx"
  shows "lru_laws list_lru (list_valid mx) list_read mx"
  unfolding lru_laws_def
  apply (intro conjI)
  subgoal using assms by (simp add: list_lru_def list_valid_def)
  subgoal by (simp add: list_lru_def list_read_def)
  subgoal using list_read_law by blast
  subgoal using list_delete_law by blast
  subgoal by (intro allI impI) (rule list_pop_law)
  subgoal using list_peek_law by blast
  subgoal by (auto simp: list_lru_def split: option.splits)
  subgoal by (intro allI impI) (rule list_get_law)
  subgoal by (intro allI impI) (rule list_set_law [OF _ assms])
  subgoal using list_keys_law(1) by blast
  subgoal using list_keys_law(2) by blast
  subgoal using list_purge_law by blast
  subgoal using list_clear_law by blast
  done

section \<open>Properties\<close>

text \<open>
  C18. Ledger of the memory store: along any run of its operations, evictions by the budget included, its
  byte count is the sum of its entries, it holds no more entries than \<open>maxEntries\<close>, and in every category
  the shared budget holds what the other users hold plus exactly the store's bytes (and its access
  history); so once the store is closed the budget is back to what the others hold.
\<close>

theorem memory_store_run:
  assumes "lru_laws L valid rd (ms_maxEntries (snd s0))" and "newMemoryStore L options client b = Inr s0" and "budget_ok b"
    and "s = fold (ms_step E L) events s0"
  shows "ms_bytes (snd s) = entries_bytes (resident rd (snd s)) \<and> int (length (resident rd (snd s))) \<le> max 0 (ms_maxEntries (snd s0))
    \<and> mb_used (fst s) \<le> mb_hardCap (fst s)
    \<and> held (fst s) c = held b c + (if c = fresh then ms_bytes (snd s) else 0) + (if c = metadata then history_bytes (snd s) else 0)
    \<and> held (fst (ms_close L s)) c = held b c"
proof -
  have "ms_keeps E valid rd s0 s" unfolding assms(4) by (rule fold_keeps) (rule step_keeps [OF assms(1)])
  then have inv: "ms_inv E valid rd s" and oth: "ms_others s = held b"
    using newMemoryStore_inv [OF assms(2,3,1)] by (auto simp: ms_keeps_def)
  have size: "int (length (resident rd (snd s))) \<le> max 0 (ms_maxEntries (snd s0))"
    using law_size(1) [OF assms(1)] inv by (fastforce simp: resident_def ms_inv_def split: option.splits)
  note close = ms_close_spec [OF assms(1) inv]
  have "ms_bytes (snd (ms_close L s)) = 0 \<and> history_bytes (snd (ms_close L s)) = 0"
    using close(1,3) inv by (cases "ms_closed (snd s)") (auto simp: ms_inv_def history_bytes_def ms_close_def resident_def)
  then have "held (fst (ms_close L s)) c = ms_others (ms_close L s) c" by (simp add: ms_others_def)
  moreover have "held (fst s) c = ms_others s c + (if c = fresh then ms_bytes (snd s) else 0)
      + (if c = metadata then history_bytes (snd s) else 0)" by (simp add: ms_others_def)
  ultimately show ?thesis using inv oth size close(2) by (simp add: ms_inv_def budget_ok_def ledger_ok_def)
qed

definition demo_store_options :: CacheOptions where
  "demo_store_options = no_cache_options\<lparr>co_L1 := no_level\<lparr>lo_maxEntries := Some (jint 2)\<rparr>\<rparr>"

definition demo_budget :: MemoryBudget where
  "demo_budget = small_budget\<lparr>mb_hardCap := 10000, mb_target := 10000\<rparr>"

definition demo_mstore :: "(int \<times> (CacheKey \<times> Entry \<times> jsnum) list) mstate" where
  "demo_mstore = (mb_register 7 (snd (tryReserve (jint (int HISTORY_BYTES)) metadata demo_budget)),
     \<lparr>ms_cache = Some (2, []), ms_maxEntries = 2, ms_decodeLimits = no_limits,
      ms_history = Some (replicate HISTORY_BYTES 0), ms_decayCursor = 0, ms_accesses = 0, ms_bytes = 0, ms_rejected = 0,
      ms_admitted = 0, ms_closed = False, ms_client = 7, ms_registered = True, ms_options = demo_store_options\<rparr>)"

lemma demo_budget_ok: "budget_ok demo_budget"
  by (simp add: demo_budget_def small_budget_def budget_ok_def ledger_ok_def target_ok_def min_target_def)

lemma resolve_no_limits: "\<exists>r. resolveDecodeLimits no_limits = Inr r"
  by (simp add: resolveDecodeLimits_def no_limits_def positive_safe_def MAX_SAFE_INTEGER_def Let_def
      MAX_PORTABLE_DECODED_BYTES_def DEFAULT_DECODE_MAX_DEPTH_def DEFAULT_DECODE_MAX_COLLECTION_LENGTH_def
      DEFAULT_DECODE_MAX_TOTAL_VALUES_def)

lemma demo_mstore_new: "newMemoryStore list_lru demo_store_options 7 demo_budget = Inr demo_mstore"
  using resolve_no_limits
  by (auto simp: newMemoryStore_def demo_store_options_def no_cache_options_def no_level_def demo_mstore_def Let_def
      ms_ttl_def DEFAULT_CACHE_TTL_MS_def MAX_SAFE_INTEGER_def list_lru_def tryReserve_def demo_budget_def small_budget_def
      HISTORY_BYTES_def)

lemma demo_mstore_laws: "lru_laws list_lru (list_valid 2) list_read (ms_maxEntries (snd demo_mstore))"
  using list_lru_laws [of 2] by (simp add: demo_mstore_def)


text \<open>A time-to-live of at least a millisecond is not lost in the rounding of the sum.\<close>

lemma jadd_later:
  assumes "0 \<le> now" and "1 \<le> ttl" and "now + ttl \<le> 2 ^ 52"
  shows "jless (jint now) (jadd (jint now) (jint ttl))"
proof -
  let ?x = "of_int (now + ttl) :: real"
  have x: "0 \<le> ?x" "?x \<le> 2 ^ 52" using assms by (simp_all flip: of_int_add)
  have e: "\<bar>fl ?x - ?x\<bar> \<le> ?x * 2 powi (-53)" using fl_error [of ?x] x by simp
  also have "\<dots> \<le> 1 / 2" using x by (simp add: power_int_minus field_simps)
  finally have "of_int now < fl ?x" "fl ?x \<le> 2 ^ 52 + 1" using assms x by linarith+
  moreover have "(2::real) ^ 52 + 1 < 2 powi 1024" by (simp add: power_int_def)
  moreover have "- ((2::real) powi 1024) < 0" by simp
  ultimately show ?thesis using assms by (auto simp: to_num_def Let_def)
qed

definition demo_key :: CacheKey where
  "demo_key = StringKey (js ''k'')"

lemma demo_entry_size: "entry_size E demo_key [1, 2, 3, 4] = 166"
  by (simp add: entry_size_def demo_key_def ENTRY_OVERHEAD_def js_def byteLength_def)

lemma demo_write:
  "ms_setEncoded E list_lru 0 demo_key [1, 2, 3, 4] no_cache_options None demo_mstore =
    (Inr (), (snd (tryReserve (jint 166) fresh (fst demo_mstore)),
      (snd demo_mstore)\<lparr>ms_cache := Some (2, [(demo_key, \<lparr>en_buffer = [1, 2, 3, 4], en_bytes = 166, en_originalBytes = None\<rparr>,
         jadd (jint 0) (jint DEFAULT_CACHE_TTL_MS))]), ms_bytes := 166, ms_admitted := 1\<rparr>))"
proof -
  have ttl: "ms_ttl no_cache_options demo_store_options = Inr (jint DEFAULT_CACHE_TTL_MS)"
    by (simp add: ms_ttl_def no_cache_options_def no_level_def demo_store_options_def DEFAULT_CACHE_TTL_MS_def Let_def)
  have r: "tryReserve (jint (int HISTORY_BYTES)) metadata demo_budget = (True, demo_budget\<lparr>mb_used := 4096,
      mb_categories := [(metadata, 4096)], mb_admissions := 1\<rparr>)"
    by (simp add: tryReserve_def demo_budget_def small_budget_def HISTORY_BYTES_def Let_def om_get_def)
  have fb: "fst demo_mstore = demo_budget\<lparr>mb_used := 4096, mb_categories := [(metadata, 4096)], mb_admissions := 1,
      mb_clients := [7], mb_timer := True\<rparr>"
    unfolding demo_mstore_def r fst_conv snd_conv
    by (simp add: mb_register_def Let_def demo_budget_def small_budget_def small_opts_def)
  have t: "fst (tryReserve (jint 166) fresh (fst demo_mstore))"
    by (simp add: fb demo_budget_def small_budget_def tryReserve_def)
  have s1: "ms_delete list_lru demo_key demo_mstore = demo_mstore"
    by (simp add: ms_delete_def demo_mstore_def list_lru_def ms_after_def ms_dispose_def no_key_def entries_of_def)
  have q: "ms_reserve list_lru 166 demo_mstore = (True, (snd (tryReserve (jint 166) fresh (fst demo_mstore)), snd demo_mstore))"
    using t by (simp add: ms_reserve_def Let_def)
  have st: "mb_state (fst demo_mstore) = Normal" "mb_target (fst demo_mstore) = 10000" "mb_hardCap (fst demo_mstore) = 10000"
    "mb_used (fst demo_mstore) = 4096"
    by (simp_all add: fb demo_budget_def small_budget_def)
  have me: "max_entry demo_mstore = jint 2500"
    using st(3) by (simp add: max_entry_def demo_mstore_def demo_store_options_def no_cache_options_def no_level_def)
  have m: "ms_cache (snd demo_mstore) = Some (2, [])" "ms_options (snd demo_mstore) = demo_store_options"
    "ms_maxEntries (snd demo_mstore) = 2" "ms_bytes (snd demo_mstore) = 0" "ms_admitted (snd demo_mstore) = 0"
    by (simp_all add: demo_mstore_def)
  show ?thesis
    by (simp add: ms_setEncoded_def m ttl demo_entry_size st me s1 q Let_def)
      (simp add: list_lru_def ms_commit_def ms_after_def ms_dispose_def no_key_def entries_of_def m safe_original_def)
qed

theorem memory_store_run_witness:
  "newMemoryStore list_lru demo_store_options 7 demo_budget = Inr demo_mstore
   \<and> (let s = fold (ms_step demo_event_env list_lru) [MSetEncoded 0 demo_key [1, 2, 3, 4] no_cache_options None] demo_mstore in
      ms_bytes (snd s) = 166 \<and> held (fst s) fresh = held demo_budget fresh + 166 \<and> held (fst (ms_close list_lru s)) fresh = held demo_budget fresh)"
  using demo_mstore_new memory_store_run [OF demo_mstore_laws demo_mstore_new demo_budget_ok refl, where c = fresh
      and E = demo_event_env and events = "[MSetEncoded 0 demo_key [1, 2, 3, 4] no_cache_options None]"]
  by (simp add: demo_write Let_def)



end
