(* ===== verification/Cache_State.thy ===== *)
theory Cache_State
  imports Memory_Store Circuit_Breaker
begin

text \<open>
  The state of one cache instance (\<open>HybridCache\<close> of \<open>cache/hybridCache.ts\<close>) and its synchronous methods:
  the stale values kept for fail-safe reads, the negative cache, generations, seen events, key
  revisions with their mutation guards, in-flight entries and followers, and the trust in the
  invalidation stream. Between two awaits of the program these run without interruption.
\<close>

section \<open>State\<close>

record StaleEntry =
  se_encoded :: bytes
  se_bytes :: int
  se_expiresAt :: jsnum

record NegativeEntry =
  ne_expiresAt :: jsnum
  ne_bytes :: int

text \<open>A key revision is an object shared by the map and by the guards that observe it.\<close>

record KeyRevision =
  kr_value :: nat
  kr_references :: int
  kr_bytes :: int
  kr_registered :: bool

text \<open>An in-flight entry; its promise is named by a number.\<close>

record InflightEntry =
  ie_promise :: nat
  ie_bytes :: int
  ie_startedAt :: int
  ie_expiresAt :: "jsnum option"

record MutationGuard =
  mg_key :: CacheKey
  mg_state :: nat
  mg_revision :: nat
  mg_epoch :: nat
  mg_storageKey :: CacheKey
  mg_signal :: "nat option"
  mg_publicationAllowed :: bool

datatype bus_status = Connecting | Subscribed | Disconnected | BusError

record HybridCacheOptions = CacheOptions +
  hco_eventBus :: bool
  hco_subscribeToEvents :: "bool option"
  hco_eventNamespace :: "jsstr option"
  hco_eventDedupeMaxEntries :: "jsnum option"
  hco_eventDedupeTtlMs :: "jsnum option"
  hco_broadcastSet :: "bool option"
  hco_broadcastSetMaxBytes :: "jsnum option"

definition MAX_GENERATION_ENTRIES :: nat where "MAX_GENERATION_ENTRIES = 10000"
definition MAX_GENERATION_BYTES :: int where "MAX_GENERATION_BYTES = 2 * 1024 * 1024"
definition MAX_AUXILIARY_MAP_BYTES :: int where "MAX_AUXILIARY_MAP_BYTES = 2 * 1024 * 1024"
definition DEFAULT_MAX_WAITERS :: int where "DEFAULT_MAX_WAITERS = 10000"
definition FOLLOWER_METADATA_BYTES :: int where "FOLLOWER_METADATA_BYTES = 160"

text \<open>
  \<open>hc_revisions\<close> is the store of revision objects, which the map and the guards refer to by index;
  \<open>hc_aborted\<close> lists the abort controllers that have fired.
\<close>

record 'c HybridCache =
  hc_options :: HybridCacheOptions
  hc_source :: jsstr
  hc_l1 :: "'c MemoryStore option"
  hc_ownsL1 :: bool
  hc_hasL2 :: bool
  hc_budget :: "MemoryBudget option"
  hc_staleClient :: nat
  hc_staleRegistered :: bool
  hc_inflight :: "(CacheKey, InflightEntry) omap"
  hc_stale :: "(CacheKey, StaleEntry) omap"
  hc_negative :: "(CacheKey, NegativeEntry) omap"
  hc_generations :: "(jsstr, int) omap"
  hc_seenEvents :: "(jsstr, int) omap"
  hc_keyRevisions :: "(CacheKey, nat) omap"
  hc_revisions :: "KeyRevision list"
  hc_activeLeaders :: "nat list"
  hc_maxActiveLeaders :: int
  hc_maxWaiters :: jsnum
  hc_staleBytes :: int
  hc_generationBytes :: int
  hc_negativeBytes :: int
  hc_seenEventBytes :: int
  hc_keyRevisionBytes :: int
  hc_inflightBytes :: int
  hc_activeFollowers :: int
  hc_rejectedFollowers :: nat
  hc_followerBytes :: int
  hc_saturated :: bool
  hc_closed :: bool
  hc_trusted :: bool
  hc_mutationEpoch :: nat
  hc_invalidationRevision :: nat
  hc_lastBusStatus :: "bus_status option"
  hc_aborted :: "nat list"

definition own :: "'c HybridCache \<Rightarrow> CacheOptions" where
  "own h = CacheOptions.truncate (hc_options h)"

definition versioned :: "'c HybridCache \<Rightarrow> bool" where
  "versioned h \<longleftrightarrow> co_versioning (own h) = Some True"

definition coordination :: jsstr where "coordination = js ''coordination-metadata''"
definition stale_category :: jsstr where "stale_category = js ''stale''"
definition queue_category :: jsstr where "queue_category = js ''queue''"

text \<open>\<open>this.memoryBudget?.tryReserve\<close> and \<open>release\<close>; without a budget nothing is counted.\<close>

definition hc_reserve :: "int \<Rightarrow> jsstr \<Rightarrow> 'c HybridCache \<Rightarrow> bool \<times> 'c HybridCache" where
  "hc_reserve n c h = (case hc_budget h of None \<Rightarrow> (True, h)
     | Some b \<Rightarrow> let r = tryReserve (jint n) c b in (fst r, h\<lparr>hc_budget := Some (snd r)\<rparr>))"

definition hc_release :: "int \<Rightarrow> jsstr \<Rightarrow> 'c HybridCache \<Rightarrow> 'c HybridCache" where
  "hc_release n c h = h\<lparr>hc_budget := map_option (release (jint n) c) (hc_budget h)\<rparr>"

text \<open>A call on the built-in L1, which shares the cache's budget.\<close>

definition on_l1 :: "('c mstate \<Rightarrow> 'r \<times> 'c mstate) \<Rightarrow> 'r \<Rightarrow> 'c HybridCache \<Rightarrow> 'r \<times> 'c HybridCache" where
  "on_l1 f d h = (case (hc_l1 h, hc_budget h) of
     (Some m, Some b) \<Rightarrow> let r = f (b, m) in (fst r, h\<lparr>hc_l1 := Some (snd (snd r)), hc_budget := Some (fst (snd r))\<rparr>)
   | _ \<Rightarrow> (d, h))"

definition l1_deleteByPattern :: "'x event_env_scheme \<Rightarrow> 'c lru \<Rightarrow> int \<Rightarrow> jsstr \<Rightarrow> 'c HybridCache \<Rightarrow> 'c HybridCache" where
  "l1_deleteByPattern E L now pattern h = snd (on_l1 (\<lambda>s. ((), ms_deleteByPattern E L now pattern s)) () h)"

definition l1_delete :: "'c lru \<Rightarrow> CacheKey \<Rightarrow> 'c HybridCache \<Rightarrow> 'c HybridCache" where
  "l1_delete L key h = snd (on_l1 (\<lambda>s. ((), ms_delete L key s)) () h)"

definition keyMetadataBytes :: "'x event_env_scheme \<Rightarrow> CacheKey \<Rightarrow> int" where
  "keyMetadataBytes E key = int (byteLength (key_text E key)) * 2 + 96"

definition versionedCacheSafe :: "'c HybridCache \<Rightarrow> bool" where
  "versionedCacheSafe h \<longleftrightarrow> \<not> versioned h \<or> \<not> hc_saturated h"

section \<open>Stale values\<close>

definition failSafeEnabled :: "CacheOptions \<Rightarrow> 'c HybridCache \<Rightarrow> bool" where
  "failSafeEnabled options h = both_on (\<lambda>x. fo_enabled (co_failSafe x)) options (own h)"

definition removeStale :: "CacheKey \<Rightarrow> 'c HybridCache \<Rightarrow> 'c HybridCache" where
  "removeStale key h =
     (let h1 = (case om_get (hc_stale h) key of None \<Rightarrow> h
        | Some e \<Rightarrow> hc_release (se_bytes e) stale_category (h\<lparr>hc_staleBytes := hc_staleBytes h - se_bytes e\<rparr>)) in
      h1\<lparr>hc_stale := om_del (hc_stale h1) key\<rparr>)"

lemma removeStale_stale: "hc_stale (removeStale key h) = om_del (hc_stale h) key"
  by (simp add: removeStale_def hc_release_def Let_def split: option.splits)

text \<open>The loop that trims to the limits of the call, oldest first.\<close>

function trimStale :: "jsnum \<Rightarrow> jsnum \<Rightarrow> 'c HybridCache \<Rightarrow> 'c HybridCache" where
  "trimStale maxEntries maxBytes h =
     (if jless maxEntries (jint (int (length (hc_stale h)))) \<or> jless maxBytes (jint (hc_staleBytes h))
      then (case hc_stale h of [] \<Rightarrow> h | p # _ \<Rightarrow> trimStale maxEntries maxBytes (removeStale (fst p) h))
      else h)"
  by pat_completeness auto
termination
proof (relation "measure (\<lambda>(_, _, h). length (hc_stale h))")
  fix maxEntries maxBytes :: jsnum and h :: "'c HybridCache" and p m
  assume "hc_stale h = p # m"
  then show "((maxEntries, maxBytes, removeStale (fst p) h), maxEntries, maxBytes, h)
      \<in> measure (\<lambda>(_, _, h). length (hc_stale h))"
    by (simp add: removeStale_stale om_del_def le_imp_less_Suc)
qed simp

declare trimStale.simps [simp del]

definition rememberStale :: "'x event_env_scheme \<Rightarrow> int \<Rightarrow> CacheKey \<Rightarrow> jsval \<Rightarrow> CacheOptions \<Rightarrow> bytes option
    \<Rightarrow> 'c HybridCache \<Rightarrow> 'c HybridCache" where
  "rememberStale E now key v options reusable h =
     (if hc_closed h \<or> \<not> versionedCacheSafe h \<or> \<not> failSafeEnabled options h then h
      else
        let ttl = pick (\<lambda>x. fo_staleTtlMs (co_failSafe x)) options (own h) (jint DEFAULT_STALE_TTL_MS) in
        if jle ttl (jint 0) then h
        else case (case reusable of Some xs \<Rightarrow> Some xs
            | None \<Rightarrow> (case serializeWithStats E v default_options of Inl _ \<Rightarrow> None | Inr sv \<Rightarrow> Some (sv_buffer sv))) of
          None \<Rightarrow> h
        | Some encoded \<Rightarrow>
            let h1 = removeStale key h;
                maxEntries = pick (\<lambda>x. fo_maxEntries (co_failSafe x)) options (own h) (jint 1000);
                maxBytes = pick (\<lambda>x. fo_maxBytes (co_failSafe x)) options (own h) (jint (16 * 1024 * 1024)) in
            if maxEntries = jint 0 \<or> maxBytes = jint 0 then h1
            else let bytes = int (length encoded) + int (byteLength (key_text E key)) * 2 + 80 in
            if jless maxBytes (jint bytes) then h1
            else let r = hc_reserve bytes stale_category h1 in
            if \<not> fst r then snd r
            else let h2 = snd r in
              trimStale maxEntries maxBytes
                (h2\<lparr>hc_stale := om_set (hc_stale h2) key
                       \<lparr>se_encoded = encoded, se_bytes = bytes, se_expiresAt = jadd (jint now) ttl\<rparr>,
                    hc_staleBytes := hc_staleBytes h2 + bytes\<rparr>))"

text \<open>\<open>decodeValue\<close>: a miss and an undefined value read the same.\<close>

definition decodeValue :: "'x event_env_scheme \<Rightarrow> bytes \<Rightarrow> 'c HybridCache \<Rightarrow> js_error + jsval" where
  "decodeValue E encoded h = (case decodeCacheRecord E encoded (co_decodeLimits (own h)) of Inl e \<Rightarrow> Inl e
     | Inr Miss \<Rightarrow> Inr VUndefined | Inr (Hit v) \<Rightarrow> Inr v)"

definition getStale :: "'x event_env_scheme \<Rightarrow> int \<Rightarrow> CacheKey \<Rightarrow> 'c HybridCache \<Rightarrow> (js_error + jsval) \<times> 'c HybridCache" where
  "getStale E now key h = (if hc_closed h \<or> \<not> versionedCacheSafe h \<or> \<not> hc_trusted h then (Inr VUndefined, h)
     else case om_get (hc_stale h) key of None \<Rightarrow> (Inr VUndefined, h)
     | Some e \<Rightarrow> if jle (se_expiresAt e) (jint now) then (Inr VUndefined, removeStale key h)
         else (decodeValue E (se_encoded e) h, h))"

definition clearStale :: "'c HybridCache \<Rightarrow> 'c HybridCache" where
  "clearStale h = (let h1 = (if 0 < hc_staleBytes h then hc_release (hc_staleBytes h) stale_category h else h) in
     h1\<lparr>hc_stale := [], hc_staleBytes := 0\<rparr>)"

definition evictOneStale :: "'c HybridCache \<Rightarrow> bool \<times> 'c HybridCache" where
  "evictOneStale h = (case hc_stale h of [] \<Rightarrow> (False, h) | p # _ \<Rightarrow> (True, removeStale (fst p) h))"

section \<open>Negative cache\<close>

definition removeNegative :: "CacheKey \<Rightarrow> 'c HybridCache \<Rightarrow> 'c HybridCache" where
  "removeNegative key h = (case om_get (hc_negative h) key of None \<Rightarrow> h
     | Some e \<Rightarrow> (hc_release (ne_bytes e) coordination (h\<lparr>hc_negativeBytes := hc_negativeBytes h - ne_bytes e\<rparr>))
         \<lparr>hc_negative := om_del (hc_negative h) key\<rparr>)"

lemma removeNegative_head: "hc_negative h = p # m \<Longrightarrow> hc_negative (removeNegative (fst p) h) = om_del (p # m) (fst p)"
  by (cases p) (simp add: removeNegative_def hc_release_def om_get_def)

definition clearNegative :: "'c HybridCache \<Rightarrow> 'c HybridCache" where
  "clearNegative h = (hc_release (hc_negativeBytes h) coordination h)\<lparr>hc_negativeBytes := 0, hc_negative := []\<rparr>"

definition hasNegative :: "int \<Rightarrow> CacheKey \<Rightarrow> 'c HybridCache \<Rightarrow> bool \<times> 'c HybridCache" where
  "hasNegative now key h = (if hc_closed h \<or> \<not> versionedCacheSafe h \<or> \<not> hc_trusted h then (False, h)
     else case om_get (hc_negative h) key of None \<Rightarrow> (False, h)
     | Some e \<Rightarrow> if jle (ne_expiresAt e) (jint now) then (False, removeNegative key h) else (True, h))"

text \<open>The two eviction loops of \<open>setNegative\<close>: by count, then by bytes.\<close>

function evictNegativeCount :: "jsnum \<Rightarrow> 'c HybridCache \<Rightarrow> 'c HybridCache" where
  "evictNegativeCount maxEntries h =
     (if jle maxEntries (jint (int (length (hc_negative h))))
      then (case hc_negative h of [] \<Rightarrow> h | p # _ \<Rightarrow> evictNegativeCount maxEntries (removeNegative (fst p) h)) else h)"
  by pat_completeness auto
termination
proof (relation "measure (\<lambda>(_, h). length (hc_negative h))")
  fix maxEntries :: jsnum and h :: "'c HybridCache" and p m
  assume "hc_negative h = p # m"
  then show "((maxEntries, removeNegative (fst p) h), maxEntries, h) \<in> measure (\<lambda>(_, h). length (hc_negative h))"
    using removeNegative_head [of h p m] by (simp add: om_del_def le_imp_less_Suc)
qed simp

function evictNegativeBytes :: "int \<Rightarrow> 'c HybridCache \<Rightarrow> 'c HybridCache" where
  "evictNegativeBytes bytes h =
     (if MAX_AUXILIARY_MAP_BYTES < hc_negativeBytes h + bytes
      then (case hc_negative h of [] \<Rightarrow> h | p # _ \<Rightarrow> evictNegativeBytes bytes (removeNegative (fst p) h)) else h)"
  by pat_completeness auto
termination
proof (relation "measure (\<lambda>(_, h). length (hc_negative h))")
  fix bytes :: int and h :: "'c HybridCache" and p m
  assume "hc_negative h = p # m"
  then show "((bytes, removeNegative (fst p) h), bytes, h) \<in> measure (\<lambda>(_, h). length (hc_negative h))"
    using removeNegative_head [of h p m] by (simp add: om_del_def le_imp_less_Suc)
qed simp

declare evictNegativeCount.simps [simp del] evictNegativeBytes.simps [simp del]

definition setNegative :: "'x event_env_scheme \<Rightarrow> int \<Rightarrow> CacheKey \<Rightarrow> CacheOptions \<Rightarrow> 'c HybridCache \<Rightarrow> 'c HybridCache" where
  "setNegative E now key options h =
     (if hc_closed h \<or> \<not> versionedCacheSafe h \<or> \<not> hc_trusted h then h
      else if \<not> both_on (\<lambda>x. no_enabled (co_negativeCache x)) options (own h) then h
      else
        let ttl = pick (\<lambda>x. no_ttlMs (co_negativeCache x)) options (own h) (jint DEFAULT_NEGATIVE_TTL_MS) in
        if jle ttl (jint 0) then h
        else let maxEntries = pick (\<lambda>x. no_maxEntries (co_negativeCache x)) options (own h) (jint DEFAULT_NEGATIVE_MAX_ENTRIES) in
        if maxEntries = jint 0 then h
        else let h1 = evictNegativeCount maxEntries h; bytes = keyMetadataBytes E key in
        if MAX_AUXILIARY_MAP_BYTES < bytes then h1
        else let r = hc_reserve bytes coordination (evictNegativeBytes bytes (removeNegative key h1)) in
        if \<not> fst r then snd r
        else (snd r)\<lparr>hc_negative := om_set (hc_negative (snd r)) key \<lparr>ne_expiresAt = jadd (jint now) ttl, ne_bytes = bytes\<rparr>,
               hc_negativeBytes := hc_negativeBytes (snd r) + bytes\<rparr>)"

section \<open>In-flight loads and their followers\<close>

definition removeInflight :: "CacheKey \<Rightarrow> 'c HybridCache \<Rightarrow> 'c HybridCache" where
  "removeInflight key h = (case om_get (hc_inflight h) key of None \<Rightarrow> h
     | Some e \<Rightarrow> hc_release (ie_bytes e) coordination
         (h\<lparr>hc_inflight := om_del (hc_inflight h) key, hc_inflightBytes := hc_inflightBytes h - ie_bytes e\<rparr>))"

definition clearInflight :: "'c HybridCache \<Rightarrow> 'c HybridCache" where
  "clearInflight h = (hc_release (hc_inflightBytes h) coordination h)\<lparr>hc_inflightBytes := 0, hc_inflight := []\<rparr>"

definition canTrackNewInflight :: "'c HybridCache \<Rightarrow> bool" where
  "canTrackNewInflight h = (let maxEntries = nullish (io_maxEntries (co_inflight (own h))) (jint DEFAULT_INFLIGHT_MAX_ENTRIES) in
     jless (jint 0) maxEntries \<and> jless (jint (int (length (hc_inflight h)))) maxEntries)"

definition reserveInflight :: "'x event_env_scheme \<Rightarrow> CacheKey \<Rightarrow> 'c HybridCache \<Rightarrow> int option \<times> 'c HybridCache" where
  "reserveInflight E key h = (if \<not> canTrackNewInflight h then (None, h)
     else let bytes = keyMetadataBytes E key in
     if MAX_AUXILIARY_MAP_BYTES < hc_inflightBytes h + bytes then (None, h)
     else let r = hc_reserve bytes coordination h in
     if \<not> fst r then (None, snd r)
     else (Some bytes, (snd r)\<lparr>hc_inflightBytes := hc_inflightBytes (snd r) + bytes\<rparr>))"

definition isInflightExpired :: "int \<Rightarrow> InflightEntry \<Rightarrow> bool" where
  "isInflightExpired now e = (case ie_expiresAt e of None \<Rightarrow> False | Some t \<Rightarrow> jle t (jint now))"

definition pruneInflightKey :: "int \<Rightarrow> CacheKey \<Rightarrow> 'c HybridCache \<Rightarrow> 'c HybridCache" where
  "pruneInflightKey now key h = (case om_get (hc_inflight h) key of
     Some e \<Rightarrow> if isInflightExpired now e then removeInflight key h else h | None \<Rightarrow> h)"

definition inflightDisabled :: "CacheOptions \<Rightarrow> 'c HybridCache \<Rightarrow> bool" where
  "inflightDisabled options h \<longleftrightarrow> io_enabled (co_inflight options) = Some False \<or> io_enabled (co_inflight (own h)) = Some False"

text \<open>The synchronous part of \<open>getOrSet\<close> that registers a load: reserve, then enter the map.\<close>

definition startInflight :: "'x event_env_scheme \<Rightarrow> int \<Rightarrow> CacheKey \<Rightarrow> nat \<Rightarrow> jsnum option \<Rightarrow> 'c HybridCache \<Rightarrow> bool \<times> 'c HybridCache" where
  "startInflight E now key promise expiresAt h = (let r = reserveInflight E key h in
     case fst r of None \<Rightarrow> (False, snd r)
     | Some bytes \<Rightarrow> (True, (snd r)\<lparr>hc_inflight := om_set (hc_inflight (snd r)) key
         \<lparr>ie_promise = promise, ie_bytes = bytes, ie_startedAt = now, ie_expiresAt = expiresAt\<rparr>\<rparr>))"

text \<open>The \<open>finally\<close> of the load: only its own entry is removed.\<close>

definition finishInflight :: "CacheKey \<Rightarrow> nat \<Rightarrow> 'c HybridCache \<Rightarrow> 'c HybridCache" where
  "finishInflight key promise h = (case om_get (hc_inflight h) key of
     Some e \<Rightarrow> if ie_promise e = promise then removeInflight key h else h | None \<Rightarrow> h)"

text \<open>\<open>joinInflight\<close> up to its await, and its \<open>finally\<close>.\<close>

definition joinInflight :: "CacheOptions \<Rightarrow> 'c HybridCache \<Rightarrow> bool \<times> 'c HybridCache" where
  "joinInflight options h =
     (let maxWaiters = jmin (hc_maxWaiters h) (nullish (io_maxWaiters (co_inflight options)) (hc_maxWaiters h)) in
      if jle maxWaiters (jint (hc_activeFollowers h)) then (False, h\<lparr>hc_rejectedFollowers := hc_rejectedFollowers h + 1\<rparr>)
      else let r = hc_reserve FOLLOWER_METADATA_BYTES coordination h in
      if \<not> fst r then (False, (snd r)\<lparr>hc_rejectedFollowers := hc_rejectedFollowers (snd r) + 1\<rparr>)
      else (True, (snd r)\<lparr>hc_activeFollowers := hc_activeFollowers (snd r) + 1,
              hc_followerBytes := hc_followerBytes (snd r) + FOLLOWER_METADATA_BYTES\<rparr>))"

definition leaveInflight :: "'c HybridCache \<Rightarrow> 'c HybridCache" where
  "leaveInflight h = hc_release FOLLOWER_METADATA_BYTES coordination
     (h\<lparr>hc_activeFollowers := hc_activeFollowers h - 1, hc_followerBytes := hc_followerBytes h - FOLLOWER_METADATA_BYTES\<rparr>)"

section \<open>Generations\<close>

definition getGeneration :: "jsstr \<Rightarrow> 'c HybridCache \<Rightarrow> int" where
  "getGeneration key h = nullish (om_get (hc_generations h) key) 0"

definition toStorageKey :: "'x event_env_scheme \<Rightarrow> CacheKey \<Rightarrow> 'c HybridCache \<Rightarrow> CacheKey" where
  "toStorageKey E key h = (if \<not> versioned h then key
     else StringKey (key_text E key @ js ''::v'' @ js_string (nat (getGeneration (key_text E key) h))))"

definition saturateGenerationTracking :: "'x event_env_scheme \<Rightarrow> 'c lru \<Rightarrow> int \<Rightarrow> 'c HybridCache \<Rightarrow> 'c HybridCache" where
  "saturateGenerationTracking E L now h = (if hc_saturated h then h
     else l1_deleteByPattern E L now (js ''*'')
       (clearStale (clearNegative (clearInflight (h\<lparr>hc_saturated := True, hc_mutationEpoch := hc_mutationEpoch h + 1\<rparr>)))))"

definition storeGeneration :: "'x event_env_scheme \<Rightarrow> 'c lru \<Rightarrow> int \<Rightarrow> jsstr \<Rightarrow> int \<Rightarrow> 'c HybridCache \<Rightarrow> 'c HybridCache" where
  "storeGeneration E L now key generation h =
     (let bytes = keyMetadataBytes E (StringKey key) in
      if \<not> \<bar>generation\<bar> \<le> MAX_SAFE_INTEGER \<or> generation < 0 then saturateGenerationTracking E L now h
      else if om_has (hc_generations h) key then h\<lparr>hc_generations := om_set (hc_generations h) key generation\<rparr>
      else if MAX_GENERATION_ENTRIES \<le> length (hc_generations h) \<or> MAX_GENERATION_BYTES < hc_generationBytes h + bytes
      then saturateGenerationTracking E L now h
      else let r = hc_reserve bytes coordination h in
      if \<not> fst r then saturateGenerationTracking E L now (snd r)
      else (snd r)\<lparr>hc_generationBytes := hc_generationBytes (snd r) + bytes,
             hc_generations := om_set (hc_generations (snd r)) key generation\<rparr>)"

definition advanceGenerationAfterDelete :: "'x event_env_scheme \<Rightarrow> 'c lru \<Rightarrow> int \<Rightarrow> jsstr \<Rightarrow> int option \<Rightarrow> 'c HybridCache \<Rightarrow> 'c HybridCache" where
  "advanceGenerationAfterDelete E L now key generation h = (case generation of
     Some g \<Rightarrow> storeGeneration E L now key (max (getGeneration key h) g) h
   | None \<Rightarrow> storeGeneration E L now key (getGeneration key h + 1) h)"

definition advanceGenerationAfterRemoteSet :: "'x event_env_scheme \<Rightarrow> 'c lru \<Rightarrow> int \<Rightarrow> jsstr \<Rightarrow> int option \<Rightarrow> 'c HybridCache \<Rightarrow> 'c HybridCache" where
  "advanceGenerationAfterRemoteSet E L now key generation h = (case generation of None \<Rightarrow> h
     | Some g \<Rightarrow> storeGeneration E L now key (max (getGeneration key h) g) h)"

definition generationForEvent :: "jsstr \<Rightarrow> 'c HybridCache \<Rightarrow> int option" where
  "generationForEvent key h = (if hc_saturated h \<and> \<not> om_has (hc_generations h) key then None else Some (getGeneration key h))"

definition isStaleGeneration :: "jsstr \<Rightarrow> int option \<Rightarrow> 'c HybridCache \<Rightarrow> bool" where
  "isStaleGeneration key generation h = (case generation of None \<Rightarrow> False | Some g \<Rightarrow> g < getGeneration key h)"

section \<open>Seen events\<close>

definition getEventDedupeMaxEntries :: "'c HybridCache \<Rightarrow> jsnum" where
  "getEventDedupeMaxEntries h = nullish (hco_eventDedupeMaxEntries (hc_options h)) (jint 10000)"

definition getEventDedupeTtlMs :: "'c HybridCache \<Rightarrow> jsnum" where
  "getEventDedupeTtlMs h = nullish (hco_eventDedupeTtlMs (hc_options h)) (jint (5 * 60000))"

definition removeSeenEvent :: "'x event_env_scheme \<Rightarrow> jsstr \<Rightarrow> 'c HybridCache \<Rightarrow> 'c HybridCache" where
  "removeSeenEvent E eventId h = (if \<not> om_has (hc_seenEvents h) eventId then h
     else let bytes = keyMetadataBytes E (StringKey eventId) in
       hc_release bytes coordination (h\<lparr>hc_seenEvents := om_del (hc_seenEvents h) eventId,
         hc_seenEventBytes := hc_seenEventBytes h - bytes\<rparr>))"

definition hasSeenEvent :: "'x event_env_scheme \<Rightarrow> int \<Rightarrow> jsstr \<Rightarrow> 'c HybridCache \<Rightarrow> bool \<times> 'c HybridCache" where
  "hasSeenEvent E now eventId h = (case om_get (hc_seenEvents h) eventId of None \<Rightarrow> (False, h)
     | Some seenAt \<Rightarrow> if jless (getEventDedupeTtlMs h) (jint (now - seenAt)) then (False, removeSeenEvent E eventId h)
         else (True, h))"

lemma removeSeenEvent_head:
  "hc_seenEvents h = p # m \<Longrightarrow> hc_seenEvents (removeSeenEvent E (fst p) h) = om_del (p # m) (fst p)"
  by (cases p) (simp add: removeSeenEvent_def hc_release_def om_get_def om_has_def Let_def)

text \<open>The eviction loop; \<open>False\<close> when it runs out of events to evict.\<close>

function evictSeen :: "'x event_env_scheme \<Rightarrow> int \<Rightarrow> 'c HybridCache \<Rightarrow> bool \<times> 'c HybridCache" where
  "evictSeen E bytes h =
     (if jle (getEventDedupeMaxEntries h) (jint (int (length (hc_seenEvents h)))) \<or> MAX_AUXILIARY_MAP_BYTES < hc_seenEventBytes h + bytes
      then (case hc_seenEvents h of [] \<Rightarrow> (False, h) | p # _ \<Rightarrow> evictSeen E bytes (removeSeenEvent E (fst p) h))
      else (True, h))"
  by pat_completeness auto
termination
proof (relation "measure (\<lambda>(_, _, h). length (hc_seenEvents h))")
  fix E :: "'x event_env_scheme" and bytes :: int and h :: "'c HybridCache" and p m
  assume "hc_seenEvents h = p # m"
  then show "((E, bytes, removeSeenEvent E (fst p) h), E, bytes, h) \<in> measure (\<lambda>(_, _, h). length (hc_seenEvents h))"
    using removeSeenEvent_head [of h p m E] by (simp add: om_del_def le_imp_less_Suc)
qed simp

declare evictSeen.simps [simp del]

definition markEventSeen :: "'x event_env_scheme \<Rightarrow> int \<Rightarrow> jsstr \<Rightarrow> 'c HybridCache \<Rightarrow> 'c HybridCache" where
  "markEventSeen E now eventId h =
     (let bytes = keyMetadataBytes E (StringKey eventId) in
      if MAX_AUXILIARY_MAP_BYTES < bytes \<or> getEventDedupeMaxEntries h = jint 0 then h
      else let r = evictSeen E bytes (removeSeenEvent E eventId h) in
      if \<not> fst r then snd r
      else let q = hc_reserve bytes coordination (snd r) in
      if \<not> fst q then snd q
      else (snd q)\<lparr>hc_seenEvents := om_set (hc_seenEvents (snd q)) eventId now,
             hc_seenEventBytes := hc_seenEventBytes (snd q) + bytes\<rparr>)"

section \<open>Key revisions\<close>

definition observeKey :: "'x event_env_scheme \<Rightarrow> CacheKey \<Rightarrow> bool \<Rightarrow> 'c HybridCache \<Rightarrow> MutationGuard \<times> 'c HybridCache" where
  "observeKey E key mutate h =
     (let found = (case om_get (hc_keyRevisions h) key of
            Some i \<Rightarrow> (i, h)
          | None \<Rightarrow>
              let bytes = keyMetadataBytes E key; i = length (hc_revisions h);
                  r = (if hc_keyRevisionBytes h + bytes \<le> MAX_AUXILIARY_MAP_BYTES then hc_reserve bytes coordination h else (False, h));
                  h1 = (snd r)\<lparr>hc_revisions := hc_revisions (snd r) @
                         [\<lparr>kr_value = 0, kr_references = 0, kr_bytes = bytes, kr_registered = fst r\<rparr>]\<rparr> in
              (i, if fst r then h1\<lparr>hc_keyRevisions := om_set (hc_keyRevisions h1) key i,
                                   hc_keyRevisionBytes := hc_keyRevisionBytes h1 + bytes\<rparr> else h1));
          i = fst found; h2 = snd found; st = hc_revisions h2 ! i;
          st2 = st\<lparr>kr_references := kr_references st + 1, kr_value := (if mutate then kr_value st + 1 else kr_value st)\<rparr>;
          h3 = h2\<lparr>hc_revisions := (hc_revisions h2)[i := st2]\<rparr> in
      (\<lparr>mg_key = key, mg_state = i, mg_revision = kr_value st2, mg_epoch = hc_mutationEpoch h3,
        mg_storageKey = toStorageKey E key h3, mg_signal = None, mg_publicationAllowed = True\<rparr>, h3))"

definition releaseKey :: "MutationGuard \<Rightarrow> 'c HybridCache \<Rightarrow> 'c HybridCache" where
  "releaseKey guard h =
     (let i = mg_state guard; st = hc_revisions h ! i;
          st1 = st\<lparr>kr_references := kr_references st - 1\<rparr>;
          h1 = h\<lparr>hc_revisions := (hc_revisions h)[i := st1]\<rparr> in
      if kr_references st1 = 0 \<and> om_get (hc_keyRevisions h1) (mg_key guard) = Some i
      then hc_release (kr_bytes st1) coordination
        (h1\<lparr>hc_keyRevisions := om_del (hc_keyRevisions h1) (mg_key guard),
            hc_keyRevisionBytes := hc_keyRevisionBytes h1 - kr_bytes st1,
            hc_revisions := (hc_revisions h1)[i := st1\<lparr>kr_registered := False\<rparr>]\<rparr>)
      else h1)"

definition signal_aborted :: "'c HybridCache \<Rightarrow> nat option \<Rightarrow> bool" where
  "signal_aborted h sig = (case sig of None \<Rightarrow> False | Some c \<Rightarrow> c \<in> set (hc_aborted h))"

definition isCurrent :: "MutationGuard \<Rightarrow> 'c HybridCache \<Rightarrow> bool" where
  "isCurrent guard h \<longleftrightarrow> \<not> hc_closed h \<and> kr_registered (hc_revisions h ! mg_state guard) \<and> versionedCacheSafe h
     \<and> \<not> signal_aborted h (mg_signal guard) \<and> mg_epoch guard = hc_mutationEpoch h
     \<and> mg_revision guard = kr_value (hc_revisions h ! mg_state guard)"

section \<open>Trust in the invalidation stream\<close>

definition clearLocal :: "'c HybridCache \<Rightarrow> 'c HybridCache" where
  "clearLocal h = clearStale (clearNegative (clearInflight h))"

definition markInvalidationUntrusted :: "'x event_env_scheme \<Rightarrow> 'c lru \<Rightarrow> int \<Rightarrow> 'c HybridCache \<Rightarrow> 'c HybridCache" where
  "markInvalidationUntrusted E L now h = l1_deleteByPattern E L now (js ''*'') (clearLocal
     (h\<lparr>hc_invalidationRevision := hc_invalidationRevision h + 1, hc_trusted := False, hc_mutationEpoch := hc_mutationEpoch h + 1\<rparr>))"

text \<open>\<open>restoreInvalidationTrust\<close> before its await (with the revision it remembers) and after it.\<close>

definition restoreTrust_begin :: "'x event_env_scheme \<Rightarrow> 'c lru \<Rightarrow> int \<Rightarrow> 'c HybridCache \<Rightarrow> nat \<times> 'c HybridCache" where
  "restoreTrust_begin E L now h = (hc_invalidationRevision h,
     l1_deleteByPattern E L now (js ''*'') (clearLocal (h\<lparr>hc_mutationEpoch := hc_mutationEpoch h + 1\<rparr>)))"

definition restoreTrust_end :: "nat \<Rightarrow> 'c HybridCache \<Rightarrow> 'c HybridCache" where
  "restoreTrust_end revision h = (if revision \<noteq> hc_invalidationRevision h \<or> hc_closed h
       \<or> hc_lastBusStatus h \<in> {Some Connecting, Some Disconnected, Some BusError} then h
     else h\<lparr>hc_trusted := True\<rparr>)"

text \<open>The listener on the bus; \<open>subscribed\<close> starts a restoration, which then runs on its own.\<close>

definition onBusStatus :: "'x event_env_scheme \<Rightarrow> 'c lru \<Rightarrow> int \<Rightarrow> bus_status \<Rightarrow> 'c HybridCache \<Rightarrow> nat option \<times> 'c HybridCache" where
  "onBusStatus E L now status h = (if hc_closed h then (None, h)
     else let h1 = h\<lparr>hc_lastBusStatus := Some status\<rparr> in
       if status \<in> {Connecting, Disconnected, BusError} then (None, markInvalidationUntrusted E L now h1)
       else let r = restoreTrust_begin E L now h1 in (Some (fst r), snd r))"

section \<open>Deletion and closing\<close>

text \<open>
  The part of \<open>deleteLocal\<close> and \<open>deleteLocalOnly\<close> before their first await, the call into the L1
  included: nothing else runs between the revision and the eviction.
\<close>

definition deleteLocal_begin :: "'x event_env_scheme \<Rightarrow> 'c lru \<Rightarrow> int \<Rightarrow> CacheKey \<Rightarrow> int option \<Rightarrow> 'c HybridCache
    \<Rightarrow> MutationGuard \<times> 'c HybridCache" where
  "deleteLocal_begin E L now key generation h =
     (let r = observeKey E key True h;
          h1 = removeStale key (removeNegative key (removeInflight key (snd r)));
          h2 = advanceGenerationAfterDelete E L now (key_text E key) generation h1 in
      (fst r, l1_delete L (mg_storageKey (fst r)) h2))"

definition deleteByPatternLocal_begin :: "'x event_env_scheme \<Rightarrow> 'c lru \<Rightarrow> int \<Rightarrow> jsstr \<Rightarrow> 'c HybridCache \<Rightarrow> 'c HybridCache" where
  "deleteByPatternLocal_begin E L now pattern h =
     (let hit = (\<lambda>key. matchesPattern (key_text E key) pattern = Some True);
          h0 = h\<lparr>hc_mutationEpoch := hc_mutationEpoch h + 1\<rparr>;
          h1 = fold removeInflight (filter hit (map fst (hc_inflight h0))) h0;
          h2 = fold removeNegative (filter hit (map fst (hc_negative h1))) h1;
          h3 = fold removeStale (filter hit (map fst (hc_stale h2))) h2 in
      l1_deleteByPattern E L now pattern h3)"

text \<open>The synchronous part of \<open>closeResources\<close>, step by step; the gates it also closes are modelled on their own.\<close>

definition markClosed :: "'c HybridCache \<Rightarrow> 'c HybridCache" where
  "markClosed h = h\<lparr>hc_closed := True, hc_mutationEpoch := hc_mutationEpoch h + 1,
     hc_invalidationRevision := hc_invalidationRevision h + 1,
     hc_aborted := hc_activeLeaders h @ hc_aborted h, hc_activeLeaders := []\<rparr>"

definition releaseGenerations :: "'c HybridCache \<Rightarrow> 'c HybridCache" where
  "releaseGenerations h = (hc_release (hc_generationBytes h) coordination h)\<lparr>hc_generations := [], hc_generationBytes := 0\<rparr>"

definition unregister_all :: "(CacheKey, nat) omap \<Rightarrow> KeyRevision list \<Rightarrow> KeyRevision list" where
  "unregister_all m rs = fold (\<lambda>p rs. rs[snd p := (rs ! snd p)\<lparr>kr_registered := False\<rparr>]) m rs"

definition releaseSeenAndRevisions :: "'c HybridCache \<Rightarrow> 'c HybridCache" where
  "releaseSeenAndRevisions h = (hc_release (hc_seenEventBytes h + hc_keyRevisionBytes h) coordination h)
     \<lparr>hc_seenEvents := [], hc_seenEventBytes := 0, hc_keyRevisionBytes := 0,
      hc_revisions := unregister_all (hc_keyRevisions h) (hc_revisions h), hc_keyRevisions := []\<rparr>"

definition unregisterStaleBudget :: "'c HybridCache \<Rightarrow> 'c HybridCache" where
  "unregisterStaleBudget h = (case hc_budget h of None \<Rightarrow> h
     | Some b \<Rightarrow> let u = mb_unregister (hc_staleRegistered h) (hc_staleClient h) b in
         h\<lparr>hc_budget := Some (snd u), hc_staleRegistered := fst u\<rparr>)"

definition closeResources :: "'c lru \<Rightarrow> 'c HybridCache \<Rightarrow> 'c HybridCache" where
  "closeResources L h =
     (let h1 = unregisterStaleBudget (clearStale (releaseSeenAndRevisions (releaseGenerations
            (clearNegative (clearInflight (markClosed h)))))) in
      if hc_ownsL1 h1 then snd (on_l1 (\<lambda>s. ((), ms_close L s)) () h1) else h1)"

text \<open>\<open>close\<close> runs it once: \<open>closePromise\<close> is set by the first call.\<close>

definition hc_close :: "'c lru \<Rightarrow> 'c HybridCache \<Rightarrow> 'c HybridCache" where
  "hc_close L h = (if hc_closed h then h else closeResources L h)"

section \<open>Construction\<close>

text \<open>
  The constructor with the built-in L1 (\<open>l1\<close> absent) or none (\<open>l1: false\<close>); \<open>given\<close> is the memory budget
  of the options, \<open>cur\<close> the process default created earlier, and the numbers name the clients it registers. The breakers, the two gates and the
  observability hooks it also creates are separate objects.
\<close>

definition namespace_ok :: "jsstr option \<Rightarrow> bool" where
  "namespace_ok ns = (case ns of None \<Rightarrow> True | Some s \<Rightarrow> byteLength s \<le> 64 * 1024 \<and> isWellFormedUnicode s)"

definition constructor_error :: "HybridCacheOptions \<Rightarrow> js_error option" where
  "constructor_error options = first_error
     [validateCacheBudgets options,
      assertBudget ''eventDedupeMaxEntries'' (hco_eventDedupeMaxEntries options) True max_safe,
      assertBudget ''eventDedupeTtlMs'' (hco_eventDedupeTtlMs options) False max_safe,
      assertBudget ''broadcastSetMaxBytes'' (hco_broadcastSetMaxBytes options) True max_safe,
      if namespace_ok (hco_eventNamespace options) then None
        else Some (TypeError ''eventNamespace must be a well-formed Unicode string of at most 64 KiB'')]"

definition fresh_cache :: "HybridCacheOptions \<Rightarrow> jsstr \<Rightarrow> 'c MemoryStore option \<Rightarrow> bool \<Rightarrow> bool \<Rightarrow> MemoryBudget option \<Rightarrow> nat \<Rightarrow> bool \<Rightarrow> 'c HybridCache" where
  "fresh_cache options source l1 owns hasL2 budget client registered =
     \<lparr>hc_options = options, hc_source = source, hc_l1 = l1, hc_ownsL1 = owns, hc_hasL2 = hasL2, hc_budget = budget,
      hc_staleClient = client, hc_staleRegistered = registered, hc_inflight = [], hc_stale = [], hc_negative = [],
      hc_generations = [], hc_seenEvents = [], hc_keyRevisions = [], hc_revisions = [], hc_activeLeaders = [],
      hc_maxActiveLeaders = num_int (nullish (olo_maxConcurrent (co_originLoad options)) (jint 32))
        + num_int (nullish (olo_maxQueued (co_originLoad options)) (jint 1024)),
      hc_maxWaiters = nullish (io_maxWaiters (co_inflight options)) (jint DEFAULT_MAX_WAITERS),
      hc_staleBytes = 0, hc_generationBytes = 0, hc_negativeBytes = 0, hc_seenEventBytes = 0, hc_keyRevisionBytes = 0,
      hc_inflightBytes = 0, hc_activeFollowers = 0, hc_rejectedFollowers = 0, hc_followerBytes = 0, hc_saturated = False,
      hc_closed = False, hc_trusted = \<not> (hco_eventBus options \<and> not_false (hco_subscribeToEvents options)),
      hc_mutationEpoch = 0, hc_invalidationRevision = 0, hc_lastBusStatus = None, hc_aborted = []\<rparr>"

definition builtin_l1 :: "'c lru \<Rightarrow> CacheOptions \<Rightarrow> nat \<Rightarrow> MemoryBudget option \<Rightarrow> MemorySignals \<Rightarrow> MemoryBudget option
    \<Rightarrow> js_error + 'c mstate" where
  "builtin_l1 L options client given signals cur = (case resolveDecodeLimits (co_decodeLimits options) of Inl e \<Rightarrow> Inl e
     | Inr _ \<Rightarrow> (case ms_budget_for given options signals cur of Inl e \<Rightarrow> Inl e
       | Inr b \<Rightarrow> newMemoryStore L options client b))"

definition newHybridCache :: "'c lru \<Rightarrow> HybridCacheOptions \<Rightarrow> jsstr \<Rightarrow> bool \<Rightarrow> bool \<Rightarrow> MemoryBudget option \<Rightarrow> MemorySignals
    \<Rightarrow> MemoryBudget option \<Rightarrow> nat \<Rightarrow> nat \<Rightarrow> js_error + 'c HybridCache" where
  "newHybridCache L options source builtinL1 hasL2 given signals cur l1Client staleClient = (case constructor_error options of Some e \<Rightarrow> Inl e
     | None \<Rightarrow>
       (case (if builtinL1 then map_sum id (\<lambda>s. (Some (snd s), Some (fst s)))
                (builtin_l1 L (CacheOptions.truncate options) l1Client given signals cur)
              else Inr (None, given)) of
          Inl e \<Rightarrow> Inl e
        | Inr r \<Rightarrow>
            let reg = snd r \<noteq> None \<and> not_false (fo_enabled (co_failSafe options)) in
            Inr (fresh_cache options source (fst r) builtinL1 hasL2
              (if reg then map_option (mb_register staleClient) (snd r) else snd r) staleClient reg)))"

end
