(* ===== verification/Cache_Ledger.thy ===== *)
theory Cache_Ledger
  imports Cache_State
begin

text \<open>
  The byte ledger of a cache instance: every counter is the sum of its map, every map keeps its bound,
  and the shared budget holds what others hold plus exactly what this instance retains. Each
  synchronous method keeps this, so no path leaks a reservation or releases one twice.
\<close>

section \<open>Invariant\<close>

definition coord_bytes :: "'c HybridCache \<Rightarrow> int" where
  "coord_bytes h = hc_inflightBytes h + hc_negativeBytes h + hc_generationBytes h + hc_seenEventBytes h
     + hc_keyRevisionBytes h + hc_followerBytes h"

definition l1_usage :: "'c HybridCache \<Rightarrow> jsstr \<Rightarrow> int" where
  "l1_usage h c = (case hc_l1 h of None \<Rightarrow> 0
     | Some m \<Rightarrow> (if c = fresh then ms_bytes m else 0) + (if c = metadata then history_bytes m else 0))"

definition usage :: "'c HybridCache \<Rightarrow> jsstr \<Rightarrow> int" where
  "usage h c = (if c = coordination then coord_bytes h else 0) + (if c = stale_category then hc_staleBytes h else 0) + l1_usage h c"

definition stale_ok :: "'c HybridCache \<Rightarrow> bool" where
  "stale_ok h \<longleftrightarrow> om_ok (hc_stale h) \<and> hc_staleBytes h = om_sum (\<lambda>_ e. se_bytes e) (hc_stale h)
     \<and> (\<forall>p \<in> set (hc_stale h). 80 \<le> se_bytes (snd p))"

definition negative_ok :: "'x event_env_scheme \<Rightarrow> 'c HybridCache \<Rightarrow> bool" where
  "negative_ok E h \<longleftrightarrow> om_ok (hc_negative h) \<and> hc_negativeBytes h = om_sum (\<lambda>_ e. ne_bytes e) (hc_negative h)
     \<and> (\<forall>p \<in> set (hc_negative h). ne_bytes (snd p) = keyMetadataBytes E (fst p)) \<and> hc_negativeBytes h \<le> MAX_AUXILIARY_MAP_BYTES"

definition inflight_ok :: "'x event_env_scheme \<Rightarrow> 'c HybridCache \<Rightarrow> bool" where
  "inflight_ok E h \<longleftrightarrow> om_ok (hc_inflight h) \<and> hc_inflightBytes h = om_sum (\<lambda>_ e. ie_bytes e) (hc_inflight h)
     \<and> (\<forall>p \<in> set (hc_inflight h). ie_bytes (snd p) = keyMetadataBytes E (fst p)) \<and> hc_inflightBytes h \<le> MAX_AUXILIARY_MAP_BYTES"

definition generations_ok :: "'x event_env_scheme \<Rightarrow> 'c HybridCache \<Rightarrow> bool" where
  "generations_ok E h \<longleftrightarrow> om_ok (hc_generations h)
     \<and> hc_generationBytes h = om_sum (\<lambda>k _. keyMetadataBytes E (StringKey k)) (hc_generations h)
     \<and> (\<forall>p \<in> set (hc_generations h). 0 \<le> snd p \<and> snd p \<le> MAX_SAFE_INTEGER)
     \<and> length (hc_generations h) \<le> MAX_GENERATION_ENTRIES \<and> hc_generationBytes h \<le> MAX_GENERATION_BYTES"

definition seen_ok :: "'x event_env_scheme \<Rightarrow> 'c HybridCache \<Rightarrow> bool" where
  "seen_ok E h \<longleftrightarrow> om_ok (hc_seenEvents h)
     \<and> hc_seenEventBytes h = om_sum (\<lambda>k _. keyMetadataBytes E (StringKey k)) (hc_seenEvents h)
     \<and> hc_seenEventBytes h \<le> MAX_AUXILIARY_MAP_BYTES"

text \<open>The registered revision objects are exactly those in the map, each under one key.\<close>

definition revisions_ok :: "'x event_env_scheme \<Rightarrow> 'c HybridCache \<Rightarrow> bool" where
  "revisions_ok E h \<longleftrightarrow> om_ok (hc_keyRevisions h) \<and> distinct (map snd (hc_keyRevisions h))
     \<and> hc_keyRevisionBytes h = om_sum (\<lambda>k _. keyMetadataBytes E k) (hc_keyRevisions h)
     \<and> (\<forall>p \<in> set (hc_keyRevisions h). snd p < length (hc_revisions h)
          \<and> kr_bytes (hc_revisions h ! snd p) = keyMetadataBytes E (fst p))
     \<and> (\<forall>i < length (hc_revisions h). kr_registered (hc_revisions h ! i) \<longleftrightarrow> i \<in> snd ` set (hc_keyRevisions h))
     \<and> hc_keyRevisionBytes h \<le> MAX_AUXILIARY_MAP_BYTES"

definition followers_ok :: "'c HybridCache \<Rightarrow> bool" where
  "followers_ok h \<longleftrightarrow> 0 \<le> hc_activeFollowers h \<and> hc_followerBytes h = FOLLOWER_METADATA_BYTES * hc_activeFollowers h"

lemmas part_defs = stale_ok_def negative_ok_def inflight_ok_def generations_ok_def seen_ok_def revisions_ok_def followers_ok_def

definition maps_ok :: "'x event_env_scheme \<Rightarrow> 'c HybridCache \<Rightarrow> bool" where
  "maps_ok E h \<longleftrightarrow> stale_ok h \<and> negative_ok E h \<and> inflight_ok E h \<and> generations_ok E h \<and> seen_ok E h \<and> revisions_ok E h \<and> followers_ok h"

definition hc_inv :: "'x event_env_scheme \<Rightarrow> ('c \<Rightarrow> bool) \<Rightarrow> ('c \<Rightarrow> (CacheKey \<times> Entry) list) \<Rightarrow> 'c HybridCache \<Rightarrow> bool" where
  "hc_inv E valid rd h \<longleftrightarrow> maps_ok E h \<and> (case hc_budget h of None \<Rightarrow> hc_l1 h = None
     | Some b \<Rightarrow> budget_ok b \<and> (\<forall>c. usage h c \<le> held b c) \<and> (\<forall>m. hc_l1 h = Some m \<longrightarrow> ms_inv E valid rd (b, m)))"

definition hc_others :: "'c HybridCache \<Rightarrow> jsstr \<Rightarrow> int" where
  "hc_others h c = (case hc_budget h of None \<Rightarrow> 0 | Some b \<Rightarrow> held b c - usage h c)"

definition hc_keeps :: "'x event_env_scheme \<Rightarrow> ('c \<Rightarrow> bool) \<Rightarrow> ('c \<Rightarrow> (CacheKey \<times> Entry) list) \<Rightarrow> 'c HybridCache \<Rightarrow> 'c HybridCache \<Rightarrow> bool" where
  "hc_keeps E valid rd h h' \<longleftrightarrow> (hc_inv E valid rd h \<longrightarrow> hc_inv E valid rd h' \<and> hc_others h' = hc_others h)"

lemma hc_keeps_refl [simp]: "hc_keeps E valid rd h h"
  by (simp add: hc_keeps_def)

lemma hc_keeps_trans: "hc_keeps E valid rd h g \<Longrightarrow> hc_keeps E valid rd g f \<Longrightarrow> hc_keeps E valid rd h f"
  by (simp add: hc_keeps_def)

lemma hc_keeps_fold: "(\<And>x h. hc_keeps E valid rd h (f x h)) \<Longrightarrow> hc_keeps E valid rd h (fold f xs h)"
proof (induction xs arbitrary: h)
  case (Cons x xs)
  then show ?case using hc_keeps_trans [of E valid rd h "f x h"] by simp
qed simp

lemma categories [simp]:
  "coordination \<noteq> stale_category" "coordination \<noteq> fresh" "coordination \<noteq> metadata" "stale_category \<noteq> fresh" "stale_category \<noteq> metadata"
  "stale_category \<noteq> coordination" "fresh \<noteq> coordination" "metadata \<noteq> coordination" "fresh \<noteq> stale_category" "metadata \<noteq> stale_category"
  by (simp_all add: coordination_def stale_category_def fresh_def metadata_def js_def)

lemma keyMetadataBytes_pos: "96 \<le> keyMetadataBytes E key"
  by (simp add: keyMetadataBytes_def)

lemma om_sum_bounded_nonneg: "(\<And>p. p \<in> set m \<Longrightarrow> 0 \<le> w (fst p) (snd p)) \<Longrightarrow> 0 \<le> om_sum w m"
  unfolding om_sum_def by (induction m) auto

text \<open>No counter is negative.\<close>

lemma counters_nonneg:
  assumes "maps_ok E h"
  shows "0 \<le> hc_staleBytes h" "0 \<le> hc_negativeBytes h" "0 \<le> hc_inflightBytes h" "0 \<le> hc_generationBytes h"
    "0 \<le> hc_seenEventBytes h" "0 \<le> hc_keyRevisionBytes h" "0 \<le> hc_followerBytes h"
proof -
  have k: "0 \<le> keyMetadataBytes E key" for key using keyMetadataBytes_pos [of E key] by simp
  show "0 \<le> hc_staleBytes h" using assms by (force simp: maps_ok_def stale_ok_def intro!: om_sum_bounded_nonneg)
  show "0 \<le> hc_negativeBytes h" using assms k by (auto simp: maps_ok_def negative_ok_def intro!: om_sum_bounded_nonneg)
  show "0 \<le> hc_inflightBytes h" using assms k by (auto simp: maps_ok_def inflight_ok_def intro!: om_sum_bounded_nonneg)
  show "0 \<le> hc_generationBytes h" using assms k by (auto simp: maps_ok_def generations_ok_def intro!: om_sum_bounded_nonneg)
  show "0 \<le> hc_seenEventBytes h" using assms k by (auto simp: maps_ok_def seen_ok_def intro!: om_sum_bounded_nonneg)
  show "0 \<le> hc_keyRevisionBytes h" using assms k by (auto simp: maps_ok_def revisions_ok_def intro!: om_sum_bounded_nonneg)
  show "0 \<le> hc_followerBytes h" using assms by (simp add: maps_ok_def followers_ok_def FOLLOWER_METADATA_BYTES_def)
qed

lemma coord_parts:
  assumes "maps_ok E h"
  shows "hc_negativeBytes h \<le> coord_bytes h" "hc_inflightBytes h \<le> coord_bytes h" "hc_generationBytes h \<le> coord_bytes h"
    "hc_seenEventBytes h + hc_keyRevisionBytes h \<le> coord_bytes h" "hc_seenEventBytes h \<le> coord_bytes h"
    "hc_keyRevisionBytes h \<le> coord_bytes h" "hc_followerBytes h \<le> coord_bytes h"
  using counters_nonneg [OF assms] by (simp_all add: coord_bytes_def)

section \<open>Balanced steps\<close>

text \<open>
  A step that gives \<open>n\<close> bytes of a category back to the budget and to the instance's own counters, a
  step that takes them, and a step that moves no bytes.
\<close>

lemma ms_inv_budget:
  assumes "ms_inv E valid rd (b, m)" and "budget_ok b'" and "held b fresh \<le> held b' fresh" and "held b metadata \<le> held b' metadata"
  shows "ms_inv E valid rd (b', m)"
  using assms by (auto simp: ms_inv_def)

lemma balanced_release:
  assumes h: "hc_inv E valid rd h" and m: "maps_ok E h'" and l1: "hc_l1 h' = hc_l1 h"
    and b: "hc_budget h' = map_option (release (jint n) c) (hc_budget h)"
    and n: "0 \<le> n" "n \<le> usage h c" and c: "c \<noteq> fresh" "c \<noteq> metadata"
    and u: "\<And>d. usage h' d = usage h d - (if d = c then n else 0)"
  shows "hc_inv E valid rd h' \<and> hc_others h' = hc_others h"
proof (cases "hc_budget h")
  case (Some b0)
  have ok: "budget_ok b0" and le: "\<And>d. usage h d \<le> held b0 d" and ms: "\<And>m. hc_l1 h = Some m \<Longrightarrow> ms_inv E valid rd (b0, m)"
    using h Some by (auto simp: hc_inv_def)
  have hd: "held (release (jint n) c b0) d = held b0 d - (if d = c then n else 0)" for d
    using release_held [OF ok n(1)] le [of c] n(2) by simp
  have "ms_inv E valid rd (release (jint n) c b0, m)" if "hc_l1 h = Some m" for m
    using ms_inv_budget [OF ms [OF that] release_ok [OF ok]] hd c by simp
  then show ?thesis using m le l1 b u release_ok [OF ok]
    by (simp add: hc_inv_def hc_others_def Some hd fun_eq_iff)
qed (use h m l1 b in \<open>simp add: hc_inv_def hc_others_def fun_eq_iff\<close>)

lemma reserve_budget:
  assumes "hc_inv E valid rd h" and n: "0 \<le> n"
  shows "hc_inv E valid rd (snd (hc_reserve n c h))"
    and "hc_others (snd (hc_reserve n c h)) d = hc_others h d + (if hc_budget h \<noteq> None \<and> fst (hc_reserve n c h) \<and> d = c then n else 0)"
proof -
  have "hc_inv E valid rd (snd (hc_reserve n c h)) \<and> hc_others (snd (hc_reserve n c h)) d
      = hc_others h d + (if hc_budget h \<noteq> None \<and> fst (hc_reserve n c h) \<and> d = c then n else 0)"
  proof (cases "hc_budget h")
    case (Some b0)
    let ?b = "snd (tryReserve (jint n) c b0)"
    have ok: "budget_ok ?b" and le: "\<And>d. held b0 d \<le> held ?b d"
      using assms Some tryReserve_held [OF n, of c b0] by (auto simp: hc_inv_def tryReserve_ok)
    have use: "usage (h\<lparr>hc_budget := x\<rparr>) = usage h" "maps_ok E (h\<lparr>hc_budget := x\<rparr>) = maps_ok E h" for x
      by (auto simp: usage_def l1_usage_def coord_bytes_def fun_eq_iff maps_ok_def part_defs)
    have "ms_inv E valid rd (?b, m)" if "hc_l1 h = Some m" for m
      using assms(1) Some that by (intro ms_inv_budget [OF _ ok le le]) (simp add: hc_inv_def)
    then show ?thesis using assms(1) Some ok le order_trans [OF _ le]
      by (simp add: hc_inv_def hc_reserve_def hc_others_def Let_def use tryReserve_held [OF n])
  qed (use assms in \<open>simp add: hc_reserve_def\<close>)
  then show "hc_inv E valid rd (snd (hc_reserve n c h))"
    "hc_others (snd (hc_reserve n c h)) d = hc_others h d + (if hc_budget h \<noteq> None \<and> fst (hc_reserve n c h) \<and> d = c then n else 0)"
    by blast+
qed

lemma balanced_reserve:
  assumes h: "hc_inv E valid rd h" and r: "fst (hc_reserve n c h)" and n: "0 \<le> n"
    and m: "maps_ok E h'" and l1: "hc_l1 h' = hc_l1 h" and b: "hc_budget h' = hc_budget (snd (hc_reserve n c h))"
    and u: "\<And>d. usage h' d = usage h d + (if d = c then n else 0)"
  shows "hc_inv E valid rd h' \<and> hc_others h' = hc_others h"
proof (cases "hc_budget h")
  case (Some b0)
  let ?b = "snd (tryReserve (jint n) c b0)"
  have f: "fst (tryReserve (jint n) c b0)" "hc_budget h' = Some ?b" using r b Some by (simp_all add: hc_reserve_def Let_def)
  have hd: "held ?b d = held b0 d + (if d = c then n else 0)" for d using tryReserve_held [OF n, of c b0] f(1) by simp
  note i = reserve_budget(1) [OF h n, of c]
  have "ms_inv E valid rd (?b, m)" if "hc_l1 h = Some m" for m
    using i Some that by (simp add: hc_inv_def hc_reserve_def Let_def)
  moreover have "budget_ok ?b" "\<And>d. usage h d \<le> held b0 d" using h i Some by (simp_all add: hc_inv_def hc_reserve_def Let_def)
  ultimately show ?thesis using m l1 f(2) u Some by (simp add: hc_inv_def hc_others_def hd fun_eq_iff)
qed (use h m l1 b in \<open>simp add: hc_inv_def hc_others_def hc_reserve_def fun_eq_iff\<close>)

lemma balanced_same:
  assumes "hc_inv E valid rd h" and "maps_ok E h'" and "hc_l1 h' = hc_l1 h" and "hc_budget h' = hc_budget h" and "usage h' = usage h"
  shows "hc_inv E valid rd h' \<and> hc_others h' = hc_others h"
  using assms by (simp add: hc_inv_def hc_others_def fun_eq_iff split: option.splits)

lemma inv_maps: "hc_inv E valid rd h \<Longrightarrow> maps_ok E h"
  by (simp add: hc_inv_def)

lemma failed_reserve:
  assumes "hc_inv E valid rd h" and "\<not> fst (hc_reserve n c h)" and "0 \<le> n"
  shows "hc_inv E valid rd (snd (hc_reserve n c h)) \<and> hc_others (snd (hc_reserve n c h)) = hc_others h"
  using reserve_budget [OF assms(1,3), of c] assms(2) by (simp add: fun_eq_iff)

section \<open>The methods keep the ledger\<close>

lemmas usage_defs = usage_def l1_usage_def coord_bytes_def

lemma om_get_entry: "om_get m k = Some v \<Longrightarrow> (k, v) \<in> set m"
  by (simp add: om_get_def map_of_SomeD)

lemma set_om_del: "set (om_del m k) = {p \<in> set m. fst p \<noteq> k}"
  by (simp add: om_del_def)

text \<open>Removing one weighted entry: the sum falls by its weight, which the sum bounds.\<close>

lemma om_sum_removed:
  assumes "om_ok m" and "om_get m k = Some v" and "\<And>p. p \<in> set m \<Longrightarrow> 0 \<le> w (fst p) (snd p)"
  shows "om_sum w (om_del m k) = om_sum w m - w k v" and "0 \<le> w k v" and "w k v \<le> om_sum w m"
proof -
  show d: "om_sum w (om_del m k) = om_sum w m - w k v" using om.total_del [OF assms(1), of w k] assms(2) by simp
  show "0 \<le> w k v" using assms(3) [OF om_get_entry [OF assms(2)]] by simp
  have "0 \<le> om_sum w (om_del m k)" using assms(3) by (auto simp: set_om_del intro!: om_sum_bounded_nonneg)
  then show "w k v \<le> om_sum w m" using d by simp
qed

lemma removeStale_keeps: "hc_keeps E valid rd h (removeStale key h)"
proof (cases "om_get (hc_stale h) key")
  case None
  then have "om_del (hc_stale h) key = hc_stale h" by (intro om_del_absent) (simp add: om_get_None)
  then have "removeStale key h = h" using None by (simp add: removeStale_def Let_def)
  then show ?thesis by simp
next
  case (Some e)
  show ?thesis unfolding hc_keeps_def
  proof
    assume h: "hc_inv E valid rd h"
    then have m: "maps_ok E h" by (rule inv_maps)
    then have st: "stale_ok h" by (simp add: maps_ok_def)
    have w: "\<And>p. p \<in> set (hc_stale h) \<Longrightarrow> 0 \<le> se_bytes (snd p)" using st by (force simp: stale_ok_def)
    note rm = om_sum_removed [where w = "\<lambda>_ e. se_bytes e", OF _ Some w]
    have ok: "om_ok (hc_stale h)" using st by (simp add: stale_ok_def)
    show "hc_inv E valid rd (removeStale key h) \<and> hc_others (removeStale key h) = hc_others h"
    proof (rule balanced_release [OF h, where n = "se_bytes e" and c = stale_category])
      show "maps_ok E (removeStale key h)" using m st rm(1) [OF ok] Some
        by (auto simp: maps_ok_def part_defs removeStale_def hc_release_def Let_def om_ok_del set_om_del)
      show "se_bytes e \<le> usage h stale_category" using rm(3) [OF ok] st
        by (simp add: usage_defs stale_ok_def split: option.splits)
    qed (use Some rm(2) [OF ok] in \<open>auto simp: removeStale_def hc_release_def Let_def usage_defs\<close>)
  qed
qed

lemma trimStale_keeps: "hc_keeps E valid rd h (trimStale maxEntries maxBytes h)"
proof (induction maxEntries maxBytes h rule: trimStale.induct)
  case (1 maxEntries maxBytes h)
  show ?case
  proof (cases "hc_stale h")
    case Nil
    then show ?thesis by (subst trimStale.simps) simp
  next
    case (Cons p m)
    then show ?thesis using 1 Cons hc_keeps_trans [OF removeStale_keeps [of E valid rd h "fst p"]]
      by (subst trimStale.simps) simp
  qed
qed

lemma clearStale_keeps: "hc_keeps E valid rd h (clearStale h)"
  unfolding hc_keeps_def
proof
  assume h: "hc_inv E valid rd h"
  then have m: "maps_ok E h" by (rule inv_maps)
  have m': "maps_ok E (clearStale h)" using m by (simp add: maps_ok_def part_defs clearStale_def hc_release_def Let_def)
  show "hc_inv E valid rd (clearStale h) \<and> hc_others (clearStale h) = hc_others h"
  proof (cases "0 < hc_staleBytes h")
    case True
    then show ?thesis using m'
      by (intro balanced_release [OF h, where n = "hc_staleBytes h" and c = stale_category])
        (auto simp: clearStale_def hc_release_def Let_def usage_defs split: option.splits)
  next
    case False
    then have "hc_staleBytes h = 0" using counters_nonneg(1) [OF m] by simp
    then show ?thesis using m' by (intro balanced_same [OF h]) (auto simp: clearStale_def Let_def usage_defs fun_eq_iff)
  qed
qed

text \<open>A reservation that fails changes nothing that is counted, and one that succeeds leaves the maps alone.\<close>

lemma reserve_fail_keeps: "\<not> fst (hc_reserve n c h) \<Longrightarrow> 0 \<le> n \<Longrightarrow> hc_keeps E valid rd h (snd (hc_reserve n c h))"
  using failed_reserve [of E valid rd h n c] by (simp add: hc_keeps_def)

lemma reserve_cases:
  obtains b where "snd (hc_reserve n c h) = h\<lparr>hc_budget := b\<rparr>"
proof
  show "snd (hc_reserve n c h) = h\<lparr>hc_budget := hc_budget (snd (hc_reserve n c h))\<rparr>"
    by (simp add: hc_reserve_def Let_def split: option.splits)
qed

lemma stale_add_keeps:
  assumes n: "80 \<le> se_bytes e" and r: "fst (hc_reserve (se_bytes e) stale_category h)" and new: "om_get (hc_stale h) key = None"
  defines "h1 \<equiv> snd (hc_reserve (se_bytes e) stale_category h)"
  shows "hc_keeps E valid rd h (h1\<lparr>hc_stale := om_set (hc_stale h1) key e, hc_staleBytes := hc_staleBytes h1 + se_bytes e\<rparr>)"
  unfolding hc_keeps_def
proof
  assume h: "hc_inv E valid rd h"
  then have m: "maps_ok E h" by (rule inv_maps)
  obtain b where h1: "h1 = h\<lparr>hc_budget := b\<rparr>" unfolding h1_def by (rule reserve_cases)
  have "om_ok (hc_stale h)" using m by (simp add: maps_ok_def stale_ok_def)
  note add = om_sum_set [OF this, of "\<lambda>_ e. se_bytes e" key e] om_ok_set [OF this, of key e] set_om_set [of "hc_stale h" key e]
  show "hc_inv E valid rd (h1\<lparr>hc_stale := om_set (hc_stale h1) key e, hc_staleBytes := hc_staleBytes h1 + se_bytes e\<rparr>)
    \<and> hc_others (h1\<lparr>hc_stale := om_set (hc_stale h1) key e, hc_staleBytes := hc_staleBytes h1 + se_bytes e\<rparr>) = hc_others h"
  proof (rule balanced_reserve [OF h r])
    show "maps_ok E (h1\<lparr>hc_stale := om_set (hc_stale h1) key e, hc_staleBytes := hc_staleBytes h1 + se_bytes e\<rparr>)"
      using m add n new by (auto simp: maps_ok_def part_defs h1)
    show "hc_budget (h1\<lparr>hc_stale := om_set (hc_stale h1) key e, hc_staleBytes := hc_staleBytes h1 + se_bytes e\<rparr>)
        = hc_budget (snd (hc_reserve (se_bytes e) stale_category h))" by (simp add: h1_def)
  qed (use n in \<open>simp_all add: h1 usage_defs\<close>)
qed

lemma rememberStale_keeps: "hc_keeps E valid rd h (rememberStale E now key v options reusable h)"
proof -
  have gone: "om_get (hc_stale (removeStale key h)) key = None" by (simp add: removeStale_stale om_get_del)
  have add: "hc_keeps E valid rd h (trimStale x y
      ((snd (hc_reserve n stale_category (removeStale key h)))\<lparr>hc_stale := om_set (hc_stale (snd (hc_reserve n stale_category (removeStale key h)))) key
          \<lparr>se_encoded = xs, se_bytes = n, se_expiresAt = t\<rparr>,
         hc_staleBytes := hc_staleBytes (snd (hc_reserve n stale_category (removeStale key h))) + n\<rparr>))"
    if "fst (hc_reserve n stale_category (removeStale key h))" and "80 \<le> n" for n xs t x y
    using that stale_add_keeps [OF _ _ gone, of "\<lparr>se_encoded = xs, se_bytes = n, se_expiresAt = t\<rparr>"]
    by (intro hc_keeps_trans [OF hc_keeps_trans [OF removeStale_keeps] trimStale_keeps]) simp
  have fail: "hc_keeps E valid rd h (snd (hc_reserve n stale_category (removeStale key h)))"
    if "\<not> fst (hc_reserve n stale_category (removeStale key h))" and "80 \<le> n" for n
    using that by (intro hc_keeps_trans [OF removeStale_keeps reserve_fail_keeps]) auto
  show ?thesis unfolding rememberStale_def Let_def
    by (auto split: option.splits sum.splits intro!: add fail removeStale_keeps)
qed

text \<open>The same two moves on a coordination map.\<close>

lemma coord_release:
  assumes h: "hc_inv E valid rd h" and m: "maps_ok E h'" and l1: "hc_l1 h' = hc_l1 h"
    and b: "hc_budget h' = map_option (release (jint n) coordination) (hc_budget h)" and n: "0 \<le> n" "n \<le> coord_bytes h"
    and u: "coord_bytes h' = coord_bytes h - n" "hc_staleBytes h' = hc_staleBytes h"
  shows "hc_inv E valid rd h' \<and> hc_others h' = hc_others h"
  using n u l1 by (intro balanced_release [OF h m l1 b]) (auto simp: usage_def l1_usage_def split: option.splits)

lemma coord_reserve:
  assumes h: "hc_inv E valid rd h" and r: "fst (hc_reserve n coordination h)" and n: "0 \<le> n" and m: "maps_ok E h'"
    and l1: "hc_l1 h' = hc_l1 h" and b: "hc_budget h' = hc_budget (snd (hc_reserve n coordination h))"
    and u: "coord_bytes h' = coord_bytes h + n" "hc_staleBytes h' = hc_staleBytes h"
  shows "hc_inv E valid rd h' \<and> hc_others h' = hc_others h"
  using u l1 by (intro balanced_reserve [OF h r n m l1 b]) (auto simp: usage_def l1_usage_def)

lemma removeNegative_keeps: "hc_keeps E valid rd h (removeNegative key h)"
proof (cases "om_get (hc_negative h) key")
  case (Some e)
  show ?thesis unfolding hc_keeps_def
  proof
    assume h: "hc_inv E valid rd h"
    then have m: "maps_ok E h" by (rule inv_maps)
    then have ok: "om_ok (hc_negative h)" and w: "\<And>p. p \<in> set (hc_negative h) \<Longrightarrow> 0 \<le> ne_bytes (snd p)"
      using keyMetadataBytes_pos [of E] by (auto simp: maps_ok_def negative_ok_def intro: order_trans [of 0 96])
    note rm = om_sum_removed [where w = "\<lambda>_ e. ne_bytes e", OF ok Some w]
    show "hc_inv E valid rd (removeNegative key h) \<and> hc_others (removeNegative key h) = hc_others h"
    proof (rule coord_release [OF h, where n = "ne_bytes e"])
      show "maps_ok E (removeNegative key h)" using m rm Some
        by (auto simp: maps_ok_def part_defs removeNegative_def hc_release_def om_ok_del set_om_del)
      show "ne_bytes e \<le> coord_bytes h" using rm(3) coord_parts(1) [OF m] m by (simp add: maps_ok_def negative_ok_def)
    qed (use Some rm(2) in \<open>simp_all add: removeNegative_def hc_release_def coord_bytes_def\<close>)
  qed
qed (simp add: removeNegative_def)

lemma clearNegative_keeps: "hc_keeps E valid rd h (clearNegative h)"
  unfolding hc_keeps_def
proof
  assume h: "hc_inv E valid rd h"
  note m = inv_maps [OF h]
  show "hc_inv E valid rd (clearNegative h) \<and> hc_others (clearNegative h) = hc_others h"
    using m counters_nonneg(2) [OF m] coord_parts(1) [OF m]
    by (intro coord_release [OF h, where n = "hc_negativeBytes h"])
      (auto simp: maps_ok_def part_defs clearNegative_def hc_release_def coord_bytes_def MAX_AUXILIARY_MAP_BYTES_def)
qed

lemma removeInflight_keeps: "hc_keeps E valid rd h (removeInflight key h)"
proof (cases "om_get (hc_inflight h) key")
  case (Some e)
  show ?thesis unfolding hc_keeps_def
  proof
    assume h: "hc_inv E valid rd h"
    then have m: "maps_ok E h" by (rule inv_maps)
    then have ok: "om_ok (hc_inflight h)" and w: "\<And>p. p \<in> set (hc_inflight h) \<Longrightarrow> 0 \<le> ie_bytes (snd p)"
      using keyMetadataBytes_pos [of E] by (auto simp: maps_ok_def inflight_ok_def intro: order_trans [of 0 96])
    note rm = om_sum_removed [where w = "\<lambda>_ e. ie_bytes e", OF ok Some w]
    show "hc_inv E valid rd (removeInflight key h) \<and> hc_others (removeInflight key h) = hc_others h"
    proof (rule coord_release [OF h, where n = "ie_bytes e"])
      show "maps_ok E (removeInflight key h)" using m rm Some
        by (auto simp: maps_ok_def part_defs removeInflight_def hc_release_def om_ok_del set_om_del)
      show "ie_bytes e \<le> coord_bytes h" using rm(3) coord_parts(2) [OF m] m by (simp add: maps_ok_def inflight_ok_def)
    qed (use Some rm(2) in \<open>simp_all add: removeInflight_def hc_release_def coord_bytes_def\<close>)
  qed
qed (simp add: removeInflight_def)

lemma clearInflight_keeps: "hc_keeps E valid rd h (clearInflight h)"
  unfolding hc_keeps_def
proof
  assume h: "hc_inv E valid rd h"
  note m = inv_maps [OF h]
  show "hc_inv E valid rd (clearInflight h) \<and> hc_others (clearInflight h) = hc_others h"
    using m counters_nonneg(3) [OF m] coord_parts(2) [OF m]
    by (intro coord_release [OF h, where n = "hc_inflightBytes h"])
      (auto simp: maps_ok_def part_defs clearInflight_def hc_release_def coord_bytes_def MAX_AUXILIARY_MAP_BYTES_def)
qed

lemma removeSeenEvent_keeps: "hc_keeps E valid rd h (removeSeenEvent E eventId h)"
proof (cases "om_get (hc_seenEvents h) eventId")
  case (Some t)
  let ?n = "keyMetadataBytes E (StringKey eventId)"
  show ?thesis unfolding hc_keeps_def
  proof
    assume h: "hc_inv E valid rd h"
    then have m: "maps_ok E h" by (rule inv_maps)
    then have ok: "om_ok (hc_seenEvents h)" by (simp add: maps_ok_def seen_ok_def)
    have w: "0 \<le> keyMetadataBytes E k" for k using keyMetadataBytes_pos [of E k] by simp
    note rm = om_sum_removed [where w = "\<lambda>k _. keyMetadataBytes E (StringKey k)", OF ok Some w]
    show "hc_inv E valid rd (removeSeenEvent E eventId h) \<and> hc_others (removeSeenEvent E eventId h) = hc_others h"
    proof (rule coord_release [OF h, where n = ?n])
      show "maps_ok E (removeSeenEvent E eventId h)" using m rm Some
        by (auto simp: maps_ok_def part_defs removeSeenEvent_def hc_release_def om_ok_del om_has_def Let_def)
      show "?n \<le> coord_bytes h" using rm(3) coord_parts(5) [OF m] m by (simp add: maps_ok_def seen_ok_def)
    qed (use Some rm(2) in \<open>simp_all add: removeSeenEvent_def hc_release_def coord_bytes_def om_has_def Let_def\<close>)
  qed
qed (simp add: removeSeenEvent_def om_has_def)

lemma getStale_keeps: "hc_keeps E valid rd h (snd (getStale E now key h))"
  by (auto simp: getStale_def removeStale_keeps split: option.splits)

lemma hasNegative_keeps: "hc_keeps E valid rd h (snd (hasNegative now key h))"
  by (auto simp: hasNegative_def removeNegative_keeps split: option.splits)

lemma hasSeenEvent_keeps: "hc_keeps E valid rd h (snd (hasSeenEvent E now eventId h))"
  by (auto simp: hasSeenEvent_def removeSeenEvent_keeps split: option.splits)

lemma evictOneStale_keeps: "hc_keeps E valid rd h (snd (evictOneStale h))"
  by (auto simp: evictOneStale_def removeStale_keeps split: list.splits)

lemma evictNegative_keeps:
  "hc_keeps E valid rd h (evictNegativeCount maxEntries h)" "hc_keeps E valid rd h (evictNegativeBytes bytes h)"
proof -
  show "hc_keeps E valid rd h (evictNegativeCount maxEntries h)"
  proof (induction maxEntries h rule: evictNegativeCount.induct)
    case (1 maxEntries h)
    then show ?case using hc_keeps_trans [OF removeNegative_keeps [of E valid rd h]]
      by (subst evictNegativeCount.simps) (auto split: list.splits)
  qed
  show "hc_keeps E valid rd h (evictNegativeBytes bytes h)"
  proof (induction bytes h rule: evictNegativeBytes.induct)
    case (1 bytes h)
    then show ?case using hc_keeps_trans [OF removeNegative_keeps [of E valid rd h]]
      by (subst evictNegativeBytes.simps) (auto split: list.splits)
  qed
qed

lemma evictSeen_keeps: "hc_keeps E valid rd h (snd (evictSeen E bytes h))"
proof (induction E bytes h rule: evictSeen.induct)
  case (1 E bytes h)
  then show ?case using hc_keeps_trans [OF removeSeenEvent_keeps [of E valid rd h]]
    by (subst evictSeen.simps) (auto split: list.splits)
qed

lemma evictNegativeBytes_exit:
  "hc_inv E valid rd h \<Longrightarrow> bytes \<le> MAX_AUXILIARY_MAP_BYTES
    \<Longrightarrow> hc_negativeBytes (evictNegativeBytes bytes h) + bytes \<le> MAX_AUXILIARY_MAP_BYTES"
proof (induction bytes h rule: evictNegativeBytes.induct)
  case (1 bytes h)
  have "hc_negativeBytes h = 0" if "hc_negative h = []"
    using inv_maps [OF 1(2)] that by (simp add: maps_ok_def negative_ok_def)
  moreover have "hc_inv E valid rd (removeNegative key h)" for key
    using removeNegative_keeps [of E valid rd h key] 1(2) by (simp add: hc_keeps_def)
  ultimately show ?case using 1(1,3) by (subst evictNegativeBytes.simps) (auto split: list.splits)
qed

lemma evictNegativeBytes_absent:
  "om_get (hc_negative h) key = None \<Longrightarrow> om_get (hc_negative (evictNegativeBytes bytes h)) key = None"
proof (induction bytes h rule: evictNegativeBytes.induct)
  case (1 bytes h)
  have "om_get (hc_negative (removeNegative k h)) key = None" for k
    using 1(2) by (simp add: removeNegative_def hc_release_def om_get_del split: option.splits)
  then show ?case using 1 by (subst evictNegativeBytes.simps) (auto split: list.splits)
qed

lemma removeNegative_gone: "om_get (hc_negative (removeNegative key h)) key = None"
  by (simp add: removeNegative_def hc_release_def om_get_del split: option.splits)

lemma negative_add_keeps:
  assumes e: "ne_bytes e = keyMetadataBytes E key" and r: "fst (hc_reserve (ne_bytes e) coordination h)"
    and new: "om_get (hc_negative h) key = None" and room: "hc_negativeBytes h + ne_bytes e \<le> MAX_AUXILIARY_MAP_BYTES"
    and h: "hc_inv E valid rd h"
  defines "h1 \<equiv> snd (hc_reserve (ne_bytes e) coordination h)"
  defines "h2 \<equiv> h1\<lparr>hc_negative := om_set (hc_negative h1) key e, hc_negativeBytes := hc_negativeBytes h1 + ne_bytes e\<rparr>"
  shows "hc_inv E valid rd h2 \<and> hc_others h2 = hc_others h"
proof -
  note m = inv_maps [OF h]
  obtain b where h1: "h1 = h\<lparr>hc_budget := b\<rparr>" unfolding h1_def by (rule reserve_cases)
  have "om_ok (hc_negative h)" using m by (simp add: maps_ok_def negative_ok_def)
  note add = om_sum_set [OF this, of "\<lambda>_ e. ne_bytes e" key e] om_ok_set [OF this, of key e] set_om_set [of "hc_negative h" key e]
  have "0 \<le> ne_bytes e" using e keyMetadataBytes_pos [of E key] by simp
  then show ?thesis
  proof (intro coord_reserve [OF h r])
    show "maps_ok E h2" using m add e new room by (auto simp: maps_ok_def part_defs h1 h2_def)
    show "hc_budget h2 = hc_budget (snd (hc_reserve (ne_bytes e) coordination h))" by (simp add: h1_def h2_def)
  qed (simp_all add: h1 h2_def coord_bytes_def)
qed

lemma setNegative_keeps: "hc_keeps E valid rd h (setNegative E now key options h)"
proof -
  let ?n = "keyMetadataBytes E key"
  have main: "hc_keeps E valid rd h1 ((snd r)\<lparr>hc_negative := om_set (hc_negative (snd r)) key \<lparr>ne_expiresAt = t, ne_bytes = ?n\<rparr>,
        hc_negativeBytes := hc_negativeBytes (snd r) + ?n\<rparr>)"
    if "?n \<le> MAX_AUXILIARY_MAP_BYTES" and "r = hc_reserve ?n coordination (evictNegativeBytes ?n (removeNegative key h1))" and "fst r"
    for h1 :: "'b HybridCache" and r t
  proof -
    let ?h2 = "evictNegativeBytes ?n (removeNegative key h1)"
    have ab: "om_get (hc_negative ?h2) key = None" by (rule evictNegativeBytes_absent [OF removeNegative_gone])
    have "hc_keeps E valid rd ?h2 ((snd r)\<lparr>hc_negative := om_set (hc_negative (snd r)) key \<lparr>ne_expiresAt = t, ne_bytes = ?n\<rparr>,
        hc_negativeBytes := hc_negativeBytes (snd r) + ?n\<rparr>)"
      if i: "hc_inv E valid rd (removeNegative key h1)"
      unfolding hc_keeps_def
      using negative_add_keeps [of "\<lparr>ne_expiresAt = t, ne_bytes = ?n\<rparr>" E key ?h2 valid rd] \<open>fst r\<close> \<open>r = _\<close>
        evictNegativeBytes_exit [OF i] \<open>?n \<le> _\<close> ab by simp
    then show ?thesis
      using hc_keeps_trans [OF removeNegative_keeps [of E valid rd h1 key] evictNegative_keeps(2) [of E valid rd _ ?n]]
        removeNegative_keeps [of E valid rd h1 key]
      by (simp add: hc_keeps_def)
  qed
  have fail: "hc_keeps E valid rd h1 (snd (hc_reserve ?n coordination (evictNegativeBytes ?n (removeNegative key h1))))"
    if "\<not> fst (hc_reserve ?n coordination (evictNegativeBytes ?n (removeNegative key h1)))" for h1 :: "'b HybridCache"
    using that keyMetadataBytes_pos [of E key]
    by (intro hc_keeps_trans [OF hc_keeps_trans [OF removeNegative_keeps evictNegative_keeps(2)] reserve_fail_keeps]) auto
  show ?thesis unfolding setNegative_def Let_def
    by (simp add: evictNegative_keeps(1) hc_keeps_trans [OF evictNegative_keeps(1) fail]
        hc_keeps_trans [OF evictNegative_keeps(1) main [OF _ refl]])
qed

lemma evictSeen_exit:
  "hc_inv E valid rd h \<Longrightarrow> fst (evictSeen E bytes h) \<Longrightarrow> hc_seenEventBytes (snd (evictSeen E bytes h)) + bytes \<le> MAX_AUXILIARY_MAP_BYTES"
proof (induction E bytes h rule: evictSeen.induct)
  case (1 E bytes h)
  have "hc_inv E valid rd (removeSeenEvent E key h)" for key
    using removeSeenEvent_keeps [of E valid rd h key] 1(2) by (simp add: hc_keeps_def)
  then show ?case using 1(1,3) by (subst evictSeen.simps, subst (asm) (3) evictSeen.simps) (auto split: list.splits if_splits)
qed

lemma removeSeenEvent_get: "om_get (hc_seenEvents (removeSeenEvent E k h)) key = (if k = key then None else om_get (hc_seenEvents h) key)"
  by (auto simp: removeSeenEvent_def hc_release_def om_get_del om_has_def Let_def)

lemma evictSeen_absent: "om_get (hc_seenEvents h) key = None \<Longrightarrow> om_get (hc_seenEvents (snd (evictSeen E bytes h))) key = None"
proof (induction E bytes h rule: evictSeen.induct)
  case (1 E bytes h)
  then show ?case by (subst evictSeen.simps) (auto simp: removeSeenEvent_get split: list.splits)
qed

lemma seen_add_keeps:
  fixes t :: int
  assumes r: "fst (hc_reserve (keyMetadataBytes E (StringKey key)) coordination h)" and new: "om_get (hc_seenEvents h) key = None"
    and room: "hc_seenEventBytes h + keyMetadataBytes E (StringKey key) \<le> MAX_AUXILIARY_MAP_BYTES" and h: "hc_inv E valid rd h"
  defines "h1 \<equiv> snd (hc_reserve (keyMetadataBytes E (StringKey key)) coordination h)"
  defines "h2 \<equiv> h1\<lparr>hc_seenEvents := om_set (hc_seenEvents h1) key t,
     hc_seenEventBytes := hc_seenEventBytes h1 + keyMetadataBytes E (StringKey key)\<rparr>"
  shows "hc_inv E valid rd h2 \<and> hc_others h2 = hc_others h"
proof -
  note m = inv_maps [OF h]
  obtain b where h1: "h1 = h\<lparr>hc_budget := b\<rparr>" unfolding h1_def by (rule reserve_cases)
  have "om_ok (hc_seenEvents h)" using m by (simp add: maps_ok_def seen_ok_def)
  note add = om_sum_set [OF this, of "\<lambda>k _. keyMetadataBytes E (StringKey k)" key t] om_ok_set [OF this, of key t]
  have "0 \<le> keyMetadataBytes E (StringKey key)" using keyMetadataBytes_pos [of E "StringKey key"] by simp
  then show ?thesis
  proof (intro coord_reserve [OF h r])
    show "maps_ok E h2" using m add new room by (auto simp: maps_ok_def part_defs h1 h2_def)
    show "hc_budget h2 = hc_budget (snd (hc_reserve (keyMetadataBytes E (StringKey key)) coordination h))" by (simp add: h1_def h2_def)
  qed (simp_all add: h1 h2_def coord_bytes_def)
qed

lemma markEventSeen_keeps: "hc_keeps E valid rd h (markEventSeen E now eventId h)"
proof -
  let ?n = "keyMetadataBytes E (StringKey eventId)" and ?r = "evictSeen E (keyMetadataBytes E (StringKey eventId)) (removeSeenEvent E eventId h)"
  let ?q = "hc_reserve ?n coordination (snd ?r)"
  have k: "hc_keeps E valid rd h (snd ?r)" by (rule hc_keeps_trans [OF removeSeenEvent_keeps evictSeen_keeps])
  have "om_get (hc_seenEvents (snd ?r)) eventId = None" by (rule evictSeen_absent) (simp add: removeSeenEvent_get)
  moreover have "hc_seenEventBytes (snd ?r) + ?n \<le> MAX_AUXILIARY_MAP_BYTES" if "hc_inv E valid rd h" "fst ?r"
    using evictSeen_exit that removeSeenEvent_keeps [of E valid rd h eventId] by (auto simp: hc_keeps_def)
  ultimately have "hc_keeps E valid rd h ((snd ?q)\<lparr>hc_seenEvents := om_set (hc_seenEvents (snd ?q)) eventId now,
      hc_seenEventBytes := hc_seenEventBytes (snd ?q) + ?n\<rparr>)" if "fst ?r" "fst ?q"
    using k seen_add_keeps [where valid = valid and rd = rd and t = now, OF that(2)] that(1) by (simp add: hc_keeps_def)
  moreover have "hc_keeps E valid rd h (snd ?q)" if "\<not> fst ?q"
    using hc_keeps_trans [OF k reserve_fail_keeps [OF that]] keyMetadataBytes_pos [of E "StringKey eventId"] by simp
  ultimately show ?thesis using k by (simp add: markEventSeen_def Let_def)
qed

lemma inflight_add_keeps:
  assumes e: "ie_bytes e = keyMetadataBytes E key" and r: "fst (hc_reserve (ie_bytes e) coordination h)"
    and new: "om_get (hc_inflight h) key = None" and room: "hc_inflightBytes h + ie_bytes e \<le> MAX_AUXILIARY_MAP_BYTES"
    and h: "hc_inv E valid rd h"
  defines "h1 \<equiv> snd (hc_reserve (ie_bytes e) coordination h)"
  defines "h2 \<equiv> h1\<lparr>hc_inflightBytes := hc_inflightBytes h1 + ie_bytes e, hc_inflight := om_set (hc_inflight h1) key e\<rparr>"
  shows "hc_inv E valid rd h2 \<and> hc_others h2 = hc_others h"
proof -
  note m = inv_maps [OF h]
  obtain b where h1: "h1 = h\<lparr>hc_budget := b\<rparr>" unfolding h1_def by (rule reserve_cases)
  have "om_ok (hc_inflight h)" using m by (simp add: maps_ok_def inflight_ok_def)
  note add = om_sum_set [OF this, of "\<lambda>_ e. ie_bytes e" key e] om_ok_set [OF this, of key e] set_om_set [of "hc_inflight h" key e]
  have "0 \<le> ie_bytes e" using e keyMetadataBytes_pos [of E key] by simp
  then show ?thesis
  proof (intro coord_reserve [OF h r])
    show "maps_ok E h2" using m add e new room by (auto simp: maps_ok_def part_defs h1 h2_def)
    show "hc_budget h2 = hc_budget (snd (hc_reserve (ie_bytes e) coordination h))" by (simp add: h1_def h2_def)
  qed (simp_all add: h1 h2_def coord_bytes_def)
qed

lemma startInflight_keeps:
  assumes "om_get (hc_inflight h) key = None"
  shows "hc_keeps E valid rd h (snd (startInflight E now key promise expiresAt h))"
proof -
  let ?n = "keyMetadataBytes E key" and ?e = "\<lparr>ie_promise = promise, ie_bytes = keyMetadataBytes E key, ie_startedAt = now, ie_expiresAt = expiresAt\<rparr>"
  have fail: "hc_keeps E valid rd h (snd (hc_reserve ?n coordination h))" if "\<not> fst (hc_reserve ?n coordination h)"
    using reserve_fail_keeps [OF that] keyMetadataBytes_pos [of E key] by simp
  have "hc_keeps E valid rd h ((snd (hc_reserve ?n coordination h))\<lparr>hc_inflightBytes := hc_inflightBytes (snd (hc_reserve ?n coordination h)) + ?n,
      hc_inflight := om_set (hc_inflight (snd (hc_reserve ?n coordination h))) key ?e\<rparr>)"
    if "fst (hc_reserve ?n coordination h)" "hc_inflightBytes h + ?n \<le> MAX_AUXILIARY_MAP_BYTES"
    using inflight_add_keeps [of ?e E key h valid rd] that assms by (simp add: hc_keeps_def)
  then show ?thesis using fail by (simp add: startInflight_def reserveInflight_def Let_def)
qed

text \<open>Fields outside the ledger may change freely.\<close>

lemma frame_keepsI:
  assumes "hc_budget h' = hc_budget h" and "hc_l1 h' = hc_l1 h" and "maps_ok E h' = maps_ok E h" and "usage h' = usage h"
  shows "hc_keeps E valid rd h h'"
  using assms balanced_same [of E valid rd h h'] inv_maps [of E valid rd h] by (simp add: hc_keeps_def)

lemma frame_keeps:
  "hc_keeps E valid rd h (h\<lparr>hc_rejectedFollowers := k\<rparr>)"
  "hc_keeps E valid rd h (h\<lparr>hc_mutationEpoch := n\<rparr>)"
  "hc_keeps E valid rd h (h\<lparr>hc_trusted := t\<rparr>)"
  "hc_keeps E valid rd h (h\<lparr>hc_lastBusStatus := x\<rparr>)"
  "hc_keeps E valid rd h (h\<lparr>hc_saturated := t, hc_mutationEpoch := n\<rparr>)"
  "hc_keeps E valid rd h (h\<lparr>hc_invalidationRevision := i, hc_trusted := t, hc_mutationEpoch := n\<rparr>)"
  "hc_keeps E valid rd h (h\<lparr>hc_closed := t, hc_mutationEpoch := n, hc_invalidationRevision := i, hc_aborted := a, hc_activeLeaders := l\<rparr>)"
  "hc_keeps E valid rd h (h\<lparr>hc_activeLeaders := l\<rparr>)" "hc_keeps E valid rd h (h\<lparr>hc_aborted := a\<rparr>)"
  by (rule frame_keepsI; simp add: maps_ok_def part_defs usage_defs fun_eq_iff)+

lemma joinInflight_keeps: "hc_keeps E valid rd h (snd (joinInflight options h))"
proof -
  have nn: "0 \<le> FOLLOWER_METADATA_BYTES" by (simp add: FOLLOWER_METADATA_BYTES_def)
  let ?r = "hc_reserve FOLLOWER_METADATA_BYTES coordination h"
  have fail: "hc_keeps E valid rd h ((snd ?r)\<lparr>hc_rejectedFollowers := k\<rparr>)" if "\<not> fst ?r" for k
    by (rule hc_keeps_trans [OF reserve_fail_keeps [OF that nn] frame_keeps(1)])
  have "hc_keeps E valid rd h ((snd ?r)\<lparr>hc_activeFollowers := hc_activeFollowers (snd ?r) + 1,
      hc_followerBytes := hc_followerBytes (snd ?r) + FOLLOWER_METADATA_BYTES\<rparr>)" (is "hc_keeps E valid rd h ?h2") if r: "fst ?r"
    unfolding hc_keeps_def
  proof
    assume h: "hc_inv E valid rd h"
    obtain b where h1: "snd ?r = h\<lparr>hc_budget := b\<rparr>" by (rule reserve_cases)
    show "hc_inv E valid rd ?h2 \<and> hc_others ?h2 = hc_others h"
    proof (rule coord_reserve [OF h r nn])
      show "maps_ok E ?h2" using inv_maps [OF h] by (auto simp: maps_ok_def part_defs h1 algebra_simps)
    qed (simp_all add: h1 coord_bytes_def)
  qed
  then show ?thesis using fail by (simp add: joinInflight_def Let_def frame_keeps(1))
qed

lemma leaveInflight_keeps:
  assumes "0 < hc_activeFollowers h"
  shows "hc_keeps E valid rd h (leaveInflight h)"
  unfolding hc_keeps_def
proof
  assume h: "hc_inv E valid rd h"
  note m = inv_maps [OF h]
  have f: "FOLLOWER_METADATA_BYTES \<le> hc_followerBytes h" using m assms
    by (simp add: maps_ok_def followers_ok_def FOLLOWER_METADATA_BYTES_def)
  show "hc_inv E valid rd (leaveInflight h) \<and> hc_others (leaveInflight h) = hc_others h"
    using m f assms coord_parts(7) [OF m]
    by (intro coord_release [OF h, where n = FOLLOWER_METADATA_BYTES])
      (auto simp: maps_ok_def part_defs leaveInflight_def hc_release_def coord_bytes_def FOLLOWER_METADATA_BYTES_def algebra_simps)
qed

lemma on_l1_keeps:
  assumes "\<And>s. ms_keeps E valid rd s (snd (f s))"
  shows "hc_keeps E valid rd h (snd (on_l1 f d h))"
proof (cases "hc_l1 h")
  case (Some m)
  show ?thesis unfolding hc_keeps_def
  proof
    assume h: "hc_inv E valid rd h"
    then obtain b where b: "hc_budget h = Some b" using Some by (auto simp: hc_inv_def split: option.splits)
    obtain b' m' where f: "snd (f (b, m)) = (b', m')" by fastforce
    let ?h = "h\<lparr>hc_l1 := Some m', hc_budget := Some b'\<rparr>"
    have "ms_inv E valid rd (b, m)" using h b Some by (simp add: hc_inv_def)
    then have i: "ms_inv E valid rd (b', m')" and o1: "\<And>c. ms_others (b', m') c = ms_others (b, m) c"
      using assms [of "(b, m)"] f by (auto simp: ms_keeps_def)
    have u: "usage ?h c = usage h c + (held b' c - held b c)" for c
      using o1 [of c] Some by (auto simp: usage_defs ms_others_def split: if_splits)
    have "maps_ok E ?h" using inv_maps [OF h] by (simp add: maps_ok_def part_defs)
    moreover have "budget_ok b'" using i by (simp add: ms_inv_def)
    moreover have "\<And>c. usage h c \<le> held b c" using h b by (simp add: hc_inv_def)
    ultimately have "hc_inv E valid rd ?h \<and> hc_others ?h = hc_others h"
      using i u b by (simp add: hc_inv_def hc_others_def fun_eq_iff)
    then show "hc_inv E valid rd (snd (on_l1 f d h)) \<and> hc_others (snd (on_l1 f d h)) = hc_others h"
      using b Some f by (simp add: on_l1_def Let_def)
  qed
qed (simp add: on_l1_def)

lemma l1_deleteByPattern_keeps: "lru_laws L valid rd mx \<Longrightarrow> hc_keeps E valid rd h (l1_deleteByPattern E L now pattern h)"
  unfolding l1_deleteByPattern_def by (intro on_l1_keeps) (simp add: cache_call_keeps(2))

lemma l1_delete_keeps: "lru_laws L valid rd mx \<Longrightarrow> hc_keeps E valid rd h (l1_delete L key h)"
  unfolding l1_delete_def by (intro on_l1_keeps) (simp add: delete_keeps)

lemma clearLocal_keeps: "hc_keeps E valid rd h (clearLocal h)"
  unfolding clearLocal_def
  by (rule hc_keeps_trans [OF clearInflight_keeps hc_keeps_trans [OF clearNegative_keeps clearStale_keeps]])

lemma saturate_keeps: "lru_laws L valid rd mx \<Longrightarrow> hc_keeps E valid rd h (saturateGenerationTracking E L now h)"
  unfolding saturateGenerationTracking_def clearLocal_def [symmetric]
  by (simp add: hc_keeps_trans [OF hc_keeps_trans [OF frame_keeps(5) clearLocal_keeps] l1_deleteByPattern_keeps])

lemma generation_add_keeps:
  fixes g :: int
  assumes r: "fst (hc_reserve (keyMetadataBytes E (StringKey key)) coordination h)" and new: "om_get (hc_generations h) key = None"
    and room: "hc_generationBytes h + keyMetadataBytes E (StringKey key) \<le> MAX_GENERATION_BYTES"
    and len: "length (hc_generations h) < MAX_GENERATION_ENTRIES" and g: "0 \<le> g" "g \<le> MAX_SAFE_INTEGER" and h: "hc_inv E valid rd h"
  defines "h1 \<equiv> snd (hc_reserve (keyMetadataBytes E (StringKey key)) coordination h)"
  defines "h2 \<equiv> h1\<lparr>hc_generationBytes := hc_generationBytes h1 + keyMetadataBytes E (StringKey key),
     hc_generations := om_set (hc_generations h1) key g\<rparr>"
  shows "hc_inv E valid rd h2 \<and> hc_others h2 = hc_others h"
proof -
  note m = inv_maps [OF h]
  obtain b where h1: "h1 = h\<lparr>hc_budget := b\<rparr>" unfolding h1_def by (rule reserve_cases)
  have "om_ok (hc_generations h)" using m by (simp add: maps_ok_def generations_ok_def)
  note add = om_sum_set [OF this, of "\<lambda>k _. keyMetadataBytes E (StringKey k)" key g] om_ok_set [OF this, of key g]
    set_om_set [of "hc_generations h" key g] om_length_set [OF this, of key g]
  have "0 \<le> keyMetadataBytes E (StringKey key)" using keyMetadataBytes_pos [of E "StringKey key"] by simp
  then show ?thesis
  proof (intro coord_reserve [OF h r])
    show "maps_ok E h2" using m add new room len g by (auto simp: maps_ok_def part_defs h1 h2_def)
    show "hc_budget h2 = hc_budget (snd (hc_reserve (keyMetadataBytes E (StringKey key)) coordination h))" by (simp add: h1_def h2_def)
  qed (simp_all add: h1 h2_def coord_bytes_def)
qed

lemma generation_update_keeps:
  assumes "om_has (hc_generations h) key" and g: "0 \<le> g" "g \<le> MAX_SAFE_INTEGER"
  shows "hc_keeps E valid rd h (h\<lparr>hc_generations := om_set (hc_generations h) key g\<rparr>)"
  unfolding hc_keeps_def
proof
  assume h: "hc_inv E valid rd h"
  note m = inv_maps [OF h]
  obtain v where v: "om_get (hc_generations h) key = Some v" using assms(1) by (auto simp: om_has_def)
  have "om_ok (hc_generations h)" using m by (simp add: maps_ok_def generations_ok_def)
  note add = om_sum_set [OF this, of "\<lambda>k _. keyMetadataBytes E (StringKey k)" key g] om_ok_set [OF this, of key g]
    set_om_set [of "hc_generations h" key g] om_length_set [OF this, of key g]
  have "maps_ok E (h\<lparr>hc_generations := om_set (hc_generations h) key g\<rparr>)" using m add v g by (auto simp: maps_ok_def part_defs)
  then show "hc_inv E valid rd (h\<lparr>hc_generations := om_set (hc_generations h) key g\<rparr>)
      \<and> hc_others (h\<lparr>hc_generations := om_set (hc_generations h) key g\<rparr>) = hc_others h"
    by (intro balanced_same [OF h]) (auto simp: usage_defs fun_eq_iff)
qed

lemma storeGeneration_keeps:
  assumes laws: "lru_laws L valid rd mx"
  shows "hc_keeps E valid rd h (storeGeneration E L now key g h)"
proof -
  let ?n = "keyMetadataBytes E (StringKey key)"
  let ?r = "hc_reserve ?n coordination h"
  have fail: "hc_keeps E valid rd h (saturateGenerationTracking E L now (snd ?r))" if "\<not> fst ?r"
    using hc_keeps_trans [OF reserve_fail_keeps [OF that] saturate_keeps [OF laws]] keyMetadataBytes_pos [of E "StringKey key"] by simp
  have add: "hc_keeps E valid rd h ((snd ?r)\<lparr>hc_generationBytes := hc_generationBytes (snd ?r) + ?n,
      hc_generations := om_set (hc_generations (snd ?r)) key g\<rparr>)"
    if "fst ?r" "\<not> om_has (hc_generations h) key" "\<not> MAX_GENERATION_ENTRIES \<le> length (hc_generations h)"
      "\<not> MAX_GENERATION_BYTES < hc_generationBytes h + ?n" "\<bar>g\<bar> \<le> MAX_SAFE_INTEGER" "\<not> g < 0"
    using that generation_add_keeps [where valid = valid and rd = rd and g = g, OF that(1)] by (simp add: hc_keeps_def om_has_def)
  show ?thesis unfolding storeGeneration_def Let_def
    by (auto simp: saturate_keeps [OF laws] intro!: fail add generation_update_keeps)
qed

lemma advanceGeneration_keeps:
  "lru_laws L valid rd mx \<Longrightarrow> hc_keeps E valid rd h (advanceGenerationAfterDelete E L now key g h)"
  "lru_laws L valid rd mx \<Longrightarrow> hc_keeps E valid rd h (advanceGenerationAfterRemoteSet E L now key g h)"
  by (auto simp: advanceGenerationAfterDelete_def advanceGenerationAfterRemoteSet_def storeGeneration_keeps split: option.splits)

section \<open>Revisions\<close>

text \<open>\<open>observeKey\<close> in two steps: find or create the revision, then take a reference.\<close>

definition findRevision :: "'x event_env_scheme \<Rightarrow> CacheKey \<Rightarrow> 'c HybridCache \<Rightarrow> nat \<times> 'c HybridCache" where
  "findRevision E key h = (case om_get (hc_keyRevisions h) key of Some i \<Rightarrow> (i, h)
     | None \<Rightarrow>
         let bytes = keyMetadataBytes E key; i = length (hc_revisions h);
             r = (if hc_keyRevisionBytes h + bytes \<le> MAX_AUXILIARY_MAP_BYTES then hc_reserve bytes coordination h else (False, h));
             h1 = (snd r)\<lparr>hc_revisions := hc_revisions (snd r) @
                    [\<lparr>kr_value = 0, kr_references = 0, kr_bytes = bytes, kr_registered = fst r\<rparr>]\<rparr> in
         (i, if fst r then h1\<lparr>hc_keyRevisions := om_set (hc_keyRevisions h1) key i,
                              hc_keyRevisionBytes := hc_keyRevisionBytes h1 + bytes\<rparr> else h1))"

definition touchRevision :: "nat \<Rightarrow> bool \<Rightarrow> 'c HybridCache \<Rightarrow> 'c HybridCache" where
  "touchRevision i mutate h = (let st = hc_revisions h ! i in
     h\<lparr>hc_revisions := (hc_revisions h)[i := st\<lparr>kr_references := kr_references st + 1,
         kr_value := (if mutate then kr_value st + 1 else kr_value st)\<rparr>]\<rparr>)"

lemma snd_observeKey: "snd (observeKey E key mutate h) = touchRevision (fst (findRevision E key h)) mutate (snd (findRevision E key h))"
  by (simp add: observeKey_def findRevision_def touchRevision_def Let_def)

lemma revision_update_keeps:
  assumes "i < length (hc_revisions h) \<Longrightarrow> kr_bytes st = kr_bytes (hc_revisions h ! i) \<and> kr_registered st = kr_registered (hc_revisions h ! i)"
  shows "hc_keeps E valid rd h (h\<lparr>hc_revisions := (hc_revisions h)[i := st]\<rparr>)"
proof (rule frame_keepsI)
  let ?h = "h\<lparr>hc_revisions := (hc_revisions h)[i := st]\<rparr>"
  have "kr_bytes ((hc_revisions h)[i := st] ! j) = kr_bytes (hc_revisions h ! j)
      \<and> kr_registered ((hc_revisions h)[i := st] ! j) = kr_registered (hc_revisions h ! j)" for j
    using assms by (cases "i < length (hc_revisions h)") (auto simp: nth_list_update list_update_beyond)
  then show "maps_ok E ?h = maps_ok E h" by (simp add: maps_ok_def part_defs)
qed (auto simp: usage_defs fun_eq_iff)

lemma touchRevision_keeps: "hc_keeps E valid rd h (touchRevision i mutate h)"
  unfolding touchRevision_def Let_def by (intro revision_update_keeps) simp

lemma revision_add_keeps:
  assumes r: "fst (hc_reserve (keyMetadataBytes E key) coordination h)" and new: "om_get (hc_keyRevisions h) key = None"
    and room: "hc_keyRevisionBytes h + keyMetadataBytes E key \<le> MAX_AUXILIARY_MAP_BYTES" and h: "hc_inv E valid rd h"
    and st: "kr_bytes st = keyMetadataBytes E key" "kr_registered st"
  defines "h1 \<equiv> snd (hc_reserve (keyMetadataBytes E key) coordination h)"
  defines "h2 \<equiv> h1\<lparr>hc_revisions := hc_revisions h1 @ [st], hc_keyRevisions := om_set (hc_keyRevisions h1) key (length (hc_revisions h)),
     hc_keyRevisionBytes := hc_keyRevisionBytes h1 + keyMetadataBytes E key\<rparr>"
  shows "hc_inv E valid rd h2 \<and> hc_others h2 = hc_others h"
proof -
  note m = inv_maps [OF h]
  obtain b where h1: "h1 = h\<lparr>hc_budget := b\<rparr>" unfolding h1_def by (rule reserve_cases)
  let ?i = "length (hc_revisions h)"
  have ok: "om_ok (hc_keyRevisions h)" and idx: "\<And>p. p \<in> set (hc_keyRevisions h) \<Longrightarrow> snd p < ?i" using m by (auto simp: maps_ok_def revisions_ok_def)
  have app: "om_set (hc_keyRevisions h) key ?i = hc_keyRevisions h @ [(key, ?i)]"
    using new by (intro om_set_absent) (simp add: om_get_None)
  note add = om_sum_set [OF ok, of "\<lambda>k _. keyMetadataBytes E k" key ?i] om_ok_set [OF ok, of key ?i]
  have nidx: "\<And>a. (a, ?i) \<notin> set (hc_keyRevisions h)" using idx by fastforce
  have "revisions_ok E h2"
    using m add new room st idx nidx
    by (auto simp: maps_ok_def revisions_ok_def h1 h2_def app nth_append less_Suc_eq image_iff dest: less_imp_neq)
  then have "maps_ok E h2" using m by (auto simp: maps_ok_def part_defs h1 h2_def)
  moreover have "0 \<le> keyMetadataBytes E key" using keyMetadataBytes_pos [of E key] by simp
  ultimately show ?thesis
    by (intro coord_reserve [OF h r]) (simp_all add: h1_def h2_def, simp_all add: h1 h1_def [symmetric] coord_bytes_def)
qed

lemma unregistered_keeps:
  assumes "\<not> kr_registered st"
  shows "hc_keeps E valid rd h (h\<lparr>hc_revisions := hc_revisions h @ [st]\<rparr>)"
proof -
  have "hc_inv E valid rd (h\<lparr>hc_revisions := hc_revisions h @ [st]\<rparr>) \<and> hc_others (h\<lparr>hc_revisions := hc_revisions h @ [st]\<rparr>) = hc_others h"
    if h: "hc_inv E valid rd h"
  proof (rule balanced_same [OF h])
    show "maps_ok E (h\<lparr>hc_revisions := hc_revisions h @ [st]\<rparr>)"
      using inv_maps [OF h] assms by (auto simp: maps_ok_def part_defs nth_append less_Suc_eq)
  qed (auto simp: usage_defs fun_eq_iff)
  then show ?thesis by (simp add: hc_keeps_def)
qed

lemma findRevision_keeps: "hc_keeps E valid rd h (snd (findRevision E key h))"
proof (cases "om_get (hc_keyRevisions h) key")
  case None
  let ?n = "keyMetadataBytes E key"
  let ?r = "hc_reserve ?n coordination h"
  have nn: "0 \<le> ?n" using keyMetadataBytes_pos [of E key] by simp
  show ?thesis
  proof (cases "hc_keyRevisionBytes h + ?n \<le> MAX_AUXILIARY_MAP_BYTES")
    case True
    show ?thesis
    proof (cases "fst ?r")
      case ok: True
      have len: "hc_revisions (snd ?r) = hc_revisions h" by (simp add: hc_reserve_def Let_def split: option.splits)
      show ?thesis using revision_add_keeps [where valid = valid and rd = rd, OF ok None True] ok None True
        by (simp add: findRevision_def hc_keeps_def Let_def len)
    next
      case False
      then show ?thesis using None True
        by (simp add: findRevision_def Let_def hc_keeps_trans [OF reserve_fail_keeps [OF False nn] unregistered_keeps])
    qed
  qed (use None in \<open>simp add: findRevision_def Let_def unregistered_keeps\<close>)
qed (simp add: findRevision_def)

lemma observeKey_keeps: "hc_keeps E valid rd h (snd (observeKey E key mutate h))"
  unfolding snd_observeKey by (rule hc_keeps_trans [OF findRevision_keeps touchRevision_keeps])

lemma om_get_unique: "om_ok m \<Longrightarrow> (k, v) \<in> set m \<Longrightarrow> om_get m k = Some v"
  by (simp add: om_ok_def om_get_def)

text \<open>What remains of the revisions when one leaves the map and is marked.\<close>

lemma revisions_removed:
  assumes rv: "revisions_ok E h" and g: "om_get (hc_keyRevisions h) k = Some i" and st: "\<not> kr_registered st"
  shows "revisions_ok E (h\<lparr>hc_keyRevisions := om_del (hc_keyRevisions h) k,
      hc_keyRevisionBytes := hc_keyRevisionBytes h - keyMetadataBytes E k, hc_revisions := (hc_revisions h)[i := st]\<rparr>)"
proof -
  let ?m = "hc_keyRevisions h"
  have ok: "om_ok ?m" and inj: "inj_on snd (set ?m)" and d: "distinct (map snd ?m)" using rv by (auto simp: revisions_ok_def distinct_map)
  have mem: "(k, i) \<in> set ?m" using g by (rule om_get_entry)
  have same: "p = (k, i)" if "p \<in> set ?m" "snd p = i" for p using inj_onD [OF inj _ that(1) mem] that(2) by simp
  have one: "fst p = k \<longleftrightarrow> snd p = i" if "p \<in> set ?m" for p
    using same [OF that] that mem om_get_unique [OF ok] by (metis fst_conv option.inject prod.collapse snd_conv)
  have w: "0 \<le> keyMetadataBytes E k" for k using keyMetadataBytes_pos [of E k] by simp
  note rm = om_sum_removed [where w = "\<lambda>k _. keyMetadataBytes E k", OF ok g w]
  have 1: "distinct (map snd (om_del ?m k))" using d by (simp add: om_del_def distinct_map_filter)
  have 2: "snd p < length (hc_revisions h) \<and> kr_bytes ((hc_revisions h)[i := st] ! snd p) = keyMetadataBytes E (fst p)"
    if "p \<in> set (om_del ?m k)" for p
    using that one [of p] rv by (auto simp: set_om_del revisions_ok_def nth_list_update)
  have 3: "kr_registered ((hc_revisions h)[i := st] ! j) \<longleftrightarrow> j \<in> snd ` set (om_del ?m k)" if "j < length (hc_revisions h)" for j
  proof (cases "j = i")
    case True
    then show ?thesis using st that one by (auto simp: set_om_del)
  next
    case False
    then have "j \<in> snd ` set ?m \<longleftrightarrow> j \<in> snd ` set (om_del ?m k)" using one by (force simp: set_om_del)
    then show ?thesis using False rv that by (simp add: revisions_ok_def)
  qed
  have "keyMetadataBytes E k \<ge> 0" by (rule w)
  then show ?thesis using rv 1 2 3 rm(1) ok om_ok_del [OF ok] by (simp add: revisions_ok_def)
qed

lemma releaseKey_keeps: "hc_keeps E valid rd h (releaseKey guard h)"
proof -
  let ?i = "mg_state guard" and ?k = "mg_key guard"
  let ?st = "(hc_revisions h ! ?i)\<lparr>kr_references := kr_references (hc_revisions h ! ?i) - 1\<rparr>"
  let ?h1 = "h\<lparr>hc_revisions := (hc_revisions h)[?i := ?st]\<rparr>"
  have k1: "hc_keeps E valid rd h ?h1" by (intro revision_update_keeps) simp
  show ?thesis
  proof (cases "kr_references ?st = 0 \<and> om_get (hc_keyRevisions h) ?k = Some ?i")
    case True
    then have g: "om_get (hc_keyRevisions h) ?k = Some ?i" by simp
    have "hc_inv E valid rd (releaseKey guard h) \<and> hc_others (releaseKey guard h) = hc_others h" if h: "hc_inv E valid rd h"
    proof -
      note m = inv_maps [OF h]
      then have rv: "revisions_ok E h" by (simp add: maps_ok_def)
      have b: "kr_bytes ?st = keyMetadataBytes E ?k" using rv om_get_entry [OF g] by (auto simp: revisions_ok_def)
      let ?h2 = "h\<lparr>hc_keyRevisions := om_del (hc_keyRevisions h) ?k, hc_keyRevisionBytes := hc_keyRevisionBytes h - keyMetadataBytes E ?k,
             hc_revisions := (hc_revisions h)[?i := ?st\<lparr>kr_registered := False\<rparr>]\<rparr>"
      have h2: "releaseKey guard h = hc_release (keyMetadataBytes E ?k) coordination ?h2"
        using True b by (simp add: releaseKey_def Let_def)
      have "revisions_ok E ?h2" by (rule revisions_removed [OF rv g]) simp
      then have m2: "maps_ok E (releaseKey guard h)" unfolding h2 using m by (simp add: maps_ok_def part_defs hc_release_def)
      have w: "0 \<le> keyMetadataBytes E k" for k using keyMetadataBytes_pos [of E k] by simp
      have "om_ok (hc_keyRevisions h)" using rv by (simp add: revisions_ok_def)
      note rm = om_sum_removed [where w = "\<lambda>k _. keyMetadataBytes E k", OF this g w]
      have "keyMetadataBytes E ?k \<le> coord_bytes h" using rm(3) coord_parts(6) [OF m] rv by (simp add: revisions_ok_def)
      then show ?thesis using m2 w
        by (intro coord_release [OF h, where n = "keyMetadataBytes E ?k"]) (simp_all add: h2 hc_release_def coord_bytes_def)
    qed
    then show ?thesis by (simp add: hc_keeps_def)
  qed (use k1 in \<open>auto simp: releaseKey_def Let_def\<close>)
qed

lemma deleteLocal_keeps: "lru_laws L valid rd mx \<Longrightarrow> hc_keeps E valid rd h (snd (deleteLocal_begin E L now key generation h))"
  unfolding deleteLocal_begin_def Let_def snd_conv
  by (intro hc_keeps_trans [OF _ l1_delete_keeps] hc_keeps_trans [OF _ advanceGeneration_keeps(1)] hc_keeps_trans [OF _ removeStale_keeps]
      hc_keeps_trans [OF _ removeNegative_keeps] hc_keeps_trans [OF _ removeInflight_keeps] observeKey_keeps)

lemma deletePattern_keeps: "lru_laws L valid rd mx \<Longrightarrow> hc_keeps E valid rd h (deleteByPatternLocal_begin E L now pattern h)"
  unfolding deleteByPatternLocal_begin_def Let_def
  by (intro hc_keeps_trans [OF _ l1_deleteByPattern_keeps] hc_keeps_trans [OF _ hc_keeps_fold [of E valid rd removeStale]]
      hc_keeps_trans [OF _ hc_keeps_fold [of E valid rd removeNegative]] hc_keeps_trans [OF _ hc_keeps_fold [of E valid rd removeInflight]]
      removeStale_keeps removeNegative_keeps removeInflight_keeps frame_keeps(2))

lemma trust_keeps:
  assumes "lru_laws L valid rd mx"
  shows "hc_keeps E valid rd h (markInvalidationUntrusted E L now h)" "hc_keeps E valid rd h (snd (restoreTrust_begin E L now h))"
    "hc_keeps E valid rd h (restoreTrust_end revision h)" "hc_keeps E valid rd h (snd (onBusStatus E L now status h))"
proof -
  show u: "hc_keeps E valid rd h (markInvalidationUntrusted E L now h)" for h unfolding markInvalidationUntrusted_def
    by (rule hc_keeps_trans [OF hc_keeps_trans [OF frame_keeps(6) clearLocal_keeps] l1_deleteByPattern_keeps [OF assms]])
  show r: "hc_keeps E valid rd h (snd (restoreTrust_begin E L now h))" for h unfolding restoreTrust_begin_def snd_conv
    by (rule hc_keeps_trans [OF hc_keeps_trans [OF frame_keeps(2) clearLocal_keeps] l1_deleteByPattern_keeps [OF assms]])
  show "hc_keeps E valid rd h (restoreTrust_end revision h)" by (simp add: restoreTrust_end_def frame_keeps(3))
  show "hc_keeps E valid rd h (snd (onBusStatus E L now status h))" unfolding onBusStatus_def Let_def
    using hc_keeps_trans [OF frame_keeps(4) u] hc_keeps_trans [OF frame_keeps(4) r] by auto
qed

section \<open>Closing\<close>

lemma unregister_all_length [simp]: "length (unregister_all m rs) = length rs"
  unfolding unregister_all_def by (induction m arbitrary: rs) auto

lemma unregister_all_nth:
  "j < length rs \<Longrightarrow> kr_registered (unregister_all m rs ! j) \<longleftrightarrow> kr_registered (rs ! j) \<and> j \<notin> snd ` set m"
proof (induction m arbitrary: rs)
  case (Cons p m)
  have "unregister_all (p # m) rs = unregister_all m (rs[snd p := (rs ! snd p)\<lparr>kr_registered := False\<rparr>])"
    by (simp add: unregister_all_def)
  then show ?case using Cons.IH [of "rs[snd p := (rs ! snd p)\<lparr>kr_registered := False\<rparr>]"] Cons.prems
    by (cases "snd p = j") auto
qed (simp add: unregister_all_def)

lemma unregister_held [simp]: "held (snd (mb_unregister a n b)) = held b"
  by (simp add: mb_unregister_def held_def Let_def fun_eq_iff)

lemma unregister_keeps:
  "hc_keeps E valid rd h (h\<lparr>hc_budget := map_option (\<lambda>b. snd (mb_unregister a n b)) (hc_budget h), hc_staleRegistered := r\<rparr>)"
  (is "hc_keeps E valid rd h ?h")
proof -
  have m: "maps_ok E (h\<lparr>hc_budget := x, hc_staleRegistered := r\<rparr>) = maps_ok E h"
    "usage (h\<lparr>hc_budget := x, hc_staleRegistered := r\<rparr>) = usage h" for x
    by (simp_all add: maps_ok_def part_defs usage_defs fun_eq_iff)
  have "ms_inv E valid rd (snd (mb_unregister a n b), m)" if "ms_inv E valid rd (b, m)" "budget_ok b" for b m
    by (rule ms_inv_budget [OF that(1)]) (simp_all add: bookkeeping_ok(2) [OF that(2)])
  then show ?thesis using bookkeeping_ok(2) [of _ a n]
    by (auto simp: hc_keeps_def hc_inv_def hc_others_def m fun_eq_iff split: option.splits)
qed

lemma release_generations_keeps: "hc_keeps E valid rd h (releaseGenerations h)"
  unfolding hc_keeps_def releaseGenerations_def
proof
  assume h: "hc_inv E valid rd h"
  note m = inv_maps [OF h]
  let ?h = "(hc_release (hc_generationBytes h) coordination h)\<lparr>hc_generations := [], hc_generationBytes := 0\<rparr>"
  show "hc_inv E valid rd ?h \<and> hc_others ?h = hc_others h"
    using m counters_nonneg(4) [OF m] coord_parts(3) [OF m]
    by (intro coord_release [OF h, where n = "hc_generationBytes h"])
      (auto simp: maps_ok_def part_defs hc_release_def coord_bytes_def MAX_GENERATION_BYTES_def)
qed

lemma release_seen_keeps: "hc_keeps E valid rd h (releaseSeenAndRevisions h)"
  unfolding hc_keeps_def
proof
  assume h: "hc_inv E valid rd h"
  note m = inv_maps [OF h]
  have rv: "revisions_ok E (releaseSeenAndRevisions h)" using m
    by (auto simp: releaseSeenAndRevisions_def maps_ok_def revisions_ok_def hc_release_def unregister_all_nth MAX_AUXILIARY_MAP_BYTES_def)
  have "maps_ok E (releaseSeenAndRevisions h)" using m rv
    by (auto simp: releaseSeenAndRevisions_def maps_ok_def part_defs hc_release_def MAX_AUXILIARY_MAP_BYTES_def)
  then show "hc_inv E valid rd (releaseSeenAndRevisions h) \<and> hc_others (releaseSeenAndRevisions h) = hc_others h"
    using counters_nonneg(5,6) [OF m] coord_parts(4) [OF m]
    by (intro coord_release [OF h, where n = "hc_seenEventBytes h + hc_keyRevisionBytes h"])
      (auto simp: releaseSeenAndRevisions_def hc_release_def coord_bytes_def)
qed

lemma ms_close_keeps: "lru_laws L valid rd mx \<Longrightarrow> ms_keeps E valid rd s (ms_close L s)"
  by (simp add: ms_keeps_def ms_close_spec(1,2))

lemma unregisterStale_keeps: "hc_keeps E valid rd h (unregisterStaleBudget h)"
  using unregister_keeps [where E = E and valid = valid and rd = rd and h = h and a = "hc_staleRegistered h" and n = "hc_staleClient h"
      and r = "fst (mb_unregister (hc_staleRegistered h) (hc_staleClient h) (the (hc_budget h)))"]
  by (cases "hc_budget h") (simp_all add: unregisterStaleBudget_def Let_def)

lemma closeResources_keeps:
  assumes laws: "lru_laws L valid rd mx"
  shows "hc_keeps E valid rd h (closeResources L h)"
proof -
  let ?h1 = "unregisterStaleBudget (clearStale (releaseSeenAndRevisions (releaseGenerations (clearNegative (clearInflight (markClosed h))))))"
  have k: "hc_keeps E valid rd h ?h1"
    by (intro hc_keeps_trans [OF _ unregisterStale_keeps] hc_keeps_trans [OF _ clearStale_keeps] hc_keeps_trans [OF _ release_seen_keeps]
        hc_keeps_trans [OF _ release_generations_keeps] hc_keeps_trans [OF _ clearNegative_keeps] hc_keeps_trans [OF _ clearInflight_keeps])
      (simp add: markClosed_def frame_keeps(7))
  have "hc_keeps E valid rd ?h1 (snd (on_l1 (\<lambda>s. ((), ms_close L s)) () ?h1))"
    by (rule on_l1_keeps) (simp add: ms_close_keeps [OF laws])
  then show ?thesis using k hc_keeps_trans [OF k] by (simp add: closeResources_def Let_def)
qed

end
