(* ===== verification/Cache_Guards.thy ===== *)
theory Cache_Guards
  imports Cache_Ledger
begin

text \<open>
  Mutation guards. An operation observes the revision of its key and the mutation epoch when it starts,
  and commits to the caches only while its guard is current. The theorems: once a later mutation of the
  key (or any event that bumps the epoch) has happened, the guard is never current again; while none
  happens, the guard stays current; and the bookkeeping of revisions neither leaks nor drops one that
  is in use. Runs interleave the synchronous steps of any number of operations in any order.
\<close>

section \<open>Fields the guards read\<close>

definition gfields :: "'c HybridCache \<Rightarrow> HybridCacheOptions \<times> bool \<times> nat \<times> bool \<times> nat list \<times> KeyRevision list \<times> (CacheKey, nat) omap" where
  "gfields h = (hc_options h, hc_closed h, hc_mutationEpoch h, hc_saturated h, hc_aborted h, hc_revisions h, hc_keyRevisions h)"

lemma g_release [simp]: "gfields (hc_release n c h) = gfields h"
  by (simp add: gfields_def hc_release_def)

lemma g_reserve [simp]: "gfields (snd (hc_reserve n c h)) = gfields h"
  by (simp add: gfields_def hc_reserve_def Let_def split: option.splits)

lemma g_l1 [simp]: "gfields (snd (on_l1 f d h)) = gfields h"
  by (simp add: gfields_def on_l1_def Let_def split: option.splits)

lemma g_l1_delete [simp]: "gfields (l1_deleteByPattern E L now pattern h) = gfields h" "gfields (l1_delete L key h) = gfields h"
  by (simp_all add: l1_deleteByPattern_def l1_delete_def)

lemma g_stale [simp]:
  "gfields (removeStale key h) = gfields h" "gfields (clearStale h) = gfields h" "gfields (snd (evictOneStale h)) = gfields h"
  "gfields (snd (getStale E now key h)) = gfields h"
proof -
  show s: "gfields (removeStale key h) = gfields h" for key :: CacheKey and h :: "'a HybridCache"
    by (simp add: gfields_def removeStale_def hc_release_def Let_def split: option.splits)
  show "gfields (clearStale h) = gfields h" by (simp add: gfields_def clearStale_def hc_release_def Let_def)
  show "gfields (snd (evictOneStale h)) = gfields h" by (simp add: evictOneStale_def s split: list.splits)
  show "gfields (snd (getStale E now key h)) = gfields h" by (simp add: getStale_def s split: option.splits)
qed

lemma g_trimStale [simp]: "gfields (trimStale a b h) = gfields h"
proof (induction a b h rule: trimStale.induct)
  case (1 a b h)
  then show ?case by (subst trimStale.simps) (auto split: list.splits)
qed

lemma g_with:
  "gfields (h\<lparr>hc_stale := a\<rparr>) = gfields h" "gfields (h\<lparr>hc_staleBytes := b\<rparr>) = gfields h"
  "gfields (h\<lparr>hc_negative := c\<rparr>) = gfields h" "gfields (h\<lparr>hc_negativeBytes := d\<rparr>) = gfields h"
  "gfields (h\<lparr>hc_inflight := e\<rparr>) = gfields h" "gfields (h\<lparr>hc_inflightBytes := f\<rparr>) = gfields h"
  "gfields (h\<lparr>hc_rejectedFollowers := i\<rparr>) = gfields h" "gfields (h\<lparr>hc_activeFollowers := j\<rparr>) = gfields h"
  "gfields (h\<lparr>hc_followerBytes := k\<rparr>) = gfields h" "gfields (h\<lparr>hc_seenEvents := l\<rparr>) = gfields h"
  "gfields (h\<lparr>hc_seenEventBytes := m\<rparr>) = gfields h" "gfields (h\<lparr>hc_generations := n\<rparr>) = gfields h"
  "gfields (h\<lparr>hc_generationBytes := p\<rparr>) = gfields h"
  by (simp_all add: gfields_def)

lemma g_rememberStale [simp]: "gfields (rememberStale E now key v options reusable h) = gfields h"
  by (simp add: rememberStale_def Let_def g_with split: option.splits sum.splits)

lemma g_negative [simp]:
  "gfields (removeNegative key h) = gfields h" "gfields (clearNegative h) = gfields h" "gfields (snd (hasNegative now key h)) = gfields h"
proof -
  show s: "gfields (removeNegative key h) = gfields h" for key :: CacheKey and h :: "'a HybridCache"
    by (simp add: gfields_def removeNegative_def hc_release_def split: option.splits)
  show "gfields (clearNegative h) = gfields h" by (simp add: gfields_def clearNegative_def hc_release_def)
  show "gfields (snd (hasNegative now key h)) = gfields h" by (simp add: hasNegative_def s split: option.splits)
qed

lemma g_evictNegative [simp]: "gfields (evictNegativeCount a h) = gfields h" "gfields (evictNegativeBytes n h) = gfields h"
proof -
  show "gfields (evictNegativeCount a h) = gfields h"
  proof (induction a h rule: evictNegativeCount.induct)
    case (1 a h)
    then show ?case by (subst evictNegativeCount.simps) (auto split: list.splits)
  qed
  show "gfields (evictNegativeBytes n h) = gfields h"
  proof (induction n h rule: evictNegativeBytes.induct)
    case (1 n h)
    then show ?case by (subst evictNegativeBytes.simps) (auto split: list.splits)
  qed
qed

lemma g_setNegative [simp]: "gfields (setNegative E now key options h) = gfields h"
  by (simp add: setNegative_def Let_def g_with)

lemma g_inflight [simp]:
  "gfields (removeInflight key h) = gfields h" "gfields (clearInflight h) = gfields h" "gfields (pruneInflightKey now key h) = gfields h"
  "gfields (finishInflight key p h) = gfields h" "gfields (snd (startInflight E now key p x h)) = gfields h"
  "gfields (snd (joinInflight options h)) = gfields h" "gfields (leaveInflight h) = gfields h"
proof -
  show s: "gfields (removeInflight key h) = gfields h" for key :: CacheKey and h :: "'a HybridCache"
    by (simp add: gfields_def removeInflight_def hc_release_def split: option.splits)
  show "gfields (clearInflight h) = gfields h" by (simp add: gfields_def clearInflight_def hc_release_def)
  show "gfields (pruneInflightKey now key h) = gfields h" "gfields (finishInflight key p h) = gfields h"
    by (simp_all add: pruneInflightKey_def finishInflight_def s split: option.splits)
  show "gfields (snd (startInflight E now key p x h)) = gfields h"
    by (simp add: startInflight_def reserveInflight_def Let_def g_with split: option.splits)
  show "gfields (snd (joinInflight options h)) = gfields h" by (simp add: joinInflight_def Let_def g_with)
  show "gfields (leaveInflight h) = gfields h" by (simp add: leaveInflight_def g_with)
qed

lemma g_removeSeen [simp]: "gfields (removeSeenEvent E i h) = gfields h"
  by (simp add: gfields_def removeSeenEvent_def hc_release_def Let_def)

lemma g_hasSeen [simp]: "gfields (snd (hasSeenEvent E now i h)) = gfields h"
  by (simp add: hasSeenEvent_def split: option.splits)

lemma g_evictSeen [simp]: "gfields (snd (evictSeen E n h)) = gfields h"
proof (induction E n h rule: evictSeen.induct)
  case (1 E n h)
  then show ?case by (subst evictSeen.simps) (auto split: list.splits)
qed

lemma g_markEventSeen [simp]: "gfields (markEventSeen E now i h) = gfields h"
  by (simp add: markEventSeen_def Let_def g_with)

section \<open>How guards can change\<close>

text \<open>
  \<open>ages h h'\<close>: epochs, revisions, aborts and the terminal flags only move forward, and a revision
  that is still registered is still found under its key.
\<close>

definition ages :: "'c HybridCache \<Rightarrow> 'c HybridCache \<Rightarrow> bool" where
  "ages h h' \<longleftrightarrow> hc_options h' = hc_options h \<and> (hc_closed h \<longrightarrow> hc_closed h') \<and> hc_mutationEpoch h \<le> hc_mutationEpoch h'
     \<and> (hc_saturated h \<longrightarrow> hc_saturated h') \<and> set (hc_aborted h) \<subseteq> set (hc_aborted h')
     \<and> length (hc_revisions h) \<le> length (hc_revisions h')
     \<and> (\<forall>i < length (hc_revisions h). kr_value (hc_revisions h ! i) \<le> kr_value (hc_revisions h' ! i)
          \<and> (kr_registered (hc_revisions h' ! i) \<longrightarrow> kr_registered (hc_revisions h ! i)
               \<and> (\<forall>k. om_get (hc_keyRevisions h) k = Some i \<longrightarrow> om_get (hc_keyRevisions h') k = Some i)))"

lemma ages_refl [simp]: "ages h h"
  by (simp add: ages_def)

lemma ages_trans: "ages h g \<Longrightarrow> ages g f \<Longrightarrow> ages h f"
  unfolding ages_def by (auto intro: order_trans)

lemma ages_same: "gfields h' = gfields h \<Longrightarrow> ages h h'"
  by (simp add: gfields_def ages_def)

definition guard_ok :: "MutationGuard \<Rightarrow> 'c HybridCache \<Rightarrow> bool" where
  "guard_ok g h \<longleftrightarrow> mg_state g < length (hc_revisions h) \<and> mg_epoch g \<le> hc_mutationEpoch h
     \<and> mg_revision g \<le> kr_value (hc_revisions h ! mg_state g)
     \<and> (kr_registered (hc_revisions h ! mg_state g) \<longrightarrow> om_get (hc_keyRevisions h) (mg_key g) = Some (mg_state g))"

lemma guard_ok_ages: "guard_ok g h \<Longrightarrow> ages h h' \<Longrightarrow> guard_ok g h'"
  unfolding guard_ok_def ages_def by (meson le_trans less_le_trans)

text \<open>A guard that is not current never becomes current again.\<close>

lemma stays_obsolete:
  assumes "guard_ok g h" and "ages h h'" and "\<not> isCurrent g h"
  shows "\<not> isCurrent g h'"
proof
  assume c: "isCurrent g h'"
  have "hc_closed h \<longrightarrow> hc_closed h'" "hc_saturated h \<longrightarrow> hc_saturated h'" "versioned h' = versioned h"
    using assms(2) by (auto simp: ages_def versioned_def own_def)
  moreover have "signal_aborted h (mg_signal g) \<longrightarrow> signal_aborted h' (mg_signal g)"
    using assms(2) by (auto simp: ages_def signal_aborted_def split: option.splits)
  moreover have "kr_registered (hc_revisions h ! mg_state g)" "mg_epoch g = hc_mutationEpoch h"
    "mg_revision g = kr_value (hc_revisions h ! mg_state g)"
    using assms(1,2) c by (auto simp: ages_def guard_ok_def isCurrent_def intro: antisym)
  ultimately show False using c assms(3) by (auto simp: isCurrent_def versionedCacheSafe_def)
qed

lemma g_epoch: "gfields h = gfields g \<Longrightarrow> ages g h" "gfields h = gfields g \<Longrightarrow> hc_mutationEpoch h = hc_mutationEpoch g"
  by (simp_all add: ages_same) (simp add: gfields_def)

lemma g_clearLocal [simp]: "gfields (clearLocal h) = gfields h"
  by (simp add: clearLocal_def)

lemma bump_ages: "hc_mutationEpoch h \<le> n \<Longrightarrow> ages h (h\<lparr>hc_mutationEpoch := n\<rparr>)"
  "hc_mutationEpoch h \<le> n \<Longrightarrow> ages h (h\<lparr>hc_saturated := True, hc_mutationEpoch := n\<rparr>)"
  "hc_mutationEpoch h \<le> n \<Longrightarrow> ages h (h\<lparr>hc_invalidationRevision := r, hc_trusted := t, hc_mutationEpoch := n\<rparr>)"
  by (simp_all add: ages_def)

lemma saturate_ages: "ages h (saturateGenerationTracking E L now h)"
proof -
  have "ages (h\<lparr>hc_saturated := True, hc_mutationEpoch := hc_mutationEpoch h + 1\<rparr>) (saturateGenerationTracking E L now h)"
    if "\<not> hc_saturated h" using that by (intro ages_same) (simp add: saturateGenerationTracking_def)
  then show ?thesis using ages_trans [OF bump_ages(2) [of h "hc_mutationEpoch h + 1"]]
    by (cases "hc_saturated h") (simp_all add: saturateGenerationTracking_def)
qed

lemma storeGeneration_ages: "ages h (storeGeneration E L now key g h)"
proof -
  have "ages h (snd (hc_reserve n coordination h))" for n by (rule ages_same) simp
  moreover have "ages h ((snd (hc_reserve n coordination h))\<lparr>hc_generationBytes := a, hc_generations := b\<rparr>)" for n a b
    by (rule ages_same) (simp add: g_with)
  moreover have "ages h (h\<lparr>hc_generations := b\<rparr>)" for b by (rule ages_same) (simp add: g_with)
  ultimately show ?thesis unfolding storeGeneration_def Let_def by (simp add: saturate_ages ages_trans [OF _ saturate_ages])
qed

lemma advance_ages:
  "ages h (advanceGenerationAfterDelete E L now key g h)" "ages h (advanceGenerationAfterRemoteSet E L now key g h)"
  by (auto simp: advanceGenerationAfterDelete_def advanceGenerationAfterRemoteSet_def storeGeneration_ages split: option.splits)

section \<open>Observing and releasing\<close>

lemma findRevision_get:
  assumes "om_get (hc_keyRevisions h) key = Some i"
  shows "findRevision E key h = (i, h)"
  using assms by (simp add: findRevision_def)

text \<open>A new revision object is appended; it is registered exactly when it enters the map.\<close>

lemma findRevision_new:
  assumes "om_get (hc_keyRevisions h) key = None"
  obtains reg b h1 where "findRevision E key h = (length (hc_revisions h), h1)"
    and "hc_revisions h1 = hc_revisions h @ [\<lparr>kr_value = 0, kr_references = 0, kr_bytes = keyMetadataBytes E key, kr_registered = reg\<rparr>]"
    and "hc_keyRevisions h1 = (if reg then om_set (hc_keyRevisions h) key (length (hc_revisions h)) else hc_keyRevisions h)"
    and "hc_options h1 = hc_options h" "hc_closed h1 = hc_closed h" "hc_mutationEpoch h1 = hc_mutationEpoch h"
      "hc_saturated h1 = hc_saturated h" "hc_aborted h1 = hc_aborted h"
proof -
  let ?r = "if hc_keyRevisionBytes h + keyMetadataBytes E key \<le> MAX_AUXILIARY_MAP_BYTES
    then hc_reserve (keyMetadataBytes E key) coordination h else (False, h)"
  have g: "gfields (snd ?r) = gfields h" by simp
  show thesis
    using that [of "snd (findRevision E key h)" "fst ?r"] assms g
    by (simp add: findRevision_def Let_def gfields_def split: if_splits)
qed

lemma findRevision_ages: "ages h (snd (findRevision E key h))"
proof (cases "om_get (hc_keyRevisions h) key")
  case None
  then obtain reg h1 where f: "findRevision E key h = (length (hc_revisions h), h1)"
    "hc_revisions h1 = hc_revisions h @ [\<lparr>kr_value = 0, kr_references = 0, kr_bytes = keyMetadataBytes E key, kr_registered = reg\<rparr>]"
    "hc_keyRevisions h1 = (if reg then om_set (hc_keyRevisions h) key (length (hc_revisions h)) else hc_keyRevisions h)"
    "hc_options h1 = hc_options h" "hc_closed h1 = hc_closed h" "hc_mutationEpoch h1 = hc_mutationEpoch h"
    "hc_saturated h1 = hc_saturated h" "hc_aborted h1 = hc_aborted h" by (rule findRevision_new [of h key E]) auto
  have "om_get (hc_keyRevisions h1) k = Some i" if "om_get (hc_keyRevisions h) k = Some i" for k i
    using that None f(3) by (auto simp: om_get_set)
  then show ?thesis using f by (simp add: ages_def nth_append)
qed (simp add: findRevision_def)

lemma nth_upd: "j < length xs \<Longrightarrow> xs[i := x] ! j = (if i = j then x else xs ! j)"
  by (cases "i = j") auto

lemma touchRevision_ages: "ages h (touchRevision i mutate h)"
  by (auto simp: ages_def touchRevision_def Let_def nth_upd)

lemma observeKey_ages: "ages h (snd (observeKey E key mutate h))"
  unfolding snd_observeKey by (rule ages_trans [OF findRevision_ages touchRevision_ages])

lemma findRevision_index: "fst (findRevision E key h) < length (hc_revisions (snd (findRevision E key h)))
    \<and> (kr_registered (hc_revisions (snd (findRevision E key h)) ! fst (findRevision E key h))
       \<longrightarrow> om_get (hc_keyRevisions (snd (findRevision E key h))) key = Some (fst (findRevision E key h)))"
  if "hc_inv E' valid rd h"
proof (cases "om_get (hc_keyRevisions h) key")
  case None
  then obtain reg h1 where "findRevision E key h = (length (hc_revisions h), h1)"
    "hc_revisions h1 = hc_revisions h @ [\<lparr>kr_value = 0, kr_references = 0, kr_bytes = keyMetadataBytes E key, kr_registered = reg\<rparr>]"
    "hc_keyRevisions h1 = (if reg then om_set (hc_keyRevisions h) key (length (hc_revisions h)) else hc_keyRevisions h)"
    by (rule findRevision_new [of h key E]) auto
  then show ?thesis by (simp add: om_get_set)
next
  case (Some i)
  then have "i < length (hc_revisions h)" using inv_maps [OF that] om_get_entry [OF Some] by (auto simp: maps_ok_def revisions_ok_def)
  then show ?thesis using Some by (simp add: findRevision_def)
qed

lemma observeKey_guard:
  assumes "hc_inv E' valid rd h"
  shows "guard_ok (fst (observeKey E key mutate h)) (snd (observeKey E key mutate h))"
    and "mg_key (fst (observeKey E key mutate h)) = key"
    and "mg_state (fst (observeKey E key mutate h)) = fst (findRevision E key h)"
    and "mg_signal (fst (observeKey E key mutate h)) = None"
proof -
  have o1: "fst (observeKey E key mutate h) = \<lparr>mg_key = key, mg_state = fst (findRevision E key h),
      mg_revision = kr_value (hc_revisions (snd (observeKey E key mutate h)) ! fst (findRevision E key h)),
      mg_epoch = hc_mutationEpoch (snd (observeKey E key mutate h)), mg_storageKey = toStorageKey E key (snd (observeKey E key mutate h)),
      mg_signal = None, mg_publicationAllowed = True\<rparr>"
    using findRevision_index [OF assms, of E key] unfolding snd_observeKey
    by (simp add: observeKey_def findRevision_def [symmetric] touchRevision_def Let_def)
  show "guard_ok (fst (observeKey E key mutate h)) (snd (observeKey E key mutate h))"
    unfolding o1 guard_ok_def snd_observeKey using findRevision_index [OF assms, of E key]
    by (simp add: touchRevision_def Let_def)
  show "mg_key (fst (observeKey E key mutate h)) = key" "mg_state (fst (observeKey E key mutate h)) = fst (findRevision E key h)"
    "mg_signal (fst (observeKey E key mutate h)) = None" by (simp_all add: o1)
qed

text \<open>A mutation makes every earlier guard of its key obsolete.\<close>

lemma mutation_obsoletes:
  assumes inv: "hc_inv E' valid rd h" and g: "guard_ok g h" "mg_key g = key"
  shows "\<not> isCurrent g (snd (observeKey E key True h))"
proof (cases "kr_registered (hc_revisions h ! mg_state g)")
  case True
  then have i: "om_get (hc_keyRevisions h) key = Some (mg_state g)" using g by (simp add: guard_ok_def)
  have "snd (observeKey E key True h) = touchRevision (mg_state g) True h" unfolding snd_observeKey findRevision_get [OF i] by simp
  then show ?thesis using g(1) by (simp add: isCurrent_def touchRevision_def Let_def guard_ok_def)
next
  case False
  then have "\<not> isCurrent g h" by (simp add: isCurrent_def)
  then show ?thesis using stays_obsolete [OF g(1) observeKey_ages] by blast
qed

lemma releaseKey_ages: "ages h (releaseKey guard h)"
  by (auto simp: ages_def releaseKey_def hc_release_def Let_def nth_upd om_get_del)

lemma g_closed_parts [simp]: "gfields (releaseGenerations h) = gfields h" "gfields (unregisterStaleBudget h) = gfields h"
  by (simp_all add: releaseGenerations_def g_with) (simp add: unregisterStaleBudget_def gfields_def Let_def split: option.splits)

lemma markClosed_ages: "ages h (markClosed h)"
  by (auto simp: ages_def markClosed_def)

lemma unregister_values: "kr_value (unregister_all m rs ! i) = kr_value (rs ! i)" "kr_references (unregister_all m rs ! i) = kr_references (rs ! i)"
proof -
  have "kr_value (unregister_all m rs ! i) = kr_value (rs ! i) \<and> kr_references (unregister_all m rs ! i) = kr_references (rs ! i)"
  proof (induction m arbitrary: rs)
    case (Cons p m)
    have "unregister_all (p # m) rs = unregister_all m (rs[snd p := (rs ! snd p)\<lparr>kr_registered := False\<rparr>])"
      by (simp add: unregister_all_def)
    moreover have "kr_value (rs[snd p := (rs ! snd p)\<lparr>kr_registered := False\<rparr>] ! i) = kr_value (rs ! i)
        \<and> kr_references (rs[snd p := (rs ! snd p)\<lparr>kr_registered := False\<rparr>] ! i) = kr_references (rs ! i)"
      by (cases "snd p = i"; cases "i < length rs") (auto simp: list_update_beyond)
    ultimately show ?case using Cons.IH by simp
  qed (simp add: unregister_all_def)
  then show "kr_value (unregister_all m rs ! i) = kr_value (rs ! i)" "kr_references (unregister_all m rs ! i) = kr_references (rs ! i)" by auto
qed

lemma releaseSeen_ages:
  assumes "revisions_ok E h"
  shows "ages h (releaseSeenAndRevisions h)"
  using assms by (auto simp: ages_def releaseSeenAndRevisions_def hc_release_def unregister_all_nth unregister_values revisions_ok_def)

lemma closeResources_ages:
  assumes "hc_inv E valid rd h"
  shows "ages h (closeResources L h)" and "hc_mutationEpoch (closeResources L h) = hc_mutationEpoch h + 1"
    and "hc_closed (closeResources L h)" and "hc_keyRevisions (closeResources L h) = []"
    and "map kr_references (hc_revisions (closeResources L h)) = map kr_references (hc_revisions h)"
proof -
  define h1 where "h1 = releaseGenerations (clearNegative (clearInflight (markClosed h)))"
  have g1: "gfields h1 = gfields (markClosed h)" by (simp add: h1_def)
  have "gfields (clearStale (releaseSeenAndRevisions h1)) = gfields (releaseSeenAndRevisions h1)" by simp
  then have g: "gfields (closeResources L h) = gfields (releaseSeenAndRevisions h1)"
    by (simp add: closeResources_def Let_def h1_def [symmetric])
  have "hc_keeps E valid rd h h1" unfolding h1_def
    by (intro hc_keeps_trans [OF _ release_generations_keeps] hc_keeps_trans [OF _ clearNegative_keeps] hc_keeps_trans [OF _ clearInflight_keeps])
      (simp add: markClosed_def frame_keeps(7))
  then have rv: "revisions_ok E h1" using assms by (simp add: hc_keeps_def hc_inv_def maps_ok_def)
  show "ages h (closeResources L h)"
    using ages_trans [OF markClosed_ages ages_trans [OF ages_same [OF g1] ages_trans [OF releaseSeen_ages [OF rv] ages_same [OF g]]]] .
  show "hc_mutationEpoch (closeResources L h) = hc_mutationEpoch h + 1" "hc_closed (closeResources L h)" "hc_keyRevisions (closeResources L h) = []"
    using g g1 by (simp_all add: gfields_def releaseSeenAndRevisions_def hc_release_def markClosed_def)
  have "hc_revisions (closeResources L h) = unregister_all (hc_keyRevisions h1) (hc_revisions h1)" "hc_revisions h1 = hc_revisions h"
    using g g1 by (simp_all add: gfields_def releaseSeenAndRevisions_def hc_release_def markClosed_def)
  then show "map kr_references (hc_revisions (closeResources L h)) = map kr_references (hc_revisions h)"
    by (simp add: list_eq_iff_nth_eq unregister_values)
qed

end
