(* ===== verification/Cache_Runs.thy ===== *)
theory Cache_Runs
  imports Cache_Guards
begin

text \<open>
  Runs of one cache instance: the synchronous steps of any number of operations, the calls on its L1 and
  the activity of the other users of the budget, in any order. The theorems: the byte ledger is exact
  after every run, a guard that a later mutation has overtaken never commits, and a guard that nothing
  has overtaken still can.
\<close>

section \<open>Runs\<close>

text \<open>
  The synchronous steps the operations of a cache are made of. \<open>HBudget\<close> is the activity of the other
  users of the shared budget, \<open>HL1\<close> a call on the L1, \<open>HAbort\<close> a controller that fires. The state of a
  run carries the guards that are held; \<open>HDelete\<close> is a whole local deletion up to its first await.
\<close>

datatype hc_event = HRemember int CacheKey jsval CacheOptions "bytes option" | HGetStale int CacheKey | HRemoveStale CacheKey
  | HSetNegative int CacheKey CacheOptions | HHasNegative int CacheKey | HRemoveNegative CacheKey
  | HStart int CacheKey nat "jsnum option" | HFinish CacheKey nat | HPrune int CacheKey | HRemoveInflight CacheKey
  | HJoin CacheOptions | HLeave | HObserve CacheKey bool | HRelease MutationGuard | HDelete int CacheKey "int option"
  | HDeletePattern int jsstr | HAdvance int jsstr "int option" | HSaturate int | HSeen int jsstr | HMarkSeen int jsstr | HForget jsstr
  | HUntrusted int | HRestoreBegin int | HRestoreEnd nat | HStatus int bus_status | HEvictStale | HL1 ms_event
  | HLead "nat list" | HAbort nat | HClose | HBudget MemoryBudget

fun hc_step :: "'x event_env_scheme \<Rightarrow> 'c lru \<Rightarrow> hc_event \<Rightarrow> 'c HybridCache \<Rightarrow> 'c HybridCache" where
  "hc_step E L (HRemember now key v options reusable) h = rememberStale E now key v options reusable h"
| "hc_step E L (HGetStale now key) h = snd (getStale E now key h)"
| "hc_step E L (HRemoveStale key) h = removeStale key h"
| "hc_step E L (HSetNegative now key options) h = setNegative E now key options h"
| "hc_step E L (HHasNegative now key) h = snd (hasNegative now key h)"
| "hc_step E L (HRemoveNegative key) h = removeNegative key h"
| "hc_step E L (HStart now key p x) h = snd (startInflight E now key p x h)"
| "hc_step E L (HFinish key p) h = finishInflight key p h"
| "hc_step E L (HPrune now key) h = pruneInflightKey now key h"
| "hc_step E L (HRemoveInflight key) h = removeInflight key h"
| "hc_step E L (HJoin options) h = snd (joinInflight options h)"
| "hc_step E L HLeave h = leaveInflight h"
| "hc_step E L (HObserve key mutate) h = snd (observeKey E key mutate h)"
| "hc_step E L (HRelease g) h = releaseKey g h"
| "hc_step E L (HDelete now key generation) h = snd (deleteLocal_begin E L now key generation h)"
| "hc_step E L (HDeletePattern now pattern) h = deleteByPatternLocal_begin E L now pattern h"
| "hc_step E L (HAdvance now key generation) h = advanceGenerationAfterRemoteSet E L now key generation h"
| "hc_step E L (HSaturate now) h = saturateGenerationTracking E L now h"
| "hc_step E L (HSeen now i) h = snd (hasSeenEvent E now i h)"
| "hc_step E L (HMarkSeen now i) h = markEventSeen E now i h"
| "hc_step E L (HForget i) h = removeSeenEvent E i h"
| "hc_step E L (HUntrusted now) h = markInvalidationUntrusted E L now h"
| "hc_step E L (HRestoreBegin now) h = snd (restoreTrust_begin E L now h)"
| "hc_step E L (HRestoreEnd r) h = restoreTrust_end r h"
| "hc_step E L (HStatus now status) h = snd (onBusStatus E L now status h)"
| "hc_step E L HEvictStale h = snd (evictOneStale h)"
| "hc_step E L (HL1 e) h = snd (on_l1 (\<lambda>s. ((), ms_step E L e s)) () h)"
| "hc_step E L (HLead cs) h = h\<lparr>hc_activeLeaders := cs\<rparr>"
| "hc_step E L (HAbort c) h = h\<lparr>hc_aborted := c # hc_aborted h\<rparr>"
| "hc_step E L HClose h = hc_close L h"
| "hc_step E L (HBudget b) h = h\<lparr>hc_budget := Some b\<rparr>"

text \<open>The guards held after a step.\<close>

fun hc_guards :: "'x event_env_scheme \<Rightarrow> 'c lru \<Rightarrow> hc_event \<Rightarrow> 'c HybridCache \<Rightarrow> MutationGuard list \<Rightarrow> MutationGuard list" where
  "hc_guards E L (HObserve key mutate) h gs = fst (observeKey E key mutate h) # gs"
| "hc_guards E L (HDelete now key generation) h gs = fst (deleteLocal_begin E L now key generation h) # gs"
| "hc_guards E L (HRelease g) h gs = remove1 g gs"
| "hc_guards E L _ h gs = gs"

text \<open>
  What the callers ensure: a load is registered only when the key has no entry, a follower leaves once,
  a guard is released once, and the other users of the budget give back only what is theirs.
\<close>

fun hc_legal :: "hc_event \<Rightarrow> 'c HybridCache \<Rightarrow> MutationGuard list \<Rightarrow> bool" where
  "hc_legal (HStart now key p x) h gs = (om_get (hc_inflight h) key = None)"
| "hc_legal HLeave h gs = (0 < hc_activeFollowers h)"
| "hc_legal (HRelease g) h gs = (g \<in> set gs)"
| "hc_legal (HBudget b) h gs = (hc_budget h \<noteq> None \<and> budget_ok b \<and> (\<forall>c \<in> {coordination, stale_category, fresh, metadata}. usage h c \<le> held b c))"
| "hc_legal _ h gs = True"

fun hc_run :: "'x event_env_scheme \<Rightarrow> 'c lru \<Rightarrow> hc_event list \<Rightarrow> 'c HybridCache \<times> MutationGuard list \<Rightarrow> 'c HybridCache \<times> MutationGuard list" where
  "hc_run E L [] s = s"
| "hc_run E L (e # es) s = hc_run E L es (hc_step E L e (fst s), hc_guards E L e (fst s) (snd s))"

fun hc_legal_run :: "'x event_env_scheme \<Rightarrow> 'c lru \<Rightarrow> hc_event list \<Rightarrow> 'c HybridCache \<times> MutationGuard list \<Rightarrow> bool" where
  "hc_legal_run E L [] s \<longleftrightarrow> True"
| "hc_legal_run E L (e # es) s \<longleftrightarrow> hc_legal e (fst s) (snd s)
     \<and> hc_legal_run E L es (hc_step E L e (fst s), hc_guards E L e (fst s) (snd s))"

section \<open>Every step keeps the ledger\<close>

lemma finish_keeps: "hc_keeps E valid rd h (finishInflight key p h)" "hc_keeps E valid rd h (pruneInflightKey now key h)"
  by (simp_all add: finishInflight_def pruneInflightKey_def removeInflight_keeps split: option.splits)

lemma close_keeps: "lru_laws L valid rd mx \<Longrightarrow> hc_keeps E valid rd h (hc_close L h)"
  by (simp add: hc_close_def closeResources_keeps)

lemma l1_step_keeps: "lru_laws L valid rd mx \<Longrightarrow> hc_keeps E valid rd h (snd (on_l1 (\<lambda>s. ((), ms_step E L e s)) () h))"
  by (rule on_l1_keeps) (simp add: step_keeps)

lemmas operation_keeps = rememberStale_keeps getStale_keeps removeStale_keeps setNegative_keeps hasNegative_keeps removeNegative_keeps
  startInflight_keeps finish_keeps removeInflight_keeps joinInflight_keeps leaveInflight_keeps observeKey_keeps releaseKey_keeps
  deleteLocal_keeps deletePattern_keeps advanceGeneration_keeps saturate_keeps hasSeenEvent_keeps markEventSeen_keeps
  removeSeenEvent_keeps trust_keeps evictOneStale_keeps frame_keeps close_keeps l1_step_keeps

fun budget_event :: "hc_event \<Rightarrow> bool" where
  "budget_event (HBudget b) = True"
| "budget_event e = False"

lemma hc_step_keeps:
  assumes "lru_laws L valid rd mx" and "hc_legal e h gs" and "\<not> budget_event e"
  shows "hc_keeps E valid rd h (hc_step E L e h)"
  using assms by (cases e) (simp_all add: operation_keeps)

lemma unused_category: "c \<notin> {coordination, stale_category, fresh, metadata} \<Longrightarrow> usage h c = 0"
  by (simp add: usage_def l1_usage_def split: option.splits)

lemma budget_event_inv:
  assumes "hc_inv E valid rd h" and "hc_legal (HBudget b) h gs"
  shows "hc_inv E valid rd (h\<lparr>hc_budget := Some b\<rparr>)"
proof -
  let ?h = "h\<lparr>hc_budget := Some b\<rparr>"
  have m: "maps_ok E ?h" "usage ?h = usage h" using assms(1) by (auto simp: hc_inv_def maps_ok_def part_defs usage_defs fun_eq_iff)
  have le: "usage h c \<le> held b c" for c
    using assms(2) held_bounds [of b c] unused_category [of c h] by (cases "c \<in> {coordination, stale_category, fresh, metadata}") (auto simp: budget_ok_def)
  have "ms_inv E valid rd (b, m)" if "hc_l1 h = Some m" for m
  proof -
    obtain b0 where "hc_budget h = Some b0" using assms(2) by auto
    then have b0: "ms_inv E valid rd (b0, m)" using assms(1) that by (simp add: hc_inv_def)
    have "ms_bytes m \<le> held b fresh" "history_bytes m \<le> held b metadata"
      using le [of fresh] le [of metadata] that by (simp_all add: usage_def l1_usage_def categories [symmetric])
    then show ?thesis using b0 assms(2) by (auto simp: ms_inv_def)
  qed
  then show ?thesis using m le assms(2) by (simp add: hc_inv_def)
qed

lemma hc_step_inv:
  assumes "lru_laws L valid rd mx" and "hc_inv E valid rd h" and "hc_legal e h gs"
  shows "hc_inv E valid rd (hc_step E L e h)"
proof (cases "budget_event e")
  case True
  then obtain b where e: "e = HBudget b" by (cases e) auto
  then show ?thesis using budget_event_inv [OF assms(2), of b gs] assms(3) by simp
next
  case False
  then show ?thesis using hc_step_keeps [OF assms(1,3) False, of E] assms(2) by (simp add: hc_keeps_def)
qed

section \<open>Every step only ages the guards\<close>

lemma deleteLocal_split:
  "snd (deleteLocal_begin E L now key generation h) = l1_delete L (mg_storageKey (fst (observeKey E key True h)))
     (advanceGenerationAfterDelete E L now (key_text E key) generation (removeStale key (removeNegative key (removeInflight key
       (snd (observeKey E key True h))))))"
  "fst (deleteLocal_begin E L now key generation h) = fst (observeKey E key True h)"
  by (simp_all add: deleteLocal_begin_def Let_def)

lemma deleteLocal_after: "ages (snd (observeKey E key True h)) (snd (deleteLocal_begin E L now key generation h))"
proof -
  let ?h1 = "removeStale key (removeNegative key (removeInflight key (snd (observeKey E key True h))))"
  have "ages (snd (observeKey E key True h)) ?h1" by (rule ages_same) simp
  then have "ages (snd (observeKey E key True h)) (advanceGenerationAfterDelete E L now (key_text E key) generation ?h1)"
    by (rule ages_trans [OF _ advance_ages(1)])
  then show ?thesis unfolding deleteLocal_split by (rule ages_trans [OF _ ages_same]) simp
qed

lemma g_fold: "(\<And>x h. gfields (f x h) = gfields h) \<Longrightarrow> gfields (fold f xs h) = gfields h"
  by (induction xs arbitrary: h) simp_all

lemma deletePattern_g: "gfields (deleteByPatternLocal_begin E L now pattern h) = gfields (h\<lparr>hc_mutationEpoch := hc_mutationEpoch h + 1\<rparr>)"
  unfolding deleteByPatternLocal_begin_def Let_def by (simp only: g_l1_delete g_fold g_inflight g_negative g_stale)

lemma deletePattern_ages: "ages h (deleteByPatternLocal_begin E L now pattern h)"
  by (rule ages_trans [OF bump_ages(1) ages_same [OF deletePattern_g]]) simp

lemma deletePattern_epoch: "hc_mutationEpoch (deleteByPatternLocal_begin E L now pattern h) = hc_mutationEpoch h + 1"
  using g_epoch(2) [OF deletePattern_g, of E L now pattern h] by simp

lemma trust_g:
  "gfields (markInvalidationUntrusted E L now h) = gfields (h\<lparr>hc_mutationEpoch := hc_mutationEpoch h + 1\<rparr>)"
  "gfields (snd (restoreTrust_begin E L now h)) = gfields (h\<lparr>hc_mutationEpoch := hc_mutationEpoch h + 1\<rparr>)"
  "gfields (restoreTrust_end r h) = gfields h" "gfields (h\<lparr>hc_lastBusStatus := x\<rparr>) = gfields h"
  by (simp_all add: markInvalidationUntrusted_def restoreTrust_begin_def restoreTrust_end_def gfields_def [where h = "h\<lparr>hc_invalidationRevision := _, hc_trusted := _, hc_mutationEpoch := _\<rparr>"])
    (simp_all add: gfields_def)

lemma bumped: "gfields h' = gfields (h\<lparr>hc_mutationEpoch := hc_mutationEpoch h + 1\<rparr>) \<Longrightarrow> ages h h' \<and> hc_mutationEpoch h' = hc_mutationEpoch h + 1"
  using ages_trans [OF bump_ages(1) ages_same, of h "hc_mutationEpoch h + 1" h'] g_epoch(2) by force

lemma onBusStatus_ages: "ages h (snd (onBusStatus E L now status h))"
proof -
  let ?h1 = "h\<lparr>hc_lastBusStatus := Some status\<rparr>"
  have b: "ages h h'" if "gfields h' = gfields (?h1\<lparr>hc_mutationEpoch := hc_mutationEpoch ?h1 + 1\<rparr>)" for h'
    using ages_trans [OF ages_same [OF trust_g(4)]] bumped [OF that] by blast
  show ?thesis unfolding onBusStatus_def Let_def using b [OF trust_g(1)] b [OF trust_g(2)] by auto
qed

lemma same_fields:
  "gfields (h\<lparr>hc_activeLeaders := cs\<rparr>) = gfields h" "gfields (h\<lparr>hc_budget := b\<rparr>) = gfields h"
  by (simp_all add: gfields_def)

lemma hc_step_ages:
  assumes "hc_inv E valid rd h"
  shows "ages h (hc_step E L e h)"
proof (cases e)
  case (HDelete now key generation)
  then show ?thesis using ages_trans [OF observeKey_ages deleteLocal_after] by simp
next
  case HClose
  then show ?thesis using closeResources_ages(1) [OF assms] by (simp add: hc_close_def)
next
  case (HAbort c)
  then show ?thesis by (auto simp: ages_def)
qed (simp_all add: observeKey_ages releaseKey_ages deletePattern_ages advance_ages saturate_ages bumped trust_g onBusStatus_ages
    same_fields ages_same)

section \<open>References\<close>

text \<open>Every revision object counts the guards that hold it, and one that nobody holds is not in the map.\<close>

definition holders :: "MutationGuard list \<Rightarrow> nat \<Rightarrow> int" where
  "holders gs i = int (length (filter (\<lambda>g. mg_state g = i) gs))"

definition refs_ok :: "MutationGuard list \<Rightarrow> 'c HybridCache \<Rightarrow> bool" where
  "refs_ok gs h \<longleftrightarrow> (\<forall>i < length (hc_revisions h). kr_references (hc_revisions h ! i) = holders gs i)
     \<and> (\<forall>p \<in> set (hc_keyRevisions h). 0 < kr_references (hc_revisions h ! snd p)) \<and> (\<forall>g \<in> set gs. guard_ok g h)"

definition rfields :: "'c HybridCache \<Rightarrow> KeyRevision list \<times> (CacheKey, nat) omap" where
  "rfields h = (hc_revisions h, hc_keyRevisions h)"

lemma r_of_g: "gfields h = gfields g \<Longrightarrow> rfields h = rfields g"
  by (simp add: gfields_def rfields_def)

lemma r_bump:
  "rfields (h\<lparr>hc_mutationEpoch := n\<rparr>) = rfields h" "rfields (h\<lparr>hc_saturated := t, hc_mutationEpoch := n\<rparr>) = rfields h"
  "rfields (h\<lparr>hc_aborted := a\<rparr>) = rfields h"
  by (simp_all add: rfields_def)

lemma r_saturate: "rfields (saturateGenerationTracking E L now h) = rfields h"
proof (cases "hc_saturated h")
  case False
  then have "gfields (saturateGenerationTracking E L now h) = gfields (h\<lparr>hc_saturated := True, hc_mutationEpoch := hc_mutationEpoch h + 1\<rparr>)"
    by (simp add: saturateGenerationTracking_def)
  then show ?thesis using r_of_g r_bump(2) by metis
qed (simp add: saturateGenerationTracking_def)

lemma r_reserve: "rfields (snd (hc_reserve n c h)) = rfields h"
  by (rule r_of_g) simp

lemma r_with: "rfields (h\<lparr>hc_generations := a\<rparr>) = rfields h" "rfields (h\<lparr>hc_generationBytes := b\<rparr>) = rfields h"
  by (simp_all add: rfields_def)

lemma r_storeGeneration: "rfields (storeGeneration E L now key g h) = rfields h"
  by (simp add: storeGeneration_def Let_def r_saturate r_reserve r_with)

lemma r_advance:
  "rfields (advanceGenerationAfterDelete E L now key g h) = rfields h" "rfields (advanceGenerationAfterRemoteSet E L now key g h) = rfields h"
  by (simp_all add: advanceGenerationAfterDelete_def advanceGenerationAfterRemoteSet_def r_storeGeneration split: option.splits)

lemma r_delete: "rfields (snd (deleteLocal_begin E L now key generation h)) = rfields (snd (observeKey E key True h))"
proof -
  let ?h1 = "removeStale key (removeNegative key (removeInflight key (snd (observeKey E key True h))))"
  have "rfields ?h1 = rfields (snd (observeKey E key True h))" by (rule r_of_g) simp
  then have "rfields (advanceGenerationAfterDelete E L now (key_text E key) generation ?h1) = rfields (snd (observeKey E key True h))"
    by (simp add: r_advance)
  moreover have "rfields (l1_delete L k h') = rfields h'" for k h' by (rule r_of_g) simp
  ultimately show ?thesis unfolding deleteLocal_split by simp
qed

lemma r_bumped: "gfields h' = gfields (h\<lparr>hc_mutationEpoch := n\<rparr>) \<Longrightarrow> rfields h' = rfields h"
  using r_of_g r_bump(1) by metis

lemma r_status: "rfields (snd (onBusStatus E L now status h)) = rfields h"
  by (simp add: onBusStatus_def Let_def r_bumped [OF trust_g(1)] r_bumped [OF trust_g(2)] r_of_g [OF trust_g(4)])

lemma r_deletePattern: "rfields (deleteByPatternLocal_begin E L now pattern h) = rfields h"
  by (rule r_bumped [OF deletePattern_g])

lemma refs_frame:
  assumes "refs_ok gs h" and "ages h h'" and "rfields h' = rfields h"
  shows "refs_ok gs h'"
  using assms guard_ok_ages [OF _ assms(2)] by (simp add: refs_ok_def rfields_def)

text \<open>The steps that leave the revisions alone.\<close>

fun revision_event :: "hc_event \<Rightarrow> bool" where
  "revision_event (HObserve key mutate) = True"
| "revision_event (HRelease g) = True"
| "revision_event (HDelete now key generation) = True"
| "revision_event HClose = True"
| "revision_event e = False"

lemmas r_moved = r_advance r_saturate r_status r_deletePattern r_bump r_bumped [OF trust_g(1)] r_bumped [OF trust_g(2)]

lemma r_step: "\<not> revision_event e \<Longrightarrow> rfields (hc_step E L e h) = rfields h"
  by (cases e; (simp add: r_moved; fail)?; (rule r_of_g; simp add: trust_g same_fields; fail)?)

lemma guards_step: "\<not> revision_event e \<Longrightarrow> hc_guards E L e h gs = gs"
  by (cases e) simp_all

lemma holders_Cons: "holders (g # gs) i = holders gs i + (if mg_state g = i then 1 else 0)"
  by (simp add: holders_def)

lemma holders_remove1: "g \<in> set gs \<Longrightarrow> holders (remove1 g gs) i = holders gs i - (if mg_state g = i then 1 else 0)"
  by (induction gs) (auto simp: holders_def)

lemma findRevision_refs:
  assumes "refs_ok gs h" and "hc_inv E valid rd h"
  shows "\<forall>j < length (hc_revisions (snd (findRevision E key h))). kr_references (hc_revisions (snd (findRevision E key h)) ! j) = holders gs j"
    and "\<forall>p \<in> set (hc_keyRevisions (snd (findRevision E key h))). snd p = fst (findRevision E key h)
      \<or> 0 < kr_references (hc_revisions (snd (findRevision E key h)) ! snd p)"
proof -
  let ?h = "snd (findRevision E key h)" and ?i = "fst (findRevision E key h)"
  have "(\<forall>j < length (hc_revisions ?h). kr_references (hc_revisions ?h ! j) = holders gs j)
    \<and> (\<forall>p \<in> set (hc_keyRevisions ?h). snd p = ?i \<or> 0 < kr_references (hc_revisions ?h ! snd p))"
  proof (cases "om_get (hc_keyRevisions h) key")
    case None
    then obtain reg h1 where f: "findRevision E key h = (length (hc_revisions h), h1)"
      "hc_revisions h1 = hc_revisions h @ [\<lparr>kr_value = 0, kr_references = 0, kr_bytes = keyMetadataBytes E key, kr_registered = reg\<rparr>]"
      "hc_keyRevisions h1 = (if reg then om_set (hc_keyRevisions h) key (length (hc_revisions h)) else hc_keyRevisions h)"
      by (rule findRevision_new [of h key E]) auto
    have n: "holders gs (length (hc_revisions h)) = 0"
      using assms(1) by (auto simp: refs_ok_def holders_def guard_ok_def filter_empty_conv)
    have l: "\<forall>p \<in> set (hc_keyRevisions h). snd p < length (hc_revisions h)"
      using inv_maps [OF assms(2)] by (simp add: maps_ok_def revisions_ok_def)
    have r: "kr_references (hc_revisions h1 ! j) = holders gs j" if "j < Suc (length (hc_revisions h))" for j
      using that assms(1) n f(2) by (auto simp: refs_ok_def nth_append less_Suc_eq)
    have "snd p = length (hc_revisions h) \<or> 0 < kr_references (hc_revisions h1 ! snd p)" if p: "p \<in> set (hc_keyRevisions h1)" for p
    proof -
      have "p \<in> set (hc_keyRevisions h) \<or> snd p = length (hc_revisions h)"
        using p set_om_set [of "hc_keyRevisions h" key "length (hc_revisions h)"] f(3) by (auto split: if_splits)
      then show ?thesis using l assms(1) f(2) by (auto simp: refs_ok_def nth_append simp del: split_paired_All)
    qed
    then show ?thesis using r f(1,2) by simp
  qed (use assms in \<open>simp add: findRevision_def refs_ok_def\<close>)
  then show "\<forall>j < length (hc_revisions ?h). kr_references (hc_revisions ?h ! j) = holders gs j"
    "\<forall>p \<in> set (hc_keyRevisions ?h). snd p = ?i \<or> 0 < kr_references (hc_revisions ?h ! snd p)" by blast+
qed

lemma holders_nonneg: "0 \<le> holders gs i"
  by (simp add: holders_def)

lemma observe_refs:
  assumes "refs_ok gs h" and "hc_inv E valid rd h"
  shows "refs_ok (fst (observeKey E key mutate h) # gs) (snd (observeKey E key mutate h))"
proof -
  let ?i = "fst (findRevision E key h)" and ?h2 = "snd (findRevision E key h)"
  note f = findRevision_refs [OF assms, of key] and g = observeKey_guard [OF assms(2), of E key mutate]
  have i: "?i < length (hc_revisions ?h2)" using findRevision_index [OF assms(2), of E key] by simp
  have m: "\<forall>p \<in> set (hc_keyRevisions ?h2). snd p < length (hc_revisions ?h2)"
    using findRevision_keeps [of E valid rd h key] assms(2) inv_maps [of E valid rd ?h2] by (simp add: hc_keeps_def maps_ok_def revisions_ok_def)
  have "\<forall>x \<in> set gs. guard_ok x (snd (observeKey E key mutate h))"
    using assms(1) by (auto simp: refs_ok_def intro: guard_ok_ages [OF _ observeKey_ages])
  moreover have n: "length (hc_revisions (snd (observeKey E key mutate h))) = length (hc_revisions ?h2)"
    and k: "hc_keyRevisions (snd (observeKey E key mutate h)) = hc_keyRevisions ?h2"
    by (simp_all add: snd_observeKey touchRevision_def Let_def)
  moreover have r: "kr_references (hc_revisions (snd (observeKey E key mutate h)) ! j) = holders gs j + (if ?i = j then 1 else 0)"
    if "j < length (hc_revisions ?h2)" for j
    using f(1) that by (simp add: snd_observeKey touchRevision_def Let_def nth_upd)
  moreover have "0 < holders gs (snd p) + (if ?i = snd p then 1 else 0)" if p: "p \<in> set (hc_keyRevisions ?h2)" for p
  proof -
    have "snd p = ?i \<or> 0 < kr_references (hc_revisions ?h2 ! snd p)" "snd p < length (hc_revisions ?h2)" using f(2) m p by blast+
    then show ?thesis using f(1) holders_nonneg [of gs "snd p"] by auto
  qed
  ultimately have "\<forall>p \<in> set (hc_keyRevisions ?h2). 0 < kr_references (hc_revisions (snd (observeKey E key mutate h)) ! snd p)"
    using m by (metis r)
  then show ?thesis using g(1,3) n k r \<open>\<forall>x \<in> set gs. guard_ok x (snd (observeKey E key mutate h))\<close>
    by (simp add: refs_ok_def holders_Cons)
qed

lemma release_refs:
  assumes "refs_ok gs h" and "hc_inv E valid rd h" and "g \<in> set gs"
  shows "refs_ok (remove1 g gs) (releaseKey g h)"
proof -
  have gk: "mg_state g < length (hc_revisions h)" and dist: "distinct (map snd (hc_keyRevisions h))" and ok: "om_ok (hc_keyRevisions h)"
    using assms inv_maps [OF assms(2)] by (auto simp: refs_ok_def guard_ok_def maps_ok_def revisions_ok_def)
  have l: "length (hc_revisions (releaseKey g h)) = length (hc_revisions h)"
    and r: "\<And>j. j < length (hc_revisions h) \<Longrightarrow> kr_references (hc_revisions (releaseKey g h) ! j)
      = kr_references (hc_revisions h ! j) - (if mg_state g = j then 1 else 0)"
    by (auto simp: releaseKey_def hc_release_def Let_def nth_upd)
  have pos: "0 < kr_references (hc_revisions (releaseKey g h) ! snd p)" if p: "p \<in> set (hc_keyRevisions (releaseKey g h))" for p
  proof -
    have p0: "p \<in> set (hc_keyRevisions h)" using p by (auto simp: releaseKey_def hc_release_def Let_def set_om_del split: if_splits)
    then have b: "snd p < length (hc_revisions h)" "0 < kr_references (hc_revisions h ! snd p)"
      using assms(1) inv_maps [OF assms(2)] by (auto simp: refs_ok_def maps_ok_def revisions_ok_def)
    show ?thesis
    proof (cases "snd p = mg_state g")
      case True
      have reg: "kr_registered (hc_revisions h ! mg_state g)"
        using inv_maps [OF assms(2)] p0 True gk by (force simp: maps_ok_def revisions_ok_def)
      then have "om_get (hc_keyRevisions h) (mg_key g) = Some (mg_state g)" using assms(1,3) by (auto simp: refs_ok_def guard_ok_def)
      then have "(mg_key g, mg_state g) \<in> set (hc_keyRevisions h)" and get: "om_get (hc_keyRevisions h) (mg_key g) = Some (mg_state g)"
        by (simp_all add: om_get_entry)
      then have "fst p = mg_key g" using p0 True dist by (metis (no_types, lifting) distinct_map fst_conv inj_onD snd_conv)
      then have "kr_references (hc_revisions h ! mg_state g) - 1 \<noteq> 0"
        using p get gk by (auto simp: releaseKey_def hc_release_def Let_def set_om_del split: if_splits)
      then show ?thesis using r b True by simp
    qed (use r b in simp)
  qed
  have "\<forall>x \<in> set (remove1 g gs). guard_ok x (releaseKey g h)"
    using assms(1) guard_ok_ages [OF _ releaseKey_ages] notin_set_remove1 by (fastforce simp: refs_ok_def)
  then show ?thesis using assms(1,3) l r pos by (simp add: refs_ok_def holders_remove1)
qed

lemma close_refs:
  assumes "refs_ok gs h" and "hc_inv E valid rd h"
  shows "refs_ok gs (hc_close L h)"
proof (cases "hc_closed h")
  case False
  note c = closeResources_ages [OF assms(2), of L]
  have l: "length (hc_revisions (closeResources L h)) = length (hc_revisions h)" using c(5) by (metis length_map)
  then have "kr_references (hc_revisions (closeResources L h) ! j) = kr_references (hc_revisions h ! j)" if "j < length (hc_revisions h)" for j
    using that c(5) by (metis nth_map)
  then show ?thesis using False assms(1) l c(4) guard_ok_ages [OF _ c(1)] by (simp add: refs_ok_def hc_close_def)
qed (simp add: hc_close_def assms)

lemma step_refs:
  assumes "refs_ok gs h" and "hc_inv E valid rd h" and "hc_legal e h gs"
  shows "refs_ok (hc_guards E L e h gs) (hc_step E L e h)"
proof (cases "revision_event e")
  case False
  then show ?thesis using refs_frame [OF assms(1) hc_step_ages [OF assms(2)] r_step] by (simp add: guards_step)
next
  case True
  show ?thesis
  proof (cases e)
    case (HDelete now key generation)
    have "guard_ok g (snd (deleteLocal_begin E L now key generation h))" if "guard_ok g (snd (observeKey E key True h))" for g
      using guard_ok_ages [OF that deleteLocal_after] .
    then show ?thesis using observe_refs [OF assms(1,2), where key = key and mutate = True] r_delete [of E L now key generation h] HDelete
      by (simp add: refs_ok_def rfields_def deleteLocal_split(2))
  qed (use True assms observe_refs [OF assms(1,2)] release_refs [OF assms(1,2)] close_refs [OF assms(1,2)] in simp_all)
qed

section \<open>Invariant of a run\<close>

definition run_ok :: "'x event_env_scheme \<Rightarrow> ('c \<Rightarrow> bool) \<Rightarrow> ('c \<Rightarrow> (CacheKey \<times> Entry) list) \<Rightarrow> 'c HybridCache \<times> MutationGuard list \<Rightarrow> bool" where
  "run_ok E valid rd s \<longleftrightarrow> hc_inv E valid rd (fst s) \<and> refs_ok (snd s) (fst s)"

lemma run_ok_run:
  assumes laws: "lru_laws L valid rd mx"
  shows "run_ok E valid rd s \<Longrightarrow> hc_legal_run E L es s \<Longrightarrow> run_ok E valid rd (hc_run E L es s) \<and> ages (fst s) (fst (hc_run E L es s))"
proof (induction es arbitrary: s)
  case (Cons e es)
  have s1: "run_ok E valid rd (hc_step E L e (fst s), hc_guards E L e (fst s) (snd s))"
    using Cons.prems hc_step_inv [OF laws] step_refs by (auto simp: run_ok_def)
  have "ages (fst s) (hc_step E L e (fst s))" using Cons.prems hc_step_ages by (auto simp: run_ok_def)
  then show ?case using Cons.IH [OF s1] Cons.prems ages_trans by fastforce
qed simp

lemma run_append: "hc_run E L (xs @ ys) s = hc_run E L ys (hc_run E L xs s)"
  "hc_legal_run E L (xs @ ys) s \<longleftrightarrow> hc_legal_run E L xs s \<and> hc_legal_run E L ys (hc_run E L xs s)"
  by (induction xs arbitrary: s) auto

lemma others_run:
  assumes laws: "lru_laws L valid rd mx"
  shows "run_ok E valid rd s \<Longrightarrow> hc_legal_run E L es s \<Longrightarrow> \<forall>e \<in> set es. \<not> budget_event e
    \<Longrightarrow> hc_others (fst (hc_run E L es s)) = hc_others (fst s)"
proof (induction es arbitrary: s)
  case (Cons e es)
  have s1: "run_ok E valid rd (hc_step E L e (fst s), hc_guards E L e (fst s) (snd s))"
    using Cons.prems hc_step_inv [OF laws] step_refs by (auto simp: run_ok_def)
  have "hc_keeps E valid rd (fst s) (hc_step E L e (fst s))" using Cons.prems hc_step_keeps [OF laws] by auto
  then show ?case using Cons.IH [OF s1] Cons.prems by (simp add: hc_keeps_def run_ok_def)
qed simp

lemma fresh_inv:
  assumes "case budget of None \<Rightarrow> store = None | Some b \<Rightarrow> budget_ok b \<and> (\<forall>m. store = Some m \<longrightarrow> ms_inv E valid rd (b, m))"
  shows "run_ok E valid rd (fresh_cache options source store owns remote budget client registered, [])"
proof -
  let ?h = "fresh_cache options source store owns remote budget client registered"
  have m: "maps_ok E ?h" "hc_l1 ?h = store" "hc_budget ?h = budget" "coord_bytes ?h = 0" "hc_staleBytes ?h = 0"
    by (simp_all add: fresh_cache_def maps_ok_def part_defs coord_bytes_def MAX_AUXILIARY_MAP_BYTES_def MAX_GENERATION_BYTES_def
        MAX_GENERATION_ENTRIES_def)
  have u: "usage ?h d = (case store of None \<Rightarrow> 0 | Some m \<Rightarrow> (if d = fresh then ms_bytes m else 0) + (if d = metadata then history_bytes m else 0))" for d
    by (simp add: usage_def l1_usage_def m)
  have "usage ?h d \<le> held b d" if "budget = Some b" for b d
    using assms that held_bounds [of b d] unfolding u by (auto simp: budget_ok_def ms_inv_def split: option.splits)
  then have "hc_inv E valid rd ?h" unfolding hc_inv_def m(2,3) using assms m(1) by (auto split: option.splits)
  then show ?thesis by (simp add: run_ok_def refs_ok_def holders_def fresh_cache_def)
qed

lemma builtin_l1_inv:
  assumes "builtin_l1 L options client given signals cur = Inr s" and "\<forall>b. given = Some b \<or> cur = Some b \<longrightarrow> budget_ok b"
    and "lru_laws L valid rd (ms_maxEntries (snd s))"
  shows "ms_inv E valid rd s"
proof -
  obtain b where b: "ms_budget_for given options signals cur = Inr b" "newMemoryStore L options client b = Inr s"
    using assms(1) by (auto simp: builtin_l1_def split: sum.splits)
  have "budget_ok b"
    using b(1) assms(2) newMemoryBudget_ok
    by (auto simp: ms_budget_for_def getDefaultMemoryBudget_def Let_def split: option.splits sum.splits if_splits)
  then show ?thesis using newMemoryStore_inv [OF b(2) _ assms(3)] by blast
qed

lemma newHybridCache_ok:
  assumes new: "newHybridCache L options source builtinL1 hasL2 given signals cur l1Client staleClient = Inr h"
    and b: "\<forall>b. given = Some b \<or> cur = Some b \<longrightarrow> budget_ok b"
    and laws: "\<And>m. hc_l1 h = Some m \<Longrightarrow> lru_laws L valid rd (ms_maxEntries m)"
  shows "run_ok E valid rd (h, [])"
proof (cases builtinL1)
  case True
  define r where "r = not_false (fo_enabled (co_failSafe options))"
  obtain s0 where s2: "builtin_l1 L (CacheOptions.truncate options) l1Client given signals cur = Inr s0"
    using new True by (cases "builtin_l1 L (CacheOptions.truncate options) l1Client given signals cur") (auto simp: newHybridCache_def split: option.splits)
  have s: "h = fresh_cache options source (Some (snd s0)) True hasL2 (Some (if r then mb_register staleClient (fst s0) else fst s0)) staleClient r"
    using new True s2 by (simp add: newHybridCache_def Let_def r_def split: option.splits if_splits)
  have i: "ms_inv E valid rd s0" using builtin_l1_inv [OF s2 b] laws s by (simp add: fresh_cache_def)
  then have ok: "budget_ok (fst s0)" by (simp add: ms_inv_def)
  then have "ms_inv E valid rd (mb_register staleClient (fst s0), snd s0)" using i bookkeeping_ok(1) by (auto simp: ms_inv_def)
  then show ?thesis unfolding s using i ok bookkeeping_ok(1) [OF ok] by (intro fresh_inv) simp
next
  case False
  define r where "r = (given \<noteq> None \<and> not_false (fo_enabled (co_failSafe options)))"
  then have s: "h = fresh_cache options source None False hasL2 (if r then map_option (mb_register staleClient) given else given) staleClient r"
    using new False by (cases given; cases "not_false (fo_enabled (co_failSafe options))") (simp_all add: newHybridCache_def Let_def split: option.splits)
  show ?thesis unfolding s using b bookkeeping_ok(1) [of _ staleClient] by (intro fresh_inv) (cases given; cases r; simp)
qed

section \<open>What closing gives back\<close>

lemma closed_counters:
  assumes "hc_inv E valid rd h"
  defines "h1 \<equiv> unregisterStaleBudget (clearStale (releaseSeenAndRevisions (releaseGenerations (clearNegative (clearInflight (markClosed h))))))"
  shows "coord_bytes h1 = hc_followerBytes h" and "hc_staleBytes h1 = 0" and "hc_l1 h1 = hc_l1 h" and "hc_ownsL1 h1 = hc_ownsL1 h"
  unfolding h1_def
  by (simp_all add: unregisterStaleBudget_def clearStale_def releaseSeenAndRevisions_def releaseGenerations_def clearNegative_def
      clearInflight_def markClosed_def hc_release_def coord_bytes_def Let_def split: option.splits)

lemma closeResources_usage:
  assumes laws: "lru_laws L valid rd mx" and inv: "hc_inv E valid rd h" and own: "hc_ownsL1 h \<or> hc_l1 h = None"
  shows "usage (closeResources L h) c = (if c = coordination then hc_followerBytes h else 0)"
proof -
  define h1 where "h1 = unregisterStaleBudget (clearStale (releaseSeenAndRevisions (releaseGenerations (clearNegative (clearInflight (markClosed h))))))"
  note h1 = closed_counters [OF inv, folded h1_def]
  have "hc_keeps E valid rd h h1" unfolding h1_def
    by (intro hc_keeps_trans [OF _ unregisterStale_keeps] hc_keeps_trans [OF _ clearStale_keeps] hc_keeps_trans [OF _ release_seen_keeps]
        hc_keeps_trans [OF _ release_generations_keeps] hc_keeps_trans [OF _ clearNegative_keeps] hc_keeps_trans [OF _ clearInflight_keeps])
      (simp add: markClosed_def frame_keeps(7))
  then have k: "hc_inv E valid rd h1" using inv by (simp add: hc_keeps_def)
  show ?thesis
  proof (cases "hc_l1 h")
    case None
    then have "closeResources L h = h1" using h1(3) by (simp add: closeResources_def Let_def h1_def [symmetric] on_l1_def)
    then show ?thesis using h1 None by (simp add: usage_def l1_usage_def)
  next
    case (Some m)
    then obtain b where b: "hc_budget h1 = Some b" "ms_inv E valid rd (b, m)" using k h1(3) by (auto simp: hc_inv_def split: option.splits)
    let ?r = "ms_close L (b, m)"
    have c: "closeResources L h = h1\<lparr>hc_l1 := Some (snd ?r), hc_budget := Some (fst ?r)\<rparr>"
      using own Some h1(3,4) b(1) by (simp add: closeResources_def Let_def h1_def [symmetric] on_l1_def)
    have "ms_bytes (snd ?r) = 0 \<and> history_bytes (snd ?r) = 0"
      using ms_close_spec [OF laws b(2)] b(2) by (cases "ms_closed m") (auto simp: ms_inv_def history_bytes_def ms_close_def resident_def)
    then show ?thesis using h1(1,2) unfolding c by (simp add: usage_def l1_usage_def coord_bytes_def)
  qed
qed

section \<open>Superseding events\<close>

text \<open>The events after which an earlier guard of \<open>key\<close> must not commit.\<close>

fun supersedes :: "CacheKey \<Rightarrow> hc_event \<Rightarrow> bool" where
  "supersedes key (HObserve k mutate) \<longleftrightarrow> k = key \<and> mutate"
| "supersedes key (HDelete now k generation) \<longleftrightarrow> k = key"
| "supersedes key (HDeletePattern now pattern) \<longleftrightarrow> True"
| "supersedes key (HUntrusted now) \<longleftrightarrow> True"
| "supersedes key (HRestoreBegin now) \<longleftrightarrow> True"
| "supersedes key (HStatus now status) \<longleftrightarrow> True"
| "supersedes key HClose \<longleftrightarrow> True"
| "supersedes key e \<longleftrightarrow> False"

lemma epoch_obsolete: "guard_ok g h \<Longrightarrow> hc_mutationEpoch h < hc_mutationEpoch h' \<Longrightarrow> \<not> isCurrent g h'"
  by (auto simp: guard_ok_def isCurrent_def)

lemma trust_epoch:
  "hc_mutationEpoch (markInvalidationUntrusted E L now h) = hc_mutationEpoch h + 1"
  "hc_mutationEpoch (snd (restoreTrust_begin E L now h)) = hc_mutationEpoch h + 1"
  by (simp_all add: bumped [OF trust_g(1)] bumped [OF trust_g(2)])

lemma status_epoch: "\<not> hc_closed h \<Longrightarrow> hc_mutationEpoch (snd (onBusStatus E L now status h)) = hc_mutationEpoch h + 1"
  by (simp add: onBusStatus_def Let_def trust_epoch)

lemma superseded_step:
  assumes inv: "hc_inv E valid rd h" and g: "guard_ok g h" and s: "supersedes (mg_key g) e"
  shows "\<not> isCurrent g (hc_step E L e h)"
proof (cases e)
  case (HObserve k mutate)
  then show ?thesis using mutation_obsoletes [where E = E, OF inv g refl] s by simp
next
  case (HDelete now k generation)
  have "guard_ok g (snd (observeKey E k True h))" using guard_ok_ages [OF g observeKey_ages] .
  then show ?thesis using stays_obsolete [OF _ deleteLocal_after] mutation_obsoletes [where E = E, OF inv g refl] s HDelete by simp
next
  case (HStatus now status)
  show ?thesis
  proof (cases "hc_closed h")
    case True
    then show ?thesis using HStatus by (simp add: onBusStatus_def isCurrent_def)
  next
    case False
    then show ?thesis using HStatus status_epoch [OF False, of E L now status] epoch_obsolete [OF g, of "snd (onBusStatus E L now status h)"] by simp
  qed
next
  case HClose
  then show ?thesis using closeResources_ages(3) [OF inv] by (auto simp: hc_close_def isCurrent_def)
qed (use s in \<open>simp_all add: epoch_obsolete [OF g] deletePattern_epoch trust_epoch\<close>)

section \<open>A concrete cache\<close>

definition demo_cache_options :: HybridCacheOptions where
  "demo_cache_options = CacheOptions.extend demo_store_options
     \<lparr>hco_eventBus = False, hco_subscribeToEvents = None, hco_eventNamespace = None, hco_eventDedupeMaxEntries = None,
      hco_eventDedupeTtlMs = None, hco_broadcastSet = None, hco_broadcastSetMaxBytes = None\<rparr>"

definition demo_signals :: MemorySignals where
  "demo_signals = \<lparr>ms_effectiveBytes = None, ms_availableBytes = None, ms_psiSomeAvg10 = None\<rparr>"

definition demo_cache :: "(int \<times> (CacheKey \<times> Entry \<times> jsnum) list) HybridCache" where
  "demo_cache = fresh_cache demo_cache_options (js ''node'') None False True (Some (mb_register 8 demo_budget)) 8 True"

lemma demo_cache_new:
  "newHybridCache list_lru demo_cache_options (js ''node'') False True (Some demo_budget) demo_signals None 7 8 = Inr demo_cache"
proof -
  have "constructor_error demo_cache_options = None" by code_simp
  moreover have "not_false (fo_enabled (co_failSafe demo_cache_options))" by code_simp
  ultimately show ?thesis by (simp add: newHybridCache_def demo_cache_def Let_def)
qed

lemma demo_laws: "lru_laws list_lru (list_valid 2) list_read 2" "\<forall>m. hc_l1 demo_cache = Some m \<longrightarrow> ms_maxEntries m = 2"
  using list_lru_laws [of 2] by (simp_all add: demo_cache_def fresh_cache_def)

definition demo_events :: "hc_event list" where
  "demo_events = [HObserve demo_key True, HJoin no_cache_options]"

lemma demo_events_follower:
  "(case hc_run demo_event_env list_lru demo_events (demo_cache, []) of (h, gs) \<Rightarrow> (hc_followerBytes h, length gs, hc_l1 h = None)) = (160, 1, True)"
  by code_simp

section \<open>Properties\<close>



text \<open>
  C8. A superseded operation never commits: take a guard for \<open>key\<close> at any point of a run; once a later
  event mutates that key (a set, a delete, a remote event), deletes by pattern, changes the trust in the
  invalidation stream or closes the cache, the guard is not current, whatever happens afterwards and
  whatever abort signal it carries. Since every commit is conditional on \<open>isCurrent\<close>, a slow loader
  cannot overwrite a newer value or resurrect a deleted one.
\<close>

theorem mutation_supersedes:
  assumes laws: "lru_laws L valid rd mx" and new: "newHybridCache L options source builtinL1 hasL2 given signals cur l1Client staleClient = Inr h0"
    and size: "\<forall>m. hc_l1 h0 = Some m \<longrightarrow> ms_maxEntries m = mx" and b: "\<forall>b. given = Some b \<or> cur = Some b \<longrightarrow> budget_ok b"
    and legal: "hc_legal_run E L (es1 @ HObserve key mutate # es2 @ e # es3) (h0, [])" and e: "supersedes key e"
    and g: "g = fst (observeKey E key mutate (fst (hc_run E L es1 (h0, []))))"
  shows "\<not> isCurrent (g\<lparr>mg_signal := signal\<rparr>) (fst (hc_run E L (es1 @ HObserve key mutate # es2 @ e # es3) (h0, [])))"
proof -
  let ?g = "g\<lparr>mg_signal := signal\<rparr>"
  define s1 where "s1 = hc_run E L es1 (h0, [])"
  define s2 where "s2 = hc_run E L (HObserve key mutate # es2) s1"
  define s3 where "s3 = (hc_step E L e (fst s2), hc_guards E L e (fst s2) (snd s2))"
  have l: "hc_legal_run E L es1 (h0, [])" "hc_legal_run E L (HObserve key mutate # es2) s1" "hc_legal e (fst s2) (snd s2)"
    "hc_legal_run E L es3 s3" using legal by (simp_all add: run_append s1_def s2_def s3_def)
  have ok1: "run_ok E valid rd s1" using run_ok_run [OF laws newHybridCache_ok [OF new b] l(1)] size laws by (simp add: s1_def)
  then have i1: "hc_inv E valid rd (fst s1)" by (simp add: run_ok_def)
  have a0: "run_ok E valid rd (hc_run E L [HObserve key mutate] s1)" using run_ok_run [OF laws ok1, of "[HObserve key mutate]"] l(2) by simp
  have gk: "guard_ok ?g (snd (observeKey E key mutate (fst s1)))" "mg_key ?g = key"
    using observeKey_guard [OF i1, of E key mutate] g by (simp_all add: guard_ok_def s1_def)
  have a2: "run_ok E valid rd s2 \<and> ages (snd (observeKey E key mutate (fst s1))) (fst s2)"
    using run_ok_run [OF laws a0, of es2] l(2) by (simp add: s2_def)
  have g2: "guard_ok ?g (fst s2)" and i2: "hc_inv E valid rd (fst s2)" and r2: "refs_ok (snd s2) (fst s2)"
    using guard_ok_ages [OF gk(1)] a2 by (auto simp: run_ok_def)
  have n3: "\<not> isCurrent ?g (fst s3)" using superseded_step [OF i2 g2] gk(2) e by (simp add: s3_def)
  have g3: "guard_ok ?g (fst s3)" using guard_ok_ages [OF g2 hc_step_ages [OF i2]] by (simp add: s3_def)
  have "run_ok E valid rd s3" using hc_step_inv [OF laws i2 l(3)] step_refs [OF r2 i2 l(3)] by (simp add: run_ok_def s3_def)
  then have "ages (fst s3) (fst (hc_run E L es3 s3))" using run_ok_run [OF laws _ l(4)] by blast
  then show ?thesis using stays_obsolete [OF g3 _ n3] by (simp add: run_append s1_def s2_def s3_def)
qed

theorem mutation_supersedes_witness:
  "isCurrent (fst (observeKey demo_event_env demo_key False demo_cache)) (snd (observeKey demo_event_env demo_key False demo_cache))
   \<and> \<not> isCurrent (fst (observeKey demo_event_env demo_key False demo_cache)\<lparr>mg_signal := None\<rparr>)
        (fst (hc_run demo_event_env list_lru ([] @ HObserve demo_key False # [] @ HObserve demo_key True # [HHasNegative 5 demo_key]) (demo_cache, [])))"
proof (intro conjI)
  show "isCurrent (fst (observeKey demo_event_env demo_key False demo_cache)) (snd (observeKey demo_event_env demo_key False demo_cache))"
    by code_simp
qed (rule mutation_supersedes [OF demo_laws(1) demo_cache_new demo_laws(2)], simp_all add: demo_budget_ok)

end
