(* ===== verification/Cache_Eviction.thy ===== *)
theory Cache_Eviction
  imports Cache_Runs
begin

text \<open>
  Maintenance of the shared memory budget: the budget evicts through the callbacks its clients
  registered, the L1 of a cache (\<open>pop\<close>) and its stale values (\<open>evictOneStale\<close>). Here the clients are the
  caches themselves, any number of them on one budget, and the contract the budget relies on is
  discharged for them.
\<close>

section \<open>The registered clients\<close>

definition with_budget :: "MemoryBudget \<Rightarrow> 'c HybridCache \<Rightarrow> 'c HybridCache" where
  "with_budget b h = h\<lparr>hc_budget := Some b\<rparr>"

definition stale_client :: "nat \<Rightarrow> 'c HybridCache \<Rightarrow> bool" where
  "stale_client c h \<longleftrightarrow> hc_staleRegistered h \<and> hc_staleClient h = c"

definition l1_client :: "nat \<Rightarrow> 'c HybridCache \<Rightarrow> bool" where
  "l1_client c h \<longleftrightarrow> (case hc_l1 h of None \<Rightarrow> False | Some m \<Rightarrow> ms_registered m \<and> ms_client m = c)"

definition evictOwn :: "'c lru \<Rightarrow> nat \<Rightarrow> 'c HybridCache \<Rightarrow> bool \<times> 'c HybridCache" where
  "evictOwn L c h = (if stale_client c h then evictOneStale h else on_l1 (ms_evictOne L) False h)"

text \<open>The callback of client \<open>c\<close>, run on the cache that registered it.\<close>

fun evictClient :: "'c lru \<Rightarrow> 'c HybridCache list evict_one" where
  "evictClient L c (b, []) = (Some False, (b, []))"
| "evictClient L c (b, h # hs) =
     (if stale_client c h \<or> l1_client c h
      then let r = evictOwn L c (with_budget b h) in (Some (fst r), (the (hc_budget (snd r)), snd r # hs))
      else let r = evictClient L c (b, hs) in (fst r, (fst (snd r), h # snd (snd r))))"

section \<open>One eviction\<close>

lemma used_is_sum:
  assumes "ledger_ok b" and "finite A" and "fst ` set (mb_categories b) \<subseteq> A"
  shows "mb_used b = (\<Sum>c\<in>A. held b c)"
proof -
  have d: "distinct (map fst (mb_categories b))" using assms(1) by (simp add: ledger_ok_def om_ok_def)
  have "mb_used b = (\<Sum>p\<leftarrow>mb_categories b. held b (fst p))"
    using assms(1) om_get_unique [of "mb_categories b"]
    by (auto simp: ledger_ok_def om_sum_def cat_weight_def held_def intro!: arg_cong [where f = sum_list])
  also have "\<dots> = (\<Sum>c\<leftarrow>map fst (mb_categories b). held b c)" by (simp add: comp_def)
  also have "\<dots> = (\<Sum>c\<in>fst ` set (mb_categories b). held b c)" using sum_list_distinct_conv_sum_set [OF d] by simp
  also have "\<dots> = (\<Sum>c\<in>A. held b c)"
  proof (rule sum.mono_neutral_left [OF assms(2,3)])
    have "om_get (mb_categories b) c = None" if "c \<notin> fst ` set (mb_categories b)" for c
      using that by (simp add: om_get_def map_of_eq_None_iff)
    then show "\<forall>c \<in> A - fst ` set (mb_categories b). held b c = 0" by (simp add: held_def)
  qed
  finally show ?thesis .
qed

lemma used_falls:
  assumes "ledger_ok b" and "ledger_ok b'" and "\<And>c. held b' c \<le> held b c" and "e \<Longrightarrow> held b' c0 + 1 \<le> held b c0"
  shows "mb_used b' + (if e then 1 else 0) \<le> mb_used b"
proof -
  let ?A = "insert c0 (fst ` set (mb_categories b) \<union> fst ` set (mb_categories b'))"
  have u: "mb_used b = (\<Sum>c\<in>?A. held b c)" "mb_used b' = (\<Sum>c\<in>?A. held b' c)"
    using assms(1,2) by (auto intro!: used_is_sum)
  have s: "(\<Sum>c\<in>?A. held x c) = held x c0 + (\<Sum>c\<in>?A - {c0}. held x c)" for x by (rule sum.remove) auto
  have "(\<Sum>c\<in>?A - {c0}. held b' c) \<le> (\<Sum>c\<in>?A - {c0}. held b c)" using assms(3) by (rule sum_mono)
  then show ?thesis using s [of b] s [of b'] assms(3) [of c0] assms(4) by (auto simp: u)
qed

lemma usage_nonneg:
  assumes "hc_inv E valid rd h"
  shows "0 \<le> usage h c"
proof -
  note n = counters_nonneg [OF inv_maps [OF assms]]
  have "0 \<le> l1_usage h c"
  proof (cases "hc_l1 h")
    case (Some m)
    then obtain b where "ms_inv E valid rd (b, m)" using assms by (auto simp: hc_inv_def split: option.splits)
    then have "0 \<le> ms_bytes m" using entries_bytes_nonneg [OF entries_ok_nonneg] by (auto simp: ms_inv_def)
    then show ?thesis using Some by (simp add: l1_usage_def history_bytes_def)
  qed (simp add: l1_usage_def)
  then show ?thesis using n by (simp add: usage_def coord_bytes_def)
qed

lemma usage_with [simp]: "usage (with_budget b h) = usage h"
  by (simp add: with_budget_def usage_defs fun_eq_iff)

lemma budget_with [simp]: "hc_budget (with_budget b h) = Some b"
  by (simp add: with_budget_def)

text \<open>An eviction keeps the cache's ledger, gives bytes back and touches nothing else of the budget.\<close>

definition budget_frame :: "MemoryBudget \<Rightarrow> MemoryBudget \<Rightarrow> bool" where
  "budget_frame b b' \<longleftrightarrow> mb_target b' = mb_target b \<and> mb_clients b' = mb_clients b \<and> mb_evictions b' = mb_evictions b"

lemma release_budget_frame: "budget_frame b (release x c b)"
  by (simp add: budget_frame_def release_def Let_def)

lemma dispose_frame: "budget_frame (fst s) (fst (ms_dispose ds s))"
  unfolding ms_dispose_def
proof (induction ds arbitrary: s)
  case (Cons d ds)
  have "budget_frame (fst s) (fst (ms_dispose1 d s))" by (simp add: ms_dispose1_def release_budget_frame)
  then show ?case using Cons.IH [of "ms_dispose1 d s"] by (simp add: budget_frame_def)
qed (simp add: budget_frame_def)

lemma evictOneStale_effect:
  assumes "hc_inv E valid rd (with_budget b h)"
  defines "r \<equiv> evictOneStale (with_budget b h)"
  shows "\<exists>b'. hc_budget (snd r) = Some b' \<and> budget_frame b b'" and "\<And>c. usage (snd r) c \<le> usage h c"
    and "fst r \<Longrightarrow> usage (snd r) stale_category + 1 \<le> usage h stale_category"
proof -
  have u: "usage (with_budget b h) = usage h" by (simp add: with_budget_def usage_defs fun_eq_iff)
  have "(\<exists>b'. hc_budget (snd r) = Some b' \<and> budget_frame b b') \<and> (\<forall>c. usage (snd r) c \<le> usage h c)
    \<and> (fst r \<longrightarrow> usage (snd r) stale_category + 1 \<le> usage h stale_category)"
  proof (cases "hc_stale h")
    case Nil
    then show ?thesis by (simp add: r_def evictOneStale_def with_budget_def budget_frame_def usage_defs)
  next
    case (Cons p m)
    have "stale_ok (with_budget b h)" using inv_maps [OF assms(1)] by (simp add: maps_ok_def)
    then have "80 \<le> se_bytes (snd p)" using Cons by (simp add: stale_ok_def with_budget_def)
    moreover have "om_get (hc_stale h) (fst p) = Some (snd p)" using Cons by (cases p) (simp add: om_get_def)
    ultimately show ?thesis using Cons
      by (auto simp: r_def evictOneStale_def with_budget_def removeStale_def hc_release_def Let_def usage_defs release_budget_frame)
  qed
  then show "\<exists>b'. hc_budget (snd r) = Some b' \<and> budget_frame b b'" "\<And>c. usage (snd r) c \<le> usage h c"
    "fst r \<Longrightarrow> usage (snd r) stale_category + 1 \<le> usage h stale_category" by blast+
qed

lemma evictL1_effect:
  assumes laws: "lru_laws L valid rd mx" and inv: "hc_inv E valid rd (with_budget b h)"
  defines "r \<equiv> on_l1 (ms_evictOne L) False (with_budget b h)"
  shows "\<exists>b'. hc_budget (snd r) = Some b' \<and> budget_frame b b'" and "\<And>c. usage (snd r) c \<le> usage h c"
    and "fst r \<Longrightarrow> usage (snd r) fresh + 1 \<le> usage h fresh"
proof -
  have "(\<exists>b'. hc_budget (snd r) = Some b' \<and> budget_frame b b') \<and> (\<forall>c. usage (snd r) c \<le> usage h c)
    \<and> (fst r \<longrightarrow> usage (snd r) fresh + 1 \<le> usage h fresh)"
  proof (cases "hc_l1 h")
    case None
    then show ?thesis by (simp add: r_def on_l1_def with_budget_def budget_frame_def usage_defs)
  next
    case (Some m)
    then have m: "ms_inv E valid rd (b, m)" using inv by (simp add: hc_inv_def with_budget_def)
    let ?s = "ms_evictOne L (b, m)"
    have "budget_frame b (fst (snd ?s)) \<and> ms_bytes (snd (snd ?s)) \<le> ms_bytes m \<and> history_bytes (snd (snd ?s)) = history_bytes m
      \<and> (fst ?s \<longrightarrow> ms_bytes (snd (snd ?s)) + 160 \<le> ms_bytes m)"
    proof (cases "ms_cache m")
      case (Some c)
      note p = pop_drops [OF laws m, of c]
      obtain ev where ev: "valid (fst (snd (lru_pop L c)))" "leaves rd c ev (snd (lru_pop L c))"
        using law_pop [OF laws, of c] m Some by (auto simp: ms_inv_def)
      have a: "snd (ms_after (snd (lru_pop L c)) (b, m)) = m\<lparr>ms_cache := Some (fst (snd (lru_pop L c))), ms_bytes := ms_bytes m - entries_bytes ev\<rparr>"
        using ms_after_spec [OF m _ ev] Some by simp
      have "entries_ok E ev" using m Some ev(2) entries_ok_mset [of "rd c" "rd (fst (snd (lru_pop L c)))" ev E]
        by (simp add: ms_inv_def resident_def leaves_def)
      then have "0 \<le> entries_bytes ev" using entries_bytes_nonneg [OF entries_ok_nonneg] by blast
      moreover have "budget_frame b (fst (ms_after (snd (lru_pop L c)) (b, m)))"
        using dispose_frame [of "(b, m\<lparr>ms_cache := Some (fst (snd (lru_pop L c)))\<rparr>)"] by (simp add: ms_after_def)
      ultimately show ?thesis using p(3) Some a by (auto simp: ms_evictOne_def Let_def history_bytes_def)
    qed (simp add: ms_evictOne_def budget_frame_def)
    then show ?thesis using Some by (auto simp: r_def on_l1_def with_budget_def Let_def usage_defs)
  qed
  then show "\<exists>b'. hc_budget (snd r) = Some b' \<and> budget_frame b b'" "\<And>c. usage (snd r) c \<le> usage h c"
    "fst r \<Longrightarrow> usage (snd r) fresh + 1 \<le> usage h fresh" by blast+
qed

lemma evictOwn_effect:
  assumes laws: "lru_laws L valid rd mx" and inv: "hc_inv E valid rd (with_budget b h)"
  obtains h' b' where "snd (evictOwn L c (with_budget b h)) = h'" and "hc_budget h' = Some b'" and "hc_inv E valid rd h'"
    and "budget_frame b b'" and "\<And>d. held b' d = held b d - (usage h d - usage h' d)" and "\<And>d. usage h' d \<le> usage h d"
    and "fst (evictOwn L c (with_budget b h)) \<Longrightarrow> \<exists>d. usage h' d + 1 \<le> usage h d"
proof -
  let ?r = "evictOwn L c (with_budget b h)"
  have k: "hc_keeps E valid rd (with_budget b h) (snd ?r)"
    using evictOneStale_keeps [of E valid rd "with_budget b h"] on_l1_keeps [of E valid rd "ms_evictOne L", OF cache_call_keeps(5) [OF laws]]
    by (simp add: evictOwn_def)
  have e: "\<exists>b'. hc_budget (snd ?r) = Some b' \<and> budget_frame b b'" "\<And>d. usage (snd ?r) d \<le> usage h d"
    "fst ?r \<Longrightarrow> \<exists>d. usage (snd ?r) d + 1 \<le> usage h d"
    using evictOneStale_effect [OF inv] evictL1_effect [OF laws inv] by (auto simp: evictOwn_def)
  then obtain b' where b': "hc_budget (snd ?r) = Some b'" "budget_frame b b'" by blast
  have "hc_inv E valid rd (snd ?r)" and o1: "hc_others (snd ?r) = hc_others (with_budget b h)"
    using k inv by (auto simp: hc_keeps_def)
  moreover have "held b' d = held b d - (usage h d - usage (snd ?r) d)" for d
    using fun_cong [OF o1, of d] b'(1) by (simp add: hc_others_def)
  ultimately show thesis using that [OF refl b'(1) _ b'(2)] e by blast
qed

lemma evictClient_cases:
  obtains (none) "evictClient L c (b, hs) = (Some False, (b, hs))"
  | (one) xs h ys where "hs = xs @ h # ys" and "evictClient L c (b, hs) = (Some (fst (evictOwn L c (with_budget b h))),
      (the (hc_budget (snd (evictOwn L c (with_budget b h)))), xs @ snd (evictOwn L c (with_budget b h)) # ys))"
proof -
  have "evictClient L c (b, hs) = (Some False, (b, hs)) \<or> (\<exists>xs h ys. hs = xs @ h # ys \<and> evictClient L c (b, hs)
    = (Some (fst (evictOwn L c (with_budget b h))), (the (hc_budget (snd (evictOwn L c (with_budget b h)))), xs @ snd (evictOwn L c (with_budget b h)) # ys)))"
  proof (induction hs)
    case (Cons h hs)
    show ?case
    proof (cases "stale_client c h \<or> l1_client c h")
      case True
      then show ?thesis by (intro disjI2 exI [of _ "[]"] exI [of _ h] exI [of _ hs]) (simp add: Let_def)
    next
      case False
      from Cons.IH show ?thesis
      proof (elim disjE exE conjE)
        fix xs h0 ys
        assume "hs = xs @ h0 # ys" "evictClient L c (b, hs) = (Some (fst (evictOwn L c (with_budget b h0))),
          (the (hc_budget (snd (evictOwn L c (with_budget b h0)))), xs @ snd (evictOwn L c (with_budget b h0)) # ys))"
        then show ?thesis using False by (intro disjI2 exI [of _ "h # xs"] exI [of _ h0] exI [of _ ys]) (simp add: Let_def)
      qed (use False in \<open>simp add: Let_def\<close>)
    qed
  qed simp
  then show thesis using none one by blast
qed

section \<open>The clients meet the budget's contract\<close>

text \<open>Several caches on one budget: each is consistent with it, and together they retain no more than it holds.\<close>

definition clients_ok :: "'x event_env_scheme \<Rightarrow> 'c lru \<Rightarrow> ('c \<Rightarrow> bool) \<Rightarrow> ('c \<Rightarrow> (CacheKey \<times> Entry) list) \<Rightarrow> int
    \<Rightarrow> MemoryBudget \<times> 'c HybridCache list \<Rightarrow> bool" where
  "clients_ok E L valid rd mx s \<longleftrightarrow> lru_laws L valid rd mx \<and> budget_ok (fst s)
     \<and> (\<forall>h \<in> set (snd s). hc_inv E valid rd (with_budget (fst s) h)) \<and> (\<forall>c. (\<Sum>h\<leftarrow>snd s. usage h c) \<le> held (fst s) c)"

lemma rebudget:
  assumes "hc_inv E valid rd (with_budget b h)" and "budget_ok b'" and "\<And>c. usage h c \<le> held b' c"
  shows "hc_inv E valid rd (with_budget b' h)"
  using budget_event_inv [OF assms(1), of b' "[]"] assms(2,3) usage_with [of b h] by (simp add: with_budget_def)

lemma one_evicted:
  assumes ok: "clients_ok E L valid rd mx (b, xs @ h # ys)" and b': "budget_ok b'" and inv: "hc_inv E valid rd h'" "hc_budget h' = Some b'"
    and hd: "\<And>d. held b' d = held b d - (usage h d - usage h' d)"
  shows "clients_ok E L valid rd mx (b', xs @ h' # ys)"
proof -
  have n: "0 \<le> usage g c" if "g \<in> set (xs @ h # ys)" for g c
    using ok that usage_nonneg [of E valid rd "with_budget b g" c] by (auto simp: clients_ok_def)
  have sm: "(\<Sum>g\<leftarrow>xs. usage g c) + usage h c + (\<Sum>g\<leftarrow>ys. usage g c) \<le> held b c" for c
    using ok by (simp add: clients_ok_def algebra_simps)
  have p: "0 \<le> (\<Sum>g\<leftarrow>xs. usage g c)" "0 \<le> (\<Sum>g\<leftarrow>ys. usage g c)" for c using n by (auto intro!: sum_list_nonneg)
  have h': "0 \<le> usage h' c" for c using usage_nonneg [OF inv(1)] .
  have le: "usage g c \<le> held b' c" if "g \<in> set xs \<union> set ys" for g c
  proof -
    have "usage g c \<le> (\<Sum>g\<leftarrow>xs. usage g c) + (\<Sum>g\<leftarrow>ys. usage g c)"
      using that p [of c] n member_le_sum_list [of "usage g c" "map (\<lambda>g. usage g c) xs"] member_le_sum_list [of "usage g c" "map (\<lambda>g. usage g c) ys"]
      by force
    then show ?thesis using sm [of c] hd [of c] h' [of c] by simp
  qed
  have "hc_inv E valid rd (with_budget b' g)" if "g \<in> set xs \<union> set ys" for g
    using rebudget [of E valid rd b g b', OF _ b' le [OF that]] ok that by (auto simp: clients_ok_def)
  moreover have "with_budget b' h' = h'" using inv(2) by (simp add: with_budget_def)
  moreover have "(\<Sum>g\<leftarrow>xs @ h' # ys. usage g c) \<le> held b' c" for c using sm [of c] hd [of c] by simp
  ultimately show ?thesis using ok b' inv(1) by (auto simp: clients_ok_def)
qed

lemma evictClient_ok:
  assumes ok: "clients_ok E L valid rd mx (b, hs)"
  shows "clients_ok E L valid rd mx (snd (evictClient L c (b, hs)))" and "budget_frame b (fst (snd (evictClient L c (b, hs))))"
    and "mb_used (fst (snd (evictClient L c (b, hs)))) + (if fst (evictClient L c (b, hs)) = Some True then 1 else 0) \<le> mb_used b"
proof -
  have "clients_ok E L valid rd mx (snd (evictClient L c (b, hs))) \<and> budget_frame b (fst (snd (evictClient L c (b, hs))))
    \<and> mb_used (fst (snd (evictClient L c (b, hs)))) + (if fst (evictClient L c (b, hs)) = Some True then 1 else 0) \<le> mb_used b"
  proof (rule evictClient_cases [of L c b hs])
    fix xs h ys
    assume hs: "hs = xs @ h # ys" and e: "evictClient L c (b, hs) = (Some (fst (evictOwn L c (with_budget b h))),
      (the (hc_budget (snd (evictOwn L c (with_budget b h)))), xs @ snd (evictOwn L c (with_budget b h)) # ys))"
    have laws: "lru_laws L valid rd mx" and inv: "hc_inv E valid rd (with_budget b h)" and b: "ledger_ok b"
      using ok by (simp_all add: clients_ok_def hs budget_ok_def)
    obtain h' b' where o1: "snd (evictOwn L c (with_budget b h)) = h'" "hc_budget h' = Some b'" "hc_inv E valid rd h'" "budget_frame b b'"
      and o2: "\<And>d. held b' d = held b d - (usage h d - usage h' d)" "\<And>d. usage h' d \<le> usage h d"
      and o3: "fst (evictOwn L c (with_budget b h)) \<Longrightarrow> \<exists>d. usage h' d + 1 \<le> usage h d"
      by (rule evictOwn_effect [OF laws inv, of c]) blast
    have b': "budget_ok b'" using o1(2,3) by (simp add: hc_inv_def)
    obtain d where d: "fst (evictOwn L c (with_budget b h)) \<Longrightarrow> usage h' d + 1 \<le> usage h d" using o3 by blast
    have le: "held b' c \<le> held b c" for c using o2(1) [of c] o2(2) [of c] by simp
    have "mb_used b' + (if fst (evictOwn L c (with_budget b h)) then 1 else 0) \<le> mb_used b"
      using used_falls [OF b _ le, where e = "fst (evictOwn L c (with_budget b h))" and ?c0.0 = d] b' d o2(1) [of d] by (simp add: budget_ok_def)
    then show ?thesis using one_evicted [OF ok [unfolded hs] b' o1(3,2) o2(1)] o1 by (simp add: e)
  qed (use ok in \<open>simp add: budget_frame_def\<close>)
  then show "clients_ok E L valid rd mx (snd (evictClient L c (b, hs)))" "budget_frame b (fst (snd (evictClient L c (b, hs))))"
    "mb_used (fst (snd (evictClient L c (b, hs)))) + (if fst (evictClient L c (b, hs)) = Some True then 1 else 0) \<le> mb_used b" by blast+
qed

lemma clients_ok_budget:
  assumes "clients_ok E L valid rd mx (b, hs)" and "budget_ok b'" and "held b' = held b"
  shows "clients_ok E L valid rd mx (b', hs)"
proof -
  have "hc_inv E valid rd (with_budget b' h)" if "h \<in> set hs" for h
  proof (rule rebudget)
    show i: "hc_inv E valid rd (with_budget b h)" using assms(1) that by (simp add: clients_ok_def)
    show "usage h c \<le> held b' c" for c using i assms(3) by (simp add: hc_inv_def)
  qed (rule assms(2))
  then show ?thesis using assms by (simp add: clients_ok_def)
qed

interpretation shared: budget_clients "evictClient L" "clients_ok E L valid rd mx" for E L valid rd mx
proof unfold_locales
  fix s c assume "clients_ok E L valid rd mx s"
  then show "clients_ok E L valid rd mx (snd (evictClient L c s))" using evictClient_ok(1) [of E L valid rd mx "fst s" "snd s" c] by simp
next
  fix b hs assume "clients_ok E L valid rd mx (b, hs)"
  then show "budget_ok b" by (simp add: clients_ok_def)
next
  fix b hs n m assume a: "clients_ok E L valid rd mx (b, hs)"
  then have "budget_ok (b\<lparr>mb_cursor := n, mb_evictions := m\<rparr>)" using bookkeeping_ok(4,5) by (simp add: clients_ok_def)
  then show "clients_ok E L valid rd mx (b\<lparr>mb_cursor := n, mb_evictions := m\<rparr>, hs)"
    by (rule clients_ok_budget [OF a]) (simp add: held_def fun_eq_iff)
next
  fix b hs c assume a: "clients_ok E L valid rd mx (b, hs)"
  show "mb_target (fst (snd (evictClient L c (b, hs)))) = mb_target b
      \<and> mb_clients (fst (snd (evictClient L c (b, hs)))) = mb_clients b \<and> mb_evictions (fst (snd (evictClient L c (b, hs)))) = mb_evictions b"
    "mb_used (fst (snd (evictClient L c (b, hs)))) + (if fst (evictClient L c (b, hs)) = Some True then 1 else 0) \<le> mb_used b"
    using evictClient_ok(2,3) [OF a, of c] by (auto simp: budget_frame_def)
qed

section \<open>Properties\<close>

text \<open>
  A maintenance sample across caches: with any number of caches on one budget, whatever the memory
  signals, a sample evicts at most 32 entries (L1 entries and stale values), every reported eviction
  frees at least a byte, eviction stops once the target is met, and afterwards every cache is still
  consistent: its counters are the sums of its maps and the budget covers what all of them retain.
\<close>

theorem sample_evicts_boundedly:
  assumes "clients_ok E L valid rd mx (b, hs)" and "mb_sample (evictClient L) sg now (b, hs) = (b', hs')"
  shows "clients_ok E L valid rd mx (b', hs') \<and> mb_target b' = mb_target (retarget sg now b)
    \<and> mb_evictions b \<le> mb_evictions b' \<and> mb_evictions b' \<le> mb_evictions b + 32
    \<and> mb_used b' + int (mb_evictions b' - mb_evictions b) \<le> mb_used b
    \<and> (mb_used b \<le> mb_target b' \<longrightarrow> mb_used b' = mb_used b \<and> hs' = hs)"
proof -
  let ?b = "retarget sg now b"
  have h: "held ?b = held b" "mb_used ?b = mb_used b" "mb_evictions ?b = mb_evictions b"
    by (simp_all add: retarget_def held_def Let_def fun_eq_iff)
  have ok: "clients_ok E L valid rd mx (?b, hs)"
    by (rule clients_ok_budget [OF assms(1) _ h(1)]) (use assms(1) in \<open>simp add: clients_ok_def retarget_ok\<close>)
  show ?thesis
  proof (cases "mb_target ?b < mb_used ?b")
    case True
    then have "evictBounded (evictClient L) 32 (?b, hs) = (b', hs')" using assms(2) by (simp add: mb_sample_def Let_def)
    then show ?thesis using shared.evictBounded_spec [OF ok, of 32] h True by auto
  next
    case False
    then show ?thesis using assms(2) ok h by (auto simp: mb_sample_def Let_def)
  qed
qed

definition full_budget :: MemoryBudget where
  "full_budget = demo_budget\<lparr>mb_target := 50, mb_used := 100, mb_categories := [(stale_category, 100)], mb_clients := [8]\<rparr>"

definition full_cache :: "(int \<times> (CacheKey \<times> Entry \<times> jsnum) list) HybridCache" where
  "full_cache = demo_cache\<lparr>hc_stale := [(demo_key, \<lparr>se_encoded = [], se_bytes = 100, se_expiresAt = jint 9\<rparr>)], hc_staleBytes := 100\<rparr>"

lemma full_clients: "clients_ok demo_event_env list_lru (list_valid 2) list_read 2 (full_budget, [full_cache])"
proof -
  have u: "usage full_cache c = (if c = stale_category then 100 else 0)" for c
    by (simp add: full_cache_def demo_cache_def fresh_cache_def usage_defs)
  have h: "held full_budget c = (if c = stale_category then 100 else 0)" for c
    by (simp add: full_budget_def held_def om_get_def)
  have b: "budget_ok full_budget"
    by (simp add: full_budget_def demo_budget_def small_budget_def budget_ok_def ledger_ok_def target_ok_def min_target_def om_ok_def
        om_sum_def cat_weight_def)
  have "maps_ok demo_event_env (with_budget full_budget full_cache)"
    by (simp add: with_budget_def full_cache_def demo_cache_def fresh_cache_def maps_ok_def part_defs om_ok_def om_sum_def
        MAX_AUXILIARY_MAP_BYTES_def MAX_GENERATION_BYTES_def MAX_GENERATION_ENTRIES_def)
  then have "hc_inv demo_event_env (list_valid 2) list_read (with_budget full_budget full_cache)"
    using b by (simp add: hc_inv_def u h) (simp add: with_budget_def full_cache_def demo_cache_def fresh_cache_def)
  then show ?thesis using b list_lru_laws [of 2] by (simp add: clients_ok_def u h)
qed

theorem sample_evicts_boundedly_witness:
  "\<exists>b' hs'. mb_sample (evictClient list_lru) demo_signals 0 (full_budget, [full_cache]) = (b', hs') \<and> mb_evictions b' = 1
     \<and> mb_used b' = 0 \<and> clients_ok demo_event_env list_lru (list_valid 2) list_read 2 (b', hs')"
proof -
  obtain b' hs' where r: "mb_sample (evictClient list_lru) demo_signals 0 (full_budget, [full_cache]) = (b', hs')" by fastforce
  have "(case mb_sample (evictClient list_lru) demo_signals 0 (full_budget, [full_cache]) of (b, _) \<Rightarrow> (mb_evictions b, mb_used b)) = (1, 0)"
    by code_simp
  then show ?thesis using r sample_evicts_boundedly [OF full_clients r] by simp
qed

end
