(* ===== verification/Cache_Operations.thy ===== *)
theory Cache_Operations
  imports Cache_Runs
begin

text \<open>
  The asynchronous operations of a cache (\<open>set\<close>, \<open>get\<close>, \<open>delete\<close>, \<open>deleteByPattern\<close>, the application of remote
  events and the tail of a load that stores the loaded value; \<open>cache/hybridCache.ts\<close>) as the synchronous
  segments between their awaits. A suspended operation is a \<open>frame\<close>: where it waits and the locals it
  still needs. \<open>resume\<close> runs the segment after an await; the L2 answers are arguments, so nothing is
  assumed of the shared tier. The L1 is the built-in memory store or absent.
\<close>

section \<open>Environment\<close>

text \<open>
  \<open>json_same\<close> compares the JSON texts of two codec options; the other two fields say what the L2 store
  offers (\<open>isEncodedStore\<close>, \<open>getAtomicPublisher\<close>).
\<close>

record op_env = event_env +
  json_same :: "SerializeOptions \<Rightarrow> SerializeOptions \<Rightarrow> bool"
  l2_encoded :: bool
  l2_atomic :: bool

datatype op_result = RUnit | RValue jsval | RError js_error

datatype l2_command = L2SetEncoded CacheKey bytes | L2SetValue CacheKey jsval | L2Get CacheKey | L2Delete CacheKey
  | L2DeletePattern jsstr | L2PublishIfOwner CacheKey bytes | BusPublish jsval

text \<open>What a segment reads of the outside: the clock, the time since the L2 read and the
  promotion began, and a fresh identifier.\<close>

record tick =
  tk_now :: int
  tk_elapsed :: jsnum
  tk_promotion :: jsnum
  tk_uid :: jsstr

text \<open>An encoded record with its remaining time to live.\<close>

type_synonym reusable = "(bytes \<times> jsnum) option"

text \<open>Why a value is put into the L1: a read that found it in L2, or a peer's event.\<close>

datatype fill = FillRead | FillRemote jsstr "int option"

text \<open>
  The frames. An operation on one key holds its guard; \<open>nat option\<close> names the abort controller of a load,
  which its end removes from the active leaders. The last ones hold no guard.
\<close>

datatype frame =
    WriteL1 MutationGuard jsval CacheOptions "bytes option" "bytes option" "nat option"
  | WriteQueued MutationGuard jsval CacheOptions "bytes option" "bytes option" "nat option"
  | WriteL2 MutationGuard jsval CacheOptions "bytes option" "bytes option" "nat option"
  | ReadL1 MutationGuard "(bytes \<times> jsnum \<times> jsnum option) option"
  | ReadQueued MutationGuard
  | ReadL2 MutationGuard
  | PromoteHas MutationGuard jsval CacheOptions reusable fill
  | Promoted MutationGuard jsval CacheOptions reusable fill
  | DeleteL1 MutationGuard bool
  | DeleteQueued MutationGuard
  | DeleteL2 MutationGuard
  | RemoteQueued MutationGuard CacheOptions jsstr "int option"
  | RemoteL2 MutationGuard CacheOptions jsstr "int option"
  | RemoteEvicted MutationGuard
  | Loading MutationGuard CacheOptions nat
  | PublishQueued MutationGuard jsval CacheOptions bytes nat
  | PublishL2 MutationGuard jsval CacheOptions bytes nat
  | WinnerQueued MutationGuard nat
  | WinnerL2 MutationGuard nat
  | PublishedL1 MutationGuard jsval CacheOptions "bytes option" bytes nat
  | Stored MutationGuard jsval CacheOptions nat
  | Leave MutationGuard op_result "nat option"
  | AnnounceDelete CacheKey
  | AnnouncePattern jsstr
  | RemoteDelete CacheKey "int option"
  | PatternL1 jsstr bool
  | PatternQueued jsstr
  | PatternL2 jsstr
  | Restoring nat

datatype outcome = Await frame | Finished op_result

text \<open>
  What resumes a frame: a local promise that resolved, the L2 gate that runs the queued call, a call that
  \<open>runL2\<close> skipped, refused or saw fail, and its answers. While a load waits for its lock and its loader,
  its guard takes over the signal of the lease (\<open>Leased\<close>) or loses the permission to publish (\<open>Unleased\<close>);
  the loader ends with a value, and whether it still has a lease, or with an error. A load also ends
  with a value found in the cache meanwhile (\<open>LoadCached\<close>) or because it may not go on (\<open>LoadRejected\<close>).
\<close>

datatype answer = Go | Dispatch | L2Fallback | L2Done | L2Read reusable | L2Value jsval | L2Publication bool
  | Leased nat | Unleased | LoaderValue jsval bool | LoaderFailed js_error | LoadCached jsval | LoadRejected js_error

section \<open>Calls on the L1\<close>

definition l1_setEncoded :: "'x event_env_scheme \<Rightarrow> 'c lru \<Rightarrow> int \<Rightarrow> CacheKey \<Rightarrow> bytes \<Rightarrow> CacheOptions \<Rightarrow> 'c HybridCache \<Rightarrow> (js_error + unit) \<times> 'c HybridCache" where
  "l1_setEncoded E L now key buffer options h = on_l1 (ms_setEncoded E L now key buffer options None) (Inr ()) h"

definition l1_set :: "'x event_env_scheme \<Rightarrow> 'c lru \<Rightarrow> int \<Rightarrow> CacheKey \<Rightarrow> jsval \<Rightarrow> CacheOptions \<Rightarrow> 'c HybridCache \<Rightarrow> (js_error + unit) \<times> 'c HybridCache" where
  "l1_set E L now key v options h = on_l1 (ms_set E L now key v options) (Inr ()) h"

definition l1_getEncoded :: "'x event_env_scheme \<Rightarrow> 'c lru \<Rightarrow> int \<Rightarrow> CacheKey \<Rightarrow> 'c HybridCache \<Rightarrow> (bytes \<times> jsnum \<times> jsnum option) option \<times> 'c HybridCache" where
  "l1_getEncoded E L now key h = on_l1 (ms_getEncoded E L now key) None h"

definition l1_has :: "'c lru \<Rightarrow> int \<Rightarrow> CacheKey \<Rightarrow> 'c HybridCache \<Rightarrow> bool \<times> 'c HybridCache" where
  "l1_has L now key h = on_l1 (ms_has L now key) False h"

section \<open>Encoding for a layer\<close>

definition layerCodecOptions :: "(CacheOptions \<Rightarrow> CacheLevelOptions) \<Rightarrow> CacheOptions \<Rightarrow> 'c HybridCache \<Rightarrow> SerializeOptions" where
  "layerCodecOptions level options h = nullish (lo_codec (level options)) (nullish (lo_codec (level (own h))) default_options)"

definition sameLayerCodecPolicy :: "'x op_env_scheme \<Rightarrow> CacheOptions \<Rightarrow> 'c HybridCache \<Rightarrow> bool" where
  "sameLayerCodecPolicy E options h = json_same E (layerCodecOptions co_L1 options h) (layerCodecOptions co_L2 options h)"

definition tryEncodeForLayer :: "'x event_env_scheme \<Rightarrow> (CacheOptions \<Rightarrow> CacheLevelOptions) \<Rightarrow> jsval \<Rightarrow> CacheOptions \<Rightarrow> 'c HybridCache \<Rightarrow> bytes option" where
  "tryEncodeForLayer E level v options h = (case serializeWithStats E v (layerCodecOptions level options h) of
     Inl _ \<Rightarrow> None | Inr sv \<Rightarrow> Some (sv_buffer sv))"

text \<open>The two encodings \<open>writeValue\<close> prepares: shared when both layers have one policy.\<close>

definition write_encodings :: "'x op_env_scheme \<Rightarrow> jsval \<Rightarrow> CacheOptions \<Rightarrow> 'c HybridCache \<Rightarrow> bytes option \<times> bytes option" where
  "write_encodings E v options h =
     (let l1 = hc_l1 h \<noteq> None; l2 = hc_hasL2 h \<and> l2_encoded E in
      if l1 \<and> l2 \<and> sameLayerCodecPolicy E options h
      then (let shared = tryEncodeForLayer E co_L1 v options h in (shared, shared))
      else (if l1 then tryEncodeForLayer E co_L1 v options h else None,
            if l2 then tryEncodeForLayer E co_L2 v options h else None))"

definition setL1Only :: "'x event_env_scheme \<Rightarrow> 'c lru \<Rightarrow> int \<Rightarrow> CacheKey \<Rightarrow> jsval \<Rightarrow> CacheOptions \<Rightarrow> bytes option \<Rightarrow> 'c HybridCache
    \<Rightarrow> (js_error + unit) \<times> 'c HybridCache" where
  "setL1Only E L now storageKey v options encoded h = (case encoded of
     Some xs \<Rightarrow> l1_setEncoded E L now storageKey xs options h | None \<Rightarrow> l1_set E L now storageKey v options h)"

section \<open>Filling the L1\<close>

text \<open>The difference of two numbers.\<close>

definition jdiff :: "jsnum \<Rightarrow> jsnum \<Rightarrow> jsnum" where
  "jdiff a b = jadd a (case b of JNum x \<Rightarrow> JNum (- x) | JInf \<Rightarrow> JNegInf | JNegInf \<Rightarrow> JInf | JNaN \<Rightarrow> JNaN)"

text \<open>The options with the remaining time to live as a cap.\<close>

definition capped_options :: "CacheOptions \<Rightarrow> jsnum option \<Rightarrow> CacheOptions" where
  "capped_options options remaining = (case remaining of None \<Rightarrow> options
     | Some r \<Rightarrow> (let ttl = jmin (nullish (lo_ttlMs (co_L1 options)) (nullish (co_ttlMs options) (jint DEFAULT_CACHE_TTL_MS))) r in
         options\<lparr>co_ttlMs := Some ttl, co_L1 := (co_L1 options)\<lparr>lo_ttlMs := Some ttl\<rparr>\<rparr>))"

definition promotion_encoding :: "'x op_env_scheme \<Rightarrow> jsval \<Rightarrow> CacheOptions \<Rightarrow> reusable \<Rightarrow> 'c HybridCache \<Rightarrow> bytes option" where
  "promotion_encoding E v options reuse h = (case reuse of
     Some (buffer, _) \<Rightarrow> if sameLayerCodecPolicy E options h then Some buffer else tryEncodeForLayer E co_L1 v options h
   | None \<Rightarrow> tryEncodeForLayer E co_L1 v options h)"

datatype promotion = NotPromoted | Promoting | PromotionError js_error

text \<open>
  \<open>promoteToL1\<close> up to its await: a bypass answers \<open>NotPromoted\<close> (and evicts the key when \<open>invalidate\<close> asks for
  it); otherwise the record is written and \<open>has\<close> follows.
\<close>

definition bypass :: "'c lru \<Rightarrow> bool \<Rightarrow> CacheKey \<Rightarrow> 'c HybridCache \<Rightarrow> promotion \<times> 'c HybridCache" where
  "bypass L invalidate storageKey h = (NotPromoted, if invalidate then l1_delete L storageKey h else h)"

definition promoteToL1 :: "'x op_env_scheme \<Rightarrow> 'c lru \<Rightarrow> tick \<Rightarrow> CacheKey \<Rightarrow> jsval \<Rightarrow> CacheOptions \<Rightarrow> reusable \<Rightarrow> bool \<Rightarrow> 'c HybridCache
    \<Rightarrow> promotion \<times> 'c HybridCache" where
  "promoteToL1 E L t storageKey v options reuse invalidate h =
     (if hc_l1 h = None then (NotPromoted, h)
      else case promotion_encoding E v options reuse h of None \<Rightarrow> bypass L invalidate storageKey h
      | Some encoded \<Rightarrow>
          let bytes = int (length encoded) + int (byteLength (key_text E storageKey)) * 2 + 160;
              remaining = (case reuse of Some (_, ttl) \<Rightarrow> if jle (jint 0) ttl then Some (jdiff ttl (tk_promotion t)) else None | None \<Rightarrow> None) in
          if (case hc_budget h of None \<Rightarrow> False | Some b \<Rightarrow> \<not> permitsPromotion (jint bytes) b) then bypass L invalidate storageKey h
          else if (case remaining of None \<Rightarrow> False | Some r \<Rightarrow> jle r (jint 0)) then bypass L invalidate storageKey h
          else let r = l1_setEncoded E L (tk_now t) storageKey encoded (capped_options options remaining) h in
            (case fst r of Inl e \<Rightarrow> PromotionError e | Inr _ \<Rightarrow> Promoting, snd r))"

text \<open>Where a promotion goes on.\<close>

definition promote_frame :: "MutationGuard \<Rightarrow> jsval \<Rightarrow> CacheOptions \<Rightarrow> reusable \<Rightarrow> fill \<Rightarrow> promotion \<Rightarrow> frame" where
  "promote_frame g v options reuse f p = (case p of NotPromoted \<Rightarrow> Promoted g v options reuse f
     | Promoting \<Rightarrow> PromoteHas g v options reuse f | PromotionError e \<Rightarrow> Leave g (RError e) None)"

section \<open>Events for the other processes\<close>

definition keyType :: "CacheKey \<Rightarrow> jsval" where
  "keyType key = VStr (case key of StringKey _ \<Rightarrow> js ''string'' | NumberKey _ \<Rightarrow> js ''number'')"

definition generation_field :: "int option \<Rightarrow> (jsstr \<times> jsval) list" where
  "generation_field g = (case g of None \<Rightarrow> [] | Some n \<Rightarrow> [(js ''generation'', VNum (jint n))])"

definition delete_event :: "'x event_env_scheme \<Rightarrow> tick \<Rightarrow> CacheKey \<Rightarrow> 'c HybridCache \<Rightarrow> jsval" where
  "delete_event E t key h = VObject ([(js ''id'', VStr (tk_uid t)), (js ''type'', VStr (js ''del'')), (js ''keys'', VArray [VStr (key_text E key)]),
     (js ''source'', VStr (hc_source h)), (js ''ts'', VNum (jint (tk_now t)))] @ generation_field (generationForEvent (key_text E key) h)
     @ [(js ''keyTypes'', VArray [keyType key])])"

definition pattern_event :: "tick \<Rightarrow> jsstr \<Rightarrow> 'c HybridCache \<Rightarrow> jsval" where
  "pattern_event t pattern h = VObject [(js ''id'', VStr (tk_uid t)), (js ''type'', VStr (js ''pattern'')), (js ''pattern'', VStr pattern),
     (js ''source'', VStr (hc_source h)), (js ''ts'', VNum (jint (tk_now t)))]"

definition set_event :: "'x event_env_scheme \<Rightarrow> tick \<Rightarrow> CacheKey \<Rightarrow> jsval \<Rightarrow> CacheOptions \<Rightarrow> 'c HybridCache \<Rightarrow> jsval" where
  "set_event E t key v options h = VObject ([(js ''id'', VStr (tk_uid t)), (js ''type'', VStr (js ''set'')), (js ''keys'', VArray [VStr (key_text E key)]),
     (js ''value'', v), (js ''ttlMs'', case co_ttlMs options of Some n \<Rightarrow> VNum n | None \<Rightarrow> (case co_ttlMs (own h) of Some n \<Rightarrow> VNum n | None \<Rightarrow> VUndefined)),
     (js ''source'', VStr (hc_source h)), (js ''ts'', VNum (jint (tk_now t)))] @ generation_field (generationForEvent (key_text E key) h)
     @ [(js ''keyTypes'', VArray [keyType key])])"

text \<open>\<open>publishInvalidation\<close>, with the breaker's decision and the transport left to the bus.\<close>

definition publishInvalidation :: "jsval \<Rightarrow> 'c HybridCache \<Rightarrow> l2_command list" where
  "publishInvalidation event h = (if hc_closed h \<or> \<not> hco_eventBus (hc_options h) then []
     else [BusPublish (case (hco_eventNamespace (hc_options h), event) of
        (Some ns, VObject fs) \<Rightarrow> VObject (om_set fs (js ''namespace'') (VStr ns)) | _ \<Rightarrow> event)])"

definition shouldBroadcastSet :: "'c HybridCache \<Rightarrow> bool" where
  "shouldBroadcastSet h \<longleftrightarrow> hco_eventBus (hc_options h) \<and> not_false (hco_broadcastSet (hc_options h))"

definition broadcast :: "'x event_env_scheme \<Rightarrow> tick \<Rightarrow> MutationGuard \<Rightarrow> jsval \<Rightarrow> CacheOptions \<Rightarrow> 'c HybridCache \<Rightarrow> l2_command list" where
  "broadcast E t g v options h = (if \<not> shouldBroadcastSet h \<or> \<not> isCurrent g h then []
     else let event = set_event E t (mg_key g) v options h in
       case encodeInvalidationEvent E event of Inl _ \<Rightarrow> []
       | Inr xs \<Rightarrow> if (case hco_broadcastSetMaxBytes (hc_options h) of None \<Rightarrow> False | Some mx \<Rightarrow> jless mx (jint (int (length xs)))) then []
           else publishInvalidation event h)"

section \<open>Writing\<close>

type_synonym 'c op_step = "outcome \<times> l2_command list \<times> 'c HybridCache"

definition suspend :: "frame \<Rightarrow> 'c HybridCache \<Rightarrow> 'c op_step" where
  "suspend f h = (Await f, [], h)"

text \<open>The return of \<open>writeValue\<close>: \<open>set\<close> ends, a load goes on to broadcast what it stored.\<close>

definition write_returns :: "MutationGuard \<Rightarrow> jsval \<Rightarrow> CacheOptions \<Rightarrow> nat option \<Rightarrow> bool \<Rightarrow> frame" where
  "write_returns g v options c stored = (case c of None \<Rightarrow> Leave g RUnit None
     | Some n \<Rightarrow> if stored then Stored g v options n else Leave g (RValue v) (Some n))"

definition writeValue :: "'x op_env_scheme \<Rightarrow> 'c lru \<Rightarrow> tick \<Rightarrow> MutationGuard \<Rightarrow> jsval \<Rightarrow> CacheOptions \<Rightarrow> nat option \<Rightarrow> 'c HybridCache \<Rightarrow> 'c op_step" where
  "writeValue E L t g v options c h =
     (if \<not> isCurrent g h then suspend (write_returns g v options c False) h
      else let e = write_encodings E v options h; r = setL1Only E L (tk_now t) (mg_storageKey g) v options (fst e) h in
        case fst r of Inl err \<Rightarrow> suspend (Leave g (RError err) c) (snd r)
        | Inr _ \<Rightarrow> suspend (WriteL1 g v options (fst e) (snd e) c) (snd r))"

definition write_commit :: "'x event_env_scheme \<Rightarrow> tick \<Rightarrow> MutationGuard \<Rightarrow> jsval \<Rightarrow> CacheOptions \<Rightarrow> bytes option \<Rightarrow> bytes option \<Rightarrow> nat option
    \<Rightarrow> 'c HybridCache \<Rightarrow> 'c op_step" where
  "write_commit E t g v options e1 e2 c h =
     (if \<not> isCurrent g h then suspend (write_returns g v options c False) h
      else suspend (write_returns g v options c True) (removeNegative (mg_key g)
        (rememberStale E (tk_now t) (mg_key g) v options (case e1 of Some x \<Rightarrow> Some x | None \<Rightarrow> e2) h)))"

section \<open>Reading\<close>

text \<open>What \<open>runL2\<close> yields for a read: the value, and the record it was decoded from.\<close>

definition l2_value :: "'x op_env_scheme \<Rightarrow> answer \<Rightarrow> 'c HybridCache \<Rightarrow> jsval \<times> reusable" where
  "l2_value E a h = (case a of
     L2Read (Some (buffer, ttl)) \<Rightarrow> if l2_encoded E then (case decodeValue E buffer h of Inl _ \<Rightarrow> VUndefined | Inr v \<Rightarrow> v, Some (buffer, ttl))
       else (VUndefined, None)
   | L2Value v \<Rightarrow> if l2_encoded E then (VUndefined, None) else (v, None)
   | _ \<Rightarrow> (VUndefined, None))"

definition aged_record :: "tick \<Rightarrow> reusable \<Rightarrow> reusable" where
  "aged_record t reuse = map_option (\<lambda>(buffer, ttl). (buffer, if jle (jint 0) ttl then jmax (jint 0) (jdiff ttl (tk_elapsed t)) else ttl)) reuse"

definition fill_result :: "fill \<Rightarrow> jsval \<Rightarrow> op_result" where
  "fill_result f v = (case f of FillRead \<Rightarrow> RValue v | FillRemote _ _ \<Rightarrow> RUnit)"

definition fill_value :: "'x op_env_scheme \<Rightarrow> 'c lru \<Rightarrow> tick \<Rightarrow> MutationGuard \<Rightarrow> jsval \<Rightarrow> CacheOptions \<Rightarrow> reusable \<Rightarrow> fill \<Rightarrow> 'c HybridCache \<Rightarrow> 'c op_step" where
  "fill_value E L t g v options reuse f h =
     (if \<not> hc_trusted h \<or> \<not> isCurrent g h then suspend (Leave g (fill_result f v) None) h
      else let r = promoteToL1 E L t (mg_storageKey g) v options reuse (f \<noteq> FillRead) h in
        suspend (promote_frame g v options reuse f (fst r)) (snd r))"

definition promoted :: "'x event_env_scheme \<Rightarrow> tick \<Rightarrow> MutationGuard \<Rightarrow> jsval \<Rightarrow> CacheOptions \<Rightarrow> reusable \<Rightarrow> fill \<Rightarrow> 'c HybridCache \<Rightarrow> 'c op_step" where
  "promoted E t g v options reuse f h =
     (if \<not> hc_trusted h \<or> \<not> isCurrent g h then suspend (Leave g (fill_result f v) None) h
      else let remember = rememberStale E (tk_now t) (mg_key g) v options (map_option fst reuse) in
        case f of FillRead \<Rightarrow> suspend (Leave g (RValue v) None) (remember h)
        | FillRemote raw generation \<Rightarrow> suspend (Leave g RUnit None)
            (if isStaleGeneration raw generation h then h else removeInflight (mg_key g) (removeNegative (mg_key g) (remember h))))"

definition readValue :: "'x event_env_scheme \<Rightarrow> 'c lru \<Rightarrow> tick \<Rightarrow> MutationGuard \<Rightarrow> 'c HybridCache \<Rightarrow> 'c op_step" where
  "readValue E L t g h =
     (let n = (if hc_trusted h then hasNegative (tk_now t) (mg_key g) h else (False, h)) in
      if fst n then suspend (Leave g (RValue VUndefined) None) (snd n)
      else if hc_trusted (snd n) \<and> hc_l1 (snd n) \<noteq> None
      then (let r = l1_getEncoded E L (tk_now t) (mg_storageKey g) (snd n) in suspend (ReadL1 g (fst r)) (snd r))
      else suspend (ReadQueued g) (snd n))"

definition read_l1 :: "'x event_env_scheme \<Rightarrow> 'c lru \<Rightarrow> tick \<Rightarrow> MutationGuard \<Rightarrow> (bytes \<times> jsnum \<times> jsnum option) option \<Rightarrow> 'c HybridCache \<Rightarrow> 'c op_step" where
  "read_l1 E L t g enc h = (case enc of None \<Rightarrow> suspend (ReadQueued g) h
     | Some (buffer, _) \<Rightarrow> (case decodeCacheRecord E buffer (co_decodeLimits (own h)) of
         Inl e \<Rightarrow> suspend (Leave g (RError e) None) h
       | Inr Miss \<Rightarrow> suspend (ReadQueued g) (if isCurrent g h \<and> hc_trusted h then l1_delete L (mg_storageKey g) h else h)
       | Inr (Hit v) \<Rightarrow> if v = VUndefined then suspend (ReadQueued g) h
           else suspend (Leave g (RValue v) None) (if \<not> isCurrent g h \<or> \<not> hc_trusted h then h
             else rememberStale E (tk_now t) (mg_key g) v (own h) (Some buffer) h)))"

definition read_answer :: "'x op_env_scheme \<Rightarrow> 'c lru \<Rightarrow> tick \<Rightarrow> MutationGuard \<Rightarrow> answer \<Rightarrow> 'c HybridCache \<Rightarrow> 'c op_step" where
  "read_answer E L t g a h = (let x = l2_value E a h in
     if fst x = VUndefined then suspend (Leave g (RValue VUndefined) None) h
     else fill_value E L t g (fst x) (own h) (aged_record t (snd x)) FillRead h)"

definition remote_answer :: "'x op_env_scheme \<Rightarrow> 'c lru \<Rightarrow> tick \<Rightarrow> MutationGuard \<Rightarrow> CacheOptions \<Rightarrow> jsstr \<Rightarrow> int option \<Rightarrow> answer \<Rightarrow> 'c HybridCache \<Rightarrow> 'c op_step" where
  "remote_answer E L t g options raw generation a h = (let x = l2_value E a h in
     if fst x = VUndefined
     then (if \<not> isCurrent g h \<or> \<not> hc_trusted h then suspend (Leave g RUnit None) h
           else suspend (RemoteEvicted g) (l1_delete L (mg_storageKey g) h))
     else fill_value E L t g (fst x) options (aged_record t (snd x)) (FillRemote raw generation) h)"

section \<open>Storing a loaded value\<close>

text \<open>The errors of a load, by their code.\<close>

definition lock_lost :: js_error where "lock_lost = Error ''DISTRIBUTED_LOCK_LOST''"
definition load_overloaded :: js_error where "load_overloaded = Error ''ORIGIN_LOAD_OVERLOADED''"
definition cache_closed :: js_error where "cache_closed = Error ''CACHE_CLOSED''"

text \<open>A stale value instead of \<open>otherwise\<close>, when the fail-safe allows it.\<close>

definition or_stale :: "'x event_env_scheme \<Rightarrow> tick \<Rightarrow> CacheKey \<Rightarrow> CacheOptions \<Rightarrow> op_result \<Rightarrow> 'c HybridCache \<Rightarrow> op_result \<times> 'c HybridCache" where
  "or_stale E t key options otherwise h = (let r = getStale E (tk_now t) key h in
     (case fst r of Inl e \<Rightarrow> RError e
      | Inr s \<Rightarrow> if s \<noteq> VUndefined \<and> failSafeEnabled options (snd r) then RValue s else otherwise, snd r))"

definition store_loaded :: "'x op_env_scheme \<Rightarrow> 'c lru \<Rightarrow> tick \<Rightarrow> MutationGuard \<Rightarrow> CacheOptions \<Rightarrow> nat \<Rightarrow> jsval \<Rightarrow> bool \<Rightarrow> 'c HybridCache \<Rightarrow> 'c op_step" where
  "store_loaded E L t g options c v leased h =
     (if \<not> mg_publicationAllowed g \<or> \<not> isCurrent g h then suspend (Leave g (RValue v) (Some c)) h
      else if v = VUndefined
      then (let r = or_stale E t (mg_key g) options (RValue VUndefined) (setNegative E (tk_now t) (mg_key g) options h) in
            suspend (Leave g (fst r) (Some c)) (snd r))
      else if leased \<and> hc_hasL2 h \<and> l2_atomic E
      then (case tryEncodeForLayer E co_L2 v options h of None \<Rightarrow> suspend (Leave g (RValue v) (Some c)) h
          | Some xs \<Rightarrow> suspend (PublishQueued g v options xs c) h)
      else writeValue E L t g v options (Some c) h)"

definition load_failed :: "'x event_env_scheme \<Rightarrow> tick \<Rightarrow> MutationGuard \<Rightarrow> CacheOptions \<Rightarrow> nat \<Rightarrow> js_error \<Rightarrow> 'c HybridCache \<Rightarrow> 'c op_step" where
  "load_failed E t g options c e h = (let r = or_stale E t (mg_key g) options (RError e) h in
     suspend (Leave g (fst r) (Some c)) (snd r))"

definition publication :: "'x op_env_scheme \<Rightarrow> 'c lru \<Rightarrow> tick \<Rightarrow> MutationGuard \<Rightarrow> jsval \<Rightarrow> CacheOptions \<Rightarrow> bytes \<Rightarrow> nat \<Rightarrow> answer \<Rightarrow> 'c HybridCache \<Rightarrow> 'c op_step" where
  "publication E L t g v options xs c a h =
     (if a = L2Publication False then suspend (WinnerQueued g c) h
      else if a \<noteq> L2Publication True \<or> \<not> hc_trusted h \<or> \<not> isCurrent g h then suspend (Leave g (RValue v) (Some c)) h
      else let e1 = (if hc_l1 h = None then None else if sameLayerCodecPolicy E options h then Some xs else tryEncodeForLayer E co_L1 v options h);
               r = setL1Only E L (tk_now t) (mg_storageKey g) v options e1 h in
        case fst r of Inl err \<Rightarrow> suspend (Leave g (RError err) (Some c)) (snd r)
        | Inr _ \<Rightarrow> suspend (PublishedL1 g v options e1 xs c) (snd r))"

definition published :: "'x event_env_scheme \<Rightarrow> tick \<Rightarrow> MutationGuard \<Rightarrow> jsval \<Rightarrow> CacheOptions \<Rightarrow> bytes option \<Rightarrow> bytes \<Rightarrow> nat \<Rightarrow> 'c HybridCache \<Rightarrow> 'c op_step" where
  "published E t g v options e1 xs c h =
     (if \<not> hc_trusted h \<or> \<not> isCurrent g h then suspend (Leave g (RValue v) (Some c)) h
      else let h1 = removeNegative (mg_key g) (rememberStale E (tk_now t) (mg_key g) v options (Some (nullish e1 xs)) h) in
        (Await (Leave g (RValue v) (Some c)), broadcast E t g v options h1, h1))"

section \<open>Deleting\<close>

definition deleting :: "bool \<Rightarrow> MutationGuard \<times> 'c HybridCache \<Rightarrow> 'c op_step" where
  "deleting shared r = suspend (DeleteL1 (fst r) shared) (snd r)"

text \<open>The condition under which the queued deletion still reaches the shared tier.\<close>

definition deletes_shared :: "'x event_env_scheme \<Rightarrow> MutationGuard \<Rightarrow> 'c HybridCache \<Rightarrow> bool" where
  "deletes_shared E g h \<longleftrightarrow> \<not> hc_closed h
     \<and> (mg_revision g = kr_value (hc_revisions h ! mg_state g) \<or> mg_storageKey g \<noteq> toStorageKey E (mg_key g) h)"

definition deleted :: "MutationGuard \<Rightarrow> 'c HybridCache \<Rightarrow> 'c op_step" where
  "deleted g h = suspend (AnnounceDelete (mg_key g)) (releaseKey g h)"

section \<open>Leaving\<close>

text \<open>The \<open>finally\<close> of an operation: its controller leaves the active leaders, its guard is released.\<close>

definition leave :: "MutationGuard \<Rightarrow> op_result \<Rightarrow> nat option \<Rightarrow> 'c HybridCache \<Rightarrow> 'c op_step" where
  "leave g r c h = (Finished r, [], releaseKey g (case c of None \<Rightarrow> h | Some n \<Rightarrow> h\<lparr>hc_activeLeaders := removeAll n (hc_activeLeaders h)\<rparr>))"

section \<open>The steps of a load\<close>

text \<open>
  While \<open>loadWithDistributedLockInternal\<close> and \<open>loadAndStore\<close> wait for the lock, the origin gate and the loader,
  only the guard changes: a lease lends it its own signal, which is aborted with the controller of the load.
\<close>

definition loading :: "'x op_env_scheme \<Rightarrow> 'c lru \<Rightarrow> tick \<Rightarrow> MutationGuard \<Rightarrow> CacheOptions \<Rightarrow> nat \<Rightarrow> answer \<Rightarrow> 'c HybridCache \<Rightarrow> 'c op_step" where
  "loading E L t g options c a h = (case a of
     Leased d \<Rightarrow> suspend (Loading (g\<lparr>mg_signal := Some d\<rparr>) options c) (if c \<in> set (hc_aborted h) then h\<lparr>hc_aborted := d # hc_aborted h\<rparr> else h)
   | Unleased \<Rightarrow> suspend (Loading (if l2_atomic E then g\<lparr>mg_publicationAllowed := False\<rparr> else g) options c) h
   | LoaderValue v leased \<Rightarrow> store_loaded E L t g options c v leased h
   | LoaderFailed e \<Rightarrow> load_failed E t g options c e h
   | LoadCached v \<Rightarrow> suspend (Leave g (RValue v) (Some c)) h
   | LoadRejected e \<Rightarrow> suspend (Leave g (RError e) (Some c)) h
   | _ \<Rightarrow> suspend (Loading g options c) h)"

text \<open>A call that waits in the L2 gate: when it is dispatched \<open>sent\<close> says what it sends, otherwise it yields its fallback.\<close>

definition queued :: "answer \<Rightarrow> l2_command list \<Rightarrow> frame \<Rightarrow> ('c HybridCache \<Rightarrow> 'c op_step) \<Rightarrow> 'c HybridCache \<Rightarrow> 'c op_step" where
  "queued a sent next fallback h = (if a = Dispatch \<and> hc_hasL2 h then (Await next, sent, h) else fallback h)"

section \<open>Resuming an operation\<close>

fun resume :: "'x op_env_scheme \<Rightarrow> 'c lru \<Rightarrow> tick \<Rightarrow> answer \<Rightarrow> frame \<Rightarrow> 'c HybridCache \<Rightarrow> 'c op_step" where
  "resume E L t a (WriteL1 g v options e1 e2 c) h =
     (if \<not> isCurrent g h then suspend (write_returns g v options c False) h else suspend (WriteQueued g v options e1 e2 c) h)"
| "resume E L t a (WriteQueued g v options e1 e2 c) h = queued a
     (if \<not> isCurrent g h then [] else case e2 of Some xs \<Rightarrow> [L2SetEncoded (mg_storageKey g) xs] | None \<Rightarrow> [L2SetValue (mg_storageKey g) v])
     (WriteL2 g v options e1 e2 c) (write_commit E t g v options e1 e2 c) h"
| "resume E L t a (WriteL2 g v options e1 e2 c) h = write_commit E t g v options e1 e2 c h"
| "resume E L t a (ReadL1 g enc) h = read_l1 E L t g enc h"
| "resume E L t a (ReadQueued g) h = queued a [L2Get (mg_storageKey g)] (ReadL2 g) (read_answer E L t g L2Fallback) h"
| "resume E L t a (ReadL2 g) h = read_answer E L t g a h"
| "resume E L t a (PromoteHas g v options reuse f) h = suspend (Promoted g v options reuse f) (snd (l1_has L (tk_now t) (mg_storageKey g) h))"
| "resume E L t a (Promoted g v options reuse f) h = promoted E t g v options reuse f h"
| "resume E L t a (DeleteL1 g shared) h = (if shared then suspend (DeleteQueued g) h else leave g RUnit None h)"
| "resume E L t a (DeleteQueued g) h = queued a (if deletes_shared E g h then [L2Delete (mg_storageKey g)] else []) (DeleteL2 g) (deleted g) h"
| "resume E L t a (DeleteL2 g) h = deleted g h"
| "resume E L t a (RemoteQueued g options raw generation) h = queued a [L2Get (mg_storageKey g)] (RemoteL2 g options raw generation)
     (remote_answer E L t g options raw generation L2Fallback) h"
| "resume E L t a (RemoteL2 g options raw generation) h = remote_answer E L t g options raw generation a h"
| "resume E L t a (RemoteEvicted g) h = leave g RUnit None (removeStale (mg_key g) (removeNegative (mg_key g) h))"
| "resume E L t a (Loading g options c) h = loading E L t g options c a h"
| "resume E L t a (PublishQueued g v options xs c) h = queued a (if isCurrent g h then [L2PublishIfOwner (mg_storageKey g) xs] else [])
     (PublishL2 g v options xs c) (publication E L t g v options xs c L2Fallback) h"
| "resume E L t a (PublishL2 g v options xs c) h = publication E L t g v options xs c a h"
| "resume E L t a (WinnerQueued g c) h = queued a [L2Get (mg_storageKey g)] (WinnerL2 g c) (suspend (Leave g (RError lock_lost) (Some c))) h"
| "resume E L t a (WinnerL2 g c) h = (let x = l2_value E a h in
     suspend (Leave g (if fst x = VUndefined then RError lock_lost else RValue (fst x)) (Some c)) h)"
| "resume E L t a (PublishedL1 g v options e1 xs c) h = published E t g v options e1 xs c h"
| "resume E L t a (Stored g v options c) h = (case a of LoaderFailed e \<Rightarrow> suspend (Leave g (RError e) (Some c)) h
     | _ \<Rightarrow> (Await (Leave g (RValue v) (Some c)), broadcast E t g v options h, h))"
| "resume E L t a (Leave g r c) h = leave g r c h"
| "resume E L t a (AnnounceDelete key) h = (Finished RUnit, publishInvalidation (delete_event E t key h) h, h)"
| "resume E L t a (AnnouncePattern pattern) h = (Finished RUnit, publishInvalidation (pattern_event t pattern h) h, h)"
| "resume E L t a (RemoteDelete key generation) h = deleting False (deleteLocal_begin E L (tk_now t) key generation h)"
| "resume E L t a (PatternL1 pattern shared) h = (if shared then suspend (PatternQueued pattern) h else (Finished RUnit, [], h))"
| "resume E L t a (PatternQueued pattern) h = queued a [L2DeletePattern pattern] (PatternL2 pattern) (suspend (AnnouncePattern pattern)) h"
| "resume E L t a (PatternL2 pattern) h = suspend (AnnouncePattern pattern) h"
| "resume E L t a (Restoring revision) h = (Finished RUnit, [], restoreTrust_end revision h)"

section \<open>Starting an operation\<close>

definition refused :: "js_error \<Rightarrow> 'c HybridCache \<Rightarrow> 'c op_step" where
  "refused e h = (Finished (RError e), [], h)"

definition hc_set :: "'x op_env_scheme \<Rightarrow> 'c lru \<Rightarrow> tick \<Rightarrow> CacheKey \<Rightarrow> jsval \<Rightarrow> CacheOptions \<Rightarrow> 'c HybridCache \<Rightarrow> 'c op_step" where
  "hc_set E L t key v options h = (if hc_closed h then refused cache_closed h
     else case validateCacheBudgets options of Some e \<Rightarrow> refused e h
     | None \<Rightarrow> let r = observeKey E key True h in writeValue E L t (fst r) v options None (snd r))"

definition hc_get :: "'x op_env_scheme \<Rightarrow> 'c lru \<Rightarrow> tick \<Rightarrow> CacheKey \<Rightarrow> 'c HybridCache \<Rightarrow> 'c op_step" where
  "hc_get E L t key h = (if hc_closed h then refused cache_closed h
     else if \<not> versionedCacheSafe h then (Finished (RValue VUndefined), [], h)
     else let r = observeKey E key False h in readValue E L t (fst r) (snd r))"

definition hc_delete :: "'x op_env_scheme \<Rightarrow> 'c lru \<Rightarrow> tick \<Rightarrow> CacheKey \<Rightarrow> 'c HybridCache \<Rightarrow> 'c op_step" where
  "hc_delete E L t key h = (if hc_closed h then refused cache_closed h
     else deleting True (deleteLocal_begin E L (tk_now t) key None h))"

definition hc_deleteByPattern :: "'x op_env_scheme \<Rightarrow> 'c lru \<Rightarrow> tick \<Rightarrow> jsstr \<Rightarrow> 'c HybridCache \<Rightarrow> 'c op_step" where
  "hc_deleteByPattern E L t pattern h = (if hc_closed h then refused cache_closed h
     else suspend (PatternL1 pattern True) (deleteByPatternLocal_begin E L (tk_now t) pattern h))"

text \<open>\<open>loadWithDistributedLock\<close> up to the start of the load; \<open>c\<close> is its new controller.\<close>

definition hc_load :: "'x op_env_scheme \<Rightarrow> tick \<Rightarrow> CacheKey \<Rightarrow> CacheOptions \<Rightarrow> nat \<Rightarrow> 'c HybridCache \<Rightarrow> 'c op_step" where
  "hc_load E t key options c h = (if hc_closed h then refused cache_closed h
     else if hc_maxActiveLeaders h \<le> int (length (hc_activeLeaders h))
     then (let r = or_stale E t key options (RError load_overloaded) h in (Finished (fst r), [], snd r))
     else let r = observeKey E key False h in
       suspend (Loading ((fst r)\<lparr>mg_signal := Some c\<rparr>) options c) ((snd r)\<lparr>hc_activeLeaders := hc_activeLeaders (snd r) @ [c]\<rparr>))"

text \<open>
  One key of a remote delete and of a remote set: the loops of \<open>applyRemoteDelete\<close> and \<open>applyRemoteSet\<close> run
  their bodies one after the other.
\<close>

definition remote_delete :: "'x op_env_scheme \<Rightarrow> 'c lru \<Rightarrow> tick \<Rightarrow> jsstr \<Rightarrow> CacheKey \<Rightarrow> int option \<Rightarrow> 'c HybridCache \<Rightarrow> 'c op_step" where
  "remote_delete E L t raw key generation h = (if hc_closed h then (Finished RUnit, [], h)
     else if isStaleGeneration raw generation h \<and> versioned h
     then suspend (RemoteDelete key generation) (saturateGenerationTracking E L (tk_now t) h)
     else deleting False (deleteLocal_begin E L (tk_now t) key generation h))"

definition remote_set_options :: "jsnum option \<Rightarrow> 'c HybridCache \<Rightarrow> CacheOptions" where
  "remote_set_options ttl h = (case ttl of None \<Rightarrow> own h | Some n \<Rightarrow> (own h)\<lparr>co_ttlMs := Some n\<rparr>)"

definition remote_set :: "'x op_env_scheme \<Rightarrow> 'c lru \<Rightarrow> tick \<Rightarrow> jsstr \<Rightarrow> CacheKey \<Rightarrow> jsval \<Rightarrow> jsnum option \<Rightarrow> int option \<Rightarrow> 'c HybridCache \<Rightarrow> 'c op_step" where
  "remote_set E L t raw key v ttl generation h = (if hc_closed h \<or> isStaleGeneration raw generation h then (Finished RUnit, [], h)
     else let r = observeKey E key True (advanceGenerationAfterRemoteSet E L (tk_now t) raw generation h);
              options = remote_set_options ttl h in
       if hc_hasL2 h then suspend (RemoteQueued (fst r) options raw generation) (snd r)
       else fill_value E L t (fst r) v options None (FillRemote raw generation) (snd r))"

text \<open>The checks before the loop of \<open>applyRemoteSet\<close>.\<close>

definition accepts_remote_set :: "'c HybridCache \<Rightarrow> bool" where
  "accepts_remote_set h \<longleftrightarrow> \<not> hc_closed h \<and> hc_trusted h \<and> versionedCacheSafe h \<and> (hc_saturated h \<longrightarrow> hc_hasL2 h)"

end
