(* ===== verification/Cache_Contents.thy ===== *)
theory Cache_Contents
  imports Cache_Operations
begin

text \<open>
  What a cache holds locally, by place and key, and which synchronous steps can add to it: writing the
  L1, remembering a stale value and recording a negative answer each add at most their own key, every
  other step only removes.
\<close>

section \<open>Contents of the L1\<close>

definition ms_keys :: "('c \<Rightarrow> (CacheKey \<times> Entry) list) \<Rightarrow> 'c mstate \<Rightarrow> CacheKey set" where
  "ms_keys rd s = fst ` set (resident rd (snd s))"

definition ms_adds :: "'x event_env_scheme \<Rightarrow> ('c \<Rightarrow> bool) \<Rightarrow> ('c \<Rightarrow> (CacheKey \<times> Entry) list) \<Rightarrow> CacheKey set \<Rightarrow> 'c mstate \<Rightarrow> 'c mstate \<Rightarrow> bool" where
  "ms_adds E valid rd K s s' \<longleftrightarrow> (ms_inv E valid rd s \<longrightarrow> ms_inv E valid rd s' \<and> ms_keys rd s' \<subseteq> ms_keys rd s \<union> K)"

lemma ms_adds_refl [simp]: "ms_adds E valid rd K s s"
  by (simp add: ms_adds_def)

lemma ms_adds_trans: "ms_adds E valid rd K s t \<Longrightarrow> ms_adds E valid rd K t u \<Longrightarrow> ms_adds E valid rd K s u"
  by (auto simp: ms_adds_def)

lemma ms_adds_mono: "ms_adds E valid rd {} s t \<Longrightarrow> ms_adds E valid rd K s t"
  by (auto simp: ms_adds_def)

lemma drops_keys: "ms_drops E valid rd s t \<Longrightarrow> ms_keys rd t \<subseteq> ms_keys rd s"
  unfolding ms_keys_def by (rule image_mono) (auto simp: ms_drops_def dest!: set_mset_mono)

lemma drops_adds: "(ms_inv E valid rd s \<Longrightarrow> ms_drops E valid rd s t) \<Longrightarrow> ms_adds E valid rd K s t"
  using drops_keys [of E valid rd s t] by (auto simp: ms_adds_def ms_drops_def)

lemma delete_adds: "lru_laws L valid rd mx \<Longrightarrow> ms_adds E valid rd K s (ms_delete L key s)"
  by (rule drops_adds) (rule delete_drops)

lemma reject_adds: "ms_adds E valid rd K s t \<Longrightarrow> ms_adds E valid rd K s (reject t)"
  using reject_drops(1) [OF ms_drops_refl, of E valid rd t] drops_keys [OF reject_drops(1) [OF ms_drops_refl], of E valid rd t]
  by (auto simp: ms_adds_def ms_drops_def)

lemma setEncoded_adds:
  assumes "lru_laws L valid rd mx"
  shows "ms_adds E valid rd {key} s (snd (ms_setEncoded E L now key buffer options orig s))"
proof (cases "fst (ms_setEncoded E L now key buffer options orig s) = Inr ()")
  case True
  then show ?thesis using ms_setEncoded_written [OF assms _ True]
    by (fastforce simp: ms_adds_def written_def ms_keys_def)
qed (simp add: ms_setEncoded_error)

lemma set_adds: "lru_laws L valid rd mx \<Longrightarrow> ms_adds E valid rd {key} s (snd (ms_set E L now key v options s))"
  by (simp add: ms_set_def setEncoded_adds delete_adds reject_adds split: sum.splits)

lemma after_adds:
  assumes "ms_cache (snd s) = Some c" and "ms_inv E valid rd s \<Longrightarrow> valid (fst r) \<and> (\<exists>ev. leaves rd c ev r)"
  shows "ms_adds E valid rd K s (ms_after r s)"
  using assms(2) after_drops(1) [OF _ assms(1)] by (intro drops_adds) blast

lemma record_adds: "ms_adds E valid rd K s (fst s, ms_record E key (snd s))"
  using record_keeps [of E valid rd s key]
  by (auto simp: ms_adds_def ms_keeps_def ms_keys_def ms_record_def resident_def Let_def split: option.splits)

lemma lookup_adds:
  assumes "lru_laws L valid rd mx"
  shows "ms_adds E valid rd K s (snd (ms_lookup E L now key s))"
proof -
  let ?s = "(fst s, ms_record E key (snd s))"
  have "ms_adds E valid rd K ?s (snd (ms_lookup E L now key s))"
  proof (cases "ms_cache (snd ?s)")
    case (Some c)
    have "ms_adds E valid rd K ?s (ms_after (snd (lru_get L now key c)) ?s)"
      using law_get(1,2) [OF assms] resident_valid [of E valid rd ?s c] Some by (intro after_adds [OF Some]) blast
    then show ?thesis using Some by (simp add: ms_lookup_def Let_def)
  qed (simp add: ms_lookup_def Let_def)
  then show ?thesis using ms_adds_trans [OF record_adds] by blast
qed

lemma get_adds: "lru_laws L valid rd mx \<Longrightarrow> ms_adds E valid rd K s (snd (ms_get E L now key s))"
  using ms_adds_trans [OF lookup_adds [of L valid rd mx E K s now key] delete_adds [of L valid rd mx E K _ key]]
  by (simp add: ms_get_def Let_def lookup_adds split: option.splits sum.splits DecodedCacheRecord.splits)

lemma fold_adds: "(\<And>x s. ms_adds E valid rd K s (f x s)) \<Longrightarrow> ms_adds E valid rd K s (fold f xs s)"
proof (induction xs arbitrary: s)
  case (Cons x xs)
  then show ?case using ms_adds_trans [of E valid rd K s "f x s"] by simp
qed simp

lemma cache_call_adds:
  assumes laws: "lru_laws L valid rd mx"
  shows "ms_adds E valid rd K s (snd (ms_has L now key s))" "ms_adds E valid rd K s (ms_deleteByPattern E L now pattern s)"
    "ms_adds E valid rd K s (ms_clear L s)" "ms_adds E valid rd K s (snd (ms_size L now s))"
    "ms_adds E valid rd K s (snd (ms_evictOne L s))" "ms_adds E valid rd K s (ms_close L s)"
proof -
  show "ms_adds E valid rd K s (snd (ms_has L now key s))"
    by (auto simp: ms_has_def delete_adds [OF laws] split: option.splits)
  show "ms_adds E valid rd K s (ms_deleteByPattern E L now pattern s)"
    by (auto simp: ms_deleteByPattern_def intro: fold_adds delete_adds [OF laws] split: option.splits)
  show "ms_adds E valid rd K s (ms_clear L s)"
    using law_clear(1,3) [OF laws] resident_valid [of E valid rd s]
    by (auto simp: ms_clear_def intro!: after_adds split: option.splits)
  show "ms_adds E valid rd K s (snd (ms_size L now s))"
    using law_purge [OF laws] resident_valid [of E valid rd s]
    by (auto simp: ms_size_def Let_def intro!: after_adds split: option.splits)
  show "ms_adds E valid rd K s (snd (ms_evictOne L s))"
    using law_pop [OF laws] resident_valid [of E valid rd s]
    by (fastforce simp: ms_evictOne_def Let_def intro!: after_adds split: option.splits)
  show "ms_adds E valid rd K s (ms_close L s)"
    using ms_close_spec(1,3) [OF laws, of E s] by (auto simp: ms_adds_def ms_keys_def ms_close_def [of L s])
qed

fun ms_event_keys :: "ms_event \<Rightarrow> CacheKey set" where
  "ms_event_keys (MSet now key v options) = {key}"
| "ms_event_keys (MSetEncoded now key buffer options orig) = {key}"
| "ms_event_keys _ = {}"

lemma ms_step_adds: "lru_laws L valid rd mx \<Longrightarrow> ms_adds E valid rd (ms_event_keys e) s (ms_step E L e s)"
  by (cases e) (simp_all add: set_adds setEncoded_adds get_adds delete_adds cache_call_adds lookup_adds ms_getEncoded_def Let_def)

section \<open>Contents of the cache\<close>

datatype place = InL1 | InStale | InNegative

definition l1_keys :: "('c \<Rightarrow> (CacheKey \<times> Entry) list) \<Rightarrow> 'c HybridCache \<Rightarrow> CacheKey set" where
  "l1_keys rd h = (case hc_l1 h of None \<Rightarrow> {} | Some m \<Rightarrow> fst ` set (resident rd m))"

definition contents :: "('c \<Rightarrow> (CacheKey \<times> Entry) list) \<Rightarrow> 'c HybridCache \<Rightarrow> (place \<times> CacheKey) set" where
  "contents rd h = {x. snd x \<in> (case fst x of InL1 \<Rightarrow> l1_keys rd h | InStale \<Rightarrow> fst ` set (hc_stale h) | InNegative \<Rightarrow> fst ` set (hc_negative h))}"

lemma contents_frame:
  "hc_l1 h' = hc_l1 h \<Longrightarrow> hc_stale h' = hc_stale h \<Longrightarrow> hc_negative h' = hc_negative h \<Longrightarrow> contents rd h' = contents rd h"
  by (auto simp: contents_def l1_keys_def split: place.splits)

lemma contents_less:
  "hc_l1 h' = hc_l1 h \<Longrightarrow> set (hc_stale h') \<subseteq> set (hc_stale h) \<Longrightarrow> set (hc_negative h') \<subseteq> set (hc_negative h) \<Longrightarrow> contents rd h' \<subseteq> contents rd h"
  unfolding contents_def l1_keys_def by (auto split: place.splits)

text \<open>The fields \<open>contents\<close> reads; a release or a reservation changes none of them.\<close>

definition cfields :: "'c HybridCache \<Rightarrow> 'c MemoryStore option \<times> (CacheKey, StaleEntry) omap \<times> (CacheKey, NegativeEntry) omap" where
  "cfields h = (hc_l1 h, hc_stale h, hc_negative h)"

lemma cfields_release [simp]: "cfields (hc_release n c h) = cfields h"
  by (simp add: cfields_def hc_release_def)

lemma cfields_reserve [simp]: "cfields (snd (hc_reserve n c h)) = cfields h"
  by (simp add: cfields_def hc_reserve_def Let_def split: option.splits)

lemma cfields_contents: "cfields h' = cfields h \<Longrightarrow> contents rd h' = contents rd h"
  by (rule contents_frame) (simp_all add: cfields_def)

definition adds :: "'x event_env_scheme \<Rightarrow> ('c \<Rightarrow> bool) \<Rightarrow> ('c \<Rightarrow> (CacheKey \<times> Entry) list) \<Rightarrow> (place \<times> CacheKey) set \<Rightarrow> 'c HybridCache \<Rightarrow> 'c HybridCache \<Rightarrow> bool" where
  "adds E valid rd K h h' \<longleftrightarrow> (hc_inv E valid rd h \<longrightarrow> hc_inv E valid rd h' \<and> contents rd h' \<subseteq> contents rd h \<union> K)"

lemma adds_trans: "adds E valid rd K h g \<Longrightarrow> adds E valid rd K g f \<Longrightarrow> adds E valid rd K h f"
  by (auto simp: adds_def)

lemma adds_refl [simp]: "adds E valid rd K h h"
  by (simp add: adds_def)

lemma adds_keeps: "hc_keeps E valid rd h h' \<Longrightarrow> contents rd h' \<subseteq> contents rd h \<union> K \<Longrightarrow> adds E valid rd K h h'"
  by (simp add: adds_def hc_keeps_def)

lemma on_l1_adds:
  assumes f: "\<And>s. ms_adds E valid rd K s (snd (f s))" and k: "hc_keeps E valid rd h (snd (on_l1 f d h))"
  shows "adds E valid rd (Pair InL1 ` K) h (snd (on_l1 f d h))"
proof (cases "\<exists>m b. hc_l1 h = Some m \<and> hc_budget h = Some b")
  case True
  then obtain m b where mb: "hc_l1 h = Some m" "hc_budget h = Some b" by blast
  have "contents rd (snd (on_l1 f d h)) \<subseteq> contents rd h \<union> Pair InL1 ` K" if "hc_inv E valid rd h"
  proof -
    have "ms_inv E valid rd (b, m)" using that mb by (simp add: hc_inv_def)
    then have "ms_keys rd (snd (f (b, m))) \<subseteq> ms_keys rd (b, m) \<union> K" using f by (simp add: ms_adds_def)
    then show ?thesis using mb by (auto simp: on_l1_def contents_def l1_keys_def ms_keys_def Let_def split: place.splits)
  qed
  then show ?thesis using k by (simp add: adds_def hc_keeps_def)
next
  case False
  then have "snd (on_l1 f d h) = h" by (auto simp: on_l1_def split: option.splits)
  then show ?thesis by simp
qed

lemma l1_delete_adds:
  assumes laws: "lru_laws L valid rd mx"
  shows "adds E valid rd K h (l1_deleteByPattern E L now pattern h)" "adds E valid rd K h (l1_delete L key h)"
proof -
  have "adds E valid rd (Pair InL1 ` {}) h (l1_deleteByPattern E L now pattern h)"
    unfolding l1_deleteByPattern_def by (rule on_l1_adds [OF _ l1_deleteByPattern_keeps [OF laws, unfolded l1_deleteByPattern_def]]) (simp add: cache_call_adds [OF laws])
  then show "adds E valid rd K h (l1_deleteByPattern E L now pattern h)" by (auto simp: adds_def)
  have "adds E valid rd (Pair InL1 ` {}) h (l1_delete L key h)"
    unfolding l1_delete_def by (rule on_l1_adds [OF _ l1_delete_keeps [OF laws, unfolded l1_delete_def]]) (simp add: delete_adds [OF laws])
  then show "adds E valid rd K h (l1_delete L key h)" by (auto simp: adds_def)
qed

section \<open>Steps that only remove\<close>

lemma removeStale_less [simp]: "contents rd (removeStale key h) \<subseteq> contents rd h"
  by (rule contents_less) (auto simp: removeStale_stale set_om_del removeStale_def hc_release_def Let_def split: option.splits)

lemma removeNegative_less [simp]: "contents rd (removeNegative key h) \<subseteq> contents rd h"
  by (rule contents_less) (auto simp: removeNegative_def hc_release_def set_om_del split: option.splits)

lemma clear_less [simp]: "contents rd (clearStale h) \<subseteq> contents rd h" "contents rd (clearNegative h) \<subseteq> contents rd h"
  by (rule contents_less; simp add: clearStale_def clearNegative_def hc_release_def Let_def)+

lemma trimStale_less: "contents rd (trimStale a b h) \<subseteq> contents rd h"
proof (induction a b h rule: trimStale.induct)
  case (1 a b h)
  have "contents rd (trimStale a b (removeStale (fst p) h)) \<subseteq> contents rd h"
    if "hc_stale h = p # m" "jless a (jint (int (length (hc_stale h)))) \<or> jless b (jint (hc_staleBytes h))" for p m
    using 1 [OF that(2,1)] removeStale_less [of rd "fst p" h] by blast
  then show ?case by (subst trimStale.simps) (auto split: list.splits)
qed

lemma evictNegative_less: "contents rd (evictNegativeCount a h) \<subseteq> contents rd h" "contents rd (evictNegativeBytes n h) \<subseteq> contents rd h"
proof -
  show "contents rd (evictNegativeCount a h) \<subseteq> contents rd h"
  proof (induction a h rule: evictNegativeCount.induct)
    case (1 a h)
    have "contents rd (evictNegativeCount a (removeNegative (fst p) h)) \<subseteq> contents rd h"
      if "hc_negative h = p # m" "jle a (jint (int (length (hc_negative h))))" for p m
      using 1 [OF that(2,1)] removeNegative_less [of rd "fst p" h] by blast
    then show ?case by (subst evictNegativeCount.simps) (auto split: list.splits)
  qed
  show "contents rd (evictNegativeBytes n h) \<subseteq> contents rd h"
  proof (induction n h rule: evictNegativeBytes.induct)
    case (1 n h)
    have "contents rd (evictNegativeBytes n (removeNegative (fst p) h)) \<subseteq> contents rd h"
      if "hc_negative h = p # m" "MAX_AUXILIARY_MAP_BYTES < hc_negativeBytes h + n" for p m
      using 1 [OF that(2,1)] removeNegative_less [of rd "fst p" h] by blast
    then show ?case by (subst evictNegativeBytes.simps) (auto split: list.splits)
  qed
qed

lemma lookups_less: "contents rd (snd (getStale E now key h)) \<subseteq> contents rd h" "contents rd (snd (hasNegative now key h)) \<subseteq> contents rd h"
  "contents rd (snd (evictOneStale h)) \<subseteq> contents rd h"
  by (simp_all add: getStale_def hasNegative_def evictOneStale_def split: option.splits list.splits)

text \<open>Steps on the other maps leave the contents alone.\<close>

lemma cfields_with [simp]:
  "cfields (h\<lparr>hc_inflight := e\<rparr>) = cfields h" "cfields (h\<lparr>hc_inflightBytes := f\<rparr>) = cfields h"
  "cfields (h\<lparr>hc_rejectedFollowers := i\<rparr>) = cfields h" "cfields (h\<lparr>hc_activeFollowers := j\<rparr>) = cfields h"
  "cfields (h\<lparr>hc_followerBytes := k\<rparr>) = cfields h" "cfields (h\<lparr>hc_seenEvents := l\<rparr>) = cfields h"
  "cfields (h\<lparr>hc_seenEventBytes := m\<rparr>) = cfields h" "cfields (h\<lparr>hc_generations := n\<rparr>) = cfields h"
  "cfields (h\<lparr>hc_generationBytes := p\<rparr>) = cfields h" "cfields (h\<lparr>hc_revisions := q\<rparr>) = cfields h"
  "cfields (h\<lparr>hc_keyRevisions := r\<rparr>) = cfields h" "cfields (h\<lparr>hc_keyRevisionBytes := s\<rparr>) = cfields h"
  "cfields (h\<lparr>hc_staleBytes := t\<rparr>) = cfields h" "cfields (h\<lparr>hc_activeLeaders := u\<rparr>) = cfields h"
  "cfields (h\<lparr>hc_aborted := v\<rparr>) = cfields h" "cfields (h\<lparr>hc_budget := w\<rparr>) = cfields h"
  "cfields (h\<lparr>hc_mutationEpoch := x\<rparr>) = cfields h" "cfields (h\<lparr>hc_saturated := y\<rparr>) = cfields h"
  "cfields (h\<lparr>hc_trusted := z\<rparr>) = cfields h" "cfields (h\<lparr>hc_closed := z\<rparr>) = cfields h"
  "cfields (h\<lparr>hc_invalidationRevision := x\<rparr>) = cfields h" "cfields (h\<lparr>hc_lastBusStatus := a\<rparr>) = cfields h"
  "cfields (h\<lparr>hc_staleRegistered := z\<rparr>) = cfields h" "cfields (h\<lparr>hc_negativeBytes := t\<rparr>) = cfields h"
  by (simp_all add: cfields_def)

lemma cfields_inflight [simp]:
  "cfields (removeInflight key h) = cfields h" "cfields (clearInflight h) = cfields h" "cfields (pruneInflightKey now key h) = cfields h"
  "cfields (finishInflight key p h) = cfields h" "cfields (snd (startInflight E now key p x h)) = cfields h"
  "cfields (snd (joinInflight options h)) = cfields h" "cfields (leaveInflight h) = cfields h"
  by (simp_all add: removeInflight_def clearInflight_def pruneInflightKey_def finishInflight_def startInflight_def reserveInflight_def
      joinInflight_def leaveInflight_def Let_def split: option.splits)

lemma cfields_seen [simp]: "cfields (removeSeenEvent E i h) = cfields h" "cfields (snd (hasSeenEvent E now i h)) = cfields h"
  by (simp_all add: removeSeenEvent_def hasSeenEvent_def Let_def split: option.splits)

lemma cfields_evictSeen [simp]: "cfields (snd (evictSeen E n h)) = cfields h"
proof (induction E n h rule: evictSeen.induct)
  case (1 E n h)
  then show ?case by (subst evictSeen.simps) (auto split: list.splits)
qed

lemma cfields_mark [simp]: "cfields (markEventSeen E now i h) = cfields h"
  by (simp add: markEventSeen_def Let_def)

lemma cfields_revisions [simp]: "cfields (snd (observeKey E key mutate h)) = cfields h" "cfields (releaseKey g h) = cfields h"
  by (simp_all add: observeKey_def releaseKey_def Let_def split: option.splits)

lemma cfields_trust [simp]: "cfields (restoreTrust_end r h) = cfields h"
  by (simp add: restoreTrust_end_def)

section \<open>Steps that add one key\<close>

lemma stale_added:
  "contents rd (h\<lparr>hc_stale := om_set (hc_stale h) key e, hc_staleBytes := n\<rparr>) \<subseteq> contents rd h \<union> {(InStale, key)}"
  by (auto simp: contents_def l1_keys_def fst_om_set split: place.splits)

lemma negative_added:
  "contents rd (h\<lparr>hc_negative := om_set (hc_negative h) key e, hc_negativeBytes := n\<rparr>) \<subseteq> contents rd h \<union> {(InNegative, key)}"
  by (auto simp: contents_def l1_keys_def fst_om_set split: place.splits)

lemma reserved_same: "contents rd (snd (hc_reserve n c h)) = contents rd h"
  by (rule cfields_contents) simp

definition holds_only :: "('c \<Rightarrow> (CacheKey \<times> Entry) list) \<Rightarrow> (place \<times> CacheKey) set \<Rightarrow> 'c HybridCache \<Rightarrow> bool" where
  "holds_only rd K h \<longleftrightarrow> contents rd h \<subseteq> K"

lemma holds_only_less: "holds_only rd K h \<Longrightarrow> contents rd h' \<subseteq> contents rd h \<Longrightarrow> holds_only rd K h'"
  by (auto simp: holds_only_def)

lemma holds_only_reserve [simp]: "holds_only rd K (snd (hc_reserve n c h)) = holds_only rd K h"
  by (simp add: holds_only_def reserved_same)

lemma rememberStale_more: "contents rd (rememberStale E now key v options reusable h) \<subseteq> contents rd h \<union> {(InStale, key)}"
proof -
  let ?K = "contents rd h \<union> {(InStale, key)}"
  have k: "holds_only rd ?K h" "holds_only rd ?K (removeStale key h)" using removeStale_less [of rd key h] unfolding holds_only_def by blast+
  have "holds_only rd ?K (trimStale a b (h1\<lparr>hc_stale := om_set (hc_stale h1) key e, hc_staleBytes := n\<rparr>))"
    if "holds_only rd ?K h1" for h1 a b e n
  proof (rule holds_only_less [OF _ trimStale_less])
    show "holds_only rd ?K (h1\<lparr>hc_stale := om_set (hc_stale h1) key e, hc_staleBytes := n\<rparr>)"
      using that stale_added [where h = h1] unfolding holds_only_def by blast
  qed
  then have "holds_only rd ?K (rememberStale E now key v options reusable h)"
    using k by (simp add: rememberStale_def Let_def split: option.splits sum.splits)
  then show ?thesis by (simp add: holds_only_def)
qed

lemma setNegative_more: "contents rd (setNegative E now key options h) \<subseteq> contents rd h \<union> {(InNegative, key)}"
proof -
  let ?K = "contents rd h \<union> {(InNegative, key)}"
  have k: "holds_only rd ?K h" "holds_only rd ?K (evictNegativeCount a h)" for a using evictNegative_less(1) [of rd a h] by (auto simp: holds_only_def)
  have l: "holds_only rd ?K (evictNegativeBytes n (removeNegative key (evictNegativeCount a h)))" for n a
    by (rule holds_only_less [OF holds_only_less [OF k(2) removeNegative_less] evictNegative_less(2)])
  have "holds_only rd ?K (h1\<lparr>hc_negative := om_set (hc_negative h1) key e, hc_negativeBytes := z\<rparr>)" if "holds_only rd ?K h1" for h1 e z
    using that negative_added [where h = h1] unfolding holds_only_def by blast
  then have "holds_only rd ?K (setNegative E now key options h)" using k l by (simp add: setNegative_def Let_def)
  then show ?thesis by (simp add: holds_only_def)
qed

section \<open>Every step\<close>

text \<open>What a step of a run may add.\<close>

fun event_adds :: "hc_event \<Rightarrow> (place \<times> CacheKey) set" where
  "event_adds (HRemember now key v options reusable) = {(InStale, key)}"
| "event_adds (HSetNegative now key options) = {(InNegative, key)}"
| "event_adds (HL1 e) = Pair InL1 ` ms_event_keys e"
| "event_adds _ = {}"

lemma clearing_adds: "adds E valid rd K h (clearLocal h)" "adds E valid rd K h (clearStale (clearNegative (clearInflight h)))"
proof -
  have "contents rd (clearStale (clearNegative (clearInflight h))) \<subseteq> contents rd h"
    using subset_trans [OF clear_less(1) clear_less(2)] by (metis cfields_contents cfields_inflight(2))
  then show "adds E valid rd K h (clearLocal h)" "adds E valid rd K h (clearStale (clearNegative (clearInflight h)))"
    using clearLocal_keeps [of E valid rd h] by (auto intro!: adds_keeps simp: clearLocal_def)
qed

lemma same_adds: "hc_keeps E valid rd h h' \<Longrightarrow> cfields h' = cfields h \<Longrightarrow> adds E valid rd K h h'"
  using cfields_contents [of h' h rd] by (intro adds_keeps) auto

lemma less_adds: "hc_keeps E valid rd h h' \<Longrightarrow> contents rd h' \<subseteq> contents rd h \<Longrightarrow> adds E valid rd K h h'"
  by (rule adds_keeps) auto

lemma fold_shrinks: "(\<And>x h. adds E valid rd K h (f x h)) \<Longrightarrow> adds E valid rd K h (fold f xs h)"
proof (induction xs arbitrary: h)
  case (Cons x xs)
  then show ?case using adds_trans [of E valid rd K h "f x h"] by simp
qed simp

lemma remove_adds:
  "adds E valid rd K h (removeStale key h)" "adds E valid rd K h (removeNegative key h)" "adds E valid rd K h (removeInflight key h)"
  by (simp_all add: less_adds same_adds removeStale_keeps removeNegative_keeps removeInflight_keeps)

lemma frame_adds:
  "adds E valid rd K h (h\<lparr>hc_mutationEpoch := n\<rparr>)" "adds E valid rd K h (h\<lparr>hc_lastBusStatus := x\<rparr>)"
  "adds E valid rd K h (h\<lparr>hc_saturated := t, hc_mutationEpoch := n\<rparr>)"
  "adds E valid rd K h (h\<lparr>hc_invalidationRevision := i, hc_trusted := t, hc_mutationEpoch := n\<rparr>)"
  by (simp_all add: same_adds frame_keeps)

lemma saturate_adds: "lru_laws L valid rd mx \<Longrightarrow> adds E valid rd K h (saturateGenerationTracking E L now h)"
  unfolding saturateGenerationTracking_def
  by (simp add: adds_trans [OF adds_trans [OF frame_adds(3) clearing_adds(2)] l1_delete_adds(1)])

lemma storeGeneration_adds:
  assumes laws: "lru_laws L valid rd mx"
  shows "adds E valid rd K h (storeGeneration E L now key g h)"
proof -
  let ?n = "keyMetadataBytes E (StringKey key)"
  let ?h = "snd (hc_reserve ?n coordination h)"
  have k: "hc_keeps E valid rd h (storeGeneration E L now key g h)" by (rule storeGeneration_keeps [OF laws])
  have "adds E valid rd K h (saturateGenerationTracking E L now ?h)" if "\<not> fst (hc_reserve ?n coordination h)"
    using adds_trans [OF same_adds [OF reserve_fail_keeps [OF that]] saturate_adds [OF laws]] keyMetadataBytes_pos [of E "StringKey key"] by simp
  moreover have "contents rd (?h\<lparr>hc_generationBytes := a, hc_generations := b\<rparr>) = contents rd h" for a b
    by (rule cfields_contents) simp
  moreover have "contents rd (h\<lparr>hc_generations := b\<rparr>) = contents rd h" for b by (rule cfields_contents) simp
  ultimately show ?thesis using k saturate_adds [OF laws, of E K h now]
    unfolding storeGeneration_def Let_def by (auto simp: adds_def hc_keeps_def split: if_splits)
qed

lemma advance_adds:
  "lru_laws L valid rd mx \<Longrightarrow> adds E valid rd K h (advanceGenerationAfterDelete E L now key g h)"
  "lru_laws L valid rd mx \<Longrightarrow> adds E valid rd K h (advanceGenerationAfterRemoteSet E L now key g h)"
  by (auto simp: advanceGenerationAfterDelete_def advanceGenerationAfterRemoteSet_def storeGeneration_adds split: option.splits)

lemma deletion_adds:
  assumes "lru_laws L valid rd mx"
  shows "adds E valid rd K h (snd (deleteLocal_begin E L now key generation h))"
    and "adds E valid rd K h (deleteByPatternLocal_begin E L now pattern h)"
proof -
  show "adds E valid rd K h (snd (deleteLocal_begin E L now key generation h))"
    unfolding deleteLocal_begin_def Let_def snd_conv
    by (intro adds_trans [OF _ l1_delete_adds(2) [OF assms]] adds_trans [OF _ advance_adds(1) [OF assms]] adds_trans [OF _ remove_adds(1)]
        adds_trans [OF _ remove_adds(2)] adds_trans [OF _ remove_adds(3)] same_adds observeKey_keeps) simp
  show "adds E valid rd K h (deleteByPatternLocal_begin E L now pattern h)"
    unfolding deleteByPatternLocal_begin_def Let_def
    by (intro adds_trans [OF _ l1_delete_adds(1) [OF assms]] adds_trans [OF _ fold_shrinks [of E valid rd K removeStale]]
        adds_trans [OF _ fold_shrinks [of E valid rd K removeNegative]] adds_trans [OF _ fold_shrinks [of E valid rd K removeInflight]]
        remove_adds frame_adds)
qed

lemma trust_adds:
  assumes "lru_laws L valid rd mx"
  shows "adds E valid rd K h (markInvalidationUntrusted E L now h)" "adds E valid rd K h (snd (restoreTrust_begin E L now h))"
    "adds E valid rd K h (snd (onBusStatus E L now status h))"
proof -
  show u: "adds E valid rd K h (markInvalidationUntrusted E L now h)" for h unfolding markInvalidationUntrusted_def
    by (rule adds_trans [OF adds_trans [OF frame_adds(4) clearing_adds(1)] l1_delete_adds(1) [OF assms]])
  show r: "adds E valid rd K h (snd (restoreTrust_begin E L now h))" for h unfolding restoreTrust_begin_def snd_conv
    by (rule adds_trans [OF adds_trans [OF frame_adds(1) clearing_adds(1)] l1_delete_adds(1) [OF assms]])
  show "adds E valid rd K h (snd (onBusStatus E L now status h))" unfolding onBusStatus_def Let_def
    using adds_trans [OF frame_adds(2) u] adds_trans [OF frame_adds(2) r] by auto
qed

lemma close_adds:
  assumes laws: "lru_laws L valid rd mx"
  shows "adds E valid rd K h (hc_close L h)"
proof -
  let ?h0 = "clearNegative (clearInflight (markClosed h))"
  let ?h1 = "unregisterStaleBudget (clearStale (releaseSeenAndRevisions (releaseGenerations ?h0)))"
  have c: "cfields (markClosed h) = cfields h" "cfields (releaseSeenAndRevisions (releaseGenerations g)) = cfields g"
    "cfields (unregisterStaleBudget g) = cfields g" for g :: "'a HybridCache"
    by (simp_all add: markClosed_def releaseSeenAndRevisions_def releaseGenerations_def unregisterStaleBudget_def Let_def split: option.splits)
  have k: "hc_keeps E valid rd h ?h1"
    by (intro hc_keeps_trans [OF _ unregisterStale_keeps] hc_keeps_trans [OF _ clearStale_keeps] hc_keeps_trans [OF _ release_seen_keeps]
        hc_keeps_trans [OF _ release_generations_keeps] hc_keeps_trans [OF _ clearNegative_keeps] hc_keeps_trans [OF _ clearInflight_keeps])
      (simp add: markClosed_def frame_keeps(7))
  have "contents rd ?h1 \<subseteq> contents rd h"
    by (metis c cfields_contents cfields_inflight(2) clear_less subset_trans)
  then have a: "adds E valid rd K h ?h1" by (rule less_adds [OF k])
  have "adds E valid rd (Pair InL1 ` {}) ?h1 (snd (on_l1 (\<lambda>s. ((), ms_close L s)) () ?h1))"
    by (rule on_l1_adds) (simp_all add: cache_call_adds [OF laws] on_l1_keeps ms_close_keeps [OF laws])
  then show ?thesis using a adds_trans [OF a] by (auto simp: hc_close_def closeResources_def Let_def adds_def)
qed

lemma l1_step_adds: "lru_laws L valid rd mx \<Longrightarrow> adds E valid rd (Pair InL1 ` ms_event_keys e) h (snd (on_l1 (\<lambda>s. ((), ms_step E L e s)) () h))"
  by (rule on_l1_adds) (simp_all add: ms_step_adds l1_step_keeps)

lemma one_key_adds:
  "adds E valid rd {(InStale, key)} h (rememberStale E now key v options reusable h)" "adds E valid rd {(InNegative, key)} h (setNegative E now key options h)"
  by (rule adds_keeps [OF rememberStale_keeps rememberStale_more]) (rule adds_keeps [OF setNegative_keeps setNegative_more])

text \<open>A step adds what \<open>event_adds\<close> names, and a run no more than its steps.\<close>

lemma hc_step_adds:
  assumes laws: "lru_laws L valid rd mx" and legal: "hc_legal e h gs"
  shows "adds E valid rd (event_adds e) h (hc_step E L e h)"
proof (cases "budget_event e")
  case True
  then obtain b where e: "e = HBudget b" by (cases e) auto
  have "contents rd (h\<lparr>hc_budget := Some b\<rparr>) = contents rd h" by (rule cfields_contents) simp
  then show ?thesis using e budget_event_inv [of E valid rd h b gs] legal by (simp add: adds_def)
next
  case False
  have k: "hc_keeps E valid rd h (hc_step E L e h)" by (rule hc_step_keeps [OF laws legal False])
  show ?thesis using k
    by (cases e) (simp_all add: deletion_adds [OF laws] trust_adds [OF laws] close_adds [OF laws] l1_step_adds [OF laws] advance_adds [OF laws]
        saturate_adds [OF laws] same_adds less_adds lookups_less one_key_adds)
qed

lemma run_adds:
  assumes laws: "lru_laws L valid rd mx"
  shows "hc_legal_run E L es s \<Longrightarrow> \<forall>e \<in> set es. event_adds e \<subseteq> K \<Longrightarrow> adds E valid rd K (fst s) (fst (hc_run E L es s))"
proof (induction es arbitrary: s)
  case (Cons e es)
  have "adds E valid rd (event_adds e) (fst s) (hc_step E L e (fst s))" using hc_step_adds [OF laws] Cons.prems(1) by auto
  then have "adds E valid rd K (fst s) (hc_step E L e (fst s))" using Cons.prems(2) by (auto simp: adds_def)
  then show ?case using Cons.IH [of "(hc_step E L e (fst s), hc_guards E L e (fst s) (snd s))"] Cons.prems adds_trans by fastforce
qed simp

end
