(* ===== verification/Cache_Threads.thy ===== *)
theory Cache_Threads
  imports Cache_Contents
begin

text \<open>
  Concurrent operations of one cache. Every segment of an operation is a sequence of the synchronous
  steps of \<open>Cache_Runs\<close>, adds to the local caches at most the key of the operation, and that only while
  the operation's guard is current. A system of operations is any interleaving of their segments.
\<close>

section \<open>Guards of frames\<close>

text \<open>A guard as \<open>observeKey\<close> made it: the signal and the permission to publish are set later.\<close>

definition core :: "MutationGuard \<Rightarrow> MutationGuard" where
  "core g = g\<lparr>mg_signal := None, mg_publicationAllowed := True\<rparr>"

lemma core_simps [simp]:
  "core (g\<lparr>mg_signal := s\<rparr>) = core g" "core (g\<lparr>mg_publicationAllowed := p\<rparr>) = core g" "mg_key (core g) = mg_key g"
  "mg_storageKey (core g) = mg_storageKey g" "core (core g) = core g" "releaseKey (core g) = releaseKey g" "guard_ok (core g) = guard_ok g"
  by (simp_all add: core_def releaseKey_def guard_ok_def fun_eq_iff Let_def)

lemma core_observed [simp]: "core (fst (observeKey E key mutate h)) = fst (observeKey E key mutate h)"
  by (simp add: core_def observeKey_def Let_def)

lemma current_core: "isCurrent g h \<Longrightarrow> isCurrent (core g) h"
  by (simp add: isCurrent_def core_def signal_aborted_def)

fun frame_guard :: "frame \<Rightarrow> MutationGuard option" where
  "frame_guard (WriteL1 g v options e1 e2 c) = Some g"
| "frame_guard (WriteQueued g v options e1 e2 c) = Some g"
| "frame_guard (WriteL2 g v options e1 e2 c) = Some g"
| "frame_guard (ReadL1 g enc) = Some g"
| "frame_guard (ReadQueued g) = Some g"
| "frame_guard (ReadL2 g) = Some g"
| "frame_guard (PromoteHas g v options reuse f) = Some g"
| "frame_guard (Promoted g v options reuse f) = Some g"
| "frame_guard (DeleteL1 g shared) = Some g"
| "frame_guard (DeleteQueued g) = Some g"
| "frame_guard (DeleteL2 g) = Some g"
| "frame_guard (RemoteQueued g options raw generation) = Some g"
| "frame_guard (RemoteL2 g options raw generation) = Some g"
| "frame_guard (RemoteEvicted g) = Some g"
| "frame_guard (Loading g options c) = Some g"
| "frame_guard (PublishQueued g v options xs c) = Some g"
| "frame_guard (PublishL2 g v options xs c) = Some g"
| "frame_guard (WinnerQueued g c) = Some g"
| "frame_guard (WinnerL2 g c) = Some g"
| "frame_guard (PublishedL1 g v options e1 xs c) = Some g"
| "frame_guard (Stored g v options c) = Some g"
| "frame_guard (Leave g r c) = Some g"
| "frame_guard _ = None"

definition frame_guards :: "frame \<Rightarrow> MutationGuard list" where
  "frame_guards f = (case frame_guard f of None \<Rightarrow> [] | Some g \<Rightarrow> [core g])"

definition outcome_guards :: "outcome \<Rightarrow> MutationGuard list" where
  "outcome_guards r = (case r of Await f \<Rightarrow> frame_guards f | Finished _ \<Rightarrow> [])"

text \<open>What an operation may still add: its own key, while its guard is current.\<close>

definition own_keys :: "MutationGuard \<Rightarrow> 'c HybridCache \<Rightarrow> (place \<times> CacheKey) set" where
  "own_keys g h = (if isCurrent (core g) h then {(InL1, mg_storageKey g), (InStale, mg_key g), (InNegative, mg_key g)} else {})"

lemma own_current: "isCurrent g h \<Longrightarrow> own_keys g h = {(InL1, mg_storageKey g), (InStale, mg_key g), (InNegative, mg_key g)}"
  by (simp add: own_keys_def current_core)

section \<open>Moves between awaits\<close>

definition moves :: "'x event_env_scheme \<Rightarrow> 'c lru \<Rightarrow> (place \<times> CacheKey) set \<Rightarrow> 'c HybridCache \<Rightarrow> 'c HybridCache \<Rightarrow> bool" where
  "moves E L K h h' \<longleftrightarrow> (\<exists>es. (\<forall>e \<in> set es. event_adds e \<subseteq> K) \<and> (\<forall>gs. hc_legal_run E L es (h, gs) \<and> hc_run E L es (h, gs) = (h', gs)))"

lemma moves_refl [simp]: "moves E L K h h"
  by (auto simp: moves_def intro!: exI [of _ "[]"])

lemma moves_trans: "moves E L K h g \<Longrightarrow> moves E L K g f \<Longrightarrow> moves E L K h f"
  unfolding moves_def
proof (elim exE)
  fix es fs
  assume "(\<forall>e \<in> set es. event_adds e \<subseteq> K) \<and> (\<forall>gs. hc_legal_run E L es (h, gs) \<and> hc_run E L es (h, gs) = (g, gs))"
    and "(\<forall>e \<in> set fs. event_adds e \<subseteq> K) \<and> (\<forall>gs. hc_legal_run E L fs (g, gs) \<and> hc_run E L fs (g, gs) = (f, gs))"
  then show "\<exists>es. (\<forall>e \<in> set es. event_adds e \<subseteq> K) \<and> (\<forall>gs. hc_legal_run E L es (h, gs) \<and> hc_run E L es (h, gs) = (f, gs))"
    by (intro exI [of _ "es @ fs"]) (auto simp: run_append)
qed

lemma moves_event:
  assumes "\<And>gs. hc_legal e h gs \<and> hc_guards E L e h gs = gs" and "event_adds e \<subseteq> K" and "hc_step E L e h = h'"
  shows "moves E L K h h'"
  using assms unfolding moves_def by (intro exI [of _ "[e]"]) simp

lemma on_l1_step: "snd (on_l1 f d h) = snd (on_l1 (\<lambda>s. ((), snd (f s))) () h)"
  by (simp add: on_l1_def Let_def split: option.splits)

lemma moves_local [simp]:
  "(InStale, key) \<in> K \<Longrightarrow> moves E L K h (rememberStale E now key v options reusable h)"
  "(InNegative, key) \<in> K \<Longrightarrow> moves E L K h (setNegative E now key options h)"
  "moves E L K h (snd (getStale E now key h))" "moves E L K h (removeStale key h)" "moves E L K h (snd (hasNegative now key h))"
  "moves E L K h (removeNegative key h)" "moves E L K h (removeInflight key h)"
  "moves E L K h (advanceGenerationAfterRemoteSet E L now raw generation h)" "moves E L K h (saturateGenerationTracking E L now h)"
  "moves E L K h (h\<lparr>hc_activeLeaders := cs\<rparr>)" "moves E L K h (h\<lparr>hc_aborted := d # hc_aborted h\<rparr>)" "moves E L K h (restoreTrust_end r h)"
  "moves E L K h (deleteByPatternLocal_begin E L now pattern h)" "moves E L K h (snd (onBusStatus E L now status h))"
  by (rule moves_event [of "HRemember now key v options reusable"] moves_event [of "HSetNegative now key options"]
      moves_event [of "HGetStale now key"] moves_event [of "HRemoveStale key"] moves_event [of "HHasNegative now key"]
      moves_event [of "HRemoveNegative key"] moves_event [of "HRemoveInflight key"] moves_event [of "HAdvance now raw generation"]
      moves_event [of "HSaturate now"] moves_event [of "HLead cs"] moves_event [of "HAbort d"] moves_event [of "HRestoreEnd r"]
      moves_event [of "HDeletePattern now pattern"] moves_event [of "HStatus now status"]; simp; fail)+

lemma moves_l1 [simp]:
  "(InL1, key) \<in> K \<Longrightarrow> moves E L K h (snd (l1_setEncoded E L now key buffer options h))"
  "(InL1, key) \<in> K \<Longrightarrow> moves E L K h (snd (l1_set E L now key v options h))"
  "moves E L K h (snd (l1_getEncoded E L now key h))" "moves E L K h (snd (l1_has L now key h))" "moves E L K h (l1_delete L key h)"
proof -
  note l1 = moves_event [of "HL1 _", unfolded hc_step.simps]
  show "(InL1, key) \<in> K \<Longrightarrow> moves E L K h (snd (l1_setEncoded E L now key buffer options h))" unfolding l1_setEncoded_def
    by (subst on_l1_step) (rule moves_event [of "HL1 (MSetEncoded now key buffer options None)"]; simp)
  show "(InL1, key) \<in> K \<Longrightarrow> moves E L K h (snd (l1_set E L now key v options h))" unfolding l1_set_def
    by (subst on_l1_step) (rule moves_event [of "HL1 (MSet now key v options)"]; simp)
  show "moves E L K h (snd (l1_getEncoded E L now key h))" unfolding l1_getEncoded_def
    by (subst on_l1_step) (rule moves_event [of "HL1 (MGetEncoded now key)"]; simp)
  show "moves E L K h (snd (l1_has L now key h))" unfolding l1_has_def
    by (subst on_l1_step) (rule moves_event [of "HL1 (MHas now key)"]; simp)
  show "moves E L K h (l1_delete L key h)" unfolding l1_delete_def
    by (rule moves_event [of "HL1 (MDelete key)"]; simp)
qed

lemma moves_setL1Only [simp]: "(InL1, key) \<in> K \<Longrightarrow> moves E L K h (snd (setL1Only E L now key v options encoded h))"
  by (simp add: setL1Only_def split: option.splits)

section \<open>Segments of an operation\<close>

text \<open>
  What may leave the process: a value for the shared tier or a broadcast only while the guard is current,
  a value or a deletion only under the operation's storage key.
\<close>

fun permits :: "MutationGuard \<Rightarrow> 'c HybridCache \<Rightarrow> l2_command \<Rightarrow> bool" where
  "permits g h (L2SetEncoded key xs) \<longleftrightarrow> key = mg_storageKey g \<and> isCurrent (core g) h"
| "permits g h (L2SetValue key v) \<longleftrightarrow> key = mg_storageKey g \<and> isCurrent (core g) h"
| "permits g h (L2PublishIfOwner key xs) \<longleftrightarrow> key = mg_storageKey g \<and> isCurrent (core g) h"
| "permits g h (BusPublish event) \<longleftrightarrow> isCurrent (core g) h"
| "permits g h (L2Delete key) \<longleftrightarrow> key = mg_storageKey g"
| "permits g h (L2Get key) \<longleftrightarrow> key = mg_storageKey g"
| "permits g h (L2DeletePattern pattern) \<longleftrightarrow> False"

definition segment :: "'x event_env_scheme \<Rightarrow> 'c lru \<Rightarrow> MutationGuard \<Rightarrow> 'c HybridCache \<Rightarrow> 'c op_step \<Rightarrow> bool" where
  "segment E L g h r \<longleftrightarrow>
     (if outcome_guards (fst r) = [] then \<exists>h1. moves E L (own_keys g h) h h1 \<and> snd (snd r) = releaseKey g h1
      else outcome_guards (fst r) = [core g] \<and> moves E L (own_keys g h) h (snd (snd r)))
   \<and> (\<forall>c \<in> set (fst (snd r)). permits g h c)"

lemma segment_await:
  "frame_guard f = Some g' \<Longrightarrow> core g' = core g \<Longrightarrow> moves E L (own_keys g h) h h' \<Longrightarrow> \<forall>c \<in> set cs. permits g h c \<Longrightarrow> segment E L g h (Await f, cs, h')"
  by (simp add: segment_def outcome_guards_def frame_guards_def)

lemma segment_suspend: "frame_guard f = Some g' \<Longrightarrow> core g' = core g \<Longrightarrow> moves E L (own_keys g h) h h' \<Longrightarrow> segment E L g h (suspend f h')"
  by (simp add: suspend_def segment_await)

lemma segment_suspend' [simp]: "frame_guard f = Some g \<Longrightarrow> moves E L (own_keys g h) h h' \<Longrightarrow> segment E L g h (suspend f h')"
  by (rule segment_suspend) auto

lemma segment_leave:
  assumes "moves E L (own_keys g h) h h'"
  shows "segment E L g h (leave g r c h')" "segment E L g h (deleted g h')"
proof -
  have "moves E L (own_keys g h) h (case c of None \<Rightarrow> h' | Some n \<Rightarrow> h'\<lparr>hc_activeLeaders := removeAll n (hc_activeLeaders h')\<rparr>)"
    using assms moves_trans [OF assms moves_local(10)] by (simp split: option.splits)
  then show "segment E L g h (leave g r c h')" by (auto simp: leave_def segment_def outcome_guards_def)
  show "segment E L g h (deleted g h')" using assms
    by (auto simp: deleted_def suspend_def segment_def outcome_guards_def frame_guards_def)
qed

lemma guard_returns [simp]: "frame_guard (write_returns g v options c stored) = Some g" "frame_guard (promote_frame g v options reuse f p) = Some g"
  by (simp_all add: write_returns_def promote_frame_def split: option.splits promotion.splits)

lemma writeValue_segment: "segment E L g h (writeValue E L t g v options c h)"
  by (simp add: writeValue_def Let_def own_current split: sum.splits)

lemma write_commit_segment: "segment E L g h (write_commit E t g v options e1 e2 c h)"
  by (simp add: write_commit_def own_current moves_trans [OF moves_local(1) moves_local(6)])

lemma promoteToL1_moves: "(InL1, key) \<in> K \<Longrightarrow> moves E L K h (snd (promoteToL1 E L t key v options reuse invalidate h))"
  by (simp add: promoteToL1_def bypass_def Let_def split: option.splits sum.splits)

lemma fill_value_segment: "segment E L g h (fill_value E L t g v options reuse f h)"
  by (simp add: fill_value_def Let_def own_current promoteToL1_moves)

lemma promoted_segment: "segment E L g h (promoted E t g v options reuse f h)"
  by (simp add: promoted_def Let_def own_current moves_trans [OF moves_trans [OF moves_local(1) moves_local(6)] moves_local(7)] split: fill.splits)

lemma readValue_segment: "segment E L g h (readValue E L t g h)"
  by (simp add: readValue_def Let_def moves_trans [OF moves_local(5) moves_l1(3)])

lemma read_l1_segment: "segment E L g h (read_l1 E L t g enc h)"
  by (simp add: read_l1_def own_current split: option.splits prod.splits sum.splits DecodedCacheRecord.splits)

lemma read_answer_segment: "segment E L g h (read_answer E L t g a h)"
  by (simp add: read_answer_def Let_def fill_value_segment)

lemma remote_answer_segment: "segment E L g h (remote_answer E L t g options raw generation a h)"
  by (simp add: remote_answer_def Let_def fill_value_segment)

lemma or_stale_moves: "moves E L K h (snd (or_stale E t key options otherwise h))"
  by (simp add: or_stale_def Let_def)

lemma store_loaded_segment: "segment E L g h (store_loaded E L t g options c v leased h)"
  by (simp add: store_loaded_def Let_def own_current writeValue_segment moves_trans [OF moves_local(2) or_stale_moves] split: option.splits)

lemma load_failed_segment: "segment E L g h (load_failed E t g options c e h)"
  by (simp add: load_failed_def Let_def or_stale_moves)

lemma loading_segment: "segment E L g h (loading E L t g options c a h)"
proof (cases a)
  case (Leased d)
  then show ?thesis by (auto simp: loading_def intro!: segment_suspend [of _ "g\<lparr>mg_signal := Some d\<rparr>"])
next
  case Unleased
  then show ?thesis by (auto simp: loading_def intro!: segment_suspend [of _ "g\<lparr>mg_publicationAllowed := False\<rparr>"])
qed (simp_all add: loading_def store_loaded_segment load_failed_segment)

lemma publication_segment: "segment E L g h (publication E L t g v options xs c a h)"
  by (simp add: publication_def Let_def own_current split: sum.splits)

lemma publish_only: "c \<in> set (publishInvalidation event h) \<Longrightarrow> \<exists>e. c = BusPublish e"
  by (auto simp: publishInvalidation_def split: if_splits)

lemma broadcast_only: "c \<in> set (broadcast E t g v options h) \<Longrightarrow> isCurrent g h \<and> (\<exists>e. c = BusPublish e)"
  by (auto simp: broadcast_def Let_def dest: publish_only split: if_splits sum.splits)

lemma broadcast_permits:
  assumes "isCurrent g h1 \<longrightarrow> isCurrent (core g) h"
  shows "\<forall>c \<in> set (broadcast E t g v options h1). permits g h c"
  using assms broadcast_only by fastforce

lemma published_segment: "segment E L g h (published E t g v options e1 xs c h)"
proof (cases "\<not> hc_trusted h \<or> \<not> isCurrent g h")
  case False
  let ?h = "removeNegative (mg_key g) (rememberStale E (tk_now t) (mg_key g) v options (Some (nullish e1 xs)) h)"
  have "\<forall>c \<in> set (broadcast E t g v options ?h). permits g h c"
    using False current_core by (intro broadcast_permits) blast
  then show ?thesis using False
    by (auto simp: published_def Let_def own_current intro!: segment_await moves_trans [OF moves_local(1) moves_local(6)])
qed (simp add: published_def)

lemma queued_segment:
  "frame_guard next = Some g \<Longrightarrow> \<forall>c \<in> set sent. permits g h c \<Longrightarrow> segment E L g h (fallback h) \<Longrightarrow> segment E L g h (queued a sent next fallback h)"
  by (simp add: queued_def segment_await)

lemma resume_segment:
  assumes "frame_guard f = Some g"
  shows "segment E L g h (resume E L t a f h)"
  using assms
  by (cases f) (auto simp: write_commit_segment read_l1_segment read_answer_segment promoted_segment remote_answer_segment loading_segment
      publication_segment published_segment segment_leave current_core Let_def
      intro!: queued_segment segment_leave segment_await broadcast_permits moves_trans [OF moves_local(6) moves_local(4)]
      split: option.splits answer.splits)

section \<open>Segments as runs\<close>

text \<open>The steps of a segment, with the guards that are held before and after it.\<close>

definition simulated :: "'x event_env_scheme \<Rightarrow> 'c lru \<Rightarrow> (place \<times> CacheKey) set \<Rightarrow> MutationGuard list \<Rightarrow> 'c HybridCache \<Rightarrow> MutationGuard list \<Rightarrow> 'c HybridCache \<Rightarrow> bool" where
  "simulated E L K before h after h' \<longleftrightarrow> (\<exists>es. (\<forall>e \<in> set es. event_adds e \<subseteq> K) \<and> (\<forall>gs. mset before \<subseteq># mset gs \<longrightarrow>
     hc_legal_run E L es (h, gs) \<and> fst (hc_run E L es (h, gs)) = h' \<and> mset (snd (hc_run E L es (h, gs))) = mset gs - mset before + mset after))"

lemma simulated_moves: "moves E L K h h' \<Longrightarrow> simulated E L K gs h gs h'"
  unfolding moves_def simulated_def by (elim ex_forward) simp

lemma simulated_trans:
  assumes "simulated E L K before h meanwhile h1" and "simulated E L K meanwhile h1 after h'"
  shows "simulated E L K before h after h'"
proof -
  obtain es where es: "\<forall>e \<in> set es. event_adds e \<subseteq> K" "\<And>gs. mset before \<subseteq># mset gs \<Longrightarrow> hc_legal_run E L es (h, gs) \<and> fst (hc_run E L es (h, gs)) = h1
      \<and> mset (snd (hc_run E L es (h, gs))) = mset gs - mset before + mset meanwhile"
    using assms(1) unfolding simulated_def by blast
  obtain fs where fs: "\<forall>e \<in> set fs. event_adds e \<subseteq> K" "\<And>gs. mset meanwhile \<subseteq># mset gs \<Longrightarrow> hc_legal_run E L fs (h1, gs) \<and> fst (hc_run E L fs (h1, gs)) = h'
      \<and> mset (snd (hc_run E L fs (h1, gs))) = mset gs - mset meanwhile + mset after"
    using assms(2) unfolding simulated_def by blast
  have "hc_legal_run E L (es @ fs) (h, gs) \<and> fst (hc_run E L (es @ fs) (h, gs)) = h'
      \<and> mset (snd (hc_run E L (es @ fs) (h, gs))) = mset gs - mset before + mset after" if gs: "mset before \<subseteq># mset gs" for gs
  proof -
    obtain gs1 where r: "hc_run E L es (h, gs) = (h1, gs1)" and m: "mset gs1 = mset gs - mset before + mset meanwhile"
      using es(2) [OF gs] by (metis prod.collapse)
    show ?thesis using es(2) [OF gs] fs(2) [of gs1] r m by (simp add: run_append)
  qed
  then show ?thesis using es(1) fs(1) unfolding simulated_def by (intro exI [of _ "es @ fs"]) auto
qed

lemmas simulated_after = simulated_trans [OF simulated_moves]

lemma release_simulated: "simulated E L K [core g] h [] (releaseKey g h)"
  unfolding simulated_def
  by (intro exI [of _ "[HRelease (core g)]"]) auto

lemma observe_simulated: "simulated E L K [] h [fst (observeKey E key mutate h)] (snd (observeKey E key mutate h))"
  unfolding simulated_def by (intro exI [of _ "[HObserve key mutate]"]) auto

lemma delete_simulated: "simulated E L K [] h [fst (deleteLocal_begin E L now key generation h)] (snd (deleteLocal_begin E L now key generation h))"
  unfolding simulated_def by (intro exI [of _ "[HDelete now key generation]"]) auto

lemma segment_simulated:
  assumes "segment E L g h r"
  shows "simulated E L (own_keys g h) [core g] h (outcome_guards (fst r)) (snd (snd r))"
proof (cases "outcome_guards (fst r) = []")
  case True
  then obtain h1 where "moves E L (own_keys g h) h h1" "snd (snd r) = releaseKey g h1" using assms by (auto simp: segment_def)
  then show ?thesis using simulated_after release_simulated True by metis
qed (use assms in \<open>auto simp: segment_def intro: simulated_moves\<close>)

fun delete_frame :: "frame \<Rightarrow> bool" where
  "delete_frame (DeleteL1 g shared) = True"
| "delete_frame (DeleteQueued g) = True"
| "delete_frame (DeleteL2 g) = True"
| "delete_frame _ = False"

definition frame_adds :: "frame \<Rightarrow> 'c HybridCache \<Rightarrow> (place \<times> CacheKey) set" where
  "frame_adds f h = (case frame_guard f of None \<Rightarrow> {} | Some g \<Rightarrow> if delete_frame f then {} else own_keys g h)"

lemma core_deleted [simp]: "core (fst (deleteLocal_begin E L now key generation h)) = fst (deleteLocal_begin E L now key generation h)"
  by (simp add: deleteLocal_split)

lemmas outcome_simps = outcome_guards_def frame_guards_def suspend_def deleting_def queued_def leave_def deleted_def

lemma resume_simulated:
  "simulated E L (frame_adds f h) (frame_guards f) h (outcome_guards (fst (resume E L t a f h))) (snd (snd (resume E L t a f h)))"
proof (cases "frame_guard f")
  case (Some g)
  show ?thesis
  proof (cases "delete_frame f")
    case True
    then show ?thesis by (cases f) (simp_all add: frame_adds_def outcome_simps simulated_moves release_simulated)
  qed (use Some segment_simulated [OF resume_segment [OF Some]] in \<open>simp add: frame_adds_def frame_guards_def\<close>)
next
  case None
  then show ?thesis by (cases f) (simp_all add: frame_adds_def outcome_simps simulated_moves delete_simulated)
qed

section \<open>Starting operations\<close>

text \<open>
  The operations a caller or the bus can start. The last three are the eviction of the numeric alias of
  a remotely deleted key (\<open>deleteLocalOnly\<close> alone), the pattern of a remote event and a change of the bus
  status, whose restoration of trust goes on after an await.
\<close>

datatype operation = OpSet CacheKey jsval CacheOptions | OpGet CacheKey | OpLoad CacheKey CacheOptions nat | OpDelete CacheKey
  | OpDeletePattern jsstr | OpRemoteDelete jsstr CacheKey "int option" | OpRemoteSet jsstr CacheKey jsval "jsnum option" "int option"
  | OpEvict CacheKey "int option" | OpRemotePattern jsstr | OpStatus bus_status

fun start :: "'x op_env_scheme \<Rightarrow> 'c lru \<Rightarrow> tick \<Rightarrow> operation \<Rightarrow> 'c HybridCache \<Rightarrow> 'c op_step" where
  "start E L t (OpSet key v options) h = hc_set E L t key v options h"
| "start E L t (OpGet key) h = hc_get E L t key h"
| "start E L t (OpLoad key options c) h = hc_load E t key options c h"
| "start E L t (OpDelete key) h = hc_delete E L t key h"
| "start E L t (OpDeletePattern pattern) h = hc_deleteByPattern E L t pattern h"
| "start E L t (OpRemoteDelete raw key generation) h = remote_delete E L t raw key generation h"
| "start E L t (OpRemoteSet raw key v ttl generation) h =
     (if accepts_remote_set h then remote_set E L t raw key v ttl generation h else (Finished RUnit, [], h))"
| "start E L t (OpEvict key generation) h = deleting False (deleteLocal_begin E L (tk_now t) key generation h)"
| "start E L t (OpRemotePattern pattern) h = suspend (PatternL1 pattern False) (deleteByPatternLocal_begin E L (tk_now t) pattern h)"
| "start E L t (OpStatus status) h = (let r = onBusStatus E L (tk_now t) status h in
     case fst r of None \<Rightarrow> (Finished RUnit, [], snd r) | Some revision \<Rightarrow> suspend (Restoring revision) (snd r))"

text \<open>The key an operation may fill.\<close>

fun op_fills :: "operation \<Rightarrow> CacheKey option" where
  "op_fills (OpSet key v options) = Some key"
| "op_fills (OpGet key) = Some key"
| "op_fills (OpLoad key options c) = Some key"
| "op_fills (OpRemoteSet raw key v ttl generation) = Some key"
| "op_fills _ = None"

text \<open>Where no versions are kept an entry is stored under its own key.\<close>

definition op_adds :: "operation \<Rightarrow> 'c HybridCache \<Rightarrow> (place \<times> CacheKey) set" where
  "op_adds p h = (case op_fills p of None \<Rightarrow> {} | Some key \<Rightarrow> UNIV \<times> {k. k = key \<or> versioned h})"

lemma simulated_mono: "simulated E L K gs h gs' h' \<Longrightarrow> K \<subseteq> K' \<Longrightarrow> simulated E L K' gs h gs' h'"
  unfolding simulated_def by blast

lemma ages_options: "ages h h' \<Longrightarrow> hc_options h' = hc_options h"
  by (simp add: ages_def)

lemma versioned_ages: "ages h h' \<Longrightarrow> versioned h' = versioned h"
  by (simp add: ages_options versioned_def own_def)

lemma observe_names: "mg_key (fst (observeKey E key mutate h)) = key" "\<not> versioned h \<Longrightarrow> mg_storageKey (fst (observeKey E key mutate h)) = key"
proof -
  show "mg_key (fst (observeKey E key mutate h)) = key" by (simp add: observeKey_def Let_def)
  have "mg_storageKey (fst (observeKey E key mutate h)) = toStorageKey E key (snd (observeKey E key mutate h))"
    by (simp add: observeKey_def Let_def)
  then show "\<not> versioned h \<Longrightarrow> mg_storageKey (fst (observeKey E key mutate h)) = key"
    by (simp add: toStorageKey_def versioned_ages [OF observeKey_ages])
qed

lemma own_op:
  assumes "versioned h' = versioned h"
  shows "own_keys (fst (observeKey E key mutate h')) g \<subseteq> UNIV \<times> {k. k = key \<or> versioned h}"
  using assms by (auto simp: own_keys_def observe_names)

lemma segment_started:
  assumes "segment E L (fst (observeKey E key mutate h1)) (snd (observeKey E key mutate h1)) r" and "moves E L {} h h1" and "versioned h1 = versioned h"
  shows "simulated E L (UNIV \<times> {k. k = key \<or> versioned h}) [] h (outcome_guards (fst r)) (snd (snd r))"
proof -
  let ?K = "UNIV \<times> {k. k = key \<or> versioned h}"
  have "simulated E L ?K [fst (observeKey E key mutate h1)] (snd (observeKey E key mutate h1)) (outcome_guards (fst r)) (snd (snd r))"
    using simulated_mono [OF segment_simulated [OF assms(1)] own_op [OF assms(3)]] by simp
  then have "simulated E L ?K [] h1 (outcome_guards (fst r)) (snd (snd r))" by (rule simulated_trans [OF observe_simulated])
  moreover have "simulated E L ?K [] h [] h1" using simulated_mono [OF simulated_moves [OF assms(2)]] by blast
  ultimately show ?thesis by (rule simulated_trans [rotated])
qed

lemma refused_simulated: "moves E L K h h' \<Longrightarrow> simulated E L K [] h (outcome_guards (Finished r)) h'"
  by (simp add: outcome_guards_def simulated_moves)

lemma start_writes:
  "simulated E L (UNIV \<times> {k. k = key \<or> versioned h}) [] h (outcome_guards (fst (hc_set E L t key v options h))) (snd (snd (hc_set E L t key v options h)))"
  "simulated E L (UNIV \<times> {k. k = key \<or> versioned h}) [] h (outcome_guards (fst (hc_get E L t key h))) (snd (snd (hc_get E L t key h)))"
  by (simp_all add: hc_set_def hc_get_def refused_def Let_def refused_simulated
      segment_started [OF writeValue_segment moves_refl refl] segment_started [OF readValue_segment moves_refl refl] split: option.splits)

lemma start_load:
  "simulated E L (UNIV \<times> {k. k = key \<or> versioned h}) [] h (outcome_guards (fst (hc_load E t key options c h))) (snd (snd (hc_load E t key options c h)))"
proof -
  have "segment E L (fst (observeKey E key False h)) (snd (observeKey E key False h)) (suspend (Loading ((fst (observeKey E key False h))\<lparr>mg_signal := Some c\<rparr>) options c)
      ((snd (observeKey E key False h))\<lparr>hc_activeLeaders := hc_activeLeaders (snd (observeKey E key False h)) @ [c]\<rparr>))"
    by (rule segment_suspend [of _ "(fst (observeKey E key False h))\<lparr>mg_signal := Some c\<rparr>"]) (simp_all add: core_observed)
  from segment_started [OF this, of h] show ?thesis
    by (simp add: hc_load_def refused_def Let_def refused_simulated or_stale_moves)
qed

lemma start_remote:
  "simulated E L {} [] h (outcome_guards (fst (remote_delete E L t raw key generation h))) (snd (snd (remote_delete E L t raw key generation h)))"
  "simulated E L (UNIV \<times> {k. k = key \<or> versioned h}) [] h (outcome_guards (fst (remote_set E L t raw key v ttl generation h)))
     (snd (snd (remote_set E L t raw key v ttl generation h)))"
proof -
  show "simulated E L {} [] h (outcome_guards (fst (remote_delete E L t raw key generation h))) (snd (snd (remote_delete E L t raw key generation h)))"
    by (simp add: remote_delete_def outcome_simps simulated_moves delete_simulated)
  let ?h = "advanceGenerationAfterRemoteSet E L (tk_now t) raw generation h"
  have v: "versioned ?h = versioned h" by (rule versioned_ages [OF advance_ages(2)])
  have s: "simulated E L (UNIV \<times> {k. k = key \<or> versioned h}) [] h (outcome_guards (fst r)) (snd (snd r))"
    if "segment E L (fst (observeKey E key True ?h)) (snd (observeKey E key True ?h)) r" for r
    by (rule segment_started [OF that _ v]) simp
  show "simulated E L (UNIV \<times> {k. k = key \<or> versioned h}) [] h (outcome_guards (fst (remote_set E L t raw key v ttl generation h)))
     (snd (snd (remote_set E L t raw key v ttl generation h)))"
    unfolding remote_set_def Let_def by (auto simp: outcome_guards_def [of "Finished _"] simulated_moves intro!: s fill_value_segment)
qed

lemma start_simulated:
  "simulated E L (op_adds p h) [] h (outcome_guards (fst (start E L t p h))) (snd (snd (start E L t p h)))"
proof (cases p)
  case (OpDelete key)
  then show ?thesis by (simp add: op_adds_def hc_delete_def refused_def outcome_simps simulated_moves delete_simulated)
next
  case (OpEvict key generation)
  then show ?thesis by (simp add: op_adds_def outcome_simps delete_simulated)
next
  case (OpRemoteSet raw key v ttl generation)
  then show ?thesis by (simp add: op_adds_def start_remote refused_simulated)
next
  case (OpStatus status)
  then show ?thesis by (simp add: op_adds_def outcome_simps simulated_moves Let_def split: option.splits)
next
  case (OpDeletePattern pattern)
  then show ?thesis by (simp add: op_adds_def hc_deleteByPattern_def refused_def outcome_simps simulated_moves)
next
  case (OpRemotePattern pattern)
  then show ?thesis by (simp add: op_adds_def outcome_simps simulated_moves)
qed (simp_all add: op_adds_def start_writes start_load start_remote)

lemma start_sends: "fst (snd (start E L t p h)) = []"
proof -
  have w: "fst (snd (writeValue E L t g v options c h)) = []" for g v options c h
    by (simp add: writeValue_def Let_def suspend_def split: sum.splits)
  have r: "fst (snd (readValue E L t g h)) = []" for g h by (simp add: readValue_def Let_def suspend_def)
  have f: "fst (snd (fill_value E L t g v options reuse fl h)) = []" for g v options reuse fl h
    by (simp add: fill_value_def Let_def suspend_def)
  show ?thesis by (cases p) (simp_all add: hc_set_def hc_get_def hc_load_def hc_delete_def hc_deleteByPattern_def remote_delete_def remote_set_def
      refused_def suspend_def deleting_def Let_def w r f split: option.splits)
qed

section \<open>Systems of operations\<close>

text \<open>
  A cache, the operations that wait, and what was sent to the shared tier and the bus so far. \<open>Other\<close> is
  a step of the rest of the process: the followers of a load, event de-duplication, eviction, aborts,
  the other users of the budget, closing.
\<close>

record 'c sys =
  sy_cache :: "'c HybridCache"
  sy_live :: "frame list"
  sy_sent :: "l2_command list"

datatype move = Begin tick operation | Resume nat tick answer | Other hc_event

definition settled :: "'c op_step \<Rightarrow> frame list \<Rightarrow> 'c sys \<Rightarrow> 'c sys" where
  "settled r waiting s = \<lparr>sy_cache = snd (snd r), sy_live = (case fst r of Await f \<Rightarrow> f # waiting | Finished _ \<Rightarrow> waiting), sy_sent = sy_sent s @ fst (snd r)\<rparr>"

fun sys_move :: "'x op_env_scheme \<Rightarrow> 'c lru \<Rightarrow> move \<Rightarrow> 'c sys \<Rightarrow> 'c sys" where
  "sys_move E L (Begin t p) s = settled (start E L t p (sy_cache s)) (sy_live s) s"
| "sys_move E L (Resume i t a) s = (if i < length (sy_live s)
     then settled (resume E L t a (sy_live s ! i) (sy_cache s)) (take i (sy_live s) @ drop (Suc i) (sy_live s)) s else s)"
| "sys_move E L (Other e) s = s\<lparr>sy_cache := hc_step E L e (sy_cache s)\<rparr>"

fun other_event :: "hc_event \<Rightarrow> bool" where
  "other_event (HObserve key mutate) = False"
| "other_event (HRelease g) = False"
| "other_event (HDelete now key generation) = False"
| "other_event e = (event_adds e = {})"

fun sys_legal :: "move \<Rightarrow> 'c sys \<Rightarrow> bool" where
  "sys_legal (Other e) s \<longleftrightarrow> other_event e \<and> hc_legal e (sy_cache s) []"
| "sys_legal _ s \<longleftrightarrow> True"

fun sys_run :: "'x op_env_scheme \<Rightarrow> 'c lru \<Rightarrow> move list \<Rightarrow> 'c sys \<Rightarrow> 'c sys" where
  "sys_run E L [] s = s"
| "sys_run E L (m # ms) s = sys_run E L ms (sys_move E L m s)"

fun sys_legal_run :: "'x op_env_scheme \<Rightarrow> 'c lru \<Rightarrow> move list \<Rightarrow> 'c sys \<Rightarrow> bool" where
  "sys_legal_run E L [] s \<longleftrightarrow> True"
| "sys_legal_run E L (m # ms) s \<longleftrightarrow> sys_legal m s \<and> sys_legal_run E L ms (sys_move E L m s)"

definition guards :: "'c sys \<Rightarrow> MutationGuard list" where
  "guards s = concat (map frame_guards (sy_live s))"

fun move_adds :: "move \<Rightarrow> 'c sys \<Rightarrow> (place \<times> CacheKey) set" where
  "move_adds (Begin t p) s = op_adds p (sy_cache s)"
| "move_adds (Resume i t a) s = (if i < length (sy_live s) then frame_adds (sy_live s ! i) (sy_cache s) else {})"
| "move_adds (Other e) s = {}"

lemma other_facts: "other_event e \<Longrightarrow> event_adds e = {} \<and> (\<forall>gs. hc_guards E L e h gs = gs) \<and> (hc_legal e h gs = hc_legal e h gs')"
  by (cases e) simp_all

lemma other_simulated: "other_event e \<Longrightarrow> hc_legal e h [] \<Longrightarrow> moves E L {} h (hc_step E L e h)"
  using other_facts [of e E L h] by (intro moves_event) auto

lemma settled_guards: "guards (settled r waiting s) = outcome_guards (fst r) @ concat (map frame_guards waiting)"
  by (simp add: guards_def settled_def outcome_guards_def split: outcome.splits)

lemma settled_simps [simp]: "sy_cache (settled r waiting s) = snd (snd r)" "sy_sent (settled r waiting s) = sy_sent s @ fst (snd r)"
  by (simp_all add: settled_def)

lemma split_live: "i < length xs \<Longrightarrow> mset (concat (map frame_guards xs)) = mset (frame_guards (xs ! i)) + mset (concat (map frame_guards (take i xs @ drop (Suc i) xs)))"
  by (subst (1) id_take_nth_drop [of i xs]) auto

text \<open>A move of the system, as steps of the cache.\<close>

lemma move_simulated:
  assumes "sys_legal m s"
  shows "\<exists>es. (\<forall>e \<in> set es. event_adds e \<subseteq> move_adds m s) \<and> (\<forall>gs. mset gs = mset (guards s) \<longrightarrow> hc_legal_run E L es (sy_cache s, gs)
    \<and> fst (hc_run E L es (sy_cache s, gs)) = sy_cache (sys_move E L m s) \<and> mset (snd (hc_run E L es (sy_cache s, gs))) = mset (guards (sys_move E L m s)))"
proof -
  have run: ?thesis if "simulated E L (move_adds m s) before (sy_cache s) after (sy_cache (sys_move E L m s))"
    "mset (guards s) = mset before + mset rest" "mset (guards (sys_move E L m s)) = mset after + mset rest" for before after rest
    using that(1) unfolding simulated_def by (elim ex_forward) (auto simp: that(2,3))
  show ?thesis
  proof (cases m)
    case (Begin t p)
    let ?r = "start E L t p (sy_cache s)"
    have "mset (guards (settled ?r (sy_live s) s)) = mset (outcome_guards (fst ?r)) + mset (guards s)"
      unfolding settled_guards by (simp add: guards_def)
    then show ?thesis using Begin run [of "[]" "outcome_guards (fst ?r)" "guards s"] start_simulated [of E L p "sy_cache s" t] by simp
  next
    case (Resume i t a)
    show ?thesis
    proof (cases "i < length (sy_live s)")
      case True
      let ?f = "sy_live s ! i" and ?rest = "take i (sy_live s) @ drop (Suc i) (sy_live s)"
      let ?r = "resume E L t a ?f (sy_cache s)"
      have "mset (guards s) = mset (frame_guards ?f) + mset (concat (map frame_guards ?rest))" using split_live [OF True] by (simp add: guards_def)
      moreover have "mset (guards (settled ?r ?rest s)) = mset (outcome_guards (fst ?r)) + mset (concat (map frame_guards ?rest))"
        unfolding settled_guards by simp
      ultimately show ?thesis using True Resume run [of "frame_guards ?f" "outcome_guards (fst ?r)" "concat (map frame_guards ?rest)"]
          resume_simulated [of E L ?f "sy_cache s" t a] by simp
    next
      case False
      then show ?thesis using Resume run [of "[]" "[]" "guards s"] by (simp add: simulated_moves)
    qed
  next
    case (Other e)
    then show ?thesis using assms run [of "[]" "[]" "guards s"] by (simp add: simulated_moves other_simulated guards_def)
  qed
qed

end
