(* ===== verification/Cache_Concurrency.thy ===== *)
theory Cache_Concurrency
  imports Cache_Threads
begin

text \<open>
  What holds of every interleaving of the operations of one cache: it refines the runs of synchronous
  steps (so the byte ledger is exact and nothing leaks), an operation that was overtaken commits
  nothing, a deleted key stays deleted until an operation started later fills it, and every operation
  ends after a bounded number of awaits.
\<close>

section \<open>Invariant of a system\<close>

definition sys_inv :: "'x op_env_scheme \<Rightarrow> ('c \<Rightarrow> bool) \<Rightarrow> ('c \<Rightarrow> (CacheKey \<times> Entry) list) \<Rightarrow> 'c sys \<Rightarrow> bool" where
  "sys_inv E valid rd s \<longleftrightarrow> run_ok E valid rd (sy_cache s, guards s)"

definition new_sys :: "'c HybridCache \<Rightarrow> 'c sys" where
  "new_sys h = \<lparr>sy_cache = h, sy_live = [], sy_sent = []\<rparr>"

lemma holders_mset: "holders gs i = int (size (filter_mset (\<lambda>g. mg_state g = i) (mset gs)))"
  by (simp add: holders_def flip: size_mset)

lemma refs_mset: "mset gs = mset gs' \<Longrightarrow> refs_ok gs h = refs_ok gs' h"
  using mset_eq_setD [of gs gs'] by (simp add: refs_ok_def holders_mset)

lemma move_step:
  assumes laws: "lru_laws L valid rd mx" and legal: "sys_legal m s" and inv: "sys_inv E valid rd s"
  shows "sys_inv E valid rd (sys_move E L m s)" and "ages (sy_cache s) (sy_cache (sys_move E L m s))"
    and "contents rd (sy_cache (sys_move E L m s)) \<subseteq> contents rd (sy_cache s) \<union> move_adds m s"
proof -
  obtain es where es: "\<forall>e \<in> set es. event_adds e \<subseteq> move_adds m s" "hc_legal_run E L es (sy_cache s, guards s)"
    "fst (hc_run E L es (sy_cache s, guards s)) = sy_cache (sys_move E L m s)"
    "mset (snd (hc_run E L es (sy_cache s, guards s))) = mset (guards (sys_move E L m s))"
    using move_simulated [OF legal, of E L] by blast
  have r: "run_ok E valid rd (hc_run E L es (sy_cache s, guards s))" "ages (sy_cache s) (sy_cache (sys_move E L m s))"
    using run_ok_run [OF laws _ es(2)] inv es(3) by (simp_all add: sys_inv_def)
  then show "sys_inv E valid rd (sys_move E L m s)" using refs_mset [OF es(4), of "sy_cache (sys_move E L m s)"] es(3) by (simp add: sys_inv_def run_ok_def)
  show "ages (sy_cache s) (sy_cache (sys_move E L m s))" by (rule r(2))
  show "contents rd (sy_cache (sys_move E L m s)) \<subseteq> contents rd (sy_cache s) \<union> move_adds m s"
    using run_adds [OF laws es(2,1)] inv es(3) by (simp add: adds_def sys_inv_def run_ok_def)
qed

lemma sys_run_inv: "lru_laws L valid rd mx \<Longrightarrow> sys_legal_run E L ms s \<Longrightarrow> sys_inv E valid rd s \<Longrightarrow> sys_inv E valid rd (sys_run E L ms s)"
proof (induction ms arbitrary: s)
  case (Cons m ms)
  then show ?case using move_step(1) [OF Cons.prems(1)] by auto
qed simp

lemma sys_run_append: "sys_run E L (xs @ ys) s = sys_run E L ys (sys_run E L xs s)"
  "sys_legal_run E L (xs @ ys) s \<longleftrightarrow> sys_legal_run E L xs s \<and> sys_legal_run E L ys (sys_run E L xs s)"
  by (induction xs arbitrary: s) auto

lemma new_sys_inv:
  assumes "lru_laws L valid rd mx" and "newHybridCache L options source builtinL1 hasL2 given signals cur l1Client staleClient = Inr h0"
    and "\<forall>m. hc_l1 h0 = Some m \<longrightarrow> ms_maxEntries m = mx" and "\<forall>b. given = Some b \<or> cur = Some b \<longrightarrow> budget_ok b"
  shows "sys_inv E valid rd (new_sys h0)"
  using newHybridCache_ok [OF assms(2,4)] assms(1,3) by (simp add: sys_inv_def new_sys_def guards_def)

lemma run_simulated:
  assumes "sys_legal_run E L ms s" and "mset gs = mset (guards s)"
  shows "\<exists>es gs'. hc_legal_run E L es (sy_cache s, gs) \<and> hc_run E L es (sy_cache s, gs) = (sy_cache (sys_run E L ms s), gs')
    \<and> mset gs' = mset (guards (sys_run E L ms s))"
  using assms
proof (induction ms arbitrary: s gs)
  case Nil
  show ?case by (rule exI [of _ "[]"]) (simp add: Nil)
next
  case (Cons m ms)
  obtain es gs1 where es: "hc_legal_run E L es (sy_cache s, gs)" "hc_run E L es (sy_cache s, gs) = (sy_cache (sys_move E L m s), gs1)"
    "mset gs1 = mset (guards (sys_move E L m s))"
    using move_simulated [of m s E L] Cons.prems by (metis prod.collapse sys_legal_run.simps(2))
  obtain fs gs2 where "hc_legal_run E L fs (sy_cache (sys_move E L m s), gs1)"
    "hc_run E L fs (sy_cache (sys_move E L m s), gs1) = (sy_cache (sys_run E L ms (sys_move E L m s)), gs2)"
    "mset gs2 = mset (guards (sys_run E L ms (sys_move E L m s)))" using Cons.IH [OF _ es(3)] Cons.prems by auto
  then show ?case using es by (intro exI [of _ "es @ fs"] exI [of _ gs2]) (simp add: run_append)
qed

section \<open>Overtaken operations\<close>

text \<open>The key under which a command stores a value in the shared tier.\<close>

fun stored_key :: "l2_command \<Rightarrow> CacheKey option" where
  "stored_key (L2SetEncoded key xs) = Some key"
| "stored_key (L2SetValue key v) = Some key"
| "stored_key (L2PublishIfOwner key xs) = Some key"
| "stored_key _ = None"

lemma permits_stored: "permits g h c \<Longrightarrow> stored_key c = Some key \<Longrightarrow> key = mg_storageKey g \<and> isCurrent (core g) h"
  by (cases c) auto

lemma resume_sends:
  assumes "c \<in> set (fst (snd (resume E L t a f h)))" and "stored_key c = Some key"
  shows "\<exists>g. frame_guard f = Some g \<and> key = mg_storageKey g \<and> isCurrent (core g) h \<and> \<not> delete_frame f"
proof (cases "frame_guard f")
  case (Some g)
  have "\<not> delete_frame f" using assms by (cases f) (auto simp: outcome_simps split: if_splits)
  then show ?thesis using Some resume_segment [OF Some, of E L h t a] assms permits_stored [of g h c key] by (auto simp: segment_def)
next
  case None
  then show ?thesis using assms
    by (cases f) (auto simp: queued_def suspend_def deleting_def split: if_splits dest!: publish_only)
qed

lemma move_sends:
  assumes "c \<in> set (drop (length (sy_sent s)) (sy_sent (sys_move E L m s)))" and "stored_key c = Some key"
  shows "\<exists>f g. f \<in> set (sy_live s) \<and> frame_guard f = Some g \<and> key = mg_storageKey g \<and> isCurrent (core g) (sy_cache s) \<and> \<not> delete_frame f"
proof (cases m)
  case (Resume i t a)
  then show ?thesis using assms resume_sends [of c E L t a "sy_live s ! i" "sy_cache s" key] nth_mem [of i "sy_live s"]
    by (fastforce split: if_splits)
qed (use assms in \<open>simp_all add: start_sends\<close>)

lemma move_sent: "\<exists>cs. sy_sent (sys_move E L m s) = sy_sent s @ cs"
  by (cases m) simp_all

text \<open>The frames of a system after a move: those that wait on, and the continuation of the segment.\<close>

lemma resume_frame:
  assumes "fst (resume E L t a f h) = Await f'" and "frame_guard f' = Some g'"
  shows "(\<exists>g. frame_guard f = Some g \<and> core g' = core g \<and> (delete_frame f \<longrightarrow> delete_frame f')) \<or> delete_frame f' \<and> frame_guard f = None"
proof (cases "frame_guard f")
  case (Some g)
  have "core g' = core g" using resume_segment [OF Some, of E L h t a] assms
    by (simp add: segment_def outcome_guards_def frame_guards_def)
  moreover have "delete_frame f \<Longrightarrow> delete_frame f'" using assms by (cases f) (auto simp: outcome_simps split: if_splits)
  ultimately show ?thesis using Some by blast
next
  case None
  then show ?thesis using assms by (cases f) (auto simp: outcome_simps split: if_splits)
qed

lemma move_live:
  assumes "f' \<in> set (sy_live (sys_move E L m s))"
  shows "f' \<in> set (sy_live s) \<or> (\<exists>t p. m = Begin t p \<and> fst (start E L t p (sy_cache s)) = Await f')
    \<or> (\<exists>i t a. m = Resume i t a \<and> i < length (sy_live s) \<and> fst (resume E L t a (sy_live s ! i) (sy_cache s)) = Await f')"
  using assms by (cases m) (auto simp: settled_def split: outcome.splits if_splits dest: in_set_takeD in_set_dropD)

section \<open>Keys under which guards store\<close>

text \<open>A guard taken for \<open>key\<close>; without versions it stores under the key itself.\<close>

definition taken_for :: "CacheKey \<Rightarrow> 'c HybridCache \<Rightarrow> MutationGuard \<Rightarrow> bool" where
  "taken_for key h g \<longleftrightarrow> mg_key g = key \<and> (\<not> versioned h \<longrightarrow> mg_storageKey g = key)"

lemma taken_core: "taken_for key h (core g) = taken_for key h g"
  by (simp add: taken_for_def)

lemma taken_observed: "versioned h' = versioned h \<Longrightarrow> taken_for key h (fst (observeKey E key mutate h'))"
  by (simp add: taken_for_def observe_names)

lemma taken_segment:
  assumes "segment E L (fst (observeKey E key mutate h')) h1 r" and "fst r = Await f" and "frame_guard f = Some g" and "versioned h' = versioned h"
  shows "taken_for key h g"
proof -
  have "core g = fst (observeKey E key mutate h')" using assms(1-3) by (simp add: segment_def outcome_guards_def frame_guards_def)
  then show ?thesis using taken_observed [OF assms(4)] taken_core by metis
qed

lemma start_guard:
  assumes a: "fst (start E L t p h) = Await f" and g: "frame_guard f = Some g"
  shows "(delete_frame f \<or> op_fills p = Some (mg_key g)) \<and> taken_for (mg_key g) h g"
proof -
  have fill: ?thesis if "op_fills p = Some key" "taken_for key h g" for key using that by (simp add: taken_for_def)
  have del: ?thesis if "f = DeleteL1 (fst (deleteLocal_begin E L now key generation h)) shared" for now key generation shared
    using that g taken_observed [OF refl, of key h E True] by (auto simp: deleteLocal_split taken_for_def)
  show ?thesis
  proof (cases p)
    case (OpSet key v options)
    then have "fst (writeValue E L t (fst (observeKey E key True h)) v options None (snd (observeKey E key True h))) = Await f"
      using a by (auto simp: hc_set_def refused_def Let_def split: if_splits option.splits)
    then show ?thesis using OpSet taken_segment [OF writeValue_segment _ g refl] by (intro fill) auto
  next
    case (OpGet key)
    then have "fst (readValue E L t (fst (observeKey E key False h)) (snd (observeKey E key False h))) = Await f"
      using a by (auto simp: hc_get_def Let_def refused_def split: if_splits)
    then show ?thesis using OpGet taken_segment [OF readValue_segment _ g refl] by (intro fill) auto
  next
    case (OpLoad key options c)
    then have "g = (fst (observeKey E key False h))\<lparr>mg_signal := Some c\<rparr>" using a g
      by (auto simp: hc_load_def refused_def suspend_def Let_def split: if_splits)
    then show ?thesis using OpLoad taken_observed [OF refl, of key h E False] by (intro fill) (auto simp: taken_for_def)
  next
    case (OpRemoteSet raw key v ttl generation)
    let ?h = "advanceGenerationAfterRemoteSet E L (tk_now t) raw generation h"
    let ?g = "fst (observeKey E key True ?h)" and ?h1 = "snd (observeKey E key True ?h)"
    have v: "versioned ?h = versioned h" by (rule versioned_ages [OF advance_ages(2)])
    have "fst (fill_value E L t ?g v (remote_set_options ttl h) None (FillRemote raw generation) ?h1) = Await f
        \<or> f = RemoteQueued ?g (remote_set_options ttl h) raw generation"
      using a OpRemoteSet by (auto simp: remote_set_def suspend_def Let_def split: if_splits)
    then show ?thesis using OpRemoteSet g taken_observed [OF v, of key E True] taken_segment [OF fill_value_segment _ g v] by (intro fill) auto
  qed (use a g del in \<open>auto simp: hc_delete_def hc_deleteByPattern_def remote_delete_def refused_def suspend_def deleting_def Let_def
        split: if_splits option.splits\<close>)
qed

section \<open>A deleted key\<close>

text \<open>
  The local caches hold nothing under \<open>key\<close>, and every waiting operation on it is either a deletion or
  overtaken.
\<close>

definition gone :: "('c \<Rightarrow> (CacheKey \<times> Entry) list) \<Rightarrow> CacheKey \<Rightarrow> 'c sys \<Rightarrow> bool" where
  "gone rd key s \<longleftrightarrow> (\<forall>p. (p, key) \<notin> contents rd (sy_cache s))
     \<and> (\<forall>f \<in> set (sy_live s). \<forall>g. frame_guard f = Some g \<longrightarrow> mg_key g = key \<longrightarrow> delete_frame f \<or> \<not> isCurrent (core g) (sy_cache s))"

definition plain_guards :: "'c sys \<Rightarrow> bool" where
  "plain_guards s \<longleftrightarrow> \<not> versioned (sy_cache s) \<and> (\<forall>f \<in> set (sy_live s). \<forall>g. frame_guard f = Some g \<longrightarrow> mg_storageKey g = mg_key g)"

lemma plain_move:
  assumes "plain_guards s" and "versioned (sy_cache (sys_move E L m s)) = versioned (sy_cache s)"
  shows "plain_guards (sys_move E L m s)"
proof -
  have "mg_storageKey g = mg_key g" if f: "f \<in> set (sy_live (sys_move E L m s))" and g: "frame_guard f = Some g" for f g
    using move_live [OF f]
  proof (elim disjE exE conjE)
    fix t p assume "fst (start E L t p (sy_cache s)) = Await f"
    then show ?thesis using start_guard [OF _ g, of E L t p "sy_cache s"] assms(1) by (simp add: plain_guards_def taken_for_def)
  next
    fix i t a assume i: "i < length (sy_live s)" and r: "fst (resume E L t a (sy_live s ! i) (sy_cache s)) = Await f"
    show ?thesis using resume_frame [OF r g]
    proof (elim disjE exE conjE)
      fix g0 assume "frame_guard (sy_live s ! i) = Some g0" "core g = core g0"
      then show ?thesis using assms(1) i core_simps(3,4) [of g] core_simps(3,4) [of g0] by (fastforce simp: plain_guards_def)
    next
      assume "delete_frame f" "frame_guard (sy_live s ! i) = None"
      then show ?thesis using r g assms(1)
        by (cases "sy_live s ! i") (auto simp: outcome_simps plain_guards_def deleteLocal_split observe_names split: if_splits)
    qed
  qed (use assms(1) g in \<open>auto simp: plain_guards_def\<close>)
  then show ?thesis using assms by (simp add: plain_guards_def)
qed

lemma live_guard_ok: "sys_inv E valid rd s \<Longrightarrow> f \<in> set (sy_live s) \<Longrightarrow> frame_guard f = Some g \<Longrightarrow> guard_ok (core g) (sy_cache s)"
  unfolding sys_inv_def run_ok_def refs_ok_def guards_def fst_conv snd_conv by (force simp: frame_guards_def)

lemma gone_adds:
  assumes "plain_guards s" and "gone rd key s" and "\<forall>t p. m = Begin t p \<longrightarrow> op_fills p \<noteq> Some key"
  shows "(p, key) \<notin> move_adds m s"
proof (cases m)
  case (Begin t q)
  then show ?thesis using assms(1,3) by (auto simp: op_adds_def plain_guards_def split: option.splits)
next
  case (Resume i t a)
  have "(p, key) \<notin> frame_adds (sy_live s ! i) (sy_cache s)" if "i < length (sy_live s)"
    using assms(1,2) nth_mem [OF that] by (force simp: frame_adds_def own_keys_def plain_guards_def gone_def split: option.splits if_splits)
  then show ?thesis using Resume by simp
qed simp

lemma gone_move:
  assumes laws: "lru_laws L valid rd mx" and legal: "sys_legal m s" and inv: "sys_inv E valid rd s" and plain: "plain_guards s"
    and gone: "gone rd key s" and quiet: "\<forall>t p. m = Begin t p \<longrightarrow> op_fills p \<noteq> Some key"
  shows "gone rd key (sys_move E L m s)"
proof -
  note step = move_step [OF laws legal inv]
  have obsolete: "\<not> isCurrent (core g) (sy_cache (sys_move E L m s))"
    if "f \<in> set (sy_live s)" "frame_guard f = Some g" "\<not> isCurrent (core g) (sy_cache s)" for f g
    using stays_obsolete [OF live_guard_ok [OF inv that(1,2)] step(2) that(3)] .
  have "delete_frame f \<or> \<not> isCurrent (core g) (sy_cache (sys_move E L m s))"
    if f: "f \<in> set (sy_live (sys_move E L m s))" and g: "frame_guard f = Some g" and k: "mg_key g = key" for f g
    using move_live [OF f]
  proof (elim disjE exE conjE)
    assume "f \<in> set (sy_live s)"
    then show ?thesis using gone g k obsolete by (auto simp: gone_def)
  next
    fix t p assume "m = Begin t p" "fst (start E L t p (sy_cache s)) = Await f"
    then show ?thesis using start_guard [OF _ g, of E L t p "sy_cache s"] quiet k by auto
  next
    fix i t a assume i: "i < length (sy_live s)" and r: "fst (resume E L t a (sy_live s ! i) (sy_cache s)) = Await f"
    show ?thesis using resume_frame [OF r g]
    proof (elim disjE exE conjE)
      fix g0 assume g0: "frame_guard (sy_live s ! i) = Some g0" "core g = core g0" "delete_frame (sy_live s ! i) \<longrightarrow> delete_frame f"
      then have "mg_key g0 = key" using k core_simps(3) [of g] core_simps(3) [of g0] by simp
      then show ?thesis using gone g0 nth_mem [OF i] obsolete by (fastforce simp: gone_def)
    qed simp
  qed
  then show ?thesis using gone gone_adds [OF plain gone quiet] step(3) by (auto simp: gone_def)
qed

lemma gone_run:
  assumes laws: "lru_laws L valid rd mx"
  shows "sys_legal_run E L ms s \<Longrightarrow> sys_inv E valid rd s \<Longrightarrow> plain_guards s \<Longrightarrow> gone rd key s
    \<Longrightarrow> \<forall>t p. Begin t p \<in> set ms \<longrightarrow> op_fills p \<noteq> Some key
    \<Longrightarrow> gone rd key (sys_run E L ms s) \<and> (\<exists>cs. sy_sent (sys_run E L ms s) = sy_sent s @ cs \<and> Some key \<notin> stored_key ` set cs)"
proof (induction ms arbitrary: s)
  case (Cons m ms)
  note step = move_step [OF laws _ Cons.prems(2), of m]
  have l: "sys_legal m s" using Cons.prems(1) by simp
  have p: "plain_guards (sys_move E L m s)" by (rule plain_move [OF Cons.prems(3) versioned_ages [OF step(2) [OF l]]])
  have g: "gone rd key (sys_move E L m s)" using Cons.prems(5) by (intro gone_move [OF laws l Cons.prems(2-4)]) auto
  obtain cs where cs: "sy_sent (sys_move E L m s) = sy_sent s @ cs" using move_sent by blast
  have new: "Some key \<notin> stored_key ` set cs"
  proof
    assume "Some key \<in> stored_key ` set cs"
    then obtain c where "c \<in> set cs" "stored_key c = Some key" by auto
    then obtain f g where "f \<in> set (sy_live s)" "frame_guard f = Some g" "key = mg_storageKey g" "isCurrent (core g) (sy_cache s)" "\<not> delete_frame f"
      using move_sends [of c s E L m key] cs by auto
    then show False using Cons.prems(3,4) by (auto simp: plain_guards_def gone_def)
  qed
  obtain ds where "gone rd key (sys_run E L ms (sys_move E L m s))" "sy_sent (sys_run E L ms (sys_move E L m s)) = (sy_sent s @ cs) @ ds"
    "Some key \<notin> stored_key ` set ds" using Cons.IH [OF _ step(1) [OF l] p g] Cons.prems(1,5) cs by auto
  then show ?case using new by (auto intro!: exI [of _ "cs @ ds"])
qed simp

lemma deleted_contents:
  assumes laws: "lru_laws L valid rd mx" and inv: "hc_inv E valid rd h"
  shows "(InL1, key) \<notin> contents rd (l1_delete L key h)" "(InStale, key) \<notin> contents rd (removeStale key h)"
    "(InNegative, key) \<notin> contents rd (removeNegative key h)"
proof -
  show "(InL1, key) \<notin> contents rd (l1_delete L key h)"
  proof (cases "hc_l1 h")
    case (Some m)
    obtain b where b: "hc_budget h = Some b" using inv Some by (auto simp: hc_inv_def split: option.splits)
    have "ms_inv E valid rd (b, m)" using inv b Some by (simp add: hc_inv_def)
    then have "key \<notin> fst ` set (resident rd (snd (ms_delete L key (b, m))))"
      using deleted_absent [OF laws _ ms_drops_refl] ms_delete_spec(1) [OF laws] by blast
    then show ?thesis using Some b by (simp add: contents_def l1_keys_def l1_delete_def on_l1_def Let_def)
  qed (simp add: contents_def l1_keys_def l1_delete_def on_l1_def)
  show "(InStale, key) \<notin> contents rd (removeStale key h)" by (auto simp: contents_def removeStale_stale set_om_del)
  show "(InNegative, key) \<notin> contents rd (removeNegative key h)"
    using removeNegative_gone [of key h] by (auto simp: contents_def om_get_None)
qed

lemma deletion_empties:
  assumes laws: "lru_laws L valid rd mx" and inv: "hc_inv E valid rd h" and plain: "\<not> versioned h"
  shows "(p, key) \<notin> contents rd (snd (deleteLocal_begin E L now key generation h))"
proof -
  let ?h0 = "removeInflight key (snd (observeKey E key True h))"
  let ?h1 = "removeNegative key ?h0"
  let ?h2 = "removeStale key ?h1"
  let ?h3 = "advanceGenerationAfterDelete E L now (key_text E key) generation ?h2"
  have k0: "hc_keeps E valid rd h ?h0" by (rule hc_keeps_trans [OF observeKey_keeps removeInflight_keeps])
  note k = k0 hc_keeps_trans [OF k0 removeNegative_keeps] hc_keeps_trans [OF hc_keeps_trans [OF k0 removeNegative_keeps] removeStale_keeps]
  have "hc_keeps E valid rd h ?h3" by (rule hc_keeps_trans [OF k(3) advanceGeneration_keeps(1) [OF laws]])
  then have i: "hc_inv E valid rd ?h0" "hc_inv E valid rd ?h1" "hc_inv E valid rd ?h2" "hc_inv E valid rd ?h3"
    using inv k by (simp_all add: hc_keeps_def)
  then have d: "(InNegative, key) \<notin> contents rd ?h1" "(InStale, key) \<notin> contents rd ?h2" "(InL1, key) \<notin> contents rd (l1_delete L key ?h3)"
    "contents rd ?h2 \<subseteq> contents rd ?h1" "contents rd ?h3 \<subseteq> contents rd ?h2" "contents rd (l1_delete L key ?h3) \<subseteq> contents rd ?h3"
    using deleted_contents(3) [OF laws i(1)] deleted_contents(2) [OF laws i(2)] deleted_contents(1) [OF laws i(4)] removeStale_less [of rd key ?h1]
      advance_adds(1) [OF laws, of E "{}" ?h2] l1_delete_adds(2) [OF laws, of E "{}" ?h3] i by (simp_all add: adds_def)
  have "snd (deleteLocal_begin E L now key generation h) = l1_delete L key ?h3" using plain by (simp add: deleteLocal_split observe_names)
  then show ?thesis using d by (cases p; hypsubst; simp only: not_False_eq_True; blast)
qed

lemma deletion_gone:
  assumes laws: "lru_laws L valid rd mx" and inv: "sys_inv E valid rd s" and plain: "plain_guards s" and alive: "\<not> hc_closed (sy_cache s)"
  shows "gone rd key (sys_move E L (Begin t (OpDelete key)) s)"
proof -
  let ?r = "deleteLocal_begin E L (tk_now t) key None (sy_cache s)"
  have h: "hc_inv E valid rd (sy_cache s)" using inv by (simp add: sys_inv_def run_ok_def)
  have s: "sys_move E L (Begin t (OpDelete key)) s = s\<lparr>sy_cache := snd ?r, sy_live := DeleteL1 (fst ?r) True # sy_live s\<rparr>"
    using alive by (simp add: settled_def hc_delete_def deleting_def suspend_def)
  have "\<not> isCurrent (core g) (snd ?r)" if "f \<in> set (sy_live s)" "frame_guard f = Some g" "mg_key g = key" for f g
    using superseded_step [where e = "HDelete (tk_now t) key None" and L = L, OF h live_guard_ok [OF inv that(1,2)]] that(3) by simp
  then show ?thesis using deletion_empties [OF laws h] plain unfolding s by (auto simp: gone_def plain_guards_def)
qed

lemma plain_run:
  assumes laws: "lru_laws L valid rd mx"
  shows "sys_legal_run E L ms s \<Longrightarrow> sys_inv E valid rd s \<Longrightarrow> plain_guards s \<Longrightarrow> plain_guards (sys_run E L ms s)"
proof (induction ms arbitrary: s)
  case (Cons m ms)
  then show ?case using move_step [OF laws _ Cons.prems(2), of m] plain_move [OF Cons.prems(3) versioned_ages, of E L m] by auto
qed simp

section \<open>Ends of operations\<close>

text \<open>How many awaits an operation still has at most; a load counts from the end of its loader.\<close>

fun rank :: "frame \<Rightarrow> nat" where
  "rank (Loading g options c) = 6" | "rank (ReadL1 g enc) = 6"
| "rank (WriteL1 g v options e1 e2 c) = 5" | "rank (ReadQueued g) = 5" | "rank (RemoteQueued g options raw generation) = 5"
| "rank (PublishQueued g v options xs c) = 5" | "rank (RemoteDelete key generation) = 5"
| "rank (WriteQueued g v options e1 e2 c) = 4" | "rank (ReadL2 g) = 4" | "rank (RemoteL2 g options raw generation) = 4"
| "rank (PublishL2 g v options xs c) = 4" | "rank (DeleteL1 g shared) = 4" | "rank (PatternL1 pattern shared) = 4"
| "rank (WriteL2 g v options e1 e2 c) = 3" | "rank (PromoteHas g v options reuse f) = 3" | "rank (WinnerQueued g c) = 3"
| "rank (DeleteQueued g) = 3" | "rank (PatternQueued pattern) = 3"
| "rank (Promoted g v options reuse f) = 2" | "rank (WinnerL2 g c) = 2" | "rank (PublishedL1 g v options e1 xs c) = 2"
| "rank (Stored g v options c) = 2" | "rank (DeleteL2 g) = 2" | "rank (PatternL2 pattern) = 2" | "rank (RemoteEvicted g) = 2"
| "rank (Leave g r c) = 1" | "rank (AnnounceDelete key) = 1" | "rank (AnnouncePattern pattern) = 1" | "rank (Restoring revision) = 1"

text \<open>A load leaves its wait with the answer that ends its loader.\<close>

fun ends_load :: "answer \<Rightarrow> bool" where
  "ends_load (LoaderValue v leased) = True"
| "ends_load (LoaderFailed e) = True"
| "ends_load (LoadCached v) = True"
| "ends_load (LoadRejected e) = True"
| "ends_load _ = False"

fun is_loading :: "frame \<Rightarrow> bool" where
  "is_loading (Loading g options c) = True"
| "is_loading _ = False"

definition below :: "nat \<Rightarrow> 'c op_step \<Rightarrow> bool" where
  "below n r \<longleftrightarrow> (case fst r of Finished _ \<Rightarrow> True | Await f \<Rightarrow> rank f < n \<and> \<not> is_loading f)"

lemma below_simps [simp]: "below n (suspend f h) \<longleftrightarrow> rank f < n \<and> \<not> is_loading f" "below n (Await f, cs, h) \<longleftrightarrow> rank f < n \<and> \<not> is_loading f"
  "below n (Finished x, cs, h)" "below n (leave g x c h)"
  by (simp_all add: below_def suspend_def leave_def)

lemma rank_returns [simp]:
  "2 < n \<Longrightarrow> rank (write_returns g v options c stored) < n" "3 < n \<Longrightarrow> rank (promote_frame g v options reuse f p) < n"
  "\<not> is_loading (write_returns g v options c stored)" "\<not> is_loading (promote_frame g v options reuse f p)"
  by (simp_all add: write_returns_def promote_frame_def split: option.splits promotion.splits)

lemma write_below [simp]: "6 \<le> n \<Longrightarrow> below n (writeValue E L t g v options c h)" "3 \<le> n \<Longrightarrow> below n (write_commit E t g v options e1 e2 c h)"
  by (simp_all add: writeValue_def write_commit_def Let_def split: sum.splits)

lemma fill_below [simp]: "4 \<le> n \<Longrightarrow> below n (fill_value E L t g v options reuse f h)" "2 \<le> n \<Longrightarrow> below n (promoted E t g v options reuse f h)"
  by (simp_all add: fill_value_def promoted_def Let_def split: fill.splits)

lemma answer_below [simp]: "4 \<le> n \<Longrightarrow> below n (read_answer E L t g a h)" "4 \<le> n \<Longrightarrow> below n (remote_answer E L t g options raw generation a h)"
  "4 \<le> n \<Longrightarrow> below n (publication E L t g v options xs c a h)" "2 \<le> n \<Longrightarrow> below n (published E t g v options e1 xs c h)"
  by (simp_all add: read_answer_def remote_answer_def publication_def published_def Let_def split: sum.splits)

lemma resume_below:
  assumes "is_loading f \<longrightarrow> ends_load a"
  shows "below (rank f) (resume E L t a f h)"
proof (cases f)
  case (Loading g options c)
  then show ?thesis using assms
    by (cases a) (simp_all add: loading_def store_loaded_def load_failed_def Let_def split: option.splits)
qed (simp_all add: queued_def deleting_def deleted_def read_l1_def Let_def split: option.splits prod.splits sum.splits DecodedCacheRecord.splits answer.splits)

text \<open>An operation driven by the given answers, each at the state the cache has by then.\<close>

fun drive :: "'x op_env_scheme \<Rightarrow> 'c lru \<Rightarrow> (tick \<times> answer \<times> 'c HybridCache) list \<Rightarrow> frame \<Rightarrow> op_result option" where
  "drive E L [] f = None"
| "drive E L ((t, a, h) # xs) f = (case fst (resume E L t a f h) of Finished r \<Rightarrow> Some r | Await f' \<Rightarrow> drive E L xs f')"

lemma drive_ends: "rank f \<le> length xs \<Longrightarrow> \<not> is_loading f \<Longrightarrow> \<exists>r. drive E L xs f = Some r"
proof (induction xs arbitrary: f)
  case Nil
  then show ?case by (cases f) simp_all
next
  case (Cons x xs)
  obtain t a h where x: "x = (t, a, h)" by (cases x)
  show ?case
  proof (cases "fst (resume E L t a f h)")
    case (Await f')
    then have "rank f' < rank f" "\<not> is_loading f'" using resume_below [of f a E L t h] Cons.prems by (simp_all add: below_def)
    then show ?thesis using Cons.IH [of f'] Cons.prems x Await by simp
  qed (simp add: x)
qed

section \<open>A concrete system\<close>

definition demo_op_env :: op_env where
  "demo_op_env = event_env.extend demo_event_env \<lparr>json_same = (\<lambda>_ _. True), l2_encoded = False, l2_atomic = False\<rparr>"

definition demo_tick :: tick where
  "demo_tick = \<lparr>tk_now = 5, tk_elapsed = jint 0, tk_promotion = jint 0, tk_uid = js ''u''\<rparr>"

text \<open>A read that waits for the shared tier, and its late answer.\<close>

definition demo_read :: "move list" where
  "demo_read = [Begin demo_tick (OpGet demo_key)]"

definition demo_late :: "move list" where
  "demo_late = [Resume 1 demo_tick Dispatch, Resume 0 demo_tick (L2Value (VStr (js ''old'')))]"

definition demo_overtaken :: "move list" where
  "demo_overtaken = demo_read @ [Begin demo_tick (OpDelete demo_key), Resume 1 demo_tick Dispatch]"

section \<open>Properties\<close>

text \<open>
  C3. Every interleaving of the asynchronous operations of a cache (reads, writes, loads, deletions, remote
  events, with any answers of the shared tier) is a legal run of the synchronous steps, holding exactly the
  guards of the operations that wait. So the byte ledger is exact at every await, the budget holds at least
  what the cache retains, and when no operation waits no key revision is retained.
\<close>

theorem operations_refine_steps:
  assumes laws: "lru_laws L valid rd mx" and new: "newHybridCache L options source builtinL1 hasL2 given signals cur l1Client staleClient = Inr h0"
    and size: "\<forall>m. hc_l1 h0 = Some m \<longrightarrow> ms_maxEntries m = mx" and b: "\<forall>b. given = Some b \<or> cur = Some b \<longrightarrow> budget_ok b"
    and legal: "sys_legal_run E L ms (new_sys h0)" and s: "s = sys_run E L ms (new_sys h0)"
  shows "(\<exists>es gs. hc_legal_run E L es (h0, []) \<and> hc_run E L es (h0, []) = (sy_cache s, gs) \<and> mset gs = mset (guards s))
    \<and> maps_ok E (sy_cache s) \<and> (\<forall>b c. hc_budget (sy_cache s) = Some b \<longrightarrow> usage (sy_cache s) c \<le> held b c)
    \<and> (sy_live s = [] \<longrightarrow> hc_keyRevisions (sy_cache s) = [])"
proof -
  have inv: "hc_inv E valid rd (sy_cache s)" "refs_ok (guards s) (sy_cache s)"
    using sys_run_inv [OF laws legal new_sys_inv [OF laws new size b]] s by (simp_all add: sys_inv_def run_ok_def)
  have "hc_keyRevisions (sy_cache s) = []" if "sy_live s = []"
    using that inv inv_maps [OF inv(1)] by (cases "hc_keyRevisions (sy_cache s)") (auto simp: refs_ok_def holders_def guards_def maps_ok_def revisions_ok_def)
  moreover have "\<exists>es gs. hc_legal_run E L es (h0, []) \<and> hc_run E L es (h0, []) = (sy_cache s, gs) \<and> mset gs = mset (guards s)"
    using run_simulated [OF legal, of "[]"] s by (simp add: new_sys_def guards_def)
  ultimately show ?thesis using inv inv_maps [OF inv(1)] by (auto simp: hc_inv_def)
qed

text \<open>
  C2. An operation that was overtaken commits nothing: if its guard is no longer current when one of its
  segments runs, the segment adds no entry to the L1, the stale values or the negative answers, sends no
  value to the shared tier and no broadcast, and leaves the operation with the same guard, never current again.
\<close>

theorem overtaken_commits_nothing:
  assumes laws: "lru_laws L valid rd mx" and new: "newHybridCache L options source builtinL1 hasL2 given signals cur l1Client staleClient = Inr h0"
    and size: "\<forall>m. hc_l1 h0 = Some m \<longrightarrow> ms_maxEntries m = mx" and b: "\<forall>b. given = Some b \<or> cur = Some b \<longrightarrow> budget_ok b"
    and legal: "sys_legal_run E L ms (new_sys h0)" and s: "s = sys_run E L ms (new_sys h0)"
    and i: "i < length (sy_live s)" "frame_guard (sy_live s ! i) = Some g" and old: "\<not> isCurrent (core g) (sy_cache s)"
    and r: "resume E L t a (sy_live s ! i) (sy_cache s) = (out, sent, h)"
  shows "contents rd h \<subseteq> contents rd (sy_cache s) \<and> (\<forall>c \<in> set sent. stored_key c = None \<and> (\<forall>event. c \<noteq> BusPublish event))
    \<and> (\<forall>f g'. out = Await f \<and> frame_guard f = Some g' \<longrightarrow> core g' = core g \<and> \<not> isCurrent g' h)"
proof -
  have inv: "sys_inv E valid rd s" using sys_run_inv [OF laws legal new_sys_inv [OF laws new size b]] s by simp
  let ?m = "Resume i t a"
  have h: "sy_cache (sys_move E L ?m s) = h" using i r by simp
  note step = move_step [where m = ?m, OF laws _ inv]
  have "move_adds ?m s = {}" using i old by (simp add: frame_adds_def own_keys_def)
  then have "contents rd h \<subseteq> contents rd (sy_cache s)" using step(3) h by simp
  moreover have seg: "segment E L g (sy_cache s) (out, sent, h)" using resume_segment [OF i(2), of E L "sy_cache s" t a] r by simp
  moreover have "stored_key c = None \<and> (\<forall>event. c \<noteq> BusPublish event)" if "c \<in> set sent" for c
    using seg that old by (cases c) (auto simp: segment_def)
  moreover have "core g' = core g \<and> \<not> isCurrent g' h" if "out = Await f" "frame_guard f = Some g'" for f g'
  proof -
    have c: "core g' = core g" using seg that by (simp add: segment_def outcome_guards_def frame_guards_def)
    have "\<not> isCurrent (core g) h" using stays_obsolete [OF live_guard_ok [OF inv nth_mem [OF i(1)] i(2)] step(2) old] h by simp
    then show ?thesis using c current_core by metis
  qed
  ultimately show ?thesis by blast
qed



section \<open>Witnesses\<close>

lemma demo_facts:
  "sy_live (sys_run demo_op_env list_lru (demo_read @ [Resume 0 demo_tick L2Fallback, Resume 0 demo_tick Go]) (new_sys demo_cache)) = []"
  "hc_closed (sy_cache (sys_run demo_op_env list_lru demo_read (new_sys demo_cache))) = False"
  "(let s = sys_run demo_op_env list_lru demo_overtaken (new_sys demo_cache) in
     (length (sy_live s), map_option (\<lambda>g. isCurrent (core g) (sy_cache s)) (frame_guard (sy_live s ! 0)))) = (2, Some False)"
  by code_simp+

lemma demo_plain: "\<not> versioned demo_cache" "\<forall>b. Some demo_budget = Some b \<or> None = Some b \<longrightarrow> budget_ok b"
  by (simp_all add: demo_budget_ok) code_simp

theorem operations_refine_steps_witness:
  "hc_keyRevisions (sy_cache (sys_run demo_op_env list_lru (demo_read @ [Resume 0 demo_tick L2Fallback, Resume 0 demo_tick Go]) (new_sys demo_cache))) = []"
  using operations_refine_steps [where E = demo_op_env, OF demo_laws(1) demo_cache_new demo_laws(2) demo_plain(2) _ refl,
      of "demo_read @ [Resume 0 demo_tick L2Fallback, Resume 0 demo_tick Go]"] demo_facts(1)
  by (simp add: demo_read_def)

theorem overtaken_commits_nothing_witness:
  "\<exists>s g out sent h. s = sys_run demo_op_env list_lru demo_overtaken (new_sys demo_cache)
     \<and> frame_guard (sy_live s ! 0) = Some g
     \<and> resume demo_op_env list_lru demo_tick (L2Value (VStr (js ''old''))) (sy_live s ! 0) (sy_cache s) = (out, sent, h) \<and> contents list_read h \<subseteq> contents list_read (sy_cache s)"
proof -
  define s where "s = sys_run demo_op_env list_lru demo_overtaken (new_sys demo_cache)"
  have two: "length (sy_live s) = 2" "map_option (\<lambda>g. isCurrent (core g) (sy_cache s)) (frame_guard (sy_live s ! 0)) = Some False"
    using demo_facts(3) by (simp_all add: s_def Let_def)
  then obtain g where g: "frame_guard (sy_live s ! 0) = Some g" "\<not> isCurrent (core g) (sy_cache s)" by auto
  have pos: "0 < length (sy_live s)" using two(1) by simp
  obtain out sent h where r: "resume demo_op_env list_lru demo_tick (L2Value (VStr (js ''old''))) (sy_live s ! 0) (sy_cache s) = (out, sent, h)"
    by (metis prod.collapse)
  have "sys_legal_run demo_op_env list_lru demo_overtaken (new_sys demo_cache)" by (simp add: demo_overtaken_def demo_read_def)
  from overtaken_commits_nothing [OF demo_laws(1) demo_cache_new demo_laws(2) demo_plain(2) this s_def pos g r]
  have "contents list_read h \<subseteq> contents list_read (sy_cache s)" by (rule conjunct1)
  then show ?thesis by (intro exI conjI) (rule s_def, rule g(1), rule r)
qed



end
