(* ===== verification/Cache_Events.thy ===== *)
theory Cache_Events
  imports Cache_Concurrency
begin

text \<open>
  How a cache receives invalidation events from the bus (the subscriber in the constructor of
  \<open>cache/hybridCache.ts\<close>): the namespace filter, decoding, de-duplication by event id, and the operations
  an accepted event starts, one per key.
\<close>

section \<open>Reading an event\<close>

text \<open>The fields of a decoded event; decoding has checked their types.\<close>

definition text_field :: "(jsstr \<times> jsval) list \<Rightarrow> jsstr \<Rightarrow> jsstr" where
  "text_field fs name = (case prop_of fs name of VStr s \<Rightarrow> s | _ \<Rightarrow> [])"

definition list_field :: "(jsstr \<times> jsval) list \<Rightarrow> jsstr \<Rightarrow> jsstr list" where
  "list_field fs name = (case prop_of fs name of VArray xs \<Rightarrow> map (\<lambda>x. case x of VStr s \<Rightarrow> s | _ \<Rightarrow> []) xs | _ \<Rightarrow> [])"

definition num_field :: "(jsstr \<times> jsval) list \<Rightarrow> jsstr \<Rightarrow> jsnum option" where
  "num_field fs name = (case prop_of fs name of VNum n \<Rightarrow> Some n | _ \<Rightarrow> None)"

definition eventKey :: "'x event_env_scheme \<Rightarrow> jsstr \<Rightarrow> jsstr option \<Rightarrow> CacheKey" where
  "eventKey E raw type = (if type = Some (js ''number'') then NumberKey (to_number E raw) else StringKey raw)"

fun join_comma :: "jsstr list \<Rightarrow> jsstr" where
  "join_comma [] = []"
| "join_comma [s] = s"
| "join_comma (s # ss) = s @ js '','' @ join_comma ss"

definition getLegacyEventId :: "'x event_env_scheme \<Rightarrow> (jsstr \<times> jsval) list \<Rightarrow> jsstr" where
  "getLegacyEventId E fs =
     (let type = text_field fs (js ''type'');
          suffix = (if type = js ''del'' \<or> type = js ''set'' then join_comma (list_field fs (js ''keys'')) else text_field fs (js ''pattern'')) in
      text_field fs (js ''source'') @ js '':'' @ number_text E (nullish (num_field fs (js ''ts'')) JNaN) @ js '':'' @ type @ js '':'' @ suffix)"

definition event_id :: "'x event_env_scheme \<Rightarrow> (jsstr \<times> jsval) list \<Rightarrow> jsstr" where
  "event_id E fs = (case prop_of fs (js ''id'') of VStr s \<Rightarrow> s | _ \<Rightarrow> getLegacyEventId E fs)"

section \<open>The operations of an event\<close>

text \<open>The keys with their types; an event of an earlier release carries no types.\<close>

definition event_types :: "(jsstr \<times> jsval) list \<Rightarrow> jsstr option list" where
  "event_types fs = (case prop_of fs (js ''keyTypes'') of VArray _ \<Rightarrow> map Some (list_field fs (js ''keyTypes''))
     | _ \<Rightarrow> map (\<lambda>_. None) (list_field fs (js ''keys'')))"

definition event_generation :: "(jsstr \<times> jsval) list \<Rightarrow> int option" where
  "event_generation fs = map_option num_int (num_field fs (js ''generation''))"

text \<open>A legacy deletion also evicts the numeric key its text may stand for.\<close>

definition legacy_alias :: "'x event_env_scheme \<Rightarrow> jsstr option \<Rightarrow> jsstr \<Rightarrow> int option \<Rightarrow> operation list" where
  "legacy_alias E type raw generation = (if type = None \<and> number_text E (to_number E raw) = raw \<and> isFinite (to_number E raw)
     then [OpEvict (NumberKey (to_number E raw)) generation] else [])"

definition event_operations :: "'x event_env_scheme \<Rightarrow> (jsstr \<times> jsval) list \<Rightarrow> operation list" where
  "event_operations E fs =
     (let keys = zip (list_field fs (js ''keys'')) (event_types fs); generation = event_generation fs in
      if text_field fs (js ''type'') = js ''del''
      then concat (map (\<lambda>(raw, type). OpRemoteDelete raw (eventKey E raw type) generation # legacy_alias E type raw generation) keys)
      else if text_field fs (js ''type'') = js ''set''
      then map (\<lambda>(raw, type). OpRemoteSet raw (eventKey E raw type) (prop_of fs (js ''value'')) (num_field fs (js ''ttlMs'')) generation) keys
      else [OpRemotePattern (text_field fs (js ''pattern''))])"

section \<open>Receiving\<close>

datatype received = Ignored | Undecodable | DuplicateEvent jsstr | OwnEvent jsstr | Accepted jsstr "operation list" | ReceiveFailed js_error

text \<open>An object of another namespace is not even decoded.\<close>

definition foreign_raw :: "raw_value \<Rightarrow> 'c HybridCache \<Rightarrow> bool" where
  "foreign_raw raw h = (case hco_eventNamespace (hc_options h) of None \<Rightarrow> False
     | Some ns \<Rightarrow> (case raw of RawValue (VObject fs) \<Rightarrow> prop_of fs (js ''namespace'') \<noteq> VStr ns | RawValue (VArray _) \<Rightarrow> True | _ \<Rightarrow> False))"

definition foreign_event :: "(jsstr \<times> jsval) list \<Rightarrow> 'c HybridCache \<Rightarrow> bool" where
  "foreign_event fs h = (case hco_eventNamespace (hc_options h) of None \<Rightarrow> False | Some ns \<Rightarrow> prop_of fs (js ''namespace'') \<noteq> VStr ns)"

definition receiveEvent :: "'x event_env_scheme \<Rightarrow> 'c lru \<Rightarrow> int \<Rightarrow> raw_value \<Rightarrow> 'c HybridCache \<Rightarrow> received \<times> 'c HybridCache" where
  "receiveEvent E L now raw h = (if hc_closed h \<or> foreign_raw raw h then (Ignored, h)
     else case decodeInvalidationEvent E raw default_event_limits of
       Inl e \<Rightarrow> (ReceiveFailed e, h)
     | Inr (Some (VObject fs)) \<Rightarrow>
         if foreign_event fs h then (Ignored, h)
         else let i = event_id E fs; r = hasSeenEvent E now i h in
           if fst r then (DuplicateEvent i, snd r)
           else let h1 = markEventSeen E now i (snd r) in
             if text_field fs (js ''source'') = hc_source h1 then (OwnEvent i, h1) else (Accepted i (event_operations E fs), h1)
     | Inr _ \<Rightarrow> (Undecodable, markInvalidationUntrusted E L now h))"

text \<open>The handler of a failed application: the event may be delivered again.\<close>

definition applicationFailed :: "'x event_env_scheme \<Rightarrow> jsstr \<Rightarrow> 'c HybridCache \<Rightarrow> 'c HybridCache" where
  "applicationFailed E i h = removeSeenEvent E i h"

section \<open>Properties\<close>

lemma receive_accepted:
  assumes "fst (receiveEvent E L now raw h) = Accepted i ops"
  obtains fs where "\<not> foreign_raw raw h" "decodeInvalidationEvent E raw default_event_limits = Inr (Some (VObject fs))"
    "\<not> foreign_event fs h" "i = event_id E fs" "ops = event_operations E fs"
    "text_field fs (js ''source'') \<noteq> hc_source (markEventSeen E now i (snd (hasSeenEvent E now i h)))"
  using assms that by (auto simp: receiveEvent_def Let_def split: if_splits sum.splits option.splits jsval.splits)

lemma source_ledger [simp]: "hc_source (hc_release n c h) = hc_source h" "hc_source (snd (hc_reserve n c h)) = hc_source h"
  by (simp_all add: hc_release_def hc_reserve_def Let_def split: option.splits)

lemma source_seen [simp]: "hc_source (removeSeenEvent E i h) = hc_source h" "hc_source (snd (hasSeenEvent E now i h)) = hc_source h"
  by (simp_all add: removeSeenEvent_def hasSeenEvent_def Let_def split: option.splits)

lemma source_evictSeen [simp]: "hc_source (snd (evictSeen E n h)) = hc_source h"
proof (induction E n h rule: evictSeen.induct)
  case (1 E n h)
  then show ?case by (subst evictSeen.simps) (auto split: list.splits)
qed

lemma source_mark [simp]: "hc_source (markEventSeen E now i h) = hc_source h"
  by (simp add: markEventSeen_def Let_def)

lemma forget_fields: "hc_options (removeSeenEvent E i h) = hc_options h" "hc_closed (removeSeenEvent E i h) = hc_closed h"
  using g_removeSeen [of E i h] by (simp_all add: gfields_def)

lemma unseen: "om_get (hc_seenEvents h) i = None \<Longrightarrow> hasSeenEvent E now i h = (False, h)"
  by (simp add: hasSeenEvent_def)

text \<open>
  C34. An event is applied once and never lost: while its id is remembered and its retention has not run
  out, a redelivery of an accepted event is dropped and changes nothing; when the application of the
  event failed, its id is forgotten and the redelivery is accepted again, with the same operations.
\<close>

theorem event_redelivery:
  assumes accepted: "fst (receiveEvent E L now raw h) = Accepted i ops" and seen: "om_get (hc_seenEvents h2) i = Some now"
    and same: "hc_options h2 = hc_options h" "hc_source h2 = hc_source h" "\<not> hc_closed h2"
    and fresh: "\<not> jless (getEventDedupeTtlMs h2) (jint (later - now))"
  shows "receiveEvent E L later raw h2 = (DuplicateEvent i, h2)
    \<and> fst (receiveEvent E L later raw (applicationFailed E i h2)) = Accepted i ops"
proof -
  obtain fs where fs: "\<not> foreign_raw raw h" "decodeInvalidationEvent E raw default_event_limits = Inr (Some (VObject fs))"
    "\<not> foreign_event fs h" "i = event_id E fs" "ops = event_operations E fs" "text_field fs (js ''source'') \<noteq> hc_source h"
    using receive_accepted [OF accepted] by auto
  let ?h = "removeSeenEvent E i h2"
  have f: "\<not> foreign_raw raw h2" "\<not> foreign_event fs h2" "\<not> foreign_raw raw ?h" "\<not> foreign_event fs ?h" "\<not> hc_closed ?h" "hc_source ?h = hc_source h"
    using fs same by (simp_all add: foreign_raw_def foreign_event_def forget_fields)
  have "hasSeenEvent E later i h2 = (True, h2)" using seen fresh by (simp add: hasSeenEvent_def)
  then have "receiveEvent E L later raw h2 = (DuplicateEvent i, h2)" using f fs same by (simp add: receiveEvent_def Let_def)
  moreover have "hasSeenEvent E later i ?h = (False, ?h)" by (rule unseen) (simp add: removeSeenEvent_get)
  then have "fst (receiveEvent E L later raw ?h) = Accepted i ops" using f fs by (simp add: receiveEvent_def Let_def)
  ultimately show ?thesis by (simp add: applicationFailed_def)
qed

lemma accepted_fields:
  assumes "fst (receiveEvent E L now raw h) = Accepted i ops"
  shows "gfields (snd (receiveEvent E L now raw h)) = gfields h \<and> hc_source (snd (receiveEvent E L now raw h)) = hc_source h"
  using assms by (auto simp: receiveEvent_def Let_def split: if_splits sum.splits option.splits jsval.splits)

lemma demo_reception:
  "(let r = receiveEvent demo_event_env list_lru 5 (RawBytes (HC1_MSGPACK_TAG @ [0xc0])) demo_cache in
     case fst r of Accepted i ops \<Rightarrow> (map_option id (om_get (hc_seenEvents (snd r)) i), length ops) | _ \<Rightarrow> (None, 0)) = (Some 5, 1)"
  by code_simp

theorem event_redelivery_witness:
  "\<exists>i h. snd (receiveEvent demo_event_env list_lru 5 (RawBytes (HC1_MSGPACK_TAG @ [0xc0])) demo_cache) = h
     \<and> receiveEvent demo_event_env list_lru 6 (RawBytes (HC1_MSGPACK_TAG @ [0xc0])) h = (DuplicateEvent i, h)"
proof -
  let ?r = "receiveEvent demo_event_env list_lru 5 (RawBytes (HC1_MSGPACK_TAG @ [0xc0])) demo_cache"
  obtain i ops where a: "fst ?r = Accepted i ops" "om_get (hc_seenEvents (snd ?r)) i = Some 5"
    using demo_reception by (auto simp: Let_def option.map_id split: received.splits)
  have f: "hc_options (snd ?r) = hc_options demo_cache" "hc_source (snd ?r) = hc_source demo_cache" "\<not> hc_closed (snd ?r)"
    using accepted_fields [OF a(1)] by (simp_all add: gfields_def demo_cache_def fresh_cache_def)
  have "\<not> jless (getEventDedupeTtlMs (snd ?r)) (jint (6 - 5))"
    by (simp add: getEventDedupeTtlMs_def f(1)) code_simp
  then show ?thesis using event_redelivery [OF a f] by blast
qed

end
