(* ===== verification/L2_Calls.thy ===== *)
theory L2_Calls
  imports Cache_State Circuit_Breaker
begin

text \<open>
  Calls on the shared tier (\<open>runL2\<close> of \<open>cache/hybridCache.ts\<close>): the circuit breaker decides whether a call is
  made, the bytes it retains are reserved while it is queued and until the call itself settles, and its
  outcome is recorded under the epoch it began in. The queue itself is the gate of \<open>Load_Gates\<close>; a run
  here is any order of dispatches, settlements and returns the gate can produce.
\<close>

section \<open>State\<close>

text \<open>
  One call: the bytes it retains and the breaker epoch it began in; whether its reservation is held,
  whether the gate dispatched it, whether the dispatched promise has settled, and whether \<open>runL2\<close> has
  returned to its caller, which a timeout may do before the promise settles.
\<close>

record l2_call =
  l2c_bytes :: int
  l2c_epoch :: int
  l2c_reserved :: bool
  l2c_dispatched :: bool
  l2c_settled :: bool
  l2c_returned :: bool

record rl_state =
  l2s_breaker :: CircuitBreaker
  l2s_budget :: "MemoryBudget option"
  l2s_calls :: "l2_call list"

definition retained_bytes :: "'x event_env_scheme \<Rightarrow> CacheKey \<Rightarrow> int \<Rightarrow> int" where
  "retained_bytes E key payload = payload + int (byteLength (key_text E key)) * 2 + 128"

section \<open>Operations\<close>

definition with_call :: "nat \<Rightarrow> (l2_call \<Rightarrow> l2_call) \<Rightarrow> rl_state \<Rightarrow> rl_state" where
  "with_call i f s = s\<lparr>l2s_calls := (l2s_calls s)[i := f (l2s_calls s ! i)]\<rparr>"

definition releaseRetention :: "nat \<Rightarrow> rl_state \<Rightarrow> rl_state" where
  "releaseRetention i s = (let c = l2s_calls s ! i in if \<not> l2c_reserved c then s
     else with_call i (\<lambda>c. c\<lparr>l2c_reserved := False\<rparr>)
       (s\<lparr>l2s_budget := map_option (release (jint (l2c_bytes c)) queue_category) (l2s_budget s)\<rparr>))"

text \<open>\<open>runL2\<close> up to the gate; \<open>False\<close> when it yields its fallback at once.\<close>

definition runL2_begin :: "CircuitBreakerOptions \<Rightarrow> int \<Rightarrow> bool \<Rightarrow> int \<Rightarrow> rl_state \<Rightarrow> bool \<times> rl_state" where
  "runL2_begin opts now hasL2 bytes s = (if \<not> hasL2 then (False, s)
     else let c = canCall opts now (l2s_breaker s); epoch = cb_epoch (snd c); s1 = s\<lparr>l2s_breaker := snd c\<rparr>;
              push = (\<lambda>reserved s. s\<lparr>l2s_calls := l2s_calls s @ [\<lparr>l2c_bytes = bytes, l2c_epoch = epoch, l2c_reserved = reserved,
                l2c_dispatched = False, l2c_settled = False, l2c_returned = False\<rparr>]\<rparr>) in
       if \<not> fst c then (False, s1)
       else case l2s_budget s1 of None \<Rightarrow> (True, push False s1)
       | Some b \<Rightarrow> let r = tryReserve (jint bytes) queue_category b; s2 = s1\<lparr>l2s_budget := Some (snd r)\<rparr> in
           if fst r then (True, push True s2)
           else (False, s2\<lparr>l2s_breaker := snd (recordFailure opts now (Some epoch) (l2s_breaker s2))\<rparr>))"

text \<open>The gate runs the call, the call's promise settles, and the gate's promise returns to \<open>runL2\<close>.\<close>

definition l2_dispatch :: "nat \<Rightarrow> rl_state \<Rightarrow> rl_state" where
  "l2_dispatch i s = with_call i (\<lambda>c. c\<lparr>l2c_dispatched := True\<rparr>) s"

definition l2_settle :: "nat \<Rightarrow> rl_state \<Rightarrow> rl_state" where
  "l2_settle i s = releaseRetention i (with_call i (\<lambda>c. c\<lparr>l2c_settled := True\<rparr>) s)"

definition l2_return :: "CircuitBreakerOptions \<Rightarrow> int \<Rightarrow> nat \<Rightarrow> bool \<Rightarrow> rl_state \<Rightarrow> rl_state" where
  "l2_return opts now i ok s =
     (let s1 = (if \<not> l2c_dispatched (l2s_calls s ! i) then releaseRetention i s else s);
          epoch = Some (l2c_epoch (l2s_calls s ! i)) in
      with_call i (\<lambda>c. c\<lparr>l2c_returned := True\<rparr>) (s1\<lparr>l2s_breaker :=
        if ok then recordSuccess opts epoch (l2s_breaker s1) else snd (recordFailure opts now epoch (l2s_breaker s1))\<rparr>))"

section \<open>Runs\<close>

datatype rl_event = L2Begin int int | L2Dispatch nat | L2Settle nat | L2Return int nat bool

fun rl_step :: "CircuitBreakerOptions \<Rightarrow> rl_event \<Rightarrow> rl_state \<Rightarrow> rl_state" where
  "rl_step opts (L2Begin now bytes) s = snd (runL2_begin opts now True bytes s)"
| "rl_step opts (L2Dispatch i) s = l2_dispatch i s"
| "rl_step opts (L2Settle i) s = l2_settle i s"
| "rl_step opts (L2Return now i ok) s = l2_return opts now i ok s"

text \<open>
  What the gate ensures: a call is dispatched once and not after it was given up in the queue, its
  promise settles once, and \<open>runL2\<close> returns once, with success only after the promise settled.
\<close>

fun rl_legal :: "rl_event \<Rightarrow> rl_state \<Rightarrow> bool" where
  "rl_legal (L2Begin now bytes) s \<longleftrightarrow> 0 \<le> bytes"
| "rl_legal (L2Dispatch i) s \<longleftrightarrow> i < length (l2s_calls s) \<and> \<not> l2c_dispatched (l2s_calls s ! i) \<and> \<not> l2c_returned (l2s_calls s ! i)"
| "rl_legal (L2Settle i) s \<longleftrightarrow> i < length (l2s_calls s) \<and> l2c_dispatched (l2s_calls s ! i) \<and> \<not> l2c_settled (l2s_calls s ! i)"
| "rl_legal (L2Return now i ok) s \<longleftrightarrow> i < length (l2s_calls s) \<and> \<not> l2c_returned (l2s_calls s ! i) \<and> (ok \<longrightarrow> l2c_settled (l2s_calls s ! i))"

fun rl_run :: "CircuitBreakerOptions \<Rightarrow> rl_event list \<Rightarrow> rl_state \<Rightarrow> rl_state" where
  "rl_run opts [] s = s"
| "rl_run opts (e # es) s = rl_run opts es (rl_step opts e s)"

fun rl_legal_run :: "CircuitBreakerOptions \<Rightarrow> rl_event list \<Rightarrow> rl_state \<Rightarrow> bool" where
  "rl_legal_run opts [] s \<longleftrightarrow> True"
| "rl_legal_run opts (e # es) s \<longleftrightarrow> rl_legal e s \<and> rl_legal_run opts es (rl_step opts e s)"

section \<open>The reservations\<close>

definition retention :: "l2_call \<Rightarrow> int" where
  "retention c = (if l2c_reserved c then l2c_bytes c else 0)"

definition retained :: "rl_state \<Rightarrow> int" where
  "retained s = (\<Sum>c\<leftarrow>l2s_calls s. retention c)"

text \<open>
  A call holds its reservation until it is over: settled if it was dispatched, returned if it never was.
\<close>

definition over :: "l2_call \<Rightarrow> bool" where
  "over c \<longleftrightarrow> (if l2c_dispatched c then l2c_settled c else l2c_returned c)"

definition rl_inv :: "(jsstr \<Rightarrow> int) \<Rightarrow> rl_state \<Rightarrow> bool" where
  "rl_inv others s \<longleftrightarrow> (\<forall>c \<in> set (l2s_calls s). 0 \<le> l2c_bytes c \<and> (l2c_settled c \<longrightarrow> l2c_dispatched c) \<and> (over c \<longrightarrow> \<not> l2c_reserved c) \<and> (\<not> over c \<longrightarrow> l2c_reserved c = (l2s_budget s \<noteq> None)))
     \<and> (\<forall>c. 0 \<le> others c)
     \<and> (\<forall>b. l2s_budget s = Some b \<longrightarrow> budget_ok b \<and> (\<forall>c. held b c = others c + (if c = queue_category then retained s else 0)))"

lemma sum_list_update: "i < length xs \<Longrightarrow> (\<Sum>x\<leftarrow>xs[i := y]. f x) = (\<Sum>x\<leftarrow>xs. f x) - f (xs ! i) + (f y :: int)"
  by (induction xs arbitrary: i) (auto split: nat.splits)

lemma retained_with: "i < length (l2s_calls s) \<Longrightarrow> retained (with_call i f s) = retained s - retention (l2s_calls s ! i) + retention (f (l2s_calls s ! i))"
  by (simp add: retained_def with_call_def sum_list_update)

lemma retained_nonneg: "\<forall>c \<in> set (l2s_calls s). 0 \<le> l2c_bytes c \<Longrightarrow> i < length (l2s_calls s) \<Longrightarrow> 0 \<le> retention (l2s_calls s ! i) \<and> retention (l2s_calls s ! i) \<le> retained s"
  unfolding retained_def by (auto simp: retention_def intro!: member_le_sum_list sum_list_nonneg)

text \<open>One call changes; the budget gives back its bytes when the change ends its reservation.\<close>

definition changed :: "nat \<Rightarrow> l2_call \<Rightarrow> rl_state \<Rightarrow> rl_state" where
  "changed i c s = s\<lparr>l2s_calls := (l2s_calls s)[i := c], l2s_budget := (if l2c_reserved (l2s_calls s ! i) \<and> \<not> l2c_reserved c
     then map_option (release (jint (l2c_bytes (l2s_calls s ! i))) queue_category) (l2s_budget s) else l2s_budget s)\<rparr>"

lemma changed_inv:
  assumes inv: "rl_inv others s" and i: "i < length (l2s_calls s)" and c: "l2c_bytes c = l2c_bytes (l2s_calls s ! i)" "l2c_settled c \<longrightarrow> l2c_dispatched c"
    "over c \<longrightarrow> \<not> l2c_reserved c" "\<not> over c \<longrightarrow> l2c_reserved c = (l2s_budget s \<noteq> None)" "l2c_reserved c \<longrightarrow> l2c_reserved (l2s_calls s ! i)"
  shows "rl_inv others (changed i c s)"
proof -
  let ?old = "l2s_calls s ! i"
  have pos: "\<forall>c \<in> set (l2s_calls s). 0 \<le> l2c_bytes c" using inv by (simp add: rl_inv_def)
  have old: "0 \<le> l2c_bytes ?old" "0 \<le> retention ?old" "retention ?old \<le> retained s" using pos nth_mem [OF i] retained_nonneg [OF pos i] by auto
  have r: "retained (changed i c s) = retained s - (if l2c_reserved ?old \<and> \<not> l2c_reserved c then l2c_bytes ?old else 0)"
    using i c(1,5) by (auto simp: retained_def changed_def sum_list_update retention_def)
  have "budget_ok b' \<and> held b' d = others d + (if d = queue_category then retained (changed i c s) else 0)"
    if b': "l2s_budget (changed i c s) = Some b'" for b' d
  proof (cases "l2c_reserved ?old \<and> \<not> l2c_reserved c")
    case True
    then obtain b where b: "l2s_budget s = Some b" "b' = release (jint (l2c_bytes ?old)) queue_category b" using b' by (auto simp: changed_def)
    have ok: "budget_ok b" "\<And>d. held b d = others d + (if d = queue_category then retained s else 0)" using inv b(1) by (auto simp: rl_inv_def)
    have "0 \<le> others queue_category" using inv by (simp add: rl_inv_def)
    then have "l2c_bytes ?old \<le> held b queue_category" using ok(2) [of queue_category] old(3) True by (simp add: retention_def)
    then show ?thesis using release_held [OF ok(1) old(1)] ok r True b(2) by (simp add: release_ok)
  next
    case False
    then have "l2s_budget s = Some b'" using b' unfolding changed_def by (simp split: if_splits)
    then show ?thesis using inv r False by (auto simp: rl_inv_def)
  qed
  moreover have "l2s_budget (changed i c s) \<noteq> None \<longleftrightarrow> l2s_budget s \<noteq> None" by (simp add: changed_def)
  moreover have "set (l2s_calls (changed i c s)) \<subseteq> insert c (set (l2s_calls s))" by (simp add: changed_def set_update_subset_insert)
  ultimately show ?thesis using inv c old(1) unfolding rl_inv_def by fastforce
qed

lemma inv_breaker [simp]: "rl_inv others (s\<lparr>l2s_breaker := b\<rparr>) = rl_inv others s"
  by (simp add: rl_inv_def retained_def)

lemma step_changed:
  assumes "rl_inv others s"
  shows "rl_legal (L2Dispatch i) s \<Longrightarrow> l2_dispatch i s = changed i ((l2s_calls s ! i)\<lparr>l2c_dispatched := True\<rparr>) s"
    and "rl_legal (L2Settle i) s \<Longrightarrow> l2_settle i s = changed i ((l2s_calls s ! i)\<lparr>l2c_settled := True, l2c_reserved := False\<rparr>) s"
    and "rl_legal (L2Return now i ok) s \<Longrightarrow> \<exists>b. l2_return opts now i ok s = (changed i ((l2s_calls s ! i)\<lparr>l2c_returned := True,
      l2c_reserved := l2c_dispatched (l2s_calls s ! i) \<and> l2c_reserved (l2s_calls s ! i)\<rparr>) s)\<lparr>l2s_breaker := b\<rparr>"
proof -
  have u: "xs ! i = (c :: l2_call) \<Longrightarrow> xs[i := c] = xs" for xs c by (metis list_update_id)
  show "rl_legal (L2Dispatch i) s \<Longrightarrow> l2_dispatch i s = changed i ((l2s_calls s ! i)\<lparr>l2c_dispatched := True\<rparr>) s"
    by (simp add: l2_dispatch_def with_call_def changed_def)
  show "rl_legal (L2Settle i) s \<Longrightarrow> l2_settle i s = changed i ((l2s_calls s ! i)\<lparr>l2c_settled := True, l2c_reserved := False\<rparr>) s"
    by (cases "l2s_calls s ! i") (auto simp: l2_settle_def releaseRetention_def with_call_def changed_def Let_def)
  show "rl_legal (L2Return now i ok) s \<Longrightarrow> \<exists>b. l2_return opts now i ok s = (changed i ((l2s_calls s ! i)\<lparr>l2c_returned := True,
      l2c_reserved := l2c_dispatched (l2s_calls s ! i) \<and> l2c_reserved (l2s_calls s ! i)\<rparr>) s)\<lparr>l2s_breaker := b\<rparr>"
    by (rule exI [of _ "if ok then recordSuccess opts (Some (l2c_epoch (l2s_calls s ! i))) (l2s_breaker s)
        else snd (recordFailure opts now (Some (l2c_epoch (l2s_calls s ! i))) (l2s_breaker s))"])
      (cases s; cases "l2s_calls s ! i"; auto simp: l2_return_def releaseRetention_def with_call_def changed_def Let_def)
qed

lemma rl_begin_inv:
  assumes inv: "rl_inv others s" and n: "0 \<le> bytes"
  shows "rl_inv others (snd (runL2_begin opts now True bytes s))"
proof (cases "l2s_budget s")
  case None
  then show ?thesis using inv n by (auto simp: runL2_begin_def Let_def rl_inv_def over_def)
next
  case (Some b)
  have ok: "budget_ok b" "\<And>d. held b d = others d + (if d = queue_category then retained s else 0)" using inv Some by (auto simp: rl_inv_def)
  show ?thesis using inv n Some tryReserve_held [OF n, of queue_category b] tryReserve_ok [OF ok(1)] ok
    by (auto simp: runL2_begin_def Let_def rl_inv_def over_def retained_def retention_def)
qed

lemma rl_step_inv:
  assumes inv: "rl_inv others s" and legal: "rl_legal e s"
  shows "rl_inv others (rl_step opts e s)"
proof -
  have c: "l2c_settled c \<longrightarrow> l2c_dispatched c" "over c \<longrightarrow> \<not> l2c_reserved c" "\<not> over c \<longrightarrow> l2c_reserved c = (l2s_budget s \<noteq> None)" if "c \<in> set (l2s_calls s)" for c
    using inv that by (simp_all add: rl_inv_def)
  show ?thesis
  proof (cases e)
    case (L2Begin now bytes)
    then show ?thesis using rl_begin_inv [OF inv] legal by simp
  next
    case (L2Dispatch i)
    then have "i < length (l2s_calls s)" using legal by simp
    then show ?thesis using L2Dispatch legal step_changed(1) [OF inv] c [of "l2s_calls s ! i"] by (auto simp: over_def intro!: changed_inv [OF inv])
  next
    case (L2Settle i)
    then have "i < length (l2s_calls s)" using legal by simp
    then show ?thesis using L2Settle legal step_changed(2) [OF inv] c [of "l2s_calls s ! i"] by (auto simp: over_def intro!: changed_inv [OF inv])
  next
    case (L2Return now i ok)
    then have i: "i < length (l2s_calls s)" using legal by simp
    obtain b where "l2_return opts now i ok s = (changed i ((l2s_calls s ! i)\<lparr>l2c_returned := True,
      l2c_reserved := l2c_dispatched (l2s_calls s ! i) \<and> l2c_reserved (l2s_calls s ! i)\<rparr>) s)\<lparr>l2s_breaker := b\<rparr>"
      using step_changed(3) [OF inv] legal L2Return by blast
    then show ?thesis using L2Return legal c [of "l2s_calls s ! i"] i by (auto simp: over_def intro!: changed_inv [OF inv] split: if_splits)
  qed
qed

lemma rl_run_inv: "rl_inv others s \<Longrightarrow> rl_legal_run opts es s \<Longrightarrow> rl_inv others (rl_run opts es s)"
  by (induction es arbitrary: s) (simp_all add: rl_step_inv)

lemma rl_step_budget: "l2s_budget (rl_step opts e s) = None \<longleftrightarrow> l2s_budget s = None"
  by (cases e) (auto simp: runL2_begin_def l2_dispatch_def l2_settle_def l2_return_def releaseRetention_def with_call_def Let_def split: option.splits)

lemma rl_run_budget: "l2s_budget (rl_run opts es s) = None \<longleftrightarrow> l2s_budget s = None"
  by (induction es arbitrary: s) (simp_all add: rl_step_budget)

text \<open>The breaker only sees its own three operations.\<close>

lemma step_breaker: "\<exists>bs. l2s_breaker (rl_step opts e s) = cb_run opts bs (l2s_breaker s)"
proof (cases e)
  case (L2Begin now bytes)
  let ?c = "canCall opts now (l2s_breaker s)"
  have "l2s_breaker (rl_step opts e s) = snd ?c \<or> l2s_breaker (rl_step opts e s) = snd (recordFailure opts now (Some (cb_epoch (snd ?c))) (snd ?c))"
    using L2Begin by (auto simp: runL2_begin_def Let_def split: option.splits)
  moreover have "cb_run opts [CanCall now] (l2s_breaker s) = snd ?c"
    "cb_run opts [CanCall now, Failure now (Some (cb_epoch (snd ?c)))] (l2s_breaker s) = snd (recordFailure opts now (Some (cb_epoch (snd ?c))) (snd ?c))"
    by simp_all
  ultimately show ?thesis by metis
next
  case (L2Return now i ok)
  let ?ep = "Some (l2c_epoch (l2s_calls s ! i))"
  have "l2s_breaker (rl_step opts e s) = cb_run opts [if ok then Success ?ep else Failure now ?ep] (l2s_breaker s)"
    using L2Return by (simp add: l2_return_def releaseRetention_def with_call_def Let_def)
  then show ?thesis by blast
qed (auto simp: l2_dispatch_def l2_settle_def releaseRetention_def with_call_def Let_def intro!: exI [of _ "[]"])

lemma run_breaker: "\<exists>bs. l2s_breaker (rl_run opts es s) = cb_run opts bs (l2s_breaker s)"
proof (induction es arbitrary: s)
  case (Cons e es)
  obtain xs ys where "l2s_breaker (rl_step opts e s) = cb_run opts xs (l2s_breaker s)"
    "l2s_breaker (rl_run opts es (rl_step opts e s)) = cb_run opts ys (l2s_breaker (rl_step opts e s))" using step_breaker Cons.IH by blast
  then show ?case by (auto simp: cb_run_append intro!: exI [of _ "xs @ ys"])
qed (auto intro!: exI [of _ "[]"])

lemma all_over:
  assumes "rl_inv others s" and "\<forall>c \<in> set (l2s_calls s). over c"
  shows "retained s = 0"
proof -
  have "retained s = (\<Sum>c\<leftarrow>l2s_calls s. 0)"
    unfolding retained_def using assms by (intro arg_cong [where f = sum_list] map_cong) (auto simp: rl_inv_def retention_def)
  then show ?thesis by simp
qed

definition rl_start :: "MemoryBudget option \<Rightarrow> rl_state" where
  "rl_start b = \<lparr>l2s_breaker = newBreaker, l2s_budget = b, l2s_calls = []\<rparr>"

section \<open>Properties\<close>

text \<open>
  C36. The queue bytes of the calls on the shared tier are exact: in every run the budget holds, beyond what
  it held before, the bytes of the calls that are not over, whether they wait in the gate or run on after
  their caller timed out; each reservation is given back once, and when every call is over nothing is left.
  The breaker goes through a run of its own operations only, so what holds of its runs holds here.
\<close>

theorem l2_retention_exact:
  assumes b: "budget_ok b" and legal: "rl_legal_run opts es (rl_start (Some b))" and s: "s = rl_run opts es (rl_start (Some b))"
  shows "\<exists>b'. l2s_budget s = Some b' \<and> mb_used b' \<le> mb_hardCap b' \<and> (\<forall>c. held b' c = held b c + (if c = queue_category then retained s else 0))
    \<and> ((\<forall>c \<in> set (l2s_calls s). over c) \<longrightarrow> held b' = held b) \<and> (\<exists>bs. l2s_breaker s = cb_run opts bs newBreaker)"
proof -
  have "rl_inv (held b) (rl_start (Some b))" using b held_bounds by (auto simp: rl_inv_def rl_start_def retained_def budget_ok_def)
  then have inv: "rl_inv (held b) s" using rl_run_inv [OF _ legal] s by simp
  have "l2s_budget s \<noteq> None" unfolding s rl_run_budget by (simp add: rl_start_def)
  then obtain b' where b': "l2s_budget s = Some b'" by blast
  have ok: "budget_ok b'" "\<And>c. held b' c = held b c + (if c = queue_category then retained s else 0)" using inv b' by (auto simp: rl_inv_def)
  have "held b' = held b" if "\<forall>c \<in> set (l2s_calls s). over c" using ok(2) all_over [OF inv that] by (auto simp: fun_eq_iff)
  moreover have "\<exists>bs. l2s_breaker s = cb_run opts bs newBreaker" using run_breaker [of opts es "rl_start (Some b)"] s by (simp add: rl_start_def)
  ultimately show ?thesis using b' ok by (auto simp: budget_ok_def ledger_ok_def)
qed

definition demo_l2_events :: "rl_event list" where
  "demo_l2_events = [L2Begin 0 130, L2Begin 0 140, L2Dispatch 0, L2Return 5 0 False, L2Return 6 1 False, L2Settle 0]"

definition demo_breaker_options :: CircuitBreakerOptions where
  "demo_breaker_options = \<lparr>cbo_enabled = None, cbo_failureThreshold = None, cbo_cooldownMs = None\<rparr>"

theorem l2_retention_exact_witness:
  "\<exists>b'. l2s_budget (rl_run demo_breaker_options demo_l2_events (rl_start (Some demo_budget))) = Some b' \<and> held b' = held demo_budget"
proof -
  let ?s = "rl_run demo_breaker_options demo_l2_events (rl_start (Some demo_budget))"
  have "rl_legal_run demo_breaker_options demo_l2_events (rl_start (Some demo_budget))" by code_simp
  moreover have "list_all over (l2s_calls ?s)" by code_simp
  ultimately show ?thesis using l2_retention_exact [OF demo_budget_ok _ refl, of demo_breaker_options demo_l2_events] by (auto simp: list_all_iff)
qed

end
