(* ===== verification/Distributed_Lock.thy ===== *)
theory Distributed_Lock
  imports Cache_State
begin

text \<open>
  The distributed lock around a load: the local lease that \<open>maintainLock\<close> keeps
  (\<open>cache/distributedLock.ts\<close>) as a machine driven by its timers and the answers to its renewals, and the
  loop that waits for the lock (\<open>loadWithDistributedLockInternal\<close> of \<open>cache/hybridCache.ts\<close>) as a function of
  what each poll observes. Times are those of the monotonic clock.
\<close>

section \<open>The lease\<close>

text \<open>
  The two timers hold the time they fire at; \<open>ll_renewing\<close> is the start of the renewal in progress.
  \<open>ll_error\<close> says that the loss was recorded, which aborts the controller and rejects \<open>lost\<close>.
\<close>

record LoadLease =
  ll_ttlMs :: real
  ll_renewable :: bool
  ll_deadline :: real
  ll_stopped :: bool
  ll_error :: bool
  ll_expiryTimer :: "real option"
  ll_renewalTimer :: "real option"
  ll_renewing :: "real option"

definition ll_stop :: "LoadLease \<Rightarrow> LoadLease" where
  "ll_stop l = l\<lparr>ll_stopped := True, ll_renewalTimer := None, ll_expiryTimer := None\<rparr>"

definition ll_lose :: "LoadLease \<Rightarrow> LoadLease" where
  "ll_lose l = (if ll_stopped l then l else ll_stop (l\<lparr>ll_error := True\<rparr>))"

text \<open>\<open>assertOwned\<close>: \<open>False\<close> when it throws.\<close>

definition ll_assertOwned :: "real \<Rightarrow> LoadLease \<Rightarrow> bool \<times> LoadLease" where
  "ll_assertOwned now l = (let l1 = (if \<not> ll_stopped l \<and> ll_deadline l \<le> now then ll_lose l else l) in (\<not> ll_error l1, l1))"

definition ll_schedule :: "real \<Rightarrow> LoadLease \<Rightarrow> LoadLease" where
  "ll_schedule now l = (let l1 = l\<lparr>ll_expiryTimer := Some (now + max 0 (ll_deadline l - now))\<rparr> in
     if \<not> ll_renewable l1 then l1
     else l1\<lparr>ll_renewalTimer := Some (now + max 1 (min (ll_ttlMs l1 / 3) ((ll_deadline l1 - now) / 3)))\<rparr>)"

text \<open>\<open>elapsed\<close> is \<open>Date.now() - acquiredAt\<close>.\<close>

definition maintainLock :: "real \<Rightarrow> real \<Rightarrow> real \<Rightarrow> bool \<Rightarrow> LoadLease" where
  "maintainLock ttlMs elapsed now renewable = ll_schedule now
     \<lparr>ll_ttlMs = ttlMs, ll_renewable = renewable, ll_deadline = now + max 0 (ttlMs - max 0 elapsed), ll_stopped = False, ll_error = False,
      ll_expiryTimer = None, ll_renewalTimer = None, ll_renewing = None\<rparr>"

text \<open>The callback of the renewal timer up to its await, and after it; \<open>None\<close> is a renewal that threw.\<close>

definition ll_renew :: "real \<Rightarrow> LoadLease \<Rightarrow> LoadLease" where
  "ll_renew now l = (let r = ll_assertOwned now (l\<lparr>ll_renewalTimer := None\<rparr>) in
     if fst r then (snd r)\<lparr>ll_renewing := Some now\<rparr> else ll_lose (snd r))"

definition ll_renewed :: "real \<Rightarrow> bool option \<Rightarrow> LoadLease \<Rightarrow> LoadLease" where
  "ll_renewed now renewed l = (case ll_renewing l of None \<Rightarrow> l
     | Some startedAt \<Rightarrow> let l0 = l\<lparr>ll_renewing := None\<rparr> in
         case renewed of None \<Rightarrow> ll_lose l0
         | Some ok \<Rightarrow> if ll_stopped l0 then l0
             else let r = ll_assertOwned now l0 in
               if \<not> fst r then ll_lose (snd r)
               else if \<not> ok then ll_lose (snd r)
               else ll_schedule now ((snd r)\<lparr>ll_deadline := startedAt + ll_ttlMs (snd r), ll_expiryTimer := None\<rparr>))"

text \<open>
  The lease with the lock at the store: \<open>lk_until\<close> is when the lock lapses there, \<open>lk_served\<close> whether
  the store has extended it for the renewal in progress. The clock only moves forward.
\<close>

record lock_world =
  lk_lease :: LoadLease
  lk_until :: real
  lk_clock :: real
  lk_served :: bool

inductive lock_reach :: "lock_world \<Rightarrow> bool" where
  acquired: "asked \<le> granted \<Longrightarrow> granted \<le> now \<Longrightarrow> now - asked \<le> elapsed \<Longrightarrow> 0 < ttlMs \<Longrightarrow> now < granted + ttlMs \<Longrightarrow>
    lock_reach \<lparr>lk_lease = maintainLock ttlMs elapsed now renewable, lk_until = granted + ttlMs, lk_clock = now, lk_served = False\<rparr>"
| expired: "lock_reach w \<Longrightarrow> ll_expiryTimer (lk_lease w) = Some fires \<Longrightarrow> fires \<le> now \<Longrightarrow> lk_clock w \<le> now \<Longrightarrow>
    lock_reach (w\<lparr>lk_lease := ll_lose (lk_lease w), lk_clock := now\<rparr>)"
| renewal: "lock_reach w \<Longrightarrow> ll_renewalTimer (lk_lease w) = Some fires \<Longrightarrow> fires \<le> now \<Longrightarrow> lk_clock w \<le> now \<Longrightarrow>
    lock_reach (w\<lparr>lk_lease := ll_renew now (lk_lease w), lk_clock := now, lk_served := False\<rparr>)"
| served: "lock_reach w \<Longrightarrow> ll_renewing (lk_lease w) \<noteq> None \<Longrightarrow> lk_clock w \<le> now \<Longrightarrow> now < lk_until w \<Longrightarrow>
    lock_reach (w\<lparr>lk_until := now + ll_ttlMs (lk_lease w), lk_clock := now, lk_served := True\<rparr>)"
| answered: "lock_reach w \<Longrightarrow> (renewed = Some True \<Longrightarrow> lk_served w) \<Longrightarrow> lk_clock w \<le> now \<Longrightarrow>
    lock_reach (w\<lparr>lk_lease := ll_renewed now renewed (lk_lease w), lk_clock := now\<rparr>)"
| asserted: "lock_reach w \<Longrightarrow> lk_clock w \<le> now \<Longrightarrow> lock_reach (w\<lparr>lk_lease := snd (ll_assertOwned now (lk_lease w)), lk_clock := now\<rparr>)"
| stopped: "lock_reach w \<Longrightarrow> lock_reach (w\<lparr>lk_lease := ll_stop (lk_lease w)\<rparr>)"

definition lock_inv :: "lock_world \<Rightarrow> bool" where
  "lock_inv w \<longleftrightarrow> (let l = lk_lease w in 0 < ll_ttlMs l \<and> ll_deadline l \<le> lk_until w \<and> (ll_error l \<longrightarrow> ll_stopped l)
     \<and> (\<forall>t. ll_renewing l = Some t \<longrightarrow> t \<le> lk_clock w \<and> ll_deadline l \<le> t + ll_ttlMs l \<and> (lk_served w \<longrightarrow> t + ll_ttlMs l \<le> lk_until w))
     \<and> ll_deadline l \<le> lk_clock w + ll_ttlMs l
     \<and> (if ll_stopped l then ll_expiryTimer l = None \<and> ll_renewalTimer l = None
        else \<exists>t. ll_expiryTimer l = Some t \<and> t \<le> max (lk_clock w) (ll_deadline l)))"

lemmas ll_defs = ll_lose_def ll_stop_def ll_assertOwned_def ll_schedule_def ll_renew_def ll_renewed_def maintainLock_def lock_inv_def Let_def

lemma lock_reach_inv: "lock_reach w \<Longrightarrow> lock_inv w"
proof (induction rule: lock_reach.induct)
  case (acquired asked granted now elapsed ttlMs renewable)
  then show ?case by (auto simp: ll_defs)
next
  case (answered w renewed now)
  then show ?case by (auto simp: ll_defs split: option.splits if_splits)
qed (auto simp: ll_defs split: option.splits if_splits)

section \<open>Settings of the lock\<close>

definition distributedLockEnabled :: "CacheOptions \<Rightarrow> 'c HybridCache \<Rightarrow> bool" where
  "distributedLockEnabled options h = both_on (\<lambda>x. dl_enabled (co_distributedLock x)) options (own h)"

definition lock_ttl :: "CacheOptions \<Rightarrow> 'c HybridCache \<Rightarrow> jsnum" where
  "lock_ttl options h = pick (\<lambda>x. dl_ttlMs (co_distributedLock x)) options (own h) (jint DEFAULT_LOCK_TTL_MS)"

definition lock_poll :: "CacheOptions \<Rightarrow> 'c HybridCache \<Rightarrow> jsnum" where
  "lock_poll options h = pick (\<lambda>x. dl_pollMs (co_distributedLock x)) options (own h) (jint DEFAULT_LOCK_POLL_MS)"

definition loader_hardMs :: "CacheOptions \<Rightarrow> 'c HybridCache \<Rightarrow> jsnum" where
  "loader_hardMs options h = pick (\<lambda>x. to_hardMs (co_timeouts x)) options (own h) (jint DEFAULT_LOADER_HARD_TIMEOUT_MS)"

definition getLockWaitTimeoutMs :: "CacheOptions \<Rightarrow> 'c HybridCache \<Rightarrow> jsnum" where
  "getLockWaitTimeoutMs options h = pick (\<lambda>x. dl_waitTimeoutMs (co_distributedLock x)) options (own h)
     (jadd (jmax (lock_ttl options h) (loader_hardMs options h)) (lock_poll options h))"

text \<open>\<open>locks\<close> says whether the L2 store supports the lock (\<open>supportsDistributedLock\<close>).\<close>

definition getInflightTtlMs :: "bool \<Rightarrow> CacheOptions \<Rightarrow> 'c HybridCache \<Rightarrow> jsnum" where
  "getInflightTtlMs locks options h = pick (\<lambda>x. io_ttlMs (co_inflight x)) options (own h)
     (let waitMs = (if distributedLockEnabled options h \<and> locks then getLockWaitTimeoutMs options h else jint 0) in
      jmax (jint DEFAULT_INFLIGHT_TTL_MS) (jadd (jadd waitMs (loader_hardMs options h)) (jint DEFAULT_LOCK_POLL_MS)))"

definition getInflightExpiresAt :: "int \<Rightarrow> bool \<Rightarrow> CacheOptions \<Rightarrow> 'c HybridCache \<Rightarrow> jsnum option" where
  "getInflightExpiresAt now locks options h = Some (jadd (jint now) (getInflightTtlMs locks options h))"

record lock_settings =
  ls_ttlMs :: real
  ls_pollMs :: real
  ls_waitMs :: real
  ls_onTimeout :: on_timeout

definition lock_settings_of :: "CacheOptions \<Rightarrow> 'c HybridCache \<Rightarrow> js_error + lock_settings" where
  "lock_settings_of options h = (case (lock_ttl options h, lock_poll options h, getLockWaitTimeoutMs options h) of
     (JNum ttl, JNum poll, JNum wait) \<Rightarrow>
       if 0 < ttl \<and> 0 \<le> wait \<and> 0 < poll
       then Inr \<lparr>ls_ttlMs = ttl, ls_pollMs = poll, ls_waitMs = wait, ls_onTimeout = pick (\<lambda>x. dl_onTimeout (co_distributedLock x)) options (own h) TimeoutThrow\<rparr>
       else Inl (RangeError ''Distributed lock ttlMs and pollMs must be positive and finite, and waitTimeoutMs must be non-negative and finite'')
   | _ \<Rightarrow> Inl (RangeError ''Distributed lock ttlMs and pollMs must be positive and finite, and waitTimeoutMs must be non-negative and finite''))"

section \<open>Waiting for the lock\<close>

text \<open>
  What one turn of the loop observes: an abort or a close at its start, the answer of \<open>acquireLock\<close> (\<open>None\<close>
  when the call failed), the time before it sleeps, and the read, the negative answer and the time after it.
  The read that follows an acquisition is the same field: it comes before any sleep.
\<close>

record lock_poll_result =
  lp_throws :: "js_error option"
  lp_acquired :: "bool option"
  lp_before :: real
  lp_cached :: jsval
  lp_negative :: bool
  lp_after :: real

datatype lock_decision = LockThrows js_error | LockCached jsval | LockNegative | LoadLeased | LoadUnleased | LockTimedOut

text \<open>How long a turn sleeps.\<close>

definition lock_sleep :: "real \<Rightarrow> real \<Rightarrow> real \<Rightarrow> real" where
  "lock_sleep pollMs waitUntil now = (if 0 < waitUntil - now then min pollMs (waitUntil - now) else 0)"

fun lock_wait :: "bool \<Rightarrow> real \<Rightarrow> lock_poll_result list \<Rightarrow> lock_decision option" where
  "lock_wait contended waitUntil [] = None"
| "lock_wait contended waitUntil (p # ps) = (case lp_throws p of Some e \<Rightarrow> Some (LockThrows e)
     | None \<Rightarrow>
       if lp_acquired p = Some True
       then Some (if lp_cached p \<noteq> VUndefined then LockCached (lp_cached p) else if lp_negative p then LockNegative else LoadLeased)
       else if lp_acquired p = None \<and> \<not> contended then Some LoadUnleased
       else if lp_cached p \<noteq> VUndefined then Some (LockCached (lp_cached p))
       else if lp_negative p then Some LockNegative
       else if waitUntil \<le> lp_after p then Some LockTimedOut
       else lock_wait True waitUntil ps)"

text \<open>A turn sleeps at least as long as it was told to, and turns follow each other.\<close>

fun lock_timely :: "real \<Rightarrow> real \<Rightarrow> real \<Rightarrow> lock_poll_result list \<Rightarrow> bool" where
  "lock_timely pollMs waitUntil now [] \<longleftrightarrow> True"
| "lock_timely pollMs waitUntil now (p # ps) \<longleftrightarrow> now \<le> lp_before p \<and> lp_before p + lock_sleep pollMs waitUntil (lp_before p) \<le> lp_after p
     \<and> lock_timely pollMs waitUntil (lp_after p) ps"

lemma contended_waits: "lock_wait True waitUntil ps \<noteq> Some LoadUnleased"
  by (induction ps) (auto split: option.splits)

lemma lock_wait_time:
  assumes "lock_timely pollMs waitUntil now ps" and "lock_wait contended waitUntil ps = None" and "0 < pollMs" and "now < waitUntil"
  shows "now + pollMs * real (length ps) < waitUntil"
  using assms
proof (induction ps arbitrary: now contended)
  case (Cons p ps)
  have a: "lp_after p < waitUntil" "lock_wait True waitUntil ps = None" using Cons.prems(2) by (auto split: option.splits if_splits)
  have "lp_before p + pollMs \<le> lp_after p" using Cons.prems(1) a(1) by (auto simp: lock_sleep_def min_def split: if_splits)
  moreover have "lp_after p + pollMs * real (length ps) < waitUntil" using Cons.IH [OF _ a(2)] Cons.prems(1,3) a(1) by simp
  ultimately show ?case using Cons.prems(1) by (simp add: algebra_simps)
qed simp

section \<open>Witness data\<close>

definition demo_poll :: "bool option \<Rightarrow> real \<Rightarrow> lock_poll_result" where
  "demo_poll acquired now = \<lparr>lp_throws = None, lp_acquired = acquired, lp_before = now, lp_cached = VUndefined, lp_negative = False, lp_after = now + 50\<rparr>"

definition demo_lease_world :: lock_world where
  "demo_lease_world = \<lparr>lk_lease = maintainLock 9 1 3 True, lk_until = 2 + 9, lk_clock = 3, lk_served = False\<rparr>"

lemma demo_lease_reach: "lock_reach demo_lease_world"
  unfolding demo_lease_world_def by (rule lock_reach.acquired [of 2]) simp_all

section \<open>Properties\<close>





end
