(* ===== verification/Single_Flight.thy ===== *)
theory Single_Flight
  imports Distributed_Lock Cache_Runs
begin

text \<open>
  Sharing one load between concurrent callers (\<open>getOrSet\<close> of \<open>cache/hybridCache.ts\<close>): the synchronous parts
  of \<open>getOrSet\<close> before and after its read, as functions to what the caller does next.
\<close>

section \<open>Decisions\<close>

text \<open>
  \<open>GJoin\<close> follows the load with this promise, \<open>GOverload\<close> is \<open>InflightOverloadError\<close>, \<open>GRead\<close> reads the caches first,
  \<open>GTracked\<close> loads as the leader other callers join, \<open>GUntracked\<close> loads on its own.
\<close>

datatype flight = GThrow js_error | GOverload | GJoin nat | GRead | GReturn jsval | GTracked | GUntracked

text \<open>Joining: the follower is counted, or refused.\<close>

definition join_flight :: "CacheOptions \<Rightarrow> nat \<Rightarrow> 'c HybridCache \<Rightarrow> flight \<times> 'c HybridCache" where
  "join_flight options p h = (let r = joinInflight options h in (if fst r then GJoin p else GOverload, snd r))"

definition live_flight :: "int \<Rightarrow> CacheKey \<Rightarrow> 'c HybridCache \<Rightarrow> InflightEntry option" where
  "live_flight now key h = (case om_get (hc_inflight h) key of Some e \<Rightarrow> if isInflightExpired now e then None else Some e | None \<Rightarrow> None)"

definition getOrSet_begin :: "int \<Rightarrow> CacheKey \<Rightarrow> CacheOptions \<Rightarrow> 'c HybridCache \<Rightarrow> flight \<times> 'c HybridCache" where
  "getOrSet_begin now key options h = (if hc_closed h then (GThrow (Error ''CACHE_CLOSED''), h)
     else case validateCacheBudgets options of Some e \<Rightarrow> (GThrow e, h)
     | None \<Rightarrow> if inflightDisabled options h then (GRead, h)
         else let h1 = pruneInflightKey now key h in
           case live_flight now key h1 of Some e \<Rightarrow> join_flight options (ie_promise e) h1 | None \<Rightarrow> (GRead, h1))"

text \<open>After the read answered \<open>cached\<close>; \<open>promise\<close> names the load that is about to start.\<close>

definition getOrSet_read :: "'x event_env_scheme \<Rightarrow> int \<Rightarrow> CacheKey \<Rightarrow> CacheOptions \<Rightarrow> bool \<Rightarrow> nat \<Rightarrow> jsval \<Rightarrow> 'c HybridCache \<Rightarrow> flight \<times> 'c HybridCache" where
  "getOrSet_read E now key options locks promise cached h = (if cached \<noteq> VUndefined then (GReturn cached, h)
     else if hc_closed h then (GThrow (Error ''ORIGIN_LOAD_CLOSED''), h)
     else let n = (if hc_trusted h then hasNegative now key h else (False, h)) in
       if fst n then (GReturn VUndefined, snd n)
       else if inflightDisabled options (snd n) then (GUntracked, snd n)
       else let h1 = pruneInflightKey now key (snd n) in
         case live_flight now key h1 of Some e \<Rightarrow> join_flight options (ie_promise e) h1
         | None \<Rightarrow> let r = startInflight E now key promise (getInflightExpiresAt now locks options h1) h1 in
             (if fst r then GTracked else GUntracked, snd r))"

section \<open>One leader\<close>

lemma pruned_absent: "live_flight now key (pruneInflightKey now key h) = None \<Longrightarrow> om_get (hc_inflight (pruneInflightKey now key h)) key = None"
  by (auto simp: live_flight_def pruneInflightKey_def removeInflight_def hc_release_def om_get_del split: option.splits if_splits)

lemma prune_live: "live_flight now key h = Some e \<Longrightarrow> pruneInflightKey now key h = h"
  by (auto simp: live_flight_def pruneInflightKey_def split: option.splits if_splits)

lemma started:
  assumes "fst (startInflight E now key p x h)"
  shows "\<exists>e. om_get (hc_inflight (snd (startInflight E now key p x h))) key = Some e \<and> ie_promise e = p \<and> ie_expiresAt e = x"
  using assms by (auto simp: startInflight_def Let_def om_get_set split: option.splits)

lemma negative_inflight: "hc_inflight (snd (hasNegative now key h)) = hc_inflight h"
  by (auto simp: hasNegative_def removeNegative_def hc_release_def split: option.splits)

lemma negative_disabled: "inflightDisabled options (snd (hasNegative now key h)) = inflightDisabled options h"
  using g_negative(3) [of now key h] by (simp add: inflightDisabled_def own_def gfields_def)

lemma join_result: "fst (join_flight options p h) \<in> {GJoin p, GOverload}"
  by (simp add: join_flight_def Let_def)

lemma expires_options: "hc_options h' = hc_options h \<Longrightarrow> getInflightExpiresAt now locks options h' = getInflightExpiresAt now locks options h"
  by (simp add: getInflightExpiresAt_def getInflightTtlMs_def getLockWaitTimeoutMs_def lock_ttl_def lock_poll_def loader_hardMs_def
      distributedLockEnabled_def own_def)

lemma prune_options: "hc_options (pruneInflightKey now key h) = hc_options h" "hc_options (snd (hasNegative now key h)) = hc_options h"
  using g_inflight(3) [of now key h] g_negative(3) [of now key h] by (simp_all add: gfields_def)

text \<open>The state a caller sees after the negative lookup.\<close>

definition looked_up :: "int \<Rightarrow> CacheKey \<Rightarrow> 'c HybridCache \<Rightarrow> bool \<times> 'c HybridCache" where
  "looked_up now key h = (if hc_trusted h then hasNegative now key h else (False, h))"

lemma looked_up_same: "live_flight t key (snd (looked_up now key h)) = live_flight t key h"
  "inflightDisabled options (snd (looked_up now key h)) = inflightDisabled options h" "hc_options (snd (looked_up now key h)) = hc_options h"
  by (simp_all add: looked_up_def live_flight_def negative_inflight negative_disabled prune_options)

lemma read_miss:
  "getOrSet_read E now key options locks p VUndefined h = (if hc_closed h then (GThrow (Error ''ORIGIN_LOAD_CLOSED''), h)
     else let n = looked_up now key h in
       if fst n then (GReturn VUndefined, snd n)
       else if inflightDisabled options h then (GUntracked, snd n)
       else case live_flight now key h of Some e \<Rightarrow> join_flight options (ie_promise e) (snd n)
         | None \<Rightarrow> let h1 = pruneInflightKey now key (snd n); r = startInflight E now key p (getInflightExpiresAt now locks options h) h1 in
             (if fst r then GTracked else GUntracked, snd r))"
proof -
  let ?n = "snd (looked_up now key h)"
  have "live_flight now key (pruneInflightKey now key ?n) = live_flight now key h"
  proof (cases "live_flight now key h")
    case None
    then show ?thesis using looked_up_same(1) [of now key now h]
      by (auto simp: live_flight_def pruneInflightKey_def removeInflight_def hc_release_def om_get_del split: option.splits if_splits)
  next
    case (Some e)
    then show ?thesis using looked_up_same(1) [of now key now h] prune_live by metis
  qed
  moreover have "pruneInflightKey now key ?n = ?n" if "live_flight now key h = Some e" for e
    using that looked_up_same(1) [of now key now h] prune_live by metis
  moreover have "getInflightExpiresAt now locks options (pruneInflightKey now key ?n) = getInflightExpiresAt now locks options h"
    by (rule expires_options) (simp add: prune_options looked_up_same)
  ultimately show ?thesis
    by (simp add: getOrSet_read_def looked_up_def [symmetric] looked_up_same Let_def split: option.split)
qed

section \<open>Properties\<close>

text \<open>
  C5. One load per key: a caller becomes the leader of a tracked load only when no live load of the key is
  registered, and until that entry expires or is removed every other caller, whether it has just arrived or
  has already missed the caches, joins that very load (or is refused as one follower too many), and the
  end of any other load leaves the entry alone.
\<close>

theorem one_leader:
  assumes lead: "getOrSet_read E now key options locks p VUndefined h = (GTracked, h1)" and entry: "om_get (hc_inflight h2) key = om_get (hc_inflight h1) key"
    and open2: "\<not> hc_closed h2" and live: "\<forall>x. getInflightExpiresAt now locks options h = Some x \<longrightarrow> \<not> jle x (jint later)"
    and ok: "validateCacheBudgets options' = None" "\<not> inflightDisabled options' h2"
  shows "live_flight now key h = None \<and> fst (getOrSet_begin later key options' h2) \<in> {GJoin p, GOverload}
    \<and> fst (getOrSet_read E' later key options' locks' p' VUndefined h2) \<in> {GJoin p, GOverload, GReturn VUndefined}
    \<and> (q \<noteq> p \<longrightarrow> om_get (hc_inflight (finishInflight key q h2)) key = om_get (hc_inflight h2) key)"
proof -
  let ?h = "pruneInflightKey now key (snd (looked_up now key h))"
  have none: "live_flight now key h = None" and h1: "fst (startInflight E now key p (getInflightExpiresAt now locks options h) ?h)"
    "h1 = snd (startInflight E now key p (getInflightExpiresAt now locks options h) ?h)"
    using lead join_result unfolding read_miss by (auto simp: Let_def join_flight_def split: if_splits option.splits)
  obtain e where e: "om_get (hc_inflight h2) key = Some e" "ie_promise e = p" "ie_expiresAt e = getInflightExpiresAt now locks options h"
    using started [OF h1(1)] entry h1(2) by auto
  have l: "live_flight later key h2 = Some e" using e live by (auto simp: live_flight_def isInflightExpired_def split: option.splits)
  have "fst (getOrSet_begin later key options' h2) \<in> {GJoin p, GOverload}"
    using l open2 ok join_result [of options' p h2] e(2) by (simp add: getOrSet_begin_def prune_live [OF l] Let_def)
  moreover have "fst (getOrSet_read E' later key options' locks' p' VUndefined h2) \<in> {GJoin p, GOverload, GReturn VUndefined}"
    using l open2 ok e(2) join_result [of options' p "snd (looked_up later key h2)"] unfolding read_miss by (auto simp: Let_def)
  moreover have "om_get (hc_inflight (finishInflight key q h2)) key = om_get (hc_inflight h2) key" if "q \<noteq> p"
    using e that by (auto simp: finishInflight_def)
  ultimately show ?thesis using none by blast
qed

definition demo_flight_options :: CacheOptions where
  "demo_flight_options = no_cache_options\<lparr>co_inflight := (co_inflight no_cache_options)\<lparr>io_ttlMs := Some (jint 1000)\<rparr>\<rparr>"

lemma demo_expires:
  assumes "getInflightExpiresAt 5 False demo_flight_options demo_cache = Some x"
  shows "\<not> jle x (jint 5)"
proof -
  have "x = jadd (jint 5) (jint 1000)"
    using assms by (simp add: getInflightExpiresAt_def getInflightTtlMs_def demo_flight_options_def pick_def)
  then have "jless (jint 5) x" using jadd_later [of 5 1000] by simp
  then show ?thesis by (cases x) auto
qed

text \<open>The first caller finds nothing and leads.\<close>

lemma demo_misses:
  "looked_up 5 demo_key demo_cache = (False, demo_cache)" "live_flight 5 demo_key demo_cache = None" "\<not> hc_closed demo_cache"
  "pruneInflightKey 5 demo_key demo_cache = demo_cache" "\<not> inflightDisabled demo_flight_options demo_cache"
  by (simp_all add: looked_up_def hasNegative_def live_flight_def pruneInflightKey_def inflightDisabled_def demo_cache_def fresh_cache_def om_get_def
      own_def demo_flight_options_def no_cache_options_def demo_cache_options_def demo_store_options_def CacheOptions.defs)

lemma demo_start:
  "case startInflight demo_event_env 5 demo_key 1 x demo_cache of (ok, h) \<Rightarrow> ok \<and> \<not> hc_closed h \<and> \<not> inflightDisabled demo_flight_options h"
  by code_simp

lemma demo_valid: "validateCacheBudgets demo_flight_options = None"
  by code_simp

theorem one_leader_witness:
  "\<exists>h. getOrSet_read demo_event_env 5 demo_key demo_flight_options False 1 VUndefined demo_cache = (GTracked, h)
     \<and> fst (getOrSet_begin 5 demo_key demo_flight_options h) \<in> {GJoin 1, GOverload}"
proof -
  let ?x = "getInflightExpiresAt 5 False demo_flight_options demo_cache"
  obtain h where s: "startInflight demo_event_env 5 demo_key 1 ?x demo_cache = (True, h)" "\<not> hc_closed h" "\<not> inflightDisabled demo_flight_options h"
    using demo_start [of ?x] by auto
  have l: "getOrSet_read demo_event_env 5 demo_key demo_flight_options False 1 VUndefined demo_cache = (GTracked, h)"
    unfolding read_miss demo_misses Let_def by (simp only: demo_misses s fst_conv snd_conv simp_thms if_False if_True option.case)
  have e: "\<forall>x. ?x = Some x \<longrightarrow> \<not> jle x (jint 5)" using demo_expires by simp
  show ?thesis
    using l conjunct1 [OF conjunct2 [OF one_leader [OF l refl s(2) e demo_valid s(3), where q = 1 and E' = demo_event_env and locks' = False and p' = 2]]]
    by blast
qed

end
