(* ===== verification/Redis_Keys.thy ===== *)
theory Redis_Keys
  imports JS_Value Pattern
begin

text \<open>
  The keys a cache uses in Redis (\<open>cache/redisStore.ts\<close>): the two layouts of data and lock keys, the
  parser that recognises them again in a scan, and the glob patterns of such a scan. Keys are strings as
  the client is given them. The theory shows that parsing inverts the layout and accepts nothing else,
  and that the glob of a pattern covers every key the pattern matches.
\<close>

section \<open>Text encodings of the standard library\<close>

text \<open>\<open>encodeURIComponent\<close>; nothing for a string with a lone surrogate, where it throws.\<close>

definition uri_unreserved :: "byte \<Rightarrow> bool" where
  "uri_unreserved b \<longleftrightarrow> alnum_unit (ucast b) \<or> b \<in> set (bs ''-_.!~*()'') \<or> b = 39"

definition hex_upper :: "nat \<Rightarrow> unit16" where
  "hex_upper n = of_nat (if n < 10 then 48 + n else 55 + n)"

definition uri_byte :: "byte \<Rightarrow> jsstr" where
  "uri_byte b = (if uri_unreserved b then [ucast b] else [37, hex_upper (unat b div 16), hex_upper (unat b mod 16)])"

definition encodeURIComponent :: "jsstr \<Rightarrow> jsstr option" where
  "encodeURIComponent s = (if isWellFormedUnicode s then Some (concat (map uri_byte (utf8 s))) else None)"

text \<open>\<open>Buffer.from(s, 'utf16le').toString('base64url')\<close>, which writes no padding.\<close>

definition utf16le :: "jsstr \<Rightarrow> bytes" where
  "utf16le s = concat (map (\<lambda>c. [of_nat (unat c mod 256), of_nat (unat c div 256)]) s)"

definition base64_unit :: "nat \<Rightarrow> unit16" where
  "base64_unit n = of_nat (if n < 26 then 65 + n else if n < 52 then 71 + n else if n < 62 then n - 4 else if n = 62 then 45 else 95)"

fun base64url :: "bytes \<Rightarrow> jsstr" where
  "base64url [] = []"
| "base64url [a] = [base64_unit (unat a div 4), base64_unit (unat a mod 4 * 16)]"
| "base64url [a, b] = [base64_unit (unat a div 4), base64_unit (unat a mod 4 * 16 + unat b div 16), base64_unit (unat b mod 16 * 4)]"
| "base64url (a # b # c # r) = base64_unit (unat a div 4) # base64_unit (unat a mod 4 * 16 + unat b div 16)
     # base64_unit (unat b mod 16 * 4 + unat c div 64) # base64_unit (unat c mod 64) # base64url r"

section \<open>The layouts\<close>

definition VERSIONED_KEY_PREFIX :: jsstr where
  "VERSIONED_KEY_PREFIX = js ''lazy-layers:v2:''"

definition lock_text :: jsstr where
  "lock_text = js ''__lock:''"

text \<open>What the key functions read of a store: \<open>useVersionedKeys\<close>, \<open>prefix\<close> and \<open>indexKey\<close>.\<close>

record key_layout =
  kl_versioned :: bool
  kl_prefix :: jsstr
  kl_indexKey :: jsstr

definition toSlotTag :: "jsstr \<Rightarrow> jsstr" where
  "toSlotTag logicalKey = (case encodeURIComponent logicalKey of
     Some t \<Rightarrow> if t = [] then js ''_'' else t
   | None \<Rightarrow> js ''utf16:'' @ base64url (utf16le logicalKey))"

definition slot_head :: "jsstr \<Rightarrow> jsstr" where
  "slot_head logicalKey = VERSIONED_KEY_PREFIX @ js ''{'' @ toSlotTag logicalKey @ js ''}:''"

definition toRedisKey :: "'x key_layout_scheme \<Rightarrow> jsstr \<Rightarrow> jsstr" where
  "toRedisKey K logicalKey = (if kl_versioned K then slot_head logicalKey @ kl_prefix K @ logicalKey else kl_prefix K @ logicalKey)"

definition toLockKey :: "'x key_layout_scheme \<Rightarrow> jsstr \<Rightarrow> jsstr" where
  "toLockKey K logicalKey = (if kl_versioned K then slot_head logicalKey @ kl_prefix K @ lock_text @ logicalKey
     else kl_prefix K @ lock_text @ logicalKey)"

definition assertDataKey :: "'x key_layout_scheme \<Rightarrow> jsstr \<Rightarrow> js_error option" where
  "assertDataKey K key = (if \<not> kl_versioned K \<and> (prefix lock_text key \<or> toRedisKey K key = kl_indexKey K)
     then Some (RangeError ''RedisStore legacy key collides with reserved index/lease metadata; use a different key or v2 layout'') else None)"

datatype key_kind = DataKey | LockKey

text \<open>\<open>redisKey.slice(redisKey.indexOf('}:') + 2)\<close>.\<close>

fun after_tag :: "jsstr \<Rightarrow> jsstr option" where
  "after_tag [] = None"
| "after_tag (c # cs) = (case cs of [] \<Rightarrow> None | d # r \<Rightarrow> if c = 125 \<and> d = 58 then Some r else after_tag cs)"

definition parseRedisKey :: "'x key_layout_scheme \<Rightarrow> jsstr \<Rightarrow> (key_kind \<times> jsstr) option" where
  "parseRedisKey K redisKey =
     (if redisKey = kl_indexKey K then None
      else if \<not> kl_versioned K
      then (if \<not> prefix (kl_prefix K) redisKey then None
            else let logicalKey = drop (length (kl_prefix K)) redisKey in
              if prefix lock_text logicalKey then Some (LockKey, drop (length lock_text) logicalKey) else Some (DataKey, logicalKey))
      else if \<not> prefix (VERSIONED_KEY_PREFIX @ js ''{'') redisKey then None
      else case after_tag (drop (length VERSIONED_KEY_PREFIX) redisKey) of None \<Rightarrow> None
        | Some rest \<Rightarrow>
            if \<not> prefix (kl_prefix K) rest then None
            else let logicalKey = drop (length (kl_prefix K)) rest in
              if toRedisKey K logicalKey = redisKey then Some (DataKey, logicalKey)
              else if prefix lock_text logicalKey \<and> toLockKey K (drop (length lock_text) logicalKey) = redisKey
              then Some (LockKey, drop (length lock_text) logicalKey)
              else None)"

definition toLogicalKey :: "'x key_layout_scheme \<Rightarrow> jsstr \<Rightarrow> jsstr" where
  "toLogicalKey K redisKey = (case parseRedisKey K redisKey of Some (_, logicalKey) \<Rightarrow> logicalKey | None \<Rightarrow> redisKey)"

definition isDataKey :: "'x key_layout_scheme \<Rightarrow> jsstr \<Rightarrow> bool" where
  "isDataKey K redisKey = (case parseRedisKey K redisKey of Some (DataKey, _) \<Rightarrow> True | _ \<Rightarrow> False)"

section \<open>Glob patterns of a scan\<close>

definition escapeRedisGlob :: "jsstr \<Rightarrow> jsstr" where
  "escapeRedisGlob value = concat (map (\<lambda>c. if c \<in> set (js [CHR 0x5c, CHR ''*'', CHR ''?'', CHR ''['', CHR '']'']) then [92, c] else [c]) value)"

definition cachePatternToRedisGlob :: "jsstr \<Rightarrow> jsstr" where
  "cachePatternToRedisGlob value = concat (map (\<lambda>c. if c \<in> set (js [CHR 0x5c, CHR ''?'', CHR ''['', CHR '']'']) then [92, c] else [c]) value)"

definition toRedisPattern :: "'x key_layout_scheme \<Rightarrow> jsstr \<Rightarrow> jsstr" where
  "toRedisPattern K pattern = (if kl_versioned K then VERSIONED_KEY_PREFIX @ js ''*:'' @ escapeRedisGlob (kl_prefix K) @ cachePatternToRedisGlob pattern
     else escapeRedisGlob (kl_prefix K) @ cachePatternToRedisGlob pattern)"

definition lockPattern :: "'x key_layout_scheme \<Rightarrow> jsstr \<Rightarrow> jsstr" where
  "lockPattern K pattern = VERSIONED_KEY_PREFIX @ js ''*:'' @ escapeRedisGlob (kl_prefix K) @ lock_text @ cachePatternToRedisGlob pattern"

section \<open>Slot tags\<close>

text \<open>A tag holds no closing brace, so the first one after the head ends it.\<close>

lemma of_nat_not_brace: "n < 65536 \<Longrightarrow> n \<noteq> 125 \<Longrightarrow> (of_nat n :: unit16) \<noteq> 125"
proof
  assume n: "n < 65536" "n \<noteq> 125" and "(of_nat n :: unit16) = 125"
  then have "unat (of_nat n :: unit16) = 125" by simp
  then show False using n by (simp add: unat_of_nat)
qed

lemma hex_upper_not_brace: "n < 16 \<Longrightarrow> hex_upper n \<noteq> 125"
  unfolding hex_upper_def by (rule of_nat_not_brace) auto

lemma base64_not_brace: "n < 64 \<Longrightarrow> base64_unit n \<noteq> 125"
  unfolding base64_unit_def by (rule of_nat_not_brace) auto

lemma unat_byte_lt: "unat (b :: byte) < 256"
  using unsigned_less [of b] by simp

lemma uri_byte_not_brace: "125 \<notin> set (uri_byte b)"
proof (cases "uri_unreserved b")
  case True
  have "uri_byte 125 = [37, 55, 68]" by code_simp
  moreover have "\<not> uri_unreserved 125" by code_simp
  ultimately have "b \<noteq> 125" using True by auto
  have "(ucast b :: unit16) \<noteq> 125"
  proof
    assume "(ucast b :: unit16) = 125"
    then have "unat (ucast b :: unit16) = 125" by simp
    then have "unat b = unat (125 :: byte)" using unat_byte_lt [of b] by (simp add: unsigned_ucast_eq take_bit_nat_def)
    then show False using unsigned_word_eqI [of b 125] \<open>b \<noteq> 125\<close> by blast
  qed
  then show ?thesis using True by (simp add: uri_byte_def)
next
  case False
  then show ?thesis using hex_upper_not_brace [of "unat b div 16"] hex_upper_not_brace [of "unat b mod 16"] unat_byte_lt [of b]
    by (auto simp: uri_byte_def)
qed

lemma base64url_not_brace: "125 \<notin> set (base64url xs)"
proof (induction xs rule: base64url.induct)
  case (4 a b c r)
  then show ?case
    using base64_not_brace [of "unat a div 4"] base64_not_brace [of "unat a mod 4 * 16 + unat b div 16"]
      base64_not_brace [of "unat b mod 16 * 4 + unat c div 64"] base64_not_brace [of "unat c mod 64"] unat_byte_lt [of a] unat_byte_lt [of b] unat_byte_lt [of c]
    by auto
next
  case (2 a)
  then show ?case using base64_not_brace [of "unat a div 4"] base64_not_brace [of "unat a mod 4 * 16"] unat_byte_lt [of a] by auto
next
  case (3 a b)
  then show ?case
    using base64_not_brace [of "unat a div 4"] base64_not_brace [of "unat a mod 4 * 16 + unat b div 16"] base64_not_brace [of "unat b mod 16 * 4"]
      unat_byte_lt [of a] unat_byte_lt [of b] by auto
qed simp

lemma slot_tag_not_brace: "125 \<notin> set (toSlotTag s)"
  using uri_byte_not_brace base64url_not_brace [of "utf16le s"]
  by (auto simp: toSlotTag_def encodeURIComponent_def js_def)

lemma after_tag_split: "125 \<notin> set t \<Longrightarrow> after_tag (t @ 125 # 58 # r) = Some r"
proof (induction t)
  case (Cons c t)
  then show ?case by (cases t) auto
qed simp

text \<open>The tag of a key differs from the tag of a key of the same name as its lock.\<close>

lemma well_formed_lock: "isWellFormedUnicode (lock_text @ s) = isWellFormedUnicode s"
  by (simp add: lock_text_def js_def high_surrogate_def low_surrogate_def)

lemma encode_lock: "concat (map uri_byte (utf8 (lock_text @ s))) = js ''__lock%3A'' @ concat (map uri_byte (utf8 s))"
proof -
  have "utf8 (lock_text @ s) = bs ''__lock:'' @ utf8 s" by (simp add: lock_text_def js_def bs_def)
  moreover have "concat (map uri_byte (bs ''__lock:'')) = js ''__lock%3A''" by code_simp
  ultimately show ?thesis by simp
qed

lemma length_base64url: "length (base64url xs) = (4 * length xs + 2) div 3"
  by (induction xs rule: base64url.induct) simp_all

lemma length_utf16le: "length (utf16le s) = 2 * length s"
  by (induction s) (simp_all add: utf16le_def)

lemma slot_tag_lock: "toSlotTag (lock_text @ s) \<noteq> toSlotTag s"
proof -
  have l: "length lock_text = 7" "length (js ''__lock%3A'') = 9" "length (js ''_'') = 1" by (simp_all add: lock_text_def js_def)
  have "length (toSlotTag (lock_text @ s)) \<noteq> length (toSlotTag s)"
    using l by (auto simp: toSlotTag_def encodeURIComponent_def well_formed_lock encode_lock length_base64url length_utf16le)
  then show ?thesis by auto
qed

text \<open>Two keys share a tag: the empty key is given the tag of the key of one underscore.\<close>

lemma empty_key_shares_slot: "toSlotTag [] = toSlotTag (js ''_'')"
  by code_simp

lemma brace_split: "125 \<notin> set t \<Longrightarrow> 125 \<notin> set u \<Longrightarrow> t @ 125 # x = u @ 125 # y \<longleftrightarrow> t = u \<and> x = (y :: jsstr)"
proof (induction t arbitrary: u)
  case Nil
  then show ?case by (cases u) auto
next
  case (Cons c t)
  then show ?case by (cases u) auto
qed

lemma slot_head_eq: "slot_head a @ x = slot_head b @ y \<longleftrightarrow> toSlotTag a = toSlotTag b \<and> x = y"
proof -
  have "slot_head c @ z = (VERSIONED_KEY_PREFIX @ js ''{'') @ toSlotTag c @ 125 # 58 # z" for c z
    by (simp add: slot_head_def js_def)
  then show ?thesis
    using brace_split [OF slot_tag_not_brace slot_tag_not_brace, of a "58 # x" b "58 # y"] by simp
qed

section \<open>Parsing\<close>

lemma head_prefix: "prefix (VERSIONED_KEY_PREFIX @ js ''{'') (slot_head a @ x)"
  by (simp add: slot_head_def)

lemma head_after: "after_tag (drop (length VERSIONED_KEY_PREFIX) (slot_head a @ x)) = Some x"
proof -
  have "drop (length VERSIONED_KEY_PREFIX) (slot_head a @ x) = (123 # toSlotTag a) @ 125 # 58 # x" by (simp add: slot_head_def js_def)
  moreover have "125 \<notin> set (123 # toSlotTag a)" using slot_tag_not_brace [of a] by simp
  ultimately show ?thesis using after_tag_split by metis
qed

lemma parse_head:
  assumes "kl_versioned K" and "slot_head a @ x \<noteq> kl_indexKey K"
  shows "parseRedisKey K (slot_head a @ x) = (if \<not> prefix (kl_prefix K) x then None
     else let logicalKey = drop (length (kl_prefix K)) x in
       if toRedisKey K logicalKey = slot_head a @ x then Some (DataKey, logicalKey)
       else if prefix lock_text logicalKey \<and> toLockKey K (drop (length lock_text) logicalKey) = slot_head a @ x
       then Some (LockKey, drop (length lock_text) logicalKey) else None)"
  using assms head_prefix [of a x] by (simp add: parseRedisKey_def head_after del: drop_append)

lemma parse_data:
  assumes "assertDataKey K s = None" and "toRedisKey K s \<noteq> kl_indexKey K"
  shows "parseRedisKey K (toRedisKey K s) = Some (DataKey, s)"
proof (cases "kl_versioned K")
  case True
  then show ?thesis using assms parse_head [of K s "kl_prefix K @ s"] by (simp add: toRedisKey_def Let_def)
next
  case False
  then show ?thesis using assms by (simp add: parseRedisKey_def toRedisKey_def assertDataKey_def Let_def split: if_splits)
qed

lemma parse_lock:
  assumes "toLockKey K s \<noteq> kl_indexKey K"
  shows "parseRedisKey K (toLockKey K s) = Some (LockKey, s)"
proof (cases "kl_versioned K")
  case True
  have "slot_head (lock_text @ s) @ kl_prefix K @ lock_text @ s \<noteq> slot_head s @ kl_prefix K @ lock_text @ s"
    using slot_tag_lock [of s] unfolding slot_head_eq by simp
  then show ?thesis using True assms parse_head [of K s "kl_prefix K @ lock_text @ s"] by (simp add: toRedisKey_def toLockKey_def Let_def)
next
  case False
  then show ?thesis using assms by (simp add: parseRedisKey_def toLockKey_def Let_def)
qed

lemma parse_owned:
  "parseRedisKey K r = Some (DataKey, s) \<Longrightarrow> r = toRedisKey K s" "parseRedisKey K r = Some (LockKey, s) \<Longrightarrow> r = toLockKey K s"
  by (auto simp: parseRedisKey_def toRedisKey_def toLockKey_def Let_def elim!: prefixE split: if_splits option.splits)

section \<open>Scans cover patterns\<close>

text \<open>
  What Redis documents of the patterns of \<open>SCAN\<close>, as far as the store relies on it: an asterisk stands for
  any text, a backslash takes a special character literally, and other characters stand for themselves.
\<close>

locale redis_glob =
  fixes matches :: "jsstr \<Rightarrow> jsstr \<Rightarrow> bool"
  assumes matches_nil: "matches [] []"
    and matches_star: "matches p v \<Longrightarrow> matches (42 # p) (u @ v)"
    and matches_escape: "c \<in> {42, 63, 91, 92, 93} \<Longrightarrow> matches p v \<Longrightarrow> matches (92 # c # p) (c # v)"
    and matches_plain: "c \<notin> {42, 63, 91, 92, 93} \<Longrightarrow> matches p v \<Longrightarrow> matches (c # p) (c # v)"
begin

lemma matches_literal: "matches p v \<Longrightarrow> matches (escapeRedisGlob s @ p) (s @ v)"
  by (induction s) (auto simp: escapeRedisGlob_def js_def intro: matches_escape matches_plain)

lemma matches_text: "set s \<inter> {42, 63, 91, 92, 93} = {} \<Longrightarrow> matches p v \<Longrightarrow> matches (s @ p) (s @ v)"
  by (induction s) (auto intro: matches_plain)

lemma matches_glob: "glob p v \<Longrightarrow> matches (cachePatternToRedisGlob p) v"
proof (induction p arbitrary: v)
  case Nil
  then show ?case by (simp add: cachePatternToRedisGlob_def matches_nil)
next
  case (Cons c p)
  show ?case
  proof (cases "c = 42")
    case True
    then obtain a b where "v = a @ b" "glob p b" using glob_star [of p v] Cons.prems by auto
    then show ?thesis using True matches_star [OF Cons.IH] by (simp add: cachePatternToRedisGlob_def js_def)
  next
    case False
    then obtain w where "v = c # w" "glob p w" using Cons.prems by (cases v) auto
    then show ?thesis using False Cons.IH matches_escape [of c] matches_plain [of c] by (auto simp: cachePatternToRedisGlob_def js_def)
  qed
qed

lemma matches_any: "matches (cachePatternToRedisGlob [42]) v"
  using matches_star [OF matches_nil, of v] by (simp add: cachePatternToRedisGlob_def js_def)

lemma matches_scan:
  assumes "pattern = [42] \<or> glob pattern s"
  shows "matches (toRedisPattern K pattern) (toRedisKey K s)" "kl_versioned K \<Longrightarrow> matches (lockPattern K pattern) (toLockKey K s)"
proof -
  have g: "matches (cachePatternToRedisGlob pattern) s" using assms matches_glob matches_any by auto
  have head: "matches (VERSIONED_KEY_PREFIX @ js ''*:'' @ p) (slot_head s @ v)" if "matches p v" for p v
  proof -
    have "matches (58 # p) (58 # v)" using matches_plain [OF _ that, of 58] by simp
    then have "matches (42 # 58 # p) ((123 # toSlotTag s @ [125]) @ 58 # v)" by (rule matches_star)
    moreover have "set VERSIONED_KEY_PREFIX \<inter> {42, 63, 91, 92, 93} = {}" by code_simp
    ultimately have "matches (VERSIONED_KEY_PREFIX @ 42 # 58 # p) (VERSIONED_KEY_PREFIX @ (123 # toSlotTag s @ [125]) @ 58 # v)" by (intro matches_text)
    then show ?thesis by (simp add: slot_head_def js_def)
  qed
  show "matches (toRedisPattern K pattern) (toRedisKey K s)"
    using head [OF matches_literal [OF g]] matches_literal [OF g] by (simp add: toRedisPattern_def toRedisKey_def)
  have "set lock_text \<inter> {42, 63, 91, 92, 93} = {}" by code_simp
  then have "matches (lock_text @ cachePatternToRedisGlob pattern) (lock_text @ s)" using g by (rule matches_text)
  then show "matches (lockPattern K pattern) (toLockKey K s)" if "kl_versioned K"
    using head [OF matches_literal] that by (simp add: lockPattern_def toLockKey_def)
qed

end

text \<open>A matcher with these laws; it has no character classes.\<close>

fun plain_glob :: "jsstr \<Rightarrow> jsstr \<Rightarrow> bool" where
  "plain_glob [] v = (v = [])"
| "plain_glob (c # p) v = (if c = 42 then list_ex (\<lambda>i. plain_glob p (drop i v)) [0..<Suc (length v)]
     else if c = 92 then (case p of [] \<Rightarrow> False | d # q \<Rightarrow> v \<noteq> [] \<and> hd v = d \<and> plain_glob q (tl v))
     else v \<noteq> [] \<and> (c = 63 \<or> hd v = c) \<and> plain_glob p (tl v))"

interpretation plain: redis_glob plain_glob
proof
  show "plain_glob (42 # p) (u @ v)" if "plain_glob p v" for p u v
  proof -
    have "length u \<in> set [0..<Suc (length (u @ v))]" "plain_glob p (drop (length u) (u @ v))" using that by auto
    then have "list_ex (\<lambda>i. plain_glob p (drop i (u @ v))) [0..<Suc (length (u @ v))]" unfolding list_ex_iff by blast
    then show ?thesis unfolding plain_glob.simps by (simp only: if_True simp_thms)
  qed
qed auto

section \<open>Properties\<close>

text \<open>
  C28. Keys and their parser are inverse: in both layouts the parser reads the key of a cache entry and the
  key of its lock back to the logical key, and it recognises no other key. So distinct entries have
  distinct keys, no entry can pass for a lock, and a scan never touches a foreign key.
\<close>

theorem redis_keys_parse:
  assumes "assertDataKey K s = None" and "kl_indexKey K \<notin> {toRedisKey K s, toLockKey K t}"
  shows "parseRedisKey K (toRedisKey K s) = Some (DataKey, s) \<and> parseRedisKey K (toLockKey K t) = Some (LockKey, t)
    \<and> toRedisKey K s \<noteq> toLockKey K t
    \<and> (\<forall>r u. parseRedisKey K r = Some (DataKey, u) \<longrightarrow> r = toRedisKey K u) \<and> (\<forall>r u. parseRedisKey K r = Some (LockKey, u) \<longrightarrow> r = toLockKey K u)"
proof -
  have p: "parseRedisKey K (toRedisKey K s) = Some (DataKey, s)" "parseRedisKey K (toLockKey K t) = Some (LockKey, t)"
    using assms parse_data [of K s] parse_lock [of K t] by auto
  then have "toRedisKey K s \<noteq> toLockKey K t" by auto
  then show ?thesis using p parse_owned [of K] by blast
qed

definition demo_layout :: key_layout where
  "demo_layout = \<lparr>kl_versioned = True, kl_prefix = js ''cache:'', kl_indexKey = js ''cache:__index''\<rparr>"

theorem redis_keys_parse_witness:
  "toRedisKey demo_layout (js ''__lock:a'') = js ''lazy-layers:v2:{__lock%3Aa}:cache:__lock:a''
   \<and> parseRedisKey demo_layout (js ''lazy-layers:v2:{__lock%3Aa}:cache:__lock:a'') = Some (DataKey, js ''__lock:a'')
   \<and> parseRedisKey demo_layout (js ''lazy-layers:v2:{a}:cache:__lock:a'') = Some (LockKey, js ''a'')"
proof -
  have k: "toRedisKey demo_layout (js ''__lock:a'') = js ''lazy-layers:v2:{__lock%3Aa}:cache:__lock:a''" by code_simp
  have l: "toLockKey demo_layout (js ''a'') = js ''lazy-layers:v2:{a}:cache:__lock:a''" by code_simp
  have "assertDataKey demo_layout (js ''__lock:a'') = None" by code_simp
  moreover have "kl_indexKey demo_layout \<notin> {toRedisKey demo_layout (js ''__lock:a''), toLockKey demo_layout (js ''a'')}" by code_simp
  ultimately show ?thesis using redis_keys_parse [of demo_layout "js ''__lock:a''" "js ''a''"] k l by simp
qed

end
