(* ===== verification/Remote_Link.thy ===== *)
theory Remote_Link
  imports LL_Prelude
begin

text \<open>
  Programs that talk to a remote service (Redis, a KV namespace) over a connection on which every command
  may be delayed, lost before the service ran it, or lost after: the asynchronous methods of the stores
  as functions of the connection.
\<close>

section \<open>The connection\<close>

text \<open>
  A connection: the server, the time, and for each command to come how long it takes to arrive and what
  becomes of it. Once the list is used up commands arrive at once.
\<close>

datatype fate = Delivered | LostBefore js_error | LostAfter js_error

record 'r link =
  ln_server :: 'r
  ln_now :: int
  ln_fates :: "(nat \<times> fate) list"

type_synonym ('r, 'a) prog = "'r link \<Rightarrow> (js_error + 'a) \<times> 'r link"

definition send :: "(int \<Rightarrow> 'r \<Rightarrow> 'a \<times> 'r) \<Rightarrow> ('r, 'a) prog" where
  "send f l = (case ln_fates l of
     [] \<Rightarrow> let x = f (ln_now l) (ln_server l) in (Inr (fst x), l\<lparr>ln_server := snd x\<rparr>)
   | (dt, fate) # rest \<Rightarrow>
       let l1 = l\<lparr>ln_now := ln_now l + int dt, ln_fates := rest\<rparr>; x = f (ln_now l1) (ln_server l1); l2 = l1\<lparr>ln_server := snd x\<rparr> in
       case fate of Delivered \<Rightarrow> (Inr (fst x), l2) | LostBefore e \<Rightarrow> (Inl e, l1) | LostAfter e \<Rightarrow> (Inl e, l2))"

definition ask :: "(int \<Rightarrow> 'r \<Rightarrow> 'a) \<Rightarrow> ('r, 'a) prog" where
  "ask f = send (\<lambda>now r. (f now r, r))"

definition tell :: "(int \<Rightarrow> 'r \<Rightarrow> 'r) \<Rightarrow> ('r, unit) prog" where
  "tell f = send (\<lambda>now r. ((), f now r))"

definition give :: "'a \<Rightarrow> ('r, 'a) prog" where
  "give x l = (Inr x, l)"

definition raise :: "js_error \<Rightarrow> ('r, 'a) prog" where
  "raise e l = (Inl e, l)"

definition seq :: "('r, 'a) prog \<Rightarrow> ('a \<Rightarrow> ('r, 'b) prog) \<Rightarrow> ('r, 'b) prog" where
  "seq p f l = (case p l of (Inl e, l1) \<Rightarrow> (Inl e, l1) | (Inr x, l1) \<Rightarrow> f x l1)"

definition check :: "js_error option \<Rightarrow> ('r, 'a) prog \<Rightarrow> ('r, 'a) prog" where
  "check e p = (case e of None \<Rightarrow> p | Some x \<Rightarrow> raise x)"

definition lift :: "js_error + 'a \<Rightarrow> ('a \<Rightarrow> ('r, 'b) prog) \<Rightarrow> ('r, 'b) prog" where
  "lift r f = (case r of Inl e \<Rightarrow> raise e | Inr x \<Rightarrow> f x)"

text \<open>\<open>try \<dots> catch\<close> that only logs.\<close>

definition quietly :: "('r, unit) prog \<Rightarrow> ('r, unit) prog" where
  "quietly p l = (Inr (), snd (p l))"

fun each :: "('a \<Rightarrow> ('r, unit) prog) \<Rightarrow> 'a list \<Rightarrow> ('r, unit) prog" where
  "each f [] = give ()"
| "each f (x # xs) = seq (f x) (\<lambda>_. each f xs)"

text \<open>\<open>Date.now()\<close>.\<close>

definition at_now :: "(int \<Rightarrow> ('r, 'a) prog) \<Rightarrow> ('r, 'a) prog" where
  "at_now f l = f (ln_now l) l"

lemma send_free: "ln_fates l = [] \<Longrightarrow> send f l = (Inr (fst (f (ln_now l) (ln_server l))), l\<lparr>ln_server := snd (f (ln_now l) (ln_server l))\<rparr>)"
  by (simp add: send_def Let_def)

end
