(* ===== verification/Redis_Store.thy ===== *)
theory Redis_Store
  imports Redis_Keys Cache_Options Remote_Link
begin

text \<open>
  The Redis-backed L2 (\<open>cache/redisStore.ts\<close>, \<open>cache/redisPipeline.ts\<close>): its construction, the scripts it runs,
  and its operations over a connection on which every command may be lost before or after Redis ran it.
  The Redis commands are a parameter, a record of functions on the server's state; what the store relies on
  of them is the locale \<open>redis_laws\<close>, met by a reference server. Keys are logical keys, \<open>String(key)\<close>.
\<close>

section \<open>The server\<close>

text \<open>
  The commands, each with the time at which the server runs it: \<open>GET\<close>, \<open>STRLEN\<close>, \<open>PTTL\<close>, \<open>EXISTS\<close>, \<open>SET PX\<close>, \<open>SET PX NX\<close>, \<open>DEL\<close> (and
  \<open>UNLINK\<close>), \<open>PEXPIRE\<close>, and those on the sorted set of the index.
\<close>

record 'r redis_server =
  rs_get :: "int \<Rightarrow> jsstr \<Rightarrow> 'r \<Rightarrow> bytes option"
  rs_strlen :: "int \<Rightarrow> jsstr \<Rightarrow> 'r \<Rightarrow> int"
  rs_pttl :: "int \<Rightarrow> jsstr \<Rightarrow> 'r \<Rightarrow> int"
  rs_exists :: "int \<Rightarrow> jsstr \<Rightarrow> 'r \<Rightarrow> int"
  rs_set :: "int \<Rightarrow> jsstr \<Rightarrow> bytes \<Rightarrow> int \<Rightarrow> 'r \<Rightarrow> 'r"
  rs_setnx :: "int \<Rightarrow> jsstr \<Rightarrow> bytes \<Rightarrow> int \<Rightarrow> 'r \<Rightarrow> bool \<times> 'r"
  rs_del :: "int \<Rightarrow> jsstr \<Rightarrow> 'r \<Rightarrow> int \<times> 'r"
  rs_pexpire :: "int \<Rightarrow> jsstr \<Rightarrow> int \<Rightarrow> 'r \<Rightarrow> int \<times> 'r"
  rs_zadd :: "jsstr \<Rightarrow> int \<Rightarrow> jsstr \<Rightarrow> 'r \<Rightarrow> 'r"
  rs_zrem :: "jsstr \<Rightarrow> jsstr list \<Rightarrow> 'r \<Rightarrow> 'r"
  rs_zremrangebyscore :: "jsstr \<Rightarrow> int \<Rightarrow> 'r \<Rightarrow> 'r"
  rs_zcard :: "jsstr \<Rightarrow> 'r \<Rightarrow> int"
  rs_zrange :: "jsstr \<Rightarrow> nat \<Rightarrow> 'r \<Rightarrow> (jsstr \<times> int) list"
  rs_zscore :: "jsstr \<Rightarrow> jsstr \<Rightarrow> 'r \<Rightarrow> int option"

section \<open>Pipelines\<close>

text \<open>
  A pipeline sends all its commands, whatever becomes of each; \<open>validateRedisPipeline\<close> raises for the first
  that failed.
\<close>

fun pipeline :: "(int \<Rightarrow> 'r \<Rightarrow> 'r) list \<Rightarrow> 'r link \<Rightarrow> js_error option list \<times> 'r link" where
  "pipeline [] l = ([], l)"
| "pipeline (f # fs) l = (case tell f l of (r, l1) \<Rightarrow> case pipeline fs l1 of (rs, l2) \<Rightarrow>
     ((case r of Inl e \<Rightarrow> Some e | Inr _ \<Rightarrow> None) # rs, l2))"

definition pipeline_failed :: js_error where
  "pipeline_failed = Error ''REDIS_PIPELINE_COMMAND_FAILED''"

fun validateRedisPipeline :: "js_error option list \<Rightarrow> js_error option" where
  "validateRedisPipeline [] = None"
| "validateRedisPipeline (r # rs) = (case r of Some _ \<Rightarrow> Some pipeline_failed | None \<Rightarrow> validateRedisPipeline rs)"

definition run_pipeline :: "(int \<Rightarrow> 'r \<Rightarrow> 'r) list \<Rightarrow> ('r, unit) prog" where
  "run_pipeline fs l = (case pipeline fs l of (rs, l1) \<Rightarrow> (case validateRedisPipeline rs of Some e \<Rightarrow> Inl e | None \<Rightarrow> Inr (), l1))"

section \<open>Scripts\<close>

datatype script = ReleaseLock | RenewLock | PublishIfOwner | Snapshot | SetAndFence | DeleteAndFence

definition RELEASE_LOCK_LUA :: "'r redis_server \<Rightarrow> jsstr \<Rightarrow> bytes \<Rightarrow> int \<Rightarrow> 'r \<Rightarrow> int \<times> 'r" where
  "RELEASE_LOCK_LUA R lock token now r = (if rs_get R now lock r \<noteq> Some token then (0, r) else rs_del R now lock r)"

definition RENEW_LOCK_LUA :: "'r redis_server \<Rightarrow> jsstr \<Rightarrow> bytes \<Rightarrow> int \<Rightarrow> int \<Rightarrow> 'r \<Rightarrow> int \<times> 'r" where
  "RENEW_LOCK_LUA R lock token ttl now r = (if rs_get R now lock r \<noteq> Some token then (0, r) else rs_pexpire R now lock ttl r)"

definition PUBLISH_IF_OWNER_LUA :: "'r redis_server \<Rightarrow> jsstr \<Rightarrow> jsstr \<Rightarrow> bytes \<Rightarrow> bytes \<Rightarrow> int \<Rightarrow> int \<Rightarrow> 'r \<Rightarrow> int \<times> 'r" where
  "PUBLISH_IF_OWNER_LUA R key lock token payload ttl now r =
     (if rs_get R now lock r \<noteq> Some token then (0, r) else (1, rs_set R now key payload ttl r))"

text \<open>The reply of the snapshot: the value, its time to live or a code, the size, and the time to live of an oversized value.\<close>

record snapshot_reply =
  sr_value :: "bytes option"
  sr_ttl :: int
  sr_size :: "int option"
  sr_oversizedTtl :: "int option"

definition SNAPSHOT_LUA :: "'r redis_server \<Rightarrow> jsstr \<Rightarrow> int \<Rightarrow> int \<Rightarrow> 'r \<Rightarrow> snapshot_reply" where
  "SNAPSHOT_LUA R key limit now r = (let size = rs_strlen R now key r in
     if limit < size then \<lparr>sr_value = None, sr_ttl = - 3, sr_size = Some size, sr_oversizedTtl = Some (rs_pttl R now key r)\<rparr>
     else case rs_get R now key r of None \<Rightarrow> \<lparr>sr_value = None, sr_ttl = - 2, sr_size = None, sr_oversizedTtl = None\<rparr>
       | Some value \<Rightarrow> \<lparr>sr_value = Some value, sr_ttl = rs_pttl R now key r, sr_size = Some size, sr_oversizedTtl = None\<rparr>)"

definition SET_AND_FENCE_LUA :: "'r redis_server \<Rightarrow> jsstr \<Rightarrow> jsstr \<Rightarrow> bytes \<Rightarrow> int \<Rightarrow> int \<Rightarrow> 'r \<Rightarrow> int \<times> 'r" where
  "SET_AND_FENCE_LUA R key lock payload ttl now r = (1, snd (rs_del R now lock (rs_set R now key payload ttl r)))"

definition DELETE_AND_FENCE_LUA :: "'r redis_server \<Rightarrow> jsstr \<Rightarrow> jsstr \<Rightarrow> int \<Rightarrow> 'r \<Rightarrow> int \<times> 'r" where
  "DELETE_AND_FENCE_LUA R key lock now r = (let d = rs_del R now key r in (fst d, snd (rs_del R now lock (snd d))))"

section \<open>The store\<close>

datatype layout_option = LayoutAuto | LayoutLegacy | LayoutV2

record RedisStoreOptions = CacheOptions +
  ro_prefix :: "jsstr option"
  ro_indexKey :: "jsstr option"
  ro_useIndex :: "bool option"
  ro_scanCount :: "jsnum option"
  ro_batchSize :: "jsnum option"
  ro_deleteStrategy :: "string option"
  ro_keyLayout :: "layout_option option"

text \<open>What the store finds on the injected client: methods, and whether a script could be registered.\<close>

record redis_client =
  rc_defineCommand :: bool
  rc_eval :: bool
  rc_registers :: "script \<Rightarrow> bool"
  rc_pttl :: bool
  rc_zremrangebyscore :: bool
  rc_zscore :: bool

record RedisStore = key_layout +
  st_options :: RedisStoreOptions
  st_client :: redis_client
  st_maxEncodedBytes :: int
  st_atomicPublicationSupported :: bool

definition registerRedisScript :: "redis_client \<Rightarrow> script \<Rightarrow> bool" where
  "registerRedisScript c s \<longleftrightarrow> rc_defineCommand c \<and> rc_registers c s"

definition all_scripts :: "script list" where
  "all_scripts = [ReleaseLock, RenewLock, PublishIfOwner, Snapshot, SetAndFence, DeleteAndFence]"

definition wellFormedUnicode :: "jsstr \<Rightarrow> bool" where
  "wellFormedUnicode value = isWellFormedUnicode value"

definition positive_count :: "jsnum option \<Rightarrow> bool" where
  "positive_count n = (case n of None \<Rightarrow> True | Some x \<Rightarrow> isSafeInteger x \<and> jless (jint 0) x)"

definition entries_ok :: "jsnum option \<Rightarrow> bool" where
  "entries_ok n = (case n of None \<Rightarrow> True | Some x \<Rightarrow> isSafeInteger x \<and> \<not> jless x (jint 0))"

definition entries_error :: js_error where
  "entries_error = RangeError ''RedisStore L2 maxEntries must be a non-negative safe integer''"

definition newRedisStore :: "redis_client \<Rightarrow> RedisStoreOptions \<Rightarrow> js_error + RedisStore" where
  "newRedisStore c options = (case resolveDecodeLimits (co_decodeLimits options) of Inl e \<Rightarrow> Inl e
   | Inr limits \<Rightarrow>
     let pre = nullish (ro_prefix options) (js ''cache:'');
         registered = list_all (registerRedisScript c) all_scripts;
         wanted = (ro_keyLayout options = Some LayoutV2 \<or> ro_keyLayout options \<noteq> Some LayoutLegacy \<and> rc_defineCommand c);
         unable = wanted \<and> \<not> rc_eval c \<and> \<not> registered;
         versioned = wanted \<and> \<not> unable in
     if \<not> wellFormedUnicode pre then Inl (TypeError ''RedisStore prefix must be a well-formed Unicode string'')
     else if \<not> positive_count (ro_scanCount options) then Inl (RangeError ''RedisStore scanCount must be a positive safe integer'')
     else if \<not> positive_count (ro_batchSize options) then Inl (RangeError ''RedisStore batchSize must be a positive safe integer'')
     else if \<not> entries_ok (lo_maxEntries (co_L2 options)) then Inl entries_error
     else if ro_keyLayout options = Some LayoutV2 \<and> \<not> rc_defineCommand c \<and> \<not> rc_eval c
     then Inl (TypeError ''RedisStore keyLayout:v2 requires defineCommand or EVAL support'')
     else if unable \<and> ro_keyLayout options = Some LayoutV2
     then Inl (TypeError ''RedisStore keyLayout:v2 could not register every required script and EVAL is unavailable'')
     else Inr \<lparr>kl_versioned = versioned, kl_prefix = pre, kl_indexKey = nullish (ro_indexKey options) (pre @ js ''__index''),
       st_options = options, st_client = c, st_maxEncodedBytes = maxEncodedBytes limits,
       st_atomicPublicationSupported = versioned \<and> (rc_eval c \<or> registered)\<rparr>)"

definition useIndex :: "RedisStore \<Rightarrow> bool" where
  "useIndex s = nullish (ro_useIndex (st_options s)) (lo_maxEntries (co_L2 (st_options s)) \<noteq> None)"

definition getBatchSize :: "RedisStore \<Rightarrow> nat" where
  "getBatchSize s = nat (num_int (nullish (ro_batchSize (st_options s)) (jint 500)))"

definition ttl_checked :: "jsnum \<Rightarrow> js_error + int" where
  "ttl_checked ttl = (if isSafeInteger ttl \<and> jless (jint 0) ttl then Inr (num_int ttl)
     else Inl (RangeError ''RedisStore ttlMs must be a positive safe integer''))"

text \<open>The options of a write are options or, for a publication, a time to live.\<close>

definition resolveTtl :: "RedisStore \<Rightarrow> CacheOptions + jsnum \<Rightarrow> js_error + int" where
  "resolveTtl s options = ttl_checked (case options of Inr n \<Rightarrow> n
     | Inl o1 \<Rightarrow> nullish (lo_ttlMs (co_L2 o1)) (nullish (co_ttlMs o1) (nullish (lo_ttlMs (co_L2 (st_options s)))
         (nullish (co_ttlMs (st_options s)) (jint DEFAULT_CACHE_TTL_MS)))))"

definition resolveMaxEntries :: "RedisStore \<Rightarrow> CacheOptions + jsnum \<Rightarrow> js_error + int option" where
  "resolveMaxEntries s options = (let own = lo_maxEntries (co_L2 (st_options s));
       n = (case options of Inr _ \<Rightarrow> own | Inl o1 \<Rightarrow> (case lo_maxEntries (co_L2 o1) of Some x \<Rightarrow> Some x | None \<Rightarrow> own)) in
     if entries_ok n then Inr (map_option num_int n) else Inl entries_error)"

definition redisCodecOptions :: "RedisStore \<Rightarrow> CacheOptions \<Rightarrow> SerializeOptions" where
  "redisCodecOptions s options = nullish (lo_codec (co_L2 options)) (nullish (lo_codec (co_L2 (st_options s))) default_options)"

text \<open>A string that contains \<open>NOSCRIPT\<close> in any case.\<close>

definition upper_char :: "char \<Rightarrow> char" where
  "upper_char c = (let n = of_char c :: nat in if 97 \<le> n \<and> n \<le> 122 then char_of (n - 32) else c)"

fun error_text :: "js_error \<Rightarrow> string" where
  "error_text (RangeError m) = m"
| "error_text (TypeError m) = m"
| "error_text (Error m) = m"

definition isNoScriptError :: "js_error \<Rightarrow> bool" where
  "isNoScriptError e = (let m = map upper_char (error_text e) in list_ex (\<lambda>i. take 8 (drop i m) = ''NOSCRIPT'') [0..<Suc (length m)])"

text \<open>
  \<open>executeScript\<close>: the named command when it is registered, and \<open>EVAL\<close> when there is none or Redis answers that
  it does not know the script.
\<close>

definition evalScript :: "RedisStore \<Rightarrow> (int \<Rightarrow> 'r \<Rightarrow> 'a \<times> 'r) \<Rightarrow> ('r, 'a) prog" where
  "evalScript s lua = (if rc_eval (st_client s) then send lua else raise (TypeError ''this.redis.eval is not a function''))"

definition executeScript :: "RedisStore \<Rightarrow> script \<Rightarrow> (int \<Rightarrow> 'r \<Rightarrow> 'a \<times> 'r) \<Rightarrow> ('r, 'a) prog" where
  "executeScript s name lua l = (if registerRedisScript (st_client s) name
     then (case send lua l of (Inl e, l1) \<Rightarrow> if isNoScriptError e then evalScript s lua l1 else (Inl e, l1) | x \<Rightarrow> x)
     else evalScript s lua l)"

section \<open>The index\<close>

definition pruneExpiredIndexMembers :: "'r redis_server \<Rightarrow> RedisStore \<Rightarrow> ('r, unit) prog" where
  "pruneExpiredIndexMembers R s = (if \<not> useIndex s \<or> \<not> rc_zremrangebyscore (st_client s) then give ()
     else at_now (\<lambda>now. quietly (tell (\<lambda>_. rs_zremrangebyscore R (kl_indexKey s) now))))"

definition removeFromIndex :: "'r redis_server \<Rightarrow> RedisStore \<Rightarrow> jsstr \<Rightarrow> ('r, unit) prog" where
  "removeFromIndex R s redisKey = (if useIndex s then tell (\<lambda>_. rs_zrem R (kl_indexKey s) [redisKey]) else give ())"

text \<open>Batches of at most \<open>n\<close> elements, for a positive \<open>n\<close>.\<close>

function batches :: "nat \<Rightarrow> 'a list \<Rightarrow> 'a list list" where
  "batches n [] = []"
| "batches n (x # xs) = (x # take (n - 1) xs) # batches n (drop (n - 1) xs)"
  by pat_completeness auto
termination by (relation "measure (\<lambda>(n, xs). length xs)") auto

definition del_all :: "'r redis_server \<Rightarrow> jsstr list \<Rightarrow> int \<Rightarrow> 'r \<Rightarrow> 'r" where
  "del_all R keys now r = fold (\<lambda>k r. snd (rs_del R now k r)) keys r"

definition fence :: "'r redis_server \<Rightarrow> RedisStore \<Rightarrow> jsstr \<Rightarrow> jsstr \<Rightarrow> ('r, unit) prog" where
  "fence R s redisKey lockKey = seq (executeScript s DeleteAndFence (DELETE_AND_FENCE_LUA R redisKey lockKey)) (\<lambda>_. give ())"

definition delete_batch :: "'r redis_server \<Rightarrow> RedisStore \<Rightarrow> jsstr list \<Rightarrow> ('r, unit) prog" where
  "delete_batch R s keys = (let batch = filter (isDataKey s) keys in
     if batch = [] then give ()
     else if kl_versioned s
     then seq (each (\<lambda>redisKey. if \<not> isDataKey s redisKey then give () else fence R s redisKey (toLockKey s (toLogicalKey s redisKey))) batch)
       (\<lambda>_. if useIndex s then tell (\<lambda>_. rs_zrem R (kl_indexKey s) batch) else give ())
     else run_pipeline (del_all R batch # (if useIndex s then [\<lambda>_. rs_zrem R (kl_indexKey s) batch] else [])))"

definition deleteKeys :: "'r redis_server \<Rightarrow> RedisStore \<Rightarrow> jsstr list \<Rightarrow> ('r, unit) prog" where
  "deleteKeys R s keys = each (delete_batch R s) (batches (getBatchSize s) keys)"

text \<open>
  Trimming: the members that expire first, less those whose score has changed since they were selected.
  The reply of \<open>ZRANGE\<close> carries the scores, as Redis answers.
\<close>

fun victims :: "'r redis_server \<Rightarrow> RedisStore \<Rightarrow> (jsstr \<times> int) list \<Rightarrow> ('r, jsstr list) prog" where
  "victims R s [] = give []"
| "victims R s ((key, score) # cs) =
     (if rc_zscore (st_client s)
      then seq (ask (\<lambda>_. rs_zscore R (kl_indexKey s) key)) (\<lambda>current.
        if current \<noteq> Some score then victims R s cs else seq (victims R s cs) (\<lambda>ks. give (key # ks)))
      else seq (victims R s cs) (\<lambda>ks. give (key # ks)))"

definition trimIndex :: "'r redis_server \<Rightarrow> RedisStore \<Rightarrow> int \<Rightarrow> ('r, unit) prog" where
  "trimIndex R s maxEntries = seq (pruneExpiredIndexMembers R s) (\<lambda>_. seq (ask (\<lambda>_. rs_zcard R (kl_indexKey s))) (\<lambda>size.
     let overflow = size - maxEntries in
     if overflow \<le> 0 then give ()
     else seq (ask (\<lambda>_. rs_zrange R (kl_indexKey s) (nat overflow))) (\<lambda>candidates.
       seq (victims R s candidates) (deleteKeys R s))))"

definition recordPublishedIndex :: "'r redis_server \<Rightarrow> RedisStore \<Rightarrow> jsstr \<Rightarrow> CacheOptions + jsnum \<Rightarrow> ('r, unit) prog" where
  "recordPublishedIndex R s redisKey options = (if \<not> useIndex s then give ()
     else quietly (at_now (\<lambda>now. lift (resolveTtl s options) (\<lambda>ttl.
       seq (tell (\<lambda>_. rs_zadd R (kl_indexKey s) (now + ttl) redisKey)) (\<lambda>_.
       lift (resolveMaxEntries s options) (\<lambda>n. case n of None \<Rightarrow> give () | Some mx \<Rightarrow> trimIndex R s mx))))))"

section \<open>Writing and reading\<close>

definition redis_setEncoded :: "'r redis_server \<Rightarrow> RedisStore \<Rightarrow> jsstr \<Rightarrow> bytes \<Rightarrow> CacheOptions \<Rightarrow> ('r, unit) prog" where
  "redis_setEncoded R s key payload options = check (assertDataKey s key)
     (lift (resolveTtl s (Inl options)) (\<lambda>ttl. lift (resolveMaxEntries s (Inl options)) (\<lambda>maxEntries.
       let redisKey = toRedisKey s key in
       if kl_versioned s
       then seq (executeScript s SetAndFence (SET_AND_FENCE_LUA R redisKey (toLockKey s key) payload ttl)) (\<lambda>_.
         recordPublishedIndex R s redisKey (Inl options))
       else at_now (\<lambda>now. seq (run_pipeline ((\<lambda>t. rs_set R t redisKey payload ttl)
           # (if useIndex s then [\<lambda>_. rs_zadd R (kl_indexKey s) (now + ttl) redisKey] else []))) (\<lambda>_.
         case maxEntries of Some mx \<Rightarrow> if useIndex s then trimIndex R s mx else give () | None \<Rightarrow> give ())))))"

text \<open>The error a failed serialization raises; the message of a \<open>JSON.stringify\<close> error is not modelled.\<close>

fun raised :: "serialize_error \<Rightarrow> js_error" where
  "raised (ConfigError e) = e"
| "raised CacheSerializationError = Error ''CacheSerializationError''"
| "raised JsonError = TypeError ''JSON.stringify''"

definition redis_set :: "'r redis_server \<Rightarrow> 'x event_env_scheme \<Rightarrow> RedisStore \<Rightarrow> jsstr \<Rightarrow> jsval \<Rightarrow> CacheOptions \<Rightarrow> ('r, unit) prog" where
  "redis_set R E s key v options = (case serialize E v (redisCodecOptions s options) of
     Inl e \<Rightarrow> raise (raised e) | Inr payload \<Rightarrow> redis_setEncoded R s key payload options)"

record raw_snapshot =
  rw_raw :: "bytes option"
  rw_ttl :: int
  rw_oversized :: bool

definition supportsServerSnapshot :: "RedisStore \<Rightarrow> bool" where
  "supportsServerSnapshot s \<longleftrightarrow> registerRedisScript (st_client s) Snapshot \<or> kl_versioned s \<and> rc_eval (st_client s)"

definition snapshot_of_reply :: "int \<Rightarrow> snapshot_reply \<Rightarrow> raw_snapshot" where
  "snapshot_of_reply limit reply =
     (let bytes = (case sr_size reply of Some n \<Rightarrow> if 0 \<le> n then n else int (length (nullish (sr_value reply) []))
                   | None \<Rightarrow> int (length (nullish (sr_value reply) [])));
          oversized = (sr_ttl reply = - 3) in
      \<lparr>rw_raw = sr_value reply, rw_ttl = (if oversized then nullish (sr_oversizedTtl reply) 0 else sr_ttl reply),
       rw_oversized = oversized \<or> limit < bytes\<rparr>)"

definition readRawSnapshot :: "'r redis_server \<Rightarrow> RedisStore \<Rightarrow> jsstr \<Rightarrow> int \<Rightarrow> ('r, raw_snapshot) prog" where
  "readRawSnapshot R s redisKey limit = (if supportsServerSnapshot s
     then seq (executeScript s Snapshot (\<lambda>now r. (SNAPSHOT_LUA R redisKey limit now r, r))) (\<lambda>reply. give (snapshot_of_reply limit reply))
     else seq (ask (\<lambda>now. rs_get R now redisKey)) (\<lambda>raw.
       seq (if rc_pttl (st_client s) then ask (\<lambda>now. rs_pttl R now redisKey) else give (- 1)) (\<lambda>ttl.
       give \<lparr>rw_raw = raw, rw_ttl = ttl, rw_oversized = limit < int (length (nullish raw []))\<rparr>)))"

definition redis_getEncoded :: "'r redis_server \<Rightarrow> RedisStore \<Rightarrow> jsstr \<Rightarrow> ('r, (bytes \<times> int) option) prog" where
  "redis_getEncoded R s key = check (assertDataKey s key) (let redisKey = toRedisKey s key in
     seq (readRawSnapshot R s redisKey (st_maxEncodedBytes s)) (\<lambda>x.
       if rw_oversized x then give None
       else case rw_raw x of None \<Rightarrow> seq (removeFromIndex R s redisKey) (\<lambda>_. give None)
       | Some raw \<Rightarrow> if rw_ttl x = - 2 then seq (removeFromIndex R s redisKey) (\<lambda>_. give None)
           else if rw_ttl x < - 1 then give None else give (Some (raw, rw_ttl x))))"

definition redis_get :: "'r redis_server \<Rightarrow> 'x event_env_scheme \<Rightarrow> RedisStore \<Rightarrow> jsstr \<Rightarrow> ('r, jsval) prog" where
  "redis_get R E s key = seq (redis_getEncoded R s key) (\<lambda>encoded. case encoded of None \<Rightarrow> give VUndefined
     | Some (buffer, _) \<Rightarrow> lift (decodeCacheRecord E buffer (co_decodeLimits (st_options s))) (\<lambda>x. give (case x of Hit v \<Rightarrow> v | Miss \<Rightarrow> VUndefined)))"

text \<open>\<open>loader\<close> is what the loader settled with.\<close>

definition redis_getOrSet :: "'r redis_server \<Rightarrow> 'x event_env_scheme \<Rightarrow> RedisStore \<Rightarrow> jsstr \<Rightarrow> js_error + jsval \<Rightarrow> CacheOptions \<Rightarrow> ('r, jsval) prog" where
  "redis_getOrSet R E s key loader options = seq (redis_get R E s key) (\<lambda>cached.
     if cached \<noteq> VUndefined then give cached
     else lift loader (\<lambda>v. if v = VUndefined then give VUndefined else seq (redis_set R E s key v options) (\<lambda>_. give v)))"

definition redis_has :: "'r redis_server \<Rightarrow> RedisStore \<Rightarrow> jsstr \<Rightarrow> ('r, bool) prog" where
  "redis_has R s key = check (assertDataKey s key) (seq (ask (\<lambda>now. rs_exists R now (toRedisKey s key))) (\<lambda>n. give (n = 1)))"

section \<open>Deleting\<close>

definition redis_delete :: "'r redis_server \<Rightarrow> RedisStore \<Rightarrow> jsstr \<Rightarrow> ('r, unit) prog" where
  "redis_delete R s key = check (assertDataKey s key) (deleteKeys R s [toRedisKey s key])"

definition selects :: "RedisStore \<Rightarrow> key_kind \<Rightarrow> jsstr \<Rightarrow> jsstr \<Rightarrow> bool" where
  "selects s kind pattern redisKey = (case parseRedisKey s redisKey of
     Some (k, logicalKey) \<Rightarrow> k = kind \<and> matchesPattern logicalKey pattern = Some True | None \<Rightarrow> False)"

text \<open>The members of the index, page after page, deleted whenever a batch is full.\<close>

fun deleteIndexedPattern :: "'r redis_server \<Rightarrow> RedisStore \<Rightarrow> jsstr \<Rightarrow> jsstr list \<Rightarrow> jsstr list \<Rightarrow> ('r, unit) prog" where
  "deleteIndexedPattern R s pattern batch [] = (if batch = [] then give () else deleteKeys R s batch)"
| "deleteIndexedPattern R s pattern batch (key # keys) =
     (if \<not> selects s DataKey pattern key then deleteIndexedPattern R s pattern batch keys
      else if getBatchSize s \<le> length (batch @ [key]) then seq (deleteKeys R s (batch @ [key])) (\<lambda>_. deleteIndexedPattern R s pattern [] keys)
      else deleteIndexedPattern R s pattern (batch @ [key]) keys)"

definition fencePatternLeases :: "'r redis_server \<Rightarrow> RedisStore \<Rightarrow> jsstr \<Rightarrow> jsstr list \<Rightarrow> ('r, unit) prog" where
  "fencePatternLeases R s pattern keys = each (\<lambda>redisKey. if \<not> selects s LockKey pattern redisKey then give ()
     else fence R s (toRedisKey s (toLogicalKey s redisKey)) redisKey) keys"

text \<open>
  \<open>pages\<close> are the pages of the scan of the data keys (or of the index) and \<open>leases\<close> the keys of the scan of the
  locks, as Redis returns them.
\<close>

definition redis_deleteByPattern :: "'r redis_server \<Rightarrow> RedisStore \<Rightarrow> jsstr \<Rightarrow> jsstr list list \<Rightarrow> jsstr list \<Rightarrow> ('r, unit) prog" where
  "redis_deleteByPattern R s pattern pages leases =
     seq (if useIndex s then seq (pruneExpiredIndexMembers R s) (\<lambda>_. deleteIndexedPattern R s pattern [] (concat pages))
          else each (\<lambda>keys. let batch = filter (selects s DataKey pattern) keys in if batch = [] then give () else deleteKeys R s batch) pages)
       (\<lambda>_. if kl_versioned s then fencePatternLeases R s pattern leases else give ())"

definition redis_clear :: "'r redis_server \<Rightarrow> RedisStore \<Rightarrow> jsstr list list \<Rightarrow> jsstr list \<Rightarrow> ('r, unit) prog" where
  "redis_clear R s pages leases = redis_deleteByPattern R s (js ''*'') pages leases"

definition redis_size :: "'r redis_server \<Rightarrow> RedisStore \<Rightarrow> jsstr list list \<Rightarrow> ('r, int) prog" where
  "redis_size R s pages = (if useIndex s then seq (pruneExpiredIndexMembers R s) (\<lambda>_. ask (\<lambda>_. rs_zcard R (kl_indexKey s)))
     else give (int (length (filter (isDataKey s) (concat pages)))))"

section \<open>Locks and publication\<close>

definition redis_acquireLock :: "'r redis_server \<Rightarrow> RedisStore \<Rightarrow> jsstr \<Rightarrow> jsstr \<Rightarrow> jsnum \<Rightarrow> ('r, bool) prog" where
  "redis_acquireLock R s key token ttlMs = check (assertDataKey s key) (lift (resolveTtl s (Inr ttlMs)) (\<lambda>ttl.
     send (\<lambda>now. rs_setnx R now (toLockKey s key) (utf8 token) ttl)))"

definition redis_releaseLock :: "'r redis_server \<Rightarrow> RedisStore \<Rightarrow> jsstr \<Rightarrow> jsstr \<Rightarrow> ('r, unit) prog" where
  "redis_releaseLock R s key token = seq (executeScript s ReleaseLock (RELEASE_LOCK_LUA R (toLockKey s key) (utf8 token))) (\<lambda>_. give ())"

definition redis_renewLock :: "'r redis_server \<Rightarrow> RedisStore \<Rightarrow> jsstr \<Rightarrow> jsstr \<Rightarrow> jsnum \<Rightarrow> ('r, bool) prog" where
  "redis_renewLock R s key token ttlMs = check (assertDataKey s key) (lift (resolveTtl s (Inr ttlMs)) (\<lambda>ttl.
     seq (executeScript s RenewLock (RENEW_LOCK_LUA R (toLockKey s key) (utf8 token) ttl)) (\<lambda>reply. give (reply = 1))))"

datatype AtomicPublicationResult = Published | NotOwner

definition publishIfOwner :: "'r redis_server \<Rightarrow> RedisStore \<Rightarrow> jsstr \<Rightarrow> jsstr \<Rightarrow> bytes \<Rightarrow> CacheOptions + jsnum \<Rightarrow> ('r, AtomicPublicationResult) prog" where
  "publishIfOwner R s key token payload options = check (assertDataKey s key) (lift (resolveTtl s options) (\<lambda>ttl.
     lift (resolveMaxEntries s options) (\<lambda>_.
     if token = [] then raise (TypeError ''Redis publication token must be a non-empty string'')
     else let redisKey = toRedisKey s key in
       seq (executeScript s PublishIfOwner (PUBLISH_IF_OWNER_LUA R redisKey (toLockKey s key) (utf8 token) payload ttl)) (\<lambda>reply.
         if reply \<noteq> 1 then give NotOwner else seq (recordPublishedIndex R s redisKey options) (\<lambda>_. give Published)))))"

section \<open>Properties\<close>

lemma long_head: "18 \<le> length (slot_head key)"
  by (simp add: slot_head_def VERSIONED_KEY_PREFIX_def js_def)

text \<open>
  C37. What a constructed store can rely on: a store with the versioned layout has a way to run every script
  and publishes atomically, a legacy store never claims to; a request for the versioned layout is met or
  refused, never weakened; the read limit and the batch size are positive, so that batching ends; and the
  default index key is no data key and no lock key of the versioned layout.
\<close>

theorem new_redis_store_ok:
  assumes new: "newRedisStore c options = Inr s"
  shows "(kl_versioned s \<longrightarrow> rc_eval c \<or> list_all (registerRedisScript c) all_scripts) \<and> st_atomicPublicationSupported s = kl_versioned s
    \<and> (ro_keyLayout options = Some LayoutV2 \<longrightarrow> kl_versioned s) \<and> 0 < st_maxEncodedBytes s \<and> 0 < getBatchSize s
    \<and> (kl_versioned s \<and> ro_indexKey options = None \<longrightarrow> (\<forall>key. kl_indexKey s \<notin> {toRedisKey s key, toLockKey s key}))"
proof -
  obtain limits where limits: "resolveDecodeLimits (co_decodeLimits options) = Inr limits"
    using new by (cases "resolveDecodeLimits (co_decodeLimits options)") (auto simp: newRedisStore_def)
  have s: "st_options s = options" "st_maxEncodedBytes s = maxEncodedBytes limits" "kl_prefix s = nullish (ro_prefix options) (js ''cache:'')"
    "kl_indexKey s = nullish (ro_indexKey options) (kl_prefix s @ js ''__index'')" "positive_count (ro_batchSize options)"
    using new limits by (auto simp: newRedisStore_def Let_def split: if_splits)
  have v: "kl_versioned s \<longrightarrow> rc_eval c \<or> list_all (registerRedisScript c) all_scripts" "st_atomicPublicationSupported s = kl_versioned s"
    "ro_keyLayout options = Some LayoutV2 \<longrightarrow> kl_versioned s"
    using new limits by (auto simp: newRedisStore_def Let_def split: if_splits)
  have "0 < num_int n" if "isSafeInteger n" "jless (jint 0) n" for n using that by (cases rule: isSafeInteger_cases) auto
  then have "0 < getBatchSize s" using s(1,5) by (auto simp: getBatchSize_def positive_count_def split: option.splits)
  moreover have "kl_indexKey s \<notin> {toRedisKey s key, toLockKey s key}" if "kl_versioned s" "ro_indexKey options = None" for key
  proof -
    have "length (kl_indexKey s) = length (kl_prefix s) + 7" using s(4) that(2) by (simp add: js_def)
    then show ?thesis using that(1) long_head [of key] by (auto simp: toRedisKey_def toLockKey_def)
  qed
  ultimately show ?thesis using v s(2) resolved_positive(1) [OF limits] by auto
qed

definition plain_redis_options :: RedisStoreOptions where
  "plain_redis_options = CacheOptions.extend no_cache_options
     \<lparr>ro_prefix = None, ro_indexKey = None, ro_useIndex = None, ro_scanCount = None, ro_batchSize = Some (jint 100), ro_deleteStrategy = None, ro_keyLayout = Some LayoutV2\<rparr>"

theorem new_redis_store_ok_witness:
  "\<exists>s. newRedisStore \<lparr>rc_defineCommand = False, rc_eval = True, rc_registers = (\<lambda>_. False), rc_pttl = True, rc_zremrangebyscore = True, rc_zscore = True\<rparr>
     plain_redis_options = Inr s \<and> kl_versioned s \<and> 0 < getBatchSize s"
proof -
  let ?c = "\<lparr>rc_defineCommand = False, rc_eval = True, rc_registers = (\<lambda>_. False), rc_pttl = True, rc_zremrangebyscore = True, rc_zscore = True\<rparr>"
  have o: "co_decodeLimits plain_redis_options = no_limits" "ro_prefix plain_redis_options = None" "ro_scanCount plain_redis_options = None"
    "ro_batchSize plain_redis_options = Some (jint 100)" "lo_maxEntries (co_L2 plain_redis_options) = None" "ro_keyLayout plain_redis_options = Some LayoutV2"
    by (simp_all add: plain_redis_options_def no_cache_options_def no_level_def CacheOptions.defs)
  have w: "wellFormedUnicode (js ''cache:'')" by code_simp
  obtain s where "newRedisStore ?c plain_redis_options = Inr s"
    using o w by (auto simp: newRedisStore_def Let_def default_limits_resolved positive_count_def entries_ok_def MAX_SAFE_INTEGER_def)
  then show ?thesis using new_redis_store_ok [of ?c plain_redis_options s] o(6) by auto
qed

end
