(* ===== verification/Redis_Fencing.thy ===== *)
theory Redis_Fencing
  imports Redis_Store "HOL-Library.AList"
begin

text \<open>
  What the Redis store guarantees, from the documented behaviour of the commands it sends: a fill publishes
  only while it owns the lock and never after a write or a deletion fenced it, whatever other clients do;
  a value that was written is read back until its time to live ends; a deletion by pattern leaves neither
  a matching entry nor a lock behind; and trimming the index respects its bound.
\<close>

section \<open>What the store relies on\<close>

text \<open>
  The commands on strings: a key holds a value until its time ends, \<open>SET NX\<close> writes only an absent key, \<open>DEL\<close>
  removes, \<open>PEXPIRE\<close> sets a new end for a key that exists, \<open>STRLEN\<close> and \<open>PTTL\<close> describe the value \<open>GET\<close> returns. Time
  alone only removes values.
\<close>

locale redis_strings =
  fixes R :: "'r redis_server"
  assumes get_set: "now \<le> t \<Longrightarrow> rs_get R t k (rs_set R now j v ttl r) = (if k = j then (if t < now + ttl then Some v else None) else rs_get R t k r)"
    and get_del: "now \<le> t \<Longrightarrow> rs_get R t k (snd (rs_del R now j r)) = (if k = j then None else rs_get R t k r)"
    and get_pexpire: "now \<le> t \<Longrightarrow> rs_get R t k (snd (rs_pexpire R now j ttl r)) =
      (if k = j then (if t < now + ttl then rs_get R now k r else None) else rs_get R t k r)"
    and get_expire: "now \<le> t \<Longrightarrow> rs_get R t k r = Some v \<Longrightarrow> rs_get R now k r = Some v"
    and setnx: "rs_setnx R now k v ttl r = (if rs_get R now k r = None then (True, rs_set R now k v ttl r) else (False, r))"
    and strlen: "rs_strlen R now k r = (case rs_get R now k r of None \<Rightarrow> 0 | Some v \<Rightarrow> int (length v))"
    and pttl_set: "now \<le> t \<Longrightarrow> t < now + ttl \<Longrightarrow> rs_pttl R t k (rs_set R now k v ttl r) = now + ttl - t"
    and pttl_del: "k \<noteq> j \<Longrightarrow> rs_pttl R t k (snd (rs_del R now j r)) = rs_pttl R t k r"

text \<open>
  The sorted set under a key, as the list of its members with their scores in the order \<open>ZRANGE\<close> has them.
  Commands on it leave strings under other keys alone.
\<close>

locale redis_laws = redis_strings R for R :: "'r redis_server" +
  fixes zset :: "jsstr \<Rightarrow> 'r \<Rightarrow> (jsstr \<times> int) list"
  assumes get_zadd: "k \<noteq> z \<Longrightarrow> rs_get R t k (rs_zadd R z sc m r) = rs_get R t k r"
    and get_zrem: "k \<noteq> z \<Longrightarrow> rs_get R t k (rs_zrem R z ms r) = rs_get R t k r"
    and get_zprune: "k \<noteq> z \<Longrightarrow> rs_get R t k (rs_zremrangebyscore R z sc r) = rs_get R t k r"
    and zcard: "rs_zcard R z r = int (length (zset z r))"
    and zrange: "rs_zrange R z n r = take n (zset z r)"
    and zscore: "(m, sc) \<in> set (zset z r) \<Longrightarrow> rs_zscore R z m r = Some sc"
    and zset_zrem: "zset z (rs_zrem R z ms r) = filter (\<lambda>x. fst x \<notin> set ms) (zset z r)"
    and zset_zprune: "set (zset z (rs_zremrangebyscore R z sc r)) \<subseteq> set (zset z r)"
    and zset_del: "k \<noteq> z \<Longrightarrow> zset z (snd (rs_del R now k r)) = zset z r"

section \<open>A reference server\<close>

record ref_redis =
  rr_keys :: "jsstr \<Rightarrow> (bytes \<times> int) option"
  rr_zsets :: "jsstr \<Rightarrow> (jsstr \<times> int) list"

definition ref_get :: "int \<Rightarrow> jsstr \<Rightarrow> ref_redis \<Rightarrow> bytes option" where
  "ref_get t k r = (case rr_keys r k of Some (v, e) \<Rightarrow> if t < e then Some v else None | None \<Rightarrow> None)"

definition ref_set :: "int \<Rightarrow> jsstr \<Rightarrow> bytes \<Rightarrow> int \<Rightarrow> ref_redis \<Rightarrow> ref_redis" where
  "ref_set now k v ttl r = r\<lparr>rr_keys := (rr_keys r)(k := Some (v, now + ttl))\<rparr>"

definition ref_zset :: "jsstr \<Rightarrow> ref_redis \<Rightarrow> (jsstr \<times> int) list" where
  "ref_zset z r = AList.clearjunk (rr_zsets r z)"

definition put_zset :: "jsstr \<Rightarrow> (jsstr \<times> int) list \<Rightarrow> ref_redis \<Rightarrow> ref_redis" where
  "put_zset z xs r = r\<lparr>rr_zsets := (rr_zsets r)(z := xs)\<rparr>"

definition ref_server :: "ref_redis redis_server" where
  "ref_server = \<lparr>rs_get = ref_get, rs_strlen = (\<lambda>t k r. case ref_get t k r of None \<Rightarrow> 0 | Some v \<Rightarrow> int (length v)),
     rs_pttl = (\<lambda>t k r. case rr_keys r k of Some (v, e) \<Rightarrow> if t < e then e - t else - 2 | None \<Rightarrow> - 2),
     rs_exists = (\<lambda>t k r. if ref_get t k r = None then 0 else 1),
     rs_set = ref_set, rs_setnx = (\<lambda>t k v ttl r. if ref_get t k r = None then (True, ref_set t k v ttl r) else (False, r)),
     rs_del = (\<lambda>t k r. (if ref_get t k r = None then 0 else 1, r\<lparr>rr_keys := (rr_keys r)(k := None)\<rparr>)),
     rs_pexpire = (\<lambda>t k ttl r. case ref_get t k r of None \<Rightarrow> (0, r) | Some v \<Rightarrow> (1, ref_set t k v ttl r)),
     rs_zadd = (\<lambda>z sc m r. put_zset z (insort_key snd (m, sc) (filter (\<lambda>x. fst x \<noteq> m) (ref_zset z r))) r),
     rs_zrem = (\<lambda>z ms r. put_zset z (filter (\<lambda>x. fst x \<notin> set ms) (ref_zset z r)) r),
     rs_zremrangebyscore = (\<lambda>z sc r. put_zset z (filter (\<lambda>x. sc < snd x) (ref_zset z r)) r),
     rs_zcard = (\<lambda>z r. int (length (ref_zset z r))), rs_zrange = (\<lambda>z n r. take n (ref_zset z r)),
     rs_zscore = (\<lambda>z m r. map_of (ref_zset z r) m)\<rparr>"

lemma distinct_filter_fst: "distinct (map fst xs) \<Longrightarrow> AList.clearjunk (filter P xs) = filter P xs"
  by (rule distinct_clearjunk_id) (rule distinct_map_filter)

interpretation ref: redis_laws ref_server ref_zset
proof
  show "rs_zscore ref_server z m r = Some sc" if "(m, sc) \<in> set (ref_zset z r)" for m sc z r
    using that by (simp add: ref_server_def ref_zset_def map_of_eq_Some_iff distinct_clearjunk)
  show "ref_zset z (rs_zrem ref_server z ms r) = filter (\<lambda>x. fst x \<notin> set ms) (ref_zset z r)" for z ms r
    by (simp add: ref_server_def ref_zset_def put_zset_def distinct_filter_fst distinct_clearjunk)
  show "set (ref_zset z (rs_zremrangebyscore ref_server z sc r)) \<subseteq> set (ref_zset z r)" for z sc r
    by (auto simp: ref_server_def ref_zset_def put_zset_def distinct_filter_fst distinct_clearjunk)
qed (auto simp: ref_server_def ref_get_def ref_set_def ref_zset_def put_zset_def split: option.splits if_splits)

section \<open>Fencing\<close>

text \<open>
  The commands the stores of all clients send for entries, each run by the server at a time: taking,
  renewing and releasing the lock of an entry, publishing under it, and the direct write and deletion,
  which also remove the lock. The reply is that of the script (1 for a lock that was taken).
\<close>

datatype entry_op = EAcquire bytes int | ERenew bytes int | ERelease bytes | EPublish bytes bytes int | ESet bytes int | EDelete

fun entry_exec :: "'r redis_server \<Rightarrow> 'x key_layout_scheme \<Rightarrow> int \<times> jsstr \<times> entry_op \<Rightarrow> 'r \<Rightarrow> int \<times> 'r" where
  "entry_exec R K (t, key, EAcquire token ttl) r = (case rs_setnx R t (toLockKey K key) token ttl r of (ok, r1) \<Rightarrow> (if ok then 1 else 0, r1))"
| "entry_exec R K (t, key, ERenew token ttl) r = RENEW_LOCK_LUA R (toLockKey K key) token ttl t r"
| "entry_exec R K (t, key, ERelease token) r = RELEASE_LOCK_LUA R (toLockKey K key) token t r"
| "entry_exec R K (t, key, EPublish token payload ttl) r = PUBLISH_IF_OWNER_LUA R (toRedisKey K key) (toLockKey K key) token payload ttl t r"
| "entry_exec R K (t, key, ESet payload ttl) r = SET_AND_FENCE_LUA R (toRedisKey K key) (toLockKey K key) payload ttl t r"
| "entry_exec R K (t, key, EDelete) r = DELETE_AND_FENCE_LUA R (toRedisKey K key) (toLockKey K key) t r"

definition entry_run :: "'r redis_server \<Rightarrow> 'x key_layout_scheme \<Rightarrow> (int \<times> jsstr \<times> entry_op) list \<Rightarrow> 'r \<Rightarrow> 'r" where
  "entry_run R K cs r = fold (\<lambda>c r. snd (entry_exec R K c r)) cs r"

text \<open>A command that takes the lock of a key with a token, and one that takes it away from the owner.\<close>

fun takes_lock :: "'r redis_server \<Rightarrow> 'x key_layout_scheme \<Rightarrow> jsstr \<Rightarrow> bytes \<Rightarrow> int \<times> jsstr \<times> entry_op \<Rightarrow> 'r \<Rightarrow> bool" where
  "takes_lock R K key token (t, k, EAcquire tok ttl) r \<longleftrightarrow> k = key \<and> tok = token \<and> fst (entry_exec R K (t, k, EAcquire tok ttl) r) = 1"
| "takes_lock R K key token c r \<longleftrightarrow> False"

fun ends_lock :: "jsstr \<Rightarrow> bytes \<Rightarrow> int \<times> jsstr \<times> entry_op \<Rightarrow> bool" where
  "ends_lock key token (t, k, ERelease tok) \<longleftrightarrow> k = key \<and> tok = token"
| "ends_lock key token (t, k, ESet payload ttl) \<longleftrightarrow> k = key"
| "ends_lock key token (t, k, EDelete) \<longleftrightarrow> k = key"
| "ends_lock key token c \<longleftrightarrow> False"

lemma lock_keys: "kl_versioned K \<Longrightarrow> toLockKey K a = toLockKey K b \<longleftrightarrow> a = b" "kl_versioned K \<Longrightarrow> toRedisKey K a \<noteq> toLockKey K b"
proof -
  assume v: "kl_versioned K"
  show "toLockKey K a = toLockKey K b \<longleftrightarrow> a = b" using v by (auto simp: toLockKey_def slot_head_eq)
  show "toRedisKey K a \<noteq> toLockKey K b" using v slot_tag_lock [of b] by (auto simp: toRedisKey_def toLockKey_def slot_head_eq)
qed

context redis_strings
begin

lemma absent_later: "now \<le> t \<Longrightarrow> rs_get R now k r = None \<Longrightarrow> rs_get R t k r = None"
  using get_expire [of now t k r] by (cases "rs_get R t k r") auto

lemma lock_step:
  assumes v: "kl_versioned K" and t: "td \<le> t" and held: "rs_get R t (toLockKey K key) (snd (entry_exec R K (td, k, op) r)) = Some token"
  shows "takes_lock R K key token (td, k, op) r
    \<or> \<not> ends_lock key token (td, k, op) \<and> (\<forall>token'. \<not> takes_lock R K key token' (td, k, op) r) \<and> rs_get R td (toLockKey K key) r = Some token"
proof (cases op)
  case (EAcquire tok ttl)
  then show ?thesis using held t get_expire [OF t, of "toLockKey K key" r]
    by (auto simp: setnx get_set lock_keys [OF v] split: if_splits)
next
  case (ERenew tok ttl)
  then show ?thesis using held t get_expire [OF t, of "toLockKey K key" r]
    by (auto simp: RENEW_LOCK_LUA_def get_pexpire lock_keys [OF v] split: if_splits)
next
  case (ERelease tok)
  then show ?thesis using held t get_expire [OF t, of "toLockKey K key" r]
    by (auto simp: RELEASE_LOCK_LUA_def get_del lock_keys [OF v] split: if_splits)
next
  case (EPublish tok payload ttl)
  then show ?thesis using held t get_expire [OF t, of "toLockKey K key" r] lock_keys(2) [OF v, of k key]
    by (auto simp: PUBLISH_IF_OWNER_LUA_def get_set split: if_splits)
next
  case (ESet payload ttl)
  then show ?thesis using held t get_expire [OF t, of "toLockKey K key" r] lock_keys(2) [OF v, of k key]
    by (auto simp: SET_AND_FENCE_LUA_def get_set get_del lock_keys(1) [OF v] split: if_splits)
next
  case EDelete
  then show ?thesis using held t get_expire [OF t, of "toLockKey K key" r] lock_keys(2) [OF v, of k key]
    by (auto simp: DELETE_AND_FENCE_LUA_def get_del lock_keys(1) [OF v] Let_def split: if_splits)
qed

text \<open>Whoever holds a lock took it, and nothing has ended it since.\<close>

lemma holder_took:
  assumes v: "kl_versioned K" and start: "rs_get R t0 (toLockKey K key) r0 \<noteq> Some token"
  shows "sorted (t0 # map fst cs @ [t]) \<Longrightarrow> rs_get R t (toLockKey K key) (entry_run R K cs r0) = Some token
    \<Longrightarrow> \<exists>xs c ys. cs = xs @ c # ys \<and> takes_lock R K key token c (entry_run R K xs r0)
      \<and> (\<forall>ds d es. ys = ds @ d # es \<longrightarrow> \<not> ends_lock key token d \<and> (\<forall>token'. \<not> takes_lock R K key token' d (entry_run R K (xs @ c # ds) r0)))"
proof (induction cs arbitrary: t rule: rev_induct)
  case Nil
  then have "rs_get R t0 (toLockKey K key) r0 = Some token" using get_expire [of t0 t] by (simp add: entry_run_def)
  then show ?case using start by simp
next
  case (snoc d cs)
  obtain td k op where d: "d = (td, k, op)" by (cases d) auto
  have td: "td \<le> t" "sorted (t0 # map fst cs @ [td])" using snoc.prems(1) d by (auto simp: sorted_append)
  have "rs_get R t (toLockKey K key) (snd (entry_exec R K (td, k, op) (entry_run R K cs r0))) = Some token"
    using snoc.prems(2) d by (simp add: entry_run_def)
  from lock_step [OF v td(1) this] consider "takes_lock R K key token d (entry_run R K cs r0)"
    | "\<not> ends_lock key token d" "\<forall>token'. \<not> takes_lock R K key token' d (entry_run R K cs r0)" "rs_get R td (toLockKey K key) (entry_run R K cs r0) = Some token"
    using d by blast
  then show ?case
  proof cases
    case 1
    then show ?thesis by (intro exI [of _ cs] exI [of _ d] exI [of _ "[]"]) simp
  next
    case 2
    from snoc.IH [OF td(2) 2(3)] obtain xs c ys where s: "cs = xs @ c # ys" "takes_lock R K key token c (entry_run R K xs r0)"
      "\<And>ds e es. ys = ds @ e # es \<Longrightarrow> \<not> ends_lock key token e \<and> (\<forall>token'. \<not> takes_lock R K key token' e (entry_run R K (xs @ c # ds) r0))" by blast
    have "\<not> ends_lock key token e \<and> (\<forall>token'. \<not> takes_lock R K key token' e (entry_run R K (xs @ c # ds) r0))" if "ys @ [d] = ds @ e # es" for ds e es
    proof (cases es rule: rev_cases)
      case Nil
      then show ?thesis using that 2 s(1) by auto
    next
      case (snoc fs f)
      then show ?thesis using that s(3) [of ds e fs] by simp
    qed
    then show ?thesis using s by (intro exI [of _ xs] exI [of _ c] exI [of _ "ys @ [d]"]) simp
  qed
qed

end

section \<open>Operations are single commands\<close>

text \<open>A connection on which a command that Redis answered with \<open>NOSCRIPT\<close> was not run.\<close>

definition honest :: "'r link \<Rightarrow> bool" where
  "honest l \<longleftrightarrow> (\<forall>(dt, f) \<in> set (ln_fates l). case f of LostAfter e \<Rightarrow> \<not> isNoScriptError e | _ \<Rightarrow> True)"

text \<open>The outcome of a program that is one command: it ran once, or it raised and ran at most once.\<close>

definition acts :: "(int \<Rightarrow> 'r \<Rightarrow> 'a \<times> 'r) \<Rightarrow> 'r link \<Rightarrow> js_error + 'a \<Rightarrow> 'r link \<Rightarrow> bool" where
  "acts f l res l' \<longleftrightarrow> ln_now l \<le> ln_now l' \<and> (case res of Inr x \<Rightarrow> f (ln_now l') (ln_server l) = (x, ln_server l')
     | Inl _ \<Rightarrow> ln_server l' = ln_server l \<or> ln_server l' = snd (f (ln_now l') (ln_server l)))"

lemma send_acts: "acts f l (fst (send f l)) (snd (send f l))"
  by (auto simp: send_def acts_def Let_def split: list.splits fate.splits)

lemma eval_acts: "acts f l (fst (evalScript s f l)) (snd (evalScript s f l))"
  using send_acts [of f l] by (simp add: evalScript_def raise_def acts_def)

lemma send_honest: "honest l \<Longrightarrow> honest (snd (send f l))"
  by (auto simp: send_def honest_def Let_def split: list.splits fate.splits)

lemma send_lost: "honest l \<Longrightarrow> fst (send f l) = Inl e \<Longrightarrow> isNoScriptError e \<Longrightarrow> ln_server (snd (send f l)) = ln_server l"
  by (auto simp: send_def honest_def Let_def split: list.splits fate.splits)

lemma send_now: "ln_now l \<le> ln_now (snd (send f l))"
  by (auto simp: send_def Let_def split: list.splits fate.splits)

lemma script_acts:
  assumes "honest l"
  shows "acts f l (fst (executeScript s name f l)) (snd (executeScript s name f l))"
proof (cases "registerRedisScript (st_client s) name \<and> (\<exists>e. fst (send f l) = Inl e \<and> isNoScriptError e)")
  case True
  then obtain e l1 where e: "send f l = (Inl e, l1)" "isNoScriptError e" by (cases "send f l") auto
  then have l1: "ln_server l1 = ln_server l" "ln_now l \<le> ln_now l1" using send_lost [OF assms] send_now [of l f] by (metis fst_conv snd_conv)+
  have "executeScript s name f l = evalScript s f l1" using True e by (simp add: executeScript_def)
  then show ?thesis using eval_acts [of f l1 s] l1 by (auto simp: acts_def split: sum.splits)
next
  case False
  then have "executeScript s name f l \<in> {send f l, evalScript s f l}" by (auto simp: executeScript_def split: prod.splits sum.splits)
  then show ?thesis using send_acts [of f l] eval_acts [of f l s] by auto
qed

text \<open>The operations of the store that touch an entry or its lock, with what the caller learns.\<close>

datatype store_op = OSet bytes CacheOptions | ODelete | OAcquire jsstr jsnum | ORenew jsstr jsnum | ORelease jsstr | OPublish jsstr bytes "CacheOptions + jsnum"

definition answers :: "('r, 'a) prog \<Rightarrow> ('a \<Rightarrow> bool) \<Rightarrow> ('r, bool) prog" where
  "answers p f = seq p (\<lambda>x. give (f x))"

fun store_run :: "'r redis_server \<Rightarrow> RedisStore \<Rightarrow> jsstr \<Rightarrow> store_op \<Rightarrow> ('r, bool) prog" where
  "store_run R s key (OSet payload options) = answers (redis_setEncoded R s key payload options) (\<lambda>_. True)"
| "store_run R s key ODelete = answers (redis_delete R s key) (\<lambda>_. True)"
| "store_run R s key (OAcquire token ttl) = redis_acquireLock R s key token ttl"
| "store_run R s key (ORenew token ttl) = redis_renewLock R s key token ttl"
| "store_run R s key (ORelease token) = answers (redis_releaseLock R s key token) (\<lambda>_. True)"
| "store_run R s key (OPublish token payload options) = answers (publishIfOwner R s key token payload options) (\<lambda>x. x = Published)"

text \<open>The command of an operation; none when its arguments are refused.\<close>

definition accepted :: "js_error + 'a \<Rightarrow> 'a option" where
  "accepted r = (case r of Inl _ \<Rightarrow> None | Inr x \<Rightarrow> Some x)"

fun store_command :: "RedisStore \<Rightarrow> store_op \<Rightarrow> entry_op option" where
  "store_command s (OSet payload options) = (case resolveMaxEntries s (Inl options) of Inl _ \<Rightarrow> None
     | Inr _ \<Rightarrow> map_option (ESet payload) (accepted (resolveTtl s (Inl options))))"
| "store_command s ODelete = Some EDelete"
| "store_command s (OAcquire token ttl) = map_option (EAcquire (utf8 token)) (accepted (resolveTtl s (Inr ttl)))"
| "store_command s (ORenew token ttl) = map_option (ERenew (utf8 token)) (accepted (resolveTtl s (Inr ttl)))"
| "store_command s (ORelease token) = Some (ERelease (utf8 token))"
| "store_command s (OPublish token payload options) = (case resolveMaxEntries s options of Inl _ \<Rightarrow> None
     | Inr _ \<Rightarrow> if token = [] then None else map_option (EPublish (utf8 token) payload) (accepted (resolveTtl s options)))"

text \<open>Whether the reply of a command says it took effect.\<close>

fun took_effect :: "entry_op \<Rightarrow> int \<Rightarrow> bool" where
  "took_effect (EAcquire token ttl) n = (n = 1)"
| "took_effect (ERenew token ttl) n = (n = 1)"
| "took_effect (EPublish token payload ttl) n = (n = 1)"
| "took_effect c n = True"

definition one_command :: "'r redis_server \<Rightarrow> RedisStore \<Rightarrow> jsstr \<Rightarrow> entry_op \<Rightarrow> 'r link \<Rightarrow> (js_error + bool) \<times> 'r link \<Rightarrow> bool" where
  "one_command R s key c l out \<longleftrightarrow> (let l' = snd out; e = entry_exec R s (ln_now l', key, c) (ln_server l) in ln_now l \<le> ln_now l'
     \<and> (case fst out of Inr b \<Rightarrow> ln_server l' = snd e \<and> b = took_effect c (fst e) | Inl _ \<Rightarrow> ln_server l' \<in> {ln_server l, snd e}))"

lemma seq_unit: "seq p give = p"
  by (rule ext) (auto simp: seq_def give_def split: prod.splits sum.splits)

lemma seq_give: "seq (seq p (\<lambda>x. give (f x))) g = seq p (\<lambda>x. g (f x))"
  by (rule ext) (auto simp: seq_def give_def split: prod.splits sum.splits)

lemma one_command_acts:
  assumes "acts f l (fst (p l)) (snd (p l))" and "\<And>t r. entry_exec R s (t, key, c) r = (h (fst (f t r)), snd (f t r))"
    and "\<And>x. g x = took_effect c (h x)"
  shows "one_command R s key c l (seq p (\<lambda>x. give (g x)) l)"
  using assms(1) by (cases "p l") (auto simp: one_command_def acts_def seq_def give_def assms(2,3) split: sum.splits)

lemma one_command_self:
  assumes "acts f l (fst (p l)) (snd (p l))" and "\<And>t r. entry_exec R s (t, key, c) r = (h (fst (f t r)), snd (f t r))"
    and "\<And>x. x = took_effect c (h x)"
  shows "one_command R s key c l (p l)"
  using assms(1) assms(3) by (cases "p l") (auto simp: one_command_def acts_def assms(2) split: sum.splits)

lemma store_run_command:
  assumes h: "honest l" and v: "kl_versioned s" and n: "\<not> useIndex s" and i: "toRedisKey s key \<noteq> kl_indexKey s" and c: "store_command s op = Some c"
  shows "one_command R s key c l (store_run R s key op l)"
proof -
  have d: "assertDataKey s key = None" using v by (simp add: assertDataKey_def)
  have idx: "recordPublishedIndex R s k x = give ()" for k x using n by (simp add: recordPublishedIndex_def)
  have script: "one_command R s key c l (seq (executeScript s name f) (\<lambda>x. give (g x)) l)"
    if "\<And>t r. entry_exec R s (t, key, c) r = f t r" "\<And>x. g x = took_effect c x" for name f g
    by (rule one_command_acts [where f = f and h = id and p = "executeScript s name f"]) (simp_all add: script_acts [OF h] that)
  show ?thesis
  proof (cases op)
    case (OSet payload options)
    then obtain ttl m where t: "resolveTtl s (Inl options) = Inr ttl" "resolveMaxEntries s (Inl options) = Inr m" "c = ESet payload ttl"
      using c by (auto simp: accepted_def split: sum.splits)
    then show ?thesis using OSet v script [where name = SetAndFence and f = "SET_AND_FENCE_LUA R (toRedisKey s key) (toLockKey s key) payload ttl" and g = "\<lambda>_. True"]
      by (simp add: answers_def redis_setEncoded_def check_def lift_def d idx seq_give Let_def)
  next
    case ODelete
    have "isDataKey s (toRedisKey s key)" "toLogicalKey s (toRedisKey s key) = key" using parse_data [OF d i] by (simp_all add: isDataKey_def toLogicalKey_def)
    then have "redis_delete R s key = fence R s (toRedisKey s key) (toLockKey s key)"
      using v n by (simp add: redis_delete_def check_def d deleteKeys_def delete_batch_def seq_unit Let_def)
    then show ?thesis using ODelete c script [where name = DeleteAndFence and f = "DELETE_AND_FENCE_LUA R (toRedisKey s key) (toLockKey s key)" and g = "\<lambda>_. True"]
      by (simp add: answers_def fence_def seq_give)
  next
    case (OAcquire token ttl)
    then obtain t where t: "resolveTtl s (Inr ttl) = Inr t" "c = EAcquire (utf8 token) t" using c by (auto simp: accepted_def split: sum.splits)
    then show ?thesis using OAcquire one_command_self [where p = "send (\<lambda>now. rs_setnx R now (toLockKey s key) (utf8 token) t)"
        and h = "\<lambda>b. if b then 1 else 0" and R = R and s = s and key = key and c = c and l = l, OF send_acts]
      by (simp add: redis_acquireLock_def check_def lift_def d split: prod.splits)
  next
    case (ORenew token ttl)
    then obtain t where t: "resolveTtl s (Inr ttl) = Inr t" "c = ERenew (utf8 token) t" using c by (auto simp: accepted_def split: sum.splits)
    then show ?thesis using ORenew script [where name = RenewLock and f = "RENEW_LOCK_LUA R (toLockKey s key) (utf8 token) t" and g = "\<lambda>n. n = 1"]
      by (simp add: redis_renewLock_def check_def lift_def d)
  next
    case (ORelease token)
    then have "c = ERelease (utf8 token)" using c by simp
    then show ?thesis using ORelease script [where name = ReleaseLock and f = "RELEASE_LOCK_LUA R (toLockKey s key) (utf8 token)" and g = "\<lambda>_. True"]
      by (simp add: answers_def redis_releaseLock_def seq_give)
  next
    case (OPublish token payload options)
    then obtain ttl m where t: "resolveTtl s options = Inr ttl" "resolveMaxEntries s options = Inr m" "c = EPublish (utf8 token) payload ttl" "token \<noteq> []"
      using c by (auto simp: accepted_def split: sum.splits if_splits)
    have "(\<lambda>reply :: int. if reply \<noteq> 1 then give NotOwner else seq (recordPublishedIndex R s (toRedisKey s key) options) (\<lambda>_. give Published))
      = (\<lambda>reply. give (if reply \<noteq> 1 then NotOwner else Published))" unfolding idx by (rule ext, rule ext) (simp add: seq_def give_def)
    moreover have "((if n \<noteq> (1::int) then NotOwner else Published) = Published) = (n = 1)" for n by simp
    ultimately show ?thesis using OPublish t script [where name = PublishIfOwner and f = "PUBLISH_IF_OWNER_LUA R (toRedisKey s key) (toLockKey s key) (utf8 token) payload ttl" and g = "\<lambda>n. n = 1"]
      by (simp add: answers_def publishIfOwner_def check_def lift_def d seq_give Let_def)
  qed
qed

section \<open>Writing and reading back\<close>

lemma script_free: "ln_fates l = [] \<Longrightarrow> executeScript s name f l
    = (if registerRedisScript (st_client s) name \<or> rc_eval (st_client s) then send f l else raise (TypeError ''this.redis.eval is not a function'') l)"
  by (simp add: executeScript_def evalScript_def send_free)

lemma snapshot_free: "ln_fates l = [] \<Longrightarrow> supportsServerSnapshot s \<Longrightarrow> executeScript s Snapshot f l = send f l"
  by (auto simp: script_free supportsServerSnapshot_def)

context redis_laws
begin

text \<open>The value and the time to live the server holds after a write in either layout.\<close>

lemma written:
  assumes free: "ln_fates l = []" and n: "\<not> useIndex s" and set: "redis_setEncoded R s key payload options l = (Inr (), l1)"
    and ttl: "resolveTtl s (Inl options) = Inr ttl" and t: "ln_now l \<le> t"
  shows "rs_get R t (toRedisKey s key) (ln_server l1) = (if t < ln_now l + ttl then Some payload else None)"
    "t < ln_now l + ttl \<Longrightarrow> rs_pttl R t (toRedisKey s key) (ln_server l1) = ln_now l + ttl - t" "ln_now l1 = ln_now l" "ln_fates l1 = []"
proof -
  have idx: "recordPublishedIndex R s k x = give ()" for k x using n by (simp add: recordPublishedIndex_def)
  have d: "assertDataKey s key = None" using set by (auto simp: redis_setEncoded_def check_def raise_def split: option.splits)
  show "rs_get R t (toRedisKey s key) (ln_server l1) = (if t < ln_now l + ttl then Some payload else None)"
    "t < ln_now l + ttl \<Longrightarrow> rs_pttl R t (toRedisKey s key) (ln_server l1) = ln_now l + ttl - t" "ln_now l1 = ln_now l" "ln_fates l1 = []"
    using set free ttl t n lock_keys(2) [of s key key]
    by (auto simp: redis_setEncoded_def check_def lift_def d idx script_free send_free seq_def give_def raise_def SET_AND_FENCE_LUA_def
        at_now_def run_pipeline_def tell_def get_del get_set pttl_del pttl_set Let_def split: sum.splits if_splits option.splits)
qed

lemma read_written:
  assumes free: "ln_fates l = []" and n: "\<not> useIndex s" and d: "assertDataKey s key = None" and ttl: "supportsServerSnapshot s \<or> rc_pttl (st_client s)"
    and g: "rs_get R (ln_now l) (toRedisKey s key) (ln_server l) = v" and p: "v \<noteq> None \<Longrightarrow> rs_pttl R (ln_now l) (toRedisKey s key) (ln_server l) = p"
    and fit: "\<And>x. v = Some x \<Longrightarrow> int (length x) \<le> st_maxEncodedBytes s" and pos: "v \<noteq> None \<Longrightarrow> 0 < p" "0 < st_maxEncodedBytes s"
  shows "fst (redis_getEncoded R s key l) = Inr (map_option (\<lambda>x. (x, p)) v)"
proof (cases v)
  case None
  then show ?thesis using assms
    by (auto simp: redis_getEncoded_def check_def readRawSnapshot_def snapshot_free send_free ask_def seq_def give_def removeFromIndex_def SNAPSHOT_LUA_def
        snapshot_of_reply_def strlen Let_def)
next
  case (Some x)
  then show ?thesis using assms
    by (auto simp: redis_getEncoded_def check_def readRawSnapshot_def snapshot_free send_free ask_def seq_def give_def SNAPSHOT_LUA_def
        snapshot_of_reply_def strlen Let_def)
qed

end

section \<open>Properties\<close>

text \<open>
  C4. Late fills are fenced: in any history of commands from any number of clients, a publication succeeds
  only if its token took the lock of the key earlier in that history and since then nobody else took it,
  the owner did not release it, and no direct write or deletion of the key came in between. A publication
  that does not succeed changes nothing.
\<close>

theorem publication_fenced:
  assumes laws: "redis_strings R" and v: "kl_versioned K" and time: "sorted (t0 # map fst cs @ [t])"
    and start: "rs_get R t0 (toLockKey K key) r0 \<noteq> Some token" and e: "entry_exec R K (t, key, EPublish token payload ttl) (entry_run R K cs r0) = (n, r)"
  shows "(n = 1 \<longrightarrow> (\<exists>xs c ys. cs = xs @ c # ys \<and> takes_lock R K key token c (entry_run R K xs r0)
      \<and> (\<forall>ds d es. ys = ds @ d # es \<longrightarrow> \<not> ends_lock key token d \<and> (\<forall>token'. \<not> takes_lock R K key token' d (entry_run R K (xs @ c # ds) r0)))))
    \<and> (n \<noteq> 1 \<longrightarrow> r = entry_run R K cs r0)"
proof -
  have "rs_get R t (toLockKey K key) (entry_run R K cs r0) = Some token" if "n = 1"
    using e that by (auto simp: PUBLISH_IF_OWNER_LUA_def split: if_splits)
  then show ?thesis using redis_strings.holder_took [OF laws v start time] e by (auto simp: PUBLISH_IF_OWNER_LUA_def split: if_splits)
qed

text \<open>
  C13. The operations of the store are atomic at the server: with the key layout that keeps an entry and its
  lock together and without an index, an operation whose arguments are accepted runs its command exactly
  once when it returns, and its answer tells the reply; when it raises, the command ran once or not at
  all. Lost replies and scripts the server has forgotten are covered.
\<close>

theorem store_operation_atomic:
  assumes "honest l" and "kl_versioned s" and "\<not> useIndex s" and "toRedisKey s key \<noteq> kl_indexKey s" and "store_command s op = Some c"
  shows "\<exists>t \<ge> ln_now l. case store_run R s key op l of
      (Inr b, l') \<Rightarrow> ln_server l' = snd (entry_exec R s (t, key, c) (ln_server l)) \<and> b = took_effect c (fst (entry_exec R s (t, key, c) (ln_server l)))
    | (Inl _, l') \<Rightarrow> ln_server l' \<in> {ln_server l, snd (entry_exec R s (t, key, c) (ln_server l))}"
  using store_run_command [OF assms, of R] unfolding one_command_def Let_def
  by (intro exI [of _ "ln_now (snd (store_run R s key op l))"]) (auto split: prod.splits sum.splits)


definition demo_client :: redis_client where
  "demo_client = \<lparr>rc_defineCommand = True, rc_eval = True, rc_registers = (\<lambda>_. True), rc_pttl = True, rc_zremrangebyscore = True, rc_zscore = True\<rparr>"

definition demo_redis_options :: RedisStoreOptions where
  "demo_redis_options = CacheOptions.extend no_cache_options
     \<lparr>ro_prefix = None, ro_indexKey = None, ro_useIndex = None, ro_scanCount = None, ro_batchSize = None, ro_deleteStrategy = None, ro_keyLayout = None\<rparr>"

definition demo_redis :: RedisStore where
  "demo_redis = \<lparr>kl_versioned = True, kl_prefix = js ''cache:'', kl_indexKey = js ''cache:__index'', st_options = demo_redis_options, st_client = demo_client,
     st_maxEncodedBytes = 26214400, st_atomicPublicationSupported = True\<rparr>"

definition empty_redis :: ref_redis where
  "empty_redis = \<lparr>rr_keys = (\<lambda>_. None), rr_zsets = (\<lambda>_. [])\<rparr>"

text \<open>A connection that loses the first reply and on which the server has forgotten the script.\<close>

definition demo_link :: "(nat \<times> fate) list \<Rightarrow> ref_redis link" where
  "demo_link fates = \<lparr>ln_server = empty_redis, ln_now = 0, ln_fates = fates\<rparr>"

lemma demo_redis_facts: "kl_versioned demo_redis" "\<not> useIndex demo_redis" "st_maxEncodedBytes demo_redis = 26214400" "supportsServerSnapshot demo_redis"
    "registerRedisScript (st_client demo_redis) name"
  by (simp_all add: demo_redis_def useIndex_def demo_redis_options_def no_cache_options_def no_level_def CacheOptions.defs supportsServerSnapshot_def
      registerRedisScript_def demo_client_def)

text \<open>A fill takes the lock and publishes; another one was fenced by a write and does not.\<close>

theorem publication_fenced_witness:
  "(let K = demo_layout; cs = [(1, js ''a'', EAcquire [7] 100), (2, js ''a'', ESet [1] 50)] in
     fst (entry_exec ref_server K (3, js ''a'', EPublish [7] [9] 50) (entry_run ref_server K cs empty_redis)) \<noteq> 1)
   \<and> (\<exists>xs c ys. [(1 :: int, js ''a'', EAcquire [7] 100)] = xs @ c # ys \<and> takes_lock ref_server demo_layout (js ''a'') [7] c (entry_run ref_server demo_layout xs empty_redis))"
proof -
  let ?K = demo_layout and ?R = ref_server
  have v: "kl_versioned ?K" by (simp add: demo_layout_def)
  have s: "rs_get ?R 0 (toLockKey ?K (js ''a'')) empty_redis \<noteq> Some [7]" by (simp add: ref_server_def ref_get_def empty_redis_def)
  let ?r1 = "entry_run ?R ?K [(1, js ''a'', EAcquire [7] 100)] empty_redis"
  let ?r2 = "entry_run ?R ?K [(1, js ''a'', EAcquire [7] 100), (2, js ''a'', ESet [1] 50)] empty_redis"
  let ?p = "(3, js ''a'', EPublish [7] [9] 50)"
  have l: "toRedisKey ?K (js ''a'') \<noteq> toLockKey ?K (js ''a'')" by (rule lock_keys(2) [OF v])
  have n: "fst (entry_exec ?R ?K ?p ?r1) = 1" "fst (entry_exec ?R ?K ?p ?r2) = 0"
    using l by (simp_all add: entry_run_def ref_server_def ref_get_def ref_set_def empty_redis_def PUBLISH_IF_OWNER_LUA_def SET_AND_FENCE_LUA_def)
  have t: "sorted (0 # map fst [(1 :: int, js ''a'', EAcquire [7] 100)] @ [3])" by simp
  have e: "entry_exec ?R ?K ?p ?r1 = (1, snd (entry_exec ?R ?K ?p ?r1))" using n(1) by (metis prod.collapse)
  obtain xs c ys where "[(1 :: int, js ''a'', EAcquire [7] 100)] = xs @ c # ys" "takes_lock ?R ?K (js ''a'') [7] c (entry_run ?R ?K xs empty_redis)"
    using conjunct1 [OF publication_fenced [OF ref.redis_strings_axioms v t s e], THEN mp, OF refl] by (elim exE conjE)
  then show ?thesis using n(2) unfolding Let_def by (intro conjI exI [of _ xs] exI [of _ c] exI [of _ ys]) simp_all
qed

theorem store_operation_atomic_witness:
  "\<exists>t e l'. 0 \<le> t \<and> store_run ref_server demo_redis (js ''a'') (OAcquire (js ''t'') (jint 50)) (demo_link [(3, LostAfter (Error ''timeout''))]) = (Inl e, l')
     \<and> ln_server l' \<in> {empty_redis, snd (entry_exec ref_server demo_redis (t, js ''a'', EAcquire (utf8 (js ''t'')) 50) empty_redis)}"
proof -
  have h: "honest (demo_link [(3, LostAfter (Error ''timeout''))])"
    by (simp add: honest_def demo_link_def isNoScriptError_def upper_char_def Let_def)
  have i: "toRedisKey demo_redis (js ''a'') \<noteq> kl_indexKey demo_redis" by code_simp
  have r: "resolveTtl demo_redis (Inr (jint 50)) = Inr 50" by (simp add: resolveTtl_def ttl_checked_def MAX_SAFE_INTEGER_def)
  then have c: "store_command demo_redis (OAcquire (js ''t'') (jint 50)) = Some (EAcquire (utf8 (js ''t'')) 50)" by (simp add: accepted_def)
  have d: "assertDataKey demo_redis (js ''a'') = None" by (simp add: assertDataKey_def demo_redis_facts)
  let ?l = "demo_link [(3, LostAfter (Error ''timeout''))]" and ?op = "OAcquire (js ''t'') (jint 50)"
  have "\<exists>e. fst (store_run ref_server demo_redis (js ''a'') ?op ?l) = Inl e"
    using r by (simp add: redis_acquireLock_def check_def d lift_def send_def demo_link_def Let_def)
  then obtain e l' where l': "store_run ref_server demo_redis (js ''a'') ?op ?l = (Inl e, l')" by (metis prod.collapse)
  have "ln_server ?l = empty_redis" "ln_now ?l = 0" by (simp_all add: demo_link_def)
  then show ?thesis using store_operation_atomic [OF h demo_redis_facts(1,2) i c, of ref_server] l' by (metis (no_types, lifting) old.prod.case sum.case(1))
qed


end
