(* ===== verification/Redis_Deletion.thy ===== *)
theory Redis_Deletion
  imports Redis_Fencing
begin

text \<open>
  Deletion in the Redis store: what a successful deletion by pattern leaves behind, and what trimming the
  index keeps.
\<close>

section \<open>Programs that only remove\<close>

text \<open>From \<open>l\<close> to \<open>l'\<close> the keys of \<open>D\<close> may have gone and nothing else has changed, but for the index \<open>z\<close>.\<close>

definition prunes :: "'r redis_server \<Rightarrow> jsstr \<Rightarrow> jsstr set \<Rightarrow> 'r link \<Rightarrow> 'r link \<Rightarrow> bool" where
  "prunes R z D l l' \<longleftrightarrow> ln_now l \<le> ln_now l' \<and> (\<forall>k t. k \<noteq> z \<and> ln_now l' \<le> t \<longrightarrow>
     rs_get R t k (ln_server l') = rs_get R t k (ln_server l) \<or> k \<in> D \<and> rs_get R t k (ln_server l') = None)"

definition missing :: "'r redis_server \<Rightarrow> 'r link \<Rightarrow> jsstr \<Rightarrow> bool" where
  "missing R l k \<longleftrightarrow> rs_get R (ln_now l) k (ln_server l) = None"

definition removes :: "'r redis_server \<Rightarrow> jsstr \<Rightarrow> jsstr set \<Rightarrow> (int \<Rightarrow> 'r \<Rightarrow> 'a \<times> 'r) \<Rightarrow> bool" where
  "removes R z D f \<longleftrightarrow> (\<forall>now r k t. k \<noteq> z \<and> now \<le> t \<longrightarrow> rs_get R t k (snd (f now r)) = rs_get R t k r \<or> k \<in> D \<and> rs_get R t k (snd (f now r)) = None)"

definition all_prune :: "'r redis_server \<Rightarrow> jsstr \<Rightarrow> jsstr set \<Rightarrow> ('r, 'a) prog \<Rightarrow> bool" where
  "all_prune R z D p \<longleftrightarrow> (\<forall>l. prunes R z D l (snd (p l)))"

text \<open>A program that succeeds only with the keys of \<open>N\<close> gone.\<close>

definition clears :: "'r redis_server \<Rightarrow> jsstr set \<Rightarrow> ('r, 'a) prog \<Rightarrow> bool" where
  "clears R N p \<longleftrightarrow> (\<forall>l x. fst (p l) = Inr x \<longrightarrow> (\<forall>k \<in> N. missing R (snd (p l)) k))"

lemma parse_index [simp]: "parseRedisKey K (kl_indexKey K) = None" "\<not> isDataKey K (kl_indexKey K)"
  by (simp_all add: parseRedisKey_def isDataKey_def)

lemma prunes_refl: "prunes R z D l l"
  by (simp add: prunes_def)

lemma prunes_trans: "prunes R z D l l1 \<Longrightarrow> prunes R z D l1 l2 \<Longrightarrow> prunes R z D l l2"
  unfolding prunes_def by (metis order_trans)

lemma prune_give: "all_prune R z D (give x)"
  by (simp add: all_prune_def give_def prunes_refl)

lemma prune_send: "removes R z D f \<Longrightarrow> all_prune R z D (send f)"
  by (auto simp: all_prune_def prunes_def removes_def send_def Let_def split: list.splits fate.splits)

lemma prune_seq: "all_prune R z D p \<Longrightarrow> (\<And>x. all_prune R z D (f x)) \<Longrightarrow> all_prune R z D (seq p f)"
  unfolding all_prune_def seq_def by (auto intro: prunes_trans split: prod.splits sum.splits) (metis prunes_trans snd_conv)+

lemma prune_eval: "removes R z D f \<Longrightarrow> all_prune R z D (evalScript s f)"
  using prune_send [of R z D f] by (simp add: evalScript_def raise_def all_prune_def prunes_refl)

lemma prune_script: "removes R z D f \<Longrightarrow> all_prune R z D (executeScript s name f)"
  using prune_send [of R z D f] prune_eval [of R z D f s] unfolding all_prune_def executeScript_def
  by (auto split: prod.splits sum.splits) (metis prunes_trans snd_conv)+

lemma prune_each: "(\<And>x. x \<in> set xs \<Longrightarrow> all_prune R z D (f x)) \<Longrightarrow> all_prune R z D (each f xs)"
  by (induction xs) (auto intro: prune_give prune_seq)

lemma clears_give: "clears R {} p"
  by (simp add: clears_def)

lemma clears_send: "(\<And>now r k. k \<in> N \<Longrightarrow> rs_get R now k (snd (f now r)) = None) \<Longrightarrow> clears R N (send f)"
  by (auto simp: clears_def missing_def send_def Let_def split: list.splits fate.splits)

lemma clears_eval: "(\<And>now r k. k \<in> N \<Longrightarrow> rs_get R now k (snd (f now r)) = None) \<Longrightarrow> clears R N (evalScript s f)"
  using clears_send [of N R f] by (simp add: evalScript_def raise_def clears_def)

lemma clears_script: "(\<And>now r k. k \<in> N \<Longrightarrow> rs_get R now k (snd (f now r)) = None) \<Longrightarrow> clears R N (executeScript s name f)"
  using clears_send [of N R f] clears_eval [of N R f s] unfolding clears_def executeScript_def by (auto split: prod.splits sum.splits) (metis fst_conv snd_conv)+

context redis_strings
begin

lemma missing_prunes: "missing R l k \<Longrightarrow> prunes R z D l l' \<Longrightarrow> k \<noteq> z \<Longrightarrow> missing R l' k"
  using absent_later [of "ln_now l" "ln_now l'" k "ln_server l"] unfolding missing_def prunes_def by (metis order_refl)

lemma clears_seq:
  assumes "clears R N p" and "\<And>x. all_prune R z D (f x)" and "\<And>x. clears R M (f x)" and "z \<notin> N"
  shows "clears R (N \<union> M) (seq p f)"
proof -
  have "missing R (snd (seq p f l)) k" if "fst (seq p f l) = Inr x" "k \<in> N \<union> M" for l x k
  proof -
    note ok = that
    obtain y l1 where y: "p l = (Inr y, l1)" "seq p f l = f y l1" using ok(1)
      by (cases "p l"; cases "fst (p l)") (auto simp: seq_def)
    have "missing R l1 k" if "k \<in> N" using assms(1) y(1) that by (auto simp: clears_def) (metis fst_conv snd_conv)
    moreover have "prunes R z D l1 (snd (f y l1))" using assms(2) by (simp add: all_prune_def)
    moreover have "missing R (snd (f y l1)) k" if "k \<in> M" using assms(3) [of y] y(2) that \<open>fst (seq p f l) = Inr x\<close> by (auto simp: clears_def)
    ultimately show ?thesis using ok(2) y(2) assms(4) missing_prunes by (metis UnE)
  qed
  then show ?thesis by (simp add: clears_def)
qed

lemma clears_each:
  assumes "\<And>x. x \<in> set xs \<Longrightarrow> all_prune R z D (f x)" and "\<And>x. x \<in> set xs \<Longrightarrow> clears R (N x) (f x)" and "\<And>x. x \<in> set xs \<Longrightarrow> z \<notin> N x"
  shows "clears R (\<Union>x \<in> set xs. N x) (each f xs)"
  using assms
proof (induction xs)
  case (Cons x xs)
  have "clears R (N x \<union> (\<Union>x \<in> set xs. N x)) (seq (f x) (\<lambda>_. each f xs))"
    by (rule clears_seq [where z = z and D = D]) (use Cons prune_each [of xs R z D f] in auto)
  then show ?case by simp
qed (simp add: clears_give)

lemma fence_removes: "{key, lock} \<subseteq> D \<Longrightarrow> removes R z D (DELETE_AND_FENCE_LUA R key lock)"
  by (auto simp: removes_def DELETE_AND_FENCE_LUA_def get_del Let_def)

lemma fence_prunes: "{key, lock} \<subseteq> D \<Longrightarrow> all_prune R z D (fence R s key lock)"
  unfolding fence_def by (intro prune_seq prune_script fence_removes prune_give)

lemma fence_clears:
  assumes "N \<subseteq> {key, lock}" and "z \<notin> N"
  shows "clears R N (fence R s key lock)"
proof -
  have "clears R N (executeScript s DeleteAndFence (DELETE_AND_FENCE_LUA R key lock))"
    using assms(1) by (intro clears_script) (auto simp: DELETE_AND_FENCE_LUA_def get_del Let_def)
  from clears_seq [where M = "{}" and D = "{}", OF this prune_give clears_give assms(2)] show ?thesis by (simp add: fence_def)
qed

lemma del_all_get: "now \<le> t \<Longrightarrow> rs_get R t k (del_all R keys now r) = (if k \<in> set keys then None else rs_get R t k r)"
  by (induction keys arbitrary: r) (auto simp: del_all_def get_del)

end

context redis_laws
begin

text \<open>The index commands remove nothing else.\<close>

lemma zrem_removes: "removes R z D (\<lambda>_ r. ((), rs_zrem R z ms r))" "removes R z D (\<lambda>_ r. ((), rs_zremrangebyscore R z sc r))"
  by (simp_all add: removes_def get_zrem get_zprune)

lemma del_all_removes: "set keys \<subseteq> D \<Longrightarrow> removes R z D (\<lambda>now r. ((), del_all R keys now r))"
  by (auto simp: removes_def del_all_get)

lemma pipeline_batch:
  assumes "set keys \<subseteq> D" "z \<notin> set keys" "fs = [] \<or> fs = [\<lambda>_. rs_zrem R z keys]"
  shows "all_prune R z D (run_pipeline (del_all R keys # fs))" "clears R (set keys) (run_pipeline (del_all R keys # fs))"
proof -
  let ?d = "tell (del_all R keys)" and ?z = "tell (\<lambda>_. rs_zrem R z keys)"
  have p: "all_prune R z D ?d" "all_prune R z D ?z"
    unfolding tell_def by (rule prune_send, rule del_all_removes, fact, rule prune_send, rule zrem_removes)
  have c: "clears R (set keys) ?d" unfolding tell_def by (rule clears_send) (simp add: del_all_get)
  have one: "snd (run_pipeline [del_all R keys] l) = snd (?d l)" "fst (run_pipeline [del_all R keys] l) = Inr () \<Longrightarrow> fst (?d l) = Inr ()" for l
    by (auto simp: run_pipeline_def split: prod.splits sum.splits)
  have two: "snd (run_pipeline [del_all R keys, \<lambda>_. rs_zrem R z keys] l) = snd (?z (snd (?d l)))"
    "fst (run_pipeline [del_all R keys, \<lambda>_. rs_zrem R z keys] l) = Inr () \<Longrightarrow> fst (?d l) = Inr ()" for l
    by (auto simp: run_pipeline_def split: prod.splits sum.splits)
  show "all_prune R z D (run_pipeline (del_all R keys # fs))" using assms(3) p one(1) two(1) unfolding all_prune_def by (metis prunes_trans)
  have "missing R (snd (run_pipeline (del_all R keys # fs) l)) k" if ok: "fst (run_pipeline (del_all R keys # fs) l) = Inr ()" and k: "k \<in> set keys" for l k
  proof -
    have "fst (?d l) = Inr ()" using assms(3) ok one(2) two(2) by auto
    then have m: "missing R (snd (?d l)) k" using c k by (simp add: clears_def)
    moreover have "missing R (snd (?z (snd (?d l)))) k" using missing_prunes [OF m, of z D] p(2) assms(2) k by (auto simp: all_prune_def)
    ultimately show ?thesis using assms(3) one(1) two(1) by auto
  qed
  then show "clears R (set keys) (run_pipeline (del_all R keys # fs))" by (simp add: clears_def)
qed

lemma batch_deletes:
  assumes D: "\<And>k. k \<in> set keys \<Longrightarrow> isDataKey s k \<Longrightarrow> {k, toLockKey s (toLogicalKey s k)} \<subseteq> D"
  shows "all_prune R (kl_indexKey s) D (delete_batch R s keys)" "clears R {k \<in> set keys. isDataKey s k} (delete_batch R s keys)"
proof -
  let ?z = "kl_indexKey s" and ?b = "filter (isDataKey s) keys"
  let ?f = "\<lambda>k. if \<not> isDataKey s k then give () else fence R s k (toLockKey s (toLogicalKey s k))"
  let ?i = "if useIndex s then tell (\<lambda>_. rs_zrem R ?z ?b) else give ()"
  have b: "set ?b \<subseteq> D" "?z \<notin> set ?b" "set ?b = {k \<in> set keys. isDataKey s k}" using D by auto
  have f: "all_prune R ?z D (?f k)" "clears R {k} (?f k)" "?z \<notin> {k}" if "k \<in> set ?b" for k
    using that D fence_prunes [of k "toLockKey s (toLogicalKey s k)" D ?z s] fence_clears [of "{k}" k "toLockKey s (toLogicalKey s k)" ?z s] b(2) parse_index(2) [of s] by (auto simp del: parse_index)
  have i: "all_prune R ?z D ?i" unfolding tell_def by (simp add: prune_give prune_send zrem_removes)
  have v: "all_prune R ?z D (seq (each ?f ?b) (\<lambda>_. ?i))" by (rule prune_seq, rule prune_each, erule f(1), rule i)
  have "clears R (\<Union>k \<in> set ?b. {k}) (each ?f ?b)" by (rule clears_each [where z = ?z and D = D]) (erule f)+
  from clears_seq [where M = "{}" and f = "\<lambda>_. ?i", OF this i clears_give] have c: "clears R (set ?b) (seq (each ?f ?b) (\<lambda>_. ?i))" using b(2) by simp
  have p: "all_prune R ?z D (run_pipeline (del_all R ?b # (if useIndex s then [\<lambda>_. rs_zrem R ?z ?b] else [])))"
    "clears R (set ?b) (run_pipeline (del_all R ?b # (if useIndex s then [\<lambda>_. rs_zrem R ?z ?b] else [])))"
    by (rule pipeline_batch [OF b(1,2)], simp)+
  show "all_prune R ?z D (delete_batch R s keys)" using v p(1) by (simp add: delete_batch_def Let_def prune_give)
  have "clears R (set ?b) (delete_batch R s keys)"
  proof (cases "?b = []")
    case True
    then show ?thesis by (simp add: clears_give)
  next
    case False
    then show ?thesis using c p(2) by (simp only: delete_batch_def Let_def if_False split: if_split) simp
  qed
  then show "clears R {k \<in> set keys. isDataKey s k} (delete_batch R s keys)" using b(3) by simp
qed

lemma set_batches: "\<Union>(set ` set (batches n xs)) = set xs"
proof (induction n xs rule: batches.induct)
  case (2 n x xs)
  then show ?case using set_append [of "take (n - 1) xs" "drop (n - 1) xs"] by simp
qed simp

lemma keys_delete:
  assumes D: "\<And>k. k \<in> set keys \<Longrightarrow> isDataKey s k \<Longrightarrow> {k, toLockKey s (toLogicalKey s k)} \<subseteq> D"
  shows "all_prune R (kl_indexKey s) D (deleteKeys R s keys)" "clears R {k \<in> set keys. isDataKey s k} (deleteKeys R s keys)"
proof -
  let ?bs = "batches (getBatchSize s) keys" and ?N = "\<lambda>b. {k \<in> set b. isDataKey s k}"
  have D': "{k, toLockKey s (toLogicalKey s k)} \<subseteq> D" if "b \<in> set ?bs" "k \<in> set b" "isDataKey s k" for b k
    using D [of k] that set_batches [of "getBatchSize s" keys] by blast
  note b = batch_deletes [where D = D, OF D']
  show "all_prune R (kl_indexKey s) D (deleteKeys R s keys)" unfolding deleteKeys_def by (rule prune_each) (rule b(1))
  have "clears R (\<Union>b \<in> set ?bs. ?N b) (deleteKeys R s keys)" unfolding deleteKeys_def
    by (rule clears_each [where z = "kl_indexKey s" and D = D]) (simp_all add: b)
  moreover have "(\<Union>b \<in> set ?bs. ?N b) = {k \<in> set keys. isDataKey s k}" using set_batches [of "getBatchSize s" keys] by auto
  ultimately show "clears R {k \<in> set keys. isDataKey s k} (deleteKeys R s keys)" by simp
qed

text \<open>A deletion by pattern over the pages of a scan, and over the locks it finds.\<close>

lemma selected_data: "selects s DataKey pattern k \<Longrightarrow> isDataKey s k \<and> (\<exists>u. k = toRedisKey s u \<and> toLogicalKey s k = u \<and> matchesPattern u pattern = Some True)"
  using parse_owned(1) [of s k] by (auto simp: selects_def isDataKey_def toLogicalKey_def split: option.splits)

lemma selected_lock: "selects s LockKey pattern k \<Longrightarrow> \<exists>u. k = toLockKey s u \<and> toLogicalKey s k = u \<and> matchesPattern u pattern = Some True \<and> k \<noteq> kl_indexKey s"
  using parse_owned(2) [of s k] parse_index(1) [of s] by (auto simp: selects_def toLogicalKey_def simp del: parse_index split: option.splits)

lemma pattern_deletes:
  assumes D: "\<And>u. matchesPattern u pattern = Some True \<Longrightarrow> {toRedisKey s u, toLockKey s u} \<subseteq> D" and n: "\<not> useIndex s"
  shows "all_prune R (kl_indexKey s) D (redis_deleteByPattern R s pattern pages leases)"
    "clears R ({k \<in> set (concat pages). selects s DataKey pattern k} \<union> (if kl_versioned s then {k \<in> set leases. selects s LockKey pattern k} else {}))
      (redis_deleteByPattern R s pattern pages leases)"
proof -
  let ?z = "kl_indexKey s" and ?sel = "\<lambda>keys. filter (selects s DataKey pattern) keys" and ?N = "\<lambda>p. {k \<in> set p. selects s DataKey pattern k}"
  let ?p = "\<lambda>keys. let batch = ?sel keys in if batch = [] then give () else deleteKeys R s batch"
  have d: "{k, toLockKey s (toLogicalKey s k)} \<subseteq> D" if "k \<in> set (?sel keys)" for k keys using that selected_data [of s pattern k] D [of "toLogicalKey s k"] by auto
  have p: "all_prune R ?z D (?p keys)" for keys using keys_delete(1) [of "?sel keys" s D] d [of _ keys] by (simp add: Let_def prune_give)
  have "{k \<in> set (?sel keys). isDataKey s k} = ?N keys" for keys using selected_data by auto
  then have pc: "clears R (?N keys) (?p keys)" for keys
    using keys_delete(2) [of "?sel keys" s D] d [of _ keys] by (cases "?sel keys = []") (auto simp: Let_def filter_empty_conv clears_def)
  have pz: "?z \<notin> ?N keys" for keys by (auto simp: selects_def)
  let ?f = "\<lambda>k. if \<not> selects s LockKey pattern k then give () else fence R s (toRedisKey s (toLogicalKey s k)) k"
  let ?M = "\<lambda>k. if selects s LockKey pattern k then {k} else {}"
  have f: "all_prune R ?z D (?f k)" "clears R (?M k) (?f k)" "?z \<notin> ?M k" for k
    using selected_lock [of s pattern k] D [of "toLogicalKey s k"] fence_prunes [of "toRedisKey s (toLogicalKey s k)" k D ?z s] fence_clears [of "{k}" "toRedisKey s (toLogicalKey s k)" k ?z s]
    by (auto simp: prune_give clears_give)
  let ?t = "if kl_versioned s then fencePatternLeases R s pattern leases else give ()"
  have t: "all_prune R ?z D ?t" using f(1) by (auto simp: fencePatternLeases_def intro: prune_each prune_give)
  have tc: "clears R (if kl_versioned s then {k \<in> set leases. selects s LockKey pattern k} else {}) ?t"
  proof (cases "kl_versioned s")
    case True
    have "clears R (\<Union>k \<in> set leases. ?M k) (fencePatternLeases R s pattern leases)"
      unfolding fencePatternLeases_def by (rule clears_each [where z = ?z and D = D]) (rule f)+
    moreover have "(\<Union>k \<in> set leases. ?M k) = {k \<in> set leases. selects s LockKey pattern k}" by (auto split: if_splits)
    ultimately show ?thesis using True by simp
  qed (simp add: clears_give)
  have e: "redis_deleteByPattern R s pattern pages leases = seq (each ?p pages) (\<lambda>_. ?t)" using n by (simp add: redis_deleteByPattern_def)
  show "all_prune R ?z D (redis_deleteByPattern R s pattern pages leases)" unfolding e by (rule prune_seq, rule prune_each, rule p, rule t)
  have "clears R (\<Union>keys \<in> set pages. ?N keys) (each ?p pages)" by (rule clears_each [where z = ?z and D = D]) (rule p pc pz)+
  moreover have "(\<Union>keys \<in> set pages. ?N keys) = {k \<in> set (concat pages). selects s DataKey pattern k}" by auto
  ultimately have "clears R {k \<in> set (concat pages). selects s DataKey pattern k} (each ?p pages)" by simp
  then show "clears R ({k \<in> set (concat pages). selects s DataKey pattern k} \<union> (if kl_versioned s then {k \<in> set leases. selects s LockKey pattern k} else {}))
      (redis_deleteByPattern R s pattern pages leases)"
    unfolding e by (rule clears_seq [OF _ t tc]) (auto simp: selects_def)
qed

text \<open>Trimming on a connection that loses nothing.\<close>

lemma victims_all: "ln_fates l = [] \<Longrightarrow> set cs \<subseteq> set (zset (kl_indexKey s) (ln_server l)) \<Longrightarrow> victims R s cs l = (Inr (map fst cs), l)"
proof (induction cs)
  case (Cons c cs)
  obtain key score where c: "c = (key, score)" by (cases c)
  have "rs_zscore R (kl_indexKey s) key (ln_server l) = Some score" using Cons.prems c by (intro zscore) auto
  then show ?case using Cons c by (simp add: ask_def send_free seq_def give_def)
qed (simp add: give_def)

lemma each_index:
  assumes "\<And>x l. x \<in> set xs \<Longrightarrow> ln_fates l = [] \<Longrightarrow> \<exists>r. f x l = (Inr (), l\<lparr>ln_server := r\<rparr>) \<and> zset z r = filter (P x) (zset z (ln_server l))"
    and "ln_fates l = []"
  shows "\<exists>r. each f xs l = (Inr (), l\<lparr>ln_server := r\<rparr>) \<and> zset z r = filter (\<lambda>m. \<forall>x \<in> set xs. P x m) (zset z (ln_server l))"
  using assms
proof (induction xs arbitrary: l)
  case Nil
  then show ?case by (intro exI [of _ "ln_server l"]) (simp add: give_def)
next
  case (Cons x xs)
  obtain r where r: "f x l = (Inr (), l\<lparr>ln_server := r\<rparr>)" "zset z r = filter (P x) (zset z (ln_server l))" using Cons.prems(1) [of x l] Cons.prems(2) by auto
  obtain r' where r': "each f xs (l\<lparr>ln_server := r\<rparr>) = (Inr (), (l\<lparr>ln_server := r\<rparr>)\<lparr>ln_server := r'\<rparr>)"
    "zset z r' = filter (\<lambda>m. \<forall>x \<in> set xs. P x m) (zset z r)"
    using Cons.IH [of "l\<lparr>ln_server := r\<rparr>"] Cons.prems by auto
  then show ?case using r by (intro exI [of _ r']) (simp add: seq_def conj_commute)
qed

lemma fence_index: "ln_fates l = [] \<Longrightarrow> registerRedisScript (st_client s) DeleteAndFence \<or> rc_eval (st_client s) \<Longrightarrow> z \<notin> {key, lock} \<Longrightarrow>
    \<exists>r. fence R s key lock l = (Inr (), l\<lparr>ln_server := r\<rparr>) \<and> zset z r = filter (\<lambda>_. True) (zset z (ln_server l))"
  by (intro exI [of _ "snd (rs_del R (ln_now l) lock (snd (rs_del R (ln_now l) key (ln_server l))))"])
    (auto simp: fence_def script_free send_free seq_def give_def DELETE_AND_FENCE_LUA_def Let_def zset_del)

lemma del_all_index: "z \<notin> set keys \<Longrightarrow> zset z (del_all R keys now r) = zset z r"
  by (induction keys arbitrary: r) (auto simp: del_all_def zset_del)

lemma batch_index:
  assumes free: "ln_fates l = []" and locks: "\<And>u. toLockKey s u \<noteq> kl_indexKey s" and i: "useIndex s"
    and fences: "kl_versioned s \<Longrightarrow> registerRedisScript (st_client s) DeleteAndFence \<or> rc_eval (st_client s)" and data: "\<forall>k \<in> set keys. isDataKey s k"
  shows "\<exists>r. delete_batch R s keys l = (Inr (), l\<lparr>ln_server := r\<rparr>)
    \<and> zset (kl_indexKey s) r = filter (\<lambda>m. fst m \<notin> set keys) (zset (kl_indexKey s) (ln_server l))"
proof -
  let ?z = "kl_indexKey s" and ?f = "\<lambda>k. if \<not> isDataKey s k then give () else fence R s k (toLockKey s (toLogicalKey s k))"
  have k: "filter (isDataKey s) keys = keys" "?z \<notin> set keys" using data parse_index(2) [of s] by (auto simp: filter_id_conv simp del: parse_index)
  show ?thesis
  proof (cases "keys = []")
    case True
    then show ?thesis by (intro exI [of _ "ln_server l"]) (simp add: delete_batch_def give_def)
  next
    case ne: False
    show ?thesis
    proof (cases "kl_versioned s")
      case True
      have "\<exists>r. ?f k l = (Inr (), l\<lparr>ln_server := r\<rparr>) \<and> zset ?z r = filter (\<lambda>_. True) (zset ?z (ln_server l))" if "k \<in> set keys" "ln_fates l = []" for k l
        using fence_index [of l s ?z k "toLockKey s (toLogicalKey s k)"] that fences [OF True] data locks [of "toLogicalKey s k"] k(2) by auto
      from each_index [where f = ?f, OF this free] obtain r where "each ?f keys l = (Inr (), l\<lparr>ln_server := r\<rparr>)" "zset ?z r = zset ?z (ln_server l)" by auto
      then show ?thesis using True ne i free k
        by (intro exI [of _ "rs_zrem R ?z keys r"]) (simp add: delete_batch_def Let_def seq_def tell_def send_free zset_zrem)
    next
      case False
      then show ?thesis using ne i free k
        by (intro exI [of _ "rs_zrem R ?z keys (del_all R keys (ln_now l) (ln_server l))"])
          (simp add: delete_batch_def Let_def run_pipeline_def tell_def send_free zset_zrem del_all_index)
    qed
  qed
qed

lemma keys_index:
  assumes free: "ln_fates l = []" and locks: "\<And>u. toLockKey s u \<noteq> kl_indexKey s" and i: "useIndex s"
    and fences: "kl_versioned s \<Longrightarrow> registerRedisScript (st_client s) DeleteAndFence \<or> rc_eval (st_client s)" and data: "\<forall>k \<in> set keys. isDataKey s k"
  shows "\<exists>r. deleteKeys R s keys l = (Inr (), l\<lparr>ln_server := r\<rparr>)
    \<and> zset (kl_indexKey s) r = filter (\<lambda>m. fst m \<notin> set keys) (zset (kl_indexKey s) (ln_server l))"
proof -
  let ?bs = "batches (getBatchSize s) keys"
  have "\<forall>k \<in> set b. isDataKey s k" if "b \<in> set ?bs" for b using that data set_batches [of "getBatchSize s" keys] by blast
  from each_index [where f = "delete_batch R s" and P = "\<lambda>b m. fst m \<notin> set b", OF batch_index [OF _ locks i fences this] free]
  obtain r where "deleteKeys R s keys l = (Inr (), l\<lparr>ln_server := r\<rparr>)"
    "zset (kl_indexKey s) r = filter (\<lambda>m. \<forall>b \<in> set ?bs. fst m \<notin> set b) (zset (kl_indexKey s) (ln_server l))"
    unfolding deleteKeys_def by blast
  moreover have "(\<forall>b \<in> set ?bs. x \<notin> set b) = (x \<notin> set keys)" for x using set_batches [of "getBatchSize s" keys] by blast
  ultimately show ?thesis by auto
qed

lemma filter_take_drop: "length (filter (\<lambda>m. fst m \<notin> set (map fst (take n xs))) xs) \<le> length xs - n"
proof -
  let ?P = "\<lambda>m. fst m \<notin> set (map fst (take n xs))"
  have "filter ?P xs = filter ?P (take n xs) @ filter ?P (drop n xs)" by (metis append_take_drop_id filter_append)
  moreover have "filter ?P (take n xs) = []" by (auto simp: filter_empty_conv)
  ultimately show ?thesis by (simp add: le_trans [OF length_filter_le])
qed

lemma trim_index:
  assumes free: "ln_fates l = []" and locks: "\<And>u. toLockKey s u \<noteq> kl_indexKey s" and i: "useIndex s"
    and fences: "kl_versioned s \<Longrightarrow> registerRedisScript (st_client s) DeleteAndFence \<or> rc_eval (st_client s)"
    and data: "\<forall>m \<in> set (zset (kl_indexKey s) (ln_server l)). isDataKey s (fst m)" and mx: "0 \<le> mx"
  shows "\<exists>r. trimIndex R s mx l = (Inr (), l\<lparr>ln_server := r\<rparr>) \<and> int (length (zset (kl_indexKey s) r)) \<le> mx
    \<and> set (zset (kl_indexKey s) r) \<subseteq> set (zset (kl_indexKey s) (ln_server l))"
proof -
  let ?z = "kl_indexKey s"
  let ?r0 = "if rc_zremrangebyscore (st_client s) then rs_zremrangebyscore R ?z (ln_now l) (ln_server l) else ln_server l"
  have "pruneExpiredIndexMembers R s l = (Inr (), l\<lparr>ln_server := ?r0\<rparr>)" "set (zset ?z ?r0) \<subseteq> set (zset ?z (ln_server l))"
    using free zset_zprune by (auto simp: pruneExpiredIndexMembers_def i give_def at_now_def quietly_def tell_def send_free)
  then obtain r0 where r0: "pruneExpiredIndexMembers R s l = (Inr (), l\<lparr>ln_server := r0\<rparr>)" "set (zset ?z r0) \<subseteq> set (zset ?z (ln_server l))" by blast
  let ?l = "l\<lparr>ln_server := r0\<rparr>" and ?n = "nat (int (length (zset ?z r0)) - mx)" and ?vs = "map fst (take (nat (int (length (zset ?z r0)) - mx)) (zset ?z r0))"
  show ?thesis
  proof (cases "int (length (zset ?z r0)) \<le> mx")
    case True
    then show ?thesis using r0 free by (intro exI [of _ r0]) (simp add: trimIndex_def seq_def ask_def send_free zcard give_def)
  next
    case False
    have "\<forall>k \<in> set ?vs. isDataKey s k" using data r0(2) by (auto dest: in_set_takeD)
    from keys_index [OF _ locks i fences this, of ?l] free obtain r where r: "deleteKeys R s ?vs ?l = (Inr (), ?l\<lparr>ln_server := r\<rparr>)"
      "zset ?z r = filter (\<lambda>m. fst m \<notin> set ?vs) (zset ?z r0)" by auto
    have v: "victims R s (take ?n (zset ?z r0)) ?l = (Inr ?vs, ?l)" using victims_all [of ?l "take ?n (zset ?z r0)" s] free by (auto dest: in_set_takeD)
    have "trimIndex R s mx l = (Inr (), l\<lparr>ln_server := r\<rparr>)"
      using r0(1) free False r(1) v by (simp add: trimIndex_def seq_def ask_def send_free zcard zrange Let_def)
    moreover have "int (length (zset ?z r)) \<le> mx" using filter_take_drop [of ?n "zset ?z r0"] False mx unfolding r(2) by linarith
    ultimately show ?thesis using r(2) r0(2) by (intro exI [of _ r]) auto
  qed
qed

end

section \<open>Properties\<close>


text \<open>
  Trimming meets its bound: on a connection that loses nothing and a client that can run the scripts of the layout, \<open>trimIndex\<close> returns and leaves at most
  \<open>maxEntries\<close> members in the index, all of which were there before, for every batch size, whether or not the
  client can prune expired members or compare scores first.
\<close>

theorem trim_bound:
  assumes "redis_laws R zset" and "ln_fates l = []" and "\<And>u. toLockKey s u \<noteq> kl_indexKey s" and "useIndex s"
    and "kl_versioned s \<Longrightarrow> registerRedisScript (st_client s) DeleteAndFence \<or> rc_eval (st_client s)" and "\<forall>m \<in> set (zset (kl_indexKey s) (ln_server l)). isDataKey s (fst m)" and "0 \<le> mx"
  shows "\<exists>r. trimIndex R s mx l = (Inr (), l\<lparr>ln_server := r\<rparr>) \<and> int (length (zset (kl_indexKey s) r)) \<le> mx
    \<and> set (zset (kl_indexKey s) r) \<subseteq> set (zset (kl_indexKey s) (ln_server l))"
  by (rule redis_laws.trim_index [OF assms])

definition two_entries :: ref_redis where
  "two_entries = \<lparr>rr_keys = [toRedisKey demo_redis (js ''ab'') \<mapsto> ([1], 100), toRedisKey demo_redis (js ''b'') \<mapsto> ([2], 100)],
     rr_zsets = (\<lambda>_. [(toRedisKey demo_redis (js ''ab''), 100), (toRedisKey demo_redis (js ''b''), 200)])\<rparr>"

definition two_link :: "ref_redis link" where
  "two_link = \<lparr>ln_server = two_entries, ln_now = 0, ln_fates = []\<rparr>"


text \<open>A store with an index of two members, trimmed to one.\<close>

definition indexed_redis :: RedisStore where
  "indexed_redis = demo_redis\<lparr>st_options := demo_redis_options\<lparr>ro_useIndex := Some True\<rparr>\<rparr>"

theorem trim_bound_witness:
  "\<exists>r. trimIndex ref_server indexed_redis 1 two_link = (Inr (), two_link\<lparr>ln_server := r\<rparr>) \<and> length (ref_zset (kl_indexKey indexed_redis) r) \<le> 1"
proof -
  have f: "ln_fates two_link = []" by (simp add: two_link_def)
  have "slot_head u @ x \<noteq> js ''cache:__index''" for u x by (simp add: slot_head_def VERSIONED_KEY_PREFIX_def js_def)
  then have k: "toLockKey indexed_redis u \<noteq> kl_indexKey indexed_redis" for u by (simp add: toLockKey_def indexed_redis_def demo_redis_def)
  have u: "useIndex indexed_redis" by (simp add: useIndex_def indexed_redis_def)
  have e: "registerRedisScript (st_client indexed_redis) DeleteAndFence \<or> rc_eval (st_client indexed_redis)"
    by (simp add: indexed_redis_def demo_redis_def demo_client_def)
  have "isDataKey indexed_redis (toRedisKey demo_redis (js ''ab''))" "isDataKey indexed_redis (toRedisKey demo_redis (js ''b''))" by code_simp+
  then have d: "\<forall>m \<in> set (ref_zset (kl_indexKey indexed_redis) (ln_server two_link)). isDataKey indexed_redis (fst m)"
    by (simp add: two_link_def two_entries_def ref_zset_def)
  from trim_bound [OF ref.redis_laws_axioms f k u e d, of 1] show ?thesis by (auto simp: of_nat_le_1_iff)
qed

end
