(* ===== verification/Kv_Wire.thy ===== *)
theory Kv_Wire
  imports Record_Format
begin

text \<open>
  The record a Cloudflare KV store writes (\<open>cloudflare/kvWire.ts\<close>): a header, the time at which the value
  ends as an IEEE double, and the payload. The double is modelled at the level of its bits, so that the
  round trip covers what \<open>DataView\<close> does with it.
\<close>

section \<open>Doubles\<close>

fun top_bit :: "nat \<Rightarrow> nat" where
  "top_bit n = (if n < 2 then 0 else Suc (top_bit (n div 2)))"

declare top_bit.simps [simp del]

text \<open>The bits of a safe integer, and the number that 64 bits stand for.\<close>

definition f64_bits :: "int \<Rightarrow> nat" where
  "f64_bits n = (if n = 0 then 0
     else let a = nat \<bar>n\<bar>; e = top_bit a in (if n < 0 then 2 ^ 63 else 0) + (e + 1023) * 2 ^ 52 + (a - 2 ^ e) * 2 ^ (52 - e))"

definition f64_value :: "nat \<Rightarrow> jsnum" where
  "f64_value bits =
     (let negative = odd (bits div 2 ^ 63); e = bits div 2 ^ 52 mod 2 ^ 11; m = bits mod 2 ^ 52;
          signed = (\<lambda>x :: real. JNum (if negative then - x else x)) in
      if e = 2047 then (if m \<noteq> 0 then JNaN else if negative then JNegInf else JInf)
      else if e = 0 then signed (real m / 2 ^ 1074)
      else if e < 1075 then signed (real (2 ^ 52 + m) / 2 ^ (1075 - e))
      else signed (real (2 ^ 52 + m) * 2 ^ (e - 1075)))"

definition setFloat64 :: "int \<Rightarrow> bytes" where
  "setFloat64 n = map (\<lambda>i. of_nat (f64_bits n div 256 ^ i)) (rev [0..<8])"

definition getFloat64 :: "bytes \<Rightarrow> jsnum" where
  "getFloat64 xs = f64_value (nat (mp_be (take 8 xs)))"

lemma top_bit_bounds: "0 < n \<Longrightarrow> 2 ^ top_bit n \<le> n \<and> n < 2 * 2 ^ top_bit n"
proof (induction n rule: top_bit.induct)
  case (1 n)
  show ?case
  proof (cases "n < 2")
    case True
    then show ?thesis using 1(2) by (simp add: top_bit.simps)
  next
    case False
    then have "2 ^ top_bit (n div 2) \<le> n div 2 \<and> n div 2 < 2 * 2 ^ top_bit (n div 2)" using 1(1) by simp
    moreover have "top_bit n = Suc (top_bit (n div 2))" using False by (simp add: top_bit.simps)
    ultimately show ?thesis by auto
  qed
qed

lemma top_bit_less:
  assumes "0 < n" "n < 2 ^ k"
  shows "top_bit n < k"
proof -
  have "(2 :: nat) ^ top_bit n < 2 ^ k" using top_bit_bounds [OF assms(1)] assms(2) by linarith
  then show ?thesis by simp
qed

lemma be_digits: "foldl (\<lambda>v (b :: byte). v * 256 + uint b) (int v) (map (\<lambda>i. of_nat (n div 256 ^ i)) (rev [0..<k])) = int (v * 256 ^ k + n mod 256 ^ k)"
proof (induction k arbitrary: v)
  case (Suc k)
  have u: "uint (of_nat (n div 256 ^ k) :: byte) = int (n div 256 ^ k mod 256)" by (simp add: unsigned_of_nat take_bit_nat_def zmod_int)
  have "int v * 256 + int (n div 256 ^ k mod 256) = int (v * 256 + n div 256 ^ k mod 256)" by simp
  then have "foldl (\<lambda>v (b :: byte). v * 256 + uint b) (int v) (map (\<lambda>i. of_nat (n div 256 ^ i)) (rev [0..<Suc k]))
      = int ((v * 256 + n div 256 ^ k mod 256) * 256 ^ k + n mod 256 ^ k)" using Suc [of "v * 256 + n div 256 ^ k mod 256"] u by simp
  moreover have "n mod 256 ^ Suc k = 256 ^ k * (n div 256 ^ k mod 256) + n mod 256 ^ k" using mod_mult2_eq [of n "256 ^ k" 256] by (simp add: mult.commute)
  ultimately show ?case by (simp add: algebra_simps)
qed simp

lemma f64_parts:
  assumes "m < 2 ^ 52" "e < 2 ^ 11" "s < 2"
  shows "(s * 2 ^ 63 + e * 2 ^ 52 + m) mod 2 ^ 52 = (m :: nat)" "(s * 2 ^ 63 + e * 2 ^ 52 + m) div 2 ^ 52 mod 2 ^ 11 = e" "(s * 2 ^ 63 + e * 2 ^ 52 + m) div 2 ^ 63 = s"
proof -
  have a: "s * 2 ^ 63 + e * 2 ^ 52 + m = (s * 2 ^ 11 + e) * 2 ^ 52 + m" by simp
  show "(s * 2 ^ 63 + e * 2 ^ 52 + m) mod 2 ^ 52 = m" unfolding a by (simp only: mod_mult_self3 mod_less [OF assms(1)])
  have "(2 :: nat) ^ 52 \<noteq> 0" by simp
  from div_mult_self3 [OF this, of "s * 2 ^ 11 + e" m] have d: "(s * 2 ^ 63 + e * 2 ^ 52 + m) div 2 ^ 52 = s * 2 ^ 11 + e"
    unfolding a by (simp only: div_less [OF assms(1)]) 
  then show "(s * 2 ^ 63 + e * 2 ^ 52 + m) div 2 ^ 52 mod 2 ^ 11 = e" using assms(2) by simp
  have "(s * 2 ^ 63 + e * 2 ^ 52 + m) div 2 ^ 63 = (s * 2 ^ 63 + e * 2 ^ 52 + m) div 2 ^ 52 div 2 ^ 11" by (simp add: div_mult2_eq [symmetric])
  then show "(s * 2 ^ 63 + e * 2 ^ 52 + m) div 2 ^ 63 = s" using d assms(2) by simp
qed

lemma f64_bits_form:
  assumes "n \<noteq> 0" "\<bar>n\<bar> < 2 ^ 53"
  obtains e m where "f64_bits n = (if n < 0 then 1 else 0) * 2 ^ 63 + (e + 1023) * 2 ^ 52 + m" "e \<le> 52" "m < 2 ^ 52" "(2 ^ 52 + m) = nat \<bar>n\<bar> * 2 ^ (52 - e)"
proof -
  let ?a = "nat \<bar>n\<bar>" and ?e = "top_bit (nat \<bar>n\<bar>)"
  have a: "0 < ?a" "?a < 2 ^ 53" using assms by auto
  note b = top_bit_bounds [OF a(1)]
  have e: "?e \<le> 52" using top_bit_less [OF a] by simp
  have p: "(2 :: nat) ^ ?e * 2 ^ (52 - ?e) = 2 ^ 52" using e by (simp add: power_add [symmetric])
  have m: "(?a - 2 ^ ?e) * 2 ^ (52 - ?e) < 2 ^ 52"
  proof -
    have "?a - 2 ^ ?e < 2 ^ ?e" using b by linarith
    then have "(?a - 2 ^ ?e) * 2 ^ (52 - ?e) < 2 ^ ?e * 2 ^ (52 - ?e)" by simp
    then show ?thesis unfolding p .
  qed
  have s: "2 ^ 52 + (?a - 2 ^ ?e) * 2 ^ (52 - ?e) = ?a * 2 ^ (52 - ?e)"
  proof -
    have "2 ^ 52 + (?a - 2 ^ ?e) * 2 ^ (52 - ?e) = (2 ^ ?e + (?a - 2 ^ ?e)) * 2 ^ (52 - ?e)" unfolding p [symmetric] by (simp only: add_mult_distrib)
    then show ?thesis using b by (simp only: le_add_diff_inverse)
  qed
  show thesis by (rule that [of ?e "(?a - 2 ^ ?e) * 2 ^ (52 - ?e)"]) (use assms(1) e m s in \<open>auto simp: f64_bits_def Let_def\<close>)
qed

lemma f64_roundtrip:
  assumes "\<bar>n\<bar> < 2 ^ 53"
  shows "f64_value (f64_bits n) = JNum (of_int n)"
proof (cases "n = 0")
  case True
  then show ?thesis by (simp add: f64_bits_def f64_value_def)
next
  case False
  obtain e m where f: "f64_bits n = (if n < 0 then 1 else 0) * 2 ^ 63 + (e + 1023) * 2 ^ 52 + m" "e \<le> 52" "m < 2 ^ 52" "2 ^ 52 + m = nat \<bar>n\<bar> * 2 ^ (52 - e)"
    using f64_bits_form [OF False assms] .
  have s: "(if n < 0 then 1 else 0 :: nat) < 2" and ex: "e + 1023 < 2 ^ 11" using f(2) by auto
  note p = f64_parts [OF f(3) ex s, folded f(1)]
  have "real (2 ^ 52 + m) = real (nat \<bar>n\<bar>) * 2 ^ (52 - e)" unfolding f(4) by simp
  moreover have "1075 - (e + 1023) = 52 - e" by simp
  ultimately have v: "real (2 ^ 52 + m) / 2 ^ (1075 - (e + 1023)) = real (nat \<bar>n\<bar>)" by simp
  have c: "e + 1023 \<noteq> 2047" "e + 1023 \<noteq> 0" "e + 1023 < 1075" if "e \<noteq> 52" using f(2) that by auto
  have "f64_value (f64_bits n) = JNum (if odd (if n < 0 then 1 else 0 :: nat) then - real (nat \<bar>n\<bar>) else real (nat \<bar>n\<bar>))"
  proof (cases "e = 52")
    case True
    then have "real (2 ^ 52 + m) * 2 ^ (e + 1023 - 1075) = real (nat \<bar>n\<bar>)" using v by simp
    then show ?thesis unfolding f64_value_def p Let_def using True by (simp only: refl if_True if_False) simp
  next
    case False
    then show ?thesis unfolding f64_value_def p Let_def by (simp only: c [OF False] if_True if_False v)
  qed
  then show ?thesis by (auto simp: of_nat_nat)
qed

lemma f64_bits_less: "\<bar>n\<bar> < 2 ^ 53 \<Longrightarrow> f64_bits n < 2 ^ 64"
proof (cases "n = 0")
  case False
  assume "\<bar>n\<bar> < 2 ^ 53"
  then obtain e m where f: "f64_bits n = (if n < 0 then 1 else 0) * 2 ^ 63 + (e + 1023) * 2 ^ 52 + m" "e \<le> 52" "m < 2 ^ 52" "2 ^ 52 + m = nat \<bar>n\<bar> * 2 ^ (52 - e)"
    by (rule f64_bits_form [OF False])
  have "(e + 1023) * 2 ^ 52 \<le> 1075 * (2 :: nat) ^ 52" using f(2) by (intro mult_right_mono) auto
  then show ?thesis unfolding f(1) using f(3) by (auto split: if_splits)
qed (simp add: f64_bits_def)

lemma float64_roundtrip:
  assumes "\<bar>n\<bar> < 2 ^ 53"
  shows "getFloat64 (setFloat64 n @ xs) = JNum (of_int n)" "length (setFloat64 n) = 8"
proof -
  show l: "length (setFloat64 n) = 8" by (simp add: setFloat64_def)
  have "mp_be (setFloat64 n) = int (f64_bits n mod 256 ^ 8)" 
  proof -
    have z: "(0 :: int) = int 0" by simp
    show ?thesis unfolding setFloat64_def mp_be.simps z be_digits by (simp only: mult_zero_left add_0)
  qed
  then have "mp_be (setFloat64 n) = int (f64_bits n)" using f64_bits_less [OF assms] by simp
  then show "getFloat64 (setFloat64 n @ xs) = JNum (of_int n)" using f64_roundtrip [OF assms] l by (simp add: getFloat64_def)
qed

section \<open>Records\<close>

definition HEADER :: bytes where
  "HEADER = [76, 76, 75, 49]"

definition HEADER_BYTES :: nat where
  "HEADER_BYTES = 12"

definition encodeKVRecord :: "bytes \<Rightarrow> int \<Rightarrow> js_error + bytes" where
  "encodeKVRecord payload expiresAt =
     (if \<not> isSafeInteger (jint expiresAt) then Inl (RangeError ''Cloudflare KV expiration exceeds the safe date range'')
      else if 25 * 1024 * 1024 < length payload + HEADER_BYTES then Inl (RangeError ''Cloudflare KV value exceeds 25 MiB'')
      else Inr (HEADER @ setFloat64 expiresAt @ payload))"

text \<open>The payload and the time that remains, at the time \<open>now\<close>.\<close>

definition decodeKVRecord :: "int \<Rightarrow> bytes \<Rightarrow> js_error + bytes \<times> int" where
  "decodeKVRecord now raw =
     (if length raw < HEADER_BYTES \<or> take 4 raw \<noteq> HEADER then Inl (TypeError ''Cloudflare KV cache entry has an unsupported wire header'')
      else let expiresAt = getFloat64 (drop 4 raw) in
        if \<not> isSafeInteger expiresAt then Inl (TypeError ''Cloudflare KV cache entry has invalid expiration'')
        else Inr (drop HEADER_BYTES raw, num_int expiresAt - now))"

lemma kv_record:
  assumes "encodeKVRecord payload expiresAt = Inr raw"
  shows "decodeKVRecord now raw = Inr (payload, expiresAt - now)" "length raw = length payload + 12"
proof -
  have s: "\<bar>expiresAt\<bar> \<le> MAX_SAFE_INTEGER" and raw: "raw = HEADER @ setFloat64 expiresAt @ payload"
    using assms by (auto simp: encodeKVRecord_def split: if_splits)
  then have f: "getFloat64 (setFloat64 expiresAt @ payload) = jint expiresAt" "length (setFloat64 expiresAt) = 8"
    using float64_roundtrip(1) [of expiresAt payload] float64_roundtrip(2) [of expiresAt] by (auto simp: MAX_SAFE_INTEGER_def)
  show "length raw = length payload + 12" using raw f(2) by (simp add: HEADER_def)
  show "decodeKVRecord now raw = Inr (payload, expiresAt - now)" using raw f s
    by (simp add: decodeKVRecord_def HEADER_def HEADER_BYTES_def Let_def)
qed

end
