(* ===== verification/Kv_Store.thy ===== *)
theory Kv_Store
  imports Kv_Wire Cache_Options Pattern Remote_Link
begin

text \<open>
  The two stores on Cloudflare KV: the one of the Node runtime (\<open>cache/cloudflareKvStore.ts\<close>) and the one of the
  Worker runtime (\<open>cloudflare/index.ts\<close>), which share keys and records. The namespace is a parameter; it is
  eventually consistent, so nothing is assumed of what a read returns after a write. The replies of \<open>list\<close>
  are arguments, in the order in which the calls are made; a listing that has not ended with them gives
  \<open>None\<close>. Keys are logical keys, \<open>String(key)\<close>.
\<close>

section \<open>The namespace\<close>

record 'n kv_namespace =
  kn_get :: "int \<Rightarrow> jsstr \<Rightarrow> 'n \<Rightarrow> bytes option"
  kn_put :: "int \<Rightarrow> jsstr \<Rightarrow> bytes \<Rightarrow> int \<Rightarrow> 'n \<Rightarrow> 'n"
  kn_delete :: "int \<Rightarrow> jsstr \<Rightarrow> 'n \<Rightarrow> 'n"

record kv_page =
  pg_names :: "jsstr list"
  pg_complete :: bool
  pg_cursor :: "jsstr option"

text \<open>\<open>!page.cursor || page.cursor === cursor\<close>.\<close>

definition kv_stuck :: "kv_page \<Rightarrow> jsstr option \<Rightarrow> bool" where
  "kv_stuck page cursor \<longleftrightarrow> pg_cursor page = None \<or> pg_cursor page = Some [] \<or> pg_cursor page = cursor"

definition not_advanced :: js_error where
  "not_advanced = Error ''Cloudflare KV list did not advance its cursor''"

definition kv_name :: "jsstr \<Rightarrow> jsstr \<Rightarrow> js_error + jsstr" where
  "kv_name pre key = (if 512 < byteLength (pre @ key) then Inl (RangeError ''Cloudflare KV key exceeds 512 bytes'') else Inr (pre @ key))"

definition kv_selects :: "jsstr \<Rightarrow> jsstr \<Rightarrow> jsstr \<Rightarrow> bool" where
  "kv_selects pre pattern name \<longleftrightarrow> prefix pre name \<and> matchesPattern (drop (length pre) name) pattern = Some True"

text \<open>The prefix of the listing of a pattern: the text before the first asterisk.\<close>

definition kv_list_prefix :: "jsstr \<Rightarrow> jsstr \<Rightarrow> jsstr" where
  "kv_list_prefix pre pattern = pre @ takeWhile (\<lambda>c. c \<noteq> 42) pattern"

section \<open>Writing and reading\<close>

definition expirationTtl :: "int \<Rightarrow> int" where
  "expirationTtl ttlMs = max 60 \<lceil>fl (of_int ttlMs / 1000)\<rceil>"

definition kv_positive_ttl :: "jsnum \<Rightarrow> js_error + int" where
  "kv_positive_ttl ttl = (if isSafeInteger ttl \<and> jless (jint 0) ttl then Inr (num_int ttl)
     else Inl (RangeError ''Cloudflare KV TTL must be a positive safe integer''))"

definition no_max_entries :: js_error where
  "no_max_entries = RangeError ''Cloudflare KV does not support L2 maxEntries''"

text \<open>The arguments of \<open>put\<close>: the name, the record and the physical expiration in seconds.\<close>

definition put_request :: "'x codec_env_scheme \<Rightarrow> jsstr \<Rightarrow> js_error + int \<Rightarrow> string option \<Rightarrow> int \<Rightarrow> jsstr \<Rightarrow> jsval \<Rightarrow> js_error + jsstr \<times> bytes \<times> int" where
  "put_request E pre ttl compression now key v = (case ttl of Inl e \<Rightarrow> Inl e | Inr ttlMs \<Rightarrow>
     (case serializeCacheValue E v compression of Inl e \<Rightarrow> Inl e | Inr payload \<Rightarrow>
     (case encodeKVRecord payload (now + ttlMs) of Inl e \<Rightarrow> Inl e | Inr raw \<Rightarrow>
     (case kv_name pre key of Inl e \<Rightarrow> Inl e | Inr name \<Rightarrow> Inr (name, raw, expirationTtl ttlMs)))))"

definition put :: "'n kv_namespace \<Rightarrow> js_error + jsstr \<times> bytes \<times> int \<Rightarrow> ('n, unit) prog" where
  "put N request = lift request (\<lambda>(name, raw, ttl). tell (\<lambda>now. kn_put N now name raw ttl))"

definition kv_open :: "ResolvedDecodeLimits \<Rightarrow> int \<Rightarrow> bytes \<Rightarrow> (bytes \<times> int) option" where
  "kv_open limits now raw = (if maxEncodedBytes limits + 12 < int (length raw) then None
     else case decodeKVRecord now raw of Inl _ \<Rightarrow> None | Inr (payload, ttlRemainingMs) \<Rightarrow> if ttlRemainingMs \<le> 0 then None else Some (payload, ttlRemainingMs))"

text \<open>Resolved limits as options again.\<close>

definition given_limits :: "ResolvedDecodeLimits \<Rightarrow> DecodeLimits" where
  "given_limits l = \<lparr>maxEncodedBytes_opt = Some (jint (maxEncodedBytes l)), maxDecodedBytes_opt = Some (jint (maxDecodedBytes l)),
     maxDepth_opt = Some (jint (maxDepth l)), maxCollectionLength_opt = Some (jint (maxCollectionLength l)), maxTotalValues_opt = Some (jint (maxTotalValues l))\<rparr>"

definition read_entry :: "'n kv_namespace \<Rightarrow> jsstr \<Rightarrow> ResolvedDecodeLimits \<Rightarrow> jsstr \<Rightarrow> ('n, (bytes \<times> int) option) prog" where
  "read_entry N pre limits key = lift (kv_name pre key) (\<lambda>name. seq (ask (\<lambda>now. kn_get N now name)) (\<lambda>raw.
     case raw of None \<Rightarrow> give None | Some xs \<Rightarrow> at_now (\<lambda>now. give (kv_open limits now xs))))"

section \<open>The store of the Node runtime\<close>

record CloudflareKVStoreOptions = CacheOptions +
  kvo_prefix :: "jsstr option"
  kvo_compression :: "string option"

record CloudflareKVStore =
  kv_prefix :: jsstr
  kv_decodeLimits :: ResolvedDecodeLimits
  kv_options :: CloudflareKVStoreOptions

definition newCloudflareKVStore :: "CloudflareKVStoreOptions \<Rightarrow> js_error + CloudflareKVStore" where
  "newCloudflareKVStore options = (let pre = nullish (kvo_prefix options) (js ''cache:'') in
     case resolveDecodeLimits (co_decodeLimits options) of Inl e \<Rightarrow> Inl e | Inr limits \<Rightarrow>
     if pre = [] then Inl (RangeError ''Cloudflare KV prefix cannot be empty'')
     else case validateKVCompression (kvo_compression options) of Inl e \<Rightarrow> Inl e | Inr _ \<Rightarrow>
     if lo_maxEntries (co_L2 options) \<noteq> None then Inl no_max_entries
     else Inr \<lparr>kv_prefix = pre, kv_decodeLimits = limits, kv_options = options\<rparr>)"

definition kv_compression :: "CloudflareKVStore \<Rightarrow> string" where
  "kv_compression s = (if kvo_compression (kv_options s) = Some ''none'' then ''none'' else ''auto'')"

definition kv_ttl :: "CloudflareKVStore \<Rightarrow> CacheOptions \<Rightarrow> js_error + int" where
  "kv_ttl s options = (if lo_maxEntries (co_L2 options) \<noteq> None then Inl no_max_entries
     else kv_positive_ttl (nullish (lo_ttlMs (co_L2 options)) (nullish (co_ttlMs options) (nullish (lo_ttlMs (co_L2 (kv_options s)))
       (nullish (co_ttlMs (kv_options s)) (jint DEFAULT_CACHE_TTL_MS))))))"

definition kv_delete :: "'n kv_namespace \<Rightarrow> CloudflareKVStore \<Rightarrow> jsstr \<Rightarrow> ('n, unit) prog" where
  "kv_delete N s key = lift (kv_name (kv_prefix s) key) (\<lambda>name. tell (\<lambda>now. kn_delete N now name))"

definition kv_request :: "'x codec_env_scheme \<Rightarrow> CloudflareKVStore \<Rightarrow> jsstr \<Rightarrow> jsval \<Rightarrow> CacheOptions \<Rightarrow> int \<Rightarrow> js_error + jsstr \<times> bytes \<times> int" where
  "kv_request E s key v options now = put_request E (kv_prefix s) (kv_ttl s options) (Some (kv_compression s)) now key v"

definition kv_set :: "'x codec_env_scheme \<Rightarrow> 'n kv_namespace \<Rightarrow> CloudflareKVStore \<Rightarrow> jsstr \<Rightarrow> jsval \<Rightarrow> CacheOptions \<Rightarrow> ('n, unit) prog" where
  "kv_set E N s key v options = (if v = VUndefined then kv_delete N s key else at_now (\<lambda>now. put N (kv_request E s key v options now)))"

definition kv_readEncoded :: "'n kv_namespace \<Rightarrow> CloudflareKVStore \<Rightarrow> jsstr \<Rightarrow> ('n, (bytes \<times> int) option) prog" where
  "kv_readEncoded N s key = read_entry N (kv_prefix s) (kv_decodeLimits s) key"

definition kv_get :: "'x codec_env_scheme \<Rightarrow> 'n kv_namespace \<Rightarrow> CloudflareKVStore \<Rightarrow> jsstr \<Rightarrow> ('n, jsval) prog" where
  "kv_get E N s key = seq (kv_readEncoded N s key) (\<lambda>entry. case entry of None \<Rightarrow> give VUndefined
     | Some (buffer, _) \<Rightarrow> lift (decodePortableCacheRecord E buffer (given_limits (kv_decodeLimits s))) (\<lambda>d. give (case d of Hit v \<Rightarrow> v | Miss \<Rightarrow> VUndefined)))"

definition kv_getOrSet :: "'x codec_env_scheme \<Rightarrow> 'n kv_namespace \<Rightarrow> CloudflareKVStore \<Rightarrow> jsstr \<Rightarrow> js_error + jsval \<Rightarrow> CacheOptions \<Rightarrow> ('n, jsval) prog" where
  "kv_getOrSet E N s key loader options = seq (kv_get E N s key) (\<lambda>cached. if cached \<noteq> VUndefined then give cached
     else lift loader (\<lambda>v. if v = VUndefined then give VUndefined else seq (kv_set E N s key v options) (\<lambda>_. give v)))"

definition kv_has :: "'x codec_env_scheme \<Rightarrow> 'n kv_namespace \<Rightarrow> CloudflareKVStore \<Rightarrow> jsstr \<Rightarrow> ('n, bool) prog" where
  "kv_has E N s key = seq (kv_get E N s key) (\<lambda>v. give (v \<noteq> VUndefined))"

fun kv_purge :: "'n kv_namespace \<Rightarrow> jsstr \<Rightarrow> jsstr \<Rightarrow> jsstr option \<Rightarrow> (js_error + kv_page) list \<Rightarrow> ('n, unit option) prog" where
  "kv_purge N pre pattern cursor [] = give None"
| "kv_purge N pre pattern cursor (r # rs) = lift r (\<lambda>page.
     seq (each (\<lambda>name. if kv_selects pre pattern name then tell (\<lambda>now. kn_delete N now name) else give ()) (pg_names page)) (\<lambda>_.
     if pg_complete page then give (Some ()) else if kv_stuck page cursor then raise not_advanced else kv_purge N pre pattern (pg_cursor page) rs))"

definition kv_deleteByPattern :: "'n kv_namespace \<Rightarrow> CloudflareKVStore \<Rightarrow> jsstr \<Rightarrow> (js_error + kv_page) list \<Rightarrow> ('n, unit option) prog" where
  "kv_deleteByPattern N s pattern replies = (if 42 \<notin> set pattern then seq (kv_delete N s pattern) (\<lambda>_. give (Some ()))
     else kv_purge N (kv_prefix s) pattern None replies)"

definition kv_clear :: "'n kv_namespace \<Rightarrow> CloudflareKVStore \<Rightarrow> (js_error + kv_page) list \<Rightarrow> ('n, unit option) prog" where
  "kv_clear N s replies = kv_deleteByPattern N s (js ''*'') replies"

fun kv_count :: "(jsstr \<Rightarrow> bool) \<Rightarrow> nat \<Rightarrow> jsstr option \<Rightarrow> (js_error + kv_page) list \<Rightarrow> js_error + nat option" where
  "kv_count own n cursor [] = Inr None"
| "kv_count own n cursor (r # rs) = (case r of Inl e \<Rightarrow> Inl e | Inr page \<Rightarrow>
     let n1 = n + length (filter own (pg_names page)) in
     if pg_complete page then Inr (Some n1) else if kv_stuck page cursor then Inl not_advanced else kv_count own n1 (pg_cursor page) rs)"

definition kv_size :: "CloudflareKVStore \<Rightarrow> (js_error + kv_page) list \<Rightarrow> js_error + nat option" where
  "kv_size s replies = kv_count (prefix (kv_prefix s)) 0 None replies"

section \<open>The store of the Worker runtime\<close>

record CloudflareWorkerKVStoreOptions =
  wo_prefix :: "jsstr option"
  wo_ttlMs :: "jsnum option"
  wo_maxPatternScanKeys :: "jsnum option"
  wo_compression :: "string option"
  wo_decodeLimits :: DecodeLimits

record CloudflareWorkerKVStore =
  ws_prefix :: jsstr
  ws_decodeLimits :: ResolvedDecodeLimits
  ws_options :: CloudflareWorkerKVStoreOptions

definition max_scan :: "CloudflareWorkerKVStoreOptions \<Rightarrow> jsnum" where
  "max_scan options = nullish (wo_maxPatternScanKeys options) (jint 400)"

definition newCloudflareWorkerKVStore :: "CloudflareWorkerKVStoreOptions \<Rightarrow> js_error + CloudflareWorkerKVStore" where
  "newCloudflareWorkerKVStore options = (let pre = nullish (wo_prefix options) (js ''cache:'') in
     case resolveDecodeLimits (wo_decodeLimits options) of Inl e \<Rightarrow> Inl e | Inr limits \<Rightarrow>
     if pre = [] then Inl (RangeError ''Cloudflare KV prefix cannot be empty'')
     else case validateKVCompression (wo_compression options) of Inl e \<Rightarrow> Inl e | Inr _ \<Rightarrow>
     if \<not> isSafeInteger (max_scan options) \<or> jless (max_scan options) (jint 1) \<or> jless (jint 900) (max_scan options)
     then Inl (RangeError ''Cloudflare KV maxPatternScanKeys must be between 1 and 900'')
     else Inr \<lparr>ws_prefix = pre, ws_decodeLimits = limits, ws_options = options\<rparr>)"

definition DEFAULT_TTL_MS :: int where
  "DEFAULT_TTL_MS = 60 * 60 * 1000"

definition ws_ttl :: "CloudflareWorkerKVStore \<Rightarrow> CacheOptions \<Rightarrow> js_error + int" where
  "ws_ttl s options = (if lo_maxEntries (co_L2 options) \<noteq> None then Inl no_max_entries
     else kv_positive_ttl (nullish (lo_ttlMs (co_L2 options)) (nullish (co_ttlMs options) (nullish (wo_ttlMs (ws_options s)) (jint DEFAULT_TTL_MS)))))"

definition worker_delete :: "'n kv_namespace \<Rightarrow> CloudflareWorkerKVStore \<Rightarrow> jsstr \<Rightarrow> ('n, unit) prog" where
  "worker_delete N s key = lift (kv_name (ws_prefix s) key) (\<lambda>name. tell (\<lambda>now. kn_delete N now name))"

definition worker_request :: "'x codec_env_scheme \<Rightarrow> CloudflareWorkerKVStore \<Rightarrow> jsstr \<Rightarrow> jsval \<Rightarrow> CacheOptions \<Rightarrow> int \<Rightarrow> js_error + jsstr \<times> bytes \<times> int" where
  "worker_request E s key v options now = put_request E (ws_prefix s) (ws_ttl s options) (wo_compression (ws_options s)) now key v"

definition worker_set :: "'x codec_env_scheme \<Rightarrow> 'n kv_namespace \<Rightarrow> CloudflareWorkerKVStore \<Rightarrow> jsstr \<Rightarrow> jsval \<Rightarrow> CacheOptions \<Rightarrow> ('n, unit) prog" where
  "worker_set E N s key v options = (if v = VUndefined then worker_delete N s key else at_now (\<lambda>now. put N (worker_request E s key v options now)))"

definition worker_getWithTtl :: "'x codec_env_scheme \<Rightarrow> 'n kv_namespace \<Rightarrow> CloudflareWorkerKVStore \<Rightarrow> jsstr \<Rightarrow> ('n, (jsval \<times> int) option) prog" where
  "worker_getWithTtl E N s key = seq (read_entry N (ws_prefix s) (ws_decodeLimits s) key) (\<lambda>entry. case entry of None \<Rightarrow> give None
     | Some (payload, ttl) \<Rightarrow> lift (decodePortableCacheRecord E payload (given_limits (ws_decodeLimits s))) (\<lambda>d. give (case d of Hit v \<Rightarrow> Some (v, ttl) | Miss \<Rightarrow> None)))"

definition worker_get :: "'x codec_env_scheme \<Rightarrow> 'n kv_namespace \<Rightarrow> CloudflareWorkerKVStore \<Rightarrow> jsstr \<Rightarrow> ('n, jsval) prog" where
  "worker_get E N s key = seq (worker_getWithTtl E N s key) (\<lambda>x. give (case x of None \<Rightarrow> VUndefined | Some (v, _) \<Rightarrow> v))"

definition worker_getOrSet :: "'x codec_env_scheme \<Rightarrow> 'n kv_namespace \<Rightarrow> CloudflareWorkerKVStore \<Rightarrow> jsstr \<Rightarrow> js_error + jsval \<Rightarrow> CacheOptions \<Rightarrow> ('n, jsval) prog" where
  "worker_getOrSet E N s key loader options = seq (worker_get E N s key) (\<lambda>cached. if cached \<noteq> VUndefined then give cached
     else lift loader (\<lambda>v. if v = VUndefined then give VUndefined else seq (worker_set E N s key v options) (\<lambda>_. give v)))"

definition worker_has :: "'x codec_env_scheme \<Rightarrow> 'n kv_namespace \<Rightarrow> CloudflareWorkerKVStore \<Rightarrow> jsstr \<Rightarrow> ('n, bool) prog" where
  "worker_has E N s key = seq (worker_getWithTtl E N s key) (\<lambda>x. give (x \<noteq> None))"

text \<open>The bounded scan of a purge: the names to delete, before any is deleted.\<close>

fun worker_scan :: "nat \<Rightarrow> jsstr \<Rightarrow> jsstr \<Rightarrow> nat \<Rightarrow> jsstr option \<Rightarrow> jsstr list \<Rightarrow> (js_error + kv_page) list \<Rightarrow> js_error + jsstr list option" where
  "worker_scan mx pre pattern scanned cursor names [] = Inr None"
| "worker_scan mx pre pattern scanned cursor names (r # rs) = (case r of Inl e \<Rightarrow> Inl e | Inr page \<Rightarrow>
     let scanned1 = scanned + length (pg_names page); names1 = names @ filter (kv_selects pre pattern) (pg_names page) in
     if mx < scanned1 \<or> \<not> pg_complete page \<and> mx \<le> scanned1
     then Inl (RangeError ''Cloudflare KV pattern scan exceeded the limit of keys; use a narrower pattern or a background purge'')
     else if pg_complete page then Inr (Some names1)
     else if kv_stuck page cursor then Inl not_advanced
     else worker_scan mx pre pattern scanned1 (pg_cursor page) names1 rs)"

definition worker_deleteByPattern :: "'n kv_namespace \<Rightarrow> CloudflareWorkerKVStore \<Rightarrow> jsstr \<Rightarrow> (js_error + kv_page) list \<Rightarrow> ('n, unit option) prog" where
  "worker_deleteByPattern N s pattern replies = (if 42 \<notin> set pattern then seq (worker_delete N s pattern) (\<lambda>_. give (Some ()))
     else lift (worker_scan (nat (num_int (max_scan (ws_options s)))) (ws_prefix s) pattern 0 None [] replies) (\<lambda>names.
       case names of None \<Rightarrow> give None | Some ns \<Rightarrow> seq (each (\<lambda>name. tell (\<lambda>now. kn_delete N now name)) ns) (\<lambda>_. give (Some ()))))"

definition worker_clear :: "'n kv_namespace \<Rightarrow> CloudflareWorkerKVStore \<Rightarrow> (js_error + kv_page) list \<Rightarrow> ('n, unit option) prog" where
  "worker_clear N s replies = worker_deleteByPattern N s (js ''*'') replies"

definition worker_size :: "CloudflareWorkerKVStore \<Rightarrow> (js_error + kv_page) list \<Rightarrow> js_error + nat option" where
  "worker_size s replies = kv_count (\<lambda>_. True) 0 None replies"

section \<open>Expiration\<close>

text \<open>The namespace keeps a record at least as long as its logical time to live, for every safe one.\<close>

lemma expiration_covers:
  assumes "0 < ttl" "ttl \<le> MAX_SAFE_INTEGER"
  shows "ttl \<le> 1000 * expirationTtl ttl" "60 \<le> expirationTtl ttl"
proof -
  let ?x = "of_int ttl / 1000 :: real"
  have "of_int ttl \<le> (2 ^ 53 - 1 :: real)" using assms(2) by (simp add: MAX_SAFE_INTEGER_def)
  then have "\<bar>?x\<bar> * 2 powi (-53) < 1 / 1000" using assms(1) by (simp add: power_int_minus field_simps)
  then have "?x - 1 / 1000 < fl ?x" using fl_error [of ?x] by linarith
  then have "?x - 1 / 1000 < of_int \<lceil>fl ?x\<rceil>" by linarith
  then have "of_int ttl - 1 < (of_int (1000 * \<lceil>fl ?x\<rceil>) :: real)" by (simp add: field_simps)
  then have "ttl - 1 < 1000 * \<lceil>fl ?x\<rceil>" by linarith
  then show "ttl \<le> 1000 * expirationTtl ttl" unfolding expirationTtl_def by linarith
qed (simp add: expirationTtl_def)

lemma resolve_given:
  assumes "resolveDecodeLimits d = Inr l"
  shows "resolveDecodeLimits (given_limits l) = Inr l"
proof -
  have same: "jint (num_int n) = n" if "positive_safe n" for n
    using that by (cases n) (auto simp: positive_safe_def elim: Ints_cases)
  obtain a b c x y where l: "l = \<lparr>maxEncodedBytes = num_int a, maxDecodedBytes = num_int b, maxDepth = num_int c, maxCollectionLength = num_int x, maxTotalValues = num_int y\<rparr>"
    and ok: "positive_safe a" "positive_safe b" "positive_safe c" "positive_safe x" "positive_safe y"
    using assms unfolding resolveDecodeLimits_def Let_def by (auto split: if_splits)
  then have "given_limits l = \<lparr>maxEncodedBytes_opt = Some a, maxDecodedBytes_opt = Some b, maxDepth_opt = Some c, maxCollectionLength_opt = Some x, maxTotalValues_opt = Some y\<rparr>"
    unfolding given_limits_def by (simp only: same DecodeLimits.simps ResolvedDecodeLimits.simps)
  then show ?thesis using ok l by (simp add: resolveDecodeLimits_def Let_def)
qed

section \<open>Purges\<close>

text \<open>The pages of a listing, up to the one that completes it.\<close>

fun listed :: "(js_error + kv_page) list \<Rightarrow> kv_page list" where
  "listed [] = []"
| "listed (r # rs) = (case r of Inl _ \<Rightarrow> [] | Inr p \<Rightarrow> if pg_complete p then [p] else p # listed rs)"

lemma worker_scan_names:
  "worker_scan mx pre pattern scanned cursor names rs = Inr (Some ns) \<Longrightarrow> ns = names @ filter (kv_selects pre pattern) (concat (map pg_names (listed rs)))"
  by (induction mx pre pattern scanned cursor names rs rule: worker_scan.induct) (auto simp: Let_def split: sum.splits if_splits)

lemma worker_scan_bound:
  "worker_scan mx pre pattern scanned cursor names rs = Inr (Some ns) \<Longrightarrow> length names \<le> scanned \<Longrightarrow> length ns \<le> mx"
proof (induction mx pre pattern scanned cursor names rs rule: worker_scan.induct)
  case (2 mx pre pattern scanned cursor names r rs)
  have f: "length (filter P xs) \<le> length xs" for P and xs :: "jsstr list" by simp
  show ?case
  proof (cases r)
    case (Inr page)
    have "length (names @ filter (kv_selects pre pattern) (pg_names page)) \<le> scanned + length (pg_names page)" using add_mono [OF 2(3) f [of "kv_selects pre pattern" "pg_names page"]] by simp
    then show ?thesis using 2(1) [OF Inr refl refl] 2(2) Inr by (auto simp: Let_def split: if_splits)
  qed (use 2(2) in simp)
qed simp

lemma each_free: "ln_fates l = [] \<Longrightarrow> each (\<lambda>x. tell (\<lambda>now. f now x)) xs l = (Inr (), l\<lparr>ln_server := fold (f (ln_now l)) xs (ln_server l)\<rparr>)"
  by (induction xs arbitrary: l) (simp_all add: give_def seq_def tell_def send_free)

lemma literal_prefix: "glob pattern v \<Longrightarrow> prefix (takeWhile (\<lambda>c. c \<noteq> 42) pattern) v"
proof (induction pattern arbitrary: v)
  case (Cons c p)
  then show ?case by (cases v) auto
qed simp

lemma listing_covers:
  assumes "length pattern < 2 ^ 32" "matchesPattern key pattern = Some True"
  shows "prefix (kv_list_prefix pre pattern) (pre @ key)"
  using assms literal_prefix [of pattern key] matchesPattern_meaning [of pattern key] by (auto simp: kv_list_prefix_def)

section \<open>Properties\<close>

text \<open>What the formats rely on for a value: MessagePack, JSON and gzip read back what they wrote.\<close>

definition kv_carries :: "'x codec_env_scheme \<Rightarrow> jsval \<Rightarrow> ResolvedDecodeLimits \<Rightarrow> bool" where
  "kv_carries E v limits \<longleftrightarrow> carries E v limits \<and> sentinel_packs E limits \<and> carries E (VStr CACHE_NULL_SENTINEL) limits
     \<and> (\<forall>b. gunzip_stream E (gzip_stream E b) = Some b)
     \<and> (\<forall>b. int (length b) \<le> maxDecodedBytes limits \<longrightarrow> inflate E gzip (gzip_stream E b) (Some (maxDecodedBytes limits)) = Some b)"

lemma request_read:
  assumes "put_request E pre (Inr ttl) c now key v = Inr (name, raw, keep)" and "v \<noteq> VUndefined" and "resolveDecodeLimits d = Inr limits"
    and "kv_carries E v limits" and "int (length raw) \<le> maxEncodedBytes limits + 12"
  shows "\<exists>payload. kv_open limits t raw = (if t < now + ttl then Some (payload, now + ttl - t) else None)
      \<and> decodePortableCacheRecord E payload (given_limits limits) = Inr (Hit v)" "name = pre @ key" "keep = expirationTtl ttl"
proof -
  obtain payload where p: "serializeCacheValue E v c = Inr payload" "encodeKVRecord payload (now + ttl) = Inr raw" and n: "kv_name pre key = Inr name" "keep = expirationTtl ttl"
    using assms(1) by (auto simp: put_request_def split: sum.splits)
  then show "name = pre @ key" "keep = expirationTtl ttl" by (auto simp: kv_name_def split: if_splits)
  obtain mode where m: "serializePortable E v mode = Inr payload" using p(1) by (auto simp: serializeCacheValue_def Let_def split: sum.splits)
  note r = kv_record [OF p(2)]
  have "decodePortableCacheRecord E payload (given_limits limits) = Inr (Hit (read_back v))"
    using portable_interop [OF resolve_given [OF assms(3)] m] assms(4,5) r(2) by (simp add: kv_carries_def)
  then have "decodePortableCacheRecord E payload (given_limits limits) = Inr (Hit v)" using assms(2) by (simp add: read_back_def split: if_splits)
  then show "\<exists>payload. kv_open limits t raw = (if t < now + ttl then Some (payload, now + ttl - t) else None)
      \<and> decodePortableCacheRecord E payload (given_limits limits) = Inr (Hit v)"
    using assms(5) r(1) [of t] by (intro exI [of _ payload]) (simp add: kv_open_def)
qed

text \<open>
  C22. Records of the two runtimes are interchangeable and end on time: whichever store wrote a value, when
  the namespace returns the bytes it was given, both stores read the value back while its time to live
  lasts, to the millisecond, and neither returns it afterwards, although KV keeps every record for at
  least a minute; and KV keeps the record at least as long as the value is valid.
\<close>

theorem kv_roundtrip:
  assumes wrote: "kv_request E s key v options now = Inr (name, raw, keep) \<and> kv_ttl s options = Inr ttl
      \<or> worker_request E w key v options now = Inr (name, raw, keep) \<and> ws_ttl w options = Inr ttl" and v: "v \<noteq> VUndefined"
    and same: "ws_prefix w = kv_prefix s" "ws_decodeLimits w = limits" "kv_decodeLimits s = limits" "resolveDecodeLimits d = Inr limits"
    and codec: "kv_carries E v limits" "int (length raw) \<le> maxEncodedBytes limits + 12"
    and read: "ln_fates l = []" "kn_get N (ln_now l) name (ln_server l) = Some raw"
  shows "fst (kv_get E N s key l) = Inr (if ln_now l < now + ttl then v else VUndefined)
    \<and> fst (worker_getWithTtl E N w key l) = Inr (if ln_now l < now + ttl then Some (v, now + ttl - ln_now l) else None)
    \<and> ttl \<le> 1000 * keep \<and> 60 \<le> keep"
proof -
  obtain c where put: "put_request E (kv_prefix s) (Inr ttl) c now key v = Inr (name, raw, keep)"
    using wrote same(1) unfolding kv_request_def worker_request_def by metis
  note r = request_read [OF put v same(4) codec]
  obtain payload where p: "kv_open limits (ln_now l) raw = (if ln_now l < now + ttl then Some (payload, now + ttl - ln_now l) else None)"
    "decodePortableCacheRecord E payload (given_limits limits) = Inr (Hit v)" using r(1) [of "ln_now l"] by blast
  have n: "kv_name (kv_prefix s) key = Inr name" using put by (auto simp: put_request_def split: sum.splits)
  have "0 < ttl" "ttl \<le> MAX_SAFE_INTEGER" using wrote
    by (auto simp: kv_ttl_def ws_ttl_def kv_positive_ttl_def elim!: isSafeInteger_cases split: if_splits)
  moreover have e: "read_entry N (kv_prefix s) limits key l = (Inr (kv_open limits (ln_now l) raw), l)"
    using read n by (simp add: read_entry_def lift_def seq_def ask_def send_free at_now_def give_def)
  ultimately show ?thesis using p expiration_covers [of ttl] r(3) same
    by (simp add: kv_get_def kv_readEncoded_def worker_getWithTtl_def seq_def lift_def give_def)
qed


definition demo_kv :: CloudflareKVStore where
  "demo_kv = \<lparr>kv_prefix = js ''cache:'', kv_decodeLimits = default_limits, kv_options = CacheOptions.extend no_cache_options \<lparr>kvo_prefix = None, kvo_compression = None\<rparr>\<rparr>"

definition demo_worker_options :: CloudflareWorkerKVStoreOptions where
  "demo_worker_options = \<lparr>wo_prefix = None, wo_ttlMs = None, wo_maxPatternScanKeys = Some (jint 2), wo_compression = None, wo_decodeLimits = no_limits\<rparr>"

definition demo_worker :: CloudflareWorkerKVStore where
  "demo_worker = \<lparr>ws_prefix = js ''cache:'', ws_decodeLimits = default_limits, ws_options = demo_worker_options\<rparr>"

text \<open>A namespace that returns one record for every name, and one that logs the names that were deleted.\<close>

definition one_record :: "bytes kv_namespace" where
  "one_record = \<lparr>kn_get = (\<lambda>_ _ r. Some r), kn_put = (\<lambda>_ _ r _ _. r), kn_delete = (\<lambda>_ _ r. r)\<rparr>"

definition deletion_log :: "jsstr list kv_namespace" where
  "deletion_log = \<lparr>kn_get = (\<lambda>_ _ _. None), kn_put = (\<lambda>_ _ _ _ log. log), kn_delete = (\<lambda>_ name log. log @ [name])\<rparr>"

theorem kv_roundtrip_witness:
  "\<exists>raw keep. kv_request demo_env demo_kv (js ''a'') VNull no_cache_options 1000 = Inr (js ''cache:a'', raw, keep)
     \<and> fst (kv_get demo_env one_record demo_kv (js ''a'') \<lparr>ln_server = raw, ln_now = 2000, ln_fates = []\<rparr>) = Inr VNull
     \<and> fst (worker_getWithTtl demo_env one_record demo_worker (js ''a'') \<lparr>ln_server = raw, ln_now = 3601000, ln_fates = []\<rparr>) = Inr None"
proof -
  let ?b = "SENTINEL_BUFFER demo_env" and ?raw = "HEADER @ setFloat64 3601000 @ SENTINEL_BUFFER demo_env"
  have ttl: "kv_ttl demo_kv no_cache_options = Inr 3600000"
    by (simp add: kv_ttl_def kv_positive_ttl_def no_cache_options_def no_level_def demo_kv_def CacheOptions.defs DEFAULT_CACHE_TTL_MS_def MAX_SAFE_INTEGER_def)
  have b: "serializeCacheValue demo_env VNull (Some ''auto'') = Inr ?b" "length ?b < 100" by code_simp+
  have e: "encodeKVRecord ?b 3601000 = Inr ?raw" using b(2) by (simp add: encodeKVRecord_def HEADER_BYTES_def MAX_SAFE_INTEGER_def)
  have n: "kv_name (js ''cache:'') (js ''a'') = Inr (js ''cache:a'')" by code_simp
  have c: "kv_compression demo_kv = ''auto''" "kv_prefix demo_kv = js ''cache:''" by (simp_all add: kv_compression_def demo_kv_def CacheOptions.defs)
  have put: "kv_request demo_env demo_kv (js ''a'') VNull no_cache_options 1000 = Inr (js ''cache:a'', ?raw, expirationTtl 3600000)"
    unfolding kv_request_def put_request_def ttl c sum.case b(1) by (simp add: e n)
  have "carries demo_env VNull default_limits" "carries demo_env (VStr CACHE_NULL_SENTINEL) default_limits" by code_simp+
  then have k: "kv_carries demo_env VNull default_limits" using demo_carries(2) by (simp add: kv_carries_def demo_env_def demo_inflate_def)
  have fit: "int (length ?raw) \<le> maxEncodedBytes default_limits + 12" using b(2) float64_roundtrip(2) [of 3601000] by (simp add: HEADER_def default_limits_def)
  have s: "ws_prefix demo_worker = kv_prefix demo_kv" "ws_decodeLimits demo_worker = default_limits" "kv_decodeLimits demo_kv = default_limits"
    by (simp_all add: demo_worker_def demo_kv_def)
  note r = kv_roundtrip [OF disjI1 [OF conjI [OF put ttl]] _ s default_limits_resolved k fit, of _ one_record]
  show ?thesis using put r [of "\<lparr>ln_server = ?raw, ln_now = 2000, ln_fates = []\<rparr>"] r [of "\<lparr>ln_server = ?raw, ln_now = 3601000, ln_fates = []\<rparr>"]
    by (intro exI [of _ ?raw] exI [of _ "expirationTtl 3600000"]) (simp add: one_record_def)
qed


end
