(* ===== verification/Worker_Cache.thy ===== *)
theory Worker_Cache
  imports Kv_Store JS_Map
begin

text \<open>
  The cache of the Worker runtime (\<open>cloudflare/index.ts\<close>): the in-memory L1 and the facade over KV. An operation of
  the facade is a sequence of segments between its awaits; a segment is a function of the state, and what
  the await returned (the answer of KV, the value of the loader) is an argument. Any number of operations
  interleave. Key revisions are objects with an identity, so they are held in a list and named by their
  index; a promise is named by a number.
\<close>

section \<open>The in-memory L1\<close>

record worker_l1 =
  wl_entries :: "(jsstr, jsval \<times> int) omap"
  wl_maxEntries :: nat

definition newWorkerMemoryStore :: "jsnum \<Rightarrow> js_error + worker_l1" where
  "newWorkerMemoryStore n = (if isSafeInteger n \<and> jless (jint 0) n then Inr \<lparr>wl_entries = [], wl_maxEntries = nat (num_int n)\<rparr>
     else Inl (RangeError ''L1 maxEntries must be positive''))"

definition wl_get :: "int \<Rightarrow> jsstr \<Rightarrow> worker_l1 \<Rightarrow> jsval \<times> worker_l1" where
  "wl_get now name m = (case om_get (wl_entries m) name of None \<Rightarrow> (VUndefined, m)
     | Some (v, expiresAt) \<Rightarrow> let es = om_del (wl_entries m) name in
         if expiresAt \<le> now then (VUndefined, m\<lparr>wl_entries := es\<rparr>) else (v, m\<lparr>wl_entries := om_set es name (v, expiresAt)\<rparr>))"

fun wl_evict :: "nat \<Rightarrow> (jsstr, jsval \<times> int) omap \<Rightarrow> (jsstr, jsval \<times> int) omap" where
  "wl_evict mx [] = []"
| "wl_evict mx (e # es) = (if mx < length (e # es) then wl_evict mx es else e # es)"

definition wl_set :: "int \<Rightarrow> jsstr \<Rightarrow> jsval \<Rightarrow> int \<Rightarrow> worker_l1 \<Rightarrow> js_error + worker_l1" where
  "wl_set now name v ttlMs m = (if ttlMs \<le> 0 \<or> MAX_SAFE_INTEGER < ttlMs then Inl (RangeError ''L1 TTL must be positive'')
     else Inr (m\<lparr>wl_entries := wl_evict (wl_maxEntries m) (om_set (om_del (wl_entries m) name) name (v, now + ttlMs))\<rparr>))"

definition wl_delete :: "jsstr \<Rightarrow> worker_l1 \<Rightarrow> worker_l1" where
  "wl_delete name m = m\<lparr>wl_entries := om_del (wl_entries m) name\<rparr>"

definition wl_deleteByPattern :: "jsstr \<Rightarrow> worker_l1 \<Rightarrow> worker_l1" where
  "wl_deleteByPattern pattern m = m\<lparr>wl_entries := filter (\<lambda>p. matchesPattern (fst p) pattern \<noteq> Some True) (wl_entries m)\<rparr>"

definition wl_clear :: "worker_l1 \<Rightarrow> worker_l1" where
  "wl_clear m = m\<lparr>wl_entries := []\<rparr>"

section \<open>The facade\<close>

record WorkerKeyRevision =
  wr_revision :: nat
  wr_references :: int

record WorkerMutationGuard =
  wg_name :: jsstr
  wg_state :: nat
  wg_revision :: nat
  wg_epoch :: nat

record CloudflareWorkerCache =
  wc_l2 :: CloudflareWorkerKVStore
  wc_l1 :: "worker_l1 option"
  wc_inflight :: "(jsstr, nat) omap"
  wc_keyRevisions :: "(jsstr, nat) omap"
  wc_states :: "WorkerKeyRevision list"
  wc_promises :: nat
  wc_l1TtlMs :: int
  wc_closed :: bool
  wc_epoch :: nat
  wc_publisher :: bool

definition newCloudflareWorkerCache :: "CloudflareWorkerKVStoreOptions \<Rightarrow> worker_l1 option \<Rightarrow> jsnum option \<Rightarrow> bool \<Rightarrow> js_error + CloudflareWorkerCache" where
  "newCloudflareWorkerCache options l1 l1TtlMs publisher = (case newCloudflareWorkerKVStore options of Inl e \<Rightarrow> Inl e | Inr l2 \<Rightarrow>
     let ttl = nullish l1TtlMs (jint 10000) in
     if isSafeInteger ttl \<and> jless (jint 0) ttl
     then Inr \<lparr>wc_l2 = l2, wc_l1 = l1, wc_inflight = [], wc_keyRevisions = [], wc_states = [], wc_promises = 0, wc_l1TtlMs = num_int ttl,
       wc_closed = False, wc_epoch = 0, wc_publisher = publisher\<rparr>
     else Inl (RangeError ''L1 TTL must be positive''))"

definition closed_error :: js_error where
  "closed_error = Error ''Cloudflare Worker cache is closed''"

definition localKey :: "CloudflareWorkerCache \<Rightarrow> jsstr \<Rightarrow> jsstr" where
  "localKey h key = ws_prefix (wc_l2 h) @ key"

definition with_l1 :: "(worker_l1 \<Rightarrow> worker_l1) \<Rightarrow> CloudflareWorkerCache \<Rightarrow> CloudflareWorkerCache" where
  "with_l1 f h = h\<lparr>wc_l1 := map_option f (wc_l1 h)\<rparr>"

definition worker_observeKey :: "jsstr \<Rightarrow> bool \<Rightarrow> CloudflareWorkerCache \<Rightarrow> WorkerMutationGuard \<times> CloudflareWorkerCache" where
  "worker_observeKey name mutate h =
     (let h1 = (if om_get (wc_keyRevisions h) name = None
                then h\<lparr>wc_keyRevisions := om_set (wc_keyRevisions h) name (length (wc_states h)), wc_states := wc_states h @ [\<lparr>wr_revision = 0, wr_references = 0\<rparr>]\<rparr>
                else h);
          i = the (om_get (wc_keyRevisions h1) name); st = wc_states h1 ! i;
          st1 = st\<lparr>wr_references := wr_references st + 1, wr_revision := (if mutate then wr_revision st + 1 else wr_revision st)\<rparr> in
      (\<lparr>wg_name = name, wg_state = i, wg_revision = wr_revision st1, wg_epoch = wc_epoch h1\<rparr>, h1\<lparr>wc_states := (wc_states h1)[i := st1]\<rparr>))"

definition worker_releaseKey :: "WorkerMutationGuard \<Rightarrow> CloudflareWorkerCache \<Rightarrow> CloudflareWorkerCache" where
  "worker_releaseKey g h =
     (let st = wc_states h ! wg_state g; st1 = st\<lparr>wr_references := wr_references st - 1\<rparr>; h1 = h\<lparr>wc_states := (wc_states h)[wg_state g := st1]\<rparr> in
      if wr_references st1 = 0 \<and> om_get (wc_keyRevisions h1) (wg_name g) = Some (wg_state g)
      then h1\<lparr>wc_keyRevisions := om_del (wc_keyRevisions h1) (wg_name g)\<rparr> else h1)"

definition worker_isCurrent :: "WorkerMutationGuard \<Rightarrow> CloudflareWorkerCache \<Rightarrow> bool" where
  "worker_isCurrent g h \<longleftrightarrow> \<not> wc_closed h \<and> wg_epoch g = wc_epoch h \<and> wr_revision (wc_states h ! wg_state g) = wg_revision g
     \<and> om_get (wc_keyRevisions h) (wg_name g) = Some (wg_state g)"

text \<open>
  The time a value may stay in L1, from the time to live in KV and what has elapsed since; not positive
  when it may not (also where the source has \<open>NaN\<close>).
\<close>

fun wc_remaining :: "CloudflareWorkerCache \<Rightarrow> jsnum \<Rightarrow> real \<Rightarrow> int" where
  "wc_remaining h (JNum ttl) elapsed = \<lfloor>min (of_int (wc_l1TtlMs h)) (fl (ttl - elapsed))\<rfloor>"
| "wc_remaining h JInf elapsed = wc_l1TtlMs h"
| "wc_remaining h _ elapsed = 0"

definition option_ttl :: "CloudflareWorkerCache \<Rightarrow> CacheOptions \<Rightarrow> jsnum" where
  "option_ttl h options = nullish (lo_ttlMs (co_L2 options)) (nullish (co_ttlMs options) (nullish (wo_ttlMs (ws_options (wc_l2 h))) (jint DEFAULT_TTL_MS)))"

text \<open>\<open>this.options.l1?.set(...)\<close> with a time to live that is positive.\<close>

definition remember_local :: "int \<Rightarrow> jsstr \<Rightarrow> jsval \<Rightarrow> int \<Rightarrow> CloudflareWorkerCache \<Rightarrow> CloudflareWorkerCache" where
  "remember_local now key v remaining h = with_l1 (\<lambda>m. case wl_set now (localKey h key) v remaining m of Inl _ \<Rightarrow> m | Inr m1 \<Rightarrow> m1) h"

section \<open>Reading\<close>

text \<open>
  A read begins: it raises, returns a local value, or waits for KV with a guard. When KV answers it ends.
\<close>

datatype 'a begun = Raised js_error | Returned 'a | Waiting WorkerMutationGuard

definition get_begin :: "int \<Rightarrow> jsstr \<Rightarrow> CloudflareWorkerCache \<Rightarrow> jsval begun \<times> CloudflareWorkerCache" where
  "get_begin now key h = (if wc_closed h then (Raised closed_error, h)
     else let (g, h1) = worker_observeKey key False h in
       case wc_l1 h1 of None \<Rightarrow> (Waiting g, h1)
       | Some m \<Rightarrow> let (local, m1) = wl_get now (localKey h1 key) m; h2 = h1\<lparr>wc_l1 := Some m1\<rparr> in
           if local \<noteq> VUndefined then (Returned local, worker_releaseKey g h2) else (Waiting g, h2))"

definition get_end :: "int \<Rightarrow> WorkerMutationGuard \<Rightarrow> real \<Rightarrow> js_error + (jsval \<times> int) option \<Rightarrow> CloudflareWorkerCache \<Rightarrow> (js_error + jsval) \<times> CloudflareWorkerCache" where
  "get_end now g elapsed entry h = (case entry of Inl e \<Rightarrow> (Inl e, worker_releaseKey g h)
     | Inr None \<Rightarrow> (Inr VUndefined, worker_releaseKey g h)
     | Inr (Some (v, ttl)) \<Rightarrow> let remaining = wc_remaining h (jint ttl) elapsed in
         if remaining \<le> 0 then (Inr VUndefined, worker_releaseKey g h)
         else (Inr v, worker_releaseKey g (if worker_isCurrent g h then remember_local now (wg_name g) v remaining h else h)))"

section \<open>Loading\<close>

datatype joined = LoadRefused js_error | Joins nat | Leads WorkerMutationGuard nat

text \<open>\<open>getOrSet\<close> after its read found nothing: it joins a load or registers its own.\<close>

definition load_begin :: "jsstr \<Rightarrow> CloudflareWorkerCache \<Rightarrow> joined \<times> CloudflareWorkerCache" where
  "load_begin key h = (if wc_closed h then (LoadRefused closed_error, h)
     else case om_get (wc_inflight h) key of Some p \<Rightarrow> (Joins p, h)
     | None \<Rightarrow> let (g, h1) = worker_observeKey key False h; p = wc_promises h1 in
         (Leads g p, h1\<lparr>wc_inflight := om_set (wc_inflight h1) key p, wc_promises := p + 1\<rparr>))"

text \<open>The \<open>finally\<close> of the leader.\<close>

definition load_settle :: "WorkerMutationGuard \<Rightarrow> nat \<Rightarrow> CloudflareWorkerCache \<Rightarrow> CloudflareWorkerCache" where
  "load_settle g p h = worker_releaseKey g (if om_get (wc_inflight h) (wg_name g) = Some p then h\<lparr>wc_inflight := om_del (wc_inflight h) (wg_name g)\<rparr> else h)"

text \<open>
  The loader has settled: the load ends, or its value is written to KV. The body of the promise raises
  when the cache was closed before it began.
\<close>

datatype load_next = LoadEnds "js_error + jsval" | WritesKv jsval

definition load_result :: "WorkerMutationGuard \<Rightarrow> nat \<Rightarrow> js_error + jsval \<Rightarrow> CloudflareWorkerCache \<Rightarrow> load_next \<times> CloudflareWorkerCache" where
  "load_result g p r h = (case r of Inl e \<Rightarrow> (LoadEnds (Inl e), load_settle g p h)
     | Inr v \<Rightarrow> if v \<noteq> VUndefined \<and> worker_isCurrent g h then (WritesKv v, h) else (LoadEnds (Inr v), load_settle g p h))"

text \<open>KV has answered, whether or not it took the value.\<close>

definition load_filled :: "int \<Rightarrow> WorkerMutationGuard \<Rightarrow> nat \<Rightarrow> jsval \<Rightarrow> CacheOptions \<Rightarrow> real \<Rightarrow> js_error + unit \<Rightarrow> CloudflareWorkerCache \<Rightarrow> jsval \<times> CloudflareWorkerCache" where
  "load_filled now g p v options elapsed r h =
     (let remaining = wc_remaining h (option_ttl h options) elapsed;
          h1 = (if worker_isCurrent g h \<and> 0 < remaining then remember_local now (wg_name g) v remaining h else h) in (v, load_settle g p h1))"

section \<open>Writing and deleting\<close>

text \<open>\<open>invalidateWithQueue\<close>: what the local deletion and the publication answered decide the result.\<close>

definition invalidateWithQueue :: "CloudflareWorkerCache \<Rightarrow> js_error + unit \<Rightarrow> js_error + unit \<Rightarrow> js_error + unit" where
  "invalidateWithQueue h local publish = (case local of Inl (RangeError m) \<Rightarrow> Inl (RangeError m)
     | _ \<Rightarrow> if \<not> wc_publisher h then local else publish)"

text \<open>The first segment of \<open>set\<close> and of \<open>delete\<close>.\<close>

definition mutate_begin :: "jsstr \<Rightarrow> CloudflareWorkerCache \<Rightarrow> unit begun \<times> CloudflareWorkerCache" where
  "mutate_begin key h = (if wc_closed h then (Raised closed_error, h)
     else let (g, h1) = worker_observeKey key True h in
       (Waiting g, with_l1 (wl_delete (localKey h1 key)) (h1\<lparr>wc_inflight := om_del (wc_inflight h1) key\<rparr>)))"

definition set_end :: "int \<Rightarrow> WorkerMutationGuard \<Rightarrow> jsval \<Rightarrow> CacheOptions \<Rightarrow> real \<Rightarrow> js_error + unit \<Rightarrow> CloudflareWorkerCache \<Rightarrow> (js_error + unit) \<times> CloudflareWorkerCache" where
  "set_end now g v options elapsed r h = (r, worker_releaseKey g (case r of Inl _ \<Rightarrow> h
     | Inr _ \<Rightarrow> let remaining = wc_remaining h (option_ttl h options) elapsed in
         if worker_isCurrent g h \<and> 0 < remaining then remember_local now (wg_name g) v remaining h else h))"

definition delete_end :: "WorkerMutationGuard \<Rightarrow> js_error + unit \<Rightarrow> js_error + unit \<Rightarrow> CloudflareWorkerCache \<Rightarrow> (js_error + unit) \<times> CloudflareWorkerCache" where
  "delete_end g local publish h = (invalidateWithQueue h local publish, worker_releaseKey g h)"

text \<open>A deletion by pattern bumps the revision of every key in use that matches.\<close>

definition bump :: "nat \<Rightarrow> WorkerKeyRevision list \<Rightarrow> WorkerKeyRevision list" where
  "bump i xs = xs[i := (xs ! i)\<lparr>wr_revision := wr_revision (xs ! i) + 1\<rparr>]"

definition pattern_begin :: "jsstr \<Rightarrow> CloudflareWorkerCache \<Rightarrow> js_error option \<times> CloudflareWorkerCache" where
  "pattern_begin pattern h = (if wc_closed h then (Some closed_error, h)
     else let hit = filter (\<lambda>p. matchesPattern (fst p) pattern = Some True) (wc_keyRevisions h) in
       (None, with_l1 (wl_deleteByPattern (ws_prefix (wc_l2 h) @ pattern))
          (h\<lparr>wc_states := fold (\<lambda>p. bump (snd p)) hit (wc_states h), wc_inflight := fold (\<lambda>p m. om_del m (fst p)) hit (wc_inflight h)\<rparr>)))"

definition worker_close :: "CloudflareWorkerCache \<Rightarrow> CloudflareWorkerCache" where
  "worker_close h = (if wc_closed h then h else h\<lparr>wc_closed := True, wc_epoch := wc_epoch h + 1, wc_inflight := [], wc_keyRevisions := []\<rparr>)"

section \<open>Interleavings\<close>

text \<open>One segment of any operation, with any answers. A guard is one that an operation was given.\<close>

inductive worker_step :: "CloudflareWorkerCache \<Rightarrow> CloudflareWorkerCache \<Rightarrow> bool" where
  "worker_step h (snd (get_begin now key h))"
| "worker_step h (snd (get_end now g elapsed entry h))"
| "worker_step h (snd (load_begin key h))"
| "worker_step h (snd (load_result g p r h))"
| "worker_step h (snd (load_filled now g p v options elapsed r' h))"
| "worker_step h (snd (mutate_begin key h))"
| "worker_step h (snd (set_end now g v options elapsed r' h))"
| "worker_step h (snd (delete_end g r' r'' h))"
| "worker_step h (snd (pattern_begin pattern h))"
| "worker_step h (worker_close h)"

abbreviation worker_run :: "CloudflareWorkerCache \<Rightarrow> CloudflareWorkerCache \<Rightarrow> bool" where
  "worker_run \<equiv> worker_step\<^sup>*\<^sup>*"

text \<open>Revisions only grow, and a name is only ever given a fresh state.\<close>

definition grows :: "CloudflareWorkerCache \<Rightarrow> CloudflareWorkerCache \<Rightarrow> bool" where
  "grows h h' \<longleftrightarrow> length (wc_states h) \<le> length (wc_states h')
     \<and> (\<forall>i < length (wc_states h). wr_revision (wc_states h ! i) \<le> wr_revision (wc_states h' ! i))
     \<and> (\<forall>name i. om_get (wc_keyRevisions h') name = Some i \<longrightarrow> i < length (wc_states h) \<longrightarrow> om_get (wc_keyRevisions h) name = Some i)
     \<and> (\<forall>name i. om_get (wc_keyRevisions h') name = Some i \<longrightarrow> om_get (wc_keyRevisions h) name \<noteq> Some i \<longrightarrow> i < length (wc_states h'))"

definition registered_ok :: "CloudflareWorkerCache \<Rightarrow> bool" where
  "registered_ok h \<longleftrightarrow> (\<forall>name i. om_get (wc_keyRevisions h) name = Some i \<longrightarrow> i < length (wc_states h))"

lemma grows_same: "wc_states h' = wc_states h \<Longrightarrow> wc_keyRevisions h' = wc_keyRevisions h \<Longrightarrow> grows h h'"
  by (simp add: grows_def)

lemma grows_trans: "grows h h1 \<Longrightarrow> grows h1 h2 \<Longrightarrow> grows h h2"
  unfolding grows_def by (meson le_trans less_le_trans order_trans)

lemma grows_registered: "grows h h' \<Longrightarrow> registered_ok h \<Longrightarrow> registered_ok h'"
  unfolding grows_def registered_ok_def by (meson less_le_trans)

lemma frame [simp]:
  "wc_states (with_l1 f h) = wc_states h" "wc_keyRevisions (with_l1 f h) = wc_keyRevisions h" "wc_closed (with_l1 f h) = wc_closed h" "wc_epoch (with_l1 f h) = wc_epoch h"
  "wc_states (remember_local now key v n h) = wc_states h" "wc_keyRevisions (remember_local now key v n h) = wc_keyRevisions h"
  "wc_l1 (worker_releaseKey g h) = wc_l1 h"
  by (simp_all add: with_l1_def remember_local_def worker_releaseKey_def Let_def)

lemma nth_update: "xs[j := y] ! i = (if i = j \<and> j < length xs then y else xs ! i)"
  by (metis list_update_beyond not_le nth_list_update_eq nth_list_update_neq)

lemma grows_observe: "grows h (snd (worker_observeKey name m h))"
  by (auto simp: grows_def worker_observeKey_def Let_def om_get_set nth_append nth_update split: if_splits)

lemma grows_release: "grows h (worker_releaseKey g h)"
  by (auto simp: grows_def worker_releaseKey_def Let_def om_get_del nth_update split: if_splits)

lemma grows_release_after: "wc_states h1 = wc_states h \<Longrightarrow> wc_keyRevisions h1 = wc_keyRevisions h \<Longrightarrow> grows h (worker_releaseKey g h1)"
  by (rule grows_trans [OF grows_same grows_release])

lemma grows_settle: "wc_states h1 = wc_states h \<Longrightarrow> wc_keyRevisions h1 = wc_keyRevisions h \<Longrightarrow> grows h (load_settle g p h1)"
  unfolding load_settle_def by (rule grows_release_after) auto

lemma length_bump: "length (bump i xs) = length xs"
  by (simp add: bump_def)

lemma length_bumps: "length (fold (\<lambda>p. bump (snd p)) ps xs) = length xs"
  by (induction ps arbitrary: xs) (simp_all add: length_bump)

lemma bumps_mono: "i < length xs \<Longrightarrow> wr_revision (xs ! i) \<le> wr_revision (fold (\<lambda>p. bump (snd p)) ps xs ! i)"
proof (induction ps arbitrary: xs)
  case (Cons p ps)
  have "wr_revision (xs ! i) \<le> wr_revision (bump (snd p) xs ! i)" using Cons.prems by (simp add: bump_def nth_update)
  also have "\<dots> \<le> wr_revision (fold (\<lambda>p. bump (snd p)) ps (bump (snd p) xs) ! i)" using Cons.IH [of "bump (snd p) xs"] Cons.prems by (simp add: length_bump)
  finally show ?case by simp
qed simp

lemma bumps_strict: "i < length xs \<Longrightarrow> i \<in> snd ` set ps \<Longrightarrow> wr_revision (xs ! i) < wr_revision (fold (\<lambda>p. bump (snd p)) ps xs ! i)"
proof (induction ps arbitrary: xs)
  case (Cons p ps)
  have l: "i < length (bump (snd p) xs)" using Cons.prems(1) by (simp add: bump_def)
  show ?case
  proof (cases "snd p = i")
    case True
    then have "wr_revision (xs ! i) < wr_revision (bump (snd p) xs ! i)" using Cons.prems(1) by (simp add: bump_def)
    also have "\<dots> \<le> wr_revision (fold (\<lambda>p. bump (snd p)) ps (bump (snd p) xs) ! i)" by (rule bumps_mono [OF l])
    finally show ?thesis by simp
  next
    case False
    then have "wr_revision (xs ! i) = wr_revision (bump (snd p) xs ! i)" by (simp add: bump_def)
    then show ?thesis using Cons.IH [OF l] Cons.prems(2) False by auto
  qed
qed simp

lemma grows_pattern: "grows h (snd (pattern_begin pattern h))"
  using bumps_mono by (auto simp: grows_def pattern_begin_def Let_def length_bumps)

lemma grows_get: "grows h (snd (get_begin now key h))"
proof -
  let ?h1 = "snd (worker_observeKey key False h)"
  have "get_begin now key h = (Raised closed_error, h) \<or> grows ?h1 (snd (get_begin now key h))"
    by (auto simp: get_begin_def Let_def intro: grows_same grows_release_after split: prod.splits option.splits)
  then show ?thesis using grows_trans [OF grows_observe] by (metis grows_same snd_conv)
qed

lemma grows_mutate: "grows h (snd (mutate_begin key h))"
proof -
  have "mutate_begin key h = (Raised closed_error, h) \<or> grows (snd (worker_observeKey key True h)) (snd (mutate_begin key h))"
    by (auto simp: mutate_begin_def Let_def intro!: grows_same split: prod.splits)
  then show ?thesis using grows_trans [OF grows_observe] by (metis grows_same snd_conv)
qed

lemma grows_load: "grows h (snd (load_begin key h))"
proof -
  have "snd (load_begin key h) = h \<or> grows (snd (worker_observeKey key False h)) (snd (load_begin key h))"
    by (auto simp: load_begin_def Let_def intro!: grows_same split: prod.splits option.splits)
  then show ?thesis using grows_trans [OF grows_observe] by (metis grows_same)
qed

lemma step_grows: "worker_step h h' \<Longrightarrow> grows h h'"
proof (induction rule: worker_step.induct)
  case (2 now g elapsed entry h)
  then show ?case by (auto simp: get_end_def Let_def intro!: grows_release_after split: sum.splits option.splits)
next
  case (4 g p r h)
  then show ?case by (auto simp: load_result_def intro: grows_settle grows_same split: sum.splits)
next
  case (5 now g p v options elapsed r' h)
  then show ?case by (auto simp: load_filled_def Let_def intro!: grows_settle)
next
  case (7 now g v options elapsed r' h)
  then show ?case by (auto simp: set_end_def Let_def intro!: grows_release_after split: sum.splits)
next
  case (8 g r' r'' h)
  then show ?case by (simp add: delete_end_def grows_release)
next
  case (10 h)
  then show ?case by (auto simp: worker_close_def grows_def om_get_def)
qed (rule grows_get grows_load grows_mutate grows_pattern)+

lemma run_grows: "worker_run h h' \<Longrightarrow> grows h h'"
  by (induction rule: rtranclp_induct) (auto intro: grows_same grows_trans step_grows)

section \<open>Guards\<close>

definition guard_ok :: "WorkerMutationGuard \<Rightarrow> CloudflareWorkerCache \<Rightarrow> bool" where
  "guard_ok g h \<longleftrightarrow> wg_state g < length (wc_states h) \<and> wg_revision g \<le> wr_revision (wc_states h ! wg_state g)"

definition overtaken :: "WorkerMutationGuard \<Rightarrow> CloudflareWorkerCache \<Rightarrow> bool" where
  "overtaken g h \<longleftrightarrow> wg_state g < length (wc_states h)
     \<and> (wg_revision g < wr_revision (wc_states h ! wg_state g) \<or> om_get (wc_keyRevisions h) (wg_name g) \<noteq> Some (wg_state g))"

lemma guard_grows: "guard_ok g h \<Longrightarrow> grows h h' \<Longrightarrow> guard_ok g h'"
  unfolding guard_ok_def grows_def by (meson le_trans less_le_trans)

lemma overtaken_grows: "overtaken g h \<Longrightarrow> grows h h' \<Longrightarrow> overtaken g h'"
  unfolding overtaken_def grows_def by (meson less_le_trans)

lemma overtaken_stale: "overtaken g h \<Longrightarrow> \<not> worker_isCurrent g h"
  by (auto simp: overtaken_def worker_isCurrent_def)

lemma observe_guard:
  assumes "registered_ok h" "worker_observeKey name m h = (g, h1)"
  shows "guard_ok g h1" "wg_name g = name"
  using assms by (auto simp: worker_observeKey_def Let_def guard_ok_def registered_ok_def om_get_set nth_append split: if_splits)

lemma observe_overtakes:
  assumes ok: "registered_ok h" and g: "guard_ok g h" "wg_name g = name"
  shows "overtaken g (snd (worker_observeKey name True h))"
proof (cases "om_get (wc_keyRevisions h) name")
  case None
  then show ?thesis using g by (auto simp: worker_observeKey_def Let_def overtaken_def guard_ok_def om_get_set)
next
  case (Some i)
  then show ?thesis using g ok by (auto simp: worker_observeKey_def Let_def overtaken_def guard_ok_def registered_ok_def nth_update)
qed

lemma begun_guard:
  assumes ok: "registered_ok h" and g: "get_begin now key h = (Waiting g, h1) \<or> load_begin key h = (Leads g p, h1) \<or> mutate_begin key h = (Waiting g, h1)"
  shows "guard_ok g h1" "wg_name g = key"
proof -
  let ?from = "\<lambda>m. fst (worker_observeKey key m h) = g \<and> wc_states h1 = wc_states (snd (worker_observeKey key m h))"
  have "?from False" if "get_begin now key h = (Waiting g, h1)"
    using that by (auto simp: get_begin_def Let_def split: prod.splits option.splits if_splits)
  moreover have "?from False" if "load_begin key h = (Leads g p, h1)"
    using that by (auto simp: load_begin_def Let_def split: prod.splits option.splits if_splits)
  moreover have "?from True" if "mutate_begin key h = (Waiting g, h1)"
    using that by (auto simp: mutate_begin_def Let_def split: prod.splits if_splits)
  ultimately obtain m where m: "fst (worker_observeKey key m h) = g" "wc_states h1 = wc_states (snd (worker_observeKey key m h))" using g by blast
  have "guard_ok g (snd (worker_observeKey key m h))" "wg_name g = key" using observe_guard [OF ok, of key m] m(1) by (metis prod.collapse)+
  then show "guard_ok g h1" "wg_name g = key" using m(2) by (simp_all add: guard_ok_def)
qed

lemma pattern_overtakes:
  assumes "registered_ok h" "guard_ok g h" "pattern_begin pattern h = (None, h1)" "matchesPattern (wg_name g) pattern = Some True"
  shows "overtaken g h1"
proof (cases "om_get (wc_keyRevisions h) (wg_name g) = Some (wg_state g)")
  case True
  let ?hit = "filter (\<lambda>p. matchesPattern (fst p) pattern = Some True) (wc_keyRevisions h)"
  have "(wg_name g, wg_state g) \<in> set ?hit" using True assms(4) by (auto simp: om_get_def dest: map_of_SomeD)
  then have "wg_state g \<in> snd ` set ?hit" by force
  from bumps_strict [OF _ this, of "wc_states h"] show ?thesis using assms(2,3)
    by (auto simp: overtaken_def guard_ok_def pattern_begin_def Let_def length_bumps split: if_splits)
next
  case False
  then show ?thesis using assms(2,3) by (auto simp: overtaken_def guard_ok_def pattern_begin_def Let_def length_bumps split: if_splits)
qed

lemma mutate_overtakes:
  assumes "registered_ok h" "guard_ok g h" "mutate_begin (wg_name g) h = (Waiting g', h1)"
  shows "overtaken g h1"
  using observe_overtakes [OF assms(1,2) refl] assms(3) by (auto simp: mutate_begin_def Let_def overtaken_def split: prod.splits if_splits)

lemma close_overtakes: "guard_ok g h \<Longrightarrow> \<not> wc_closed h \<Longrightarrow> overtaken g (worker_close h)"
  by (simp add: overtaken_def guard_ok_def worker_close_def om_get_def)

lemma new_registered: "newCloudflareWorkerCache options l1 ttl publisher = Inr h \<Longrightarrow> registered_ok h"
  by (auto simp: newCloudflareWorkerCache_def registered_ok_def om_get_def Let_def split: sum.splits if_splits)

lemma clear_pattern:
  assumes "42 \<notin> set pre" "pre \<noteq> []" "length pre < 2 ^ 32 - 1"
  shows "matchesPattern (pre @ key) (pre @ [42]) = Some (clean key)"
proof -
  have "glob (pre @ [42]) (pre @ key) = glob [42] key" using assms(1) by (induction pre) auto
  moreover have "glob [42] key = clean key" using glob_star [of "[]" key] by auto
  moreover have "pre @ [42] \<noteq> [42]" using assms(2) by simp
  ultimately show ?thesis using matchesPattern_meaning [of "pre @ [42]" "pre @ key"] assms(3) by simp
qed

section \<open>Properties\<close>

text \<open>
  C12. An operation that was overtaken leaves the L1 alone: once a write or a deletion of the key, a deletion
  by a pattern that matches it, or a close has begun, no read, load or write of the key that began
  earlier puts its value into the L1, however the operations interleave and whatever KV and the
  loader answer; and a load that was overtaken before its loader settled does not write to KV.
\<close>

theorem worker_overtaken:
  assumes new: "newCloudflareWorkerCache options l1 l1Ttl publisher = Inr h0" and before: "worker_run h0 hb"
    and began: "get_begin now key hb = (Waiting g, ha) \<or> load_begin key hb = (Leads g p, ha) \<or> mutate_begin key hb = (Waiting g, ha)"
    and between: "worker_run ha h"
    and changed: "mutate_begin key h = (Waiting g', h1) \<or> pattern_begin pattern h = (None, h1) \<and> matchesPattern key pattern = Some True \<or> \<not> wc_closed h \<and> h1 = worker_close h"
    and after: "worker_run h1 h2"
  shows "wc_l1 (snd (get_end t g elapsed entry h2)) = wc_l1 h2 \<and> wc_l1 (snd (load_filled t g p v opts elapsed r h2)) = wc_l1 h2
    \<and> wc_l1 (snd (set_end t g v opts elapsed r h2)) = wc_l1 h2 \<and> fst (load_result g p r' h2) \<noteq> WritesKv v"
proof -
  have ok: "registered_ok hb" using grows_registered [OF run_grows [OF before] new_registered [OF new]] .
  have "worker_step hb ha" using began by (metis snd_conv worker_step.intros(1,3,6))
  then have ha: "registered_ok ha" using grows_registered [OF step_grows ok] by blast
  have h: "registered_ok h" "guard_ok g h" using grows_registered [OF run_grows [OF between] ha] guard_grows [OF begun_guard(1) [OF ok began] run_grows [OF between]] .
  have "overtaken g h1" using changed mutate_overtakes [OF h] pattern_overtakes [OF h] close_overtakes [OF h(2)] begun_guard(2) [OF ok began] by blast
  then have "\<not> worker_isCurrent g h2" using overtaken_stale overtaken_grows [OF _ run_grows [OF after]] by blast
  then show ?thesis
    by (auto simp: get_end_def load_filled_def set_end_def load_result_def load_settle_def Let_def split: sum.splits option.splits)
qed

text \<open>
  C38. What \<open>clear\<close> leaves in the L1: the entries of the cache whose key has a line terminator. \<open>clear\<close> deletes every
  key of the cache from KV, because a lone asterisk matches everything; but the L1 is given the prefix of
  the cache followed by the asterisk, and there the asterisk stops at a line terminator. Reads of such a
  key keep returning the old value until it expires.
\<close>

theorem clear_keeps_multiline:
  assumes "pattern_begin (js ''*'') h = (None, h')" and "wc_l1 h = Some m" and "ws_prefix (wc_l2 h) = pre" "42 \<notin> set pre" "pre \<noteq> []" "length pre < 2 ^ 32 - 1"
  shows "\<exists>m'. wc_l1 h' = Some m' \<and> om_get (wl_entries m') (localKey h' key) = (if clean key then None else om_get (wl_entries m) (localKey h key))
    \<and> kv_selects pre (js ''*'') (localKey h key)"
proof -
  have s: "js ''*'' = [42]" by (simp add: js_def)
  have l: "localKey h' key = pre @ key" "localKey h key = pre @ key" using assms(1,3) by (auto simp: localKey_def pattern_begin_def Let_def with_l1_def split: if_splits)
  have "wc_l1 h' = Some (wl_deleteByPattern (pre @ [42]) m)" using assms(1,2,3) unfolding s by (auto simp: pattern_begin_def Let_def with_l1_def split: if_splits)
  moreover have "map_of (filter (\<lambda>p. matchesPattern (fst p) (pre @ [42]) \<noteq> Some True) es) k = (if matchesPattern k (pre @ [42]) \<noteq> Some True then map_of es k else None)"
    for k and es :: "(jsstr \<times> jsval \<times> int) list" by (induction es) auto
  moreover have "matchesPattern v [42] = Some True" for v by (simp add: matchesPattern_def)
  ultimately show ?thesis using clear_pattern [OF assms(4-6), of key] l unfolding s by (simp add: wl_deleteByPattern_def om_get_def kv_selects_def)
qed

definition demo_worker_l1 :: worker_l1 where
  "demo_worker_l1 = \<lparr>wl_entries = [(js ''cache:a'' @ [10], (VNull, 100))], wl_maxEntries = 10\<rparr>"

definition demo_worker_cache :: CloudflareWorkerCache where
  "demo_worker_cache = \<lparr>wc_l2 = demo_worker, wc_l1 = Some demo_worker_l1, wc_inflight = [], wc_keyRevisions = [], wc_states = [], wc_promises = 0, wc_l1TtlMs = 10000,
     wc_closed = False, wc_epoch = 0, wc_publisher = False\<rparr>"

lemma demo_worker_new:
  "newCloudflareWorkerKVStore demo_worker_options = Inr demo_worker" "newCloudflareWorkerCache demo_worker_options (Some demo_worker_l1) None False = Inr demo_worker_cache"
  by (simp_all add: newCloudflareWorkerCache_def newCloudflareWorkerKVStore_def demo_worker_options_def demo_worker_def demo_worker_cache_def default_limits_resolved validateKVCompression_def
      max_scan_def js_def MAX_SAFE_INTEGER_def)

text \<open>A read waits for KV while the key is deleted; its answer is not kept.\<close>

theorem worker_overtaken_witness:
  "\<exists>g ha g' h1. get_begin 0 (js ''b'') demo_worker_cache = (Waiting g, ha) \<and> mutate_begin (js ''b'') ha = (Waiting g', h1)
     \<and> wc_l1 (snd (get_end 5 g 1 (Inr (Some (VNull, 500))) h1)) = wc_l1 h1"
proof -
  have c: "\<not> wc_closed demo_worker_cache" by (simp add: demo_worker_cache_def)
  have l: "om_get (wl_entries demo_worker_l1) (localKey demo_worker_cache (js ''b'')) = None" by code_simp
  obtain g ha where g: "get_begin 0 (js ''b'') demo_worker_cache = (Waiting g, ha)"
  proof -
    obtain g h1 where o: "worker_observeKey (js ''b'') False demo_worker_cache = (g, h1)" by fastforce
    then have "wc_l1 h1 = Some demo_worker_l1" "localKey h1 (js ''b'') = localKey demo_worker_cache (js ''b'')"
      by (auto simp: worker_observeKey_def Let_def demo_worker_cache_def localKey_def)
    then show thesis using that c l o by (simp add: get_begin_def wl_get_def)
  qed
  have "wc_closed ha = wc_closed demo_worker_cache" using g by (auto simp: get_begin_def Let_def worker_observeKey_def split: prod.splits option.splits if_splits)
  then obtain g' h1 where h1: "mutate_begin (js ''b'') ha = (Waiting g', h1)" using c by (cases "worker_observeKey (js ''b'') True ha") (simp add: mutate_begin_def)
  have "wc_l1 (snd (get_end 5 g 1 (Inr (Some (VNull, 500))) h1)) = wc_l1 h1"
    using worker_overtaken [OF demo_worker_new(2) rtranclp.rtrancl_refl disjI1 [OF g] rtranclp.rtrancl_refl disjI1 [OF h1] rtranclp.rtrancl_refl] by blast
  then show ?thesis using g h1 by blast
qed

theorem clear_keeps_multiline_witness:
  "\<exists>h' m'. pattern_begin (js ''*'') demo_worker_cache = (None, h') \<and> wc_l1 h' = Some m' \<and> om_get (wl_entries m') (js ''cache:a'' @ [10]) = Some (VNull, 100)"
proof -
  obtain h' where h': "pattern_begin (js ''*'') demo_worker_cache = (None, h')" by (simp add: pattern_begin_def demo_worker_cache_def Let_def)
  have m: "wc_l1 demo_worker_cache = Some demo_worker_l1" "ws_prefix (wc_l2 demo_worker_cache) = js ''cache:''" by (simp_all add: demo_worker_cache_def demo_worker_def)
  have p: "42 \<notin> set (js ''cache:'')" "js ''cache:'' \<noteq> []" "length (js ''cache:'') < 2 ^ 32 - 1" by (simp_all add: js_def)
  have k: "localKey demo_worker_cache (js ''a'' @ [10]) = js ''cache:a'' @ [10]" "\<not> clean (js ''a'' @ [10])" by code_simp+
  have h: "localKey h' (js ''a'' @ [10]) = localKey demo_worker_cache (js ''a'' @ [10])" using h'
    by (auto simp: localKey_def pattern_begin_def Let_def with_l1_def split: if_splits)
  have "om_get (wl_entries demo_worker_l1) (js ''cache:a'' @ [10]) = Some (VNull, 100)" by (simp add: demo_worker_l1_def om_get_def)
  then show ?thesis using clear_keeps_multiline [OF h' m p, of "js ''a'' @ [10]"] k h h' by auto
qed

end
