(* ===== verification/Invalidation_Queue.thy ===== *)
theory Invalidation_Queue
  imports JS_Value
begin

text \<open>
  The invalidations an application sends through a Cloudflare Queue (\<open>cloudflare/invalidationQueue.ts\<close>): the messages of
  the publisher and the parser of the consumer. The queue hands the consumer the object it was given; \<open>id\<close>
  (\<open>crypto.randomUUID()\<close>) and the time are arguments. The REST sender is a single request and is not modelled.
\<close>

datatype target = TKey jsstr | TPattern jsstr

definition target_text :: "target \<Rightarrow> jsstr" where
  "target_text t = (case t of TKey k \<Rightarrow> k | TPattern p \<Rightarrow> p)"

record CloudflareInvalidationMessage =
  im_id :: jsstr
  im_scope :: jsstr
  im_target :: target
  im_timestamp :: int

definition validTarget :: "jsval \<Rightarrow> bool" where
  "validTarget v = (case v of VStr s \<Rightarrow> 0 < length s \<and> byteLength s \<le> 512 | _ \<Rightarrow> False)"

definition validateTarget :: "jsstr \<Rightarrow> js_error option" where
  "validateTarget s = (if validTarget (VStr s) then None else Some (RangeError ''Invalidation key or pattern must contain 1 to 512 UTF-8 bytes''))"

definition newPublisher :: "jsstr \<Rightarrow> js_error + jsstr" where
  "newPublisher scope = (if scope = [] \<or> 128 < length scope then Inl (RangeError ''Invalidation scope must contain 1 to 128 characters'') else Inr scope)"

text \<open>\<open>publishKey\<close> and \<open>publishPattern\<close>: the body that is sent.\<close>

definition publish_body :: "jsstr \<Rightarrow> jsstr \<Rightarrow> int \<Rightarrow> target \<Rightarrow> js_error + jsval" where
  "publish_body scope i now t = (case validateTarget (target_text t) of Some e \<Rightarrow> Inl e
     | None \<Rightarrow> Inr (VObject [(js ''version'', VNum (jint 1)), (js ''id'', VStr i), (js ''scope'', VStr scope),
         (js ''type'', VStr (case t of TKey _ \<Rightarrow> js ''key'' | TPattern _ \<Rightarrow> js ''pattern'')),
         (case t of TKey k \<Rightarrow> (js ''key'', VStr k) | TPattern p \<Rightarrow> (js ''pattern'', VStr p)), (js ''timestamp'', VNum (jint now))]))"

text \<open>The message an object stands for; nothing when it is malformed.\<close>

definition parseCloudflareInvalidationMessage :: "jsval \<Rightarrow> CloudflareInvalidationMessage option" where
  "parseCloudflareInvalidationMessage v = (case v of VObject fs \<Rightarrow>
     (case (prop_of fs (js ''version''), prop_of fs (js ''id''), prop_of fs (js ''scope''), prop_of fs (js ''timestamp''), prop_of fs (js ''type'')) of
        (VNum n, VStr i, VStr s, VNum t, VStr ty) \<Rightarrow>
          if n \<noteq> jint 1 \<or> i = [] \<or> s = [] \<or> 128 < length s \<or> \<not> isSafeInteger t then None
          else (let message = (\<lambda>g. Some \<lparr>im_id = i, im_scope = s, im_target = g, im_timestamp = num_int t\<rparr>);
                    key = prop_of fs (js ''key''); pattern = prop_of fs (js ''pattern'') in
            if ty = js ''key'' \<and> validTarget key then (case key of VStr k \<Rightarrow> message (TKey k) | _ \<Rightarrow> None)
            else if ty = js ''pattern'' \<and> validTarget pattern then (case pattern of VStr p \<Rightarrow> message (TPattern p) | _ \<Rightarrow> None)
            else None)
      | _ \<Rightarrow> None)
   | _ \<Rightarrow> None)"

lemma parsed_bounds:
  assumes "parseCloudflareInvalidationMessage v = Some m"
  shows "im_scope m \<noteq> [] \<and> length (im_scope m) \<le> 128 \<and> im_id m \<noteq> [] \<and> target_text (im_target m) \<noteq> [] \<and> byteLength (target_text (im_target m)) \<le> 512"
  using assms unfolding parseCloudflareInvalidationMessage_def
  by (auto simp: Let_def validTarget_def target_text_def split: jsval.splits prod.splits if_splits)

text \<open>
  A consumer reads what a publisher sent and never more: the parser returns the message of every key or
  pattern the publisher accepts, with its scope, id and time; and every message it returns, from whatever
  object, has a scope, an id and a target within their bounds.
\<close>

theorem invalidation_roundtrip:
  assumes "newPublisher scope = Inr scope'" and "publish_body scope' i now t = Inr body" and "i \<noteq> []" and "\<bar>now\<bar> \<le> MAX_SAFE_INTEGER"
  shows "parseCloudflareInvalidationMessage body = Some \<lparr>im_id = i, im_scope = scope, im_target = t, im_timestamp = now\<rparr>
    \<and> (\<forall>v m. parseCloudflareInvalidationMessage v = Some m \<longrightarrow> im_scope m \<noteq> [] \<and> length (im_scope m) \<le> 128 \<and> im_id m \<noteq> []
          \<and> target_text (im_target m) \<noteq> [] \<and> byteLength (target_text (im_target m)) \<le> 512)"
proof -
  have s: "scope' = scope" "scope \<noteq> []" "length scope \<le> 128" using assms(1) by (auto simp: newPublisher_def split: if_splits)
  have v: "validTarget (VStr (target_text t))" using assms(2) by (auto simp: publish_body_def validateTarget_def split: if_splits)
  have "parseCloudflareInvalidationMessage body = Some \<lparr>im_id = i, im_scope = scope, im_target = t, im_timestamp = now\<rparr>"
  proof (cases t)
    case (TKey k)
    then show ?thesis using assms s v by (auto simp: publish_body_def validateTarget_def parseCloudflareInvalidationMessage_def prop_of_def om_get_def target_text_def js_def Let_def)
  next
    case (TPattern p)
    then show ?thesis using assms s v by (auto simp: publish_body_def validateTarget_def parseCloudflareInvalidationMessage_def prop_of_def om_get_def target_text_def js_def Let_def)
  qed
  then show ?thesis using parsed_bounds by blast
qed

theorem invalidation_roundtrip_witness:
  "\<exists>body. publish_body (js ''app'') (js ''1'') 5 (TPattern (js ''user:*'')) = Inr body
     \<and> parseCloudflareInvalidationMessage body = Some \<lparr>im_id = js ''1'', im_scope = js ''app'', im_target = TPattern (js ''user:*''), im_timestamp = 5\<rparr>"
proof -
  have n: "newPublisher (js ''app'') = Inr (js ''app'')" by (simp add: newPublisher_def js_def)
  have "validTarget (VStr (js ''user:*''))" by code_simp
  then obtain body where b: "publish_body (js ''app'') (js ''1'') 5 (TPattern (js ''user:*'')) = Inr body" by (simp add: publish_body_def validateTarget_def target_text_def)
  have "js ''1'' \<noteq> []" "\<bar>5\<bar> \<le> MAX_SAFE_INTEGER" by (simp_all add: js_def MAX_SAFE_INTEGER_def)
  with invalidation_roundtrip [OF n b] b show ?thesis by blast
qed

end
