(* ===== verification/Event_Encoding.thy ===== *)
theory Event_Encoding
  imports JS_Value
begin

text \<open>
  The bounded encoding of dashboard events (\<open>observability/eventEncoding.ts\<close>): a snapshot that counts the bytes of
  the JSON text before the text is built. The theory shows that the count is exact. Values are plain data;
  objects with getters, prototypes or cycles are refused by the code and are not values here. How a number
  is written is a parameter.
\<close>

section \<open>JSON texts\<close>

text \<open>\<open>JSON.stringify\<close> on plain data: an undefined field is left out, an undefined element is \<open>null\<close>.\<close>

fun json_text :: "(jsnum \<Rightarrow> jsstr) \<Rightarrow> jsval \<Rightarrow> jsstr" where
  "json_text num (VStr s) = json_string s"
| "json_text num (VNum n) = num n"
| "json_text num (VBool b) = (if b then js ''true'' else js ''false'')"
| "json_text num VNull = js ''null''"
| "json_text num VUndefined = js ''null''"
| "json_text num (VArray xs) = 91 # js_join [44] (map (json_text num) xs) @ [93]"
| "json_text num (VObject fs) = 123 # js_join [44] (map (\<lambda>(k, v). json_string k @ 58 # json_text num v) (filter (\<lambda>(k, v). v \<noteq> VUndefined) fs)) @ [125]"

section \<open>The snapshot\<close>

definition MAX_METADATA_DEPTH :: nat where
  "MAX_METADATA_DEPTH = 8"

definition MAX_METADATA_VALUES :: nat where
  "MAX_METADATA_VALUES = 4096"

text \<open>The bytes and the values counted so far; nothing once the snapshot is rejected.\<close>

definition reserve_bytes :: "nat \<Rightarrow> nat \<Rightarrow> nat \<times> nat \<Rightarrow> (nat \<times> nat) option" where
  "reserve_bytes mx n a = (if mx < fst a + n then None else Some (fst a + n, snd a))"

definition count_value :: "nat \<times> nat \<Rightarrow> (nat \<times> nat) option" where
  "count_value a = (if MAX_METADATA_VALUES < Suc (snd a) then None else Some (fst a, Suc (snd a)))"

definition code_size :: "unit16 \<Rightarrow> nat" where
  "code_size c = (if c = 34 \<or> c = 92 then 2 else if c < 32 then (if c \<in> {8, 9, 10, 12, 13} then 2 else 6) else if c < 128 then 1 else if c < 2048 then 2
     else if low_surrogate c then 6 else 3)"

fun reserve_units :: "nat \<Rightarrow> jsstr \<Rightarrow> nat \<times> nat \<Rightarrow> (nat \<times> nat) option" where
  "reserve_units mx [] a = Some a"
| "reserve_units mx (c # cs) a =
     (if high_surrogate c
      then (case cs of [] \<Rightarrow> reserve_bytes mx 6 a
            | d # ds \<Rightarrow> if low_surrogate d then Option.bind (reserve_bytes mx 4 a) (reserve_units mx ds) else Option.bind (reserve_bytes mx 6 a) (reserve_units mx cs))
      else Option.bind (reserve_bytes mx (code_size c) a) (reserve_units mx cs))"

definition reserve_string :: "nat \<Rightarrow> jsstr \<Rightarrow> nat \<times> nat \<Rightarrow> (nat \<times> nat) option" where
  "reserve_string mx s a = Option.bind (reserve_bytes mx 2 a) (reserve_units mx s)"

definition leaf :: "'v \<Rightarrow> 'a option \<Rightarrow> ('v \<times> 'a) option" where
  "leaf v a = map_option (Pair v) a"

fun snapshot :: "(jsnum \<Rightarrow> jsstr) \<Rightarrow> nat \<Rightarrow> nat \<Rightarrow> jsval \<Rightarrow> nat \<times> nat \<Rightarrow> (jsval \<times> nat \<times> nat) option"
  and snapshot_items :: "(jsnum \<Rightarrow> jsstr) \<Rightarrow> nat \<Rightarrow> nat \<Rightarrow> bool \<Rightarrow> jsval list \<Rightarrow> nat \<times> nat \<Rightarrow> (jsval list \<times> nat \<times> nat) option"
  and snapshot_fields :: "(jsnum \<Rightarrow> jsstr) \<Rightarrow> nat \<Rightarrow> nat \<Rightarrow> bool \<Rightarrow> (jsstr \<times> jsval) list \<Rightarrow> nat \<times> nat \<Rightarrow> ((jsstr \<times> jsval) list \<times> nat \<times> nat) option" where
  "snapshot num mx depth v a =
     (if MAX_METADATA_DEPTH < depth then None else Option.bind (count_value a) (\<lambda>a. case v of
        VNull \<Rightarrow> leaf VNull (reserve_bytes mx 4 a)
      | VUndefined \<Rightarrow> leaf VNull (reserve_bytes mx 4 a)
      | VStr s \<Rightarrow> leaf v (reserve_string mx s a)
      | VBool b \<Rightarrow> leaf v (reserve_bytes mx (if b then 4 else 5) a)
      | VNum n \<Rightarrow> leaf v (reserve_bytes mx (length (num n)) a)
      | VArray xs \<Rightarrow> if MAX_METADATA_VALUES < length xs \<or> mx < length xs then None
          else Option.bind (reserve_bytes mx 2 a) (\<lambda>a. map_option (\<lambda>(ys, a). (VArray ys, a)) (snapshot_items num mx depth True xs a))
      | VObject fs \<Rightarrow> Option.bind (reserve_bytes mx 2 a) (\<lambda>a. map_option (\<lambda>(gs, a). (VObject gs, a)) (snapshot_fields num mx depth True fs a))))"
| "snapshot_items num mx depth first [] a = Some ([], a)"
| "snapshot_items num mx depth first (x # xs) a =
     Option.bind (reserve_bytes mx (if first then 0 else 1) a) (\<lambda>a. Option.bind (snapshot num mx (Suc depth) x a) (\<lambda>(y, a).
     map_option (\<lambda>(ys, a). (y # ys, a)) (snapshot_items num mx depth False xs a)))"
| "snapshot_fields num mx depth first [] a = Some ([], a)"
| "snapshot_fields num mx depth first ((k, v) # fs) a =
     Option.bind (count_value a) (\<lambda>a. if v = VUndefined then snapshot_fields num mx depth first fs a
       else Option.bind (reserve_bytes mx (if first then 0 else 1) a) (\<lambda>a. Option.bind (reserve_string mx k a) (\<lambda>a.
         Option.bind (reserve_bytes mx 1 a) (\<lambda>a. Option.bind (snapshot num mx (Suc depth) v a) (\<lambda>(w, a).
         map_option (\<lambda>(gs, a). ((k, w) # gs, a)) (snapshot_fields num mx depth False fs a))))))"

definition encodeBoundedEvent :: "(jsnum \<Rightarrow> jsstr) \<Rightarrow> jsval \<Rightarrow> nat \<Rightarrow> jsstr option" where
  "encodeBoundedEvent num v maxBytes = (case snapshot num maxBytes 0 v (0, 0) of None \<Rightarrow> None
     | Some (copy, _) \<Rightarrow> let json = json_text num copy in if byteLength json \<le> maxBytes then Some json else None)"

definition eventLimit :: "jsnum \<Rightarrow> js_error + int" where
  "eventLimit n = (if isSafeInteger n \<and> \<not> jless n (jint 1) then Inr (num_int n) else Inl (RangeError ''must be a positive safe integer''))"

section \<open>Bytes of a text\<close>

lemma surrogate_large: "low_surrogate c \<or> high_surrogate c \<Longrightarrow> \<not> c < 32 \<and> \<not> c < 128 \<and> \<not> c < 2048 \<and> c \<notin> {34, 92, 8, 9, 10, 12, 13}"
  by (auto simp: low_surrogate_def high_surrogate_def word_less_nat_alt word_le_nat_alt)

lemma byteLength_split: "c < 0x80 \<Longrightarrow> byteLength (s @ c # t) = byteLength s + 1 + byteLength t"
proof -
  assume c: "c < 0x80"
  have nl: "\<not> low_surrogate c" using c surrogate_large [of c] by auto
  have "utf8 (s @ c # t) = utf8 s @ utf8 (c # t)"
  proof (induction s rule: utf8.induct)
    case (2 d ds)
    then show ?case using nl by (cases ds) auto
  qed simp
  then show ?thesis using c by (simp add: byteLength_def)
qed

lemma byteLength_nil [simp]: "byteLength [] = 0"
  by (simp add: byteLength_def)

lemma byteLength_first: "c < 0x80 \<Longrightarrow> byteLength (c # t) = 1 + byteLength t"
  using byteLength_split [of c "[]" t] by simp

lemma byteLength_last: "c < 0x80 \<Longrightarrow> byteLength (s @ [c]) = byteLength s + 1"
  using byteLength_split [of c s "[]"] by simp

lemma byteLength_ascii_append: "ascii s \<Longrightarrow> byteLength (s @ t) = length s + byteLength t"
  by (induction s) (auto simp: byteLength_first)

lemma ascii_json_u: "ascii (json_u c)" "length (json_u c) = 6"
proof -
  have h: "hex_digit n < 0x80" if "n < 16" for n
  proof -
    have "unat (of_nat (if n < 10 then 48 + n else 87 + n) :: unit16) < 128" using that by (simp add: unat_of_nat)
    then show ?thesis unfolding hex_digit_def by (simp add: word_less_nat_alt)
  qed
  have "unat c < 65536" using unsigned_less [of c] by simp
  then have "unat c div 4096 < 16" by simp
  then show "ascii (json_u c)" using h by (simp add: json_u_def Let_def)
  show "length (json_u c) = 6" by (simp add: json_u_def Let_def)
qed

lemma byteLength_unit:
  assumes "\<not> high_surrogate c" "\<not> low_surrogate c"
  shows "byteLength (json_unit c @ t) = code_size c + byteLength t"
proof (cases "c < 0x80")
  case True
  have a: "ascii (json_unit c)" using True ascii_json_u(1) [of c] by (auto simp: json_unit_def)
  moreover have "length (json_unit c) = code_size c" using True ascii_json_u(2) [of c] assms(2) by (auto simp: json_unit_def code_size_def)
  ultimately show ?thesis by (simp add: byteLength_ascii_append)
next
  case False
  have "\<not> c < 32" using False by (auto simp: not_less intro: order_trans [rotated])
  then have "json_unit c = [c]" "code_size c = (if c < 2048 then 2 else 3)" using False assms by (auto simp: json_unit_def code_size_def)
  then show ?thesis using False assms by (simp add: byteLength_def utf8_3_def)
qed

text \<open>What the units of a string cost, and that it is what they take.\<close>

fun units_cost :: "jsstr \<Rightarrow> nat" where
  "units_cost [] = 0"
| "units_cost (c # cs) = (if high_surrogate c then (case cs of [] \<Rightarrow> 6 | d # ds \<Rightarrow> if low_surrogate d then 4 + units_cost ds else 6 + units_cost cs)
     else code_size c + units_cost cs)"

lemma byteLength_units: "byteLength (json_units s) = units_cost s"
proof (induction s rule: units_cost.induct)
  case (2 c cs)
  have u: "byteLength (json_u c @ t) = 6 + byteLength t" for t using ascii_json_u [of c] by (simp add: byteLength_ascii_append)
  have nb: "\<not> c < 0x80" "\<not> c < 0x800" if "high_surrogate c" using that surrogate_large [of c] by auto
  have lo: "code_size c = 6" if "low_surrogate c"
    using that surrogate_large [of c] by (auto simp: code_size_def)
  show ?case
  proof (cases "high_surrogate c")
    case True
    show ?thesis
    proof (cases cs)
      case Nil
      then show ?thesis using True u [of "[]"] by simp
    next
      case (Cons d ds)
      then show ?thesis using True 2 u [of "json_units cs"] nb by (auto simp: byteLength_def utf8_4_def)
    qed
  next
    case False
    then show ?thesis using 2(3) [OF False] u [of "json_units cs"] lo byteLength_unit [of c "json_units cs"] by auto
  qed
qed simp

lemma byteLength_string: "byteLength (json_string s) = 2 + units_cost s"
  by (simp add: json_string_def byteLength_first byteLength_last byteLength_units)

lemma byteLength_join: "byteLength (js_join [44] xs) = (\<Sum>x\<leftarrow>xs. byteLength x) + (length xs - 1)"
proof (induction xs rule: induct_list012)
  case (3 x y zs)
  then show ?case by (simp add: byteLength_split)
qed simp_all

section \<open>The snapshot counts exactly\<close>

fun values_of :: "jsval \<Rightarrow> nat" where
  "values_of (VArray xs) = Suc (\<Sum>x\<leftarrow>xs. values_of x)"
| "values_of (VObject fs) = Suc (\<Sum>(k, v)\<leftarrow>fs. if v = VUndefined then 1 else Suc (values_of v))"
| "values_of v = 1"

fun shallow :: "nat \<Rightarrow> jsval \<Rightarrow> bool" where
  "shallow d (VArray xs) = (d \<le> MAX_METADATA_DEPTH \<and> list_all (shallow (Suc d)) xs)"
| "shallow d (VObject fs) = (d \<le> MAX_METADATA_DEPTH \<and> list_all (\<lambda>(k, v). v \<noteq> VUndefined \<longrightarrow> shallow (Suc d) v) fs)"
| "shallow d v = (d \<le> MAX_METADATA_DEPTH)"

fun copy_of :: "jsval \<Rightarrow> jsval" where
  "copy_of (VArray xs) = VArray (map copy_of xs)"
| "copy_of (VObject fs) = VObject (map (\<lambda>(k, v). (k, copy_of v)) (filter (\<lambda>(k, v). v \<noteq> VUndefined) fs))"
| "copy_of VUndefined = VNull"
| "copy_of v = v"

lemma copy_defined: "copy_of v \<noteq> VUndefined"
  by (cases v) simp_all

lemma json_copy: "json_text num (copy_of v) = json_text num v"
proof (induction v rule: jsval.induct)
  case (VArray xs)
  then have "map (json_text num) (map copy_of xs) = map (json_text num) xs" by simp
  then show ?case by (simp only: copy_of.simps json_text.simps)
next
  case (VObject fs)
  let ?ds = "filter (\<lambda>(k, v). v \<noteq> VUndefined) fs"
  have f: "filter (\<lambda>(k, v). v \<noteq> VUndefined) (map (\<lambda>(k, v). (k, copy_of v)) xs) = map (\<lambda>(k, v). (k, copy_of v)) xs" for xs :: "(jsstr \<times> jsval) list"
    using copy_defined by (induction xs) auto
  have "map (\<lambda>(k, v). json_string k @ 58 # json_text num v) (map (\<lambda>(k, v). (k, copy_of v)) ?ds) = map (\<lambda>(k, v). json_string k @ 58 # json_text num v) ?ds"
    using VObject by (auto simp: snds.simps)
  then show ?case by (simp only: copy_of.simps json_text.simps f)
qed simp_all

definition exact :: "(jsnum \<Rightarrow> jsstr) \<Rightarrow> nat \<Rightarrow> jsval \<Rightarrow> bool" where
  "exact num mx v \<longleftrightarrow> (\<forall>d b n. b \<le> mx \<longrightarrow> n \<le> MAX_METADATA_VALUES \<longrightarrow> snapshot num mx d v (b, n) =
     (if shallow d v \<and> n + values_of v \<le> MAX_METADATA_VALUES \<and> b + byteLength (json_text num v) \<le> mx
      then Some (copy_of v, b + byteLength (json_text num v), n + values_of v) else None))"

lemma reserve_units_exact: "b \<le> mx \<Longrightarrow> reserve_units mx s (b, n) = (if b + units_cost s \<le> mx then Some (b + units_cost s, n) else None)"
proof (induction s arbitrary: b rule: units_cost.induct)
  case (2 c cs)
  show ?case
  proof (cases "high_surrogate c")
    case True
    show ?thesis
    proof (cases cs)
      case (Cons d ds)
      then show ?thesis using True 2(1,2) [OF True Cons, of "b + 4"] 2(2) [OF True Cons, of "b + 6"] 2(4) by (auto simp: reserve_bytes_def)
    qed (use True in \<open>simp add: reserve_bytes_def\<close>)
  next
    case False
    then show ?thesis using 2(3) [OF False, of "b + code_size c"] by (auto simp: reserve_bytes_def)
  qed
qed simp

lemma reserve_string_exact:
  "reserve_string mx s (b, n) = (if b + byteLength (json_string s) \<le> mx then Some (b + byteLength (json_string s), n) else None)"
  using reserve_units_exact [of "b + 2" mx s n] by (auto simp: reserve_string_def reserve_bytes_def byteLength_string)

lemma items_exact:
  assumes "\<And>x. x \<in> set xs \<Longrightarrow> exact num mx x" and "b \<le> mx" and "n \<le> MAX_METADATA_VALUES"
  shows "snapshot_items num mx d first xs (b, n) =
    (let t = (\<Sum>x\<leftarrow>xs. byteLength (json_text num x)) + (if first then length xs - 1 else length xs); m = (\<Sum>x\<leftarrow>xs. values_of x) in
     if list_all (shallow (Suc d)) xs \<and> n + m \<le> MAX_METADATA_VALUES \<and> b + t \<le> mx then Some (map copy_of xs, b + t, n + m) else None)"
  using assms
proof (induction xs arbitrary: first b n)
  case (Cons x xs)
  have x: "snapshot num mx (Suc d) x (b', n) = (if shallow (Suc d) x \<and> n + values_of x \<le> MAX_METADATA_VALUES \<and> b' + byteLength (json_text num x) \<le> mx
      then Some (copy_of x, b' + byteLength (json_text num x), n + values_of x) else None)" if "b' \<le> mx" for b'
    using Cons.prems(1) [of x] Cons.prems(3) that by (simp add: exact_def del: snapshot.simps)
  note r = Cons.IH [OF Cons.prems(1), simplified Let_def, of _ _ False]
  show ?case
  proof (cases first)
    case True
    then show ?thesis using x Cons.prems r by (auto simp: Let_def reserve_bytes_def simp del: snapshot.simps)
  next
    case False
    then show ?thesis using x Cons.prems r by (auto simp: Let_def reserve_bytes_def simp del: snapshot.simps)
  qed
qed simp

lemma fields_exact:
  assumes "\<forall>f \<in> set fs. exact num mx (snd f)" and "b \<le> mx" and "n \<le> MAX_METADATA_VALUES"
  shows "snapshot_fields num mx d first fs (b, n) =
    (let ds = filter (\<lambda>(k, v). v \<noteq> VUndefined) fs;
         t = (\<Sum>(k, v)\<leftarrow>ds. byteLength (json_string k) + 1 + byteLength (json_text num v)) + (if first then length ds - 1 else length ds);
         m = (\<Sum>(k, v)\<leftarrow>fs. if v = VUndefined then 1 else Suc (values_of v)) in
     if list_all (\<lambda>(k, v). v \<noteq> VUndefined \<longrightarrow> shallow (Suc d) v) fs \<and> n + m \<le> MAX_METADATA_VALUES \<and> b + t \<le> mx
     then Some (map (\<lambda>(k, v). (k, copy_of v)) ds, b + t, n + m) else None)"
  using assms
proof (induction fs arbitrary: first b n)
  case (Cons f fs)
  obtain k x where f: "f = (k, x)" by (cases f)
  have x: "snapshot num mx (Suc d) x (b', n') = (if shallow (Suc d) x \<and> n' + values_of x \<le> MAX_METADATA_VALUES \<and> b' + byteLength (json_text num x) \<le> mx
      then Some (copy_of x, b' + byteLength (json_text num x), n' + values_of x) else None)" if "b' \<le> mx" "n' \<le> MAX_METADATA_VALUES" for b' n'
    using Cons.prems(1) f that by (simp add: exact_def del: snapshot.simps)
  have later: "\<forall>f \<in> set fs. exact num mx (snd f)" using Cons.prems(1) by simp
  note r = Cons.IH [OF later, simplified Let_def]
  show ?case
  proof (cases "x = VUndefined")
    case True
    then show ?thesis using r [of b "Suc n" first] Cons.prems f by (auto simp: Let_def count_value_def)
  next
    case False
    then show ?thesis using x Cons.prems r [of _ _ False] f
      by (cases first) (auto simp: Let_def count_value_def reserve_bytes_def reserve_string_exact simp del: snapshot.simps)
  qed
qed simp

lemma sum_list_lower: "(\<And>x. x \<in> set xs \<Longrightarrow> 1 \<le> f x) \<Longrightarrow> length xs \<le> (\<Sum>x\<leftarrow>xs. f x :: nat)"
  by (induction xs) force+

lemma values_positive: "1 \<le> values_of v"
  by (cases v) simp_all

text \<open>What \<open>JSON.stringify\<close> writes for a number: some ASCII characters.\<close>

definition writes_numbers :: "(jsnum \<Rightarrow> jsstr) \<Rightarrow> bool" where
  "writes_numbers num \<longleftrightarrow> (\<forall>n. ascii (num n) \<and> num n \<noteq> [])"

lemma text_positive: "writes_numbers num \<Longrightarrow> 1 \<le> byteLength (json_text num v)"
  by (cases v) (auto simp: writes_numbers_def byteLength_ascii byteLength_string byteLength_first js_def Suc_le_eq)

lemma all_exact:
  assumes num: "writes_numbers num"
  shows "exact num mx v"
proof (induction v rule: jsval.induct)
  case (VArray xs)
  have t: "byteLength (json_text num (VArray xs)) = 2 + ((\<Sum>x\<leftarrow>xs. byteLength (json_text num x)) + (length xs - 1))"
    by (simp add: byteLength_first byteLength_last byteLength_join comp_def)
  have l: "length xs \<le> (\<Sum>x\<leftarrow>xs. byteLength (json_text num x))" "length xs \<le> (\<Sum>x\<leftarrow>xs. values_of x)"
    using sum_list_lower text_positive [OF num] values_positive by metis+
  show ?case unfolding exact_def
  proof (intro allI impI)
    fix d b n
    assume "b \<le> mx" "n \<le> MAX_METADATA_VALUES"
    then show "snapshot num mx d (VArray xs) (b, n) = (if shallow d (VArray xs) \<and> n + values_of (VArray xs) \<le> MAX_METADATA_VALUES \<and> b + byteLength (json_text num (VArray xs)) \<le> mx
        then Some (copy_of (VArray xs), b + byteLength (json_text num (VArray xs)), n + values_of (VArray xs)) else None)"
      unfolding t using items_exact [of xs num mx "b + 2" "Suc n" d True] VArray l by (auto simp: Let_def count_value_def reserve_bytes_def)
  qed
next
  case (VObject fs)
  let ?ds = "filter (\<lambda>(k, v). v \<noteq> VUndefined) fs"
  have j: "byteLength (json_string k @ 58 # json_text num v) = byteLength (json_string k) + 1 + byteLength (json_text num v)" for k v by (simp add: byteLength_split)
  have m: "map byteLength (map (\<lambda>(k, v). json_string k @ 58 # json_text num v) ?ds) = map (\<lambda>(k, v). byteLength (json_string k) + 1 + byteLength (json_text num v)) ?ds"
    using j by auto
  have t: "byteLength (json_text num (VObject fs)) = 2 + ((\<Sum>(k, v)\<leftarrow>?ds. byteLength (json_string k) + 1 + byteLength (json_text num v)) + (length ?ds - 1))"
    using arg_cong [OF m, of sum_list] by (simp add: byteLength_first byteLength_last byteLength_join)
  have e: "\<forall>f \<in> set fs. exact num mx (snd f)" using VObject by (auto simp: snds.simps)
  show ?case unfolding exact_def
  proof (intro allI impI)
    fix d b n
    assume "b \<le> mx" "n \<le> MAX_METADATA_VALUES"
    then show "snapshot num mx d (VObject fs) (b, n) = (if shallow d (VObject fs) \<and> n + values_of (VObject fs) \<le> MAX_METADATA_VALUES \<and> b + byteLength (json_text num (VObject fs)) \<le> mx
        then Some (copy_of (VObject fs), b + byteLength (json_text num (VObject fs)), n + values_of (VObject fs)) else None)"
      unfolding t using fields_exact [of fs num mx "b + 2" "Suc n" d True] e by (auto simp: Let_def count_value_def reserve_bytes_def)
  qed
qed (use num in \<open>auto simp: exact_def count_value_def reserve_bytes_def reserve_string_exact leaf_def writes_numbers_def byteLength_ascii js_def\<close>)

section \<open>Properties\<close>

text \<open>
  C24. The bounded encoding is exact: \<open>encodeBoundedEvent\<close> returns the JSON text of a value whenever the text fits the
  byte limit and the value is within the limits on depth and number of values, and nothing otherwise. The
  count that decides before the text is built equals its length in UTF-8, with escapes, surrogate pairs
  and left-out fields, so nothing that fits is lost and no oversized text is ever built.
\<close>

theorem event_encoding_exact:
  assumes "writes_numbers num"
  shows "encodeBoundedEvent num v maxBytes = (if shallow 0 v \<and> values_of v \<le> MAX_METADATA_VALUES \<and> byteLength (json_text num v) \<le> maxBytes
    then Some (json_text num v) else None)"
  using all_exact [OF assms, of maxBytes v] json_copy [of num v]
  by (auto simp: exact_def encodeBoundedEvent_def Let_def simp del: snapshot.simps)

theorem event_encoding_exact_witness:
  "encodeBoundedEvent (\<lambda>_. js ''7'') (VObject [(js ''a'', VNum (jint 7)), (js ''b'', VUndefined), (js ''c'', VArray [VStr [0xd800], VUndefined])]) 32
     = Some (js ''{\"a\":7,\"c\":[\"'' @ [92] @ js ''ud800\",null]}'')
   \<and> encodeBoundedEvent (\<lambda>_. js ''7'') (VObject [(js ''a'', VNum (jint 7))]) 6 = None"
proof -
  let ?v = "VObject [(js ''a'', VNum (jint 7)), (js ''b'', VUndefined), (js ''c'', VArray [VStr [0xd800], VUndefined])]" and ?n = "\<lambda>_. js ''7''"
  have n: "writes_numbers ?n" by (simp add: writes_numbers_def js_def)
  have t: "json_text ?n ?v = js ''{\"a\":7,\"c\":[\"'' @ [92] @ js ''ud800\",null]}''" "byteLength (json_text ?n ?v) \<le> 32" "shallow 0 ?v" "values_of ?v \<le> MAX_METADATA_VALUES"
    by (simp_all add: js_def json_string_def json_unit_def json_u_def hex_digit_def high_surrogate_def low_surrogate_def byteLength_first Let_def MAX_METADATA_DEPTH_def MAX_METADATA_VALUES_def)
  have u: "\<not> byteLength (json_text ?n (VObject [(js ''a'', VNum (jint 7))])) \<le> 6"
    by (simp add: js_def json_string_def json_unit_def high_surrogate_def low_surrogate_def byteLength_first)
  show ?thesis using t u event_encoding_exact [OF n, of ?v 32] event_encoding_exact [OF n, of "VObject [(js ''a'', VNum (jint 7))]" 6] by (simp only: if_True if_False simp_thms)
qed

end
