(* ===== verification/Collector.thy ===== *)
theory Collector
  imports Event_Encoding
begin

text \<open>
  The collector behind the dashboard (\<open>observability/collector.ts\<close>): counters by kind of event and a ring of the most
  recent events, each kept as what its bounded encoding parses to. A cache event is its type, its level
  and its other fields; the listeners are named by numbers, and what they do with an event does not
  come back. \<open>JSON.parse\<close> is a parameter, as is how numbers are written.
\<close>

section \<open>Events\<close>

text \<open>
  The fields of an event: plain data, an \<open>Error\<close> with or without a message of its own (or with one that is no
  string), a bigint, a getter, and any other object.
\<close>

datatype ev_field = FVal jsval | FError "jsstr option" | FOddError | FBigint int | FGetter | FOpaque

record cache_event =
  ce_type :: string
  ce_level :: "string option"
  ce_fields :: "(jsstr \<times> ev_field) list"

definition DEFAULT_OBSERVABILITY_MAX_EVENT_BYTES :: nat where
  "DEFAULT_OBSERVABILITY_MAX_EVENT_BYTES = 64 * 1024"

definition boundedBigint :: "int \<Rightarrow> nat \<Rightarrow> jsstr option" where
  "boundedBigint value maxBytes = (let threshold = 2 ^ (min maxBytes DEFAULT_OBSERVABILITY_MAX_EVENT_BYTES * 4) in
     if threshold \<le> value \<or> value \<le> - threshold then None
     else Some (if value < 0 then 45 # js_string (nat (- value)) else js_string (nat value)))"

text \<open>\<open>String(value)\<close> for the primitive values.\<close>

fun string_of :: "(jsnum \<Rightarrow> jsstr) \<Rightarrow> jsval \<Rightarrow> jsstr option" where
  "string_of num (VStr s) = Some s"
| "string_of num (VNum n) = Some (num n)"
| "string_of num (VBool b) = Some (if b then js ''true'' else js ''false'')"
| "string_of num VNull = Some (js ''null'')"
| "string_of num VUndefined = Some (js ''undefined'')"
| "string_of num (VObject _) = Some (js ''[object Object]'')"
| "string_of num (VArray _) = None"

text \<open>A field of the record that is kept; \<open>None\<close> inside for an object that no encoding accepts.\<close>

definition sanitize_field :: "(jsnum \<Rightarrow> jsstr) \<Rightarrow> nat \<Rightarrow> jsstr \<Rightarrow> ev_field \<Rightarrow> jsval option option" where
  "sanitize_field num maxBytes key f = (case f of FGetter \<Rightarrow> None
     | FBigint n \<Rightarrow> map_option (\<lambda>t. Some (VStr t)) (boundedBigint n maxBytes)
     | FError m \<Rightarrow> Some (if key = js ''error'' then Some (VStr (nullish m [])) else None)
     | FOddError \<Rightarrow> if key = js ''error'' then None else Some None
     | FOpaque \<Rightarrow> if key = js ''error'' then None else Some None
     | FVal v \<Rightarrow> if key = js ''error'' then map_option (\<lambda>t. Some (VStr t)) (string_of num v) else Some (Some v))"

fun sanitize_fields :: "(jsnum \<Rightarrow> jsstr) \<Rightarrow> nat \<Rightarrow> nat \<Rightarrow> (jsstr \<times> ev_field) list \<Rightarrow> (jsstr \<times> jsval option) list option" where
  "sanitize_fields num maxBytes n [] = Some []"
| "sanitize_fields num maxBytes n ((key, f) # fs) =
     (if key = js ''type'' then sanitize_fields num maxBytes n fs
      else if 256 < Suc n then None
      else case sanitize_field num maxBytes key f of None \<Rightarrow> None
        | Some v \<Rightarrow> map_option (Cons (key, v)) (sanitize_fields num maxBytes (Suc n) fs))"

definition truncated :: "(jsstr \<times> jsval option) list" where
  "truncated = [(js ''truncated'', Some (VBool True))]"

text \<open>The record of an event, when all of it is plain data.\<close>

definition recorded_value :: "nat \<Rightarrow> int \<Rightarrow> string \<Rightarrow> (jsstr \<times> jsval option) list \<Rightarrow> jsval option" where
  "recorded_value seq ts ty fs = (if list_all (\<lambda>p. snd p \<noteq> None) fs
     then Some (VObject [(js ''seq'', VNum (jint (int seq))), (js ''ts'', VNum (jint ts)), (js ''type'', VStr (js ty)), (js ''data'', VObject (map (\<lambda>(k, v). (k, the v)) fs))])
     else None)"

definition encode_recorded :: "(jsnum \<Rightarrow> jsstr) \<Rightarrow> nat \<Rightarrow> jsval option \<Rightarrow> jsstr option" where
  "encode_recorded num maxBytes r = Option.bind r (\<lambda>v. encodeBoundedEvent num v maxBytes)"

section \<open>Counters\<close>

text \<open>The counter an event is counted under.\<close>

definition counter_of :: "string \<Rightarrow> string option \<Rightarrow> string option" where
  "counter_of ty level =
     (if ty = ''hit'' then Some (if level = Some ''L1'' then ''hitsL1'' else ''hitsL2'')
      else if ty = ''miss'' then Some (if level = Some ''L1'' then ''missesL1'' else if level = Some ''L2'' then ''missesL2'' else ''missesNegative'')
      else map_of [(''set'', ''sets''), (''delete'', ''deletes''), (''delete-pattern'', ''deletePatterns''), (''loader:start'', ''loaderStart''), (''loader:success'', ''loaderSuccess''),
        (''loader:error'', ''loaderError''), (''loader:timeout'', ''loaderTimeout''), (''inflight:reuse'', ''inflightReuse''), (''inflight:bypass'', ''inflightBypass''),
        (''stale:hit'', ''staleHit''), (''negative:set'', ''negativeSet''), (''l2:error'', ''l2Error''), (''l2:skipped'', ''l2Skipped''),
        (''event-bus:publish-error'', ''eventBusPublishError''), (''event-bus:publish-skipped'', ''eventBusPublishSkipped''), (''invalidation:received'', ''invalidationReceived''),
        (''invalidation:duplicate'', ''invalidationDuplicate''), (''invalidation:stale'', ''invalidationStale''), (''set:received'', ''setReceived''),
        (''set:broadcast'', ''setBroadcast''), (''set:broadcast-skipped'', ''setBroadcastSkipped'')] ty)"

type_synonym counters = "string \<Rightarrow> nat"

definition emptyCounters :: counters where
  "emptyCounters = (\<lambda>_. 0)"

definition count_event :: "cache_event \<Rightarrow> counters \<Rightarrow> counters" where
  "count_event e c = (case counter_of (ce_type e) (ce_level e) of None \<Rightarrow> c | Some f \<Rightarrow> c(f := c f + 1))"

section \<open>The collector\<close>

record ObservabilityCollector =
  oc_buffer :: "jsval option list"
  oc_maxEvents :: nat
  oc_maxEventBytes :: nat
  oc_writeIndex :: nat
  oc_buffered :: nat
  oc_seq :: nat
  oc_counters :: counters
  oc_listeners :: "nat list"

definition newCollector :: "nat \<Rightarrow> jsnum \<Rightarrow> js_error + ObservabilityCollector" where
  "newCollector maxEvents maxEventBytes = (let n = max 1 maxEvents in case eventLimit maxEventBytes of Inl e \<Rightarrow> Inl e
     | Inr b \<Rightarrow> Inr \<lparr>oc_buffer = replicate n None, oc_maxEvents = n, oc_maxEventBytes = nat b, oc_writeIndex = 0, oc_buffered = 0, oc_seq = 0,
         oc_counters = emptyCounters, oc_listeners = []\<rparr>)"

definition record_event :: "jsval \<Rightarrow> ObservabilityCollector \<Rightarrow> ObservabilityCollector" where
  "record_event e c = c\<lparr>oc_buffer := (oc_buffer c)[oc_writeIndex c := Some e], oc_writeIndex := (oc_writeIndex c + 1) mod oc_maxEvents c,
     oc_buffered := (if oc_buffered c < oc_maxEvents c then oc_buffered c + 1 else oc_buffered c)\<rparr>"

text \<open>The text that is kept for an event, the sequence number being given.\<close>

definition event_text :: "(jsnum \<Rightarrow> jsstr) \<Rightarrow> nat \<Rightarrow> nat \<Rightarrow> int \<Rightarrow> cache_event \<Rightarrow> jsstr option" where
  "event_text num maxBytes seq ts e =
     (case encode_recorded num maxBytes (recorded_value seq ts (ce_type e) (nullish (sanitize_fields num maxBytes 0 (ce_fields e)) truncated)) of
        Some t \<Rightarrow> Some t
      | None \<Rightarrow> encode_recorded num maxBytes (recorded_value seq ts (ce_type e) truncated))"

text \<open>\<open>handle\<close>: the event the listeners receive, if any, and the collector after it.\<close>

definition oc_handle :: "(jsnum \<Rightarrow> jsstr) \<Rightarrow> (jsstr \<Rightarrow> jsval) \<Rightarrow> int \<Rightarrow> cache_event \<Rightarrow> ObservabilityCollector \<Rightarrow> (nat \<times> jsval) list \<times> ObservabilityCollector" where
  "oc_handle num parse ts e c =
     (let c1 = c\<lparr>oc_counters := count_event e (oc_counters c), oc_seq := oc_seq c + 1\<rparr> in
      case event_text num (oc_maxEventBytes c1) (oc_seq c1) ts e of None \<Rightarrow> ([], c1)
      | Some t \<Rightarrow> (map (\<lambda>l. (l, parse t)) (oc_listeners c1), record_event (parse t) c1))"

definition oc_subscribe :: "nat \<Rightarrow> ObservabilityCollector \<Rightarrow> ObservabilityCollector" where
  "oc_subscribe l c = c\<lparr>oc_listeners := (if l \<in> set (oc_listeners c) then oc_listeners c else oc_listeners c @ [l])\<rparr>"

definition oc_unsubscribe :: "nat \<Rightarrow> ObservabilityCollector \<Rightarrow> ObservabilityCollector" where
  "oc_unsubscribe l c = c\<lparr>oc_listeners := filter (\<lambda>x. x \<noteq> l) (oc_listeners c)\<rparr>"

definition recentEvents :: "ObservabilityCollector \<Rightarrow> jsval list" where
  "recentEvents c = (let start = (if oc_buffered c < oc_maxEvents c then 0 else oc_writeIndex c) in
     concat (map (\<lambda>i. case oc_buffer c ! ((start + i) mod oc_maxEvents c) of None \<Rightarrow> [] | Some e \<Rightarrow> [e]) [0..<oc_buffered c]))"

definition oc_reset :: "ObservabilityCollector \<Rightarrow> ObservabilityCollector" where
  "oc_reset c = c\<lparr>oc_counters := emptyCounters, oc_buffer := replicate (length (oc_buffer c)) None, oc_buffered := 0, oc_writeIndex := 0\<rparr>"

record OverviewSnapshot =
  ov_totalEvents :: nat
  ov_bufferedEvents :: nat
  ov_hits :: nat
  ov_misses :: nat
  ov_hitRatio :: real
  ov_originOffloadRatio :: real

definition overview :: "ObservabilityCollector \<Rightarrow> OverviewSnapshot" where
  "overview c = (let k = oc_counters c; hits = k ''hitsL1'' + k ''hitsL2''; misses = k ''missesL1'' + k ''missesL2'' + k ''missesNegative'';
       lookups = hits + misses; inflight = k ''inflightReuse''; totalServiced = hits + inflight + k ''loaderSuccess'' in
     \<lparr>ov_totalEvents = oc_seq c, ov_bufferedEvents = oc_buffered c, ov_hits = hits, ov_misses = misses,
      ov_hitRatio = (if lookups = 0 then 0 else fl (real hits / real lookups)),
      ov_originOffloadRatio = (if 0 < totalServiced then fl (real (hits + inflight) / real totalServiced) else 0)\<rparr>)"

section \<open>The ring\<close>

text \<open>The ring holds the events \<open>es\<close>, oldest first.\<close>

definition ring :: "ObservabilityCollector \<Rightarrow> jsval list \<Rightarrow> bool" where
  "ring c es \<longleftrightarrow> 0 < oc_maxEvents c \<and> length (oc_buffer c) = oc_maxEvents c \<and> length es = oc_buffered c \<and> oc_buffered c \<le> oc_maxEvents c
     \<and> oc_writeIndex c < oc_maxEvents c \<and> (oc_buffered c < oc_maxEvents c \<longrightarrow> oc_writeIndex c = oc_buffered c)
     \<and> (\<forall>i < oc_buffered c. oc_buffer c ! (((if oc_buffered c < oc_maxEvents c then 0 else oc_writeIndex c) + i) mod oc_maxEvents c) = Some (es ! i))"

lemma ring_recent: "ring c es \<Longrightarrow> recentEvents c = es"
proof -
  assume r: "ring c es"
  let ?s = "if oc_buffered c < oc_maxEvents c then 0 else oc_writeIndex c"
  have "map (\<lambda>i. case oc_buffer c ! ((?s + i) mod oc_maxEvents c) of None \<Rightarrow> [] | Some e \<Rightarrow> [e]) [0..<oc_buffered c] = map (\<lambda>i. [es ! i]) [0..<length es]"
    using r by (auto simp: ring_def)
  moreover have "concat (map (\<lambda>i. [es ! i]) [0..<length es]) = es" by (simp add: map_nth concat_map_singleton)
  ultimately show "recentEvents c = es" by (simp add: recentEvents_def Let_def)
qed

lemma ring_record:
  assumes "ring c es"
  shows "ring (record_event e c) (drop (length (es @ [e]) - oc_maxEvents c) (es @ [e]))"
proof -
  let ?n = "oc_maxEvents c" and ?w = "oc_writeIndex c"
  have r: "0 < ?n" "length (oc_buffer c) = ?n" "length es = oc_buffered c" "oc_buffered c \<le> ?n" "?w < ?n"
    "oc_buffered c < ?n \<Longrightarrow> ?w = oc_buffered c" using assms by (auto simp: ring_def)
  show ?thesis
  proof (cases "oc_buffered c < ?n")
    case True
    have old: "oc_buffer c ! i = Some (es ! i)" if "i < oc_buffered c" for i using assms True that by (auto simp: ring_def)
    have d: "drop (length (es @ [e]) - ?n) (es @ [e]) = es @ [e]" using r True by simp
    have "Suc ?w mod ?n = (if Suc ?w = ?n then 0 else Suc ?w)" using r by (simp add: mod_Suc)
    then show ?thesis using r True old unfolding d
      by (auto simp: ring_def record_event_def nth_append nth_list_update less_Suc_eq)
  next
    case False
    then have b: "oc_buffered c = ?n" using r by simp
    have old: "oc_buffer c ! ((?w + i) mod ?n) = Some (es ! i)" if "i < ?n" for i using assms False b that by (auto simp: ring_def)
    have d: "drop (length (es @ [e]) - ?n) (es @ [e]) = tl es @ [e]" using r b by (cases es) auto
    have "(oc_buffer c)[?w := Some e] ! ((Suc ?w mod ?n + i) mod ?n) = Some ((tl es @ [e]) ! i)" if i: "i < ?n" for i
    proof (cases "Suc i = ?n")
      case True
      have "(Suc ?w mod ?n + i) mod ?n = (?w + Suc i) mod ?n" by (simp add: mod_add_left_eq)
      also have "\<dots> = ?w" using True r(5) by simp
      finally show ?thesis using r b True by (auto simp: nth_append)
    next
      case False
      have m: "(Suc ?w mod ?n + i) mod ?n = (?w + Suc i) mod ?n" by (simp add: mod_add_left_eq)
      have ne: "(?w + Suc i) mod ?n \<noteq> ?w"
      proof
        assume "(?w + Suc i) mod ?n = ?w"
        then have "(?w + Suc i) mod ?n = ?w mod ?n" using r(5) by simp
        then have "?n dvd (?w + Suc i) - ?w" using mod_eq_dvd_iff_nat [of ?w "?w + Suc i" ?n] by simp
        then show False using i False by (auto dest: dvd_imp_le)
      qed
      have "Suc i < ?n" using i False by simp
      then show ?thesis using old [of "Suc i"] ne r b i False unfolding m by (auto simp: nth_append nth_tl)
    qed
    then show ?thesis using r b unfolding d by (auto simp: ring_def record_event_def)
  qed
qed

section \<open>Runs\<close>

datatype collector_op = CHandle int cache_event | CSubscribe nat | CUnsubscribe nat | CReset

fun oc_apply :: "(jsnum \<Rightarrow> jsstr) \<Rightarrow> (jsstr \<Rightarrow> jsval) \<Rightarrow> collector_op \<Rightarrow> ObservabilityCollector \<Rightarrow> ObservabilityCollector" where
  "oc_apply num parse (CHandle ts e) c = snd (oc_handle num parse ts e c)"
| "oc_apply num parse (CSubscribe l) c = oc_subscribe l c"
| "oc_apply num parse (CUnsubscribe l) c = oc_unsubscribe l c"
| "oc_apply num parse CReset c = oc_reset c"

text \<open>
  The specification: an unbounded log. It has the number of events so far and, since the last reset, the
  events that could be encoded and the events that came.
\<close>

record event_log =
  lg_seq :: nat
  lg_kept :: "jsval list"
  lg_events :: "cache_event list"

fun log_apply :: "(jsnum \<Rightarrow> jsstr) \<Rightarrow> (jsstr \<Rightarrow> jsval) \<Rightarrow> nat \<Rightarrow> collector_op \<Rightarrow> event_log \<Rightarrow> event_log" where
  "log_apply num parse maxBytes (CHandle ts e) g = \<lparr>lg_seq = Suc (lg_seq g),
     lg_kept = lg_kept g @ (case event_text num maxBytes (Suc (lg_seq g)) ts e of None \<Rightarrow> [] | Some t \<Rightarrow> [parse t]), lg_events = lg_events g @ [e]\<rparr>"
| "log_apply num parse maxBytes CReset g = g\<lparr>lg_kept := [], lg_events := []\<rparr>"
| "log_apply num parse maxBytes _ g = g"

definition counted :: "string \<Rightarrow> cache_event list \<Rightarrow> nat" where
  "counted f es = length (filter (\<lambda>e. counter_of (ce_type e) (ce_level e) = Some f) es)"

definition last_n :: "nat \<Rightarrow> 'a list \<Rightarrow> 'a list" where
  "last_n n xs = drop (length xs - n) xs"

definition tracks :: "ObservabilityCollector \<Rightarrow> event_log \<Rightarrow> bool" where
  "tracks c g \<longleftrightarrow> ring c (last_n (oc_maxEvents c) (lg_kept g)) \<and> oc_seq c = lg_seq g \<and> oc_counters c = (\<lambda>f. counted f (lg_events g))"

lemma last_n_snoc: "0 < n \<Longrightarrow> last_n n (last_n n xs @ [x]) = last_n n (xs @ [x])"
  by (cases "length xs \<le> n") (auto simp: last_n_def Suc_diff_le)

lemma ring_cong: "oc_buffer c' = oc_buffer c \<Longrightarrow> oc_maxEvents c' = oc_maxEvents c \<Longrightarrow> oc_writeIndex c' = oc_writeIndex c \<Longrightarrow> oc_buffered c' = oc_buffered c
    \<Longrightarrow> ring c' es = ring c es"
  by (simp add: ring_def)

lemma apply_limits: "oc_maxEvents (oc_apply num parse op c) = oc_maxEvents c" "oc_maxEventBytes (oc_apply num parse op c) = oc_maxEventBytes c"
  by (cases op; simp add: oc_handle_def oc_subscribe_def oc_unsubscribe_def oc_reset_def record_event_def Let_def split: option.split)+

lemma tracks_step:
  assumes "tracks c g"
  shows "tracks (oc_apply num parse op c) (log_apply num parse (oc_maxEventBytes c) op g)"
proof (cases op)
  case (CHandle ts e)
  let ?c1 = "c\<lparr>oc_counters := count_event e (oc_counters c), oc_seq := oc_seq c + 1\<rparr>"
  have r: "ring ?c1 (last_n (oc_maxEvents c) (lg_kept g))"
    using assms ring_cong [of ?c1 c "last_n (oc_maxEvents c) (lg_kept g)"] by (simp add: tracks_def)
  have n: "0 < oc_maxEvents c" using r by (simp add: ring_def)
  have k: "count_event e (oc_counters c) = (\<lambda>f. counted f (lg_events g @ [e]))"
    using assms by (auto simp: tracks_def count_event_def counted_def split: option.splits)
  have s: "oc_seq c = lg_seq g" using assms by (simp add: tracks_def)
  show ?thesis
  proof (cases "event_text num (oc_maxEventBytes c) (Suc (lg_seq g)) ts e")
    case None
    then show ?thesis using CHandle r k s by (simp add: tracks_def oc_handle_def Let_def)
  next
    case (Some t)
    have "ring (record_event (parse t) ?c1) (last_n (oc_maxEvents c) (lg_kept g @ [parse t]))"
      using ring_record [OF r, of "parse t"] last_n_snoc [OF n, of "lg_kept g" "parse t"] by (simp add: last_n_def [of "oc_maxEvents c" "last_n (oc_maxEvents c) (lg_kept g) @ [parse t]"])
    then show ?thesis using CHandle Some k s by (simp add: tracks_def oc_handle_def record_event_def Let_def)
  qed
next
  case CReset
  then show ?thesis using assms by (auto simp: tracks_def oc_reset_def ring_def last_n_def emptyCounters_def counted_def)
qed (use assms in \<open>auto simp: tracks_def oc_subscribe_def oc_unsubscribe_def ring_def\<close>)

lemma tracks_run: "tracks c g \<Longrightarrow> tracks (fold (oc_apply num parse) ops c) (fold (log_apply num parse (oc_maxEventBytes c)) ops g)"
proof (induction ops arbitrary: c g)
  case (Cons op ops)
  then show ?case using Cons.IH [OF tracks_step [OF Cons.prems, of num parse op]] by (simp add: apply_limits)
qed simp

lemma tracks_new: "newCollector maxEvents maxEventBytes = Inr c \<Longrightarrow> tracks c \<lparr>lg_seq = 0, lg_kept = [], lg_events = []\<rparr>"
  by (auto simp: newCollector_def tracks_def ring_def last_n_def counted_def emptyCounters_def Let_def split: sum.splits)

lemma hits_counted: "counted ''hitsL1'' es + counted ''hitsL2'' es = length (filter (\<lambda>e. ce_type e = ''hit'') es)"
proof -
  have "(counter_of ty level = Some ''hitsL1'') = (ty = ''hit'' \<and> level = Some ''L1'')" "(counter_of ty level = Some ''hitsL2'') = (ty = ''hit'' \<and> level \<noteq> Some ''L1'')" for ty level
    by (auto simp: counter_of_def split: if_splits)
  then show ?thesis by (induction es) (auto simp: counted_def)
qed

section \<open>Properties\<close>

text \<open>
  C23. The collector is a window on a log: after any sequence of events, subscriptions and resets, the recent
  events are, oldest first, the last \<open>maxEvents\<close> of those that could be encoded since the last reset, every
  counter is the number of events of its kind since then, and the total counts every event. The circular
  buffer loses, repeats and reorders nothing.
\<close>

theorem collector_refines_log:
  assumes new: "newCollector maxEvents maxEventBytes = Inr c0" and run: "c = fold (oc_apply num parse) ops c0"
    and log: "g = fold (log_apply num parse (oc_maxEventBytes c0)) ops \<lparr>lg_seq = 0, lg_kept = [], lg_events = []\<rparr>"
  shows "recentEvents c = last_n (max 1 maxEvents) (lg_kept g) \<and> (\<forall>f. oc_counters c f = counted f (lg_events g))
    \<and> ov_totalEvents (overview c) = lg_seq g \<and> ov_hits (overview c) = length (filter (\<lambda>e. ce_type e = ''hit'') (lg_events g))"
proof -
  have t: "tracks c g" unfolding run log by (rule tracks_run [OF tracks_new [OF new]])
  have "oc_maxEvents (fold (oc_apply num parse) ops c0) = oc_maxEvents c0" by (induction ops arbitrary: c0) (simp_all add: apply_limits)
  then have "oc_maxEvents c = max 1 maxEvents" using new unfolding run by (auto simp: newCollector_def Let_def split: sum.splits)
  then have "recentEvents c = last_n (max 1 maxEvents) (lg_kept g)" using ring_recent t by (auto simp: tracks_def)
  then show ?thesis using t hits_counted [of "lg_events g"] by (simp add: tracks_def overview_def Let_def)
qed

theorem collector_refines_log_witness:
  "\<exists>c0. newCollector 2 (jint 1000) = Inr c0
    \<and> ov_hits (overview (fold (oc_apply (\<lambda>_. js ''7'') VStr) [CHandle 1 \<lparr>ce_type = ''hit'', ce_level = Some ''L1'', ce_fields = []\<rparr>, CReset,
        CHandle 2 \<lparr>ce_type = ''hit'', ce_level = Some ''L2'', ce_fields = []\<rparr>] c0)) = 1"
proof -
  obtain c0 where c0: "newCollector 2 (jint 1000) = Inr c0" by (simp add: newCollector_def eventLimit_def MAX_SAFE_INTEGER_def)
  show ?thesis using collector_refines_log [OF c0 refl refl, of "\<lambda>_. js ''7''" VStr
      "[CHandle 1 \<lparr>ce_type = ''hit'', ce_level = Some ''L1'', ce_fields = []\<rparr>, CReset, CHandle 2 \<lparr>ce_type = ''hit'', ce_level = Some ''L2'', ce_fields = []\<rparr>]"] c0
    by (intro exI [of _ c0]) simp
qed

end
