(* ===== verification/Bus_Status.thy ===== *)
theory Bus_Status
  imports Handler_Queue Retry_Queue
begin

text \<open>
  What the event buses share (\<open>event-bus/eventBus.interface.ts\<close>): the statuses they tell their listeners, what a
  listener may conclude from them, and the contract a bus that runs by steps has to meet. The cache trusts
  its local tier only while the bus it listens to is subscribed.
\<close>

datatype EventBusStatus = connecting | ready | subscribed_status | disconnected | error_status

text \<open>What the listeners believe: the last status that says whether messages arrive.\<close>

definition told_subscribed :: "EventBusStatus list \<Rightarrow> bool" where
  "told_subscribed xs \<longleftrightarrow> (let ys = filter (\<lambda>s. s \<in> {subscribed_status, disconnected}) xs in ys \<noteq> [] \<and> last ys = subscribed_status)"

lemma told_subscribed_simps [simp]: "\<not> told_subscribed []"
  "told_subscribed (xs @ [x]) = (if x = subscribed_status then True else if x = disconnected then False else told_subscribed xs)"
  "told_subscribed (xs @ [x, y]) = (if y = subscribed_status then True else if y = disconnected then False else told_subscribed (xs @ [x]))"
  by (cases x; cases y; simp add: told_subscribed_def Let_def)+

locale status_bus =
  fixes step :: "'s \<Rightarrow> 's \<Rightarrow> bool" and inv :: "'s \<Rightarrow> bool" and statuses :: "'s \<Rightarrow> EventBusStatus list" and receives :: "'s \<Rightarrow> bool"
  assumes keeps: "step s s' \<Longrightarrow> inv s \<Longrightarrow> inv s'"
    and honest: "inv s \<Longrightarrow> told_subscribed (statuses s) \<Longrightarrow> receives s"
begin

lemma run_keeps: "step\<^sup>*\<^sup>* s s' \<Longrightarrow> inv s \<Longrightarrow> inv s'"
  by (induction rule: rtranclp_induct) (auto intro: keeps)

lemma run_honest: "step\<^sup>*\<^sup>* s s' \<Longrightarrow> inv s \<Longrightarrow> told_subscribed (statuses s') \<longrightarrow> receives s'"
  using run_keeps honest by blast

end

section \<open>Deliveries of a handler queue\<close>

definition hq_ids :: "EventBusHandlerQueue \<Rightarrow> nat set" where
  "hq_ids q = fst ` set (hq_pending q) \<union> fst ` set (hq_running q)"

lemma hq_drain_ids: "hq_ids (fst (hq_drain q)) \<subseteq> hq_ids q"
proof (induction q rule: hq_drain.induct)
  case (1 q)
  show ?case
  proof (cases "hq_active q < hq_concurrency q \<and> hq_pending q \<noteq> []")
    case True
    then obtain i xs rest where p: "hq_pending q = (i, xs) # rest" by (cases "hq_pending q") auto
    have "hq_ids (hq_start i xs q) \<subseteq> hq_ids q" by (auto simp: hq_ids_def hq_start_def om_del_def p)
    moreover have "hq_ids (fst (hq_drain (hq_start i xs q))) \<subseteq> hq_ids (hq_start i xs q)" using 1 [of "(i, xs)" rest i xs] True p by blast
    ultimately show ?thesis using True p by (subst hq_drain.simps) (auto simp: Let_def)
  qed (subst hq_drain.simps, auto split: list.splits)
qed

text \<open>A step brings no delivery but the one that arrives.\<close>

lemma hq_step_ids: "hq_ids (fst (hq_step e q)) \<subseteq> hq_ids q \<union> set (hq_arrived e)"
proof (cases e)
  case (HQEnqueue i xs)
  then show ?thesis using hq_drain_ids [of "q\<lparr>hq_pending := hq_pending q @ [(i, xs)], hq_pendingBytes := hq_pendingBytes q + int (length xs)\<rparr>"]
    by (auto simp: hq_step_def hq_enqueueItem_def hq_ids_def)
next
  case (HQFinally i)
  show ?thesis
  proof (cases "om_get (hq_running q) i")
    case (Some r)
    then show ?thesis using HQFinally hq_drain_ids [of "q\<lparr>hq_active := hq_active q - 1, hq_activeBytes := hq_activeBytes q - int (length (fst r)), hq_running := om_del (hq_running q) i\<rparr>"]
      by (cases r) (auto simp: hq_step_def hq_finally_def hq_ids_def om_del_def Let_def)
  qed (use HQFinally in \<open>simp add: hq_step_def hq_finally_def\<close>)
qed (auto simp: hq_step_def hq_settle_def hq_close_def hq_discardPending_def hq_ids_def mark_settled_def image_image case_prod_beta)

end
