(* ===== verification/Redis_Bus.thy ===== *)
theory Redis_Bus
  imports Bus_Status
begin

text \<open>
  The Redis event bus (\<open>event-bus/redisEventBus.ts\<close>): its subscription, the statuses it tells its listeners, and
  the handler and retry queues it drives. A method that awaits is split there, and what the await gave is
  an argument. Handler queues are objects with an identity, so they are held in a list and named by their
  index, as is the message listener that fills each; the listeners attached to the subscriber connection
  are kept as the connection keeps them. Entries of a queue are numbered by the run.
\<close>

section \<open>State\<close>

record RedisEventBus =
  rb_channel :: jsstr
  rb_options :: EventBusHandlerQueueOptions
  rb_retryQueue :: EventBusRetryQueue
  rb_subscribed :: bool
  rb_messageListener :: "nat option"
  rb_handlerQueue :: "nat option"
  rb_handler :: bool
  rb_resubscribing :: bool
  rb_transportEpoch :: nat
  rb_needsReconciliation :: bool
  rb_statuses :: "EventBusStatus list"
  rb_queues :: "EventBusHandlerQueue list"
  rb_attached :: "nat list"

definition newRedisEventBus :: "jsstr \<Rightarrow> EventBusRetryQueueOptions \<Rightarrow> EventBusHandlerQueueOptions \<Rightarrow> js_error + RedisEventBus" where
  "newRedisEventBus channel retry options = (case newEventBusRetryQueue retry of Inl e \<Rightarrow> Inl e
     | Inr q \<Rightarrow> Inr \<lparr>rb_channel = channel, rb_options = options, rb_retryQueue = q, rb_subscribed = False, rb_messageListener = None, rb_handlerQueue = None,
         rb_handler = False, rb_resubscribing = False, rb_transportEpoch = 0, rb_needsReconciliation = False, rb_statuses = [], rb_queues = [], rb_attached = []\<rparr>)"

definition emitStatus :: "EventBusStatus \<Rightarrow> RedisEventBus \<Rightarrow> RedisEventBus" where
  "emitStatus s b = b\<lparr>rb_statuses := rb_statuses b @ [s]\<rparr>"

section \<open>The handler queues\<close>

text \<open>The callbacks \<open>subscribe\<close> gives a queue: \<open>onError\<close> and \<open>onOverflow\<close>, and \<open>onIdle\<close>. Deliveries of this bus have no \<open>settle\<close>.\<close>

definition handler_gap :: "RedisEventBus \<Rightarrow> RedisEventBus" where
  "handler_gap b = (emitStatus error_status b)\<lparr>rb_needsReconciliation := True\<rparr>"

definition handler_idle :: "RedisEventBus \<Rightarrow> RedisEventBus" where
  "handler_idle b = (if rb_needsReconciliation b \<and> rb_subscribed b then emitStatus subscribed_status (b\<lparr>rb_needsReconciliation := False\<rparr>) else b)"

definition bus_callback :: "hq_call \<Rightarrow> RedisEventBus \<Rightarrow> RedisEventBus" where
  "bus_callback c b = (case c of OnError \<Rightarrow> handler_gap b | OnOverflow _ \<Rightarrow> handler_gap b | OnIdle \<Rightarrow> handler_idle b | Settled _ _ \<Rightarrow> b)"

definition queue_step :: "nat \<Rightarrow> hq_event \<Rightarrow> RedisEventBus \<Rightarrow> RedisEventBus" where
  "queue_step k e b = (let r = hq_calls e (rb_queues b ! k) in fold bus_callback (snd r) (b\<lparr>rb_queues := (rb_queues b)[k := fst (fst r)]\<rparr>))"

text \<open>\<open>this.handlerQueue?.discardPending()\<close> and \<open>this.handlerQueue?.close()\<close>.\<close>

definition on_queue :: "hq_event \<Rightarrow> RedisEventBus \<Rightarrow> RedisEventBus" where
  "on_queue e b = (case rb_handlerQueue b of None \<Rightarrow> b | Some k \<Rightarrow> queue_step k e b)"

text \<open>A message arrives on the connection, and each attached listener queues it if it is on the channel of the bus.\<close>

definition on_message :: "nat \<Rightarrow> jsstr \<Rightarrow> bytes \<Rightarrow> RedisEventBus \<Rightarrow> RedisEventBus" where
  "on_message i channel xs b = (if channel \<noteq> rb_channel b then b else fold (\<lambda>k. queue_step k (HQEnqueue i xs)) (rb_attached b) b)"

text \<open>A message that does not decode.\<close>

definition undecodable :: "RedisEventBus \<Rightarrow> RedisEventBus" where
  "undecodable b = emitStatus error_status (b\<lparr>rb_needsReconciliation := True\<rparr>)"

text \<open>A delivery settles: the message is decoded, and the handler has run on the event when there is one.\<close>

definition delivered :: "'x event_env_scheme \<Rightarrow> nat \<Rightarrow> nat \<Rightarrow> bool \<Rightarrow> RedisEventBus \<Rightarrow> RedisEventBus" where
  "delivered E k i ok b = (case om_get (hq_running (rb_queues b ! k)) i of None \<Rightarrow> b
     | Some (xs, _) \<Rightarrow> (case decodeInvalidationEvent E (RawBytes xs) default_event_limits of
         Inl _ \<Rightarrow> queue_step k (HQSettle i False) b
       | Inr None \<Rightarrow> queue_step k (HQSettle i False) (undecodable b)
       | Inr (Some _) \<Rightarrow> queue_step k (HQSettle i ok) b))"

section \<open>Subscribing\<close>

text \<open>
  \<open>subscribe\<close> up to the SUBSCRIBE command, and after its answer: it raises when the limits of the queue are
  refused, and sends nothing when the bus is subscribed.
\<close>

definition subscribe_begin :: "RedisEventBus \<Rightarrow> (js_error + nat option) \<times> RedisEventBus" where
  "subscribe_begin b = (if rb_subscribed b then (Inr None, b)
     else let b1 = b\<lparr>rb_handler := True\<rparr>; k = length (rb_queues b1) in
       case newEventBusHandlerQueue (rb_options b1) of Inl e \<Rightarrow> (Inl e, b1)
       | Inr q \<Rightarrow> (Inr (Some k), b1\<lparr>rb_queues := rb_queues b1 @ [q], rb_attached := rb_attached b1 @ [k], rb_messageListener := Some k\<rparr>))"

definition subscribe_answer :: "nat \<Rightarrow> bool \<Rightarrow> RedisEventBus \<Rightarrow> RedisEventBus" where
  "subscribe_answer k ok b = (if ok then emitStatus subscribed_status (b\<lparr>rb_handlerQueue := Some k, rb_subscribed := True\<rparr>)
     else b\<lparr>rb_attached := remove1 k (rb_attached b), rb_messageListener := None\<rparr>)"

text \<open>\<open>resubscribe\<close>: the epoch of the attempt when a SUBSCRIBE is sent, and what its answer does.\<close>

definition resubscribe_begin :: "RedisEventBus \<Rightarrow> nat option \<times> RedisEventBus" where
  "resubscribe_begin b = (if \<not> rb_handler b \<or> rb_resubscribing b \<or> rb_subscribed b then (None, b) else (Some (rb_transportEpoch b), b\<lparr>rb_resubscribing := True\<rparr>))"

definition resubscribe_answer :: "nat \<Rightarrow> bool \<Rightarrow> RedisEventBus \<Rightarrow> RedisEventBus" where
  "resubscribe_answer epoch ok b = (if ok then (if epoch \<noteq> rb_transportEpoch b then b else emitStatus subscribed_status (b\<lparr>rb_subscribed := True\<rparr>))
     else emitStatus error_status b)\<lparr>rb_resubscribing := False\<rparr>"

definition on_ready :: "RedisEventBus \<Rightarrow> nat option \<times> RedisEventBus" where
  "on_ready b = resubscribe_begin (emitStatus ready b)"

definition markDisconnected :: "RedisEventBus \<Rightarrow> RedisEventBus" where
  "markDisconnected b = emitStatus disconnected (on_queue HQDiscard (b\<lparr>rb_transportEpoch := rb_transportEpoch b + 1, rb_subscribed := False\<rparr>))"

text \<open>\<open>disconnect\<close> up to UNSUBSCRIBE, and the rest.\<close>

definition disconnect_begin :: "RedisEventBus \<Rightarrow> RedisEventBus" where
  "disconnect_begin b =
     (let b1 = b\<lparr>rb_retryQueue := rq_clear (rb_retryQueue b), rb_needsReconciliation := False\<rparr>;
          b2 = on_queue HQClose b1;
          b3 = b2\<lparr>rb_handlerQueue := None, rb_handler := False\<rparr>;
          b4 = (case rb_messageListener b3 of None \<Rightarrow> b3 | Some k \<Rightarrow> b3\<lparr>rb_attached := remove1 k (rb_attached b3), rb_messageListener := None\<rparr>) in
      b4\<lparr>rb_subscribed := False\<rparr>)"

definition disconnect_end :: "RedisEventBus \<Rightarrow> RedisEventBus" where
  "disconnect_end b = emitStatus disconnected b"

section \<open>Publishing\<close>

text \<open>
  \<open>publish\<close> flushes the backlog (the first entry to send, when it starts the flush; when one is under way it
  waits for it), then sends its event. Whichever of the two fails, the event joins the backlog.
\<close>

definition publishNow :: "'x event_env_scheme \<Rightarrow> jsval \<Rightarrow> serialize_error + bytes" where
  "publishNow E event = encodeInvalidationEvent E event"

definition publish_begin :: "'x event_env_scheme \<Rightarrow> RedisEventBus \<Rightarrow> (nat \<times> jsval) option \<times> RedisEventBus" where
  "publish_begin E b = (let r = rq_flush E (rb_retryQueue b) in (snd r, b\<lparr>rb_retryQueue := fst r\<rparr>))"

definition flush_answer :: "'x event_env_scheme \<Rightarrow> bool \<Rightarrow> RedisEventBus \<Rightarrow> (nat \<times> jsval) option \<times> RedisEventBus" where
  "flush_answer E ok b = (let r = rq_published E ok (rb_retryQueue b) in (snd r, b\<lparr>rb_retryQueue := fst r\<rparr>))"

definition flush_end :: "RedisEventBus \<Rightarrow> RedisEventBus" where
  "flush_end b = b\<lparr>rb_retryQueue := rq_flushed (rb_retryQueue b)\<rparr>"

definition publish_failed :: "'x event_env_scheme \<Rightarrow> nat \<Rightarrow> jsval \<Rightarrow> RedisEventBus \<Rightarrow> RedisEventBus" where
  "publish_failed E i event b = b\<lparr>rb_retryQueue := snd (rq_enqueue E i event (rb_retryQueue b))\<rparr>"

section \<open>Runs\<close>

text \<open>
  The bus with the commands whose answer is due: those of \<open>subscribe\<close>, by their queue, the epochs of those of
  \<open>resubscribe\<close>, and the number of disconnects under way.
\<close>

record bus_run =
  br_bus :: RedisEventBus
  br_initial :: "nat list"
  br_attempts :: "nat list"
  br_closing :: nat

inductive bus_step :: "'x event_env_scheme \<Rightarrow> bus_run \<Rightarrow> bus_run \<Rightarrow> bool" for E where
  subscribe: "subscribe_begin (br_bus s) = (r, b) \<Longrightarrow> bus_step E s (s\<lparr>br_bus := b, br_initial := br_initial s @ (case r of Inr (Some k) \<Rightarrow> [k] | _ \<Rightarrow> [])\<rparr>)"
| answered: "br_initial s = xs @ k # ys \<Longrightarrow> bus_step E s (s\<lparr>br_bus := subscribe_answer k ok (br_bus s), br_initial := xs @ ys\<rparr>)"
| message: "\<forall>k \<in> set (rb_attached (br_bus s)). hq_legal (HQEnqueue i xs) (rb_queues (br_bus s) ! k) \<Longrightarrow> bus_step E s (s\<lparr>br_bus := on_message i ch xs (br_bus s)\<rparr>)"
| settles: "k < length (rb_queues (br_bus s)) \<Longrightarrow> hq_legal (HQSettle i ok) (rb_queues (br_bus s) ! k) \<Longrightarrow> bus_step E s (s\<lparr>br_bus := delivered E k i ok (br_bus s)\<rparr>)"
| finishes: "k < length (rb_queues (br_bus s)) \<Longrightarrow> hq_legal (HQFinally i) (rb_queues (br_bus s) ! k) \<Longrightarrow> bus_step E s (s\<lparr>br_bus := queue_step k (HQFinally i) (br_bus s)\<rparr>)"
| lost: "bus_step E s (s\<lparr>br_bus := markDisconnected (br_bus s)\<rparr>)"
| failed: "bus_step E s (s\<lparr>br_bus := emitStatus error_status (br_bus s)\<rparr>)"
| is_ready: "on_ready (br_bus s) = (a, b) \<Longrightarrow> bus_step E s (s\<lparr>br_bus := b, br_attempts := br_attempts s @ (case a of None \<Rightarrow> [] | Some e \<Rightarrow> [e])\<rparr>)"
| resubscribed: "br_attempts s = xs @ e # ys \<Longrightarrow> bus_step E s (s\<lparr>br_bus := resubscribe_answer e ok (br_bus s), br_attempts := xs @ ys\<rparr>)"
| closing: "bus_step E s (s\<lparr>br_bus := disconnect_begin (br_bus s), br_closing := br_closing s + 1\<rparr>)"
| closed: "0 < br_closing s \<Longrightarrow> bus_step E s (s\<lparr>br_bus := disconnect_end (br_bus s), br_closing := br_closing s - 1\<rparr>)"
| publishes: "publish_begin E (br_bus s) = (r, b) \<Longrightarrow> bus_step E s (s\<lparr>br_bus := b\<rparr>)"
| flushing: "rq_legal (RQPublished ok) (rb_retryQueue (br_bus s)) \<Longrightarrow> flush_answer E ok (br_bus s) = (r, b) \<Longrightarrow> bus_step E s (s\<lparr>br_bus := b\<rparr>)"
| flushed: "rq_legal RQFlushed (rb_retryQueue (br_bus s)) \<Longrightarrow> bus_step E s (s\<lparr>br_bus := flush_end (br_bus s)\<rparr>)"
| unpublished: "rq_legal (RQEnqueue i event) (rb_retryQueue (br_bus s)) \<Longrightarrow> bus_step E s (s\<lparr>br_bus := publish_failed E i event (br_bus s)\<rparr>)"

definition bus_start :: "RedisEventBus \<Rightarrow> bus_run" where
  "bus_start b = \<lparr>br_bus = b, br_initial = [], br_attempts = [], br_closing = 0\<rparr>"

abbreviation believed :: "RedisEventBus \<Rightarrow> bool" where
  "believed b \<equiv> told_subscribed (rb_statuses b)"

section \<open>The invariant\<close>

text \<open>What holds of the bus alone.\<close>

definition bus_ok :: "RedisEventBus \<Rightarrow> bool" where
  "bus_ok b \<longleftrightarrow> (rb_needsReconciliation b \<longrightarrow> error_status \<in> set (rb_statuses b)) \<and> list_all hq_inv (rb_queues b) \<and> rq_inv (rb_retryQueue b)
     \<and> distinct (rb_attached b) \<and> (\<forall>k \<in> set (rb_attached b). k < length (rb_queues b)) \<and> (\<forall>k. rb_handlerQueue b = Some k \<longrightarrow> k < length (rb_queues b))"

definition bus_inv :: "bus_run \<Rightarrow> bool" where
  "bus_inv s \<longleftrightarrow> bus_ok (br_bus s) \<and> (br_closing s = 0 \<longrightarrow> believed (br_bus s) \<longrightarrow> rb_subscribed (br_bus s))
     \<and> length (br_attempts s) = (if rb_resubscribing (br_bus s) then 1 else 0) \<and> (\<forall>k \<in> set (br_initial s). k < length (rb_queues (br_bus s)))"

lemma bus_emit_frame [simp]: "rb_subscribed (emitStatus x b) = rb_subscribed b" "rb_resubscribing (emitStatus x b) = rb_resubscribing b" "rb_handler (emitStatus x b) = rb_handler b"
  "rb_needsReconciliation (emitStatus x b) = rb_needsReconciliation b" "rb_statuses (emitStatus x b) = rb_statuses b @ [x]" "rb_transportEpoch (emitStatus x b) = rb_transportEpoch b"
  "rb_queues (emitStatus x b) = rb_queues b" "rb_attached (emitStatus x b) = rb_attached b" "rb_retryQueue (emitStatus x b) = rb_retryQueue b"
  "rb_handlerQueue (emitStatus x b) = rb_handlerQueue b" "rb_channel (emitStatus x b) = rb_channel b" "rb_options (emitStatus x b) = rb_options b"
  by (simp_all add: emitStatus_def)

lemma bus_ok_emit: "bus_ok b \<Longrightarrow> bus_ok (emitStatus x b)"
  by (auto simp: bus_ok_def)

text \<open>The callbacks of the queues keep all but the statuses, and tell the truth.\<close>

definition same_links :: "RedisEventBus \<Rightarrow> RedisEventBus \<Rightarrow> bool" where
  "same_links b b' \<longleftrightarrow> rb_subscribed b' = rb_subscribed b \<and> rb_resubscribing b' = rb_resubscribing b \<and> rb_handler b' = rb_handler b \<and> rb_transportEpoch b' = rb_transportEpoch b
     \<and> rb_attached b' = rb_attached b \<and> rb_retryQueue b' = rb_retryQueue b \<and> rb_handlerQueue b' = rb_handlerQueue b \<and> length (rb_queues b') = length (rb_queues b)
     \<and> (believed b' \<longrightarrow> believed b \<or> rb_subscribed b)"

lemma callback_ok: "bus_ok b \<Longrightarrow> bus_ok (bus_callback c b) \<and> same_links b (bus_callback c b) \<and> rb_queues (bus_callback c b) = rb_queues b"
  by (cases c) (auto simp: bus_callback_def handler_gap_def handler_idle_def bus_ok_def same_links_def Let_def)

lemma same_links_trans: "same_links a b \<Longrightarrow> same_links b c \<Longrightarrow> same_links a c"
  by (auto simp: same_links_def)

lemma callbacks_ok: "bus_ok b \<Longrightarrow> bus_ok (fold bus_callback cs b) \<and> same_links b (fold bus_callback cs b) \<and> rb_queues (fold bus_callback cs b) = rb_queues b"
proof (induction cs arbitrary: b)
  case (Cons c cs)
  then show ?case using callback_ok [OF Cons.prems, of c] Cons.IH [of "bus_callback c b"] same_links_trans by auto
qed (simp add: same_links_def)

lemma queue_step_ok:
  assumes "bus_ok b" "k < length (rb_queues b)" "hq_legal e (rb_queues b ! k)"
  shows "bus_ok (queue_step k e b) \<and> same_links b (queue_step k e b) \<and> (\<forall>j. j \<noteq> k \<longrightarrow> rb_queues (queue_step k e b) ! j = rb_queues b ! j)"
proof -
  let ?b = "b\<lparr>rb_queues := (rb_queues b)[k := fst (fst (hq_calls e (rb_queues b ! k)))]\<rparr>"
  have "hq_inv (rb_queues b ! k)" using assms(1,2) by (simp add: bus_ok_def list_all_length)
  then have "hq_inv (fst (fst (hq_calls e (rb_queues b ! k))))" using hq_step_inv assms(3) by (simp add: hq_step_def)
  then have "bus_ok ?b" using assms(1) using assms(2) by (auto simp: bus_ok_def list_all_length nth_list_update)
  moreover have "same_links b ?b" by (simp add: same_links_def)
  ultimately show ?thesis using callbacks_ok [of ?b "snd (hq_calls e (rb_queues b ! k))"] same_links_trans by (simp add: queue_step_def Let_def)
qed

text \<open>Queues do not touch the flags of the subscription, legal or not.\<close>

definition same_flags :: "RedisEventBus \<Rightarrow> RedisEventBus \<Rightarrow> bool" where
  "same_flags b b' \<longleftrightarrow> rb_subscribed b' = rb_subscribed b \<and> rb_resubscribing b' = rb_resubscribing b \<and> rb_handler b' = rb_handler b \<and> rb_transportEpoch b' = rb_transportEpoch b"

lemma queue_step_flags: "same_flags b (queue_step k e b)"
proof -
  have c: "same_flags b (bus_callback c b)" for b c by (cases c) (auto simp: bus_callback_def handler_gap_def handler_idle_def same_flags_def)
  have "same_flags b (fold bus_callback cs b)" for b cs
  proof (induction cs arbitrary: b)
    case (Cons c cs)
    then show ?case using c [of b c] Cons.IH [of "bus_callback c b"] by (simp add: same_flags_def)
  qed (simp add: same_flags_def)
  then show ?thesis by (simp add: queue_step_def Let_def same_flags_def)
qed

lemma on_queue_flags: "same_flags b (on_queue e b)"
  using queue_step_flags by (auto simp: on_queue_def same_flags_def split: option.splits)

lemma message_ok:
  assumes "bus_ok b" "distinct ks" "\<forall>k \<in> set ks. k < length (rb_queues b) \<and> hq_legal (HQEnqueue i xs) (rb_queues b ! k)"
  shows "bus_ok (fold (\<lambda>k. queue_step k (HQEnqueue i xs)) ks b) \<and> same_links b (fold (\<lambda>k. queue_step k (HQEnqueue i xs)) ks b)"
  using assms
proof (induction ks arbitrary: b)
  case (Cons k ks)
  let ?b = "queue_step k (HQEnqueue i xs) b"
  have q: "bus_ok ?b" "same_links b ?b" "\<forall>j. j \<noteq> k \<longrightarrow> rb_queues ?b ! j = rb_queues b ! j"
    using queue_step_ok [of b k "HQEnqueue i xs"] Cons.prems by simp_all
  have l: "length (rb_queues ?b) = length (rb_queues b)" using q(2) by (simp add: same_links_def)
  have "\<forall>j \<in> set ks. j < length (rb_queues ?b) \<and> hq_legal (HQEnqueue i xs) (rb_queues ?b ! j)"
  proof
    fix j assume "j \<in> set ks"
    then have "j \<noteq> k" "j \<in> set (k # ks)" using Cons.prems(2) by auto
    then show "j < length (rb_queues ?b) \<and> hq_legal (HQEnqueue i xs) (rb_queues ?b ! j)" using Cons.prems(3) q(3) l by metis
  qed
  then show ?case using Cons.IH [OF q(1)] Cons.prems(2) q(2) same_links_trans [OF q(2)] by simp
qed (simp add: same_links_def)

lemma delivered_ok:
  assumes "bus_ok b" "k < length (rb_queues b)" "hq_legal (HQSettle i ok) (rb_queues b ! k)"
  shows "bus_ok (delivered E k i ok b) \<and> same_links b (delivered E k i ok b)"
proof -
  have u: "bus_ok (undecodable b)" "same_links b (undecodable b)" "rb_queues (undecodable b) = rb_queues b"
    using assms(1) by (auto simp: undecodable_def bus_ok_def same_links_def Let_def)
  have q: "bus_ok (queue_step k (HQSettle i r) b) \<and> same_links b (queue_step k (HQSettle i r) b)" for r using queue_step_ok assms by fastforce
  have "bus_ok (queue_step k (HQSettle i False) (undecodable b)) \<and> same_links (undecodable b) (queue_step k (HQSettle i False) (undecodable b))"
    using queue_step_ok [of "undecodable b" k "HQSettle i False"] u assms(2,3) by simp
  then show ?thesis using q u(2) same_links_trans assms(1) by (auto simp: delivered_def same_links_def split: option.splits sum.splits)
qed

lemma on_queue_ok:
  assumes "bus_ok b" "e = HQDiscard \<or> e = HQClose"
  shows "bus_ok (on_queue e b) \<and> same_links b (on_queue e b)"
proof (cases "rb_handlerQueue b")
  case (Some k)
  then show ?thesis using queue_step_ok [of b k e] assms by (auto simp: on_queue_def bus_ok_def)
qed (use assms in \<open>simp add: on_queue_def same_links_def\<close>)

lemma retry_ok: "bus_ok b \<Longrightarrow> rq_legal e (rb_retryQueue b) \<Longrightarrow> bus_ok (b\<lparr>rb_retryQueue := rq_step E e (rb_retryQueue b)\<rparr>)"
  using rq_step_spec [of "rb_retryQueue b" e E] by (simp add: bus_ok_def)

lemma subscribe_ok:
  assumes "bus_ok b" "subscribe_begin b = (r, b')"
  shows "bus_ok b' \<and> rb_subscribed b' = rb_subscribed b \<and> rb_resubscribing b' = rb_resubscribing b \<and> rb_statuses b' = rb_statuses b
    \<and> length (rb_queues b) \<le> length (rb_queues b') \<and> (\<forall>k. r = Inr (Some k) \<longrightarrow> k < length (rb_queues b'))"
proof (cases "rb_subscribed b")
  case False
  show ?thesis
  proof (cases "newEventBusHandlerQueue (rb_options b)")
    case (Inr q)
    then have "b' = b\<lparr>rb_handler := True, rb_queues := rb_queues b @ [q], rb_attached := rb_attached b @ [length (rb_queues b)], rb_messageListener := Some (length (rb_queues b))\<rparr>"
      "r = Inr (Some (length (rb_queues b)))" using assms(2) False by (simp_all add: subscribe_begin_def Let_def)
    moreover have "bus_ok (b\<lparr>rb_handler := True, rb_queues := rb_queues b @ [q], rb_attached := rb_attached b @ [length (rb_queues b)], rb_messageListener := Some (length (rb_queues b))\<rparr>)"
      using assms(1) new_handler_queue_inv [OF Inr] unfolding bus_ok_def by (simp add: ball_Un less_Suc_eq) blast
    ultimately show ?thesis by simp
  next
    case (Inl e)
    then have "b' = b\<lparr>rb_handler := True\<rparr>" "r = Inl e" using assms(2) False by (simp_all add: subscribe_begin_def Let_def)
    then show ?thesis using assms(1) by (simp add: bus_ok_def)
  qed
qed (use assms in \<open>auto simp: subscribe_begin_def\<close>)

lemma ready_ok:
  assumes "bus_ok b" "on_ready b = (a, b')"
  shows "bus_ok b' \<and> rb_subscribed b' = rb_subscribed b \<and> believed b' = believed b \<and> rb_queues b' = rb_queues b
    \<and> (if a = None then rb_resubscribing b' = rb_resubscribing b else rb_resubscribing b' \<and> \<not> rb_resubscribing b)"
proof -
  have "bus_ok ((emitStatus ready b)\<lparr>rb_resubscribing := True\<rparr>)" using bus_ok_emit [OF assms(1), of ready] by (simp add: bus_ok_def)
  then show ?thesis using assms(2) bus_ok_emit [OF assms(1), of ready] by (cases "\<not> rb_handler b \<or> rb_resubscribing b \<or> rb_subscribed b") (auto simp: on_ready_def resubscribe_begin_def)
qed

lemma bus_inv_step: "bus_step E s s' \<Longrightarrow> bus_inv s \<Longrightarrow> bus_inv s'"
proof (induction rule: bus_step.induct)
  case (subscribe s r b)
  from subscribe_ok [OF _ subscribe(1)] subscribe(2) show ?case
    by (auto simp: bus_inv_def split: sum.splits option.splits)
next
  case (answered s xs k ys ok)
  then show ?case by (auto simp: bus_inv_def bus_ok_def subscribe_answer_def Let_def dest: notin_set_remove1 split: if_splits)
next
  case (message s i xs ch)
  then show ?case using message_ok [of "br_bus s" "rb_attached (br_bus s)" i xs] by (auto simp: bus_inv_def on_message_def same_links_def bus_ok_def)
next
  case (settles k s i ok)
  then show ?case using delivered_ok [of "br_bus s" k i ok E] by (auto simp: bus_inv_def same_links_def)
next
  case (finishes k s i)
  then show ?case using queue_step_ok [of "br_bus s" k "HQFinally i"] by (auto simp: bus_inv_def same_links_def)
next
  case (lost s)
  let ?b = "br_bus s\<lparr>rb_transportEpoch := rb_transportEpoch (br_bus s) + 1, rb_subscribed := False\<rparr>"
  have "bus_ok ?b" using lost by (simp add: bus_inv_def bus_ok_def)
  then have "bus_ok (on_queue HQDiscard ?b)" "same_links ?b (on_queue HQDiscard ?b)" using on_queue_ok by blast+
  then show ?case using lost bus_ok_emit [of "on_queue HQDiscard ?b" disconnected] by (simp add: bus_inv_def markDisconnected_def same_links_def)
next
  case (failed s)
  then show ?case using bus_ok_emit by (auto simp: bus_inv_def)
next
  case (is_ready s a b)
  from ready_ok [OF _ is_ready(1)] is_ready(2) show ?case by (auto simp: bus_inv_def split: option.splits if_splits)
next
  case (resubscribed s xs e ys ok)
  then have "xs = [] \<and> ys = [] \<and> rb_resubscribing (br_bus s)" by (auto simp: bus_inv_def split: if_splits)
  then show ?case using resubscribed by (auto simp: bus_inv_def bus_ok_def resubscribe_answer_def)
next
  case (closing s)
  let ?b = "br_bus s\<lparr>rb_retryQueue := rq_clear (rb_retryQueue (br_bus s)), rb_needsReconciliation := False\<rparr>"
  have "bus_ok ?b" using closing rq_clear_spec [of "rb_retryQueue (br_bus s)"] by (simp add: bus_inv_def bus_ok_def)
  then have "bus_ok (on_queue HQClose ?b)" "same_links ?b (on_queue HQClose ?b)" using on_queue_ok by blast+
  then show ?case using closing
    by (auto simp: bus_inv_def disconnect_begin_def Let_def same_links_def bus_ok_def dest: notin_set_remove1 split: option.splits)
next
  case (closed s)
  then show ?case using bus_ok_emit by (auto simp: bus_inv_def disconnect_end_def)
next
  case (publishes s r b)
  then show ?case using retry_ok [of "br_bus s" RQFlush E] by (auto simp: bus_inv_def publish_begin_def Let_def)
next
  case (flushing ok s r b)
  then show ?case using retry_ok [of "br_bus s" "RQPublished ok" E] by (auto simp: bus_inv_def flush_answer_def Let_def)
next
  case (flushed s)
  then show ?case using retry_ok [of "br_bus s" RQFlushed E] by (auto simp: bus_inv_def flush_end_def)
next
  case (unpublished i event s)
  then show ?case using retry_ok [of "br_bus s" "RQEnqueue i event" E] by (auto simp: bus_inv_def publish_failed_def)
qed

lemma new_bus_inv: "newRedisEventBus channel retry options = Inr b \<Longrightarrow> bus_inv (bus_start b)"
  using new_retry_queue_inv [of retry] by (auto simp: newRedisEventBus_def bus_inv_def bus_start_def bus_ok_def split: sum.splits)

interpretation redis: status_bus "bus_step E" bus_inv "\<lambda>s. rb_statuses (br_bus s)" "\<lambda>s. br_closing s = 0 \<longrightarrow> rb_subscribed (br_bus s)" for E
proof unfold_locales
  show "bus_inv s'" if "bus_step E s s'" "bus_inv s" for s s' using that by (rule bus_inv_step)
qed (simp add: bus_inv_def)

section \<open>What goes wrong\<close>

text \<open>
  A reconnection during an attempt is lost: the \<open>ready\<close> event finds the attempt pending and starts none, and the
  attempt, answered after it (the client resends an unanswered command on the new connection), drops
  its own success because the epoch has moved. The bus stays unsubscribed until the next reconnection.
\<close>

lemma resubscribe_stalls:
  assumes "rb_handler b" "\<not> rb_resubscribing b" "\<not> rb_subscribed b"
  shows "\<exists>e b1. on_ready b = (Some e, b1) \<and> (\<exists>b2. on_ready (markDisconnected b1) = (None, b2)
     \<and> rb_handler (resubscribe_answer e True b2) \<and> \<not> rb_subscribed (resubscribe_answer e True b2) \<and> \<not> rb_resubscribing (resubscribe_answer e True b2))"
proof -
  let ?b = "(emitStatus ready b)\<lparr>rb_resubscribing := True\<rparr>"
  let ?d = "markDisconnected ?b"
  have d: "rb_handler ?d" "rb_resubscribing ?d" "\<not> rb_subscribed ?d" "rb_transportEpoch ?d = rb_transportEpoch b + 1"
    using assms(1) on_queue_flags [of "?b\<lparr>rb_transportEpoch := rb_transportEpoch ?b + 1, rb_subscribed := False\<rparr>" HQDiscard]
    by (simp_all add: markDisconnected_def same_flags_def)
  have "on_ready b = (Some (rb_transportEpoch b), ?b)" using assms by (simp add: on_ready_def resubscribe_begin_def)
  moreover have "on_ready ?d = (None, emitStatus ready ?d)" using d(2) by (simp add: on_ready_def resubscribe_begin_def)
  moreover have "resubscribe_answer (rb_transportEpoch b) True (emitStatus ready ?d) = (emitStatus ready ?d)\<lparr>rb_resubscribing := False\<rparr>"
    using d(4) by (simp add: resubscribe_answer_def)
  ultimately show ?thesis using d(1,3) by simp
qed

section \<open>Properties\<close>


text \<open>
  C39. A first subscription that fails leaves the bus deaf: \<open>subscribe\<close> detaches its listener when SUBSCRIBE is refused but
  keeps the handler, so when the connection is ready again the bus subscribes on its own and reports
  \<open>subscribed\<close>, with no listener attached: every later message changes nothing, and calling \<open>subscribe\<close> again
  returns without attaching one.
\<close>

theorem failed_subscribe_deaf:
  assumes "subscribe_begin b = (Inr (Some k), b1)" "rb_attached b = []" "\<not> rb_resubscribing b"
  shows "\<exists>e b2. on_ready (subscribe_answer k False b1) = (Some e, b2)
    \<and> (let b3 = resubscribe_answer e True b2 in rb_subscribed b3 \<and> believed b3 \<and> rb_attached b3 = []
        \<and> (\<forall>i ch xs. on_message i ch xs b3 = b3) \<and> subscribe_begin b3 = (Inr None, b3))"
proof -
  let ?b = "subscribe_answer k False b1"
  have "\<not> rb_subscribed ?b" "rb_handler ?b" "rb_attached ?b = []" "\<not> rb_resubscribing ?b"
    using assms by (auto simp: subscribe_begin_def subscribe_answer_def Let_def split: if_splits sum.splits)
  then show ?thesis by (simp add: on_ready_def resubscribe_begin_def resubscribe_answer_def on_message_def subscribe_begin_def Let_def)
qed

section \<open>Witnesses\<close>

definition demo_bus :: RedisEventBus where
  "demo_bus = \<lparr>rb_channel = js ''c'', rb_options = \<lparr>hqo_concurrency = None, hqo_maxSize = None, hqo_maxBytes = None\<rparr>, rb_retryQueue = demo_rq, rb_subscribed = False,
     rb_messageListener = None, rb_handlerQueue = None, rb_handler = False, rb_resubscribing = False, rb_transportEpoch = 0, rb_needsReconciliation = False,
     rb_statuses = [], rb_queues = [], rb_attached = []\<rparr>"

lemma demo_bus_new: "newRedisEventBus (js ''c'') demo_rq_options \<lparr>hqo_concurrency = None, hqo_maxSize = None, hqo_maxBytes = None\<rparr> = Inr demo_bus"
  by (simp add: newRedisEventBus_def demo_rq_new demo_bus_def)

lemma demo_bus_subscribe: "\<exists>b. subscribe_begin demo_bus = (Inr (Some 0), b) \<and> rb_handler b"
  using demo_hq_new by (simp add: subscribe_begin_def demo_bus_def Let_def)


theorem failed_subscribe_deaf_witness:
  "\<exists>b1 e b2. subscribe_begin demo_bus = (Inr (Some 0), b1) \<and> on_ready (subscribe_answer 0 False b1) = (Some e, b2)
     \<and> rb_subscribed (resubscribe_answer e True b2) \<and> rb_attached (resubscribe_answer e True b2) = []"
proof -
  obtain b where b: "subscribe_begin demo_bus = (Inr (Some 0), b)" using demo_bus_subscribe by blast
  have "rb_attached demo_bus = []" "\<not> rb_resubscribing demo_bus" by (simp_all add: demo_bus_def)
  from failed_subscribe_deaf [OF b this] b show ?thesis by (auto simp: Let_def)
qed

end
