(* ===== verification/Rabbit_Bus.thy ===== *)
theory Rabbit_Bus
  imports Bus_Status
begin

text \<open>
  The RabbitMQ event bus (\<open>event-bus/rabbitmqEventBus.ts\<close>): connecting and reconnecting, consuming with
  acknowledgements, and publishing. A method that awaits is split there and what the await gave is an
  argument. A connection is named by a number, and so are its two channels; handler queues are held in a
  list and named by their index. Deliveries are numbered as they arrive; \<open>mq_items\<close> has the channel and the
  delivery tag of each, and \<open>mq_answers\<close> the calls of \<open>ack\<close> (\<open>True\<close>) and \<open>nack\<close> on them.
\<close>

section \<open>State\<close>

definition DEFAULT_RABBITMQ_PREFETCH :: int where
  "DEFAULT_RABBITMQ_PREFETCH = 32"

definition RECONNECT_INITIAL_DELAY_MS :: nat where
  "RECONNECT_INITIAL_DELAY_MS = 200"

definition RECONNECT_MAX_DELAY_MS :: nat where
  "RECONNECT_MAX_DELAY_MS = 30000"

record RabbitMQEventBusOptions =
  mqo_url :: bool
  mqo_prefetch :: "jsnum option"
  mqo_handlerConcurrency :: "jsnum option"
  mqo_handlerMaxSize :: "jsnum option"
  mqo_handlerMaxBytes :: "jsnum option"
  mqo_retryQueue :: EventBusRetryQueueOptions

record RabbitMQEventBus =
  mq_options :: RabbitMQEventBusOptions
  mq_connection :: "nat option"
  mq_channel :: "nat option"
  mq_publishChannel :: "nat option"
  mq_consumerTag :: "jsstr option"
  mq_queueName :: "jsstr option"
  mq_handler :: bool
  mq_connectionUrl :: bool
  mq_initPromise :: bool
  mq_reconnectTimer :: bool
  mq_reconnectAttempt :: nat
  mq_closed :: bool
  mq_retryQueue :: EventBusRetryQueue
  mq_handlerQueue :: "nat option"
  mq_needsReconciliation :: bool
  mq_statuses :: "EventBusStatus list"
  mq_queues :: "EventBusHandlerQueue list"
  mq_items :: "(nat \<times> nat) list"
  mq_answers :: "(nat \<times> bool) list"

definition prefetch :: "RabbitMQEventBusOptions \<Rightarrow> jsnum" where
  "prefetch options = nullish (mqo_prefetch options) (jint DEFAULT_RABBITMQ_PREFETCH)"

definition createHandlerQueue :: "RabbitMQEventBusOptions \<Rightarrow> js_error + EventBusHandlerQueue" where
  "createHandlerQueue options = newEventBusHandlerQueue
     \<lparr>hqo_concurrency = Some (nullish (mqo_handlerConcurrency options) (prefetch options)), hqo_maxSize = mqo_handlerMaxSize options, hqo_maxBytes = mqo_handlerMaxBytes options\<rparr>"

definition newRabbitMQEventBus :: "RabbitMQEventBusOptions \<Rightarrow> js_error + RabbitMQEventBus" where
  "newRabbitMQEventBus options =
     (if \<not> isSafeInteger (prefetch options) \<or> jless (prefetch options) (jint 1) \<or> jless (jint 65535) (prefetch options)
      then Inl (RangeError ''RabbitMQ prefetch must be a positive integer no greater than 65535'')
      else case newEventBusRetryQueue (mqo_retryQueue options) of Inl e \<Rightarrow> Inl e | Inr r \<Rightarrow>
        (case createHandlerQueue options of Inl e \<Rightarrow> Inl e | Inr q \<Rightarrow>
          Inr \<lparr>mq_options = options, mq_connection = None, mq_channel = None, mq_publishChannel = None, mq_consumerTag = None, mq_queueName = None, mq_handler = False,
            mq_connectionUrl = False, mq_initPromise = False, mq_reconnectTimer = False, mq_reconnectAttempt = 0, mq_closed = False, mq_retryQueue = r, mq_handlerQueue = Some 0,
            mq_needsReconciliation = False, mq_statuses = [], mq_queues = [q], mq_items = [], mq_answers = []\<rparr>))"

definition mq_emit :: "EventBusStatus \<Rightarrow> RabbitMQEventBus \<Rightarrow> RabbitMQEventBus" where
  "mq_emit s b = b\<lparr>mq_statuses := mq_statuses b @ [s]\<rparr>"

section \<open>Deliveries\<close>

definition markDeliveryGap :: "RabbitMQEventBus \<Rightarrow> RabbitMQEventBus" where
  "markDeliveryGap b = mq_emit error_status (b\<lparr>mq_needsReconciliation := True\<rparr>)"

text \<open>\<open>this.handlerQueue?.activeCount || this.handlerQueue?.pendingCount\<close>\<close>

definition queue_busy :: "RabbitMQEventBus \<Rightarrow> bool" where
  "queue_busy b = (case mq_handlerQueue b of None \<Rightarrow> False | Some k \<Rightarrow> hq_active (mq_queues b ! k) \<noteq> 0 \<or> hq_pending (mq_queues b ! k) \<noteq> [])"

definition reconcileIfIdle :: "RabbitMQEventBus \<Rightarrow> RabbitMQEventBus" where
  "reconcileIfIdle b = (if \<not> mq_needsReconciliation b \<or> mq_closed b \<or> mq_consumerTag b = None \<or> queue_busy b then b
     else mq_emit subscribed_status (b\<lparr>mq_needsReconciliation := False\<rparr>))"

definition mq_settle :: "nat \<Rightarrow> bool \<Rightarrow> RabbitMQEventBus \<Rightarrow> RabbitMQEventBus" where
  "mq_settle i ok b = (if ok then b else mq_emit error_status b)\<lparr>mq_answers := mq_answers b @ [(i, ok)]\<rparr>"

definition mq_callback :: "hq_call \<Rightarrow> RabbitMQEventBus \<Rightarrow> RabbitMQEventBus" where
  "mq_callback c b = (case c of OnError \<Rightarrow> markDeliveryGap b | OnOverflow _ \<Rightarrow> markDeliveryGap b | OnIdle \<Rightarrow> reconcileIfIdle b | Settled i ok \<Rightarrow> mq_settle i ok b)"

definition mq_queue_step :: "nat \<Rightarrow> hq_event \<Rightarrow> RabbitMQEventBus \<Rightarrow> RabbitMQEventBus" where
  "mq_queue_step k e b = (let r = hq_calls e (mq_queues b ! k) in fold mq_callback (snd r) (b\<lparr>mq_queues := (mq_queues b)[k := fst (fst r)]\<rparr>))"

definition mq_on_queue :: "hq_event \<Rightarrow> RabbitMQEventBus \<Rightarrow> RabbitMQEventBus" where
  "mq_on_queue e b = (case mq_handlerQueue b of None \<Rightarrow> b | Some k \<Rightarrow> mq_queue_step k e b)"

text \<open>A delivery that the queue does not take is refused at once.\<close>

definition mq_refuse :: "nat \<Rightarrow> RabbitMQEventBus \<Rightarrow> RabbitMQEventBus" where
  "mq_refuse i b = reconcileIfIdle (mq_settle i False (markDeliveryGap b))"

definition mq_message :: "nat \<Rightarrow> nat \<Rightarrow> bytes \<Rightarrow> RabbitMQEventBus \<Rightarrow> RabbitMQEventBus" where
  "mq_message channel deliveryTag content b =
     (let i = length (mq_items b); b1 = b\<lparr>mq_items := mq_items b @ [(channel, deliveryTag)]\<rparr> in
      case mq_handlerQueue b1 of None \<Rightarrow> mq_refuse i b1
      | Some k \<Rightarrow> let b2 = mq_queue_step k (HQEnqueue i content) b1 in
          if fst (hq_enqueueItem i content (mq_queues b1 ! k)) then b2 else mq_refuse i b2)"

text \<open>A delivery settles: the message is decoded, and the handler has run on the event when there is one.\<close>

definition mq_delivered :: "'x event_env_scheme \<Rightarrow> nat \<Rightarrow> nat \<Rightarrow> bool \<Rightarrow> RabbitMQEventBus \<Rightarrow> RabbitMQEventBus" where
  "mq_delivered E k i ok b = (case om_get (hq_running (mq_queues b ! k)) i of None \<Rightarrow> b
     | Some (xs, _) \<Rightarrow> (case decodeInvalidationEvent E (RawBytes xs) default_event_limits of
         Inr (Some _) \<Rightarrow> mq_queue_step k (HQSettle i ok) b
       | _ \<Rightarrow> mq_queue_step k (HQSettle i False) b))"

section \<open>Connecting\<close>

definition isInitialized :: "RabbitMQEventBus \<Rightarrow> bool" where
  "isInitialized b \<longleftrightarrow> mq_connection b \<noteq> None \<and> mq_channel b \<noteq> None \<and> mq_publishChannel b \<noteq> None"

datatype init_start = InitRaised js_error | InitDone | InitJoined | InitOpens

definition init_begin :: "bool \<Rightarrow> RabbitMQEventBus \<Rightarrow> init_start \<times> RabbitMQEventBus" where
  "init_begin url b = (if \<not> url then (InitRaised (Error ''RabbitMQEventBus requires a URL. Pass options.url or call init(url).''), b)
     else if isInitialized b then (InitDone, b)
     else if mq_initPromise b then (InitJoined, b)
     else (InitOpens, b\<lparr>mq_initPromise := True\<rparr>))"

text \<open>The connection and its channels are open (with the number of the connection), or opening them failed.\<close>

definition init_end :: "nat option \<Rightarrow> RabbitMQEventBus \<Rightarrow> RabbitMQEventBus" where
  "init_end opened b = (case opened of None \<Rightarrow> b
     | Some c \<Rightarrow> b\<lparr>mq_connection := Some c, mq_channel := Some c, mq_publishChannel := Some c, mq_connectionUrl := True, mq_closed := False\<rparr>)\<lparr>mq_initPromise := False\<rparr>"

definition reconnect_delay :: "nat \<Rightarrow> nat" where
  "reconnect_delay attempt = min RECONNECT_MAX_DELAY_MS (RECONNECT_INITIAL_DELAY_MS * 2 ^ (attempt - 1))"

definition scheduleReconnect :: "RabbitMQEventBus \<Rightarrow> RabbitMQEventBus" where
  "scheduleReconnect b = (if mq_closed b \<or> mq_reconnectTimer b \<or> \<not> (mq_connectionUrl b \<or> mqo_url (mq_options b)) then b
     else b\<lparr>mq_reconnectAttempt := mq_reconnectAttempt b + 1, mq_reconnectTimer := True\<rparr>)"

text \<open>The timer fires and \<open>reconnect\<close> begins: the handler it will subscribe again is read here.\<close>

definition reconnect_begin :: "RabbitMQEventBus \<Rightarrow> bool option \<times> RabbitMQEventBus" where
  "reconnect_begin b = (let b1 = b\<lparr>mq_reconnectTimer := False\<rparr> in (if mq_closed b1 then None else Some (mq_handler b1), b1))"

definition reconnect_end :: "bool \<Rightarrow> RabbitMQEventBus \<Rightarrow> RabbitMQEventBus" where
  "reconnect_end ok b = (if ok then b\<lparr>mq_reconnectAttempt := 0\<rparr> else scheduleReconnect (mq_emit error_status b))"

definition drop_connection :: "RabbitMQEventBus \<Rightarrow> RabbitMQEventBus" where
  "drop_connection b = mq_emit disconnected (mq_on_queue HQDiscard
     (b\<lparr>mq_connection := None, mq_channel := None, mq_publishChannel := None, mq_consumerTag := None\<rparr>))"

definition onChannelClose :: "nat \<Rightarrow> RabbitMQEventBus \<Rightarrow> RabbitMQEventBus" where
  "onChannelClose c b = (if mq_connection b \<noteq> Some c \<or> mq_closed b then b else scheduleReconnect (drop_connection b))"

definition onConnectionClose :: "nat \<Rightarrow> RabbitMQEventBus \<Rightarrow> RabbitMQEventBus" where
  "onConnectionClose c b = (if mq_connection b \<noteq> Some c then b
     else let b1 = drop_connection b in if mq_closed b1 then b1 else scheduleReconnect b1)"

section \<open>Subscribing\<close>

definition consume_begin :: "RabbitMQEventBus \<Rightarrow> (js_error + nat option) \<times> RabbitMQEventBus" where
  "consume_begin b = (case mq_channel b of None \<Rightarrow> (Inl (Error ''RabbitMQEventBus must be initialized before subscribing.''), b)
     | Some c \<Rightarrow> let b1 = b\<lparr>mq_handler := True\<rparr> in
         (case (case mq_handlerQueue b1 of Some k \<Rightarrow> Inr b1
             | None \<Rightarrow> (case createHandlerQueue (mq_options b1) of Inl e \<Rightarrow> Inl e
                 | Inr q \<Rightarrow> Inr (b1\<lparr>mq_handlerQueue := Some (length (mq_queues b1)), mq_queues := mq_queues b1 @ [q]\<rparr>))) of
            Inl e \<Rightarrow> (Inl e, b1)
          | Inr b2 \<Rightarrow> (Inr (if mq_consumerTag b2 \<noteq> None then None else Some c), b2)))"

text \<open>The queue is declared; the consumer is started.\<close>

definition consume_named :: "jsstr \<Rightarrow> RabbitMQEventBus \<Rightarrow> RabbitMQEventBus" where
  "consume_named name b = b\<lparr>mq_queueName := Some name\<rparr>"

definition consume_end :: "jsstr \<Rightarrow> RabbitMQEventBus \<Rightarrow> RabbitMQEventBus" where
  "consume_end tag b = mq_emit subscribed_status (b\<lparr>mq_consumerTag := Some tag\<rparr>)"

text \<open>A null delivery: the broker cancelled the consumer.\<close>

definition consumer_cancelled :: "RabbitMQEventBus \<Rightarrow> RabbitMQEventBus" where
  "consumer_cancelled b = scheduleReconnect (mq_emit disconnected (mq_on_queue HQDiscard (b\<lparr>mq_consumerTag := None\<rparr>)))"

text \<open>\<open>disconnect\<close> up to its first await; what follows closes the channels and the connection.\<close>

definition mq_disconnect :: "RabbitMQEventBus \<Rightarrow> RabbitMQEventBus" where
  "mq_disconnect b = (let b1 = mq_on_queue HQClose (b\<lparr>mq_closed := True\<rparr>);
       b2 = mq_emit disconnected (b1\<lparr>mq_handlerQueue := None, mq_needsReconciliation := False, mq_retryQueue := rq_clear (mq_retryQueue b1)\<rparr>) in
     b2\<lparr>mq_handler := False, mq_reconnectTimer := False, mq_reconnectAttempt := 0, mq_channel := None, mq_publishChannel := None, mq_connection := None,
        mq_consumerTag := None, mq_queueName := None\<rparr>)"

definition consuming :: "RabbitMQEventBus \<Rightarrow> bool" where
  "consuming b \<longleftrightarrow> \<not> mq_handler b \<or> mq_consumerTag b \<noteq> None"

section \<open>Publishing\<close>

text \<open>As for the other buses, with a check that the publish channel is there.\<close>

definition mq_publishNow :: "'x event_env_scheme \<Rightarrow> jsval \<Rightarrow> RabbitMQEventBus \<Rightarrow> (serialize_error option) + bytes" where
  "mq_publishNow E event b = (if mq_publishChannel b = None then Inl None
     else case encodeInvalidationEvent E event of Inl e \<Rightarrow> Inl (Some e) | Inr xs \<Rightarrow> Inr xs)"

definition mq_publish_begin :: "'x event_env_scheme \<Rightarrow> RabbitMQEventBus \<Rightarrow> (js_error + (nat \<times> jsval) option) \<times> RabbitMQEventBus" where
  "mq_publish_begin E b = (if mq_publishChannel b = None then (Inl (Error ''RabbitMQEventBus must be initialized before publishing.''), b)
     else let r = rq_flush E (mq_retryQueue b) in (Inr (snd r), b\<lparr>mq_retryQueue := fst r\<rparr>))"

definition mq_flush_answer :: "'x event_env_scheme \<Rightarrow> bool \<Rightarrow> RabbitMQEventBus \<Rightarrow> (nat \<times> jsval) option \<times> RabbitMQEventBus" where
  "mq_flush_answer E ok b = (let r = rq_published E ok (mq_retryQueue b) in (snd r, b\<lparr>mq_retryQueue := fst r\<rparr>))"

definition mq_flush_end :: "RabbitMQEventBus \<Rightarrow> RabbitMQEventBus" where
  "mq_flush_end b = b\<lparr>mq_retryQueue := rq_flushed (mq_retryQueue b)\<rparr>"

definition mq_publish_failed :: "'x event_env_scheme \<Rightarrow> nat \<Rightarrow> jsval \<Rightarrow> RabbitMQEventBus \<Rightarrow> RabbitMQEventBus" where
  "mq_publish_failed E i event b = b\<lparr>mq_retryQueue := snd (rq_enqueue E i event (mq_retryQueue b))\<rparr>"

section \<open>Runs\<close>

text \<open>One segment of any method, or an event of the connection; answers may come at any time and in any order.\<close>

inductive mq_step :: "'x event_env_scheme \<Rightarrow> RabbitMQEventBus \<Rightarrow> RabbitMQEventBus \<Rightarrow> bool" for E where
  init: "mq_step E b (snd (init_begin url b))"
| opened: "mq_initPromise b \<Longrightarrow> mq_step E b (init_end c b)"
| fires: "mq_reconnectTimer b \<Longrightarrow> mq_step E b (snd (reconnect_begin b))"
| reconnected: "mq_step E b (reconnect_end ok b)"
| channel_lost: "mq_step E b (onChannelClose c b)"
| connection_lost: "mq_step E b (onConnectionClose c b)"
| failed: "mq_step E b (mq_emit error_status b)"
| consume: "mq_step E b (snd (consume_begin b))"
| named: "mq_step E b (consume_named name b)"
| consumed: "mq_step E b (consume_end tag b)"
| cancelled: "mq_step E b (consumer_cancelled b)"
| message: "mq_step E b (mq_message ch tag xs b)"
| settles: "k < length (mq_queues b) \<Longrightarrow> hq_legal (HQSettle i ok) (mq_queues b ! k) \<Longrightarrow> mq_step E b (mq_delivered E k i ok b)"
| finishes: "k < length (mq_queues b) \<Longrightarrow> hq_legal (HQFinally i) (mq_queues b ! k) \<Longrightarrow> mq_step E b (mq_queue_step k (HQFinally i) b)"
| disconnects: "mq_step E b (mq_disconnect b)"
| publishes: "mq_step E b (snd (mq_publish_begin E b))"
| flushing: "rq_legal (RQPublished ok) (mq_retryQueue b) \<Longrightarrow> mq_step E b (snd (mq_flush_answer E ok b))"
| flushed: "rq_legal RQFlushed (mq_retryQueue b) \<Longrightarrow> mq_step E b (mq_flush_end b)"
| unpublished: "rq_legal (RQEnqueue i event) (mq_retryQueue b) \<Longrightarrow> mq_step E b (mq_publish_failed E i event b)"

section \<open>The invariant\<close>

definition mq_core :: "RabbitMQEventBus \<Rightarrow> bool" where
  "mq_core b \<longleftrightarrow> (mq_needsReconciliation b \<longrightarrow> error_status \<in> set (mq_statuses b))
     \<and> (\<forall>q \<in> set (mq_queues b). hq_inv q \<and> hq_ids q \<subseteq> {..<length (mq_items b)}) \<and> rq_inv (mq_retryQueue b) \<and> (\<forall>k. mq_handlerQueue b = Some k \<longrightarrow> k < length (mq_queues b))"

text \<open>The deliveries that were answered and those the queues still hold.\<close>

definition accounted :: "RabbitMQEventBus \<Rightarrow> nat multiset" where
  "accounted b = mset (map fst (mq_answers b)) + mset (concat (map hq_open (mq_queues b)))"

definition mq_inv :: "RabbitMQEventBus \<Rightarrow> bool" where
  "mq_inv b \<longleftrightarrow> mq_core b \<and> accounted b = mset [0..<length (mq_items b)] \<and> (told_subscribed (mq_statuses b) \<longrightarrow> mq_consumerTag b \<noteq> None)"

text \<open>What the callbacks of a queue leave alone; they announce a subscription only while there is a consumer.\<close>

definition mq_rest :: "RabbitMQEventBus \<Rightarrow> RabbitMQEventBus" where
  "mq_rest b = b\<lparr>mq_needsReconciliation := False, mq_statuses := [], mq_queues := [], mq_answers := []\<rparr>"

definition mq_honest :: "RabbitMQEventBus \<Rightarrow> RabbitMQEventBus \<Rightarrow> bool" where
  "mq_honest b b' \<longleftrightarrow> mq_core b' \<and> mq_rest b' = mq_rest b \<and> length (mq_queues b') = length (mq_queues b)
     \<and> (told_subscribed (mq_statuses b') \<longrightarrow> told_subscribed (mq_statuses b) \<or> mq_consumerTag b \<noteq> None)"

lemma mq_restD:
  assumes "mq_rest b' = mq_rest b"
  shows "mq_items b' = mq_items b" "mq_consumerTag b' = mq_consumerTag b" "mq_handlerQueue b' = mq_handlerQueue b" "mq_retryQueue b' = mq_retryQueue b" "mq_closed b' = mq_closed b"
    "mq_options b' = mq_options b"
  using assms by (cases b; cases b'; simp add: mq_rest_def)+

lemma mq_honestD:
  assumes "mq_honest b b'"
  shows "mq_core b'" "mq_items b' = mq_items b" "mq_consumerTag b' = mq_consumerTag b" "mq_closed b' = mq_closed b" "mq_options b' = mq_options b"
    "told_subscribed (mq_statuses b') \<longrightarrow> told_subscribed (mq_statuses b) \<or> mq_consumerTag b \<noteq> None"
proof -
  have r: "mq_rest b' = mq_rest b" using assms unfolding mq_honest_def by blast
  show "mq_core b'" "told_subscribed (mq_statuses b') \<longrightarrow> told_subscribed (mq_statuses b) \<or> mq_consumerTag b \<noteq> None" using assms unfolding mq_honest_def by blast+
  show "mq_items b' = mq_items b" "mq_consumerTag b' = mq_consumerTag b" "mq_closed b' = mq_closed b" "mq_options b' = mq_options b" by (rule mq_restD [OF r])+
qed

lemma mq_emit_frame [simp]: "mq_statuses (mq_emit x b) = mq_statuses b @ [x]" "mq_rest (mq_emit x b) = mq_rest b" "mq_queues (mq_emit x b) = mq_queues b" "mq_answers (mq_emit x b) = mq_answers b"
  "mq_needsReconciliation (mq_emit x b) = mq_needsReconciliation b"
  by (simp_all add: mq_emit_def mq_rest_def)

lemmas mq_emit_fields [simp] = mq_restD [OF mq_emit_frame(2)]

lemma mq_callback_core:
  assumes "mq_core b"
  shows "mq_honest b (mq_callback c b) \<and> mq_queues (mq_callback c b) = mq_queues b \<and> map fst (mq_answers (mq_callback c b)) = map fst (mq_answers b) @ settled_in [c]"
  using assms by (cases c) (auto simp: mq_honest_def mq_callback_def markDeliveryGap_def reconcileIfIdle_def mq_settle_def mq_core_def mq_rest_def mq_emit_def)

lemma mq_callback_rest: "mq_rest (mq_callback c b) = mq_rest b"
  by (cases c) (simp_all add: mq_callback_def markDeliveryGap_def reconcileIfIdle_def mq_settle_def mq_rest_def mq_emit_def)

lemma mq_honest_trans: "mq_honest a b \<Longrightarrow> mq_honest b c \<Longrightarrow> mq_honest a c"
  using mq_restD(2) [of b a] by (simp add: mq_honest_def) blast

lemma mq_callbacks_core:
  "mq_core b \<Longrightarrow> mq_honest b (fold mq_callback cs b) \<and> mq_queues (fold mq_callback cs b) = mq_queues b
    \<and> map fst (mq_answers (fold mq_callback cs b)) = map fst (mq_answers b) @ settled_in cs"
proof (induction cs arbitrary: b)
  case (Cons c cs)
  have s: "settled_in (c # cs) = settled_in [c] @ settled_in cs" by (cases c) simp_all
  note h = mq_callback_core [OF Cons.prems, of c]
  then have "mq_core (mq_callback c b)" by (simp add: mq_honest_def)
  note i = Cons.IH [OF this]
  show ?case using h i mq_honest_trans [of b "mq_callback c b" "fold mq_callback cs (mq_callback c b)"] s by simp
qed (simp add: mq_honest_def)

lemma mset_concat_update: "k < length xs \<Longrightarrow> mset (concat (map f (xs[k := y]))) + mset (f (xs ! k)) = mset (concat (map f xs)) + mset (f y)"
  by (induction xs arbitrary: k) (auto split: nat.splits simp: add.assoc add.left_commute)

lemma mq_queue_step_core:
  assumes "mq_core b" "k < length (mq_queues b)" "hq_legal e (mq_queues b ! k)" "set (hq_arrived e) \<subseteq> {..<length (mq_items b)}" "b' = mq_queue_step k e b"
  shows "mq_honest b b'" "accounted b' = accounted b + mset (hq_accepts e (mq_queues b ! k))"
proof -
  let ?q = "mq_queues b ! k"
  let ?b = "b\<lparr>mq_queues := (mq_queues b)[k := fst (hq_step e ?q)]\<rparr>"
  have b': "b' = fold mq_callback (snd (hq_calls e ?q)) ?b" using assms(5) by (simp add: mq_queue_step_def hq_step_def Let_def)
  have q: "hq_inv ?q" "hq_ids ?q \<subseteq> {..<length (mq_items b)}" using assms(1) nth_mem [OF assms(2)] by (auto simp: mq_core_def)
  have "hq_inv (fst (hq_step e ?q))" "hq_ids (fst (hq_step e ?q)) \<subseteq> {..<length (mq_items b)}"
    using hq_step_inv [OF q(1) assms(3)] hq_step_ids [of e ?q] q(2) assms(4) by auto
  then have core: "mq_core ?b" using assms(1) set_update_subset_insert [of "mq_queues b" k "fst (hq_step e ?q)"] by (auto simp: mq_core_def)
  note c = mq_callbacks_core [OF core, of "snd (hq_calls e ?q)", folded b']
  have "mset (concat (map hq_open (mq_queues b'))) + mset (hq_open ?q) = mset (concat (map hq_open (mq_queues b))) + mset (hq_open (fst (hq_step e ?q)))"
    using mset_concat_update [OF assms(2), of hq_open] c by simp
  then have "accounted b' + mset (hq_open ?q) = accounted b + mset (hq_accepts e ?q) + mset (hq_open ?q)"
    using c hq_step_settles [OF q(1) assms(3)] by (simp add: accounted_def add.assoc add.left_commute)
  then show "accounted b' = accounted b + mset (hq_accepts e ?q)" by simp
  show "mq_honest b b'" using c by (simp add: mq_honest_def mq_rest_def)
qed

text \<open>Links of the bus that the invariant does not read.\<close>

lemma mq_links [simp]:
  "mq_core (b\<lparr>mq_initPromise := x\<rparr>) = mq_core b" "mq_core (b\<lparr>mq_reconnectTimer := x\<rparr>) = mq_core b" "mq_core (b\<lparr>mq_reconnectAttempt := n\<rparr>) = mq_core b"
  "mq_core (b\<lparr>mq_closed := x\<rparr>) = mq_core b" "mq_core (b\<lparr>mq_handler := x\<rparr>) = mq_core b" "mq_core (b\<lparr>mq_queueName := y\<rparr>) = mq_core b" "mq_core (b\<lparr>mq_connectionUrl := x\<rparr>) = mq_core b"
  "mq_core (b\<lparr>mq_connection := c\<rparr>) = mq_core b" "mq_core (b\<lparr>mq_channel := c\<rparr>) = mq_core b" "mq_core (b\<lparr>mq_publishChannel := c\<rparr>) = mq_core b"
  "mq_core (b\<lparr>mq_consumerTag := y\<rparr>) = mq_core b"
  by (simp_all add: mq_core_def)

lemma accounted_links [simp]:
  "accounted (b\<lparr>mq_initPromise := x\<rparr>) = accounted b" "accounted (b\<lparr>mq_reconnectTimer := x\<rparr>) = accounted b" "accounted (b\<lparr>mq_reconnectAttempt := n\<rparr>) = accounted b"
  "accounted (b\<lparr>mq_closed := x\<rparr>) = accounted b" "accounted (b\<lparr>mq_handler := x\<rparr>) = accounted b" "accounted (b\<lparr>mq_queueName := y\<rparr>) = accounted b" "accounted (b\<lparr>mq_connectionUrl := x\<rparr>) = accounted b"
  "accounted (b\<lparr>mq_connection := c\<rparr>) = accounted b" "accounted (b\<lparr>mq_channel := c\<rparr>) = accounted b" "accounted (b\<lparr>mq_publishChannel := c\<rparr>) = accounted b"
  "accounted (b\<lparr>mq_consumerTag := y\<rparr>) = accounted b" "accounted (b\<lparr>mq_handlerQueue := k\<rparr>) = accounted b" "accounted (b\<lparr>mq_needsReconciliation := x\<rparr>) = accounted b"
  "accounted (b\<lparr>mq_retryQueue := r\<rparr>) = accounted b" "accounted (mq_emit s b) = accounted b" "accounted (b\<lparr>mq_items := is\<rparr>) = accounted b"
  by (simp_all add: accounted_def)

lemma mq_emit_core [simp]: "mq_core b \<Longrightarrow> mq_core (mq_emit s b)"
  by (auto simp: mq_core_def)

lemma scheduleReconnect_inv [simp]: "mq_inv (scheduleReconnect b) = mq_inv b"
  by (simp add: scheduleReconnect_def mq_inv_def)

lemma mq_on_queue_core:
  assumes "mq_core b" "e = HQDiscard \<or> e = HQClose"
  shows "mq_honest b (mq_on_queue e b) \<and> accounted (mq_on_queue e b) = accounted b"
proof (cases "mq_handlerQueue b")
  case (Some k)
  then have "k < length (mq_queues b)" using assms(1) by (simp add: mq_core_def)
  then show ?thesis using mq_queue_step_core [OF assms(1) _ _ _ refl, of k e] assms(2) Some by (auto simp: mq_on_queue_def hq_accepts_def)
qed (simp add: mq_on_queue_def mq_honest_def assms(1))

lemma mq_on_queue_rest: "mq_rest (mq_on_queue e b) = mq_rest b"
proof -
  have "mq_rest (fold mq_callback cs x) = mq_rest x" for cs x by (induction cs arbitrary: x) (simp_all add: mq_callback_rest)
  then have "mq_rest (mq_queue_step k e b) = mq_rest (b\<lparr>mq_queues := qs\<rparr>)" if "qs = (mq_queues b)[k := fst (fst (hq_calls e (mq_queues b ! k)))]" for k qs
    using that by (simp add: mq_queue_step_def Let_def)
  then show ?thesis by (cases "mq_handlerQueue b") (simp_all add: mq_on_queue_def, simp add: mq_rest_def)
qed

text \<open>Losing the consumer: the queue is emptied and the listeners are told, with any links of the bus already cleared.\<close>

lemma mq_lost_inv:
  assumes "mq_core b" "accounted b = mset [0..<length (mq_items b)]"
  shows "mq_inv (mq_emit disconnected (mq_on_queue HQDiscard b))"
proof -
  have h: "mq_honest b (mq_on_queue HQDiscard b)" "accounted (mq_on_queue HQDiscard b) = accounted b" using mq_on_queue_core [OF assms(1), of HQDiscard] by simp_all
  show ?thesis using mq_honestD(1,2) [OF h(1)] h(2) assms(2) by (simp add: mq_inv_def)
qed

lemma drop_connection_inv: "mq_inv b \<Longrightarrow> mq_inv (drop_connection b)"
  unfolding drop_connection_def by (rule mq_lost_inv) (simp_all add: mq_inv_def)

lemma mq_refuse_inv:
  assumes "mq_core b" "accounted b + {#i#} = mset [0..<length (mq_items b)]" "told_subscribed (mq_statuses b) \<longrightarrow> mq_consumerTag b \<noteq> None"
  shows "mq_inv (mq_refuse i b)"
proof -
  have "mq_inv (mq_settle i False (markDeliveryGap b))"
    using assms by (auto simp: mq_inv_def mq_settle_def markDeliveryGap_def mq_core_def accounted_def)
  then show ?thesis by (auto simp: mq_refuse_def reconcileIfIdle_def mq_inv_def mq_core_def)
qed

lemma mq_message_inv:
  assumes "mq_inv b"
  shows "mq_inv (mq_message ch tag xs b)"
proof -
  let ?i = "length (mq_items b)" and ?b = "b\<lparr>mq_items := mq_items b @ [(ch, tag)]\<rparr>"
  have "hq_ids q \<subseteq> {..<length (mq_items ?b)}" if "q \<in> set (mq_queues b)" for q
  proof -
    have "hq_ids q \<subseteq> {..<?i}" using assms that by (simp add: mq_inv_def mq_core_def)
    then show ?thesis by (auto intro: less_SucI)
  qed
  then have c: "mq_core ?b" using assms by (simp add: mq_inv_def mq_core_def)
  have a: "accounted ?b + {#?i#} = mset [0..<length (mq_items ?b)]" using assms by (simp add: mq_inv_def)
  have t: "told_subscribed (mq_statuses ?b) \<longrightarrow> mq_consumerTag ?b \<noteq> None" using assms by (simp add: mq_inv_def)
  show ?thesis
  proof (cases "mq_handlerQueue b")
    case None
    then show ?thesis using mq_refuse_inv [OF c a t] by (simp add: mq_message_def Let_def)
  next
    case (Some k)
    let ?e = "HQEnqueue ?i xs" and ?b2 = "mq_queue_step k (HQEnqueue ?i xs) ?b"
    have k: "k < length (mq_queues ?b)" using c Some by (simp add: mq_core_def)
    then have "hq_ids (mq_queues b ! k) \<subseteq> {..<?i}" using assms by (simp add: mq_inv_def mq_core_def)
    then have "hq_legal ?e (mq_queues ?b ! k)" by (auto simp: hq_ids_def)
    note q = mq_queue_step_core [OF c k this _ refl]
    have h: "mq_honest ?b ?b2" and acc: "accounted ?b2 = accounted ?b + mset (hq_accepts ?e (mq_queues b ! k))" using q by simp_all
    note i = mq_honestD(2,3) [OF h] and c2 = mq_honestD(1) [OF h]
    have t2: "told_subscribed (mq_statuses ?b2) \<longrightarrow> mq_consumerTag ?b2 \<noteq> None" using mq_honestD(6) [OF h] t unfolding i(2) by blast
    show ?thesis
    proof (cases "fst (hq_enqueueItem ?i xs (mq_queues b ! k))")
      case True
      then have "mq_inv ?b2" using c2 t2 a acc i(1) by (simp add: mq_inv_def hq_accepts_def)
      then show ?thesis using Some True by (simp add: mq_message_def Let_def)
    next
      case False
      then have "accounted ?b2 + {#?i#} = mset [0..<length (mq_items ?b2)]" using a acc i(1) by (simp add: hq_accepts_def)
      then show ?thesis using mq_refuse_inv [OF c2 _ t2, of ?i] Some False by (simp add: mq_message_def Let_def)
    qed
  qed
qed

lemma mq_queue_inv:
  assumes "mq_inv b" "k < length (mq_queues b)" "hq_legal e (mq_queues b ! k)" "hq_arrived e = []"
  shows "mq_inv (mq_queue_step k e b)"
proof -
  have "mq_core b" using assms(1) by (simp add: mq_inv_def)
  note q = mq_queue_step_core [OF this assms(2,3) _ refl]
  have h: "mq_honest b (mq_queue_step k e b)" using q(1) assms(4) by simp
  have "accounted (mq_queue_step k e b) = accounted b" using q(2) assms(4) by (cases e) (simp_all add: hq_accepts_def)
  then show ?thesis using mq_honestD(1-3,6) [OF h] assms(1) unfolding mq_inv_def by metis
qed

lemma mq_retry_inv: "mq_inv b \<Longrightarrow> rq_legal e (mq_retryQueue b) \<Longrightarrow> mq_inv (b\<lparr>mq_retryQueue := rq_step E e (mq_retryQueue b)\<rparr>)"
  using rq_step_spec [of "mq_retryQueue b" e E] by (simp add: mq_inv_def mq_core_def)

lemma mq_disconnect_inv:
  assumes "mq_inv b"
  shows "mq_inv (mq_disconnect b)"
proof -
  let ?b = "mq_on_queue HQClose (b\<lparr>mq_closed := True\<rparr>)"
  have h: "mq_honest (b\<lparr>mq_closed := True\<rparr>) ?b" "accounted ?b = accounted b" using mq_on_queue_core [of "b\<lparr>mq_closed := True\<rparr>" HQClose] assms by (simp_all add: mq_inv_def)
  have i: "mq_items ?b = mq_items b" using mq_honestD(2) [OF h(1)] by simp
  have "mq_core (?b\<lparr>mq_handlerQueue := None, mq_needsReconciliation := False, mq_retryQueue := rq_clear (mq_retryQueue ?b)\<rparr>)"
    using rq_clear_spec [of "mq_retryQueue ?b"] mq_honestD(1) [OF h(1)] by (simp add: mq_core_def)
  then show ?thesis using h(2) i assms by (simp add: mq_disconnect_def Let_def mq_inv_def)
qed

lemma created_empty: "createHandlerQueue options = Inr q \<Longrightarrow> hq_inv q \<and> hq_ids q = {} \<and> hq_open q = []"
  unfolding createHandlerQueue_def by (drule new_handler_queue_inv) (simp add: hq_ids_def hq_open_def)

lemma consume_begin_inv:
  assumes "mq_inv b"
  shows "mq_inv (snd (consume_begin b))"
proof (cases "mq_channel b")
  case (Some c)
  have b1: "mq_inv (b\<lparr>mq_handler := True\<rparr>)" using assms by (simp add: mq_inv_def)
  have "mq_inv (b\<lparr>mq_handler := True, mq_handlerQueue := Some (length (mq_queues b)), mq_queues := mq_queues b @ [q]\<rparr>)" if "createHandlerQueue (mq_options b) = Inr q" for q
  proof -
    show ?thesis using assms created_empty [OF that] by (auto simp: mq_inv_def mq_core_def accounted_def less_Suc_eq)
  qed
  then show ?thesis using b1 Some by (auto simp: consume_begin_def Let_def split: option.splits sum.splits)
qed (simp add: consume_begin_def assms)

lemma mq_inv_step: "mq_step E b b' \<Longrightarrow> mq_inv b \<Longrightarrow> mq_inv b'"
proof (induction rule: mq_step.induct)
  case (init b url)
  then show ?case by (simp add: init_begin_def mq_inv_def)
next
  case (opened b c)
  then show ?case by (cases c) (simp_all add: init_end_def mq_inv_def)
next
  case (fires b)
  then show ?case by (simp add: reconnect_begin_def mq_inv_def Let_def)
next
  case (reconnected b ok)
  then have "mq_inv (mq_emit error_status b)" "mq_inv (b\<lparr>mq_reconnectAttempt := 0\<rparr>)" by (simp_all add: mq_inv_def)
  then show ?case by (simp add: reconnect_end_def)
next
  case (channel_lost b c)
  then show ?case by (simp add: onChannelClose_def drop_connection_inv)
next
  case (connection_lost b c)
  then show ?case by (simp add: onConnectionClose_def drop_connection_inv Let_def)
next
  case (failed b)
  then show ?case by (simp add: mq_inv_def)
next
  case (consume b)
  then show ?case by (rule consume_begin_inv)
next
  case (named b name)
  then show ?case by (simp add: consume_named_def mq_inv_def)
next
  case (consumed b tag)
  then show ?case by (simp add: consume_end_def mq_inv_def)
next
  case (cancelled b)
  then have "mq_inv (mq_emit disconnected (mq_on_queue HQDiscard (b\<lparr>mq_consumerTag := None\<rparr>)))" by (intro mq_lost_inv) (simp_all add: mq_inv_def)
  then show ?case by (simp add: consumer_cancelled_def)
next
  case (message b ch tag xs)
  then show ?case by (rule mq_message_inv)
next
  case (settles k b i ok)
  then have "mq_inv (mq_queue_step k (HQSettle i r) b)" for r by (intro mq_queue_inv) simp_all
  then show ?case using settles by (simp add: mq_delivered_def split: option.splits sum.splits)
next
  case (finishes k b i)
  then show ?case by (intro mq_queue_inv) simp_all
next
  case (disconnects b)
  then show ?case by (rule mq_disconnect_inv)
next
  case (publishes b)
  then show ?case using mq_retry_inv [of b RQFlush E] by (simp add: mq_publish_begin_def Let_def)
next
  case (flushing ok b)
  then show ?case using mq_retry_inv [of b "RQPublished ok" E] by (simp add: mq_flush_answer_def Let_def)
next
  case (flushed b)
  then show ?case using mq_retry_inv [of b RQFlushed E] by (simp add: mq_flush_end_def)
next
  case (unpublished i event b)
  then show ?case using mq_retry_inv [of b "RQEnqueue i event" E] by (simp add: mq_publish_failed_def)
qed

lemma new_rabbit_inv: "newRabbitMQEventBus options = Inr b \<Longrightarrow> mq_inv b"
  using new_retry_queue_inv [of "mqo_retryQueue options"] created_empty [of options]
  by (auto simp: newRabbitMQEventBus_def mq_inv_def mq_core_def accounted_def split: sum.splits if_splits)

interpretation rabbit: status_bus "mq_step E" mq_inv mq_statuses "\<lambda>b. mq_consumerTag b \<noteq> None" for E
proof unfold_locales
  show "mq_inv b'" if "mq_step E b b'" "mq_inv b" for b b' using that by (rule mq_inv_step)
qed (simp add: mq_inv_def)

section \<open>Properties\<close>

text \<open>
  C27. Every delivery of the RabbitMQ bus is answered exactly once: in every run of a new bus, the deliveries that
  were acknowledged or refused, each at most once, together with those its handler queues still hold are
  all that ever arrived, through overflows, lost connections, cancelled consumers and disconnects. And
  its statuses can be trusted: listeners that were last told \<open>subscribed\<close> listen to a bus with a consumer, and a gap
  still to be reconciled has been reported.
\<close>

theorem rabbit_answers_once:
  assumes "newRabbitMQEventBus options = Inr b0" "(mq_step E)\<^sup>*\<^sup>* b0 b"
  shows "mset (map fst (mq_answers b)) + mset (concat (map hq_open (mq_queues b))) = mset [0..<length (mq_items b)] \<and> distinct (map fst (mq_answers b))
    \<and> (told_subscribed (mq_statuses b) \<longrightarrow> mq_consumerTag b \<noteq> None) \<and> (mq_needsReconciliation b \<longrightarrow> error_status \<in> set (mq_statuses b))"
proof -
  have "mq_inv b" by (rule rabbit.run_keeps [OF assms(2) new_rabbit_inv [OF assms(1)]])
  then have i: "mq_core b" "mset (map fst (mq_answers b) @ concat (map hq_open (mq_queues b))) = mset [0..<length (mq_items b)]"
    "told_subscribed (mq_statuses b) \<longrightarrow> mq_consumerTag b \<noteq> None" by (simp_all add: mq_inv_def accounted_def)
  then have "distinct (map fst (mq_answers b) @ concat (map hq_open (mq_queues b)))" using mset_eq_imp_distinct_iff distinct_upt by blast
  then show ?thesis using i by (simp add: mq_core_def)
qed

text \<open>
  C40. A reconnect undoes a disconnect: when \<open>disconnect\<close> is called while a reconnect waits for its connection, the bus
  is closed and its handler forgotten, but the reconnect goes on: the new connection opens the bus again, the
  handler it had read before is subscribed, and the bus consumes and reports \<open>subscribed\<close>.
\<close>

theorem reconnect_undoes_disconnect:
  assumes "createHandlerQueue (mq_options b) = Inr q" "mq_handler b" "\<not> mq_closed b" "\<not> isInitialized b" "\<not> mq_initPromise b"
  shows "\<exists>b1 b2. reconnect_begin b = (Some True, b1) \<and> init_begin True b1 = (InitOpens, b2) \<and> mq_closed (mq_disconnect b2) \<and> \<not> mq_handler (mq_disconnect b2)
    \<and> (\<exists>b3. consume_begin (init_end (Some c) (mq_disconnect b2)) = (Inr (Some c), b3)
        \<and> (let b4 = consume_end tag b3 in mq_handler b4 \<and> \<not> mq_closed b4 \<and> isInitialized b4 \<and> mq_consumerTag b4 = Some tag \<and> told_subscribed (mq_statuses b4)))"
proof -
  let ?b1 = "b\<lparr>mq_reconnectTimer := False\<rparr>" and ?b2 = "b\<lparr>mq_reconnectTimer := False, mq_initPromise := True\<rparr>"
  have r: "reconnect_begin b = (Some True, ?b1)" "init_begin True ?b1 = (InitOpens, ?b2)" using assms by (simp_all add: reconnect_begin_def init_begin_def isInitialized_def Let_def)
  note o = mq_restD(5,6) [OF mq_on_queue_rest [of HQClose "?b2\<lparr>mq_closed := True\<rparr>"]]
  have d: "mq_closed (mq_disconnect ?b2)" "\<not> mq_handler (mq_disconnect ?b2)" "mq_consumerTag (mq_disconnect ?b2) = None" "mq_handlerQueue (mq_disconnect ?b2) = None"
    "mq_options (mq_disconnect ?b2) = mq_options b" using o by (simp_all add: mq_disconnect_def Let_def mq_emit_def)
  then show ?thesis using r assms(1) by (simp add: init_end_def consume_begin_def consume_end_def isInitialized_def mq_emit_def Let_def)
qed

section \<open>Witnesses\<close>

definition demo_mq_options :: RabbitMQEventBusOptions where
  "demo_mq_options = \<lparr>mqo_url = True, mqo_prefetch = None, mqo_handlerConcurrency = Some (jint 1), mqo_handlerMaxSize = None, mqo_handlerMaxBytes = None, mqo_retryQueue = demo_rq_options\<rparr>"

definition demo_mq :: RabbitMQEventBus where
  "demo_mq = \<lparr>mq_options = demo_mq_options, mq_connection = None, mq_channel = None, mq_publishChannel = None, mq_consumerTag = None, mq_queueName = None, mq_handler = False,
     mq_connectionUrl = False, mq_initPromise = False, mq_reconnectTimer = False, mq_reconnectAttempt = 0, mq_closed = False, mq_retryQueue = demo_rq, mq_handlerQueue = Some 0,
     mq_needsReconciliation = False, mq_statuses = [], mq_queues = [demo_hq], mq_items = [], mq_answers = []\<rparr>"

lemma demo_mq_queue: "createHandlerQueue demo_mq_options = Inr demo_hq"
  using demo_hq_new by (simp add: createHandlerQueue_def demo_mq_options_def newEventBusHandlerQueue_def Let_def)

lemma demo_mq_new: "newRabbitMQEventBus demo_mq_options = Inr demo_mq"
proof -
  have "prefetch demo_mq_options = jint 32" "mqo_retryQueue demo_mq_options = demo_rq_options" by (simp_all add: prefetch_def demo_mq_options_def DEFAULT_RABBITMQ_PREFETCH_def)
  then show ?thesis using demo_mq_queue demo_rq_new by (simp add: newRabbitMQEventBus_def demo_mq_def MAX_SAFE_INTEGER_def)
qed

theorem rabbit_answers_once_witness:
  "\<exists>b. (mq_step demo_event_env)\<^sup>*\<^sup>* demo_mq b \<and> mq_items b = [(5, 7)] \<and> mq_answers b = [(0, False)] \<and> concat (map hq_open (mq_queues b)) = []"
proof -
  let ?b = "mq_message 5 7 [] (mq_disconnect demo_mq)"
  have "mq_step demo_event_env demo_mq (mq_disconnect demo_mq)" "mq_step demo_event_env (mq_disconnect demo_mq) ?b" by (rule mq_step.disconnects, rule mq_step.message)
  then have r: "(mq_step demo_event_env)\<^sup>*\<^sup>* demo_mq ?b" by (meson converse_rtranclp_into_rtranclp r_into_rtranclp)
  have b: "mq_items ?b = [(5, 7)]" "mq_answers ?b = [(0, False)]"
    by (simp_all add: mq_disconnect_def demo_mq_def mq_on_queue_def mq_queue_step_def hq_close_def demo_hq_def mq_message_def mq_refuse_def reconcileIfIdle_def mq_settle_def
        markDeliveryGap_def mq_emit_def Let_def)
  show ?thesis using rabbit_answers_once [OF demo_mq_new r] r b by (intro exI [of _ ?b]) simp
qed

theorem reconnect_undoes_disconnect_witness:
  "\<exists>b1 b2. reconnect_begin (demo_mq\<lparr>mq_handler := True\<rparr>) = (Some True, b1) \<and> init_begin True b1 = (InitOpens, b2) \<and> mq_closed (mq_disconnect b2)
    \<and> (\<exists>b3. consume_begin (init_end (Some 3) (mq_disconnect b2)) = (Inr (Some 3), b3) \<and> told_subscribed (mq_statuses (consume_end (js ''t'') b3)))"
proof -
  have "createHandlerQueue (mq_options (demo_mq\<lparr>mq_handler := True\<rparr>)) = Inr demo_hq" "mq_handler (demo_mq\<lparr>mq_handler := True\<rparr>)" "\<not> mq_closed (demo_mq\<lparr>mq_handler := True\<rparr>)"
    "\<not> isInitialized (demo_mq\<lparr>mq_handler := True\<rparr>)" "\<not> mq_initPromise (demo_mq\<lparr>mq_handler := True\<rparr>)"
    using demo_mq_queue by (simp_all add: demo_mq_def isInitialized_def)
  from reconnect_undoes_disconnect [OF this, of 3 "js ''t''"] show ?thesis unfolding Let_def by blast
qed

end
