(* ===== verification/Spec2Isabelle.thy ===== *)
theory Spec2Isabelle
  imports Circuit_Breaker Memory_Budget Transactions Redis_Transport Load_Gates Pattern Record_Format Handler_Queue Retry_Queue Cache_Eviction Cache_Events L2_Calls Single_Flight Redis_Deletion Worker_Cache Invalidation_Queue Collector Redis_Bus Rabbit_Bus
begin

text \<open>
  LazyLayers is a two-level cache: an in-process L1 of encoded values, a shared L2 (Redis or a KV store),
  an event bus that carries invalidations between processes, and a Redis-backed coordinator for
  idempotent operations. This library models its TypeScript sources (paths below are relative to
  \<open>src/src\<close>) as functions on explicit states and proves what the parts promise each other.

  \<^bold>\<open>Foundations.\<close> \<open>LL_Prelude\<close> has the theorem collections (\<open>ll_simps\<close>, \<open>ll_inv\<close>), JavaScript numbers
  (\<open>jsnum\<close>: a real, NaN or an infinity, with \<open>fl\<close> for rounding to a double), UTF-16 strings (\<open>jsstr\<close>), errors
  (\<open>js_error\<close>); \<open>JS_Map\<close> models \<open>Map\<close> behind the locale \<open>js_map\<close>: an association
  list in insertion order, with sums over its entries; \<open>JS_Value\<close> the values a cache can hold; \<open>Decimal\<close>
  the decimal strings of the coordination protocol.

  \<^bold>\<open>Cache core.\<close>
  \<^item> \<open>Cache_Options\<close> (\<open>types/core.types.ts\<close>, \<open>cache/defaults.ts\<close>): options, defaults, budget validation.
  \<^item> \<open>Memory_Budget\<close> (\<open>cache/memoryBudget.ts\<close>): the byte ledger all caches of a process share, its sampling
    under memory pressure and its eviction through registered clients. The locale \<open>budget_clients\<close> states
    what it relies on of them.
  \<^item> \<open>Memory_Store\<close> (\<open>cache/memoryStore.ts\<close>): the L1. The \<open>lru-cache\<close> package is the parameter \<open>lru\<close>, a record of
    its operations; \<open>lru_laws\<close> names the documented behaviour the store relies on, and a list-based LRU
    meets them. Every operation keeps the byte ledger; a refused write leaves no obsolete value.
  \<^item> \<open>Cache_State\<close> (\<open>cache/hybridCache.ts\<close>): the state of a cache and each of its synchronous methods (stale
    values, negative cache, in-flight entries, generations, seen events, key revisions, trust, closing).
    Between two awaits the program runs without interruption, so these are the atomic steps.
  \<^item> \<open>Cache_Ledger\<close>: every method keeps the ledger (\<open>hc_keeps\<close>). \<open>Cache_Guards\<close>: every method only ages the
    mutation guards (\<open>ages\<close>). \<open>Cache_Runs\<close>: arbitrary interleavings of the steps; the two main theorems
    about them. \<open>Cache_Eviction\<close>: several caches on one budget, the interpretation of \<open>budget_clients\<close> on
    them, and the bound on one maintenance sample.
  \<^item> \<open>Cache_Operations\<close> (\<open>cache/hybridCache.ts\<close>): the asynchronous operations (\<open>set\<close>, \<open>get\<close>, the load and its publication,
    \<open>delete\<close>, \<open>deleteByPattern\<close>, remote events) as a start, the points where they wait, and what each does when it is
    resumed with the answer. \<open>Cache_Contents\<close>: which steps can add a value to the local tiers. \<open>Cache_Threads\<close>: every
    segment is a sequence of the steps of \<open>Cache_Runs\<close>. \<open>Cache_Concurrency\<close>: any number of operations interleaved
    refine those runs, an operation that was overtaken commits nothing, a deleted key stays deleted, and
    every operation ends.
  \<^item> \<open>Cache_Events\<close>: the subscriber of the cache; an event is applied once, and again only if applying it failed.
    \<open>Single_Flight\<close>: \<open>getOrSet\<close>, with at most one tracked load of a key. \<open>Distributed_Lock\<close> (\<open>cache/distributedLock.ts\<close> and
    its use): the lease of a load against the clock of the lock store, and the wait for the lock. \<open>L2_Calls\<close>: what a
    call on the shared tier retains, and what its outcome tells the breaker.
  \<^item> \<open>Circuit_Breaker\<close> (\<open>cache/circuitBreaker.ts\<close>), \<open>Load_Gates\<close> (\<open>cache/originLoadGate.ts\<close>,
    \<open>cache/l2OperationGate.ts\<close> and the gate of \<open>transactions/redisTransport.ts\<close>): admission to the origin and
    to L2. The three gates interpret one locale: limits, exact byte counts, first in first out, and no
    idle slot while somebody waits.
  \<^item> \<open>Pattern\<close> (\<open>cache/pattern.ts\<close>): the segment search with failure tables, equal to the meaning of the
    pattern; its loops are shown to end.

  \<^bold>\<open>Records on the wire.\<close> \<open>Utf8_Validation\<close> and \<open>Message_Pack\<close> (\<open>utils/decodeValidation.ts\<close>,
  \<open>utils/serializerPolicy.ts\<close>): the pre-decode scans, equal to reference grammars. \<open>Codecs\<close>
  (\<open>utils/codecs.ts\<close>), \<open>Serializer\<close> (\<open>utils/serializer.ts\<close>) and \<open>Record_Format\<close>
  (\<open>utils/portableSerializer.ts\<close>, \<open>utils/cacheSerializer.ts\<close>): round trips between every writer and reader.
  The compressors, msgpackr and JSON are parameters (\<open>codec_lib\<close>, \<open>codec_env\<close>) with the laws the round
  trips name.

  \<^bold>\<open>Shared tiers.\<close> \<open>Remote_Link\<close> is a connection on which a command may be delayed, or lost before or after it ran.
  \<^item> \<open>Redis_Keys\<close>, \<open>Redis_Store\<close>, \<open>Redis_Fencing\<close>, \<open>Redis_Deletion\<close> (\<open>cache/redisStore.ts\<close>, \<open>cache/redisPipeline.ts\<close>): the two
    key layouts and their parser; the store with its six scripts. The Redis commands are a parameter;
    the locale \<open>redis_laws\<close> states what is documented of them and is interpreted on a reference server. Shown: a fill publishes only while it owns its lock, a command takes
    effect at most once, values come back until they expire, a deletion by pattern is complete, the
    index is trimmed to its bound.
  \<^item> \<open>Kv_Wire\<close>, \<open>Kv_Store\<close> (\<open>cloudflare/kvWire.ts\<close>, \<open>cache/cloudflareKvStore.ts\<close>, \<open>cloudflare/index.ts\<close>): the records of Cloudflare KV
    to the bit, and the stores of the two runtimes, which read each other's records. \<open>Worker_Cache\<close>: the cache of the
    Worker runtime with its in-memory L1, under any interleaving. \<open>Invalidation_Queue\<close>
    (\<open>cloudflare/invalidationQueue.ts\<close>): the messages of the invalidation queue.

  \<^bold>\<open>Observability.\<close> \<open>Event_Encoding\<close> (\<open>observability/eventEncoding.ts\<close>): the byte count that bounds an event is the length
  of its JSON text. \<open>Collector\<close> (\<open>observability/collector.ts\<close>): counters and ring refine a log of all events.

  \<^bold>\<open>Event bus.\<close> \<open>Event_Codec\<close> (\<open>event-bus/eventCodec.ts\<close>), \<open>Handler_Queue\<close> (\<open>event-bus/handlerQueue.ts\<close>) and
  \<open>Retry_Queue\<close> (\<open>event-bus/retryQueue.ts\<close>): bounds of a decoded event, round trip, and the queues' limits,
  order and exactly-once settlement along any run. \<open>Bus_Status\<close> has the statuses and the contract of a bus, the locale
  \<open>status_bus\<close>: a bus that was last heard to be subscribed receives. \<open>Redis_Bus\<close> (\<open>event-bus/redisEventBus.ts\<close>) and \<open>Rabbit_Bus\<close>
  (\<open>event-bus/rabbitmqEventBus.ts\<close>) interpret it and drive both queues under any order of connection events and
  answers; every delivery of the second is answered exactly once. What a failed first subscription
  leaves behind in the one, and a disconnect during a reconnect in the other, is proved as well.

  \<^bold>\<open>Transactions.\<close> \<open>Operation_Script\<close> is the Lua script of \<open>transactions/scripts.ts\<close> as a function of the
  stored value and the clock; \<open>Operation_Protocol\<close> and \<open>Operation_Safety\<close> interleave any calls on a key:
  exclusion while a lease runs, finality of a completion, and that a free key can be acquired.
  \<open>Transaction_Keys\<close> (\<open>transactions/keys.ts\<close>), \<open>Operation_Store\<close> and \<open>Transactions\<close>
  (\<open>transactions/operationStore.ts\<close>) and \<open>Redis_Transport\<close> (\<open>transactions/redisTransport.ts\<close>): key
  separation, the classification of failures, and the lease controller against the script's own clock.

  \<^bold>\<open>Bounds and fuel.\<close> Loops of the code are recursive functions with a termination proof (the stale,
  negative and seen-event trimming by the size of the map, the UTF-8 scan by the position). The eviction
  loops of the L1 (16 per write) and of the budget (32 per sample) have the code's own bound. The search
  of \<open>Pattern\<close> is a partial function that is proved to return. An operation of a cache that waits is over
  after at most six resumptions once its loader has settled. Scans of Redis and KV take
  the pages the server returned as a list; a scan whose pages end before it does has no result.

  \<^bold>\<open>Not modelled.\<close> Sockets, timers and promises themselves: an asynchronous method appears as the synchronous
  segments between its awaits, a timer as the step it takes when it fires. The NATS bus drives
  third-party clients around the queues modelled here; the Redis capability and health probes
  only classify replies of a server; the KV and queue REST clients are single HTTP requests. The
  dashboard, its HTTP handlers, metrics texts, logging and telemetry are output only, and \<open>setup.ts\<close>
  reads the environment. The examples and the site are not part of the library.
\<close>

end
